(* ===== verification/Hodo_Prelude.thy ===== *)
theory Hodo_Prelude
  imports Main "HOL-Library.Word" "HOL-Library.Monad_Syntax"
begin

text \<open>
  Shared vocabulary of the development: machine integers and byte buffers, the
  little-endian integer codec that C's \<open>memcpy\<close> of an integer performs on x86-64, byte
  ranges of a buffer, the \<open>for\<close> loop that returns early, and the error numbers.

  Conventions used by every theory. A C function that can read or write outside an object
  (an array index out of range, a buffer overrun, a \<open>NULL\<close> dereference) is modelled with
  an \<open>option\<close> result: \<open>None\<close> is that memory fault (or a recursion that does not
  return), never an error code. Error codes are the negative \<open>int\<close> values the C code
  returns. State is passed explicitly.
\<close>

unbundle bit_operations_syntax

type_synonym u8 = "8 word"
type_synonym u16 = "16 word"
type_synonym u32 = "32 word"
type_synonym u64 = "64 word"
type_synonym bytes = "8 word list"

named_theorems const_simps \<open>numeric constants of the headers\<close>
named_theorems layout_simps \<open>struct field accessors over a byte buffer\<close>
named_theorems length_simps \<open>buffer lengths\<close>

section \<open>Error numbers\<close>

definition EPERM :: int where [const_simps]: "EPERM = 1"
definition ENOENT :: int where [const_simps]: "ENOENT = 2"
definition EIO :: int where [const_simps]: "EIO = 5"
definition EAGAIN :: int where [const_simps]: "EAGAIN = 11"
definition ENOMEM :: int where [const_simps]: "ENOMEM = 12"
definition EFAULT :: int where [const_simps]: "EFAULT = 14"
definition ENOTBLK :: int where [const_simps]: "ENOTBLK = 15"
definition EBUSY :: int where [const_simps]: "EBUSY = 16"
definition EINVAL :: int where [const_simps]: "EINVAL = 22"
definition ETXTBSY :: int where [const_simps]: "ETXTBSY = 26"
definition EFBIG :: int where [const_simps]: "EFBIG = 27"
definition EROFS :: int where [const_simps]: "EROFS = 30"
definition ENAMETOOLONG :: int where [const_simps]: "ENAMETOOLONG = 36"
definition ENOTEMPTY :: int where [const_simps]: "ENOTEMPTY = 39"
definition EOPNOTSUPP :: int where [const_simps]: "EOPNOTSUPP = 95"
definition EIOCBQUEUED :: int where [const_simps]: "EIOCBQUEUED = 529"

section \<open>Byte ranges of a buffer\<close>

definition get_bytes :: "nat \<Rightarrow> nat \<Rightarrow> bytes \<Rightarrow> bytes" where
  "get_bytes off n b = take n (drop off b)"

definition put_bytes :: "nat \<Rightarrow> bytes \<Rightarrow> bytes \<Rightarrow> bytes" where
  "put_bytes off xs b = take off b @ xs @ drop (off + length xs) b"

lemma length_get_bytes [length_simps]: "off + n \<le> length b \<Longrightarrow> length (get_bytes off n b) = n"
  by (simp add: get_bytes_def)

lemma length_put_bytes [length_simps]:
  "off + length xs \<le> length b \<Longrightarrow> length (put_bytes off xs b) = length b"
  by (simp add: put_bytes_def)

lemma get_put_same:
  "off + length xs \<le> length b \<Longrightarrow> n = length xs \<Longrightarrow> get_bytes off n (put_bytes off xs b) = xs"
  by (simp add: get_bytes_def put_bytes_def)

lemma get_put_before:
  assumes "o1 + n \<le> o2" and "o2 + length xs \<le> length b"
  shows "get_bytes o1 n (put_bytes o2 xs b) = get_bytes o1 n b"
proof -
  have "take n (drop o1 (take o2 b @ xs @ drop (o2 + length xs) b)) = take n (drop o1 (take o2 b))"
    using assms by simp
  also have "\<dots> = take n (drop o1 b)"
    using assms by (simp add: drop_take take_take min_def)
  finally show ?thesis by (simp add: get_bytes_def put_bytes_def)
qed

lemma get_put_after:
  assumes "o2 + length xs \<le> o1" and "o2 + length xs \<le> length b"
  shows "get_bytes o1 n (put_bytes o2 xs b) = get_bytes o1 n b"
  using assms by (simp add: get_bytes_def put_bytes_def)

lemma get_put_other:
  "o1 + n \<le> o2 \<or> o2 + length xs \<le> o1 \<Longrightarrow> o2 + length xs \<le> length b \<Longrightarrow>
   get_bytes o1 n (put_bytes o2 xs b) = get_bytes o1 n b"
  using get_put_before get_put_after by blast

lemma get_bytes_all: "length b = n \<Longrightarrow> get_bytes 0 n b = b"
  by (simp add: get_bytes_def)

lemma put_get_same: "off + n \<le> length b \<Longrightarrow> put_bytes off (get_bytes off n b) b = b"
  by (simp add: put_bytes_def get_bytes_def min_def) (metis append_take_drop_id add.commute drop_drop)

lemma nth_put_bytes:
  assumes "off + length xs \<le> length b" and "i < length b"
  shows "put_bytes off xs b ! i = (if off \<le> i \<and> i < off + length xs then xs ! (i - off) else b ! i)"
  using assms by (auto simp: put_bytes_def nth_append min_def)

lemma nth_get_bytes: "off + n \<le> length b \<Longrightarrow> i < n \<Longrightarrow> get_bytes off n b ! i = b ! (off + i)"
  by (simp add: get_bytes_def)

section \<open>Little-endian integers\<close>

fun le_bytes :: "nat \<Rightarrow> nat \<Rightarrow> bytes" where
  "le_bytes 0 x = []"
| "le_bytes (Suc n) x = of_nat x # le_bytes n (x div 256)"

fun le_val :: "bytes \<Rightarrow> nat" where
  "le_val [] = 0"
| "le_val (b # bs) = unat b + 256 * le_val bs"

lemma length_le_bytes [simp]: "length (le_bytes n x) = n"
  by (induction n arbitrary: x) auto

lemma unat_byte: "unat (of_nat x :: u8) = x mod 256"
  by (simp add: unat_of_nat)

lemma le_val_le_bytes: "le_val (le_bytes n x) = x mod 256 ^ n"
proof (induction n arbitrary: x)
  case 0
  then show ?case by simp
next
  case (Suc n)
  have "x mod (256 * 256 ^ n) = 256 * (x div 256 mod 256 ^ n) + x mod 256"
    by (rule mod_mult2_eq)
  then show ?case using Suc by (simp add: unat_byte)
qed

lemma le_val_less: "le_val bs < 256 ^ length bs"
proof (induction bs)
  case Nil
  then show ?case by simp
next
  case (Cons b bs)
  have "unat b < 256" using unsigned_less [of b, where ?'a = nat] by simp
  moreover have "Suc (le_val bs) \<le> 256 ^ length bs" using Cons by simp
  then have "256 * Suc (le_val bs) \<le> 256 * 256 ^ length bs" by (rule mult_le_mono2)
  ultimately show ?case by simp
qed

lemma le_bytes_le_val: "le_bytes (length bs) (le_val bs) = bs"
proof (induction bs)
  case Nil
  then show ?case by simp
next
  case (Cons b bs)
  have b: "unat b < 256" using unsigned_less [of b, where ?'a = nat] by simp
  have "(of_nat (unat b + 256 * le_val bs) :: u8) = b"
  proof (rule word_unat_eq_iff [THEN iffD2])
    show "unat (of_nat (unat b + 256 * le_val bs) :: u8) = unat b"
      using b by (simp only: unat_byte) simp
  qed
  moreover have "(unat b + 256 * le_val bs) div 256 = le_val bs" using b by simp
  ultimately show ?case using Cons by simp
qed

lemma le_val_replicate_0 [simp]: "le_val (replicate n 0) = 0"
  by (induction n) auto

definition u32_at :: "nat \<Rightarrow> bytes \<Rightarrow> u32" where
  "u32_at off b = of_nat (le_val (get_bytes off 4 b))"

definition u64_at :: "nat \<Rightarrow> bytes \<Rightarrow> u64" where
  "u64_at off b = of_nat (le_val (get_bytes off 8 b))"

definition u8_at :: "nat \<Rightarrow> bytes \<Rightarrow> u8" where
  "u8_at off b = of_nat (le_val (get_bytes off 1 b))"

definition set_u32 :: "nat \<Rightarrow> u32 \<Rightarrow> bytes \<Rightarrow> bytes" where
  "set_u32 off w b = put_bytes off (le_bytes 4 (unat w)) b"

definition set_u64 :: "nat \<Rightarrow> u64 \<Rightarrow> bytes \<Rightarrow> bytes" where
  "set_u64 off w b = put_bytes off (le_bytes 8 (unat w)) b"

definition set_u8 :: "nat \<Rightarrow> u8 \<Rightarrow> bytes \<Rightarrow> bytes" where
  "set_u8 off w b = put_bytes off (le_bytes 1 (unat w)) b"

definition set_u16 :: "nat \<Rightarrow> u16 \<Rightarrow> bytes \<Rightarrow> bytes" where
  "set_u16 off w b = put_bytes off (le_bytes 2 (unat w)) b"

definition u16_at :: "nat \<Rightarrow> bytes \<Rightarrow> u16" where
  "u16_at off b = of_nat (le_val (get_bytes off 2 b))"

lemma of_nat_le_val_32: "(of_nat (le_val (le_bytes 4 (unat w))) :: u32) = w"
proof -
  have "unat w < 2 ^ 32" using unsigned_less [of w, where ?'a = nat] by simp
  then have "unat w mod 256 ^ 4 = unat w" by simp
  then show ?thesis by (simp only: le_val_le_bytes) simp
qed

lemma of_nat_le_val_64: "(of_nat (le_val (le_bytes 8 (unat w))) :: u64) = w"
proof -
  have "unat w < 2 ^ 64" using unsigned_less [of w, where ?'a = nat] by simp
  then have "unat w mod 256 ^ 8 = unat w" by simp
  then show ?thesis by (simp only: le_val_le_bytes) simp
qed

lemma of_nat_le_val_8: "(of_nat (le_val (le_bytes 1 (unat w))) :: u8) = w"
proof -
  have "unat w < 2 ^ 8" using unsigned_less [of w, where ?'a = nat] by simp
  then have "unat w mod 256 ^ 1 = unat w" by simp
  then show ?thesis by (simp only: le_val_le_bytes) simp
qed

lemma of_nat_le_val_16: "(of_nat (le_val (le_bytes 2 (unat w))) :: u16) = w"
proof -
  have "unat w < 2 ^ 16" using unsigned_less [of w, where ?'a = nat] by simp
  then have "unat w mod 256 ^ 2 = unat w" by simp
  then show ?thesis by (simp only: le_val_le_bytes) simp
qed

lemma u32_at_set_u32 [layout_simps]: "off + 4 \<le> length b \<Longrightarrow> u32_at off (set_u32 off w b) = w"
  by (simp add: u32_at_def set_u32_def get_put_same of_nat_le_val_32)

lemma u64_at_set_u64 [layout_simps]: "off + 8 \<le> length b \<Longrightarrow> u64_at off (set_u64 off w b) = w"
  by (simp add: u64_at_def set_u64_def get_put_same of_nat_le_val_64)

lemma u8_at_set_u8 [layout_simps]: "off + 1 \<le> length b \<Longrightarrow> u8_at off (set_u8 off w b) = w"
  using of_nat_le_val_8 [of w] by (simp add: u8_at_def set_u8_def get_put_same)

lemma u16_at_set_u16 [layout_simps]: "off + 2 \<le> length b \<Longrightarrow> u16_at off (set_u16 off w b) = w"
  by (simp add: u16_at_def set_u16_def get_put_same of_nat_le_val_16)

lemma length_set_u32 [length_simps]: "off + 4 \<le> length b \<Longrightarrow> length (set_u32 off w b) = length b"
  by (simp add: set_u32_def length_put_bytes)

lemma length_set_u64 [length_simps]: "off + 8 \<le> length b \<Longrightarrow> length (set_u64 off w b) = length b"
  by (simp add: set_u64_def length_put_bytes)

lemma length_set_u8 [length_simps]: "off + 1 \<le> length b \<Longrightarrow> length (set_u8 off w b) = length b"
  by (simp add: set_u8_def length_put_bytes)

lemma length_set_u16 [length_simps]: "off + 2 \<le> length b \<Longrightarrow> length (set_u16 off w b) = length b"
  by (simp add: set_u16_def length_put_bytes)

text \<open>Reading a range that a store into another range leaves alone.\<close>

lemma get_set_other [layout_simps]:
  "o1 + n \<le> o2 \<or> o2 + 4 \<le> o1 \<Longrightarrow> o2 + 4 \<le> length b \<Longrightarrow> get_bytes o1 n (set_u32 o2 w b) = get_bytes o1 n b"
  "o1 + n \<le> o2 \<or> o2 + 8 \<le> o1 \<Longrightarrow> o2 + 8 \<le> length b \<Longrightarrow> get_bytes o1 n (set_u64 o2 v b) = get_bytes o1 n b"
  "o1 + n \<le> o2 \<or> o2 + 1 \<le> o1 \<Longrightarrow> o2 + 1 \<le> length b \<Longrightarrow> get_bytes o1 n (set_u8 o2 x b) = get_bytes o1 n b"
  "o1 + n \<le> o2 \<or> o2 + 2 \<le> o1 \<Longrightarrow> o2 + 2 \<le> length b \<Longrightarrow> get_bytes o1 n (set_u16 o2 y b) = get_bytes o1 n b"
  by (simp_all add: set_u32_def set_u64_def set_u8_def set_u16_def get_put_other)

lemma u32_at_other [layout_simps]:
  "o1 + 4 \<le> o2 \<or> o2 + 4 \<le> o1 \<Longrightarrow> o2 + 4 \<le> length b \<Longrightarrow> u32_at o1 (set_u32 o2 w b) = u32_at o1 b"
  "o1 + 4 \<le> o2 \<or> o2 + 8 \<le> o1 \<Longrightarrow> o2 + 8 \<le> length b \<Longrightarrow> u32_at o1 (set_u64 o2 v b) = u32_at o1 b"
  "o1 + 4 \<le> o2 \<or> o2 + 1 \<le> o1 \<Longrightarrow> o2 + 1 \<le> length b \<Longrightarrow> u32_at o1 (set_u8 o2 x b) = u32_at o1 b"
  "o1 + 4 \<le> o2 \<or> o2 + 2 \<le> o1 \<Longrightarrow> o2 + 2 \<le> length b \<Longrightarrow> u32_at o1 (set_u16 o2 y b) = u32_at o1 b"
  "o1 + 4 \<le> o2 \<or> o2 + length xs \<le> o1 \<Longrightarrow> o2 + length xs \<le> length b \<Longrightarrow>
     u32_at o1 (put_bytes o2 xs b) = u32_at o1 b"
  by (simp_all add: u32_at_def layout_simps get_put_other)

lemma u64_at_other [layout_simps]:
  "o1 + 8 \<le> o2 \<or> o2 + 4 \<le> o1 \<Longrightarrow> o2 + 4 \<le> length b \<Longrightarrow> u64_at o1 (set_u32 o2 w b) = u64_at o1 b"
  "o1 + 8 \<le> o2 \<or> o2 + 8 \<le> o1 \<Longrightarrow> o2 + 8 \<le> length b \<Longrightarrow> u64_at o1 (set_u64 o2 v b) = u64_at o1 b"
  "o1 + 8 \<le> o2 \<or> o2 + 1 \<le> o1 \<Longrightarrow> o2 + 1 \<le> length b \<Longrightarrow> u64_at o1 (set_u8 o2 x b) = u64_at o1 b"
  "o1 + 8 \<le> o2 \<or> o2 + 2 \<le> o1 \<Longrightarrow> o2 + 2 \<le> length b \<Longrightarrow> u64_at o1 (set_u16 o2 y b) = u64_at o1 b"
  "o1 + 8 \<le> o2 \<or> o2 + length xs \<le> o1 \<Longrightarrow> o2 + length xs \<le> length b \<Longrightarrow>
     u64_at o1 (put_bytes o2 xs b) = u64_at o1 b"
  by (simp_all add: u64_at_def layout_simps get_put_other)

lemma u8_at_other [layout_simps]:
  "o1 + 1 \<le> o2 \<or> o2 + 4 \<le> o1 \<Longrightarrow> o2 + 4 \<le> length b \<Longrightarrow> u8_at o1 (set_u32 o2 w b) = u8_at o1 b"
  "o1 + 1 \<le> o2 \<or> o2 + 8 \<le> o1 \<Longrightarrow> o2 + 8 \<le> length b \<Longrightarrow> u8_at o1 (set_u64 o2 v b) = u8_at o1 b"
  "o1 + 1 \<le> o2 \<or> o2 + 1 \<le> o1 \<Longrightarrow> o2 + 1 \<le> length b \<Longrightarrow> u8_at o1 (set_u8 o2 x b) = u8_at o1 b"
  "o1 + 1 \<le> o2 \<or> o2 + 2 \<le> o1 \<Longrightarrow> o2 + 2 \<le> length b \<Longrightarrow> u8_at o1 (set_u16 o2 y b) = u8_at o1 b"
  "o1 + 1 \<le> o2 \<or> o2 + length xs \<le> o1 \<Longrightarrow> o2 + length xs \<le> length b \<Longrightarrow>
     u8_at o1 (put_bytes o2 xs b) = u8_at o1 b"
  by (simp_all add: u8_at_def layout_simps get_put_other)

lemma u16_at_other [layout_simps]:
  "o1 + 2 \<le> o2 \<or> o2 + 4 \<le> o1 \<Longrightarrow> o2 + 4 \<le> length b \<Longrightarrow> u16_at o1 (set_u32 o2 w b) = u16_at o1 b"
  "o1 + 2 \<le> o2 \<or> o2 + 8 \<le> o1 \<Longrightarrow> o2 + 8 \<le> length b \<Longrightarrow> u16_at o1 (set_u64 o2 v b) = u16_at o1 b"
  "o1 + 2 \<le> o2 \<or> o2 + 1 \<le> o1 \<Longrightarrow> o2 + 1 \<le> length b \<Longrightarrow> u16_at o1 (set_u8 o2 x b) = u16_at o1 b"
  "o1 + 2 \<le> o2 \<or> o2 + 2 \<le> o1 \<Longrightarrow> o2 + 2 \<le> length b \<Longrightarrow> u16_at o1 (set_u16 o2 y b) = u16_at o1 b"
  "o1 + 2 \<le> o2 \<or> o2 + length xs \<le> o1 \<Longrightarrow> o2 + length xs \<le> length b \<Longrightarrow>
     u16_at o1 (put_bytes o2 xs b) = u16_at o1 b"
  by (simp_all add: u16_at_def layout_simps get_put_other)

section \<open>Loops with an early return\<close>

text \<open>
  \<open>for (i = lo; i < hi; i++) { if (f i) return \<dots>; }\<close>: the first value that the body
  returns, or \<open>None\<close> when the loop runs to its end.
\<close>

function for_first :: "(nat \<Rightarrow> 'a option) \<Rightarrow> nat \<Rightarrow> nat \<Rightarrow> 'a option" where
  "for_first f lo hi =
     (if lo < hi then (case f lo of Some x \<Rightarrow> Some x | None \<Rightarrow> for_first f (Suc lo) hi) else None)"
  by pat_completeness auto
termination
  by (relation "measure (\<lambda>(f, lo, hi). hi - lo)") auto

declare for_first.simps [simp del]

lemma for_first_empty [simp]: "hi \<le> lo \<Longrightarrow> for_first f lo hi = None"
  by (simp add: for_first.simps)

lemma for_first_hit: "lo < hi \<Longrightarrow> f lo = Some x \<Longrightarrow> for_first f lo hi = Some x"
  by (simp add: for_first.simps)

lemma for_first_miss: "lo < hi \<Longrightarrow> f lo = None \<Longrightarrow> for_first f lo hi = for_first f (Suc lo) hi"
  by (subst for_first.simps) simp

lemma for_first_SomeD:
  "for_first f lo hi = Some x \<Longrightarrow>
     \<exists>i. lo \<le> i \<and> i < hi \<and> f i = Some x \<and> (\<forall>j. lo \<le> j \<and> j < i \<longrightarrow> f j = None)"
proof (induction f lo hi rule: for_first.induct)
  case (1 f lo hi)
  have lt: "lo < hi" using "1.prems" by (rule contrapos_pp) simp
  show ?case
  proof (cases "f lo")
    case (Some y)
    then have "f lo = Some x" using "1.prems" lt by (simp add: for_first.simps)
    then show ?thesis using lt by auto
  next
    case None
    then have "for_first f (Suc lo) hi = Some x" using "1.prems" lt by (simp add: for_first_miss)
    then obtain i where "Suc lo \<le> i" "i < hi" "f i = Some x"
        "\<forall>j. Suc lo \<le> j \<and> j < i \<longrightarrow> f j = None"
      using "1.IH" lt None by blast
    then show ?thesis using None by (metis Suc_leD Suc_leI le_neq_implies_less)
  qed
qed

lemma for_first_NoneD:
  "for_first f lo hi = None \<Longrightarrow> lo \<le> i \<Longrightarrow> i < hi \<Longrightarrow> f i = None"
proof (induction f lo hi rule: for_first.induct)
  case (1 f lo hi)
  have lt: "lo < hi" using "1.prems" by simp
  have lo: "f lo = None"
    using "1.prems"(1) lt by (cases "f lo") (auto simp: for_first.simps)
  show ?case
  proof (cases "i = lo")
    case False
    then show ?thesis using "1.IH" lt lo "1.prems" by (simp add: for_first_miss)
  qed (simp add: lo)
qed

lemma for_first_SomeI:
  assumes "lo \<le> i" "i < hi" "f i = Some x" "\<And>j. lo \<le> j \<Longrightarrow> j < i \<Longrightarrow> f j = None"
  shows "for_first f lo hi = Some x"
proof (cases "for_first f lo hi")
  case None
  then have "f i = None" using assms(1,2) by (rule for_first_NoneD)
  then show ?thesis using assms(3) by simp
next
  case (Some y)
  then obtain k where k: "lo \<le> k" "k < hi" "f k = Some y" "\<forall>j. lo \<le> j \<and> j < k \<longrightarrow> f j = None"
    using for_first_SomeD [OF Some] by blast
  have "\<not> k < i" using assms(4) [OF k(1)] k(3) by fastforce
  moreover have "\<not> i < k"
  proof
    assume "i < k"
    with k(4) assms(1) have "f i = None" by blast
    with assms(3) show False by simp
  qed
  ultimately have "k = i" by simp
  then show ?thesis using Some k assms by simp
qed

lemma for_first_NoneI:
  assumes "\<And>i. lo \<le> i \<Longrightarrow> i < hi \<Longrightarrow> f i = None"
  shows "for_first f lo hi = None"
proof (cases "for_first f lo hi")
  case (Some y)
  then show ?thesis using for_first_SomeD [OF Some] assms by auto
qed simp

lemma for_first_append:
  "lo \<le> mid \<Longrightarrow> mid \<le> hi \<Longrightarrow>
   for_first f lo hi = (case for_first f lo mid of Some x \<Rightarrow> Some x | None \<Rightarrow> for_first f mid hi)"
proof (induction f lo mid rule: for_first.induct)
  case (1 f lo mid)
  show ?case
  proof (cases "lo < mid")
    case True
    show ?thesis
    proof (cases "f lo")
      case None
      then show ?thesis using True "1.prems" "1.IH" by (simp add: for_first_miss)
    next
      case (Some x)
      then show ?thesis using True "1.prems" by (simp add: for_first_hit)
    qed
  next
    case False
    then show ?thesis using "1.prems" by simp
  qed
qed

lemma for_first_shift: "for_first f (a + lo) (a + hi) = for_first (\<lambda>i. f (a + i)) lo hi"
proof (induction "\<lambda>i. f (a + i)" lo hi rule: for_first.induct)
  case (1 lo hi)
  show ?case
  proof (cases "lo < hi")
    case True
    show ?thesis
    proof (cases "f (a + lo)")
      case None
      then show ?thesis using "1.hyps" [OF True None] True by (simp add: for_first_miss)
    next
      case (Some x)
      then show ?thesis using True by (simp add: for_first_hit)
    qed
  qed simp
qed

lemma for_first_cong:
  "(\<And>i. lo \<le> i \<Longrightarrow> i < hi \<Longrightarrow> f i = g i) \<Longrightarrow> for_first f lo hi = for_first g lo hi"
proof (induction f lo hi rule: for_first.induct)
  case (1 f lo hi)
  show ?case
  proof (cases "lo < hi")
    case True
    then have g: "f lo = g lo" using "1.prems" [of lo] by simp
    show ?thesis
    proof (cases "f lo")
      case None
      then have "for_first f (Suc lo) hi = for_first g (Suc lo) hi"
        using "1.IH" [OF True None] "1.prems" by simp
      then show ?thesis using True None g by (simp add: for_first_miss)
    next
      case (Some x)
      then show ?thesis using True g by (simp add: for_first_hit)
    qed
  qed simp
qed

text \<open>Two nested loops are one loop over the flat index.\<close>

lemma for_first_nested:
  assumes "0 < n"
  shows "for_first (\<lambda>i. for_first (f i) 0 n) lo hi
    = for_first (\<lambda>t. f (t div n) (t mod n)) (lo * n) (hi * n)"
proof (induction "\<lambda>i. for_first (f i) 0 n" lo hi rule: for_first.induct)
  case (1 lo hi)
  let ?F = "\<lambda>t. f (t div n) (t mod n)"
  show ?case
  proof (cases "lo < hi")
    case True
    have "for_first ?F (lo * n) (lo * n + n) = for_first (\<lambda>j. ?F (lo * n + j)) 0 n"
      using for_first_shift [of ?F "lo * n" 0 n] by simp
    also have "\<dots> = for_first (f lo) 0 n"
      using assms by (intro for_first_cong) simp
    finally have inner: "for_first ?F (lo * n) (lo * n + n) = for_first (f lo) 0 n" .
    have "Suc lo * n \<le> hi * n" using True by (intro mult_le_mono1) simp
    then have le: "lo * n + n \<le> hi * n" by simp
    have split: "for_first ?F (lo * n) (hi * n) =
        (case for_first (f lo) 0 n of Some x \<Rightarrow> Some x | None \<Rightarrow> for_first ?F (Suc lo * n) (hi * n))"
      using for_first_append [OF le_add1 le, of ?F] unfolding inner mult_Suc add.commute [of n] .
    show ?thesis
    proof (cases "for_first (f lo) 0 n")
      case None
      then show ?thesis using "1.hyps" [OF True None] True split by (simp add: for_first_miss)
    next
      case (Some x)
      then show ?thesis using True split by (simp add: for_first_hit)
    qed
  next
    case False
    then show ?thesis by simp
  qed
qed

text \<open>A loop whose body tests a predicate finds the least index that satisfies it.\<close>

lemma for_first_Least:
  "for_first (\<lambda>t. if P t then Some (h t) else None) lo hi =
     (if \<exists>t. lo \<le> t \<and> t < hi \<and> P t then Some (h (LEAST t. lo \<le> t \<and> t < hi \<and> P t)) else None)"
proof (cases "\<exists>t. lo \<le> t \<and> t < hi \<and> P t")
  case True
  let ?l = "LEAST t. lo \<le> t \<and> t < hi \<and> P t"
  have l: "lo \<le> ?l \<and> ?l < hi \<and> P ?l" using True by (rule LeastI_ex)
  have "\<not> P j" if "lo \<le> j" "j < ?l" for j
    using not_less_Least [OF that(2)] that l by auto
  then have "for_first (\<lambda>t. if P t then Some (h t) else None) lo hi = Some (h ?l)"
    using l by (intro for_first_SomeI [of _ ?l]) auto
  then show ?thesis using True by simp
next
  case False
  then have "for_first (\<lambda>t. if P t then Some (h t) else None) lo hi = None"
    by (intro for_first_NoneI) auto
  then show ?thesis using False by simp
qed

section \<open>Decimal numbers\<close>

text \<open>\<open>%d\<close> and \<open>%u\<close> of a natural number.\<close>

definition dec_digit :: "nat \<Rightarrow> char" where
  "dec_digit d = char_of (48 + d)"

fun dec_string :: "nat \<Rightarrow> string" where
  "dec_string n = (if n < 10 then [dec_digit n] else dec_string (n div 10) @ [dec_digit (n mod 10)])"

declare dec_string.simps [simp del]

lemma dec_string_small: "n < 10 \<Longrightarrow> dec_string n = [dec_digit n]"
  by (subst dec_string.simps) simp

lemma dec_string_large: "10 \<le> n \<Longrightarrow> dec_string n = dec_string (n div 10) @ [dec_digit (n mod 10)]"
  by (subst dec_string.simps) simp

lemma length_dec_string_2: "n < 100 \<Longrightarrow> length (dec_string n) \<le> 2"
  by (cases "n < 10") (auto simp: dec_string_small dec_string_large)

lemma dec_string_not_Nil [simp]: "dec_string n \<noteq> []"
  by (cases "n < 10") (auto simp: dec_string_small dec_string_large)

section \<open>Small facts about words and options\<close>

lemma bind_Some_iff: "(Option.bind x f = Some y) \<longleftrightarrow> (\<exists>z. x = Some z \<and> f z = Some y)"
  by (cases x) auto

lemma unat_u16_less: "unat (x :: u16) < 65536"
  using unsigned_less [of x, where ?'a = nat] by simp

lemma unat_u32_less: "unat (x :: u32) < 4294967296"
  using unsigned_less [of x, where ?'a = nat] by simp

end
