(* ===== verification/Hodo_Layout.thy ===== *)
theory Hodo_Layout
  imports Hodo_Prelude
begin

text \<open>
  The constants and on-disk structures of \<open>hodo.h\<close>, and the predicates of \<open>trans.c\<close> that
  look at them. An on-disk object (\<open>hodo_datablock\<close>, \<open>hodo_inode\<close>, \<open>hodo_dirent\<close>) is
  the byte buffer that C reinterprets: a field is an accessor at the offset that the x86-64
  ABI gives it, so padding bytes, unnamed bytes and overlapping stores are all present.
\<close>

section \<open>Constants\<close>

definition HODO_MAX_NAME_LEN :: nat where [const_simps]: "HODO_MAX_NAME_LEN = 16"
definition HODO_TYPE_REG :: u8 where [const_simps]: "HODO_TYPE_REG = 0"
definition HODO_TYPE_DIR :: u8 where [const_simps]: "HODO_TYPE_DIR = 1"
definition END_READ :: int where [const_simps]: "END_READ = 0"
definition NOTHING_FOUND :: nat where [const_simps]: "NOTHING_FOUND = 0"

definition HODO_DATABLOCK_SIZE :: nat where [const_simps]: "HODO_DATABLOCK_SIZE = 4096"
definition HODO_DATA_START :: nat where [const_simps]: "HODO_DATA_START = 8"
definition HODO_DATA_SIZE :: nat where
  [const_simps]: "HODO_DATA_SIZE = HODO_DATABLOCK_SIZE - HODO_DATA_START"
definition NUMBER_ZONES :: nat where [const_simps]: "NUMBER_ZONES = 16"
definition ZONE_SIZE :: nat where [const_simps]: "ZONE_SIZE = 256 * 2 ^ 20"
definition SSD_CAPACITY :: nat where [const_simps]: "SSD_CAPACITY = NUMBER_ZONES * ZONE_SIZE"
definition NUMBER_MAPPING_TABLE_ENTRY :: nat where
  [const_simps]: "NUMBER_MAPPING_TABLE_ENTRY = SSD_CAPACITY div HODO_DATABLOCK_SIZE"
definition BLOCKS_PER_ZONE :: nat where
  [const_simps]: "BLOCKS_PER_ZONE = ZONE_SIZE div HODO_DATABLOCK_SIZE"
definition BLOCK_PTR_SZ :: nat where [const_simps]: "BLOCK_PTR_SZ = 4"
definition SIZEOF_DIRENT :: nat where [const_simps]: "SIZEOF_DIRENT = 40"

text \<open>The first zone of the device holds the super block: zone files are numbered 0 to 14.\<close>

definition ZONE_FILES :: nat where [const_simps]: "ZONE_FILES = NUMBER_ZONES - 1"

lemma NUMBER_MAPPING_TABLE_ENTRY_eq: "NUMBER_MAPPING_TABLE_ENTRY = 1048576"
  by (simp add: const_simps)

lemma BLOCKS_PER_ZONE_eq: "BLOCKS_PER_ZONE = 65536"
  by (simp add: const_simps)

lemma HODO_DATA_SIZE_eq: "HODO_DATA_SIZE = 4088"
  by (simp add: const_simps)

section \<open>Data blocks\<close>

text \<open>\<open>magic[0..2]\<close> is \<open>DAT\<close>; \<open>magic[3]\<close> is the level, \<open>'0'\<close> for a direct block.\<close>

definition db_is_dat :: "bytes \<Rightarrow> bool" where
  "db_is_dat b \<longleftrightarrow> get_bytes 0 3 b = [0x44, 0x41, 0x54]"

definition db_level :: "bytes \<Rightarrow> u8" where
  "db_level b = u8_at 3 b"

definition db_set_magic :: "u8 \<Rightarrow> bytes \<Rightarrow> bytes" where
  "db_set_magic l b = put_bytes 0 [0x44, 0x41, 0x54, l] b"

definition db_lbn :: "bytes \<Rightarrow> u32" where
  "db_lbn b = u32_at 4 b"

definition db_set_lbn :: "u32 \<Rightarrow> bytes \<Rightarrow> bytes" where
  "db_set_lbn l b = set_u32 4 l b"

definition db_data :: "bytes \<Rightarrow> bytes" where
  "db_data b = drop HODO_DATA_START b"

definition is_directblock :: "bytes \<Rightarrow> bool" where
  "is_directblock b \<longleftrightarrow> db_level b = 0x30"

definition is_block_logical_number_valid :: "u32 \<Rightarrow> bool" where
  "is_block_logical_number_valid l \<longleftrightarrow> l \<noteq> 0"

text \<open>The \<open>i\<close>-th block pointer of an indirect block.\<close>

definition db_ptr :: "nat \<Rightarrow> bytes \<Rightarrow> u32" where
  "db_ptr i b = u32_at (HODO_DATA_START + i * BLOCK_PTR_SZ) b"

definition db_set_ptr :: "nat \<Rightarrow> u32 \<Rightarrow> bytes \<Rightarrow> bytes" where
  "db_set_ptr i l b = set_u32 (HODO_DATA_START + i * BLOCK_PTR_SZ) l b"

section \<open>Inodes\<close>

definition hi_file_len :: "bytes \<Rightarrow> u64" where "hi_file_len b = u64_at 8 b"
definition hi_name_len :: "bytes \<Rightarrow> u8" where "hi_name_len b = u8_at 16 b"
definition hi_name :: "bytes \<Rightarrow> bytes" where "hi_name b = get_bytes 17 16 b"
definition hi_type :: "bytes \<Rightarrow> u8" where "hi_type b = u8_at 33 b"
definition hi_ino :: "bytes \<Rightarrow> u32" where "hi_ino b = u32_at 36 b"
definition hi_mode :: "bytes \<Rightarrow> u16" where "hi_mode b = u16_at 40 b"
definition hi_uid :: "bytes \<Rightarrow> u32" where "hi_uid b = u32_at 44 b"
definition hi_gid :: "bytes \<Rightarrow> u32" where "hi_gid b = u32_at 48 b"
definition hi_nlink :: "bytes \<Rightarrow> u32" where "hi_nlink b = u32_at 52 b"
definition hi_atime :: "bytes \<Rightarrow> bytes" where "hi_atime b = get_bytes 56 16 b"
definition hi_mtime :: "bytes \<Rightarrow> bytes" where "hi_mtime b = get_bytes 72 16 b"
definition hi_ctime :: "bytes \<Rightarrow> bytes" where "hi_ctime b = get_bytes 88 16 b"
definition hi_direct :: "nat \<Rightarrow> bytes \<Rightarrow> u32" where "hi_direct i b = u32_at (104 + 4 * i) b"
definition hi_single :: "bytes \<Rightarrow> u32" where "hi_single b = u32_at 144 b"
definition hi_double :: "bytes \<Rightarrow> u32" where "hi_double b = u32_at 148 b"
definition hi_triple :: "bytes \<Rightarrow> u32" where "hi_triple b = u32_at 152 b"

definition hi_set_file_len :: "u64 \<Rightarrow> bytes \<Rightarrow> bytes" where "hi_set_file_len v b = set_u64 8 v b"
definition hi_set_magic :: "bytes \<Rightarrow> bytes" where "hi_set_magic b = put_bytes 0 [0x49, 0x4E, 0x4F, 0x44] b"
definition hi_put_name :: "bytes \<Rightarrow> bytes \<Rightarrow> bytes" where "hi_put_name nm b = put_bytes 17 nm b"
definition hi_set_type :: "u8 \<Rightarrow> bytes \<Rightarrow> bytes" where "hi_set_type v b = set_u8 33 v b"
definition hi_set_name_len :: "u8 \<Rightarrow> bytes \<Rightarrow> bytes" where "hi_set_name_len v b = set_u8 16 v b"
definition hi_set_ino :: "u32 \<Rightarrow> bytes \<Rightarrow> bytes" where "hi_set_ino v b = set_u32 36 v b"
definition hi_set_mode :: "u16 \<Rightarrow> bytes \<Rightarrow> bytes" where "hi_set_mode v b = set_u16 40 v b"
definition hi_set_uid :: "u32 \<Rightarrow> bytes \<Rightarrow> bytes" where "hi_set_uid v b = set_u32 44 v b"
definition hi_set_gid :: "u32 \<Rightarrow> bytes \<Rightarrow> bytes" where "hi_set_gid v b = set_u32 48 v b"
definition hi_set_nlink :: "u32 \<Rightarrow> bytes \<Rightarrow> bytes" where "hi_set_nlink v b = set_u32 52 v b"
definition hi_set_times :: "bytes \<Rightarrow> bytes \<Rightarrow> bytes" where
  "hi_set_times t b = put_bytes 88 t (put_bytes 72 t (put_bytes 56 t b))"
definition hi_set_direct :: "nat \<Rightarrow> u32 \<Rightarrow> bytes \<Rightarrow> bytes" where
  "hi_set_direct i v b = set_u32 (104 + 4 * i) v b"
definition hi_set_single :: "u32 \<Rightarrow> bytes \<Rightarrow> bytes" where "hi_set_single v b = set_u32 144 v b"
definition hi_set_double :: "u32 \<Rightarrow> bytes \<Rightarrow> bytes" where "hi_set_double v b = set_u32 148 v b"
definition hi_set_triple :: "u32 \<Rightarrow> bytes \<Rightarrow> bytes" where "hi_set_triple v b = set_u32 152 v b"

lemmas hi_defs =
  hi_file_len_def hi_name_len_def hi_name_def hi_type_def hi_ino_def hi_mode_def hi_uid_def
  hi_gid_def hi_nlink_def hi_atime_def hi_mtime_def hi_ctime_def hi_direct_def hi_single_def
  hi_double_def hi_triple_def
  hi_set_magic_def hi_put_name_def hi_set_file_len_def hi_set_type_def hi_set_name_len_def hi_set_ino_def hi_set_mode_def
  hi_set_uid_def hi_set_gid_def hi_set_nlink_def hi_set_times_def hi_set_direct_def
  hi_set_single_def hi_set_double_def hi_set_triple_def

lemmas db_defs =
  db_is_dat_def db_level_def db_set_magic_def db_lbn_def db_set_lbn_def db_data_def
  db_ptr_def db_set_ptr_def

section \<open>Directory entries\<close>

definition de_name :: "bytes \<Rightarrow> bytes" where "de_name d = get_bytes 0 16 d"
definition de_name_len :: "bytes \<Rightarrow> u8" where "de_name_len d = u8_at 16 d"
definition de_ino :: "bytes \<Rightarrow> u64" where "de_ino d = u64_at 24 d"
definition de_type :: "bytes \<Rightarrow> u8" where "de_type d = u8_at 32 d"
definition de_set_name_len :: "u8 \<Rightarrow> bytes \<Rightarrow> bytes" where "de_set_name_len v d = set_u8 16 v d"
definition de_set_ino :: "u64 \<Rightarrow> bytes \<Rightarrow> bytes" where "de_set_ino v d = set_u64 24 v d"
definition de_set_type :: "u8 \<Rightarrow> bytes \<Rightarrow> bytes" where "de_set_type v d = set_u8 32 v d"

lemmas de_defs =
  de_name_def de_name_len_def de_ino_def de_type_def
  de_set_name_len_def de_set_ino_def de_set_type_def

definition is_dirent_valid :: "bytes \<Rightarrow> bool" where
  "is_dirent_valid d \<longleftrightarrow>
     u8_at 0 d \<noteq> 0 \<and> de_name_len d \<noteq> 0 \<and> de_ino d \<noteq> 0 \<and>
     (de_type d = HODO_TYPE_DIR \<or> de_type d = HODO_TYPE_REG)"

text \<open>
  The loops over a direct block start at \<open>HODO_DATA_START\<close> and advance by
  \<open>sizeof(struct hodo_dirent)\<close> while \<open>j < HODO_DATABLOCK_SIZE - sizeof(struct hodo_dirent)\<close>:
  the iterations are the slots \<open>k\<close> with \<open>j = 8 + 40 k < 4056\<close>.
\<close>

definition dirent_off :: "nat \<Rightarrow> nat" where
  "dirent_off k = HODO_DATA_START + k * SIZEOF_DIRENT"

definition DIRENT_SLOTS :: nat where [const_simps]: "DIRENT_SLOTS = 102"

lemma dirent_slots_are_the_loop:
  "dirent_off k < HODO_DATABLOCK_SIZE - SIZEOF_DIRENT \<longleftrightarrow> k < DIRENT_SLOTS"
  by (auto simp: dirent_off_def const_simps)

definition dirent_at :: "nat \<Rightarrow> bytes \<Rightarrow> bytes" where
  "dirent_at k b = get_bytes (dirent_off k) SIZEOF_DIRENT b"

definition set_dirent_at :: "nat \<Rightarrow> bytes \<Rightarrow> bytes \<Rightarrow> bytes" where
  "set_dirent_at k d b = put_bytes (dirent_off k) d b"

text \<open>
  The loops over an indirect block run while \<open>j < HODO_DATABLOCK_SIZE - BLOCK_PTR_SZ\<close>,
  with \<open>j = 8 + 4 k\<close>: 1021 pointers, one less than the 1022 the block holds.
\<close>

definition PTR_SLOTS :: nat where [const_simps]: "PTR_SLOTS = 1022"
definition PTR_LOOP_SLOTS :: nat where [const_simps]: "PTR_LOOP_SLOTS = 1021"

lemma ptr_slots: "PTR_SLOTS = HODO_DATA_SIZE div BLOCK_PTR_SZ"
  by (simp add: const_simps)

lemma ptr_loop_slots_are_the_loop:
  "HODO_DATA_START + k * BLOCK_PTR_SZ < HODO_DATABLOCK_SIZE - BLOCK_PTR_SZ \<longleftrightarrow> k < PTR_LOOP_SLOTS"
  by (auto simp: const_simps)

section \<open>Lengths and independence of the fields\<close>

lemma length_db_set_lbn [length_simps]: "length b = 4096 \<Longrightarrow> length (db_set_lbn l b) = 4096"
  by (simp add: db_defs length_simps)

lemma length_db_set_magic [length_simps]: "length b = 4096 \<Longrightarrow> length (db_set_magic l b) = 4096"
  by (simp add: db_defs length_simps)

lemma length_db_set_ptr [length_simps]:
  "length b = 4096 \<Longrightarrow> i < PTR_SLOTS \<Longrightarrow> length (db_set_ptr i l b) = 4096"
  by (simp add: db_defs length_simps const_simps)

lemma length_hi_sets [length_simps]:
  assumes "length b = 4096"
  shows "length (hi_set_file_len x1 b) = 4096" "length (hi_set_type x2 b) = 4096"
    "length (hi_set_name_len x2 b) = 4096" "length (hi_set_ino x3 b) = 4096"
    "length (hi_set_mode x4 b) = 4096" "length (hi_set_uid x3 b) = 4096"
    "length (hi_set_gid x3 b) = 4096" "length (hi_set_nlink x3 b) = 4096"
    "length t = 16 \<Longrightarrow> length (hi_set_times t b) = 4096"
    "i < 10 \<Longrightarrow> length (hi_set_direct i x3 b) = 4096"
    "length (hi_set_single x3 b) = 4096" "length (hi_set_double x3 b) = 4096"
    "length (hi_set_triple x3 b) = 4096"
  using assms by (simp_all add: hi_defs length_simps)

lemma db_lbn_set_lbn [simp]: "length b = 4096 \<Longrightarrow> db_lbn (db_set_lbn l b) = l"
  by (simp add: db_defs layout_simps)

lemma db_is_dat_set_lbn [simp]: "length b = 4096 \<Longrightarrow> db_is_dat (db_set_lbn l b) = db_is_dat b"
  by (simp add: db_defs layout_simps)

lemma db_level_set_lbn [simp]: "length b = 4096 \<Longrightarrow> db_level (db_set_lbn l b) = db_level b"
  by (simp add: db_defs layout_simps)

lemma is_directblock_set_lbn [simp]:
  "length b = 4096 \<Longrightarrow> is_directblock (db_set_lbn l b) = is_directblock b"
  by (simp add: is_directblock_def)

lemma db_data_set_lbn [simp]: "length b = 4096 \<Longrightarrow> db_data (db_set_lbn l b) = db_data b"
  by (simp add: db_defs set_u32_def put_bytes_def const_simps)

lemma db_set_magic_simps [simp]:
  assumes "length b = 4096"
  shows "db_is_dat (db_set_magic l b)" "db_level (db_set_magic l b) = l"
    "db_lbn (db_set_magic l b) = db_lbn b" "db_data (db_set_magic l b) = db_data b"
proof -
  show "db_is_dat (db_set_magic l b)" by (simp add: db_defs get_bytes_def put_bytes_def)
  show "db_level (db_set_magic l b) = l"
    by (simp add: db_defs u8_at_def get_bytes_def put_bytes_def)
  show "db_lbn (db_set_magic l b) = db_lbn b"
    using assms by (simp add: db_defs layout_simps)
  show "db_data (db_set_magic l b) = db_data b"
    using assms by (simp add: db_defs put_bytes_def const_simps)
qed

text \<open>Two different slots of an array of 4-byte entries do not overlap.\<close>

lemma u32_at_other_slot:
  assumes "i \<noteq> j" and "base + 4 * i + 4 \<le> length b"
  shows "u32_at (base + 4 * j) (set_u32 (base + 4 * i) l b) = u32_at (base + 4 * j) b"
proof (rule u32_at_other(1))
  show "base + 4 * j + 4 \<le> base + 4 * i \<or> base + 4 * i + 4 \<le> base + 4 * j"
    using assms(1) by arith
  show "base + 4 * i + 4 \<le> length b" by (rule assms(2))
qed

lemma db_ptr_set_ptr:
  "length b = 4096 \<Longrightarrow> i < PTR_SLOTS \<Longrightarrow> j < PTR_SLOTS \<Longrightarrow>
   db_ptr j (db_set_ptr i l b) = (if i = j then l else db_ptr j b)"
  by (auto simp: db_defs layout_simps const_simps mult.commute [of _ 4] u32_at_other_slot)

lemma db_set_ptr_magic [simp]:
  assumes "length b = 4096" "i < PTR_SLOTS"
  shows "db_is_dat (db_set_ptr i l b) = db_is_dat b" "db_level (db_set_ptr i l b) = db_level b"
    "db_lbn (db_set_ptr i l b) = db_lbn b"
  using assms by (simp_all add: db_defs layout_simps const_simps)

lemma hi_direct_set_direct:
  "length b = 4096 \<Longrightarrow> i < 10 \<Longrightarrow> j < 10 \<Longrightarrow>
   hi_direct j (hi_set_direct i l b) = (if i = j then l else hi_direct j b)"
  by (auto simp: hi_defs layout_simps u32_at_other_slot)

lemma length_dirent_at [length_simps]:
  "length b = 4096 \<Longrightarrow> k < DIRENT_SLOTS \<Longrightarrow> length (dirent_at k b) = 40"
  by (simp add: dirent_at_def dirent_off_def const_simps length_simps)

lemma length_set_dirent_at [length_simps]:
  "length b = 4096 \<Longrightarrow> k < DIRENT_SLOTS \<Longrightarrow> length d = 40 \<Longrightarrow> length (set_dirent_at k d b) = 4096"
  by (simp add: set_dirent_at_def dirent_off_def const_simps length_simps)

lemma dirent_at_set:
  assumes "length b = 4096" "k < DIRENT_SLOTS" "j < DIRENT_SLOTS" "length d = 40"
  shows "dirent_at j (set_dirent_at k d b) = (if j = k then d else dirent_at j b)"
proof (cases "j = k")
  case True
  then show ?thesis using assms
    by (simp add: dirent_at_def set_dirent_at_def dirent_off_def const_simps get_put_same)
next
  case False
  then have "j < k \<or> k < j" by auto
  then have "dirent_off j + 40 \<le> dirent_off k \<or> dirent_off k + length d \<le> dirent_off j"
    using assms(4) by (auto simp: dirent_off_def const_simps)
  moreover have "dirent_off k + length d \<le> length b"
    using assms by (simp add: dirent_off_def const_simps)
  ultimately have "get_bytes (dirent_off j) 40 (put_bytes (dirent_off k) d b)
      = get_bytes (dirent_off j) 40 b" by (rule get_put_other)
  then show ?thesis using False
    by (simp add: dirent_at_def set_dirent_at_def SIZEOF_DIRENT_def)
qed

lemma db_set_dirent_magic [simp]:
  assumes "length b = 4096" "k < DIRENT_SLOTS" "length d = 40"
  shows "db_is_dat (set_dirent_at k d b) = db_is_dat b" "db_level (set_dirent_at k d b) = db_level b"
    "db_lbn (set_dirent_at k d b) = db_lbn b"
  using assms
  by (simp_all add: db_defs set_dirent_at_def dirent_off_def const_simps layout_simps get_put_other)

lemma dirent_at_set_lbn [simp]:
  "length b = 4096 \<Longrightarrow> dirent_at k (db_set_lbn l b) = dirent_at k b"
  by (simp add: dirent_at_def dirent_off_def db_defs layout_simps const_simps)

section \<open>The number a block carries\<close>

text \<open>
  What \<open>GC\<close> reads back from a block to find its mapping-table entry: the
  \<open>logical_block_number\<close> of a data block, the \<open>i_ino\<close> of anything else.
\<close>

definition block_number :: "bytes \<Rightarrow> u32" where
  "block_number b = (if db_is_dat b then db_lbn b else hi_ino b)"

lemma block_number_set_lbn [simp]:
  "length b = 4096 \<Longrightarrow> db_is_dat b \<Longrightarrow> block_number (db_set_lbn l b) = l"
  by (simp add: block_number_def)

end
