(* ===== verification/Hodo_Mapping.thy ===== *)
theory Hodo_Mapping
  imports Hodo_Layout
begin

text \<open>
  \<open>struct hodo_mapping_info\<close> and the bitmap functions of \<open>trans.c\<close>: the mapping table from
  logical block numbers to physical positions, the bitmap of logical numbers in use, and the
  per-zone bitmap of valid blocks that the garbage collector scans. A C array is a function
  from its index; every access checks the index against the declared size and is \<open>None\<close>
  outside it.

  The counters \<open>zone_1_valid_count\<close>, \<open>zone_2_valid_set_count\<close> and their siblings are
  debugging statistics that the code writes and never reads; they are not part of the state.
\<close>

section \<open>State\<close>

record hodo_block_pos =
  zone_id :: u16
  block_index :: u16

record hodo_mapping_info =
  mapping_table :: "nat \<Rightarrow> hodo_block_pos"
  starting_logical_number :: u32
  wp :: hodo_block_pos
  logical_entry_bitmap :: "nat \<Rightarrow> u32"
  invalid_count :: u32
  valid_count :: u32
  GC_bitmap :: "nat \<Rightarrow> nat \<Rightarrow> u32"
  swap_wp :: hodo_block_pos

definition mk_pos :: "nat \<Rightarrow> nat \<Rightarrow> hodo_block_pos" where
  "mk_pos z b = \<lparr>zone_id = of_nat z, block_index = of_nat b\<rparr>"

text \<open>The mask \<open>1 << (31 - j)\<close>.\<close>

definition bit_mask :: "nat \<Rightarrow> u32" where
  "bit_mask j = push_bit (31 - j) 1"

lemma bit_bit_mask: "bit (bit_mask j) n \<longleftrightarrow> n = 31 - j"
  by (auto simp: bit_mask_def bit_simps)

lemma or_mask_bit: "bit (w OR bit_mask j) n \<longleftrightarrow> bit w n \<or> n = 31 - j"
  by (simp add: bit_or_iff bit_bit_mask)

lemma and_not_mask_bit: "bit (w AND NOT (bit_mask j)) n \<longleftrightarrow> bit w n \<and> n \<noteq> 31 - j"
  by (auto simp: bit_and_iff bit_not_iff bit_bit_mask dest: bit_imp_le_length)

lemma and_mask_0: "w AND bit_mask j = 0 \<longleftrightarrow> \<not> bit w (31 - j)"
proof
  assume "w AND bit_mask j = 0"
  then have "\<not> bit (w AND bit_mask j) (31 - j)" by simp
  then show "\<not> bit w (31 - j)" by (simp add: bit_and_iff bit_bit_mask)
next
  assume "\<not> bit w (31 - j)"
  then show "w AND bit_mask j = 0"
    by (intro bit_word_eqI) (auto simp: bit_and_iff bit_bit_mask)
qed

lemma word_has_bit: "(w :: u32) \<noteq> 0 \<longleftrightarrow> (\<exists>k<32. bit w (31 - k))"
proof
  assume "w \<noteq> 0"
  then obtain n where n: "n < 32" "bit w n"
    using bit_word_eqI [of w 0] by auto
  have "bit w (31 - (31 - n))" using n by simp
  then show "\<exists>k<32. bit w (31 - k)" using n by (intro exI [of _ "31 - n"]) auto
qed auto

lemma not_word_zero_iff: "NOT (w :: u32) \<noteq> 0 \<longleftrightarrow> w \<noteq> 0xFFFFFFFF"
proof -
  have "(0xFFFFFFFF :: u32) = NOT 0" by simp
  then show ?thesis by (metis bit.double_compl)
qed

lemma word_misses_bit: "(w :: u32) \<noteq> 0xFFFFFFFF \<longleftrightarrow> (\<exists>k<32. \<not> bit w (31 - k))"
proof -
  have "w \<noteq> 0xFFFFFFFF \<longleftrightarrow> (\<exists>k<32. bit (NOT w) (31 - k))"
    unfolding not_word_zero_iff [symmetric] by (rule word_has_bit)
  also have "\<dots> \<longleftrightarrow> (\<exists>k<32. \<not> bit w (31 - k))" by (auto simp: bit_not_iff)
  finally show ?thesis .
qed

section \<open>The bitmap of logical numbers\<close>

definition hodo_set_logical_bitmap :: "nat \<Rightarrow> nat \<Rightarrow> hodo_mapping_info \<Rightarrow> hodo_mapping_info option" where
  "hodo_set_logical_bitmap i j m =
     (if i < NUMBER_MAPPING_TABLE_ENTRY div 32
      then Some (m\<lparr>logical_entry_bitmap :=
             (logical_entry_bitmap m)(i := logical_entry_bitmap m i OR bit_mask j)\<rparr>)
      else None)"

definition hodo_unset_logical_bitmap :: "nat \<Rightarrow> nat \<Rightarrow> hodo_mapping_info \<Rightarrow> hodo_mapping_info option" where
  "hodo_unset_logical_bitmap i j m =
     (if i < NUMBER_MAPPING_TABLE_ENTRY div 32
      then Some (m\<lparr>logical_entry_bitmap :=
             (logical_entry_bitmap m)(i := logical_entry_bitmap m i AND NOT (bit_mask j))\<rparr>)
      else None)"

definition hodo_get_next_logical_number :: "hodo_mapping_info \<Rightarrow> (u32 \<times> hodo_mapping_info) option" where
  "hodo_get_next_logical_number m =
     (case for_first (\<lambda>i.
             if logical_entry_bitmap m i \<noteq> 0xFFFFFFFF
             then for_first (\<lambda>j.
                    if logical_entry_bitmap m i AND bit_mask j = 0 then Some (i, j) else None) 0 32
             else None) 0 (NUMBER_MAPPING_TABLE_ENTRY div 32)
      of Some (i, j) \<Rightarrow> do {
           m' \<leftarrow> hodo_set_logical_bitmap i j m;
           Some (starting_logical_number m + of_nat (i * 32 + j), m')
         }
       | None \<Rightarrow> Some (-1, m))"

definition hodo_erase_table_entry :: "u32 \<Rightarrow> hodo_mapping_info \<Rightarrow> hodo_mapping_info option" where
  "hodo_erase_table_entry t m =
     (let i = unat (t - starting_logical_number m) in
      if i < NUMBER_MAPPING_TABLE_ENTRY
      then hodo_unset_logical_bitmap (unat t div 32) (unat t mod 32)
             (m\<lparr>mapping_table := (mapping_table m)(i := (mapping_table m i)\<lparr>zone_id := 0\<rparr>)\<rparr>)
      else None)"

text \<open>The bit of the \<open>k\<close>-th logical number, and the state with that bit set.\<close>

definition lbit :: "hodo_mapping_info \<Rightarrow> nat \<Rightarrow> bool" where
  "lbit m k = bit (logical_entry_bitmap m (k div 32)) (31 - k mod 32)"

definition set_lbit :: "nat \<Rightarrow> hodo_mapping_info \<Rightarrow> hodo_mapping_info" where
  "set_lbit k m = m\<lparr>logical_entry_bitmap :=
     (logical_entry_bitmap m)(k div 32 := logical_entry_bitmap m (k div 32) OR bit_mask (k mod 32))\<rparr>"

lemma div_mod_32_eq: "i < 32 \<Longrightarrow> (w * 32 + i) div 32 = w" "i < 32 \<Longrightarrow> (w * 32 + i) mod 32 = (i::nat)"
  by simp_all

lemma lbit_word: "j < 32 \<Longrightarrow> lbit m (i * 32 + j) = bit (logical_entry_bitmap m i) (31 - j)"
  by (simp add: lbit_def)

lemma sub31_eq_iff: "a < 32 \<Longrightarrow> b < 32 \<Longrightarrow> 31 - a = 31 - b \<longleftrightarrow> a = (b::nat)"
  by auto

lemma nat_eq_div_mod_32: "k = l \<longleftrightarrow> k div 32 = l div 32 \<and> k mod 32 = (l::nat) mod 32"
  by (metis div_mult_mod_eq)

lemma lbit_set_lbit [simp]: "lbit (set_lbit k m) l \<longleftrightarrow> lbit m l \<or> l = k"
  unfolding nat_eq_div_mod_32 [of l k]
  by (auto simp: lbit_def set_lbit_def or_mask_bit sub31_eq_iff)

lemma set_lbit_simps [simp]:
  "mapping_table (set_lbit k m) = mapping_table m"
  "starting_logical_number (set_lbit k m) = starting_logical_number m"
  "wp (set_lbit k m) = wp m" "GC_bitmap (set_lbit k m) = GC_bitmap m"
  "swap_wp (set_lbit k m) = swap_wp m"
  by (simp_all add: set_lbit_def)

lemma hodo_set_logical_bitmap_eq:
  "i < NUMBER_MAPPING_TABLE_ENTRY div 32 \<Longrightarrow> j < 32 \<Longrightarrow>
   hodo_set_logical_bitmap i j m = Some (set_lbit (i * 32 + j) m)"
  by (simp add: hodo_set_logical_bitmap_def set_lbit_def)

lemma lbit_scan:
  "(if logical_entry_bitmap m i \<noteq> 0xFFFFFFFF
    then for_first (\<lambda>j. if logical_entry_bitmap m i AND bit_mask j = 0 then Some (i, j) else None) 0 32
    else None)
   = for_first (\<lambda>j. if \<not> lbit m (i * 32 + j) then Some (i, j) else None) 0 32"
proof (cases "logical_entry_bitmap m i = 0xFFFFFFFF")
  case True
  then have "\<not> (\<exists>j<32. \<not> bit (logical_entry_bitmap m i) (31 - j))"
    using word_misses_bit by blast
  then have "for_first (\<lambda>j. if \<not> lbit m (i * 32 + j) then Some (i, j) else None) 0 32 = None"
    by (intro for_first_NoneI) (auto simp: lbit_word)
  then show ?thesis using True by simp
next
  case False
  then show ?thesis by (simp add: and_mask_0) (rule for_first_cong, simp add: lbit_word)
qed

lemma next_logical_number_eq:
  "hodo_get_next_logical_number m =
     (if \<exists>k < NUMBER_MAPPING_TABLE_ENTRY. \<not> lbit m k
      then Some (starting_logical_number m + of_nat (LEAST k. \<not> lbit m k),
                 set_lbit (LEAST k. \<not> lbit m k) m)
      else Some (-1, m))"
proof -
  let ?N = NUMBER_MAPPING_TABLE_ENTRY
  let ?scan = "for_first (\<lambda>i. if logical_entry_bitmap m i \<noteq> 0xFFFFFFFF
      then for_first (\<lambda>j. if logical_entry_bitmap m i AND bit_mask j = 0 then Some (i, j) else None) 0 32
      else None) 0 (?N div 32)"
  have N: "?N div 32 * 32 = ?N" by (simp add: NUMBER_MAPPING_TABLE_ENTRY_eq)
  have "?scan = for_first (\<lambda>t. if \<not> lbit m t then Some (t div 32, t mod 32) else None) 0 ?N"
    unfolding lbit_scan
    by (subst for_first_nested) (simp_all add: N)
  then have scan: "?scan = (if \<exists>k<?N. \<not> lbit m k
      then let l = LEAST k. k < ?N \<and> \<not> lbit m k in Some (l div 32, l mod 32) else None)"
    by (simp add: for_first_Least Let_def)
  show ?thesis
  proof (cases "\<exists>k<?N. \<not> lbit m k")
    case True
    define l where "l = (LEAST k. \<not> lbit m k)"
    obtain k where k: "k < ?N" "\<not> lbit m k" using True by blast
    have l: "l < ?N" using Least_le [of "\<lambda>k. \<not> lbit m k", OF k(2)] k(1) by (simp add: l_def)
    have "\<not> lbit m l" unfolding l_def using k(2) by (rule LeastI)
    then have "(LEAST k. k < ?N \<and> \<not> lbit m k) = l"
      using l by (intro Least_equality) (auto simp: l_def intro: Least_le)
    then have "?scan = Some (l div 32, l mod 32)" using scan True by (simp add: Let_def)
    moreover have "l div 32 < ?N div 32" using l N by (simp add: less_mult_imp_div_less)
    moreover have "(of_nat (l div 32 * 32 + l mod 32) :: u32) = of_nat l" by simp
    ultimately have "hodo_get_next_logical_number m =
        Some (starting_logical_number m + of_nat l, set_lbit l m)"
      unfolding hodo_get_next_logical_number_def
      by (simp only: option.case prod.case) (simp add: hodo_set_logical_bitmap_eq del: of_nat_add of_nat_mult)
    then show ?thesis unfolding l_def by (simp only: True if_True)
  next
    case False
    then have "?scan = None" unfolding scan by (simp only: if_False)
    then show ?thesis using False
      unfolding hodo_get_next_logical_number_def by (simp only: if_False option.case)
  qed
qed

text \<open>C26: \<open>hodo_get_next_logical_number\<close> is first-fit allocation: it returns the least
  number whose bit is clear, sets exactly that bit, and returns \<open>-1\<close> with the state unchanged
  when every bit is set; it never writes outside the bitmap.\<close>

theorem next_logical_number_first_fit:
  "hodo_get_next_logical_number m =
     (if \<exists>k < NUMBER_MAPPING_TABLE_ENTRY. \<not> lbit m k
      then Some (starting_logical_number m + of_nat (LEAST k. \<not> lbit m k),
                 set_lbit (LEAST k. \<not> lbit m k) m)
      else Some (-1, m))"
  by (rule next_logical_number_eq)

text \<open>The same facts in the form the later theories use.\<close>

lemma next_logical_SomeD:
  assumes "hodo_get_next_logical_number m = Some (n, m')" and "n \<noteq> -1"
  obtains k where "k < NUMBER_MAPPING_TABLE_ENTRY" "\<not> lbit m k" "\<forall>j<k. lbit m j"
    "n = starting_logical_number m + of_nat k" "m' = set_lbit k m"
proof -
  have ex: "\<exists>k < NUMBER_MAPPING_TABLE_ENTRY. \<not> lbit m k"
    using assms by (auto simp: next_logical_number_eq split: if_splits)
  then obtain k where k: "k < NUMBER_MAPPING_TABLE_ENTRY" "\<not> lbit m k" by blast
  define l where "l = (LEAST k. \<not> lbit m k)"
  have "\<not> lbit m l" unfolding l_def using k(2) by (rule LeastI)
  moreover have "l \<le> k" unfolding l_def using k(2) by (rule Least_le)
  moreover have "\<forall>j<l. lbit m j" unfolding l_def using not_less_Least by blast
  moreover have "hodo_get_next_logical_number m =
      Some (starting_logical_number m + of_nat l, set_lbit l m)"
    unfolding next_logical_number_eq [of m] l_def by (simp only: ex if_True)
  then have "n = starting_logical_number m + of_nat l" "m' = set_lbit l m"
    using assms(1) by simp_all
  ultimately show thesis using k(1) that [of l] by simp
qed

lemma next_logical_number_at:
  assumes "k < NUMBER_MAPPING_TABLE_ENTRY" "\<not> lbit m k" "\<forall>j<k. lbit m j"
  shows "hodo_get_next_logical_number m = Some (starting_logical_number m + of_nat k, set_lbit k m)"
proof -
  have "(LEAST k. \<not> lbit m k) = k"
    using assms(2,3) by (intro Least_equality) (auto simp: not_less [symmetric])
  moreover have "\<exists>k<NUMBER_MAPPING_TABLE_ENTRY. \<not> lbit m k" using assms by blast
  ultimately show ?thesis unfolding next_logical_number_eq [of m] by (simp only: if_True)
qed

section \<open>Erasing an entry\<close>

lemma lbit_unset:
  assumes "hodo_unset_logical_bitmap i j m = Some m'" and "j < 32"
  shows "lbit m' l \<longleftrightarrow> lbit m l \<and> l \<noteq> i * 32 + j"
proof -
  have m': "m' = m\<lparr>logical_entry_bitmap :=
      (logical_entry_bitmap m)(i := logical_entry_bitmap m i AND NOT (bit_mask j))\<rparr>"
    using assms(1) by (simp add: hodo_unset_logical_bitmap_def split: if_splits)
  have "l = i * 32 + j \<longleftrightarrow> l div 32 = i \<and> l mod 32 = j"
    using assms(2) by (subst nat_eq_div_mod_32) simp
  then show ?thesis using assms(2)
    by (auto simp: m' lbit_def and_not_mask_bit sub31_eq_iff)
qed

lemma hodo_unset_logical_bitmap_frame:
  assumes "hodo_unset_logical_bitmap i j m = Some m'"
  shows "mapping_table m' = mapping_table m" "starting_logical_number m' = starting_logical_number m"
    "wp m' = wp m" "GC_bitmap m' = GC_bitmap m" "swap_wp m' = swap_wp m"
  using assms by (auto simp: hodo_unset_logical_bitmap_def split: if_splits)

lemma hodo_erase_table_entry_effect:
  assumes "hodo_erase_table_entry t m = Some m'"
  shows "mapping_table m' = (mapping_table m)(unat (t - starting_logical_number m) :=
           (mapping_table m (unat (t - starting_logical_number m)))\<lparr>zone_id := 0\<rparr>)"
    and "lbit m' k \<longleftrightarrow> lbit m k \<and> k \<noteq> unat t"
    and "GC_bitmap m' = GC_bitmap m" "wp m' = wp m"
    and "starting_logical_number m' = starting_logical_number m"
proof -
  let ?i = "unat (t - starting_logical_number m)"
  let ?m1 = "m\<lparr>mapping_table := (mapping_table m)(?i := (mapping_table m ?i)\<lparr>zone_id := 0\<rparr>)\<rparr>"
  have u: "hodo_unset_logical_bitmap (unat t div 32) (unat t mod 32) ?m1 = Some m'"
    using assms by (simp add: hodo_erase_table_entry_def Let_def split: if_splits)
  note fr = hodo_unset_logical_bitmap_frame [OF u]
  show "mapping_table m' = (mapping_table m)(?i := (mapping_table m ?i)\<lparr>zone_id := 0\<rparr>)"
    "GC_bitmap m' = GC_bitmap m" "wp m' = wp m" "starting_logical_number m' = starting_logical_number m"
    using fr by simp_all
  have "lbit m' k \<longleftrightarrow> lbit ?m1 k \<and> k \<noteq> unat t div 32 * 32 + unat t mod 32"
    using u by (rule lbit_unset) simp
  then show "lbit m' k \<longleftrightarrow> lbit m k \<and> k \<noteq> unat t" by (simp add: lbit_def)
qed

text \<open>C27: \<open>hodo_erase_table_entry\<close> clears the bitmap at the raw number \<open>t\<close> instead of at
  its table index \<open>t - starting_logical_number\<close>. So erasing a number leaves its own bit set
  (the number is never handed out again) and clears the bit of another number, the one that
  lies \<open>starting_logical_number\<close> above it.\<close>

theorem erase_clears_the_wrong_bit:
  assumes "hodo_erase_table_entry t m = Some m'"
    and "starting_logical_number m \<noteq> 0"
    and "lbit m (unat (t - starting_logical_number m))"
  shows "lbit m' (unat (t - starting_logical_number m)) \<and> \<not> lbit m' (unat t)"
proof -
  have "t - starting_logical_number m \<noteq> t" using assms(2) by simp
  then have "unat (t - starting_logical_number m) \<noteq> unat t" by (simp add: word_unat_eq_iff)
  then show ?thesis using assms(3) hodo_erase_table_entry_effect(2) [OF assms(1)] by simp
qed

text \<open>The mapping table right after a first mount of a 16-zone device, for concrete examples.\<close>

definition fresh_mapping :: hodo_mapping_info where
  "fresh_mapping = \<lparr>mapping_table = (\<lambda>_. mk_pos 0 0), starting_logical_number = 16,
     wp = mk_pos 1 0, logical_entry_bitmap = (\<lambda>_. 0), invalid_count = 0, valid_count = 0,
     GC_bitmap = (\<lambda>_ _. 0), swap_wp = mk_pos 14 0\<rparr>"

lemma lbit_fresh [simp]: "\<not> lbit fresh_mapping k"
  by (simp add: lbit_def fresh_mapping_def)

lemma fresh_mapping_start [simp]: "starting_logical_number fresh_mapping = 16"
  by (simp add: fresh_mapping_def)

lemma erase_defined:
  "unat (t - starting_logical_number m) < NUMBER_MAPPING_TABLE_ENTRY \<Longrightarrow>
   unat t < NUMBER_MAPPING_TABLE_ENTRY \<Longrightarrow> \<exists>m'. hodo_erase_table_entry t m = Some m'"
  by (simp add: hodo_erase_table_entry_def hodo_unset_logical_bitmap_def Let_def
      NUMBER_MAPPING_TABLE_ENTRY_eq)

theorem erase_clears_the_wrong_bit_witness:
  "\<exists>m'. hodo_erase_table_entry 17 (set_lbit 17 (set_lbit 1 fresh_mapping)) = Some m' \<and>
     lbit m' 1 \<and> \<not> lbit m' 17"
proof -
  let ?m = "set_lbit 17 (set_lbit 1 fresh_mapping)"
  obtain m' where e: "hodo_erase_table_entry 17 ?m = Some m'"
    using erase_defined [of 17 ?m] by (auto simp: NUMBER_MAPPING_TABLE_ENTRY_eq)
  have "lbit m' (unat (17 - starting_logical_number ?m)) \<and> \<not> lbit m' (unat (17 :: u32))"
    using e by (rule erase_clears_the_wrong_bit) simp_all
  then show ?thesis using e by simp
qed

text \<open>The consequence for allocation: when every number up to \<open>k\<close> is in use and the file
  whose number equals \<open>k\<close> is erased, the next allocation returns \<open>starting_logical_number + k\<close>,
  a number that was in use before the erase and still is: two files now share one inode number.\<close>

theorem erase_then_alloc_reuses_live_number:
  assumes "hodo_erase_table_entry t m = Some m'"
    and "unat t < NUMBER_MAPPING_TABLE_ENTRY" and "\<forall>j \<le> unat t. lbit m j"
  shows "hodo_get_next_logical_number m' =
           Some (starting_logical_number m + t, set_lbit (unat t) m') \<and> lbit m (unat t)"
proof -
  note eff = hodo_erase_table_entry_effect [OF assms(1)]
  have L: "(LEAST k. \<not> lbit m' k) = unat t"
  proof (rule Least_equality)
    show "\<not> lbit m' (unat t)" using eff(2) by simp
    show "unat t \<le> k" if "\<not> lbit m' k" for k
      using that eff(2) [of k] assms(3) by (cases "k \<le> unat t") auto
  qed
  have "\<exists>k<NUMBER_MAPPING_TABLE_ENTRY. \<not> lbit m' k" using assms(2) eff(2) by blast
  then have "hodo_get_next_logical_number m' =
      Some (starting_logical_number m' + of_nat (unat t), set_lbit (unat t) m')"
    unfolding next_logical_number_eq [of m'] L by simp
  then show ?thesis using assms(3) eff(5) by simp
qed

text \<open>All numbers below \<open>n\<close> in use.\<close>

fun used_upto :: "nat \<Rightarrow> hodo_mapping_info" where
  "used_upto 0 = fresh_mapping"
| "used_upto (Suc n) = set_lbit n (used_upto n)"

lemma used_upto_simps [simp]:
  "lbit (used_upto n) k \<longleftrightarrow> k < n" "starting_logical_number (used_upto n) = 16"
  by (induction n) auto

theorem erase_then_alloc_reuses_live_number_witness:
  "\<exists>m'. hodo_erase_table_entry 17 (used_upto 30) = Some m' \<and>
     hodo_get_next_logical_number m' = Some (33, set_lbit 17 m') \<and> lbit (used_upto 30) 17"
proof -
  obtain m' where e: "hodo_erase_table_entry 17 (used_upto 30) = Some m'"
    using erase_defined [of 17 "used_upto 30"] by (auto simp: NUMBER_MAPPING_TABLE_ENTRY_eq)
  have "hodo_get_next_logical_number m' =
      Some (starting_logical_number (used_upto 30) + 17, set_lbit (unat (17 :: u32)) m') \<and>
      lbit (used_upto 30) (unat (17 :: u32))"
    using e by (rule erase_then_alloc_reuses_live_number)
      (simp_all add: NUMBER_MAPPING_TABLE_ENTRY_eq)
  then show ?thesis using e by simp
qed

section \<open>The bitmap of valid blocks\<close>

definition hodo_set_GC_bitmap :: "hodo_block_pos \<Rightarrow> hodo_mapping_info \<Rightarrow> hodo_mapping_info option" where
  "hodo_set_GC_bitmap p m =
     (let z = unat (zone_id p); b = unat (block_index p) in
      if z < NUMBER_ZONES
      then Some (m\<lparr>GC_bitmap := (GC_bitmap m)(z := (GC_bitmap m z)
             (b div 32 := GC_bitmap m z (b div 32) OR bit_mask (b mod 32)))\<rparr>)
      else None)"

definition hodo_unset_GC_bitmap :: "hodo_block_pos \<Rightarrow> hodo_mapping_info \<Rightarrow> hodo_mapping_info option" where
  "hodo_unset_GC_bitmap p m =
     (let z = unat (zone_id p); b = unat (block_index p) in
      if z < NUMBER_ZONES
      then Some (m\<lparr>GC_bitmap := (GC_bitmap m)(z := (GC_bitmap m z)
             (b div 32 := GC_bitmap m z (b div 32) AND NOT (bit_mask (b mod 32))))\<rparr>)
      else None)"

definition hodo_get_next_GC_valid :: "hodo_mapping_info \<Rightarrow> hodo_block_pos" where
  "hodo_get_next_GC_valid m =
     (case for_first (\<lambda>i. for_first (\<lambda>j.
             if GC_bitmap m i j \<noteq> 0
             then for_first (\<lambda>k.
                    if GC_bitmap m i j AND bit_mask k \<noteq> 0 then Some (mk_pos i (j * 32 + k)) else None) 0 32
             else None) 0 (BLOCKS_PER_ZONE div 32))
           (unat (zone_id (wp m))) (NUMBER_ZONES - 2)
      of Some p \<Rightarrow> p | None \<Rightarrow> mk_pos 0 0)"

definition gbit :: "hodo_mapping_info \<Rightarrow> nat \<Rightarrow> nat \<Rightarrow> bool" where
  "gbit m z b = bit (GC_bitmap m z (b div 32)) (31 - b mod 32)"

definition gvalid :: "hodo_mapping_info \<Rightarrow> hodo_block_pos \<Rightarrow> bool" where
  "gvalid m p = gbit m (unat (zone_id p)) (unat (block_index p))"

lemma pos_eq_iff: "(p :: hodo_block_pos) = q \<longleftrightarrow> unat (zone_id p) = unat (zone_id q) \<and> unat (block_index p) = unat (block_index q)"
  by (cases p; cases q) (simp add: word_unat_eq_iff)

lemma set_GC_bitmap_effect:
  assumes "hodo_set_GC_bitmap p m = Some m'"
  shows "gbit m' z b \<longleftrightarrow> gbit m z b \<or> z = unat (zone_id p) \<and> b = unat (block_index p)"
    and "\<exists>g. m' = m\<lparr>GC_bitmap := g\<rparr>"
  using assms nat_eq_div_mod_32 [of b "unat (block_index p)"]
  by (auto simp: hodo_set_GC_bitmap_def Let_def gbit_def or_mask_bit sub31_eq_iff split: if_splits)

lemma unset_GC_bitmap_effect:
  assumes "hodo_unset_GC_bitmap p m = Some m'"
  shows "gbit m' z b \<longleftrightarrow> gbit m z b \<and> \<not> (z = unat (zone_id p) \<and> b = unat (block_index p))"
    and "\<exists>g. m' = m\<lparr>GC_bitmap := g\<rparr>"
  using assms nat_eq_div_mod_32 [of b "unat (block_index p)"]
  by (auto simp: hodo_unset_GC_bitmap_def Let_def gbit_def and_not_mask_bit sub31_eq_iff split: if_splits)

lemma set_GC_gvalid:
  assumes "hodo_set_GC_bitmap p m = Some m'"
  shows "gvalid m' q \<longleftrightarrow> gvalid m q \<or> q = p"
  using set_GC_bitmap_effect(1) [OF assms] by (auto simp: gvalid_def pos_eq_iff)

lemma unset_GC_gvalid:
  assumes "hodo_unset_GC_bitmap p m = Some m'"
  shows "gvalid m' q \<longleftrightarrow> gvalid m q \<and> q \<noteq> p"
  using unset_GC_bitmap_effect(1) [OF assms] by (auto simp: gvalid_def pos_eq_iff)

lemma GC_bitmap_frame:
  assumes "\<exists>g. m' = m\<lparr>GC_bitmap := g\<rparr>"
  shows "mapping_table m' = mapping_table m" "starting_logical_number m' = starting_logical_number m"
    "wp m' = wp m" "swap_wp m' = swap_wp m" "logical_entry_bitmap m' = logical_entry_bitmap m"
    "lbit m' = lbit m"
  using assms by (auto simp: lbit_def fun_eq_iff)

lemmas set_GC_frame = GC_bitmap_frame [OF set_GC_bitmap_effect(2)]
lemmas unset_GC_frame = GC_bitmap_frame [OF unset_GC_bitmap_effect(2)]

lemma map_update_simps [simp]:
  "lbit (m\<lparr>mapping_table := t\<rparr>) = lbit m" "lbit (m\<lparr>wp := p\<rparr>) = lbit m"
  "lbit (m\<lparr>swap_wp := p\<rparr>) = lbit m" "lbit (m\<lparr>GC_bitmap := g\<rparr>) = lbit m"
  "gvalid (m\<lparr>mapping_table := t\<rparr>) = gvalid m" "gvalid (m\<lparr>wp := p\<rparr>) = gvalid m"
  "gvalid (m\<lparr>swap_wp := p\<rparr>) = gvalid m" "gvalid (set_lbit k m) = gvalid m"
  by (simp_all add: lbit_def gvalid_def gbit_def fun_eq_iff set_lbit_def)

lemma GC_bitmap_defined:
  "unat (zone_id p) < NUMBER_ZONES \<Longrightarrow> \<exists>m'. hodo_set_GC_bitmap p m = Some m'"
  "unat (zone_id p) < NUMBER_ZONES \<Longrightarrow> \<exists>m'. hodo_unset_GC_bitmap p m = Some m'"
  by (simp_all add: hodo_set_GC_bitmap_def hodo_unset_GC_bitmap_def Let_def)

text \<open>
  \<open>hodo_get_next_GC_valid\<close> scans the zones from the one of the write pointer up to the last
  data zone. In the flat order of blocks (zone, then index) it returns the first valid one.
\<close>

definition flat_valid :: "hodo_mapping_info \<Rightarrow> nat \<Rightarrow> bool" where
  "flat_valid m n \<longleftrightarrow>
     unat (zone_id (wp m)) * BLOCKS_PER_ZONE \<le> n \<and> n < (NUMBER_ZONES - 2) * BLOCKS_PER_ZONE \<and>
     gbit m (n div BLOCKS_PER_ZONE) (n mod BLOCKS_PER_ZONE)"

lemma gbit_scan:
  "(if GC_bitmap m i j \<noteq> 0
    then for_first (\<lambda>k. if GC_bitmap m i j AND bit_mask k \<noteq> 0 then Some (f (j * 32 + k)) else None) 0 32
    else None)
   = for_first (\<lambda>k. if gbit m i (j * 32 + k) then Some (f (j * 32 + k)) else None) 0 32"
proof (cases "GC_bitmap m i j = 0")
  case True
  then have "for_first (\<lambda>k. if gbit m i (j * 32 + k) then Some (f (j * 32 + k)) else None) 0 32 = None"
    by (intro for_first_NoneI) (simp add: gbit_def)
  then show ?thesis using True by simp
next
  case False
  then show ?thesis by (simp add: and_mask_0) (rule for_first_cong, simp add: gbit_def)
qed

lemma gbit_zone_scan:
  "for_first (\<lambda>j. if GC_bitmap m i j \<noteq> 0
      then for_first (\<lambda>k. if GC_bitmap m i j AND bit_mask k \<noteq> 0 then Some (f (j * 32 + k)) else None) 0 32
      else None) 0 (BLOCKS_PER_ZONE div 32)
   = for_first (\<lambda>b. if gbit m i b then Some (f b) else None) 0 BLOCKS_PER_ZONE"
proof -
  have "BLOCKS_PER_ZONE div 32 * 32 = BLOCKS_PER_ZONE" by (simp add: BLOCKS_PER_ZONE_eq)
  then show ?thesis unfolding gbit_scan
    by (subst for_first_nested) (simp_all cong: if_cong)
qed

text \<open>\<open>hodo_get_next_GC_valid\<close> returns the first valid block at or after the zone of the
  write pointer, in block order, and never one of the reserved zones; \<open>(0, 0)\<close> when the data
  zones from there on hold no valid block.\<close>

theorem next_GC_valid_is_first:
  "hodo_get_next_GC_valid m =
     (if \<exists>n. flat_valid m n
      then mk_pos ((LEAST n. flat_valid m n) div BLOCKS_PER_ZONE)
                  ((LEAST n. flat_valid m n) mod BLOCKS_PER_ZONE)
      else mk_pos 0 0)"
proof -
  have "hodo_get_next_GC_valid m =
      (case (if \<exists>n. flat_valid m n
             then Some (mk_pos ((LEAST n. flat_valid m n) div BLOCKS_PER_ZONE)
               ((LEAST n. flat_valid m n) mod BLOCKS_PER_ZONE)) else None)
       of Some p \<Rightarrow> p | None \<Rightarrow> mk_pos 0 0)"
    unfolding hodo_get_next_GC_valid_def gbit_zone_scan flat_valid_def [abs_def]
    by (subst for_first_nested) (simp_all only: for_first_Least, simp_all add: BLOCKS_PER_ZONE_eq)
  then show ?thesis by (simp only: if_distrib [of "case_option _ _"] option.case)
qed

end
