(* ===== verification/Hodo_Store.thy ===== *)
theory Hodo_Store
  imports Hodo_Mapping
begin

text \<open>
  The block store of \<open>trans.c\<close>: reading and writing a 4096-byte block by its logical number
  (\<open>hodo_read_struct\<close>, \<open>hodo_write_struct\<close>), the garbage collector's versions on the swap
  zone, and \<open>compact_datablock\<close>.

  The code reaches a zone through the file \<open><mount point>/seq/<zone>\<close> and its file
  operations. That interface, and the few kernel services the file system uses, are the fields
  of the record \<open>kernel\<close>; the locale \<open>zone_store\<close> states what the store relies on.
  \<open>Zonefs_Provider\<close> interprets it on the model of \<open>file.c\<close> and \<open>super.c\<close>.
\<close>

section \<open>The kernel interface and the state\<close>

text \<open>
  \<open>k_kmalloc n\<close> is what \<open>kmalloc(4096)\<close> returns at the call site numbered \<open>n\<close>:
  \<open>None\<close> for \<open>NULL\<close>, otherwise the indeterminate contents of the new buffer;
  \<open>k_stack n\<close> is the indeterminate initial contents of the uninitialised automatic object
  numbered \<open>n\<close>. \<open>k_now\<close> is a \<open>timespec64\<close>, and \<open>k_mountinfo\<close> what successive reads of
  \<open>/proc/self/mountinfo\<close> return (\<open>None\<close> when it cannot be opened). The \<open>zf_\<close> fields are \<open>filp_open\<close>
  (\<open>True\<close> for writing), \<open>filp_close\<close>, \<open>f_op->read_iter\<close>, \<open>f_op->write_iter\<close> of a zone
  file, \<open>kern_path\<close>, and \<open>zonefs_file_truncate\<close>.
\<close>

record 'z kernel =
  k_kmalloc :: "nat \<Rightarrow> bytes option"
  k_stack :: "nat \<Rightarrow> bytes"
  k_now :: bytes
  k_fsuid :: u32
  k_fsgid :: u32
  k_mountinfo :: "string list option"
  zf_open :: "string \<Rightarrow> bool \<Rightarrow> 'z \<Rightarrow> (int + nat) \<times> 'z"
  zf_close :: "nat \<Rightarrow> bool \<Rightarrow> 'z \<Rightarrow> 'z"
  zf_read :: "nat \<Rightarrow> nat \<Rightarrow> nat \<Rightarrow> 'z \<Rightarrow> (int \<times> bytes) \<times> 'z"
  zf_write :: "nat \<Rightarrow> nat \<Rightarrow> bytes \<Rightarrow> 'z \<Rightarrow> int \<times> 'z"
  zf_path :: "string \<Rightarrow> 'z \<Rightarrow> nat option"
  zf_truncate :: "nat \<Rightarrow> int \<Rightarrow> 'z \<Rightarrow> int \<times> 'z"

record 'z hodo_state =
  mapping_info :: hodo_mapping_info
  mount_point_path :: string
  hodo_nr_zones :: nat
  hodo_zone_size :: nat
  zonefs :: 'z

section \<open>Zone file access\<close>

text \<open>
  \<open>path_up[16]\<close> holds the mount point, \<open>/seq/\<close>, the zone number and the terminating zero:
  \<open>strcat\<close> and \<open>strncat\<close> do not check that they fit.
\<close>

definition hodo_zone_path :: "string \<Rightarrow> nat \<Rightarrow> string option" where
  "hodo_zone_path mnt z =
     (let path = mnt @ ''/seq/'' @ take 5 (dec_string z) in
      if length path + 1 \<le> 16 then Some path else None)"

text \<open>Opening, reading and closing a zone file, as both read functions do it.\<close>

definition hodo_zone_read ::
  "'z kernel \<Rightarrow> nat \<Rightarrow> nat \<Rightarrow> bytes \<Rightarrow> nat \<Rightarrow> 'z hodo_state \<Rightarrow> (int \<times> bytes \<times> 'z hodo_state) option"
where
  "hodo_zone_read K z off out_buf len s =
     do {
       path \<leftarrow> hodo_zone_path (mount_point_path s) z;
       (case zf_open K path False (zonefs s) of
          (Inl e, zs) \<Rightarrow> Some (e, out_buf, s\<lparr>zonefs := zs\<rparr>)
        | (Inr f, zs) \<Rightarrow>
            (case zf_read K f off len zs of
               ((ret, got), zs') \<Rightarrow>
                 Some (ret, got @ drop (length got) out_buf,
                       s\<lparr>zonefs := zf_close K f False zs'\<rparr>)))
     }"

text \<open>The write functions return early on a failed open, so the result says which happened.\<close>

definition hodo_zone_write ::
  "'z kernel \<Rightarrow> nat \<Rightarrow> nat \<Rightarrow> bytes \<Rightarrow> 'z hodo_state \<Rightarrow> ((int + int) \<times> 'z hodo_state) option"
where
  "hodo_zone_write K z off buf s =
     do {
       path \<leftarrow> hodo_zone_path (mount_point_path s) z;
       (case zf_open K path True (zonefs s) of
          (Inl e, zs) \<Rightarrow> Some (Inl e, s\<lparr>zonefs := zs\<rparr>)
        | (Inr f, zs) \<Rightarrow>
            (case zf_write K f off buf zs of
               (ret, zs') \<Rightarrow> Some (Inr ret, s\<lparr>zonefs := zf_close K f True zs'\<rparr>)))
     }"

section \<open>Reading and writing by logical number\<close>

definition table_index :: "hodo_mapping_info \<Rightarrow> u32 \<Rightarrow> nat" where
  "table_index m l = unat (l - starting_logical_number m)"

definition read_table :: "hodo_mapping_info \<Rightarrow> u32 \<Rightarrow> hodo_block_pos option" where
  "read_table m l =
     (if table_index m l < NUMBER_MAPPING_TABLE_ENTRY then Some (mapping_table m (table_index m l)) else None)"

definition write_table :: "u32 \<Rightarrow> hodo_block_pos \<Rightarrow> hodo_mapping_info \<Rightarrow> hodo_mapping_info option" where
  "write_table l p m =
     (if table_index m l < NUMBER_MAPPING_TABLE_ENTRY
      then Some (m\<lparr>mapping_table := (mapping_table m)(table_index m l := p)\<rparr>) else None)"

definition pos_off :: "hodo_block_pos \<Rightarrow> nat" where
  "pos_off p = unat (block_index p) * HODO_DATABLOCK_SIZE"

definition hodo_read_struct ::
  "'z kernel \<Rightarrow> u32 \<Rightarrow> bytes \<Rightarrow> nat \<Rightarrow> 'z hodo_state \<Rightarrow> (int \<times> bytes \<times> 'z hodo_state) option"
where
  "hodo_read_struct K l out_buf len s =
     do {
       p \<leftarrow> read_table (mapping_info s) l;
       if len = 0 \<or> HODO_DATABLOCK_SIZE < len then Some (- EINVAL, out_buf, s)
       else hodo_zone_read K (unat (zone_id p)) (pos_off p) out_buf len s
     }"

definition hodo_GC_read_struct ::
  "'z kernel \<Rightarrow> hodo_block_pos \<Rightarrow> bytes \<Rightarrow> nat \<Rightarrow> 'z hodo_state \<Rightarrow> (int \<times> bytes \<times> 'z hodo_state) option"
where
  "hodo_GC_read_struct K p out_buf len s =
     (if len = 0 \<or> HODO_DATABLOCK_SIZE < len then Some (- EINVAL, out_buf, s)
      else hodo_zone_read K (unat (zone_id p)) (pos_off p) out_buf len s)"

text \<open>
  \<open>hodo_write_struct\<close> returns the result, the buffer (it stores the logical number into a
  data block), the logical number (an in-out argument) and the state. The new position is
  entered into the table and the bitmaps before the write is tried, and the write pointer
  advances whatever the write returned.
\<close>

definition assign_number :: "u32 \<Rightarrow> hodo_mapping_info \<Rightarrow> (u32 \<times> hodo_mapping_info) option" where
  "assign_number l m =
     (if l = 0 then hodo_get_next_logical_number m
      else do {
        invalid_pos \<leftarrow> read_table m l;
        m' \<leftarrow> hodo_unset_GC_bitmap invalid_pos m;
        Some (l, m')
      })"

definition advance_wp :: "nat \<Rightarrow> nat \<Rightarrow> nat \<Rightarrow> hodo_mapping_info \<Rightarrow> hodo_mapping_info" where
  "advance_wp off len zone_size m =
     (if off + len = zone_size
      then m\<lparr>wp := \<lparr>zone_id = zone_id (wp m) + 1, block_index = 0\<rparr>\<rparr>
      else m\<lparr>wp := (wp m)\<lparr>block_index := block_index (wp m) + 1\<rparr>\<rparr>)"

definition hodo_write_struct ::
  "'z kernel \<Rightarrow> bytes \<Rightarrow> nat \<Rightarrow> u32 \<Rightarrow> 'z hodo_state \<Rightarrow> (int \<times> bytes \<times> u32 \<times> 'z hodo_state) option"
where
  "hodo_write_struct K buf len l s =
     (let m0 = mapping_info s; p = wp m0; off = pos_off p in
      if len = 0 \<or> HODO_DATABLOCK_SIZE < len then Some (- EINVAL, buf, l, s)
      else do {
        m1 \<leftarrow> hodo_set_GC_bitmap p m0;
        (n, m2) \<leftarrow> assign_number l m1;
        m3 \<leftarrow> write_table n p m2;
        let buf' = (if db_is_dat buf then db_set_lbn n buf else buf);
        (r, s') \<leftarrow> hodo_zone_write K (unat (zone_id p)) off (take len buf') (s\<lparr>mapping_info := m3\<rparr>);
        (case r of
           Inl e \<Rightarrow> Some (e, buf', n, s')
         | Inr ret \<Rightarrow>
             Some (ret, buf', n,
                   s'\<lparr>mapping_info := advance_wp off len (hodo_zone_size s') (mapping_info s')\<rparr>))
      })"

definition hodo_GC_write_struct ::
  "'z kernel \<Rightarrow> bytes \<Rightarrow> nat \<Rightarrow> u32 \<Rightarrow> 'z hodo_state \<Rightarrow> (int \<times> 'z hodo_state) option"
where
  "hodo_GC_write_struct K buf len l s =
     (let m0 = mapping_info s; p = swap_wp m0; off = pos_off p in
      if len = 0 \<or> HODO_DATABLOCK_SIZE < len then Some (- EINVAL, s)
      else do {
        m1 \<leftarrow> hodo_set_GC_bitmap p m0;
        invalid_pos \<leftarrow> read_table m1 l;
        m2 \<leftarrow> hodo_unset_GC_bitmap invalid_pos m1;
        m3 \<leftarrow> write_table l p m2;
        (r, s') \<leftarrow> hodo_zone_write K (unat (zone_id p)) off (take len buf) (s\<lparr>mapping_info := m3\<rparr>);
        (case r of
           Inl e \<Rightarrow> Some (e, s')
         | Inr ret \<Rightarrow>
             Some (ret,
               if off + len \<noteq> hodo_zone_size s'
               then s'\<lparr>mapping_info := (mapping_info s')\<lparr>swap_wp := p\<lparr>block_index := block_index p + 1\<rparr>\<rparr>\<rparr>
               else s'))
      })"

text \<open>
  \<open>compact_datablock\<close> closes the gap of \<open>remove_size\<close> bytes; the last bytes of the new block
  are whatever the new buffer held.
\<close>

definition compact_bytes :: "nat \<Rightarrow> nat \<Rightarrow> bytes \<Rightarrow> bytes \<Rightarrow> bytes" where
  "compact_bytes start remove_size src tmp =
     take start src @ drop (start + remove_size) src @ drop (HODO_DATABLOCK_SIZE - remove_size) tmp"

definition compact_datablock ::
  "'z kernel \<Rightarrow> bytes \<Rightarrow> nat \<Rightarrow> nat \<Rightarrow> u32 \<Rightarrow> 'z hodo_state \<Rightarrow> (int \<times> u32 \<times> 'z hodo_state) option"
where
  "compact_datablock K source_block start remove_size l s =
     do {
       tmp \<leftarrow> k_kmalloc K 1;
       (ret, _, l', s') \<leftarrow> hodo_write_struct K (compact_bytes start remove_size source_block tmp) 4096 l s;
       Some (ret, l', s')
     }"

section \<open>Well-formed mappings\<close>

text \<open>
  The contents of a zone file are a byte string that grows by blocks; \<open>D z\<close> is the contents of
  zone file \<open>z\<close>. A mapping is well formed over \<open>D\<close> when every live table entry points at a
  block on disk that is marked valid and carries that entry's number, and every valid mark
  belongs to a live entry.
\<close>

definition on_disk :: "(nat \<Rightarrow> bytes) \<Rightarrow> hodo_block_pos \<Rightarrow> bool" where
  "on_disk D p \<longleftrightarrow> pos_off p + 4096 \<le> length (D (unat (zone_id p)))"

definition blk :: "(nat \<Rightarrow> bytes) \<Rightarrow> hodo_block_pos \<Rightarrow> bytes" where
  "blk D p = get_bytes (pos_off p) 4096 (D (unat (zone_id p)))"

definition live :: "hodo_mapping_info \<Rightarrow> nat \<Rightarrow> bool" where
  "live m i \<longleftrightarrow> i < NUMBER_MAPPING_TABLE_ENTRY \<and> zone_id (mapping_table m i) \<noteq> 0"

definition number_of :: "hodo_mapping_info \<Rightarrow> nat \<Rightarrow> u32" where
  "number_of m i = starting_logical_number m + of_nat i"

definition entry_ok :: "(nat \<Rightarrow> bytes) \<Rightarrow> hodo_mapping_info \<Rightarrow> nat \<Rightarrow> bool" where
  "entry_ok D m i \<longleftrightarrow>
     (let p = mapping_table m i in
      unat (zone_id p) < ZONE_FILES \<and> on_disk D p \<and> gvalid m p \<and> lbit m i \<and>
      block_number (blk D p) = number_of m i)"

definition mapping_ok :: "(nat \<Rightarrow> bytes) \<Rightarrow> hodo_mapping_info \<Rightarrow> bool" where
  "mapping_ok D m \<longleftrightarrow>
     (\<forall>i. live m i \<longrightarrow> entry_ok D m i) \<and>
     (\<forall>q. zone_id q \<noteq> 0 \<and> unat (zone_id q) < ZONE_FILES \<and> gvalid m q \<longrightarrow>
        (\<exists>i. live m i \<and> mapping_table m i = q)) \<and>
     starting_logical_number m \<noteq> 0 \<and>
     unat (starting_logical_number m) + NUMBER_MAPPING_TABLE_ENTRY \<le> 2 ^ 31"

text \<open>What a logical number stands for: the contents of its block, if it has one.\<close>

definition lookup :: "(nat \<Rightarrow> bytes) \<Rightarrow> hodo_mapping_info \<Rightarrow> u32 \<Rightarrow> bytes option" where
  "lookup D m l =
     (if live m (table_index m l) then Some (blk D (mapping_table m (table_index m l))) else None)"

lemma unat_mk_pos [simp]:
  "z < 65536 \<Longrightarrow> unat (zone_id (mk_pos z b)) = z" "b < 65536 \<Longrightarrow> unat (block_index (mk_pos z b)) = b"
  by (simp_all add: mk_pos_def unat_of_nat)

lemma mk_pos_unat [simp]: "mk_pos (unat (zone_id p)) (unat (block_index p)) = (p :: hodo_block_pos)"
  by (cases p) (simp add: mk_pos_def)

lemma table_index_number_of:
  assumes "i < NUMBER_MAPPING_TABLE_ENTRY"
  shows "table_index m (number_of m i) = i"
  using assms by (simp add: table_index_def number_of_def unat_of_nat NUMBER_MAPPING_TABLE_ENTRY_eq)

lemma number_of_table_index: "number_of m (table_index m l) = l"
  by (simp add: table_index_def number_of_def)

lemma number_of_nonzero:
  assumes "mapping_ok D m" "i < NUMBER_MAPPING_TABLE_ENTRY"
  shows "number_of m i \<noteq> 0"
proof -
  have a: "unat (starting_logical_number m) + i < 2 ^ 31" "starting_logical_number m \<noteq> 0"
    using assms by (auto simp: mapping_ok_def)
  then have "unat (number_of m i) = unat (starting_logical_number m) + i"
    by (simp add: number_of_def unat_word_ariths unat_of_nat)
  moreover have "unat (starting_logical_number m) \<noteq> 0" using a(2) by (simp add: unat_eq_zero)
  ultimately show ?thesis by (metis add_is_0 unat_0)
qed

lemma live_unique:
  assumes "mapping_ok D m" "live m i" "live m j" "mapping_table m i = mapping_table m j"
  shows "i = j"
proof -
  have "entry_ok D m i" "entry_ok D m j" using assms by (auto simp: mapping_ok_def)
  then have "number_of m i = number_of m j" using assms(4) by (simp add: entry_ok_def Let_def)
  then have "table_index m (number_of m i) = table_index m (number_of m j)" by simp
  then show ?thesis using assms(2,3) by (simp add: live_def table_index_number_of)
qed

text \<open>
  The step that every write shares: number \<open>i\<close> moves to the fresh position \<open>p\<close> at the end of
  its zone, where \<open>buf\<close>, carrying that number, has just been appended.
\<close>

definition placed :: "(nat \<Rightarrow> bytes) \<Rightarrow> hodo_block_pos \<Rightarrow> bytes \<Rightarrow> nat \<Rightarrow> bytes" where
  "placed D p buf = D(unat (zone_id p) := D (unat (zone_id p)) @ buf)"

definition moves ::
  "hodo_mapping_info \<Rightarrow> nat \<Rightarrow> hodo_block_pos \<Rightarrow> hodo_mapping_info \<Rightarrow> bool"
where
  "moves m i p m' \<longleftrightarrow>
     mapping_table m' = (mapping_table m)(i := p) \<and>
     starting_logical_number m' = starting_logical_number m \<and>
     (\<forall>j. lbit m' j \<longleftrightarrow> lbit m j \<or> j = i) \<and>
     (\<forall>q. zone_id q \<noteq> 0 \<longrightarrow>
        (gvalid m' q \<longleftrightarrow> (gvalid m q \<or> q = p) \<and> q \<noteq> mapping_table m i))"

lemma placed_blk:
  assumes "pos_off p = length (D (unat (zone_id p)))" "length buf = 4096"
  shows "on_disk (placed D p buf) p" "blk (placed D p buf) p = buf"
    "on_disk D q \<Longrightarrow> on_disk (placed D p buf) q" "on_disk D q \<Longrightarrow> blk (placed D p buf) q = blk D q"
  using assms by (auto simp: on_disk_def blk_def placed_def get_bytes_def)

text \<open>Zone files only grow: the blocks that are on disk stay.\<close>

definition keeps_disk :: "(nat \<Rightarrow> bytes) \<Rightarrow> (nat \<Rightarrow> bytes) \<Rightarrow> bool" where
  "keeps_disk D D' \<longleftrightarrow> (\<forall>p. on_disk D p \<longrightarrow> on_disk D' p \<and> blk D' p = blk D p)"

lemma keeps_disk_placed:
  "pos_off p = length (D (unat (zone_id p))) \<Longrightarrow> length buf = 4096 \<Longrightarrow> keeps_disk D (placed D p buf)"
  by (simp add: keeps_disk_def placed_blk)

lemma keeps_disk_refl [simp]: "keeps_disk D D"
  by (simp add: keeps_disk_def)

lemma keeps_disk_trans: "keeps_disk D D' \<Longrightarrow> keeps_disk D' D'' \<Longrightarrow> keeps_disk D D''"
  by (simp add: keeps_disk_def)

lemma mapping_ok_entryD:
  assumes "mapping_ok D m" "live m i"
  shows "zone_id (mapping_table m i) \<noteq> 0" "unat (zone_id (mapping_table m i)) < ZONE_FILES"
    "on_disk D (mapping_table m i)" "gvalid m (mapping_table m i)" "lbit m i"
    "block_number (blk D (mapping_table m i)) = number_of m i"
  using assms by (auto simp: mapping_ok_def entry_ok_def Let_def live_def)

lemma mapping_ok_markD:
  assumes "mapping_ok D m" "gvalid m q" "zone_id q \<noteq> 0" "unat (zone_id q) < ZONE_FILES"
  obtains i where "live m i" "mapping_table m i = q"
  using assms by (auto simp: mapping_ok_def)

lemma mapping_ok_startD:
  "mapping_ok D m \<Longrightarrow> starting_logical_number m \<noteq> 0"
  "mapping_ok D m \<Longrightarrow> unat (starting_logical_number m) + NUMBER_MAPPING_TABLE_ENTRY \<le> 2 ^ 31"
  by (simp_all add: mapping_ok_def)

lemma mapping_okI:
  assumes "\<And>i. live m i \<Longrightarrow> entry_ok D m i"
    and "\<And>q. zone_id q \<noteq> 0 \<Longrightarrow> unat (zone_id q) < ZONE_FILES \<Longrightarrow> gvalid m q \<Longrightarrow>
           \<exists>i. live m i \<and> mapping_table m i = q"
    and "starting_logical_number m \<noteq> 0"
    and "unat (starting_logical_number m) + NUMBER_MAPPING_TABLE_ENTRY \<le> 2 ^ 31"
  shows "mapping_ok D m"
  unfolding mapping_ok_def using assms by blast

lemma fresh_position_invalid:
  assumes "mapping_ok D m" "zone_id p \<noteq> 0" "unat (zone_id p) < ZONE_FILES"
    and "pos_off p = length (D (unat (zone_id p)))"
  shows "\<not> gvalid m p"
proof
  assume g: "gvalid m p"
  obtain i where "live m i" "mapping_table m i = p"
    by (rule mapping_ok_markD [OF assms(1) g assms(2,3)])
  then have "on_disk D p" using mapping_ok_entryD(3) [OF assms(1)] by auto
  then show False using assms(4) by (simp add: on_disk_def)
qed

lemma moves_mapping_ok:
  assumes ok: "mapping_ok D m" and mv: "moves m i p m'" and i: "i < NUMBER_MAPPING_TABLE_ENTRY"
    and z: "zone_id p \<noteq> 0" "unat (zone_id p) < ZONE_FILES"
    and p_end: "pos_off p = length (D (unat (zone_id p)))"
    and buf: "length buf = 4096" "block_number buf = number_of m i"
  shows "mapping_ok (placed D p buf) m'"
    and "lookup (placed D p buf) m' = (lookup D m)(number_of m i \<mapsto> buf)"
proof -
  note inv = mapping_ok_entryD [OF ok]
  note m' = mv [unfolded moves_def]
  note pl = placed_blk [where D = D and p = p and buf = buf, OF p_end buf(1)]
  have fresh: "\<not> gvalid m p" by (rule fresh_position_invalid [where D = D and p = p, OF ok z p_end])
  have num: "number_of m' = number_of m" and idx: "table_index m' = table_index m"
    using m' by (simp_all add: number_of_def table_index_def fun_eq_iff)
  have live': "live m' j \<longleftrightarrow> live m j \<or> j = i" for j
    using m' i z(1) by (auto simp: live_def)
  have neq: "mapping_table m j \<noteq> p" if "live m j" for j
    using fresh inv(4) [OF that] by auto
  have neq_i: "mapping_table m j \<noteq> mapping_table m i" if "live m j" "j \<noteq> i" for j
  proof
    assume eq: "mapping_table m j = mapping_table m i"
    then have "live m i" using that(1) i by (simp add: live_def)
    then show False using live_unique [OF ok that(1) _ eq] that(2) by simp
  qed
  have old: "entry_ok (placed D p buf) m' j" if l: "live m j" "j \<noteq> i" for j
  proof -
    have "gvalid m' (mapping_table m j)"
      using m' inv(1,4) [OF l(1)] neq_i [OF l] by auto
    then show ?thesis using inv(2,3,5,6) [OF l(1)] l(2) m' pl num
      by (simp add: entry_ok_def Let_def)
  qed
  have new: "entry_ok (placed D p buf) m' i"
  proof -
    have "mapping_table m i \<noteq> p" using neq z(1) i by (auto simp: live_def)
    then have "gvalid m' p" using m' z(1) by auto
    then show ?thesis using m' pl z buf(2) num by (simp add: entry_ok_def Let_def)
  qed
  have marks: "\<exists>j. live m' j \<and> mapping_table m' j = q"
    if g: "zone_id q \<noteq> 0" "unat (zone_id q) < ZONE_FILES" "gvalid m' q" for q
  proof (cases "q = p")
    case True
    then show ?thesis using live' m' by (intro exI [of _ i]) auto
  next
    case False
    then have q: "gvalid m q" "q \<noteq> mapping_table m i" using m' g(1,3) by auto
    obtain j where j: "live m j" "mapping_table m j = q"
      by (rule mapping_ok_markD [OF ok q(1) g(1,2)])
    then show ?thesis using q(2) live' m' by (intro exI [of _ j]) auto
  qed
  have "entry_ok (placed D p buf) m' j" if "live m' j" for j
    using that live' old new by (cases "j = i") auto
  then show "mapping_ok (placed D p buf) m'"
    using marks mapping_ok_startD [OF ok] m' by (intro mapping_okI) simp_all
  show "lookup (placed D p buf) m' = (lookup D m)(number_of m i \<mapsto> buf)"
  proof
    fix l
    show "lookup (placed D p buf) m' l = ((lookup D m)(number_of m i \<mapsto> buf)) l"
    proof (cases "l = number_of m i")
      case True
      then show ?thesis using i live' m' pl(2) by (simp add: lookup_def idx table_index_number_of)
    next
      case False
      then have ne: "table_index m l \<noteq> i" by (metis number_of_table_index)
      then show ?thesis using False live' m' inv(3) pl(4)
        by (auto simp: lookup_def idx)
    qed
  qed
qed

section \<open>What the store relies on\<close>

text \<open>
  The contract of the zone files: \<open>zinv\<close> is the provider's invariant and \<open>zdata z i\<close> the
  readable bytes of zone file \<open>i\<close>. Files are opened by path; a read of whole blocks below the
  end returns them and a read at the end returns nothing; a block write at the end appends; a
  truncate to zero empties the file.
\<close>

locale zone_store =
  fixes K :: "'z kernel" and mnt :: string
    and zinv :: "'z \<Rightarrow> bool" and zdata :: "'z \<Rightarrow> nat \<Rightarrow> bytes"
  assumes open_ok: "zinv z \<Longrightarrow> i < ZONE_FILES \<Longrightarrow>
      \<exists>z'. zf_open K (mnt @ ''/seq/'' @ dec_string i) w z = (Inr i, z') \<and> zinv z' \<and> zdata z' = zdata z"
    and close_ok: "zinv z \<Longrightarrow> i < ZONE_FILES \<Longrightarrow>
      zinv (zf_close K i w z) \<and> zdata (zf_close K i w z) = zdata z"
    and read_ok: "zinv z \<Longrightarrow> i < ZONE_FILES \<Longrightarrow> 4096 dvd off \<Longrightarrow>
      off + 4096 \<le> length (zdata z i) \<Longrightarrow>
      \<exists>z'. zf_read K i off 4096 z = ((4096, get_bytes off 4096 (zdata z i)), z') \<and>
           zinv z' \<and> zdata z' = zdata z"
    and read_eof: "zinv z \<Longrightarrow> i < ZONE_FILES \<Longrightarrow> length (zdata z i) \<le> off \<Longrightarrow>
      \<exists>z'. zf_read K i off n z = ((0, []), z') \<and> zinv z' \<and> zdata z' = zdata z"
    and write_ok: "zinv z \<Longrightarrow> i < ZONE_FILES \<Longrightarrow> length buf = 4096 \<Longrightarrow> 4096 dvd off \<Longrightarrow>
      off = length (zdata z i) \<Longrightarrow> off + 4096 \<le> ZONE_SIZE \<Longrightarrow>
      \<exists>z'. zf_write K i off buf z = (4096, z') \<and> zinv z' \<and>
           zdata z' = (zdata z)(i := zdata z i @ buf)"
    and write_refused: "zinv z \<Longrightarrow> i < ZONE_FILES \<Longrightarrow> length buf = 4096 \<Longrightarrow> off < length (zdata z i) \<Longrightarrow>
      \<exists>r z'. zf_write K i off buf z = (r, z') \<and> r < 0 \<and> zinv z' \<and> zdata z' = zdata z"
    and path_ok: "zinv z \<Longrightarrow> i < ZONE_FILES \<Longrightarrow>
      zf_path K (mnt @ ''/seq/'' @ dec_string i) z = Some i"
    and truncate_ok: "zinv z \<Longrightarrow> i < ZONE_FILES \<Longrightarrow>
      \<exists>r z'. zf_truncate K i 0 z = (r, z') \<and> zinv z' \<and> zdata z' = (zdata z)(i := [])"

text \<open>The store invariant: the provider's, the configuration (the mount point fits \<open>path_up\<close>), and
  a well-formed mapping.\<close>

definition config_ok :: "string \<Rightarrow> 'z hodo_state \<Rightarrow> bool" where
  "config_ok mnt s \<longleftrightarrow>
     mount_point_path s = mnt \<and> length mnt \<le> 8 \<and> hodo_nr_zones s = NUMBER_ZONES \<and> hodo_zone_size s = ZONE_SIZE"

definition store_ok :: "('z \<Rightarrow> bool) \<Rightarrow> ('z \<Rightarrow> nat \<Rightarrow> bytes) \<Rightarrow> string \<Rightarrow> 'z hodo_state \<Rightarrow> bool" where
  "store_ok zinv zdata mnt s \<longleftrightarrow>
     zinv (zonefs s) \<and> config_ok mnt s \<and> mapping_ok (zdata (zonefs s)) (mapping_info s)"

text \<open>The write pointer stands at the end of a zone file that can be written.\<close>

definition at_end :: "('z \<Rightarrow> nat \<Rightarrow> bytes) \<Rightarrow> 'z hodo_state \<Rightarrow> hodo_block_pos \<Rightarrow> bool" where
  "at_end zdata s p \<longleftrightarrow>
     zone_id p \<noteq> 0 \<and> unat (zone_id p) < ZONE_FILES \<and>
     pos_off p = length (zdata (zonefs s) (unat (zone_id p)))"

definition contents :: "('z \<Rightarrow> nat \<Rightarrow> bytes) \<Rightarrow> 'z hodo_state \<Rightarrow> u32 \<Rightarrow> bytes option" where
  "contents zdata s = lookup (zdata (zonefs s)) (mapping_info s)"

definition next_pos :: "hodo_block_pos \<Rightarrow> hodo_block_pos" where
  "next_pos p = (if unat (block_index p) = BLOCKS_PER_ZONE - 1
     then \<lparr>zone_id = zone_id p + 1, block_index = 0\<rparr> else p\<lparr>block_index := block_index p + 1\<rparr>)"

text \<open>What a write stores: the number goes into a data block.\<close>

definition stamped :: "u32 \<Rightarrow> bytes \<Rightarrow> bytes" where
  "stamped l buf = (if db_is_dat buf then db_set_lbn l buf else buf)"

lemma length_stamped [length_simps]: "length buf = 4096 \<Longrightarrow> length (stamped l buf) = 4096"
  by (simp add: stamped_def length_simps)

lemma block_number_stamped:
  "length buf = 4096 \<Longrightarrow> db_is_dat buf \<or> hi_ino buf = l \<Longrightarrow> block_number (stamped l buf) = l"
  by (auto simp: stamped_def block_number_def)

lemma pos_off_end: "pos_off p + 4096 = ZONE_SIZE \<longleftrightarrow> unat (block_index p) = BLOCKS_PER_ZONE - 1"
  by (auto simp: pos_off_def const_simps)

lemma pos_off_le: "pos_off p + 4096 \<le> ZONE_SIZE"
  using unat_u16_less [of "block_index p"] by (simp add: pos_off_def const_simps)

lemma pos_off_dvd: "4096 dvd pos_off p"
  by (simp add: pos_off_def const_simps)

lemma advance_wp_eq: "advance_wp (pos_off p) 4096 ZONE_SIZE m = m\<lparr>wp := next_pos p\<rparr>" if "wp m = p"
  using that by (auto simp: advance_wp_def next_pos_def pos_off_end)

lemma hodo_zone_path_ok:
  assumes "length mnt \<le> 8" "z < 100"
  shows "hodo_zone_path mnt z = Some (mnt @ ''/seq/'' @ dec_string z)"
  using assms length_dec_string_2 [OF assms(2)] by (simp add: hodo_zone_path_def)

text \<open>The table and bitmap updates of a write of number \<open>l\<close> that already has an entry slot.\<close>

lemma reassign_moves:
  assumes ok: "mapping_ok D m" and l: "table_index m l < NUMBER_MAPPING_TABLE_ENTRY"
    and b: "lbit m (table_index m l)" and p: "unat (zone_id p) < NUMBER_ZONES"
  obtains m1 m2 where "hodo_set_GC_bitmap p m = Some m1"
    "read_table m1 l = Some (mapping_table m (table_index m l))"
    "hodo_unset_GC_bitmap (mapping_table m (table_index m l)) m1 = Some m2"
    "write_table l p m2 = Some (m2\<lparr>mapping_table := (mapping_table m)(table_index m l := p)\<rparr>)"
    "moves m (table_index m l) p (m2\<lparr>mapping_table := (mapping_table m)(table_index m l := p)\<rparr>)"
    "wp m2 = wp m" "swap_wp m2 = swap_wp m"
proof -
  let ?i = "table_index m l" and ?q = "mapping_table m (table_index m l)"
  obtain m1 where m1: "hodo_set_GC_bitmap p m = Some m1" using GC_bitmap_defined(1) [OF p] by blast
  have "unat (zone_id ?q) < NUMBER_ZONES"
  proof (cases "zone_id ?q = 0")
    case False
    then have "unat (zone_id ?q) < ZONE_FILES"
      using mapping_ok_entryD(2) [OF ok] l by (simp add: live_def)
    then show ?thesis by (simp add: ZONE_FILES_def)
  qed (simp add: NUMBER_ZONES_def)
  then obtain m2 where m2: "hodo_unset_GC_bitmap ?q m1 = Some m2" using GC_bitmap_defined(2) by blast
  note f1 = set_GC_frame [OF m1] and f2 = unset_GC_frame [OF m2]
  have idx: "table_index m1 l = ?i" "table_index m2 l = ?i"
    using f1 f2 by (simp_all add: table_index_def)
  show thesis
  proof (rule that [OF m1 _ m2])
    show "read_table m1 l = Some ?q" using l f1 by (simp add: read_table_def idx)
    show "write_table l p m2 = Some (m2\<lparr>mapping_table := (mapping_table m)(?i := p)\<rparr>)"
      using l f1 f2 by (simp add: write_table_def idx)
    show "moves m ?i p (m2\<lparr>mapping_table := (mapping_table m)(?i := p)\<rparr>)"
      unfolding moves_def
      using f1 f2 b set_GC_gvalid [OF m1] unset_GC_gvalid [OF m2] by auto
  qed (use f1 f2 in simp_all)
qed

context zone_store
begin

lemma zone_path: "config_ok mnt s \<Longrightarrow> i < ZONE_FILES \<Longrightarrow>
    hodo_zone_path (mount_point_path s) i = Some (mnt @ ''/seq/'' @ dec_string i)"
  by (simp add: config_ok_def hodo_zone_path_ok const_simps)

lemma zone_read:
  assumes "zinv (zonefs s)" "config_ok mnt s" "i < ZONE_FILES" "4096 dvd off"
    and "off + 4096 \<le> length (zdata (zonefs s) i)" "length buf = 4096"
  shows "\<exists>z'. hodo_zone_read K i off buf 4096 s =
      Some (4096, get_bytes off 4096 (zdata (zonefs s) i), s\<lparr>zonefs := z'\<rparr>) \<and>
      zinv z' \<and> zdata z' = zdata (zonefs s)"
proof -
  obtain z1 where z1: "zf_open K (mnt @ ''/seq/'' @ dec_string i) False (zonefs s) = (Inr i, z1)"
      "zinv z1" "zdata z1 = zdata (zonefs s)" using open_ok assms by metis
  obtain z2 where z2: "zf_read K i off 4096 z1 = ((4096, get_bytes off 4096 (zdata z1 i)), z2)"
      "zinv z2" "zdata z2 = zdata z1" using read_ok [OF z1(2) assms(3,4)] assms(5) z1(3) by metis
  show ?thesis
    using z1 z2 close_ok [OF z2(2) assms(3), of False] zone_path [OF assms(2,3)] assms(5,6)
    by (intro exI [of _ "zf_close K i False z2"]) (simp add: hodo_zone_read_def length_get_bytes)
qed

lemma zone_read_eof:
  assumes "zinv (zonefs s)" "config_ok mnt s" "i < ZONE_FILES"
    and "length (zdata (zonefs s) i) \<le> off"
  shows "\<exists>z'. hodo_zone_read K i off buf n s = Some (0, buf, s\<lparr>zonefs := z'\<rparr>) \<and>
      zinv z' \<and> zdata z' = zdata (zonefs s)"
proof -
  obtain z1 where z1: "zf_open K (mnt @ ''/seq/'' @ dec_string i) False (zonefs s) = (Inr i, z1)"
      "zinv z1" "zdata z1 = zdata (zonefs s)" using open_ok assms by metis
  obtain z2 where z2: "zf_read K i off n z1 = ((0, []), z2)" "zinv z2" "zdata z2 = zdata z1"
    using read_eof [OF z1(2) assms(3)] assms(4) z1(3) by metis
  show ?thesis
    using z1 z2 close_ok [OF z2(2) assms(3), of False] zone_path [OF assms(2,3)]
    by (intro exI [of _ "zf_close K i False z2"]) (simp add: hodo_zone_read_def)
qed

lemma zone_write:
  assumes "zinv (zonefs s)" "config_ok mnt s" "i < ZONE_FILES" "4096 dvd off"
    and "off = length (zdata (zonefs s) i)" "off + 4096 \<le> ZONE_SIZE" "length buf = 4096"
  shows "\<exists>z'. hodo_zone_write K i off buf s = Some (Inr 4096, s\<lparr>zonefs := z'\<rparr>) \<and>
      zinv z' \<and> zdata z' = (zdata (zonefs s))(i := zdata (zonefs s) i @ buf)"
proof -
  obtain z1 where z1: "zf_open K (mnt @ ''/seq/'' @ dec_string i) True (zonefs s) = (Inr i, z1)"
      "zinv z1" "zdata z1 = zdata (zonefs s)" using open_ok assms by metis
  have "off = length (zdata z1 i)" using assms(5) z1(3) by simp
  then obtain z2 where z2: "zf_write K i off buf z1 = (4096, z2)" "zinv z2"
      "zdata z2 = (zdata z1)(i := zdata z1 i @ buf)"
    using write_ok [OF z1(2) assms(3,7,4) _ assms(6)] by blast
  show ?thesis
    using z1 z2 close_ok [OF z2(2) assms(3), of True] zone_path [OF assms(2,3)]
    by (intro exI [of _ "zf_close K i True z2"]) (simp add: hodo_zone_write_def)
qed

lemma zone_append:
  assumes "zinv (zonefs s)" "config_ok mnt s" "at_end zdata s p" "length buf = 4096"
  shows "\<exists>z'. hodo_zone_write K (unat (zone_id p)) (pos_off p) buf s = Some (Inr 4096, s\<lparr>zonefs := z'\<rparr>) \<and>
      zinv z' \<and> zdata z' = placed (zdata (zonefs s)) p buf"
  unfolding placed_def
  by (rule zone_write [OF assms(1,2) _ pos_off_dvd _ pos_off_le assms(4)])
    (use assms(3) in \<open>simp_all add: at_end_def\<close>)

text \<open>Reading a logical number that has a block returns its contents.\<close>

lemma read_struct:
  assumes ok: "store_ok zinv zdata mnt s" and l: "contents zdata s l = Some b"
    and buf: "length buf = 4096"
  shows "\<exists>z'. hodo_read_struct K l buf 4096 s = Some (4096, b, s\<lparr>zonefs := z'\<rparr>) \<and>
      zinv z' \<and> zdata z' = zdata (zonefs s)"
proof -
  let ?m = "mapping_info s" and ?D = "zdata (zonefs s)"
  let ?p = "mapping_table ?m (table_index ?m l)"
  note ok' = ok [unfolded store_ok_def]
  have lv: "live ?m (table_index ?m l)" and b: "b = blk ?D ?p"
    using l by (auto simp: contents_def lookup_def split: if_splits)
  have "on_disk ?D ?p" "unat (zone_id ?p) < ZONE_FILES"
    using mapping_ok_entryD(2,3) lv ok' by blast+
  then have "\<exists>z'. hodo_zone_read K (unat (zone_id ?p)) (pos_off ?p) buf 4096 s =
      Some (4096, b, s\<lparr>zonefs := z'\<rparr>) \<and> zinv z' \<and> zdata z' = ?D"
    unfolding b blk_def using ok' buf
    by (intro zone_read) (auto simp: pos_off_dvd on_disk_def)
  then show ?thesis using lv
    by (simp add: hodo_read_struct_def read_table_def live_def HODO_DATABLOCK_SIZE_def)
qed

text \<open>Writing a number that already has its slot (a fresh number or a rewrite).\<close>

lemma write_struct:
  assumes ok: "store_ok zinv zdata mnt s" and wp: "at_end zdata s (wp (mapping_info s))"
    and l: "l \<noteq> 0" "table_index (mapping_info s) l < NUMBER_MAPPING_TABLE_ENTRY"
      "lbit (mapping_info s) (table_index (mapping_info s) l)"
    and buf: "length buf = 4096" "db_is_dat buf \<or> hi_ino buf = l"
  shows "\<exists>s'. hodo_write_struct K buf 4096 l s = Some (4096, stamped l buf, l, s') \<and>
      store_ok zinv zdata mnt s' \<and>
      contents zdata s' = (contents zdata s)(l \<mapsto> stamped l buf) \<and>
      zdata (zonefs s') = placed (zdata (zonefs s)) (wp (mapping_info s)) (stamped l buf) \<and>
      moves (mapping_info s) (table_index (mapping_info s) l) (wp (mapping_info s)) (mapping_info s') \<and>
      wp (mapping_info s') = next_pos (wp (mapping_info s)) \<and>
      swap_wp (mapping_info s') = swap_wp (mapping_info s)"
proof -
  let ?m = "mapping_info s" and ?D = "zdata (zonefs s)"
  let ?p = "wp ?m" and ?i = "table_index ?m l" and ?buf = "stamped l buf"
  note ok' = ok [unfolded store_ok_def] and wp' = wp [unfolded at_end_def]
  have p: "unat (zone_id ?p) < NUMBER_ZONES" using wp' by (simp add: const_simps)
  have map_ok: "mapping_ok ?D ?m" using ok' by simp
  obtain m1 m2 where m12: "hodo_set_GC_bitmap ?p ?m = Some m1"
      "read_table m1 l = Some (mapping_table ?m ?i)"
      "hodo_unset_GC_bitmap (mapping_table ?m ?i) m1 = Some m2"
      "write_table l ?p m2 = Some (m2\<lparr>mapping_table := (mapping_table ?m)(?i := ?p)\<rparr>)"
      "moves ?m ?i ?p (m2\<lparr>mapping_table := (mapping_table ?m)(?i := ?p)\<rparr>)"
      "wp m2 = ?p" "swap_wp m2 = swap_wp ?m"
    by (rule reassign_moves [OF map_ok l(2,3) p])
  define m3 where "m3 = m2\<lparr>mapping_table := (mapping_table ?m)(?i := ?p)\<rparr>"
  have lb: "length ?buf = 4096" using buf(1) by (rule length_stamped)
  have "block_number ?buf = l" using buf by (rule block_number_stamped)
  then have bn: "block_number ?buf = number_of ?m ?i" by (simp add: number_of_table_index)
  obtain z' where z': "hodo_zone_write K (unat (zone_id ?p)) (pos_off ?p) ?buf (s\<lparr>mapping_info := m3\<rparr>) =
      Some (Inr 4096, s\<lparr>mapping_info := m3, zonefs := z'\<rparr>)" "zinv z'"
      "zdata z' = placed ?D ?p ?buf"
    using zone_append [of "s\<lparr>mapping_info := m3\<rparr>" ?p ?buf] ok' wp lb
    by (auto simp: config_ok_def at_end_def)
  let ?s' = "s\<lparr>mapping_info := m3\<lparr>wp := next_pos ?p\<rparr>, zonefs := z'\<rparr>"
  have mv: "moves ?m ?i ?p (m3\<lparr>wp := next_pos ?p\<rparr>)"
    using m12(5) by (simp add: moves_def m3_def)
  have "advance_wp (pos_off ?p) 4096 ZONE_SIZE m3 = m3\<lparr>wp := next_pos ?p\<rparr>"
    using m12(6) by (simp add: m3_def advance_wp_eq)
  then have run: "hodo_write_struct K buf 4096 l s = Some (4096, ?buf, l, ?s')"
    using m12 z'(1) lb l(1) ok'
    by (simp add: hodo_write_struct_def assign_number_def Let_def HODO_DATABLOCK_SIZE_def
        m3_def [symmetric] config_ok_def flip: stamped_def)
  note res = moves_mapping_ok [OF map_ok mv l(2) _ _ _ lb bn]
  have "mapping_ok (placed ?D ?p ?buf) (m3\<lparr>wp := next_pos ?p\<rparr>)"
    using wp' by (intro res(1)) simp_all
  moreover have "lookup (placed ?D ?p ?buf) (m3\<lparr>wp := next_pos ?p\<rparr>) = (lookup ?D ?m)(number_of ?m ?i \<mapsto> ?buf)"
    using wp' by (intro res(2)) simp_all
  ultimately show ?thesis using run z' ok' mv m12(7)
    by (intro exI [of _ ?s'])
      (simp add: store_ok_def config_ok_def contents_def number_of_table_index m3_def)
qed

text \<open>
  When the write pointer stands on a block that is written already, zonefs refuses the write, but the
  table is changed all the same: the number now stands for the block that was there.
\<close>

lemma zone_write_refused:
  assumes "zinv (zonefs s)" "config_ok mnt s" "i < ZONE_FILES" "off < length (zdata (zonefs s) i)" "length buf = 4096"
  shows "\<exists>r z'. hodo_zone_write K i off buf s = Some (Inr r, s\<lparr>zonefs := z'\<rparr>) \<and> r < 0 \<and>
      zinv z' \<and> zdata z' = zdata (zonefs s)"
proof -
  obtain z1 where z1: "zf_open K (mnt @ ''/seq/'' @ dec_string i) True (zonefs s) = (Inr i, z1)"
      "zinv z1" "zdata z1 = zdata (zonefs s)" using open_ok assms by metis
  have "off < length (zdata z1 i)" using assms(4) z1(3) by simp
  then obtain r z2 where z2: "zf_write K i off buf z1 = (r, z2)" "r < 0" "zinv z2" "zdata z2 = zdata z1"
    using write_refused [OF z1(2) assms(3,5)] by blast
  show ?thesis
    using z1 z2 close_ok [OF z2(3) assms(3), of True] zone_path [OF assms(2,3)]
    by (intro exI [of _ r] exI [of _ "zf_close K i True z2"]) (simp add: hodo_zone_write_def)
qed

lemma write_struct_refused:
  assumes z: "zinv (zonefs s)" "config_ok mnt s" "mapping_ok (zdata (zonefs s)) (mapping_info s)"
    and wp: "unat (zone_id (wp (mapping_info s))) < ZONE_FILES"
      "pos_off (wp (mapping_info s)) < length (zdata (zonefs s) (unat (zone_id (wp (mapping_info s)))))"
    and l: "l \<noteq> 0" "table_index (mapping_info s) l < NUMBER_MAPPING_TABLE_ENTRY"
      "lbit (mapping_info s) (table_index (mapping_info s) l)"
    and buf: "length buf = 4096"
  obtains r s' where "hodo_write_struct K buf 4096 l s = Some (r, stamped l buf, l, s')" "r < 0"
    "zinv (zonefs s')" "config_ok mnt s'" "zdata (zonefs s') = zdata (zonefs s)"
    "moves (mapping_info s) (table_index (mapping_info s) l) (wp (mapping_info s)) (mapping_info s')"
    "wp (mapping_info s') = next_pos (wp (mapping_info s))"
proof -
  let ?m = "mapping_info s" and ?D = "zdata (zonefs s)"
  let ?p = "wp ?m" and ?i = "table_index ?m l" and ?buf = "stamped l buf"
  have p: "unat (zone_id ?p) < NUMBER_ZONES" using wp by (simp add: const_simps)
  obtain m1 m2 where m12: "hodo_set_GC_bitmap ?p ?m = Some m1"
      "read_table m1 l = Some (mapping_table ?m ?i)"
      "hodo_unset_GC_bitmap (mapping_table ?m ?i) m1 = Some m2"
      "write_table l ?p m2 = Some (m2\<lparr>mapping_table := (mapping_table ?m)(?i := ?p)\<rparr>)"
      "moves ?m ?i ?p (m2\<lparr>mapping_table := (mapping_table ?m)(?i := ?p)\<rparr>)"
      "wp m2 = ?p" "swap_wp m2 = swap_wp ?m"
    by (rule reassign_moves [OF z(3) l(2,3) p])
  define m3 where "m3 = m2\<lparr>mapping_table := (mapping_table ?m)(?i := ?p)\<rparr>"
  have lb: "length ?buf = 4096" using buf(1) by (rule length_stamped)
  obtain r z' where z': "hodo_zone_write K (unat (zone_id ?p)) (pos_off ?p) ?buf (s\<lparr>mapping_info := m3\<rparr>) =
      Some (Inr r, s\<lparr>mapping_info := m3, zonefs := z'\<rparr>)" "r < 0" "zinv z'" "zdata z' = ?D"
    using zone_write_refused [of "s\<lparr>mapping_info := m3\<rparr>" "unat (zone_id ?p)" "pos_off ?p" ?buf] z wp lb
    by (auto simp: config_ok_def)
  let ?s' = "s\<lparr>mapping_info := m3\<lparr>wp := next_pos ?p\<rparr>, zonefs := z'\<rparr>"
  have mv: "moves ?m ?i ?p (m3\<lparr>wp := next_pos ?p\<rparr>)"
    using m12(5) by (simp add: moves_def m3_def)
  have "advance_wp (pos_off ?p) 4096 ZONE_SIZE m3 = m3\<lparr>wp := next_pos ?p\<rparr>"
    using m12(6) by (simp add: m3_def advance_wp_eq)
  then have run: "hodo_write_struct K buf 4096 l s = Some (r, ?buf, l, ?s')"
    using m12 z'(1) lb l(1) z(2)
    by (simp add: hodo_write_struct_def assign_number_def Let_def HODO_DATABLOCK_SIZE_def
        m3_def [symmetric] config_ok_def flip: stamped_def)
  show thesis by (rule that [OF run z'(2)]) (use z z' mv in \<open>simp_all add: config_ok_def\<close>)
qed

text \<open>Writing with the number 0 takes the first free one.\<close>

lemma write_struct_new:
  assumes ok: "store_ok zinv zdata mnt s" and wp: "at_end zdata s (wp (mapping_info s))"
    and n: "hodo_get_next_logical_number (mapping_info s) = Some (n, m')" "n \<noteq> -1"
    and buf: "length buf = 4096" "db_is_dat buf"
  shows "\<exists>s'. hodo_write_struct K buf 4096 0 s = Some (4096, stamped n buf, n, s') \<and>
      store_ok zinv zdata mnt s' \<and> contents zdata s n = None \<and> n \<noteq> 0 \<and>
      contents zdata s' = (contents zdata s)(n \<mapsto> stamped n buf) \<and>
      wp (mapping_info s') = next_pos (wp (mapping_info s)) \<and>
      swap_wp (mapping_info s') = swap_wp (mapping_info s) \<and>
      table_index (mapping_info s) n < NUMBER_MAPPING_TABLE_ENTRY \<and>
      moves (mapping_info s) (table_index (mapping_info s) n) (wp (mapping_info s)) (mapping_info s') \<and>
      zdata (zonefs s') = placed (zdata (zonefs s)) (wp (mapping_info s)) (stamped n buf)"
proof -
  let ?m = "mapping_info s" and ?D = "zdata (zonefs s)" and ?p = "wp (mapping_info s)"
  note ok' = ok [unfolded store_ok_def] and wp' = wp [unfolded at_end_def]
  have map_ok: "mapping_ok ?D ?m" using ok' by simp
  obtain k where k: "k < NUMBER_MAPPING_TABLE_ENTRY" "\<not> lbit ?m k" "n = number_of ?m k"
      "\<forall>j<k. lbit ?m j"
    using next_logical_SomeD [OF n] unfolding number_of_def by metis
  have idx: "table_index ?m n = k" unfolding k(3) by (rule table_index_number_of [OF k(1)])
  have n0: "n \<noteq> 0" using number_of_nonzero [OF map_ok k(1)] k(3) by simp
  have dead: "\<not> live ?m k" using mapping_ok_entryD(5) [OF map_ok] k(2) by blast
  then have tz: "zone_id (mapping_table ?m k) = 0" using k(1) by (simp add: live_def)
  have p: "unat (zone_id ?p) < NUMBER_ZONES" using wp' by (simp add: const_simps)
  obtain m1 where m1: "hodo_set_GC_bitmap ?p ?m = Some m1" using GC_bitmap_defined(1) [OF p] by blast
  note f1 = set_GC_frame [OF m1]
  have n1: "hodo_get_next_logical_number m1 = Some (n, set_lbit k m1)"
    using next_logical_number_at [OF k(1), of m1] f1 k by (simp add: number_of_def)
  define m3 where "m3 = (set_lbit k m1)\<lparr>mapping_table := (mapping_table ?m)(k := ?p)\<rparr>"
  have wt: "write_table n ?p (set_lbit k m1) = Some m3"
    using idx k(1) f1 by (simp add: write_table_def m3_def table_index_def)
  have lb: "length (stamped n buf) = 4096" using buf(1) by (rule length_stamped)
  have bn: "block_number (stamped n buf) = number_of ?m k"
    using buf k(3) by (simp add: block_number_stamped)
  obtain z' where z': "hodo_zone_write K (unat (zone_id ?p)) (pos_off ?p) (stamped n buf) (s\<lparr>mapping_info := m3\<rparr>) =
      Some (Inr 4096, s\<lparr>mapping_info := m3, zonefs := z'\<rparr>)" "zinv z'"
      "zdata z' = placed ?D ?p (stamped n buf)"
    using zone_append [of "s\<lparr>mapping_info := m3\<rparr>" ?p "stamped n buf"] ok' wp lb
    by (auto simp: config_ok_def at_end_def)
  have mv: "moves ?m k ?p (m3\<lparr>wp := next_pos ?p\<rparr>)"
    using f1 set_GC_gvalid [OF m1] tz
    by (auto simp: moves_def m3_def)
  let ?s' = "s\<lparr>mapping_info := m3\<lparr>wp := next_pos ?p\<rparr>, zonefs := z'\<rparr>"
  have "advance_wp (pos_off ?p) 4096 ZONE_SIZE m3 = m3\<lparr>wp := next_pos ?p\<rparr>"
    using f1 by (simp add: m3_def advance_wp_eq)
  then have run: "hodo_write_struct K buf 4096 0 s = Some (4096, stamped n buf, n, ?s')"
    using m1 n1 wt z'(1) lb ok'
    by (simp add: hodo_write_struct_def assign_number_def Let_def HODO_DATABLOCK_SIZE_def
        config_ok_def flip: stamped_def)
  note res = moves_mapping_ok [OF map_ok mv k(1) _ _ _ lb bn]
  have "mapping_ok (placed ?D ?p (stamped n buf)) (m3\<lparr>wp := next_pos ?p\<rparr>)"
    using wp' by (intro res(1)) simp_all
  moreover have "lookup (placed ?D ?p (stamped n buf)) (m3\<lparr>wp := next_pos ?p\<rparr>) =
      (lookup ?D ?m)(n \<mapsto> stamped n buf)"
    unfolding k(3) using wp' by (intro res(2) [unfolded k(3)]) simp_all
  moreover have "contents zdata s n = None" using dead idx by (simp add: contents_def lookup_def)
  moreover have "moves ?m (table_index ?m n) ?p (mapping_info ?s')" unfolding idx using mv by simp
  ultimately show ?thesis using run z' ok' f1 n0 idx k(1)
    by (intro exI [of _ ?s'])
      (simp add: store_ok_def config_ok_def contents_def m3_def)
qed

end

section \<open>Sequences of writes\<close>

text \<open>
  Room for \<open>n\<close> more blocks in the zone of the write pointer, which is not one of the zones \<open>Z\<close> that are
  kept empty; a number that may be written.
\<close>

definition wp_room :: "('z \<Rightarrow> nat \<Rightarrow> bytes) \<Rightarrow> nat set \<Rightarrow> 'z hodo_state \<Rightarrow> nat \<Rightarrow> bool" where
  "wp_room zdata Z s n \<longleftrightarrow>
     (n = 0 \<or> at_end zdata s (wp (mapping_info s)) \<and>
        unat (block_index (wp (mapping_info s))) + n \<le> BLOCKS_PER_ZONE \<and> unat (zone_id (wp (mapping_info s))) \<notin> Z) \<and>
     (\<forall>z \<in> Z. zdata (zonefs s) z = [])"

lemma wp_room_mono: "wp_room zdata Z s m \<Longrightarrow> n \<le> m \<Longrightarrow> wp_room zdata Z s n"
  by (auto simp: wp_room_def)

definition num_ok :: "'z hodo_state \<Rightarrow> u32 \<Rightarrow> bool" where
  "num_ok s l \<longleftrightarrow> l \<noteq> 0 \<and> table_index (mapping_info s) l < NUMBER_MAPPING_TABLE_ENTRY \<and>
     lbit (mapping_info s) (table_index (mapping_info s) l)"

lemma num_ok_live:
  assumes "mapping_ok (zdata (zonefs s)) (mapping_info s)" "contents zdata s l \<noteq> None"
  shows "num_ok s l"
proof -
  have lv: "live (mapping_info s) (table_index (mapping_info s) l)"
    using assms(2) by (auto simp: contents_def lookup_def split: if_splits)
  then have i: "table_index (mapping_info s) l < NUMBER_MAPPING_TABLE_ENTRY" by (simp add: live_def)
  have "l \<noteq> 0" using number_of_nonzero [OF assms(1) i] by (simp add: number_of_table_index)
  then show ?thesis using i mapping_ok_entryD(5) [OF assms(1) lv] by (simp add: num_ok_def)
qed

lemma wp_room_next:
  assumes room: "wp_room zdata Z s (Suc n)"
    and wp: "wp (mapping_info s') = next_pos (wp (mapping_info s))"
    and dat: "zdata (zonefs s') = placed (zdata (zonefs s)) (wp (mapping_info s)) buf"
    and len: "length buf = 4096"
  shows "wp_room zdata Z s' n"
proof -
  let ?p = "wp (mapping_info s)"
  have e: "at_end zdata s ?p" and b: "unat (block_index ?p) + Suc n \<le> BLOCKS_PER_ZONE"
    and z: "unat (zone_id ?p) \<notin> Z" and Z: "\<forall>z \<in> Z. zdata (zonefs s) z = []"
    using room by (simp_all add: wp_room_def)
  have Z': "\<forall>z \<in> Z. zdata (zonefs s') z = []" using Z z by (auto simp: dat placed_def)
  show ?thesis
  proof (cases "n = 0")
    case False
    have lt: "unat (block_index ?p) < BLOCKS_PER_ZONE - 1" using b False by simp
    then have nx: "next_pos ?p = ?p\<lparr>block_index := block_index ?p + 1\<rparr>" by (simp add: next_pos_def)
    have u: "unat (block_index ?p + 1) = unat (block_index ?p) + 1"
      using lt by (simp add: BLOCKS_PER_ZONE_eq unat_word_ariths)
    have "pos_off (next_pos ?p) = pos_off ?p + 4096"
      unfolding nx using u by (simp add: pos_off_def HODO_DATABLOCK_SIZE_def algebra_simps)
    then have "at_end zdata s' (next_pos ?p)"
      using e len unfolding at_end_def dat placed_def by (simp add: nx)
    then show ?thesis using b u nx z Z' by (simp add: wp_room_def wp)
  qed (use Z' in \<open>simp add: wp_room_def\<close>)
qed

text \<open>Some number is free.\<close>

definition has_free_number :: "'z hodo_state \<Rightarrow> bool" where
  "has_free_number s \<longleftrightarrow> (\<exists>k < NUMBER_MAPPING_TABLE_ENTRY. \<not> lbit (mapping_info s) k)"

text \<open>How many.\<close>

definition free_numbers :: "'z hodo_state \<Rightarrow> nat" where
  "free_numbers s = card {k. k < NUMBER_MAPPING_TABLE_ENTRY \<and> \<not> lbit (mapping_info s) k}"

lemma has_free_number_iff: "has_free_number s \<longleftrightarrow> 0 < free_numbers s"
  by (auto simp: has_free_number_def free_numbers_def card_gt_0_iff)

lemma free_numbers_take:
  assumes "\<And>j. lbit (mapping_info s') j \<longleftrightarrow> lbit (mapping_info s) j \<or> j = i"
  shows "free_numbers s \<le> Suc (free_numbers s')"
proof -
  let ?F = "\<lambda>s. {k. k < NUMBER_MAPPING_TABLE_ENTRY \<and> \<not> lbit (mapping_info s) k}"
  have "?F s \<subseteq> insert i (?F s')" using assms by auto
  then have "card (?F s) \<le> card (insert i (?F s'))" by (intro card_mono) simp_all
  also have "\<dots> \<le> Suc (card (?F s'))" by (rule card_insert_le_m1) simp_all
  finally show ?thesis by (simp add: free_numbers_def)
qed

context zone_store
begin

text \<open>What every write of an existing number does, in the form the callers use.\<close>

lemma write_existing:
  assumes ok: "store_ok zinv zdata mnt s" and room: "wp_room zdata Z s (Suc n)" and l: "num_ok s l"
    and buf: "length buf = 4096" "db_is_dat buf \<or> hi_ino buf = l"
  obtains s' where "hodo_write_struct K buf 4096 l s = Some (4096, stamped l buf, l, s')"
    "store_ok zinv zdata mnt s'" "contents zdata s' = (contents zdata s)(l \<mapsto> stamped l buf)"
    "wp_room zdata Z s' n" "\<And>k. num_ok s' k = num_ok s k"
    "swap_wp (mapping_info s') = swap_wp (mapping_info s)"
    "starting_logical_number (mapping_info s') = starting_logical_number (mapping_info s)"
    "\<And>j. lbit (mapping_info s') j = lbit (mapping_info s) j"
    "zdata (zonefs s') = placed (zdata (zonefs s)) (wp (mapping_info s)) (stamped l buf)"
    "wp (mapping_info s') = next_pos (wp (mapping_info s))"
proof -
  let ?m = "mapping_info s"
  have e: "at_end zdata s (wp ?m)" using room by (simp add: wp_room_def)
  have l': "l \<noteq> 0" "table_index ?m l < NUMBER_MAPPING_TABLE_ENTRY" "lbit ?m (table_index ?m l)"
    using l by (auto simp: num_ok_def)
  obtain s' where s': "hodo_write_struct K buf 4096 l s = Some (4096, stamped l buf, l, s')"
      "store_ok zinv zdata mnt s'" "contents zdata s' = (contents zdata s)(l \<mapsto> stamped l buf)"
      "zdata (zonefs s') = placed (zdata (zonefs s)) (wp ?m) (stamped l buf)"
      "moves ?m (table_index ?m l) (wp ?m) (mapping_info s')"
      "wp (mapping_info s') = next_pos (wp ?m)" "swap_wp (mapping_info s') = swap_wp ?m"
    using write_struct [OF ok e l' buf] by blast
  have "wp_room zdata Z s' n"
    using wp_room_next [OF room s'(6,4)] buf(1) by (simp add: length_stamped)
  moreover have st: "starting_logical_number (mapping_info s') = starting_logical_number ?m"
    using s'(5) by (simp add: moves_def)
  moreover have lb: "lbit (mapping_info s') j = lbit ?m j" for j
    using s'(5) l'(3) by (auto simp: moves_def)
  moreover have "num_ok s' k = num_ok s k" for k
    using st lb by (simp add: num_ok_def table_index_def)
  ultimately show thesis using that s' by blast
qed

end

lemma next_number_ok:
  assumes "mapping_ok D m" "k < NUMBER_MAPPING_TABLE_ENTRY" "\<not> lbit m k"
  obtains n m' where "hodo_get_next_logical_number m = Some (n, m')" "n \<noteq> -1" "n \<noteq> 0"
proof -
  define l where "l = (LEAST k. \<not> lbit m k)"
  have l: "\<not> lbit m l" unfolding l_def using assms(3) by (rule LeastI)
  have "l \<le> k" unfolding l_def using assms(3) by (rule Least_le)
  then have lt: "l < NUMBER_MAPPING_TABLE_ENTRY" using assms(2) by simp
  have "\<forall>j<l. lbit m j" unfolding l_def using not_less_Least by blast
  then have n: "hodo_get_next_logical_number m = Some (number_of m l, set_lbit l m)"
    using next_logical_number_at [OF lt l] by (simp add: number_of_def)
  have b: "unat (starting_logical_number m) + l < 2 ^ 31"
    using mapping_ok_startD(2) [OF assms(1)] lt by simp
  then have "unat (number_of m l) < 2 ^ 31"
    by (simp add: number_of_def unat_word_ariths unat_of_nat)
  moreover have "unat (-1 :: u32) = 4294967295"
    by (simp add: unsigned_minus_1_eq_mask mask_eq_exp_minus_1)
  ultimately have "number_of m l \<noteq> -1" by auto
  then show thesis using that n number_of_nonzero [OF assms(1) lt] by blast
qed

context zone_store
begin

lemma write_new:
  assumes ok: "store_ok zinv zdata mnt s" and room: "wp_room zdata Z s (Suc k)" and free: "has_free_number s"
    and buf: "length buf = 4096" "db_is_dat buf"
  obtains s' n where "hodo_write_struct K buf 4096 0 s = Some (4096, stamped n buf, n, s')"
    "store_ok zinv zdata mnt s'" "contents zdata s n = None" "n \<noteq> 0"
    "contents zdata s' = (contents zdata s)(n \<mapsto> stamped n buf)" "wp_room zdata Z s' k"
    "num_ok s' n" "\<And>l. num_ok s l \<Longrightarrow> num_ok s' l"
    "swap_wp (mapping_info s') = swap_wp (mapping_info s)"
    "starting_logical_number (mapping_info s') = starting_logical_number (mapping_info s)"
    "free_numbers s \<le> Suc (free_numbers s')" "keeps_disk (zdata (zonefs s)) (zdata (zonefs s'))"
proof -
  let ?m = "mapping_info s"
  have e: "at_end zdata s (wp ?m)" using room by (simp add: wp_room_def)
  have mok: "mapping_ok (zdata (zonefs s)) ?m" using ok by (simp add: store_ok_def)
  obtain j where "j < NUMBER_MAPPING_TABLE_ENTRY" "\<not> lbit ?m j" using free by (auto simp: has_free_number_def)
  then obtain n m' where n: "hodo_get_next_logical_number ?m = Some (n, m')" "n \<noteq> -1"
    using next_number_ok [OF mok] by metis
  obtain s' where s': "hodo_write_struct K buf 4096 0 s = Some (4096, stamped n buf, n, s')"
      "store_ok zinv zdata mnt s'" "contents zdata s n = None" "n \<noteq> 0"
      "contents zdata s' = (contents zdata s)(n \<mapsto> stamped n buf)"
      "wp (mapping_info s') = next_pos (wp ?m)" "swap_wp (mapping_info s') = swap_wp ?m"
      "table_index ?m n < NUMBER_MAPPING_TABLE_ENTRY" "moves ?m (table_index ?m n) (wp ?m) (mapping_info s')"
      "zdata (zonefs s') = placed (zdata (zonefs s)) (wp ?m) (stamped n buf)"
    using write_struct_new [OF ok e n buf] by blast
  have "wp_room zdata Z s' k"
    using wp_room_next [OF room s'(6,10)] buf(1) by (simp add: length_stamped)
  moreover have st: "starting_logical_number (mapping_info s') = starting_logical_number ?m"
    using s'(9) by (simp add: moves_def)
  moreover have "num_ok s' n" "\<And>l. num_ok s l \<Longrightarrow> num_ok s' l"
    using s'(4,8,9) st by (auto simp: moves_def num_ok_def table_index_def)
  moreover have "free_numbers s \<le> Suc (free_numbers s')"
    using s'(9) by (intro free_numbers_take [of _ _ "table_index ?m n"]) (auto simp: moves_def)
  moreover have "keeps_disk (zdata (zonefs s)) (zdata (zonefs s'))"
    unfolding s'(10) using e buf(1) by (intro keeps_disk_placed) (simp_all add: at_end_def length_stamped)
  ultimately show thesis using that s' by blast
qed

end

end
