(* ===== verification/Zonefs_Super.thy ===== *)
theory Zonefs_Super
  imports Hodo_Prelude
begin

text \<open>
  The per-file part of \<open>super.c\<close> and the structures of \<open>zonefs.h\<close>: zone state flags, the
  count of active zones, block usage statistics, the reaction to I/O errors, and zone
  management. The functions work on one zone file, so the model's state is that file's view: its
  zone, its inode, the super block information they share, and the block device.

  The block layer is not part of the repository: it is the record \<open>blkdev\<close> of operations on an
  abstract device state, an argument of every function that uses it. Locks are not modelled: each
  function is one sequential step.
\<close>

section \<open>The block device\<close>

datatype req_op = ZONE_RESET | ZONE_OPEN | ZONE_CLOSE | ZONE_FINISH

datatype zone_cond = COND_NOT_WP | COND_EMPTY | COND_IMP_OPEN | COND_EXP_OPEN | COND_CLOSED
  | COND_READONLY | COND_FULL | COND_OFFLINE

datatype blk_zone_type = TYPE_CONVENTIONAL | TYPE_SEQWRITE_REQ | TYPE_SEQWRITE_PREF | TYPE_OTHER nat

record blk_zone =
  bz_start :: nat
  bz_len :: nat
  bz_wp :: nat
  bz_type :: blk_zone_type
  bz_cond :: zone_cond
  bz_capacity :: nat

text \<open>
  \<open>blkdev_zone_mgmt\<close>, \<open>blkdev_report_zones\<close> for one zone (\<open>None\<close> when it fails)
  and \<open>blkdev_issue_flush\<close>.
\<close>

record 'd blkdev =
  bd_zone_mgmt :: "req_op \<Rightarrow> nat \<Rightarrow> nat \<Rightarrow> 'd \<Rightarrow> int \<times> 'd"
  bd_report_zone :: "nat \<Rightarrow> 'd \<Rightarrow> blk_zone option"
  bd_flush :: "'d \<Rightarrow> int \<times> 'd"

definition SECTOR_SHIFT :: nat where [const_simps]: "SECTOR_SHIFT = 9"

section \<open>zonefs.h\<close>

datatype zonefs_ztype = ZTYPE_CNV | ZTYPE_SEQ

definition ZONEFS_NAME_MAX :: nat where [const_simps]: "ZONEFS_NAME_MAX = 16"

definition zonefs_zone_type :: "blk_zone \<Rightarrow> zonefs_ztype" where
  "zonefs_zone_type zone = (if bz_type zone = TYPE_CONVENTIONAL then ZTYPE_CNV else ZTYPE_SEQ)"

definition ZONE_INIT_MODE :: u32 where "ZONE_INIT_MODE = push_bit 0 1"
definition ZONE_FLAG_OPEN :: u32 where "ZONE_FLAG_OPEN = push_bit 1 1"
definition ZONE_ACTIVE :: u32 where "ZONE_ACTIVE = push_bit 2 1"
definition ZONE_OFFLINE :: u32 where "ZONE_OFFLINE = push_bit 3 1"
definition ZONE_READONLY :: u32 where "ZONE_READONLY = push_bit 4 1"
definition ZONE_CNV :: u32 where "ZONE_CNV = push_bit 31 1"

lemmas zone_flag_defs = ZONE_INIT_MODE_def ZONE_FLAG_OPEN_def ZONE_ACTIVE_def ZONE_OFFLINE_def
  ZONE_READONLY_def ZONE_CNV_def

record zonefs_zone =
  z_flags :: u32
  z_sector :: nat
  z_size :: int
  z_capacity :: int
  z_wpoffset :: int
  z_mode :: u16
  z_uid :: u32
  z_gid :: u32

text \<open>The VFS inode of a zone file with the \<open>zonefs_inode_info\<close> around it.\<close>

record zonefs_inode =
  i_ino :: nat
  i_size :: int
  i_flags :: u32
  i_mode :: u16
  i_uid :: u32
  i_gid :: u32
  i_wr_refcnt :: u32

definition S_IMMUTABLE :: u32 where "S_IMMUTABLE = push_bit 3 1"
definition S_SWAPFILE :: u32 where "S_SWAPFILE = push_bit 8 1"

definition MNTOPT_ERRORS_RO :: u64 where "MNTOPT_ERRORS_RO = push_bit 0 1"
definition MNTOPT_ERRORS_ZRO :: u64 where "MNTOPT_ERRORS_ZRO = push_bit 1 1"
definition MNTOPT_ERRORS_ZOL :: u64 where "MNTOPT_ERRORS_ZOL = push_bit 2 1"
definition MNTOPT_ERRORS_REPAIR :: u64 where "MNTOPT_ERRORS_REPAIR = push_bit 3 1"
definition MNTOPT_ERRORS_MASK :: u64 where
  "MNTOPT_ERRORS_MASK = (MNTOPT_ERRORS_RO OR MNTOPT_ERRORS_ZRO OR MNTOPT_ERRORS_ZOL OR MNTOPT_ERRORS_REPAIR)"
definition MNTOPT_EXPLICIT_OPEN :: u64 where "MNTOPT_EXPLICIT_OPEN = push_bit 4 1"

lemmas mntopt_defs = MNTOPT_ERRORS_RO_def MNTOPT_ERRORS_ZRO_def MNTOPT_ERRORS_ZOL_def
  MNTOPT_ERRORS_REPAIR_def MNTOPT_ERRORS_MASK_def MNTOPT_EXPLICIT_OPEN_def

record zonefs_sb_info =
  s_mount_opts :: u64
  s_features :: u64
  s_uid :: u32
  s_gid :: u32
  s_perm :: u16
  s_zone_sectors_shift :: nat
  s_nr_zones :: "zonefs_ztype \<Rightarrow> nat"
  s_blocks :: int
  s_used_blocks :: int
  s_max_wro_seq_files :: u32
  s_wro_seq_files :: int
  s_max_active_seq_files :: u32
  s_active_seq_files :: int

record 'd zctx =
  c_zone :: zonefs_zone
  c_inode :: zonefs_inode
  c_sbi :: zonefs_sb_info
  c_rdonly :: bool
  c_blkbits :: nat
  c_dev :: 'd

definition c_blocksize :: "'d zctx \<Rightarrow> int" where
  "c_blocksize c = 2 ^ c_blkbits c"

definition zone_has :: "u32 \<Rightarrow> zonefs_zone \<Rightarrow> bool" where
  "zone_has f z \<longleftrightarrow> z_flags z AND f \<noteq> 0"

definition zone_set :: "u32 \<Rightarrow> zonefs_zone \<Rightarrow> zonefs_zone" where
  "zone_set f z = z\<lparr>z_flags := z_flags z OR f\<rparr>"

definition zone_clear :: "u32 \<Rightarrow> zonefs_zone \<Rightarrow> zonefs_zone" where
  "zone_clear f z = z\<lparr>z_flags := z_flags z AND NOT f\<rparr>"

definition sbi_has :: "u64 \<Rightarrow> 'd zctx \<Rightarrow> bool" where
  "sbi_has f c \<longleftrightarrow> s_mount_opts (c_sbi c) AND f \<noteq> 0"

definition zonefs_zone_is_cnv :: "zonefs_zone \<Rightarrow> bool" where
  "zonefs_zone_is_cnv z \<longleftrightarrow> zone_has ZONE_CNV z"

definition zonefs_zone_is_seq :: "zonefs_zone \<Rightarrow> bool" where
  "zonefs_zone_is_seq z \<longleftrightarrow> \<not> zonefs_zone_is_cnv z"

definition inode_immutable :: "zonefs_inode \<Rightarrow> bool" where
  "inode_immutable i \<longleftrightarrow> i_flags i AND S_IMMUTABLE \<noteq> 0"

subsection \<open>Single-bit flags\<close>

lemma and_single_bit: "(w :: u32) AND push_bit n 1 \<noteq> 0 \<longleftrightarrow> bit w n"
proof
  assume "w AND push_bit n 1 \<noteq> 0"
  then obtain k where "bit (w AND push_bit n 1) k" using bit_eq_iff [of "w AND push_bit n 1" 0] by auto
  then show "bit w n" by (auto simp: bit_simps)
next
  assume b: "bit w n"
  then have "bit (w AND push_bit n 1) n" by (auto simp: bit_simps dest: bit_imp_le_length)
  then show "w AND push_bit n 1 \<noteq> 0" by auto
qed

lemma zone_has_bit: "zone_has (push_bit n 1) z \<longleftrightarrow> bit (z_flags z) n"
  by (simp only: zone_has_def and_single_bit)

lemma zone_set_bit: "n < 32 \<Longrightarrow> bit (z_flags (zone_set (push_bit n 1) z)) k \<longleftrightarrow> bit (z_flags z) k \<or> k = n"
  by (auto simp: zone_set_def bit_simps dest: bit_imp_le_length)

lemma zone_clear_bit: "bit (z_flags (zone_clear (push_bit n 1) z)) k \<longleftrightarrow> bit (z_flags z) k \<and> k \<noteq> n"
  by (auto simp: zone_clear_def bit_simps dest: bit_imp_le_length)

lemma zone_has_bits:
  "zone_has ZONE_INIT_MODE z = bit (z_flags z) 0" "zone_has ZONE_FLAG_OPEN z = bit (z_flags z) 1"
  "zone_has ZONE_ACTIVE z = bit (z_flags z) 2" "zone_has ZONE_OFFLINE z = bit (z_flags z) 3"
  "zone_has ZONE_READONLY z = bit (z_flags z) 4" "zone_has ZONE_CNV z = bit (z_flags z) 31"
  unfolding zone_flag_defs by (rule zone_has_bit)+

lemma zone_set_bits:
  "bit (z_flags (zone_set ZONE_FLAG_OPEN z)) k \<longleftrightarrow> bit (z_flags z) k \<or> k = 1"
  "bit (z_flags (zone_set ZONE_ACTIVE z)) k \<longleftrightarrow> bit (z_flags z) k \<or> k = 2"
  "bit (z_flags (zone_set ZONE_OFFLINE z)) k \<longleftrightarrow> bit (z_flags z) k \<or> k = 3"
  "bit (z_flags (zone_set ZONE_READONLY z)) k \<longleftrightarrow> bit (z_flags z) k \<or> k = 4"
  unfolding zone_flag_defs by (rule zone_set_bit, simp)+

lemma zone_clear_bits:
  "bit (z_flags (zone_clear ZONE_INIT_MODE z)) k \<longleftrightarrow> bit (z_flags z) k \<and> k \<noteq> 0"
  "bit (z_flags (zone_clear ZONE_FLAG_OPEN z)) k \<longleftrightarrow> bit (z_flags z) k \<and> k \<noteq> 1"
  "bit (z_flags (zone_clear ZONE_ACTIVE z)) k \<longleftrightarrow> bit (z_flags z) k \<and> k \<noteq> 2"
  unfolding zone_flag_defs by (rule zone_clear_bit)+

lemmas zone_flag_simps = zone_has_bits zone_set_bits zone_clear_bits

lemma zone_set_fields [simp]:
  "z_sector (zone_set f z) = z_sector z" "z_size (zone_set f z) = z_size z"
  "z_capacity (zone_set f z) = z_capacity z" "z_wpoffset (zone_set f z) = z_wpoffset z"
  "z_sector (zone_clear f z) = z_sector z" "z_size (zone_clear f z) = z_size z"
  "z_capacity (zone_clear f z) = z_capacity z" "z_wpoffset (zone_clear f z) = z_wpoffset z"
  by (simp_all add: zone_set_def zone_clear_def)

lemma zone_has_fields [simp]:
  "zone_has f (z\<lparr>z_wpoffset := w\<rparr>) = zone_has f z" "zone_has f (z\<lparr>z_mode := m\<rparr>) = zone_has f z"
  by (simp_all add: zone_has_def)

section \<open>Active zones\<close>

definition account_more :: "int \<Rightarrow> 'd zctx \<Rightarrow> 'd zctx" where
  "account_more k c = c\<lparr>c_sbi := (c_sbi c)\<lparr>s_active_seq_files := s_active_seq_files (c_sbi c) + k\<rparr>\<rparr>"

definition zonefs_account_active :: "'d zctx \<Rightarrow> 'd zctx" where
  "zonefs_account_active c =
     (let z = c_zone c in
      if zonefs_zone_is_cnv z then c
      else if \<not> zone_has (ZONE_OFFLINE OR ZONE_READONLY) z \<and>
              (zone_has ZONE_FLAG_OPEN z \<or> 0 < z_wpoffset z \<and> z_wpoffset z < z_capacity z)
      then (if \<not> zone_has ZONE_ACTIVE z
            then account_more 1 (c\<lparr>c_zone := zone_set ZONE_ACTIVE z\<rparr>) else c)
      else (if zone_has ZONE_ACTIVE z
            then account_more (-1) (c\<lparr>c_zone := zone_clear ZONE_ACTIVE z\<rparr>) else c))"

lemma zone_has_or: "zone_has (f OR g) z \<longleftrightarrow> zone_has f z \<or> zone_has g z"
  by (auto simp: zone_has_def bit_eq_iff bit_and_iff bit_or_iff)

text \<open>A zone counts as active while it is explicitly open or partly written, and usable.\<close>

definition zone_is_active :: "zonefs_zone \<Rightarrow> bool" where
  "zone_is_active z \<longleftrightarrow>
     \<not> zone_has ZONE_OFFLINE z \<and> \<not> zone_has ZONE_READONLY z \<and>
     (zone_has ZONE_FLAG_OPEN z \<or> 0 < z_wpoffset z \<and> z_wpoffset z < z_capacity z)"

lemma account_active_eq:
  "zonefs_account_active c =
     (if zonefs_zone_is_cnv (c_zone c) \<or> zone_is_active (c_zone c) = zone_has ZONE_ACTIVE (c_zone c) then c
      else if zone_is_active (c_zone c)
      then account_more 1 (c\<lparr>c_zone := zone_set ZONE_ACTIVE (c_zone c)\<rparr>)
      else account_more (-1) (c\<lparr>c_zone := zone_clear ZONE_ACTIVE (c_zone c)\<rparr>))"
  by (simp add: zonefs_account_active_def zone_is_active_def zone_has_or Let_def)

lemma zone_is_active_set_clear [simp]:
  "zone_is_active (zone_set ZONE_ACTIVE z) = zone_is_active z"
  "zone_is_active (zone_clear ZONE_ACTIVE z) = zone_is_active z"
  "zonefs_zone_is_cnv (zone_set ZONE_ACTIVE z) = zonefs_zone_is_cnv z"
  "zonefs_zone_is_cnv (zone_clear ZONE_ACTIVE z) = zonefs_zone_is_cnv z"
  by (simp_all add: zone_is_active_def zonefs_zone_is_cnv_def zone_flag_simps)

lemma account_more_simps [simp]:
  "c_zone (account_more k c) = c_zone c" "c_inode (account_more k c) = c_inode c"
  "c_dev (account_more k c) = c_dev c" "c_rdonly (account_more k c) = c_rdonly c"
  "c_blkbits (account_more k c) = c_blkbits c"
  "s_active_seq_files (c_sbi (account_more k c)) = s_active_seq_files (c_sbi c) + k"
  by (simp_all add: account_more_def)

text \<open>\<open>zonefs_account_active\<close> brings the ACTIVE flag of a sequential zone in line with
  the zone's condition and changes the count of active zones by exactly the change of the flag,
  so the count stays the number of zones whose flag is set; a conventional zone is left alone.\<close>

theorem account_active_keeps_count:
  "let c' = zonefs_account_active c in
     s_active_seq_files (c_sbi c') - of_bool (zone_has ZONE_ACTIVE (c_zone c')) =
       s_active_seq_files (c_sbi c) - of_bool (zone_has ZONE_ACTIVE (c_zone c)) \<and>
     zone_has ZONE_ACTIVE (c_zone c') =
       (if zonefs_zone_is_cnv (c_zone c) then zone_has ZONE_ACTIVE (c_zone c)
        else zone_is_active (c_zone c)) \<and>
     zone_is_active (c_zone c') = zone_is_active (c_zone c) \<and> c_inode c' = c_inode c \<and>
     z_wpoffset (c_zone c') = z_wpoffset (c_zone c) \<and> c_dev c' = c_dev c"
  unfolding account_active_eq [of c] Let_def by (simp add: zone_flag_simps)

section \<open>Zone management, file size and statistics\<close>

definition zonefs_zone_mgmt :: "'d blkdev \<Rightarrow> req_op \<Rightarrow> 'd zctx \<Rightarrow> int \<times> 'd zctx" where
  "zonefs_zone_mgmt B op c =
     (let op' = (if op = ZONE_CLOSE \<and> z_wpoffset (c_zone c) = 0 then ZONE_RESET else op);
          (ret, d) = bd_zone_mgmt B op' (z_sector (c_zone c))
                       (nat (z_size (c_zone c)) div 2 ^ SECTOR_SHIFT) (c_dev c)
      in (ret, c\<lparr>c_dev := d\<rparr>))"

definition set_isize :: "int \<Rightarrow> 'd zctx \<Rightarrow> 'd zctx" where
  "set_isize n c = c\<lparr>c_inode := (c_inode c)\<lparr>i_size := n\<rparr>\<rparr>"

definition zonefs_i_size_write :: "int \<Rightarrow> 'd zctx \<Rightarrow> 'd zctx" where
  "zonefs_i_size_write isize c =
     (let c1 = set_isize isize c in
      if z_capacity (c_zone c) \<le> isize
      then (let c2 = (if zone_has ZONE_ACTIVE (c_zone c) then account_more (-1) c1 else c1)
            in c2\<lparr>c_zone := zone_clear ZONE_FLAG_OPEN (zone_clear ZONE_ACTIVE (c_zone c2))\<rparr>)
      else c1)"

definition zonefs_update_stats :: "int \<Rightarrow> 'd zctx \<Rightarrow> 'd zctx" where
  "zonefs_update_stats new_isize c =
     (let old_isize = i_size (c_inode c); s = c_sbi c in
      if new_isize = old_isize then c
      else if new_isize < old_isize
      then (let nr_blocks = drop_bit (c_blkbits c) (old_isize - new_isize) in
            c\<lparr>c_sbi := s\<lparr>s_used_blocks :=
              (if nr_blocks < s_used_blocks s then s_used_blocks s - nr_blocks else 0)\<rparr>\<rparr>)
      else (let used = s_used_blocks s + drop_bit (c_blkbits c) (new_isize - old_isize) in
            c\<lparr>c_sbi := s\<lparr>s_used_blocks := (if s_blocks s < used then s_blocks s else used)\<rparr>\<rparr>))"

text \<open>C28: block usage stays between zero and the number of blocks, whatever sizes an I/O error
  recovery reports, and nothing but the usage count changes.\<close>

theorem update_stats_bounds:
  assumes "0 \<le> s_used_blocks (c_sbi c)" and "s_used_blocks (c_sbi c) \<le> s_blocks (c_sbi c)"
  shows "0 \<le> s_used_blocks (c_sbi (zonefs_update_stats n c)) \<and>
    s_used_blocks (c_sbi (zonefs_update_stats n c)) \<le> s_blocks (c_sbi (zonefs_update_stats n c)) \<and>
    (\<exists>u. zonefs_update_stats n c = c\<lparr>c_sbi := (c_sbi c)\<lparr>s_used_blocks := u\<rparr>\<rparr>)"
proof -
  let ?u = "s_used_blocks (c_sbi (zonefs_update_stats n c))"
  have nn: "0 \<le> drop_bit k (j :: int)" if "0 \<le> j" for k j
    using that by (simp add: drop_bit_eq_div pos_imp_zdiv_nonneg_iff)
  consider "n = i_size (c_inode c)" | "n < i_size (c_inode c)" | "i_size (c_inode c) < n" by linarith
  then show ?thesis
  proof cases
    case 1
    then show ?thesis using assms by (cases c; cases "c_sbi c")
      (auto simp: zonefs_update_stats_def Let_def intro: exI [of _ "s_used_blocks (c_sbi c)"])
  next
    case 2
    define k where "k = drop_bit (c_blkbits c) (i_size (c_inode c) - n)"
    have "0 \<le> k" unfolding k_def using 2 by (intro nn) simp
    then show ?thesis using assms 2
      by (auto simp: zonefs_update_stats_def Let_def k_def [symmetric])
  next
    case 3
    define k where "k = drop_bit (c_blkbits c) (n - i_size (c_inode c))"
    have "0 \<le> k" unfolding k_def using 3 by (intro nn) simp
    then show ?thesis using assms 3
      by (auto simp: zonefs_update_stats_def Let_def k_def [symmetric])
  qed
qed

section \<open>I/O errors\<close>

definition zonefs_check_zone_condition :: "blk_zone \<Rightarrow> zonefs_zone \<Rightarrow> int \<times> zonefs_zone" where
  "zonefs_check_zone_condition zone z =
     (case bz_cond zone of
        COND_OFFLINE \<Rightarrow> (0, zone_set ZONE_OFFLINE z)
      | COND_READONLY \<Rightarrow>
          (if zonefs_zone_is_cnv z then z_capacity z else z_wpoffset z, zone_set ZONE_READONLY z)
      | COND_FULL \<Rightarrow> (z_capacity z, z)
      | _ \<Rightarrow>
          (if zonefs_zone_is_cnv z then z_capacity z
           else (int (bz_wp zone) - int (bz_start zone)) * 2 ^ SECTOR_SHIFT, z))"

definition zonefs_inode_update_mode :: "'d zctx \<Rightarrow> 'd zctx" where
  "zonefs_inode_update_mode c =
     (let z = c_zone c; i = c_inode c;
          i' = (if zone_has ZONE_OFFLINE z
                then i\<lparr>i_flags := i_flags i OR S_IMMUTABLE, i_mode := i_mode i AND NOT 0x1FF\<rparr>
                else if zone_has ZONE_READONLY z
                then i\<lparr>i_flags := i_flags i OR S_IMMUTABLE,
                       i_mode := (if zone_has ZONE_INIT_MODE z then i_mode i AND NOT 0x1FF
                                  else i_mode i AND NOT 0x92)\<rparr>
                else i)
      in c\<lparr>c_inode := i', c_zone := (zone_clear ZONE_INIT_MODE z)\<lparr>z_mode := i_mode i'\<rparr>\<rparr>)"

definition map_zone :: "(zonefs_zone \<Rightarrow> zonefs_zone) \<Rightarrow> 'd zctx \<Rightarrow> 'd zctx" where
  "map_zone f c = c\<lparr>c_zone := f (c_zone c)\<rparr>"

text \<open>The condition handling: the zone flags and access rights, and the size to expose.\<close>

definition handle_bad_zone :: "int \<Rightarrow> int \<Rightarrow> 'd zctx \<Rightarrow> int \<times> 'd zctx" where
  "handle_bad_zone isize data_size c =
     (if zone_has ZONE_OFFLINE (c_zone c) \<or> sbi_has MNTOPT_ERRORS_ZOL c
      then (0, zonefs_inode_update_mode (map_zone (zone_set ZONE_OFFLINE) c))
      else if zone_has ZONE_READONLY (c_zone c) \<or> sbi_has MNTOPT_ERRORS_ZRO c
      then (isize, zonefs_inode_update_mode (map_zone (zone_set ZONE_READONLY) c))
      else if sbi_has MNTOPT_ERRORS_RO c \<and> isize < data_size then (isize, c)
      else (data_size, c))"

definition zonefs_handle_io_error :: "blk_zone \<Rightarrow> bool \<Rightarrow> 'd zctx \<Rightarrow> 'd zctx" where
  "zonefs_handle_io_error zone write c0 =
     (let (data_size, z) = zonefs_check_zone_condition zone (c_zone c0);
          c = c0\<lparr>c_zone := z\<rparr>; isize = i_size (c_inode c)
      in if \<not> zone_has (ZONE_READONLY OR ZONE_OFFLINE) z \<and> \<not> write \<and> isize = data_size then c
         else let (data_size', c1) = handle_bad_zone isize data_size c;
                  c2 = (if sbi_has MNTOPT_EXPLICIT_OPEN c1 \<and>
                           zone_has (ZONE_READONLY OR ZONE_OFFLINE) (c_zone c1)
                        then map_zone (zone_clear ZONE_FLAG_OPEN) c1 else c1);
                  c3 = (if sbi_has MNTOPT_ERRORS_RO c2 then c2\<lparr>c_rdonly := True\<rparr> else c2);
                  c4 = zonefs_i_size_write data_size' (zonefs_update_stats data_size' c3)
              in zonefs_account_active (map_zone (\<lambda>z. z\<lparr>z_wpoffset := data_size'\<rparr>) c4))"

definition zonefs_io_error :: "'d blkdev \<Rightarrow> bool \<Rightarrow> 'd zctx \<Rightarrow> 'd zctx" where
  "zonefs_io_error B write c =
     (let z = c_zone c in
      if \<not> zonefs_zone_is_seq z
      then (let len = nat (z_size z) div 2 ^ SECTOR_SHIFT in
            zonefs_handle_io_error
              \<lparr>bz_start = z_sector z, bz_len = len, bz_wp = z_sector z + len,
               bz_type = TYPE_CONVENTIONAL, bz_cond = COND_NOT_WP, bz_capacity = len\<rparr> write c)
      else (case bd_report_zone B (z_sector z) (c_dev c) of
              None \<Rightarrow> c\<lparr>c_rdonly := True\<rparr>
            | Some zone \<Rightarrow> zonefs_handle_io_error zone write c))"

subsection \<open>Frames and the balance of the active count\<close>

text \<open>The count of active zones less this zone's share of it: what no operation may change.\<close>

definition active_balance :: "'d zctx \<Rightarrow> int" where
  "active_balance c = s_active_seq_files (c_sbi c) - of_bool (zone_has ZONE_ACTIVE (c_zone c))"

lemma update_stats_frame [simp]:
  "c_zone (zonefs_update_stats n c) = c_zone c" "c_inode (zonefs_update_stats n c) = c_inode c"
  "c_dev (zonefs_update_stats n c) = c_dev c" "c_rdonly (zonefs_update_stats n c) = c_rdonly c"
  "c_blkbits (zonefs_update_stats n c) = c_blkbits c"
  "s_active_seq_files (c_sbi (zonefs_update_stats n c)) = s_active_seq_files (c_sbi c)"
  "s_mount_opts (c_sbi (zonefs_update_stats n c)) = s_mount_opts (c_sbi c)"
  by (simp_all add: zonefs_update_stats_def Let_def)

lemma i_size_write_frame [simp]:
  "i_size (c_inode (zonefs_i_size_write n c)) = n"
  "i_mode (c_inode (zonefs_i_size_write n c)) = i_mode (c_inode c)"
  "i_flags (c_inode (zonefs_i_size_write n c)) = i_flags (c_inode c)"
  "i_wr_refcnt (c_inode (zonefs_i_size_write n c)) = i_wr_refcnt (c_inode c)"
  "z_sector (c_zone (zonefs_i_size_write n c)) = z_sector (c_zone c)"
  "z_size (c_zone (zonefs_i_size_write n c)) = z_size (c_zone c)"
  "z_capacity (c_zone (zonefs_i_size_write n c)) = z_capacity (c_zone c)"
  "z_wpoffset (c_zone (zonefs_i_size_write n c)) = z_wpoffset (c_zone c)"
  "c_dev (zonefs_i_size_write n c) = c_dev c" "c_rdonly (zonefs_i_size_write n c) = c_rdonly c"
  "c_blkbits (zonefs_i_size_write n c) = c_blkbits c"
  "s_mount_opts (c_sbi (zonefs_i_size_write n c)) = s_mount_opts (c_sbi c)"
  "active_balance (zonefs_i_size_write n c) = active_balance c"
  by (simp_all add: zonefs_i_size_write_def set_isize_def Let_def active_balance_def zone_flag_simps
      account_more_def)

lemma i_size_write_flags:
  "bit (z_flags (c_zone (zonefs_i_size_write n c))) k \<longleftrightarrow>
     bit (z_flags (c_zone c)) k \<and> \<not> (z_capacity (c_zone c) \<le> n \<and> (k = 1 \<or> k = 2))"
  by (auto simp: zonefs_i_size_write_def set_isize_def Let_def zone_flag_simps)

lemma account_active_frame [simp]:
  "c_inode (zonefs_account_active c) = c_inode c" "c_dev (zonefs_account_active c) = c_dev c"
  "c_rdonly (zonefs_account_active c) = c_rdonly c" "c_blkbits (zonefs_account_active c) = c_blkbits c"
  "s_mount_opts (c_sbi (zonefs_account_active c)) = s_mount_opts (c_sbi c)"
  "s_used_blocks (c_sbi (zonefs_account_active c)) = s_used_blocks (c_sbi c)"
  "s_blocks (c_sbi (zonefs_account_active c)) = s_blocks (c_sbi c)"
  "z_wpoffset (c_zone (zonefs_account_active c)) = z_wpoffset (c_zone c)"
  "z_capacity (c_zone (zonefs_account_active c)) = z_capacity (c_zone c)"
  "z_sector (c_zone (zonefs_account_active c)) = z_sector (c_zone c)"
  "z_size (c_zone (zonefs_account_active c)) = z_size (c_zone c)"
  "active_balance (zonefs_account_active c) = active_balance c"
  by (simp_all add: account_active_eq active_balance_def zone_flag_simps account_more_def)

lemma account_active_flags:
  "k \<noteq> 2 \<Longrightarrow> bit (z_flags (c_zone (zonefs_account_active c))) k = bit (z_flags (c_zone c)) k"
  "zonefs_zone_is_seq (c_zone c) \<Longrightarrow>
     zone_has ZONE_ACTIVE (c_zone (zonefs_account_active c)) = zone_is_active (c_zone c)"
  by (simp_all add: account_active_eq zone_flag_simps zonefs_zone_is_seq_def)

lemma update_mode_frame [simp]:
  "i_size (c_inode (zonefs_inode_update_mode c)) = i_size (c_inode c)"
  "c_sbi (zonefs_inode_update_mode c) = c_sbi c" "c_dev (zonefs_inode_update_mode c) = c_dev c"
  "c_rdonly (zonefs_inode_update_mode c) = c_rdonly c"
  "c_blkbits (zonefs_inode_update_mode c) = c_blkbits c"
  "z_wpoffset (c_zone (zonefs_inode_update_mode c)) = z_wpoffset (c_zone c)"
  "z_capacity (c_zone (zonefs_inode_update_mode c)) = z_capacity (c_zone c)"
  "z_sector (c_zone (zonefs_inode_update_mode c)) = z_sector (c_zone c)"
  "z_size (c_zone (zonefs_inode_update_mode c)) = z_size (c_zone c)"
  "bit (z_flags (c_zone (zonefs_inode_update_mode c))) k \<longleftrightarrow> bit (z_flags (c_zone c)) k \<and> k \<noteq> 0"
  by (simp_all add: zonefs_inode_update_mode_def Let_def zone_clear_bits)

lemma map_zone_simps [simp]:
  "c_zone (map_zone f c) = f (c_zone c)" "c_inode (map_zone f c) = c_inode c"
  "c_sbi (map_zone f c) = c_sbi c" "c_dev (map_zone f c) = c_dev c"
  "c_rdonly (map_zone f c) = c_rdonly c" "c_blkbits (map_zone f c) = c_blkbits c"
  by (simp_all add: map_zone_def)

lemma check_zone_condition_simps [simp]:
  "z_wpoffset (snd (zonefs_check_zone_condition zone z)) = z_wpoffset z"
  "z_capacity (snd (zonefs_check_zone_condition zone z)) = z_capacity z"
  "bit (z_flags (snd (zonefs_check_zone_condition zone z))) k \<longleftrightarrow> bit (z_flags z) k \<or>
     bz_cond zone = COND_OFFLINE \<and> k = 3 \<or> bz_cond zone = COND_READONLY \<and> k = 4"
  by (auto simp: zonefs_check_zone_condition_def zone_set_bits split: zone_cond.splits)

section \<open>What error recovery leaves behind\<close>

text \<open>The amount of data to expose after an error, from the zone report and the mount options.\<close>

definition recovered_size :: "blk_zone \<Rightarrow> bool \<Rightarrow> 'd zctx \<Rightarrow> int" where
  "recovered_size zone write c =
     (let (data_size, z) = zonefs_check_zone_condition zone (c_zone c); isize = i_size (c_inode c) in
      if \<not> write \<and> isize = data_size \<and> \<not> zone_has ZONE_OFFLINE z \<and> \<not> zone_has ZONE_READONLY z
      then isize
      else if zone_has ZONE_OFFLINE z \<or> sbi_has MNTOPT_ERRORS_ZOL c then 0
      else if zone_has ZONE_READONLY z \<or> sbi_has MNTOPT_ERRORS_ZRO c then isize
      else if sbi_has MNTOPT_ERRORS_RO c then min isize data_size else data_size)"

lemma handle_bad_zone_frame [simp]:
  "i_size (c_inode (snd (handle_bad_zone n k c))) = i_size (c_inode c)"
  "c_sbi (snd (handle_bad_zone n k c)) = c_sbi c" "c_dev (snd (handle_bad_zone n k c)) = c_dev c"
  "c_rdonly (snd (handle_bad_zone n k c)) = c_rdonly c"
  "c_blkbits (snd (handle_bad_zone n k c)) = c_blkbits c"
  "z_wpoffset (c_zone (snd (handle_bad_zone n k c))) = z_wpoffset (c_zone c)"
  "z_capacity (c_zone (snd (handle_bad_zone n k c))) = z_capacity (c_zone c)"
  "zone_has ZONE_ACTIVE (c_zone (snd (handle_bad_zone n k c))) = zone_has ZONE_ACTIVE (c_zone c)"
  by (simp_all add: handle_bad_zone_def map_zone_def zone_flag_simps)

text \<open>Whether the error needs handling, and the steps that follow when it does.\<close>

definition error_pending :: "blk_zone \<Rightarrow> bool \<Rightarrow> 'd zctx \<Rightarrow> bool" where
  "error_pending zone write c \<longleftrightarrow>
     (case zonefs_check_zone_condition zone (c_zone c) of (data_size, z) \<Rightarrow>
        zone_has ZONE_OFFLINE z \<or> zone_has ZONE_READONLY z \<or> write \<or> i_size (c_inode c) \<noteq> data_size)"

definition close_bad_zone :: "'d zctx \<Rightarrow> 'd zctx" where
  "close_bad_zone c =
     (let c2 = (if sbi_has MNTOPT_EXPLICIT_OPEN c \<and> zone_has (ZONE_READONLY OR ZONE_OFFLINE) (c_zone c)
                then map_zone (zone_clear ZONE_FLAG_OPEN) c else c)
      in if sbi_has MNTOPT_ERRORS_RO c2 then c2\<lparr>c_rdonly := True\<rparr> else c2)"

definition settle_size :: "int \<Rightarrow> 'd zctx \<Rightarrow> 'd zctx" where
  "settle_size n c = zonefs_account_active (map_zone (\<lambda>z. z\<lparr>z_wpoffset := n\<rparr>)
     (zonefs_i_size_write n (zonefs_update_stats n c)))"

lemma handle_io_error_steps:
  "zonefs_handle_io_error zone write c =
     (let (data_size, z) = zonefs_check_zone_condition zone (c_zone c) in
      if error_pending zone write c
      then let (n, c1) = handle_bad_zone (i_size (c_inode c)) data_size (c\<lparr>c_zone := z\<rparr>)
           in settle_size n (close_bad_zone c1)
      else c\<lparr>c_zone := z\<rparr>)"
  by (auto simp: zonefs_handle_io_error_def error_pending_def settle_size_def close_bad_zone_def
      zone_has_or Let_def split: prod.splits)

lemma settle_size_simps [simp]:
  "i_size (c_inode (settle_size n c)) = n" "z_wpoffset (c_zone (settle_size n c)) = n"
  "active_balance (settle_size n c) = active_balance c" "c_rdonly (settle_size n c) = c_rdonly c"
  "c_dev (settle_size n c) = c_dev c" "c_blkbits (settle_size n c) = c_blkbits c"
  "s_mount_opts (c_sbi (settle_size n c)) = s_mount_opts (c_sbi c)"
  "z_capacity (c_zone (settle_size n c)) = z_capacity (c_zone c)"
proof -
  have b: "active_balance (map_zone (\<lambda>z. z\<lparr>z_wpoffset := n\<rparr>) d) = active_balance d" for d :: "'d zctx"
    by (simp add: active_balance_def)
  have "active_balance (zonefs_update_stats n c) = active_balance c" by (simp add: active_balance_def)
  then show "active_balance (settle_size n c) = active_balance c" by (simp add: settle_size_def b)
qed (simp_all add: settle_size_def)

lemma settle_size_flags:
  "zone_has ZONE_READONLY (c_zone (settle_size n c)) = zone_has ZONE_READONLY (c_zone c)"
  "zone_has ZONE_OFFLINE (c_zone (settle_size n c)) = zone_has ZONE_OFFLINE (c_zone c)"
  "zone_has ZONE_CNV (c_zone (settle_size n c)) = zone_has ZONE_CNV (c_zone c)"
  "zone_has ZONE_FLAG_OPEN (c_zone (settle_size n c)) \<longleftrightarrow>
     zone_has ZONE_FLAG_OPEN (c_zone c) \<and> n < z_capacity (c_zone c)"
  by (auto simp: settle_size_def zone_has_bits account_active_flags i_size_write_flags)

lemma settle_size_active:
  "zonefs_zone_is_seq (c_zone (settle_size n c)) \<Longrightarrow>
     zone_has ZONE_ACTIVE (c_zone (settle_size n c)) = zone_is_active (c_zone (settle_size n c))"
proof -
  assume s: "zonefs_zone_is_seq (c_zone (settle_size n c))"
  let ?d = "map_zone (\<lambda>z. z\<lparr>z_wpoffset := n\<rparr>) (zonefs_i_size_write n (zonefs_update_stats n c))"
  have "zonefs_zone_is_seq (c_zone ?d)"
    using s by (simp add: zonefs_zone_is_seq_def zonefs_zone_is_cnv_def settle_size_def
        zone_has_bits account_active_flags)
  moreover have "zone_is_active (c_zone (zonefs_account_active ?d)) = zone_is_active (c_zone ?d)"
    by (simp add: account_active_eq)
  ultimately show ?thesis unfolding settle_size_def by (simp only: account_active_flags(2))
qed

lemma close_bad_zone_simps [simp]:
  "z_wpoffset (c_zone (close_bad_zone c)) = z_wpoffset (c_zone c)"
  "z_capacity (c_zone (close_bad_zone c)) = z_capacity (c_zone c)"
  "c_sbi (close_bad_zone c) = c_sbi c" "c_inode (close_bad_zone c) = c_inode c"
  "c_dev (close_bad_zone c) = c_dev c" "c_blkbits (close_bad_zone c) = c_blkbits c"
  "c_rdonly (close_bad_zone c) \<longleftrightarrow> c_rdonly c \<or> sbi_has MNTOPT_ERRORS_RO c"
  "zone_has ZONE_ACTIVE (c_zone (close_bad_zone c)) = zone_has ZONE_ACTIVE (c_zone c)"
  "zone_has ZONE_READONLY (c_zone (close_bad_zone c)) = zone_has ZONE_READONLY (c_zone c)"
  "zone_has ZONE_OFFLINE (c_zone (close_bad_zone c)) = zone_has ZONE_OFFLINE (c_zone c)"
  "zone_has ZONE_FLAG_OPEN (c_zone (close_bad_zone c)) \<longleftrightarrow> zone_has ZONE_FLAG_OPEN (c_zone c) \<and>
     \<not> (sbi_has MNTOPT_EXPLICIT_OPEN c \<and> (zone_has ZONE_READONLY (c_zone c) \<or> zone_has ZONE_OFFLINE (c_zone c)))"
  by (auto simp: close_bad_zone_def Let_def zone_flag_simps sbi_has_def zone_has_or)

lemma handle_io_error_idle:
  assumes "\<not> error_pending zone write c"
  shows "zonefs_handle_io_error zone write c = c" "i_size (c_inode c) = recovered_size zone write c"
    "\<not> write" "\<not> zone_has (ZONE_READONLY OR ZONE_OFFLINE) (c_zone c)"
  using assms
  by (auto simp: handle_io_error_steps error_pending_def recovered_size_def zone_has_or Let_def
      zonefs_check_zone_condition_def zone_flag_simps split: zone_cond.splits if_splits)

lemma handle_io_error_pending:
  assumes "error_pending zone write c"
  shows "let c' = zonefs_handle_io_error zone write c in
    i_size (c_inode c') = recovered_size zone write c \<and>
    z_wpoffset (c_zone c') = recovered_size zone write c \<and>
    active_balance c' = active_balance c \<and>
    (zonefs_zone_is_seq (c_zone c') \<longrightarrow> zone_has ZONE_ACTIVE (c_zone c') = zone_is_active (c_zone c')) \<and>
    (write \<and> sbi_has MNTOPT_ERRORS_RO c \<longrightarrow> c_rdonly c') \<and>
    (sbi_has MNTOPT_EXPLICIT_OPEN c \<and> zone_has (ZONE_READONLY OR ZONE_OFFLINE) (c_zone c') \<longrightarrow>
       \<not> zone_has ZONE_FLAG_OPEN (c_zone c'))"
proof -
  obtain k z where kz: "zonefs_check_zone_condition zone (c_zone c) = (k, z)" by (rule prod.exhaust)
  obtain n c1 where hb: "handle_bad_zone (i_size (c_inode c)) k (c\<lparr>c_zone := z\<rparr>) = (n, c1)"
    by (rule prod.exhaust)
  have run: "zonefs_handle_io_error zone write c = settle_size n (close_bad_zone c1)"
    using assms by (simp add: handle_io_error_steps kz hb)
  note f = handle_bad_zone_frame [of "i_size (c_inode c)" k "c\<lparr>c_zone := z\<rparr>", unfolded hb, simplified]
  have "zone_has ZONE_ACTIVE z = zone_has ZONE_ACTIVE (c_zone c)"
    using check_zone_condition_simps(3) [of zone "c_zone c" 2] kz by (simp add: zone_has_bits)
  then have "active_balance (close_bad_zone c1) = active_balance c"
    using f by (simp add: active_balance_def)
  moreover have "n = recovered_size zone write c"
    using hb assms by (auto simp: handle_bad_zone_def recovered_size_def kz sbi_has_def Let_def
        error_pending_def split: if_splits)
  ultimately show ?thesis unfolding run Let_def
    using settle_size_active [of n "close_bad_zone c1"] f
    by (simp add: settle_size_flags zone_has_or sbi_has_def)
qed

lemma handle_io_error_result:
  assumes sync: "\<not> write \<Longrightarrow> i_size (c_inode c) = z_wpoffset (c_zone c)"
    and flag: "\<not> write \<Longrightarrow> zonefs_zone_is_seq (c_zone c) \<Longrightarrow>
      zone_has ZONE_ACTIVE (c_zone c) = zone_is_active (c_zone c)"
  shows "let c' = zonefs_handle_io_error zone write c in
    i_size (c_inode c') = recovered_size zone write c \<and>
    z_wpoffset (c_zone c') = recovered_size zone write c \<and>
    active_balance c' = active_balance c \<and>
    (zonefs_zone_is_seq (c_zone c') \<longrightarrow> zone_has ZONE_ACTIVE (c_zone c') = zone_is_active (c_zone c')) \<and>
    (write \<and> sbi_has MNTOPT_ERRORS_RO c \<longrightarrow> c_rdonly c') \<and>
    (sbi_has MNTOPT_EXPLICIT_OPEN c \<and> zone_has (ZONE_READONLY OR ZONE_OFFLINE) (c_zone c') \<longrightarrow>
       \<not> zone_has ZONE_FLAG_OPEN (c_zone c'))"
  using assms handle_io_error_idle [of zone "write" c] handle_io_error_pending [of zone "write" c]
  by (cases "error_pending zone write c") simp_all

text \<open>C15: after an I/O error the inode size and the zone's write pointer offset agree on the
  recovered size (they already did, for a read error); the count of active zones moves only with the zone's own flag, and that flag is
  again what the zone's condition says; under \<open>errors=remount-ro\<close> a failed write leaves the file
  system read-only; and under \<open>explicit-open\<close> a read-only or offline zone is not left open.\<close>

theorem io_error_recovers:
  assumes sync: "\<not> write \<Longrightarrow> i_size (c_inode c) = z_wpoffset (c_zone c)"
    and flag: "\<not> write \<Longrightarrow> zonefs_zone_is_seq (c_zone c) \<Longrightarrow>
      zone_has ZONE_ACTIVE (c_zone c) = zone_is_active (c_zone c)"
  shows "let c' = zonefs_handle_io_error zone write c in
    i_size (c_inode c') = recovered_size zone write c \<and>
    z_wpoffset (c_zone c') = recovered_size zone write c \<and>
    active_balance c' = active_balance c \<and>
    (zonefs_zone_is_seq (c_zone c') \<longrightarrow> zone_has ZONE_ACTIVE (c_zone c') = zone_is_active (c_zone c')) \<and>
    (write \<and> sbi_has MNTOPT_ERRORS_RO c \<longrightarrow> c_rdonly c') \<and>
    (sbi_has MNTOPT_EXPLICIT_OPEN c \<and> zone_has (ZONE_READONLY OR ZONE_OFFLINE) (c_zone c') \<longrightarrow>
       \<not> zone_has ZONE_FLAG_OPEN (c_zone c'))"
  by (rule handle_io_error_result [OF assms])

section \<open>A concrete zone\<close>

text \<open>Zone 1 of the 16-zone device with two blocks written, for concrete instances.\<close>

definition demo_zone :: zonefs_zone where
  "demo_zone = \<lparr>z_flags = 4, z_sector = 524288, z_size = 268435456, z_capacity = 268435456,
     z_wpoffset = 8192, z_mode = 0x1A0, z_uid = 0, z_gid = 0\<rparr>"

definition demo_sbi :: zonefs_sb_info where
  "demo_sbi = \<lparr>s_mount_opts = 1, s_features = 0, s_uid = 0, s_gid = 0, s_perm = 0x1A0,
     s_zone_sectors_shift = 19, s_nr_zones = (\<lambda>t. if t = ZTYPE_SEQ then 15 else 0),
     s_blocks = 983040, s_used_blocks = 2, s_max_wro_seq_files = 0, s_wro_seq_files = 0,
     s_max_active_seq_files = 0, s_active_seq_files = 1\<rparr>"

definition demo_ctx :: "'d \<Rightarrow> 'd zctx" where
  "demo_ctx d = \<lparr>c_zone = demo_zone,
     c_inode = \<lparr>i_ino = 1, i_size = 8192, i_flags = 0, i_mode = 0x1A0, i_uid = 0, i_gid = 0, i_wr_refcnt = 0\<rparr>,
     c_sbi = demo_sbi, c_rdonly = False, c_blkbits = 12, c_dev = d\<rparr>"

definition demo_report :: blk_zone where
  "demo_report = \<lparr>bz_start = 524288, bz_len = 524288, bz_wp = 524296, bz_type = TYPE_SEQWRITE_REQ,
     bz_cond = COND_CLOSED, bz_capacity = 524288\<rparr>"

lemmas demo_defs = demo_zone_def demo_sbi_def demo_ctx_def demo_report_def

lemma demo_flags:
  "zone_has ZONE_ACTIVE demo_zone" "\<not> zone_has ZONE_FLAG_OPEN demo_zone"
  "\<not> zone_has ZONE_OFFLINE demo_zone" "\<not> zone_has ZONE_READONLY demo_zone"
  "\<not> zone_has ZONE_CNV demo_zone"
  by (simp_all add: zone_has_def zone_flag_defs demo_zone_def)

theorem update_stats_bounds_witness:
  "s_used_blocks (c_sbi (zonefs_update_stats 4096 (demo_ctx ()))) \<le> 983040 \<and>
   s_used_blocks (c_sbi (zonefs_update_stats 4096 (demo_ctx ()))) = 1"
  using update_stats_bounds [of "demo_ctx ()" 4096]
  by (simp add: demo_defs zonefs_update_stats_def)

theorem io_error_recovers_witness:
  "let c' = zonefs_handle_io_error demo_report True (demo_ctx ()) in
     i_size (c_inode c') = 4096 \<and> z_wpoffset (c_zone c') = 4096 \<and> active_balance c' = 0 \<and> c_rdonly c'"
proof -
  have "recovered_size demo_report True (demo_ctx ()) = 4096"
    by (simp add: recovered_size_def zonefs_check_zone_condition_def demo_report_def demo_ctx_def
        zonefs_zone_is_cnv_def demo_flags sbi_has_def demo_sbi_def mntopt_defs SECTOR_SHIFT_def)
  then show ?thesis
    using io_error_recovers [of True "demo_ctx ()" demo_report] demo_flags
    by (simp add: Let_def demo_ctx_def zone_is_active_def active_balance_def sbi_has_def
        MNTOPT_ERRORS_RO_def)
      (simp add: demo_defs)
qed

end
