(* ===== verification/Zonefs_File.thy ===== *)
theory Zonefs_File
  imports Zonefs_Super
begin

text \<open>
  \<open>file.c\<close>: the operations on one zone file. A sequential zone file can only be written at its
  write pointer, in whole blocks, by direct I/O; it can be truncated only to zero (a zone reset)
  or to the zone capacity (a zone finish).

  The kernel's I/O library is not part of the repository: its entry points, which call the
  functions of \<open>file.c\<close> back, are the fields of the record \<open>iomap_lib\<close>. What is assumed of
  them is stated where it is used.
\<close>

section \<open>Requests and the I/O library\<close>

text \<open>
  One I/O request: the position and flags of the \<open>kiocb\<close> (\<open>ki_sync\<close> is \<open>is_sync_kiocb\<close>), the
  \<open>O_LARGEFILE\<close> flag of its file, the caller's \<open>RLIMIT_FSIZE\<close> (\<open>None\<close> for infinity) and
  whether the inode lock can be taken without waiting.
\<close>

record kiocb =
  ki_pos :: int
  ki_direct :: bool
  ki_nowait :: bool
  ki_append :: bool
  ki_sync :: bool
  ki_largefile :: bool
  ki_rlimit :: "int option"
  ki_lock_free :: bool

datatype iomap_type = IOMAP_HOLE | IOMAP_MAPPED | IOMAP_UNWRITTEN

record iomap =
  im_type :: iomap_type
  im_offset :: int
  im_addr :: "int option"
  im_length :: int

type_synonym 'd iomap_begin = "int \<Rightarrow> int \<Rightarrow> 'd zctx \<Rightarrow> int + iomap"
type_synonym 'd dio_end_io = "int \<Rightarrow> int \<Rightarrow> 'd zctx \<Rightarrow> int \<times> 'd zctx"

record 'd iomap_lib =
  io_dio_write :: "'d iomap_begin \<Rightarrow> 'd dio_end_io \<Rightarrow> kiocb \<Rightarrow> bytes \<Rightarrow> 'd zctx \<Rightarrow> int \<times> 'd zctx"
  io_dio_read :: "'d iomap_begin \<Rightarrow> 'd dio_end_io \<Rightarrow> kiocb \<Rightarrow> nat \<Rightarrow> 'd zctx \<Rightarrow> (int \<times> bytes) \<times> 'd zctx"
  io_buffered_write :: "'d iomap_begin \<Rightarrow> kiocb \<Rightarrow> bytes \<Rightarrow> 'd zctx \<Rightarrow> int \<times> 'd zctx"
  io_write_sync :: "kiocb \<Rightarrow> int \<Rightarrow> 'd zctx \<Rightarrow> int \<times> 'd zctx"
  io_file_read :: "kiocb \<Rightarrow> nat \<Rightarrow> 'd zctx \<Rightarrow> (int \<times> bytes) \<times> 'd zctx"
  io_splice_read :: "int \<Rightarrow> nat \<Rightarrow> 'd zctx \<Rightarrow> (int \<times> bytes) \<times> 'd zctx"
  io_write_and_wait :: "int \<Rightarrow> int \<Rightarrow> 'd zctx \<Rightarrow> int \<times> 'd zctx"
  io_page_mkwrite :: "'d iomap_begin \<Rightarrow> 'd zctx \<Rightarrow> int \<times> 'd zctx"
  io_swapfile_activate :: "'d iomap_begin \<Rightarrow> 'd zctx \<Rightarrow> int \<times> 'd zctx"
  io_generic_open :: "bool \<Rightarrow> 'd zctx \<Rightarrow> int"

section \<open>Block mappings\<close>

definition ALIGN_DOWN :: "int \<Rightarrow> int \<Rightarrow> int" where
  "ALIGN_DOWN x a = x div a * a"

definition zone_addr :: "'d zctx \<Rightarrow> int" where
  "zone_addr c = int (z_sector (c_zone c)) * 2 ^ SECTOR_SHIFT"

definition zonefs_read_iomap_begin :: "'d iomap_begin" where
  "zonefs_read_iomap_begin offset len c =
     (let off = ALIGN_DOWN offset (c_blocksize c); isize = i_size (c_inode c) in
      if isize \<le> off
      then Inr \<lparr>im_type = IOMAP_HOLE, im_offset = off, im_addr = None, im_length = len\<rparr>
      else Inr \<lparr>im_type = IOMAP_MAPPED, im_offset = off, im_addr = Some (zone_addr c + off),
                im_length = isize - off\<rparr>)"

definition zonefs_write_iomap_begin :: "bool \<Rightarrow> 'd iomap_begin" where
  "zonefs_write_iomap_begin direct offset len c =
     (let z = c_zone c in
      if z_capacity z < offset + len then Inl (- EIO)
      else if zonefs_zone_is_seq z \<and> \<not> direct then Inl (- EIO)
      else let off = ALIGN_DOWN offset (c_blocksize c); isize = i_size (c_inode c) in
        if isize \<le> off
        then Inr \<lparr>im_type = IOMAP_UNWRITTEN, im_offset = off, im_addr = Some (zone_addr c + off),
                  im_length = z_capacity z - off\<rparr>
        else Inr \<lparr>im_type = IOMAP_MAPPED, im_offset = off, im_addr = Some (zone_addr c + off),
                  im_length = isize - off\<rparr>)"

text \<open>Mapping for page writeback; \<open>wpc\<close> is the mapping of the previous call, reused if it covers
  the offset.\<close>

definition zonefs_write_map_blocks :: "int \<Rightarrow> iomap \<Rightarrow> 'd zctx \<Rightarrow> int + iomap" where
  "zonefs_write_map_blocks offset wpc c =
     (if zonefs_zone_is_seq (c_zone c) then Inl (- EIO)
      else if i_size (c_inode c) \<le> offset then Inl (- EIO)
      else if im_offset wpc \<le> offset \<and> offset < im_offset wpc + im_length wpc then Inr wpc
      else zonefs_write_iomap_begin False offset (z_capacity (c_zone c) - offset) c)"

definition zonefs_swap_activate :: "'d iomap_lib \<Rightarrow> 'd zctx \<Rightarrow> int \<times> 'd zctx" where
  "zonefs_swap_activate L c =
     (if zonefs_zone_is_seq (c_zone c) then (- EINVAL, c)
      else io_swapfile_activate L zonefs_read_iomap_begin c)"

text \<open>
  The page cache operations hand the mappings to the iomap library and seeking hands the inode's size
  to \<open>generic_file_llseek_size\<close>; both are arguments. The writeback context starts zeroed.
\<close>

definition zonefs_read_folio ::
  "('f \<Rightarrow> 'd iomap_begin \<Rightarrow> 'd zctx \<Rightarrow> int \<times> 'd zctx) \<Rightarrow> 'f \<Rightarrow> 'd zctx \<Rightarrow> int \<times> 'd zctx"
where
  "zonefs_read_folio iomap_read_folio folio = iomap_read_folio folio zonefs_read_iomap_begin"

definition zonefs_readahead :: "('r \<Rightarrow> 'd iomap_begin \<Rightarrow> 'd zctx \<Rightarrow> 'd zctx) \<Rightarrow> 'r \<Rightarrow> 'd zctx \<Rightarrow> 'd zctx" where
  "zonefs_readahead iomap_readahead rac = iomap_readahead rac zonefs_read_iomap_begin"

definition zero_iomap :: iomap where
  "zero_iomap = \<lparr>im_type = IOMAP_HOLE, im_offset = 0, im_addr = Some 0, im_length = 0\<rparr>"

definition zonefs_writepages ::
  "('w \<Rightarrow> iomap \<Rightarrow> (int \<Rightarrow> iomap \<Rightarrow> 'd zctx \<Rightarrow> int + iomap) \<Rightarrow> 'd zctx \<Rightarrow> int \<times> 'd zctx) \<Rightarrow> 'w \<Rightarrow> 'd zctx \<Rightarrow> int \<times> 'd zctx"
where
  "zonefs_writepages iomap_writepages wbc = iomap_writepages wbc zero_iomap zonefs_write_map_blocks"

definition zonefs_file_llseek :: "(int \<Rightarrow> nat \<Rightarrow> int \<Rightarrow> int \<Rightarrow> int) \<Rightarrow> int \<Rightarrow> nat \<Rightarrow> 'd zctx \<Rightarrow> int" where
  "zonefs_file_llseek generic_file_llseek_size offset whence c =
     (let isize = i_size (c_inode c) in generic_file_llseek_size offset whence isize isize)"

section \<open>Truncation, synchronisation and mappings\<close>

definition zonefs_file_truncate :: "'d blkdev \<Rightarrow> int \<Rightarrow> 'd zctx \<Rightarrow> int \<times> 'd zctx" where
  "zonefs_file_truncate B isize c =
     (let z = c_zone c in
      if \<not> zonefs_zone_is_seq z then (- EPERM, c)
      else if isize \<noteq> 0 \<and> isize \<noteq> z_capacity z then (- EPERM, c)
      else let op = (if isize = 0 then ZONE_RESET else ZONE_FINISH) in
        if isize = i_size (c_inode c) then (0, c)
        else case zonefs_zone_mgmt B op c of
          (ret, c1) \<Rightarrow>
            if ret \<noteq> 0 then (ret, c1)
            else case (if zone_has ZONE_FLAG_OPEN (c_zone c1)
                       then if isize = 0 then zonefs_zone_mgmt B ZONE_OPEN c1
                            else (0, map_zone (zone_clear ZONE_FLAG_OPEN) c1)
                       else (0, c1)) of
              (ret', c2) \<Rightarrow>
                (ret', zonefs_account_active (map_zone (\<lambda>z. z\<lparr>z_wpoffset := isize\<rparr>)
                   (set_isize isize (zonefs_update_stats isize c2)))))"

definition zonefs_file_fsync :: "'d blkdev \<Rightarrow> 'd iomap_lib \<Rightarrow> int \<Rightarrow> int \<Rightarrow> 'd zctx \<Rightarrow> int \<times> 'd zctx" where
  "zonefs_file_fsync B L start end_pos c =
     (if inode_immutable (c_inode c) then (- EPERM, c)
      else case (if zonefs_zone_is_cnv (c_zone c) then io_write_and_wait L start end_pos c else (0, c)) of
        (ret, c1) \<Rightarrow>
          case (if ret = 0 then (case bd_flush B (c_dev c1) of (r, d) \<Rightarrow> (r, c1\<lparr>c_dev := d\<rparr>))
                else (ret, c1)) of
            (ret', c2) \<Rightarrow> (ret', if ret' \<noteq> 0 then zonefs_io_error B True c2 else c2))"

datatype fault_result = FAULT_SIGBUS | FAULT_NOPAGE | FAULT_IO int

definition zonefs_filemap_page_mkwrite :: "'d iomap_lib \<Rightarrow> 'd zctx \<Rightarrow> fault_result \<times> 'd zctx" where
  "zonefs_filemap_page_mkwrite L c =
     (if inode_immutable (c_inode c) then (FAULT_SIGBUS, c)
      else if zonefs_zone_is_seq (c_zone c) then (FAULT_NOPAGE, c)
      else case io_page_mkwrite L (zonefs_write_iomap_begin False) c of (r, c') \<Rightarrow> (FAULT_IO r, c'))"

definition zonefs_file_mmap :: "bool \<Rightarrow> bool \<Rightarrow> 'd zctx \<Rightarrow> int" where
  "zonefs_file_mmap shared maywrite c =
     (if zonefs_zone_is_seq (c_zone c) \<and> shared \<and> maywrite then - EINVAL else 0)"

section \<open>Writing\<close>

definition zonefs_file_write_dio_end_io :: "'d blkdev \<Rightarrow> kiocb \<Rightarrow> 'd dio_end_io" where
  "zonefs_file_write_dio_end_io B iocb sz error c =
     (if error \<noteq> 0 then (error, if \<not> ki_sync iocb then zonefs_io_error B True c else c)
      else if sz \<noteq> 0 \<and> zonefs_zone_is_seq (c_zone c) \<and> i_size (c_inode c) < ki_pos iocb + sz
      then (0, zonefs_i_size_write (ki_pos iocb + sz) (zonefs_update_stats (ki_pos iocb + sz) c))
      else (0, c))"

definition MAX_NON_LFS :: int where "MAX_NON_LFS = 2 ^ 31 - 1"

definition zonefs_write_check_limits :: "kiocb \<Rightarrow> int \<Rightarrow> int \<Rightarrow> 'd zctx \<Rightarrow> int" where
  "zonefs_write_check_limits iocb pos cnt c =
     (let cap = z_capacity (c_zone c);
          max_size = (if ki_largefile iocb then cap else min MAX_NON_LFS cap);
          finish = (\<lambda>n. if max_size \<le> pos then - EFBIG else min n (max_size - pos))
      in case ki_rlimit iocb of
           None \<Rightarrow> finish cnt
         | Some limit \<Rightarrow> if limit \<le> pos then - EFBIG else finish (min cnt (limit - pos)))"

text \<open>The result is the number of bytes to write or an error, the request (an append sets its
  position) and the shortened data.\<close>

definition zonefs_write_checks :: "kiocb \<Rightarrow> bytes \<Rightarrow> 'd zctx \<Rightarrow> int \<times> kiocb \<times> bytes" where
  "zonefs_write_checks iocb from c =
     (if i_flags (c_inode c) AND S_SWAPFILE \<noteq> 0 then (- ETXTBSY, iocb, from)
      else if from = [] then (0, iocb, from)
      else if ki_nowait iocb \<and> \<not> ki_direct iocb then (- EINVAL, iocb, from)
      else if ki_append iocb \<and> zonefs_zone_is_cnv (c_zone c) then (- EINVAL, iocb, from)
      else let iocb' = (if ki_append iocb then iocb\<lparr>ki_pos := z_wpoffset (c_zone c)\<rparr> else iocb);
               cnt = zonefs_write_check_limits iocb' (ki_pos iocb') (int (length from)) c
           in if cnt < 0 then (cnt, iocb', from)
              else (int (length (take (nat cnt) from)), iocb', take (nat cnt) from))"

definition misaligned :: "int \<Rightarrow> int \<Rightarrow> 'd zctx \<Rightarrow> bool" where
  "misaligned pos cnt c \<longleftrightarrow> (pos OR cnt) AND (c_blocksize c - 1) \<noteq> 0"

definition zonefs_file_dio_write ::
  "'d blkdev \<Rightarrow> 'd iomap_lib \<Rightarrow> kiocb \<Rightarrow> bytes \<Rightarrow> 'd zctx \<Rightarrow> (int \<times> kiocb \<times> bytes) \<times> 'd zctx"
where
  "zonefs_file_dio_write B L iocb from c =
     (if zonefs_zone_is_seq (c_zone c) \<and> \<not> ki_sync iocb \<and> ki_nowait iocb
      then ((- EOPNOTSUPP, iocb, from), c)
      else if ki_nowait iocb \<and> \<not> ki_lock_free iocb then ((- EAGAIN, iocb, from), c)
      else case zonefs_write_checks iocb from c of
        (cnt, iocb', from') \<Rightarrow>
          if cnt \<le> 0 then ((cnt, iocb', from'), c)
          else if misaligned (ki_pos iocb') cnt c then ((- EINVAL, iocb', from'), c)
          else if zonefs_zone_is_seq (c_zone c) \<and> ki_pos iocb' \<noteq> z_wpoffset (c_zone c)
          then ((- EINVAL, iocb', from'), c)
          else let c1 = (if zonefs_zone_is_seq (c_zone c)
                         then zonefs_account_active (map_zone (\<lambda>z. z\<lparr>z_wpoffset := z_wpoffset z + cnt\<rparr>) c)
                         else c)
            in case io_dio_write L (zonefs_write_iomap_begin True)
                      (zonefs_file_write_dio_end_io B iocb') iocb' from' c1 of
              (ret0, c2) \<Rightarrow>
                let ret1 = (if ret0 = - ENOTBLK then - EBUSY else ret0) in
                if zonefs_zone_is_seq (c_zone c2)
                then let ret2 = (if 0 < ret1 \<and> ret1 \<noteq> cnt then - EIO else ret1)
                     in ((ret2, iocb', from'),
                         if ret2 < 0 \<and> ret2 \<noteq> - EIOCBQUEUED then zonefs_io_error B True c2 else c2)
                else ((ret1, iocb', from'), c2))"

definition zonefs_file_buffered_write ::
  "'d blkdev \<Rightarrow> 'd iomap_lib \<Rightarrow> kiocb \<Rightarrow> bytes \<Rightarrow> 'd zctx \<Rightarrow> int \<times> 'd zctx"
where
  "zonefs_file_buffered_write B L iocb from c =
     (if zonefs_zone_is_seq (c_zone c) then (- EIO, c)
      else if ki_nowait iocb \<and> \<not> ki_lock_free iocb then (- EAGAIN, c)
      else case zonefs_write_checks iocb from c of
        (cnt, iocb', from') \<Rightarrow>
          if cnt \<le> 0 then (cnt, c)
          else case io_buffered_write L (zonefs_write_iomap_begin False) iocb' from' c of
            (ret, c1) \<Rightarrow>
              let c2 = (if ret = - EIO then zonefs_io_error B True c1 else c1)
              in if 0 < ret then io_write_sync L iocb' ret c2 else (ret, c2))"

definition zonefs_file_write_iter ::
  "'d blkdev \<Rightarrow> 'd iomap_lib \<Rightarrow> kiocb \<Rightarrow> bytes \<Rightarrow> 'd zctx \<Rightarrow> int \<times> 'd zctx"
where
  "zonefs_file_write_iter B L iocb from c =
     (if inode_immutable (c_inode c) then (- EPERM, c)
      else if c_rdonly c then (- EROFS, c)
      else if z_capacity (c_zone c) \<le> ki_pos iocb then (- EFBIG, c)
      else if ki_direct iocb
      then case zonefs_file_dio_write B L iocb from c of
        ((ret, iocb', from'), c') \<Rightarrow>
          if ret \<noteq> - ENOTBLK then (ret, c') else zonefs_file_buffered_write B L iocb' from' c'
      else zonefs_file_buffered_write B L iocb from c)"

section \<open>Reading\<close>

definition zonefs_file_read_dio_end_io :: "'d blkdev \<Rightarrow> 'd dio_end_io" where
  "zonefs_file_read_dio_end_io B sz error c =
     (if error \<noteq> 0 then (error, zonefs_io_error B False c) else (0, c))"

definition inode_offline :: "zonefs_inode \<Rightarrow> bool" where
  "inode_offline i \<longleftrightarrow> inode_immutable i \<and> i_mode i AND 0x1FF = 0"

definition zonefs_file_read_iter ::
  "'d blkdev \<Rightarrow> 'd iomap_lib \<Rightarrow> kiocb \<Rightarrow> nat \<Rightarrow> 'd zctx \<Rightarrow> (int \<times> bytes) \<times> 'd zctx"
where
  "zonefs_file_read_iter B L iocb len c =
     (if inode_offline (c_inode c) then ((- EPERM, []), c)
      else if z_capacity (c_zone c) \<le> ki_pos iocb then ((0, []), c)
      else if ki_nowait iocb \<and> \<not> ki_lock_free iocb then ((- EAGAIN, []), c)
      else if i_size (c_inode c) \<le> ki_pos iocb then ((0, []), c)
      else let cnt = min len (nat (i_size (c_inode c) - ki_pos iocb)) in
        if ki_direct iocb
        then if misaligned (ki_pos iocb) (int cnt) c then ((- EINVAL, []), c)
             else io_dio_read L zonefs_read_iomap_begin (zonefs_file_read_dio_end_io B) iocb cnt c
        else case io_file_read L iocb cnt c of
          ((ret, got), c') \<Rightarrow> ((ret, got), if ret = - EIO then zonefs_io_error B False c' else c'))"

definition zonefs_file_splice_read ::
  "'d blkdev \<Rightarrow> 'd iomap_lib \<Rightarrow> int \<Rightarrow> nat \<Rightarrow> 'd zctx \<Rightarrow> (int \<times> bytes) \<times> 'd zctx"
where
  "zonefs_file_splice_read B L ppos len c =
     (if inode_offline (c_inode c) then ((- EPERM, []), c)
      else if z_capacity (c_zone c) \<le> ppos then ((0, []), c)
      else let isize = i_size (c_inode c);
               len' = (if isize \<le> ppos then 0 else min len (nat (isize - ppos)))
           in if 0 < len'
              then case io_splice_read L ppos len' c of
                ((ret, got), c') \<Rightarrow> ((ret, got), if ret = - EIO then zonefs_io_error B False c' else c')
              else ((0, []), c))"

section \<open>Opening and closing\<close>

definition zonefs_seq_file_need_wro :: "bool \<Rightarrow> 'd zctx \<Rightarrow> bool" where
  "zonefs_seq_file_need_wro fmode_write c \<longleftrightarrow> zonefs_zone_is_seq (c_zone c) \<and> fmode_write"

definition account_wro :: "int \<Rightarrow> 'd zctx \<Rightarrow> 'd zctx" where
  "account_wro k c = c\<lparr>c_sbi := (c_sbi c)\<lparr>s_wro_seq_files := s_wro_seq_files (c_sbi c) + k\<rparr>\<rparr>"

definition map_inode :: "(zonefs_inode \<Rightarrow> zonefs_inode) \<Rightarrow> 'd zctx \<Rightarrow> 'd zctx" where
  "map_inode f c = c\<lparr>c_inode := f (c_inode c)\<rparr>"

definition get_ref :: "'d zctx \<Rightarrow> 'd zctx" where
  "get_ref = map_inode (\<lambda>i. i\<lparr>i_wr_refcnt := i_wr_refcnt i + 1\<rparr>)"

definition put_ref :: "'d zctx \<Rightarrow> 'd zctx" where
  "put_ref = map_inode (\<lambda>i. i\<lparr>i_wr_refcnt := i_wr_refcnt i - 1\<rparr>)"

definition zonefs_seq_file_write_open :: "'d blkdev \<Rightarrow> 'd zctx \<Rightarrow> int \<times> 'd zctx" where
  "zonefs_seq_file_write_open B c =
     (if i_wr_refcnt (c_inode c) \<noteq> 0 then (0, get_ref c)
      else let c1 = account_wro 1 c; max_wro = int (unat (s_max_wro_seq_files (c_sbi c1))) in
        if \<not> sbi_has MNTOPT_EXPLICIT_OPEN c1 then (0, get_ref c1)
        else if max_wro \<noteq> 0 \<and> max_wro < s_wro_seq_files (c_sbi c1) then (- EBUSY, account_wro (-1) c1)
        else if i_size (c_inode c1) < z_capacity (c_zone c1)
        then case zonefs_zone_mgmt B ZONE_OPEN c1 of
          (ret, c2) \<Rightarrow>
            if ret \<noteq> 0 then (ret, account_wro (-1) c2)
            else (0, get_ref (zonefs_account_active (map_zone (zone_set ZONE_FLAG_OPEN) c2)))
        else (0, get_ref c1))"

definition zonefs_file_open :: "'d blkdev \<Rightarrow> 'd iomap_lib \<Rightarrow> bool \<Rightarrow> bool \<Rightarrow> 'd zctx \<Rightarrow> int \<times> 'd zctx" where
  "zonefs_file_open B L fmode_write largefile c =
     (let ret = io_generic_open L largefile c in
      if ret \<noteq> 0 then (ret, c)
      else if zonefs_seq_file_need_wro fmode_write c then zonefs_seq_file_write_open B c
      else (0, c))"

definition zonefs_seq_file_write_close :: "'d blkdev \<Rightarrow> 'd zctx \<Rightarrow> 'd zctx" where
  "zonefs_seq_file_write_close B c0 =
     (let c = put_ref c0 in
      if i_wr_refcnt (c_inode c) \<noteq> 0 then c
      else if zone_has ZONE_FLAG_OPEN (c_zone c)
      then case zonefs_zone_mgmt B ZONE_CLOSE c of
        (ret, c1) \<Rightarrow>
          if ret \<noteq> 0
          then let c2 = zonefs_io_error B False c1 in
               if zone_has ZONE_FLAG_OPEN (c_zone c2) \<and> \<not> c_rdonly c2 then c2\<lparr>c_rdonly := True\<rparr> else c2
          else account_wro (-1) (zonefs_account_active (map_zone (zone_clear ZONE_FLAG_OPEN) c1))
      else account_wro (-1) c)"

definition zonefs_file_release :: "'d blkdev \<Rightarrow> bool \<Rightarrow> 'd zctx \<Rightarrow> int \<times> 'd zctx" where
  "zonefs_file_release B fmode_write c =
     (0, if zonefs_seq_file_need_wro fmode_write c then zonefs_seq_file_write_close B c else c)"

section \<open>The contract of the I/O library and the device\<close>

text \<open>
  A synchronous direct write either fails before its completion or completes by calling the
  \<open>end_io\<close> callback once, with the number of bytes transferred and the error, on a state that
  differs only in the device; a completion without an error has transferred something. A read
  changes only the device, unless its completion callback does more. A zone report gives a write pointer inside the zone; \<open>cap\<close> is the capacity, in bytes, of the zone
  that starts at a sector.
\<close>

definition dio_completes ::
  "'d dio_end_io \<Rightarrow> bytes \<Rightarrow> 'd zctx \<Rightarrow> int \<times> 'd zctx \<Rightarrow> bool"
where
  "dio_completes en buf c res \<longleftrightarrow>
     (\<exists>d. snd res = c\<lparr>c_dev := d\<rparr> \<and> fst res < 0 \<and> fst res \<noteq> - EIOCBQUEUED) \<or>
     (\<exists>d sz err e. en sz err (c\<lparr>c_dev := d\<rparr>) = (e, snd res) \<and> fst res = (if e \<noteq> 0 then e else sz) \<and>
        0 \<le> sz \<and> sz \<le> int (length buf) \<and> err \<le> 0 \<and> err \<noteq> - EIOCBQUEUED \<and>
        (err = 0 \<longrightarrow> buf \<noteq> [] \<longrightarrow> 0 < sz))"

text \<open>A report gives a write pointer inside of the zone in the conditions in which a zone has one.\<close>

definition wp_in_zone :: "(nat \<Rightarrow> int) \<Rightarrow> nat \<Rightarrow> blk_zone \<Rightarrow> bool" where
  "wp_in_zone cap s zone \<longleftrightarrow> bz_cond zone \<notin> {COND_READONLY, COND_FULL, COND_OFFLINE} \<longrightarrow>
     bz_start zone \<le> bz_wp zone \<and> int (bz_wp zone - bz_start zone) * 2 ^ SECTOR_SHIFT \<le> cap s"

locale zone_io =
  fixes B :: "'d blkdev" and L :: "'d iomap_lib" and cap :: "nat \<Rightarrow> int"
  assumes dio_write_completes: "ki_sync iocb \<Longrightarrow>
      dio_completes en buf c (io_dio_write L beg en iocb buf c)"
    and dio_read_completes: "(\<exists>d. snd (io_dio_read L beg en iocb n c) = c\<lparr>c_dev := d\<rparr>) \<or>
      (\<exists>d sz err e. en sz err (c\<lparr>c_dev := d\<rparr>) = (e, snd (io_dio_read L beg en iocb n c)))"
    and file_read_frame: "\<exists>d. snd (io_file_read L iocb n c) = c\<lparr>c_dev := d\<rparr>"
    and splice_read_frame: "\<exists>d. snd (io_splice_read L pos n c) = c\<lparr>c_dev := d\<rparr>"
    and report_in_zone: "bd_report_zone B s d = Some zone \<Longrightarrow> wp_in_zone cap s zone"

text \<open>
  The state of a sequential zone file between operations: sizes within the zone, the ACTIVE flag
  is what the zone's condition says, and the inode size is the write pointer offset, unless the
  file system has been made read-only.
\<close>

definition zfile_bounds :: "(nat \<Rightarrow> int) \<Rightarrow> 'd zctx \<Rightarrow> bool" where
  "zfile_bounds cap c \<longleftrightarrow> zonefs_zone_is_seq (c_zone c) \<and>
     z_capacity (c_zone c) = cap (z_sector (c_zone c)) \<and>
     0 \<le> i_size (c_inode c) \<and> i_size (c_inode c) \<le> z_capacity (c_zone c) \<and>
     0 \<le> z_wpoffset (c_zone c) \<and> z_wpoffset (c_zone c) \<le> z_capacity (c_zone c)"

definition zfile_flags :: "'d zctx \<Rightarrow> bool" where
  "zfile_flags c \<longleftrightarrow> zonefs_zone_is_seq (c_zone c) \<longrightarrow>
     zone_has ZONE_ACTIVE (c_zone c) = zone_is_active (c_zone c)"

definition zfile_ok :: "(nat \<Rightarrow> int) \<Rightarrow> 'd zctx \<Rightarrow> bool" where
  "zfile_ok cap c \<longleftrightarrow> zfile_bounds cap c \<and> zfile_flags c \<and>
     (c_rdonly c \<or> i_size (c_inode c) = z_wpoffset (c_zone c))"

lemma zone_mgmt_frame:
  "zonefs_zone_mgmt B op c = (r, c') \<Longrightarrow> \<exists>d. c' = c\<lparr>c_dev := d\<rparr>"
  by (auto simp: zonefs_zone_mgmt_def Let_def split: prod.splits)

lemma zfile_dev [simp]:
  "zfile_bounds cap (c\<lparr>c_dev := d\<rparr>) = zfile_bounds cap c" "zfile_flags (c\<lparr>c_dev := d\<rparr>) = zfile_flags c"
  "zfile_ok cap (c\<lparr>c_dev := d\<rparr>) = zfile_ok cap c" "active_balance (c\<lparr>c_dev := d\<rparr>) = active_balance c"
  by (simp_all add: zfile_bounds_def zfile_flags_def zfile_ok_def active_balance_def)

lemma account_active_seq [simp]:
  "zonefs_zone_is_seq (c_zone (zonefs_account_active c)) = zonefs_zone_is_seq (c_zone c)"
  by (simp add: zonefs_zone_is_seq_def zonefs_zone_is_cnv_def zone_has_bits account_active_flags)

lemma i_size_write_seq [simp]:
  "zonefs_zone_is_seq (c_zone (zonefs_i_size_write n c)) = zonefs_zone_is_seq (c_zone c)"
  by (simp add: zonefs_zone_is_seq_def zonefs_zone_is_cnv_def zone_has_bits i_size_write_flags)

lemma seq_wpoffset [simp]: "zonefs_zone_is_seq (z\<lparr>z_wpoffset := n\<rparr>) = zonefs_zone_is_seq z"
  by (simp add: zonefs_zone_is_seq_def zonefs_zone_is_cnv_def)

lemma account_active_zfile_flags: "zfile_flags (zonefs_account_active c)"
proof -
  have "zone_is_active (c_zone (zonefs_account_active c)) = zone_is_active (c_zone c)"
    by (simp add: account_active_eq)
  then show ?thesis by (simp add: zfile_flags_def account_active_flags)
qed

lemma i_size_write_zfile_flags:
  assumes "zfile_flags c" "n = z_wpoffset (c_zone c) \<or> n < z_capacity (c_zone c)"
  shows "zfile_flags (zonefs_i_size_write n c)"
proof -
  have "zonefs_zone_is_seq (c_zone (zonefs_i_size_write n c)) = zonefs_zone_is_seq (c_zone c)"
    by (simp add: zonefs_zone_is_seq_def zonefs_zone_is_cnv_def zone_has_bits i_size_write_flags)
  then show ?thesis using assms
    by (auto simp: zfile_flags_def zone_is_active_def zone_has_bits i_size_write_flags)
qed

lemma update_stats_zfile [simp]:
  "zfile_bounds cap (zonefs_update_stats n c) = zfile_bounds cap c"
  "zfile_flags (zonefs_update_stats n c) = zfile_flags c"
  "active_balance (zonefs_update_stats n c) = active_balance c"
  by (simp_all add: zfile_bounds_def zfile_flags_def active_balance_def)

subsection \<open>Error recovery restores the invariant\<close>

lemma handle_io_error_frame:
  "z_capacity (c_zone (zonefs_handle_io_error zone w c)) = z_capacity (c_zone c) \<and>
   z_sector (c_zone (zonefs_handle_io_error zone w c)) = z_sector (c_zone c) \<and>
   zonefs_zone_is_seq (c_zone (zonefs_handle_io_error zone w c)) = zonefs_zone_is_seq (c_zone c)"
proof -
  define same where "same z z' \<longleftrightarrow> z_capacity z' = z_capacity z \<and> z_sector z' = z_sector z \<and>
      zonefs_zone_is_seq z' = zonefs_zone_is_seq z" for z z' :: zonefs_zone
  note seq = zonefs_zone_is_seq_def zonefs_zone_is_cnv_def zone_has_bits
  obtain k z where kz: "zonefs_check_zone_condition zone (c_zone c) = (k, z)" by (rule prod.exhaust)
  obtain n c1 where hb: "handle_bad_zone (i_size (c_inode c)) k (c\<lparr>c_zone := z\<rparr>) = (n, c1)"
    by (rule prod.exhaust)
  have "same (c_zone c) z"
    using kz by (auto simp: same_def seq zonefs_check_zone_condition_def zone_set_bits
        split: zone_cond.splits)
  moreover have "same z (c_zone c1)"
    using hb by (auto simp: same_def seq handle_bad_zone_def zone_set_bits split: if_splits)
  moreover have "same (c_zone d) (c_zone (settle_size m (close_bad_zone d)))" for m d
    by (auto simp: same_def seq settle_size_def account_active_flags i_size_write_flags
        close_bad_zone_def Let_def zone_clear_bits)
  ultimately show ?thesis
    by (auto simp: same_def handle_io_error_steps kz hb)
qed

lemma recovered_size_bounds:
  assumes "zfile_bounds cap c"
    and "\<not> zonefs_zone_is_cnv (c_zone c) \<Longrightarrow> wp_in_zone cap (z_sector (c_zone c)) zone"
  shows "0 \<le> recovered_size zone w c \<and> recovered_size zone w c \<le> z_capacity (c_zone c)"
proof -
  have "0 \<le> fst (zonefs_check_zone_condition zone (c_zone c)) \<and>
      fst (zonefs_check_zone_condition zone (c_zone c)) \<le> z_capacity (c_zone c)"
  proof (cases "zonefs_zone_is_cnv (c_zone c)")
    case True
    then show ?thesis using assms(1)
      by (auto simp: zonefs_check_zone_condition_def zfile_bounds_def split: zone_cond.split)
  next
    case False
    then show ?thesis using assms(1) assms(2) [OF False]
      by (auto simp: zonefs_check_zone_condition_def zfile_bounds_def wp_in_zone_def of_nat_diff
          split: zone_cond.split)
  qed
  then show ?thesis using assms(1)
    by (auto simp: recovered_size_def zfile_bounds_def Let_def split: prod.splits)
qed

context zone_io
begin

lemma io_error_ok:
  assumes "zfile_bounds cap c" "zfile_flags c"
    and "\<not> w \<Longrightarrow> zfile_ok cap c"
  shows "zfile_ok cap (zonefs_io_error B w c) \<and> active_balance (zonefs_io_error B w c) = active_balance c"
proof -
  have handled: "zfile_ok cap (zonefs_handle_io_error zone w c) \<and>
      active_balance (zonefs_handle_io_error zone w c) = active_balance c"
    if "\<not> zonefs_zone_is_cnv (c_zone c) \<Longrightarrow> wp_in_zone cap (z_sector (c_zone c)) zone" for zone
  proof (cases "error_pending zone w c")
    case True
    then show ?thesis
      using recovered_size_bounds [OF assms(1) that] assms(1) handle_io_error_frame [of zone w c]
        handle_io_error_pending [OF True]
      by (simp add: zfile_ok_def zfile_bounds_def zfile_flags_def Let_def)
  next
    case False
    then show ?thesis using handle_io_error_idle [OF False] assms(3) by simp
  qed
  show ?thesis
  proof (cases "zonefs_zone_is_seq (c_zone c)")
    case False
    then have "zfile_ok cap (zonefs_handle_io_error zone w c) \<and>
        active_balance (zonefs_handle_io_error zone w c) = active_balance c" for zone
      by (intro handled) (simp add: zonefs_zone_is_seq_def)
    then show ?thesis using False by (simp add: zonefs_io_error_def Let_def)
  next
    case True
    show ?thesis
    proof (cases "bd_report_zone B (z_sector (c_zone c)) (c_dev c)")
      case None
      then show ?thesis using True assms
        by (simp add: zonefs_io_error_def zfile_ok_def zfile_bounds_def zfile_flags_def active_balance_def)
    next
      case (Some zone)
      then show ?thesis using True handled [OF report_in_zone [OF Some]]
        by (simp add: zonefs_io_error_def)
    qed
  qed
qed

end

subsection \<open>Writes, truncation, opening and closing keep it\<close>

lemma write_check_limits_le:
  assumes "0 < zonefs_write_check_limits iocb pos n c"
  shows "zonefs_write_check_limits iocb pos n c \<le> n \<and>
    pos + zonefs_write_check_limits iocb pos n c \<le> z_capacity (c_zone c)"
  using assms
  by (auto simp: zonefs_write_check_limits_def Let_def EFBIG_def split: option.splits if_splits)

lemma write_checks_pos:
  assumes "zonefs_write_checks iocb from c = (n, iocb', from')" "0 < n"
  shows "n = int (length from')" "ki_pos iocb' + n \<le> z_capacity (c_zone c)"
    "ki_sync iocb' = ki_sync iocb" "from' = take (length from') from"
    "ki_pos iocb' = (if ki_append iocb then z_wpoffset (c_zone c) else ki_pos iocb)"
proof -
  define iocb1 where "iocb1 = (if ki_append iocb then iocb\<lparr>ki_pos := z_wpoffset (c_zone c)\<rparr> else iocb)"
  define k where "k = zonefs_write_check_limits iocb1 (ki_pos iocb1) (int (length from)) c"
  have r: "n = int (length (take (nat k) from))" "iocb' = iocb1" "from' = take (nat k) from" "0 \<le> k"
    using assms by (auto simp: zonefs_write_checks_def iocb1_def [symmetric] k_def [symmetric] Let_def
        EINVAL_def ETXTBSY_def split: if_splits)
  then have "0 < k" using assms(2) by (cases "k = 0") auto
  then have "k \<le> int (length from)" "ki_pos iocb1 + k \<le> z_capacity (c_zone c)"
    using write_check_limits_le [of iocb1 "ki_pos iocb1" "int (length from)" c] by (simp_all add: k_def)
  then show "ki_pos iocb' + n \<le> z_capacity (c_zone c)" using r by simp
  show "n = int (length from')" "ki_sync iocb' = ki_sync iocb" "from' = take (length from') from"
    "ki_pos iocb' = (if ki_append iocb then z_wpoffset (c_zone c) else ki_pos iocb)"
    using r by (simp_all add: iocb1_def min_def)
qed

text \<open>The write pointer offset moves ahead before the device is asked.\<close>

definition advance_wpoffset :: "int \<Rightarrow> 'd zctx \<Rightarrow> 'd zctx" where
  "advance_wpoffset n c = zonefs_account_active (map_zone (\<lambda>z. z\<lparr>z_wpoffset := z_wpoffset z + n\<rparr>) c)"

lemma advance_wpoffset_simps [simp]:
  "z_wpoffset (c_zone (advance_wpoffset n c)) = z_wpoffset (c_zone c) + n"
  "z_capacity (c_zone (advance_wpoffset n c)) = z_capacity (c_zone c)"
  "z_sector (c_zone (advance_wpoffset n c)) = z_sector (c_zone c)"
  "zonefs_zone_is_seq (c_zone (advance_wpoffset n c)) = zonefs_zone_is_seq (c_zone c)"
  "c_inode (advance_wpoffset n c) = c_inode c" "c_rdonly (advance_wpoffset n c) = c_rdonly c"
  "active_balance (advance_wpoffset n c) = active_balance c" "zfile_flags (advance_wpoffset n c)"
  "c_dev (advance_wpoffset n c) = c_dev c" "c_blkbits (advance_wpoffset n c) = c_blkbits c"
  by (simp_all add: advance_wpoffset_def account_active_zfile_flags)
     (simp_all add: zonefs_zone_is_seq_def zonefs_zone_is_cnv_def zone_has_def active_balance_def)

text \<open>The part of \<open>zonefs_file_dio_write\<close> after its checks, for a sequential zone.\<close>

lemma dio_write_cases:
  assumes "zonefs_zone_is_seq (c_zone c)"
    and "zonefs_file_dio_write B L iocb from c = ((r, iocb', from'), c')"
  obtains (refused) "r \<le> 0" "c' = c"
  | (issued) n ret c2 where "zonefs_write_checks iocb from c = (n, iocb', from')" "0 < n"
      "\<not> misaligned (ki_pos iocb') n c" "ki_pos iocb' = z_wpoffset (c_zone c)"
      "io_dio_write L (zonefs_write_iomap_begin True) (zonefs_file_write_dio_end_io B iocb') iocb' from'
         (advance_wpoffset n c) = (ret, c2)"
      "zonefs_zone_is_seq (c_zone c2) \<Longrightarrow>
         r = (if ret = - ENOTBLK then - EBUSY else if 0 < ret \<and> ret \<noteq> n then - EIO else ret)"
      "zonefs_zone_is_seq (c_zone c2) \<Longrightarrow>
         c' = (if r < 0 \<and> r \<noteq> - EIOCBQUEUED then zonefs_io_error B True c2 else c2)"
proof -
  obtain n iocb1 from1 where w: "zonefs_write_checks iocb from c = (n, iocb1, from1)" by (rule prod_cases3)
  obtain ret c2 where io: "io_dio_write L (zonefs_write_iomap_begin True)
      (zonefs_file_write_dio_end_io B iocb1) iocb1 from1 (advance_wpoffset n c) = (ret, c2)"
    by (rule prod.exhaust)
  note df = assms(2) [unfolded zonefs_file_dio_write_def w prod.case Let_def]
  note io' = io [unfolded advance_wpoffset_def]
  consider (flags) "\<not> ki_sync iocb \<and> ki_nowait iocb \<or> ki_nowait iocb \<and> \<not> ki_lock_free iocb"
    | (checks) "\<not> (\<not> ki_sync iocb \<and> ki_nowait iocb)" "\<not> (ki_nowait iocb \<and> \<not> ki_lock_free iocb)"
        "n \<le> 0 \<or> misaligned (ki_pos iocb1) n c \<or> ki_pos iocb1 \<noteq> z_wpoffset (c_zone c)"
    | (late) "\<not> (\<not> ki_sync iocb \<and> ki_nowait iocb)" "\<not> (ki_nowait iocb \<and> \<not> ki_lock_free iocb)"
        "0 < n" "\<not> misaligned (ki_pos iocb1) n c" "ki_pos iocb1 = z_wpoffset (c_zone c)"
    by linarith
  then show thesis
  proof cases
    case flags
    then have "r \<le> 0 \<and> c' = c" using df assms(1) by (elim disjE) (auto simp: const_simps split: if_splits)
    then show thesis using refused by blast
  next
    case checks
    then have "r \<le> 0 \<and> c' = c" using df assms(1)
      by (cases "n \<le> 0"; cases "misaligned (ki_pos iocb1) n c") (auto simp: const_simps)
    then show thesis using refused by blast
  next
    case late
    have seq: "zonefs_zone_is_seq (c_zone c)" by (rule assms(1))
    have eq: "iocb' = iocb1" "from' = from1"
      using df late seq io' by (auto simp: not_le split: if_splits)
    show thesis
    proof (rule issued [OF w [folded eq] late(3)])
      show "\<not> misaligned (ki_pos iocb') n c" "ki_pos iocb' = z_wpoffset (c_zone c)"
        using late eq by simp_all
      show "io_dio_write L (zonefs_write_iomap_begin True) (zonefs_file_write_dio_end_io B iocb') iocb' from'
         (advance_wpoffset n c) = (ret, c2)" using io eq by simp
      assume s2: "zonefs_zone_is_seq (c_zone c2)"
      have res: "r = (if ret = - ENOTBLK then - EBUSY else if 0 < ret \<and> ret \<noteq> n then - EIO else ret) \<and>
          c' = (if r < 0 \<and> r \<noteq> - EIOCBQUEUED then zonefs_io_error B True c2 else c2)"
        using df late seq io' s2 by (auto simp: not_le const_simps split: if_splits)
      show "r = (if ret = - ENOTBLK then - EBUSY else if 0 < ret \<and> ret \<noteq> n then - EIO else ret)"
        using res by blast
      show "c' = (if r < 0 \<and> r \<noteq> - EIOCBQUEUED then zonefs_io_error B True c2 else c2)"
        using res by blast
    qed
  qed
qed

subsection \<open>The operations keep the invariant\<close>

lemma write_end_io_cases:
  assumes "dio_completes (zonefs_file_write_dio_end_io B iocb) buf c (ret, c2)"
    and "ki_sync iocb" "zonefs_zone_is_seq (c_zone c)"
    and "i_size (c_inode c) = ki_pos iocb" and "buf \<noteq> []"
  obtains (failed) d where "c2 = c\<lparr>c_dev := d\<rparr>" "ret < 0" "ret \<noteq> - EIOCBQUEUED"
  | (completed) d where "0 < ret" "ret \<le> int (length buf)"
      "c2 = zonefs_i_size_write (ki_pos iocb + ret) (zonefs_update_stats (ki_pos iocb + ret) (c\<lparr>c_dev := d\<rparr>))"
proof -
  from assms(1) consider d where "c2 = c\<lparr>c_dev := d\<rparr>" "ret < 0" "ret \<noteq> - EIOCBQUEUED"
    | d sz err e where "zonefs_file_write_dio_end_io B iocb sz err (c\<lparr>c_dev := d\<rparr>) = (e, c2)"
        "ret = (if e \<noteq> 0 then e else sz)" "0 \<le> sz" "sz \<le> int (length buf)" "err \<le> 0"
        "err \<noteq> - EIOCBQUEUED" "err = 0 \<longrightarrow> 0 < sz"
    using assms(5) unfolding dio_completes_def by fastforce
  then show thesis
  proof cases
    case 1
    then show thesis by (rule failed)
  next
    case (2 d sz err e)
    show thesis
    proof (cases "err = 0")
      case True
      then show thesis using 2 assms(3,4)
        by (intro completed [of d]) (auto simp: zonefs_file_write_dio_end_io_def)
    next
      case False
      then show thesis using 2 assms(2)
        by (intro failed [of d]) (auto simp: zonefs_file_write_dio_end_io_def)
    qed
  qed
qed

context zone_io
begin

lemma dio_write_ok:
  assumes ok: "zfile_ok cap c" and rw: "\<not> c_rdonly c" and seq: "zonefs_zone_is_seq (c_zone c)"
    and sync: "ki_sync iocb"
    and run: "zonefs_file_dio_write B L iocb from c = ((r, iocb', from'), c')"
  shows "zfile_ok cap c' \<and> active_balance c' = active_balance c \<and>
    (0 < r \<longrightarrow> r = int (length from') \<and> ki_pos iocb' = i_size (c_inode c) \<and>
       i_size (c_inode c') = i_size (c_inode c) + r) \<and> (c' \<noteq> c \<longrightarrow> r \<noteq> - ENOTBLK)"
  using seq run
proof (cases rule: dio_write_cases)
  case refused
  then show ?thesis using ok by simp
next
  case (issued n ret c2)
  note w = write_checks_pos [OF issued(1,2)]
  note ok' = ok [unfolded zfile_ok_def zfile_bounds_def]
  have n: "from' \<noteq> []" "z_wpoffset (c_zone c) + n \<le> z_capacity (c_zone c)" "i_size (c_inode c) = ki_pos iocb'"
    using w issued(2,4) ok' rw seq by auto
  let ?c1 = "advance_wpoffset n c"
  have b1: "zfile_bounds cap ?c1" using ok' n(2) issued(2) by (simp add: zfile_bounds_def)
  have "dio_completes (zonefs_file_write_dio_end_io B iocb') from' ?c1 (ret, c2)"
    using dio_write_completes [of iocb'] sync w(3) issued(5) by metis
  moreover have "ki_sync iocb'" "zonefs_zone_is_seq (c_zone ?c1)" "i_size (c_inode ?c1) = ki_pos iocb'"
    using sync seq n(3) w(3) by simp_all
  ultimately show ?thesis using n(1)
  proof (cases rule: write_end_io_cases [case_names failed completed, consumes 5])
    case (failed d)
    have s2: "zonefs_zone_is_seq (c_zone c2)" using failed(1) seq by simp
    have r: "r < 0" "r \<noteq> - EIOCBQUEUED" "r \<noteq> - ENOTBLK" "c' = zonefs_io_error B True c2"
      using issued(6,7) [OF s2] failed by (auto simp: const_simps split: if_splits)
    have "zfile_ok cap (zonefs_io_error B True c2) \<and>
        active_balance (zonefs_io_error B True c2) = active_balance c2"
      using failed(1) b1 by (intro io_error_ok) simp_all
    then show ?thesis using r failed(1) by simp
  next
    case (completed d)
    let ?m = "ki_pos iocb' + ret"
    have s2: "zonefs_zone_is_seq (c_zone c2)" using completed(3) seq by simp
    have b2: "zfile_bounds cap c2"
      using completed n ok' issued(4) w(1) b1 by (simp add: zfile_bounds_def)
    have f2: "zfile_flags c2"
      unfolding completed(3) using completed(2) n(2) issued(4) w(1)
      by (intro i_size_write_zfile_flags) auto
    have bal: "active_balance c2 = active_balance c" using completed(3) by simp
    show ?thesis
    proof (cases "ret = n")
      case True
      then have "r = n" "c' = c2" using issued(2,6,7) s2 by (auto simp: const_simps)
      then show ?thesis using True b2 f2 bal completed(3) issued(2,4) w(1) n(3)
        by (simp add: zfile_ok_def const_simps)
    next
      case False
      then have "r = - EIO" "c' = zonefs_io_error B True c2"
        using issued(6,7) s2 completed(1) by (auto simp: const_simps)
      then show ?thesis using io_error_ok [OF b2 f2, of True] bal by (simp add: const_simps)
    qed
  qed
qed

lemma write_iter_ok:
  assumes "zfile_ok cap c" "zonefs_zone_is_seq (c_zone c)" "ki_sync iocb"
    and run: "zonefs_file_write_iter B L iocb from c = (r, c')"
  shows "zfile_ok cap c' \<and> active_balance c' = active_balance c"
proof -
  have buffered: "zonefs_file_buffered_write B L i f d = (- EIO, d)"
    if "zonefs_zone_is_seq (c_zone d)" for i f d
    using that by (simp add: zonefs_file_buffered_write_def)
  obtain r1 iocb1 from1 c1 where dio: "zonefs_file_dio_write B L iocb from c = ((r1, iocb1, from1), c1)"
    by (metis prod.exhaust)
  show ?thesis
  proof (cases "c' = c")
    case False
    then have "\<not> c_rdonly c" "c' = c1 \<or> r1 = - ENOTBLK \<and> zonefs_file_buffered_write B L iocb1 from1 c1 = (r, c')"
      using run assms(2) by (auto simp: zonefs_file_write_iter_def dio buffered split: if_splits)
    moreover note dio_write_ok [OF assms(1) this(1) assms(2,3) dio]
    ultimately show ?thesis using False buffered [OF assms(2)] by (cases "c1 = c") auto
  qed (use assms(1) in simp)
qed

end

lemma map_inode_simps [simp]:
  "c_zone (map_inode f c) = c_zone c" "c_sbi (map_inode f c) = c_sbi c"
  "c_rdonly (map_inode f c) = c_rdonly c" "c_dev (map_inode f c) = c_dev c"
  "c_inode (map_inode f c) = f (c_inode c)" "c_blkbits (map_inode f c) = c_blkbits c"
  by (simp_all add: map_inode_def)

lemma account_wro_simps [simp]:
  "c_zone (account_wro k c) = c_zone c" "c_inode (account_wro k c) = c_inode c"
  "c_rdonly (account_wro k c) = c_rdonly c" "c_dev (account_wro k c) = c_dev c"
  "c_blkbits (account_wro k c) = c_blkbits c"
  "s_active_seq_files (c_sbi (account_wro k c)) = s_active_seq_files (c_sbi c)"
  "s_wro_seq_files (c_sbi (account_wro k c)) = s_wro_seq_files (c_sbi c) + k"
  "s_mount_opts (c_sbi (account_wro k c)) = s_mount_opts (c_sbi c)"
  "s_max_wro_seq_files (c_sbi (account_wro k c)) = s_max_wro_seq_files (c_sbi c)"
  by (simp_all add: account_wro_def)

lemma zfile_ok_counts [simp]:
  "zfile_ok cap (account_wro k c) = zfile_ok cap c" "active_balance (account_wro k c) = active_balance c"
  "zfile_ok cap (get_ref c) = zfile_ok cap c" "active_balance (get_ref c) = active_balance c"
  "zfile_ok cap (put_ref c) = zfile_ok cap c" "active_balance (put_ref c) = active_balance c"
  by (simp_all add: zfile_ok_def zfile_bounds_def zfile_flags_def active_balance_def get_ref_def put_ref_def)

lemma account_active_ok:
  assumes "zfile_bounds cap c"
    and "zonefs_zone_is_seq (c_zone c) \<Longrightarrow> c_rdonly c \<or> i_size (c_inode c) = z_wpoffset (c_zone c)"
  shows "zfile_ok cap (zonefs_account_active c) \<and> active_balance (zonefs_account_active c) = active_balance c"
  using assms by (simp add: zfile_ok_def zfile_bounds_def account_active_zfile_flags)

lemma open_flag_frame:
  assumes "f = zone_set ZONE_FLAG_OPEN \<or> f = zone_clear ZONE_FLAG_OPEN"
  shows "zfile_bounds cap (map_zone f c) = zfile_bounds cap c"
    "zonefs_zone_is_seq (f (c_zone c)) = zonefs_zone_is_seq (c_zone c)"
    "z_wpoffset (f (c_zone c)) = z_wpoffset (c_zone c)"
    "z_capacity (f (c_zone c)) = z_capacity (c_zone c)"
    "active_balance (map_zone f c) = active_balance c"
  using assms
  by (auto simp: zfile_bounds_def active_balance_def zonefs_zone_is_seq_def zonefs_zone_is_cnv_def
      zone_flag_simps)

lemma set_open_flag_ok:
  assumes "zfile_ok cap c" "f = zone_set ZONE_FLAG_OPEN \<or> f = zone_clear ZONE_FLAG_OPEN"
  shows "zfile_ok cap (zonefs_account_active (map_zone f c)) \<and>
    active_balance (zonefs_account_active (map_zone f c)) = active_balance c"
  using account_active_ok [of cap "map_zone f c"] assms(1)
  by (simp add: zfile_ok_def [of cap c] open_flag_frame [OF assms(2)])

definition resized :: "int \<Rightarrow> 'd zctx \<Rightarrow> 'd zctx" where
  "resized n c = zonefs_account_active (map_zone (\<lambda>z. z\<lparr>z_wpoffset := n\<rparr>)
     (set_isize n (zonefs_update_stats n c)))"

lemma resized_ok:
  assumes "zfile_bounds cap c" "n = 0 \<or> n = z_capacity (c_zone c)"
  shows "zfile_ok cap (resized n c) \<and> active_balance (resized n c) = active_balance c"
proof -
  let ?d = "map_zone (\<lambda>z. z\<lparr>z_wpoffset := n\<rparr>) (set_isize n (zonefs_update_stats n c))"
  have "0 \<le> n" "n \<le> z_capacity (c_zone c)" using assms by (auto simp: zfile_bounds_def)
  then have "zfile_bounds cap ?d" using assms(1) by (simp add: zfile_bounds_def set_isize_def)
  moreover have "active_balance ?d = active_balance c" by (simp add: active_balance_def set_isize_def)
  ultimately show ?thesis unfolding resized_def
    using account_active_ok [of cap ?d] by (simp add: set_isize_def)
qed

lemma truncate_run:
  assumes "zonefs_file_truncate B n c = (r, c')"
  obtains (refused) "c' = c" "r = - EPERM" "\<not> zonefs_zone_is_seq (c_zone c) \<or> n \<noteq> 0 \<and> n \<noteq> z_capacity (c_zone c)"
  | (same) "c' = c" "r = 0" "i_size (c_inode c) = n" "n = 0 \<or> n = z_capacity (c_zone c)" "zonefs_zone_is_seq (c_zone c)"
  | (failed) d where "c' = c\<lparr>c_dev := d\<rparr>" "r \<noteq> 0" "n = 0 \<or> n = z_capacity (c_zone c)" "zonefs_zone_is_seq (c_zone c)"
  | (settled) f d where "n = 0 \<or> n = z_capacity (c_zone c)" "zonefs_zone_is_seq (c_zone c)"
      "f = id \<or> f = map_zone (zone_clear ZONE_FLAG_OPEN)" "c' = resized n (f (c\<lparr>c_dev := d\<rparr>))"
proof -
  let ?op = "if n = 0 then ZONE_RESET else ZONE_FINISH"
  obtain r1 c1 where m: "zonefs_zone_mgmt B ?op c = (r1, c1)" by (rule prod.exhaust)
  obtain d1 where d1: "c1 = c\<lparr>c_dev := d1\<rparr>" using zone_mgmt_frame [OF m] by blast
  obtain r2 c2 where m2: "zonefs_zone_mgmt B ZONE_OPEN c1 = (r2, c2)" by (rule prod.exhaust)
  obtain d2 where d2: "c2 = c\<lparr>c_dev := d2\<rparr>" using zone_mgmt_frame [OF m2] d1 by auto
  note run = assms [unfolded zonefs_file_truncate_def Let_def m prod.case m2 resized_def [symmetric]]
  consider "c' = c" "r = - EPERM" "\<not> zonefs_zone_is_seq (c_zone c) \<or> n \<noteq> 0 \<and> n \<noteq> z_capacity (c_zone c)"
    | "c' = c" "r = 0" "i_size (c_inode c) = n" "n = 0 \<or> n = z_capacity (c_zone c)" "zonefs_zone_is_seq (c_zone c)"
    | "r1 \<noteq> 0" "c' = c1" "r = r1" "n = 0 \<or> n = z_capacity (c_zone c)" "zonefs_zone_is_seq (c_zone c)"
    | "r1 = 0" "c' = resized n c2 \<or> c' = resized n c1 \<or>
      c' = resized n (map_zone (zone_clear ZONE_FLAG_OPEN) c1)"
      "n = 0 \<or> n = z_capacity (c_zone c)" "zonefs_zone_is_seq (c_zone c)"
    using run by (auto split: if_splits)
  then show thesis
  proof cases
    case 1
    then show thesis by (rule refused)
  next
    case 2
    then show thesis by (rule same)
  next
    case 3
    then show thesis using failed d1 by blast
  next
    case 4
    then show thesis
      using settled [of id d2] settled [of id d1] settled [of "map_zone (zone_clear ZONE_FLAG_OPEN)" d1] d1 d2
      by (elim disjE) simp_all
  qed
qed

lemma truncate_ok:
  assumes "zfile_ok cap c" and "zonefs_file_truncate B n c = (r, c')"
  shows "zfile_ok cap c' \<and> active_balance c' = active_balance c"
  using assms(2)
proof (cases rule: truncate_run)
  case (settled f d)
  have "zfile_bounds cap (f (c\<lparr>c_dev := d\<rparr>))" "z_capacity (c_zone (f (c\<lparr>c_dev := d\<rparr>))) = z_capacity (c_zone c)"
      "active_balance (f (c\<lparr>c_dev := d\<rparr>)) = active_balance c"
    using settled(3) assms(1) by (auto simp: zfile_ok_def open_flag_frame)
  then show ?thesis using resized_ok [of cap "f (c\<lparr>c_dev := d\<rparr>)" n] settled by simp
qed (use assms(1) in simp_all)

text \<open>The write-open count less this file's share of it.\<close>

definition wro_balance :: "'d zctx \<Rightarrow> int" where
  "wro_balance c = s_wro_seq_files (c_sbi c) - of_bool (i_wr_refcnt (c_inode c) \<noteq> 0)"

lemma write_open_run:
  assumes "zonefs_seq_file_write_open B c = (r, c')"
  obtains (again) "i_wr_refcnt (c_inode c) \<noteq> 0" "r = 0" "c' = get_ref c"
  | (refused) d where "i_wr_refcnt (c_inode c) = 0" "r \<noteq> 0"
      "c' = account_wro (-1) ((account_wro 1 c)\<lparr>c_dev := d\<rparr>)"
  | (plain) "i_wr_refcnt (c_inode c) = 0" "r = 0" "c' = get_ref (account_wro 1 c)"
  | (opened) d where "i_wr_refcnt (c_inode c) = 0" "r = 0" "sbi_has MNTOPT_EXPLICIT_OPEN c"
      "c' = get_ref (zonefs_account_active (map_zone (zone_set ZONE_FLAG_OPEN) ((account_wro 1 c)\<lparr>c_dev := d\<rparr>)))"
proof -
  obtain r2 c2 where m: "zonefs_zone_mgmt B ZONE_OPEN (account_wro 1 c) = (r2, c2)" by (rule prod.exhaust)
  obtain d2 where d2: "c2 = (account_wro 1 c)\<lparr>c_dev := d2\<rparr>" using zone_mgmt_frame [OF m] by blast
  have triv: "account_wro (-1) (account_wro 1 c) =
      account_wro (-1) ((account_wro 1 c)\<lparr>c_dev := c_dev c\<rparr>)"
    by (simp add: account_wro_def)
  note run = assms [unfolded zonefs_seq_file_write_open_def Let_def m prod.case]
  consider "i_wr_refcnt (c_inode c) \<noteq> 0" "r = 0" "c' = get_ref c"
    | "i_wr_refcnt (c_inode c) = 0" "r = 0" "c' = get_ref (account_wro 1 c)"
    | "i_wr_refcnt (c_inode c) = 0" "r = - EBUSY" "c' = account_wro (-1) (account_wro 1 c)"
    | "i_wr_refcnt (c_inode c) = 0" "r \<noteq> 0" "c' = account_wro (-1) c2"
    | "i_wr_refcnt (c_inode c) = 0" "r = 0" "sbi_has MNTOPT_EXPLICIT_OPEN c"
        "c' = get_ref (zonefs_account_active (map_zone (zone_set ZONE_FLAG_OPEN) c2))"
    using run by (auto simp: sbi_has_def split: if_splits)
  then show thesis
  proof cases
    case 1
    then show thesis by (rule again)
  next
    case 2
    then show thesis by (rule plain)
  next
    case 3
    then show thesis using refused triv by (simp add: EBUSY_def)
  next
    case 4
    then show thesis using refused d2 by simp
  next
    case 5
    then show thesis using opened d2 by simp
  qed
qed

lemma write_open_ok:
  assumes "zfile_ok cap c" and "zonefs_seq_file_write_open B c = (r, c')"
  shows "zfile_ok cap c' \<and> active_balance c' = active_balance c"
  using assms(2)
proof (cases rule: write_open_run)
  case (opened d)
  then show ?thesis using assms(1)
      set_open_flag_ok [of cap "(account_wro 1 c)\<lparr>c_dev := d\<rparr>" "zone_set ZONE_FLAG_OPEN"]
    by simp
qed (use assms(1) in simp_all)

context zone_io
begin

lemma read_error_ok:
  assumes "zfile_ok cap c"
  shows "zfile_ok cap (zonefs_io_error B False c) \<and> active_balance (zonefs_io_error B False c) = active_balance c"
  using assms by (intro io_error_ok) (simp_all add: zfile_ok_def)

lemma write_close_ok:
  assumes "zfile_ok cap c"
  shows "zfile_ok cap (zonefs_seq_file_write_close B c) \<and>
    active_balance (zonefs_seq_file_write_close B c) = active_balance c"
proof -
  obtain r d where m: "zonefs_zone_mgmt B ZONE_CLOSE (put_ref c) = (r, (put_ref c)\<lparr>c_dev := d\<rparr>)"
    using zone_mgmt_frame by (metis prod.exhaust)
  have ro: "zfile_ok cap (e\<lparr>c_rdonly := True\<rparr>)" "active_balance (e\<lparr>c_rdonly := True\<rparr>) = active_balance e"
    if "zfile_ok cap e" for e :: "'d zctx"
    using that by (simp_all add: zfile_ok_def zfile_bounds_def zfile_flags_def active_balance_def)
  have 1: "zfile_ok cap (zonefs_io_error B False ((put_ref c)\<lparr>c_dev := d\<rparr>)) \<and>
      active_balance (zonefs_io_error B False ((put_ref c)\<lparr>c_dev := d\<rparr>)) = active_balance c"
    using read_error_ok [of "(put_ref c)\<lparr>c_dev := d\<rparr>"] assms by simp
  have 2: "zfile_ok cap (zonefs_account_active (map_zone (zone_clear ZONE_FLAG_OPEN) ((put_ref c)\<lparr>c_dev := d\<rparr>))) \<and>
      active_balance (zonefs_account_active (map_zone (zone_clear ZONE_FLAG_OPEN) ((put_ref c)\<lparr>c_dev := d\<rparr>))) = active_balance c"
    using set_open_flag_ok [of cap "(put_ref c)\<lparr>c_dev := d\<rparr>" "zone_clear ZONE_FLAG_OPEN"] assms by simp
  show ?thesis
    using assms 1 2 by (simp add: zonefs_seq_file_write_close_def Let_def m ro)
qed

lemma read_iter_ok:
  assumes ok: "zfile_ok cap c" and run: "zonefs_file_read_iter B L iocb n c = (res, c')"
  shows "zfile_ok cap c' \<and> active_balance c' = active_balance c"
proof -
  let ?n = "min n (nat (i_size (c_inode c) - ki_pos iocb))"
  obtain res1 c1 where dio: "io_dio_read L zonefs_read_iomap_begin (zonefs_file_read_dio_end_io B) iocb ?n c = (res1, c1)"
    by (rule prod.exhaust)
  have c1: "zfile_ok cap c1 \<and> active_balance c1 = active_balance c"
    using dio_read_completes [of zonefs_read_iomap_begin "zonefs_file_read_dio_end_io B" iocb ?n c] dio ok
      read_error_ok
    by (auto simp: zonefs_file_read_dio_end_io_def split: if_splits)
  obtain r g c2 where fr: "io_file_read L iocb ?n c = ((r, g), c2)" by (metis prod.exhaust)
  then obtain d where "c2 = c\<lparr>c_dev := d\<rparr>" using file_read_frame [of iocb ?n c] by auto
  then have c2: "zfile_ok cap c2" "active_balance c2 = active_balance c" using ok by simp_all
  have "c' = c \<or> c' = c1 \<or> c' = c2 \<or> c' = zonefs_io_error B False c2"
    using run by (auto simp: zonefs_file_read_iter_def Let_def dio fr split: if_splits)
  then show ?thesis using ok c1 c2 read_error_ok [OF c2(1)] by auto
qed

end

section \<open>Reachable states of a zone file\<close>

text \<open>
  One step is one operation on the file: a synchronous write, a read, a truncation, opening or
  closing for writing.
\<close>

inductive zfile_step :: "'d blkdev \<Rightarrow> 'd iomap_lib \<Rightarrow> 'd zctx \<Rightarrow> 'd zctx \<Rightarrow> bool" for B L where
  step_write: "ki_sync iocb \<Longrightarrow> zonefs_file_write_iter B L iocb from c = (r, c') \<Longrightarrow> zfile_step B L c c'"
| step_read: "zonefs_file_read_iter B L iocb n c = (res, c') \<Longrightarrow> zfile_step B L c c'"
| step_truncate: "zonefs_file_truncate B n c = (r, c') \<Longrightarrow> zfile_step B L c c'"
| step_open: "zonefs_seq_file_write_open B c = (r, c') \<Longrightarrow> zfile_step B L c c'"
| step_close: "i_wr_refcnt (c_inode c) \<noteq> 0 \<Longrightarrow> zonefs_seq_file_write_close B c = c' \<Longrightarrow> zfile_step B L c c'"

inductive_cases zfile_stepE: "zfile_step B L c c'"

section \<open>A memory-backed device\<close>

text \<open>
  A device in memory, for concrete instances: its state gives the contents of the zone that
  starts at a sector. Zones have \<open>ram_zone_sectors\<close> sectors; a write is accepted only at the
  write pointer.
\<close>

type_synonym ram = "nat \<Rightarrow> bytes"

definition ram_zone_sectors :: nat where "ram_zone_sectors = 524288"

definition ram_cap :: "nat \<Rightarrow> int" where "ram_cap s = int ram_zone_sectors * 2 ^ SECTOR_SHIFT"

definition ram_base :: "int \<Rightarrow> nat" where
  "ram_base a = nat a div 2 ^ SECTOR_SHIFT div ram_zone_sectors * ram_zone_sectors"

definition ram_blk :: "ram blkdev" where
  "ram_blk = \<lparr>
     bd_zone_mgmt = (\<lambda>op s n d. case op of
         ZONE_RESET \<Rightarrow> (0, d(s := []))
       | ZONE_FINISH \<Rightarrow> (0, d(s := d s @ replicate (nat (ram_cap s) - length (d s)) 0))
       | _ \<Rightarrow> (0, d)),
     bd_report_zone = (\<lambda>s d. Some \<lparr>bz_start = s, bz_len = ram_zone_sectors,
       bz_wp = s + min (length (d s) div 2 ^ SECTOR_SHIFT) ram_zone_sectors,
       bz_type = TYPE_SEQWRITE_REQ, bz_cond = COND_CLOSED, bz_capacity = ram_zone_sectors\<rparr>),
     bd_flush = (\<lambda>d. (0, d))\<rparr>"

definition ram_finish :: "'d dio_end_io \<Rightarrow> int \<Rightarrow> int \<Rightarrow> 'd zctx \<Rightarrow> int \<times> 'd zctx" where
  "ram_finish en sz err c = (case en sz err c of (e, c') \<Rightarrow> (if e \<noteq> 0 then e else sz, c'))"

definition ram_dio_write ::
  "ram iomap_begin \<Rightarrow> ram dio_end_io \<Rightarrow> kiocb \<Rightarrow> bytes \<Rightarrow> ram zctx \<Rightarrow> int \<times> ram zctx"
where
  "ram_dio_write beg en iocb buf c =
     (case beg (ki_pos iocb) (int (length buf)) c of
        Inl e \<Rightarrow> ram_finish en 0 (- EIO) c
      | Inr m \<Rightarrow>
          (case im_addr m of
             None \<Rightarrow> ram_finish en 0 (- EIO) c
           | Some a \<Rightarrow>
               let p = a + (ki_pos iocb - im_offset m); s = ram_base p; d = c_dev c in
               if p = int s * 2 ^ SECTOR_SHIFT + int (length (d s)) \<and>
                  int (length (d s)) + int (length buf) \<le> ram_cap s
               then ram_finish en (int (length buf)) 0 (c\<lparr>c_dev := d(s := d s @ buf)\<rparr>)
               else ram_finish en 0 (- EIO) c))"

definition ram_dio_read ::
  "ram iomap_begin \<Rightarrow> ram dio_end_io \<Rightarrow> kiocb \<Rightarrow> nat \<Rightarrow> ram zctx \<Rightarrow> (int \<times> bytes) \<times> ram zctx"
where
  "ram_dio_read beg en iocb n c =
     (case beg (ki_pos iocb) (int n) c of
        Inl e \<Rightarrow> (case ram_finish en 0 (- EIO) c of (r, c') \<Rightarrow> ((r, []), c'))
      | Inr m \<Rightarrow>
          (case im_addr m of
             None \<Rightarrow> ((0, []), c)
           | Some a \<Rightarrow>
               let p = a + (ki_pos iocb - im_offset m); s = ram_base p;
                   got = take n (drop (nat p - s * 2 ^ SECTOR_SHIFT) (c_dev c s))
               in (case ram_finish en (int (length got)) 0 c of (r, c') \<Rightarrow> ((r, got), c'))))"

definition ram_lib :: "ram iomap_lib" where
  "ram_lib = \<lparr>io_dio_write = ram_dio_write, io_dio_read = ram_dio_read,
     io_buffered_write = (\<lambda>beg iocb buf c. (- EIO, c)), io_write_sync = (\<lambda>iocb r c. (r, c)),
     io_file_read = (\<lambda>iocb n c. ((0, []), c)), io_splice_read = (\<lambda>pos n c. ((0, []), c)),
     io_write_and_wait = (\<lambda>a b c. (0, c)), io_page_mkwrite = (\<lambda>beg c. (0, c)),
     io_swapfile_activate = (\<lambda>beg c. (0, c)), io_generic_open = (\<lambda>l c. 0)\<rparr>"

lemma ram_finish_completes:
  "0 \<le> sz \<Longrightarrow> sz \<le> int (length buf) \<Longrightarrow> err \<le> 0 \<Longrightarrow> err \<noteq> - EIOCBQUEUED \<Longrightarrow>
   (err = 0 \<Longrightarrow> buf \<noteq> [] \<Longrightarrow> 0 < sz) \<Longrightarrow> dio_completes en buf c (ram_finish en sz err (c\<lparr>c_dev := d\<rparr>))"
  unfolding dio_completes_def ram_finish_def
  by (rule disjI2, rule exI [of _ d], rule exI [of _ sz], rule exI [of _ err],
      rule exI [of _ "fst (en sz err (c\<lparr>c_dev := d\<rparr>))"]) (simp split: prod.split)

lemma ram_finish_completes_self:
  "dio_completes en buf c (ram_finish en 0 (- EIO) c)"
  using ram_finish_completes [of 0 buf "- EIO" en c "c_dev c"] by (simp add: const_simps)

interpretation ram: zone_io ram_blk ram_lib ram_cap
proof
  fix iocb :: kiocb and en buf c beg
  show "dio_completes en buf c (io_dio_write ram_lib beg en iocb buf c)"
    by (auto simp: ram_lib_def ram_dio_write_def Let_def ram_finish_completes_self EIOCBQUEUED_def
        intro!: ram_finish_completes split: sum.split option.split)
next
  fix beg en iocb n and c :: "ram zctx"
  have fin: "\<exists>d sz err e. en sz err (c\<lparr>c_dev := d\<rparr>) = (e, x)" if "ram_finish en sz' err' c = (r, x)"
    for sz' err' r x
    using that by - (rule exI [of _ "c_dev c"], rule exI [of _ sz'], rule exI [of _ err'],
        rule exI [of _ "fst (en sz' err' c)"], simp add: ram_finish_def split: prod.splits)
  have self: "\<exists>d. c = c\<lparr>c_dev := d\<rparr>" by (rule exI [of _ "c_dev c"]) simp
  obtain r x where e1: "ram_finish en 0 (- EIO) c = (r, x)" by (rule prod.exhaust)
  show "(\<exists>d. snd (io_dio_read ram_lib beg en iocb n c) = c\<lparr>c_dev := d\<rparr>) \<or>
      (\<exists>d sz err e. en sz err (c\<lparr>c_dev := d\<rparr>) = (e, snd (io_dio_read ram_lib beg en iocb n c)))"
  proof (cases "beg (ki_pos iocb) (int n) c")
    case (Inl e)
    then show ?thesis using fin [OF e1] by (simp add: ram_lib_def ram_dio_read_def e1)
  next
    case (Inr m)
    show ?thesis
    proof (cases "im_addr m")
      case None
      then show ?thesis using Inr self by (simp add: ram_lib_def ram_dio_read_def)
    next
      case (Some a)
      define q where "q = a + (ki_pos iocb - im_offset m)"
      define got where "got = take n (drop (nat q - ram_base q * 2 ^ SECTOR_SHIFT) (c_dev c (ram_base q)))"
      obtain r2 x2 where e2: "ram_finish en (int (length got)) 0 c = (r2, x2)" by (rule prod.exhaust)
      have "ram_dio_read beg en iocb n c = ((r2, got), x2)"
        unfolding ram_dio_read_def Let_def Inr Some sum.case option.case
        unfolding q_def [symmetric] got_def [symmetric] e2 prod.case ..
      then show ?thesis using fin [OF e2] by (simp add: ram_lib_def)
    qed
  qed
next
  fix iocb n and c :: "ram zctx" and pos
  show "\<exists>d. snd (io_file_read ram_lib iocb n c) = c\<lparr>c_dev := d\<rparr>"
    "\<exists>d. snd (io_splice_read ram_lib pos n c) = c\<lparr>c_dev := d\<rparr>"
    by (rule exI [of _ "c_dev c"], simp add: ram_lib_def)+
next
  fix s d zone
  assume "bd_report_zone ram_blk s d = Some zone"
  then show "wp_in_zone ram_cap s zone" unfolding wp_in_zone_def
    by (auto simp: ram_blk_def ram_cap_def)
qed

section \<open>Properties\<close>

lemma zone_io_step:
  assumes "zone_io B L cap" "zfile_step B L c c'" "zfile_ok cap c"
  shows "zfile_ok cap c' \<and> active_balance c' = active_balance c"
  using assms(2)
proof (cases rule: zfile_step.cases)
  case (step_write iocb "from" r)
  have "zonefs_zone_is_seq (c_zone c)" using assms(3) by (simp add: zfile_ok_def zfile_bounds_def)
  then show ?thesis by (rule zone_io.write_iter_ok [OF assms(1,3) _ step_write])
next
  case (step_read iocb n res)
  then show ?thesis using zone_io.read_iter_ok [OF assms(1,3)] by simp
next
  case (step_truncate n r)
  then show ?thesis using truncate_ok [OF assms(3)] by simp
next
  case (step_open r)
  then show ?thesis using write_open_ok [OF assms(3)] by simp
next
  case step_close
  then show ?thesis using zone_io.write_close_ok [OF assms(1,3)] by simp
qed

text \<open>C10: in every state a sequential zone file reaches through synchronous writes, reads,
  truncations, opens and closes, whatever errors the device reports, the inode size and the
  write pointer offset lie within the zone and agree (unless the file system went read-only), the
  ACTIVE flag says whether the zone is open or partly written, and the count of active zones has
  changed exactly with that flag.\<close>

theorem zfile_invariant:
  assumes "zone_io B L cap" and "(zfile_step B L)\<^sup>*\<^sup>* c c'" and "zfile_ok cap c"
  shows "zfile_ok cap c' \<and> active_balance c' = active_balance c"
  using assms(2)
proof (induction rule: rtranclp_induct)
  case base
  then show ?case using assms(3) by simp
next
  case (step d e)
  then show ?case using zone_io_step [OF assms(1) step.hyps(2)] by simp
qed

lemma not_misaligned:
  "\<not> misaligned pos n c \<longleftrightarrow> c_blocksize c dvd pos \<and> c_blocksize c dvd n"
proof -
  have "(pos OR n) AND (c_blocksize c - 1) = take_bit (c_blkbits c) pos OR take_bit (c_blkbits c) n"
    unfolding c_blocksize_def by (simp flip: take_bit_or add: take_bit_eq_mask mask_eq_exp_minus_1 bit.conj_disj_distrib2)
  then show ?thesis
    by (simp add: misaligned_def or_eq_0_iff take_bit_eq_0_iff c_blocksize_def)
qed

text \<open>C12: a direct write to a sequential zone changes nothing unless it starts exactly at the
  write pointer (an append is moved there), covers whole blocks and ends within the zone's
  capacity; the data it issues is a non-empty prefix of the caller's.\<close>

theorem dio_write_only_at_write_pointer:
  assumes "zonefs_zone_is_seq (c_zone c)"
    and "zonefs_file_dio_write B L iocb from c = ((r, iocb', from'), c')" and "c' \<noteq> c"
  shows "ki_pos iocb' = z_wpoffset (c_zone c) \<and> (ki_append iocb \<or> ki_pos iocb = z_wpoffset (c_zone c)) \<and>
    from' \<noteq> [] \<and> from' = take (length from') from \<and>
    c_blocksize c dvd ki_pos iocb' \<and> c_blocksize c dvd int (length from') \<and>
    ki_pos iocb' + int (length from') \<le> z_capacity (c_zone c)"
  using assms(1,2)
proof (cases rule: dio_write_cases)
  case refused
  then show ?thesis using assms(3) by simp
next
  case (issued n ret c2)
  then show ?thesis using write_checks_pos [OF issued(1,2)] by (auto simp: not_misaligned split: if_splits)
qed

lemma resized_fields [simp]:
  "i_size (c_inode (resized n c)) = n" "z_wpoffset (c_zone (resized n c)) = n" "c_dev (resized n c) = c_dev c"
  "zone_has ZONE_FLAG_OPEN (c_zone (resized n c)) \<longleftrightarrow> zone_has ZONE_FLAG_OPEN (c_zone c)"
  by (simp_all add: resized_def account_active_eq account_more_def set_isize_def zone_flag_simps)

text \<open>A zone management command on the whole zone of the file, as the device gets it.\<close>

definition zone_command :: "'d blkdev \<Rightarrow> req_op \<Rightarrow> 'd zctx \<Rightarrow> 'd \<Rightarrow> int \<times> 'd" where
  "zone_command B op c d =
     bd_zone_mgmt B op (z_sector (c_zone c)) (nat (z_size (c_zone c)) div 2 ^ SECTOR_SHIFT) d"

lemma zone_mgmt_command:
  assumes "op \<noteq> ZONE_CLOSE"
  shows "zonefs_zone_mgmt B op c = (fst (zone_command B op c (c_dev c)), c\<lparr>c_dev := snd (zone_command B op c (c_dev c))\<rparr>)"
  using assms by (simp add: zonefs_zone_mgmt_def zone_command_def case_prod_beta)

text \<open>C29: truncation of a zone file is a zone reset or a zone finish. A conventional zone and any size
  but 0 and the capacity are refused with \<open>-EPERM\<close>, and the current size is left alone, without a
  command to the device. Otherwise the device gets the reset command for size 0 and the finish command
  for the capacity, on the file's zone; an error of the device is returned and leaves the file as it is.
  When the command succeeds, size and write pointer offset are the requested size; a zone that was
  explicitly open gets the open command after a reset and keeps its flag, and loses it by a finish.\<close>

theorem truncate_only_resets_or_finishes:
  assumes "zonefs_file_truncate B n c = (r, c')"
  shows "if \<not> zonefs_zone_is_seq (c_zone c) \<or> n \<noteq> 0 \<and> n \<noteq> z_capacity (c_zone c) then r = - EPERM \<and> c' = c
    else if n = i_size (c_inode c) then r = 0 \<and> c' = c
    else (case zone_command B (if n = 0 then ZONE_RESET else ZONE_FINISH) c (c_dev c) of
      (e, d) \<Rightarrow>
        if e \<noteq> 0 then r = e \<and> c' = c\<lparr>c_dev := d\<rparr>
        else i_size (c_inode c') = n \<and> z_wpoffset (c_zone c') = n \<and>
          (zone_has ZONE_FLAG_OPEN (c_zone c') \<longleftrightarrow> zone_has ZONE_FLAG_OPEN (c_zone c) \<and> n = 0) \<and>
          (r, c_dev c') = (if zone_has ZONE_FLAG_OPEN (c_zone c) \<and> n = 0 then zone_command B ZONE_OPEN c d else (0, d)))"
proof (cases "zonefs_zone_is_seq (c_zone c) \<and> (n = 0 \<or> n = z_capacity (c_zone c)) \<and> n \<noteq> i_size (c_inode c)")
  case False
  then show ?thesis using assms by (auto simp: zonefs_file_truncate_def Let_def split: if_splits)
next
  case True
  obtain e d where ed: "zone_command B (if n = 0 then ZONE_RESET else ZONE_FINISH) c (c_dev c) = (e, d)" by (rule prod.exhaust)
  have o: "zone_command B ZONE_OPEN (c\<lparr>c_dev := d\<rparr>) d = zone_command B ZONE_OPEN c d" by (simp add: zone_command_def)
  have m: "zonefs_zone_mgmt B (if n = 0 then ZONE_RESET else ZONE_FINISH) c = (e, c\<lparr>c_dev := d\<rparr>)"
    using zone_mgmt_command [of "if n = 0 then ZONE_RESET else ZONE_FINISH" B c] ed by simp
  have cl: "\<not> zone_has ZONE_FLAG_OPEN (zone_clear ZONE_FLAG_OPEN z)" for z by (simp add: zone_flag_simps)
  note run = assms [unfolded zonefs_file_truncate_def Let_def m prod.case resized_def [symmetric]]
  show ?thesis using run True ed o zone_mgmt_command [of ZONE_OPEN B "c\<lparr>c_dev := d\<rparr>"]
    by (auto simp: cl split: if_splits)
qed

subsection \<open>Counting the files open for writing\<close>

lemma io_error_counts:
  "s_wro_seq_files (c_sbi (zonefs_io_error B w c)) = s_wro_seq_files (c_sbi c)"
  "i_wr_refcnt (c_inode (zonefs_io_error B w c)) = i_wr_refcnt (c_inode c)"
proof -
  have ss: "s_wro_seq_files (c_sbi (settle_size n d)) = s_wro_seq_files (c_sbi d)"
      "i_wr_refcnt (c_inode (settle_size n d)) = i_wr_refcnt (c_inode d)" for n and d :: "'a zctx"
    by (simp_all add: settle_size_def account_active_eq account_more_def zonefs_i_size_write_def
        set_isize_def Let_def zonefs_update_stats_def map_zone_def)
  have hb: "i_wr_refcnt (c_inode (snd (handle_bad_zone n k d))) = i_wr_refcnt (c_inode d)"
    for n k and d :: "'a zctx"
    by (simp add: handle_bad_zone_def zonefs_inode_update_mode_def Let_def)
  have h: "s_wro_seq_files (c_sbi (zonefs_handle_io_error zone w c)) = s_wro_seq_files (c_sbi c) \<and>
      i_wr_refcnt (c_inode (zonefs_handle_io_error zone w c)) = i_wr_refcnt (c_inode c)" for zone
  proof -
    obtain k z where kz: "zonefs_check_zone_condition zone (c_zone c) = (k, z)" by (rule prod.exhaust)
    obtain n c1 where b: "handle_bad_zone (i_size (c_inode c)) k (c\<lparr>c_zone := z\<rparr>) = (n, c1)"
      by (rule prod.exhaust)
    show ?thesis
      using hb [of "i_size (c_inode c)" k "c\<lparr>c_zone := z\<rparr>"]
        handle_bad_zone_frame(2) [of "i_size (c_inode c)" k "c\<lparr>c_zone := z\<rparr>"]
      by (simp add: handle_io_error_steps kz b ss)
  qed
  then show "s_wro_seq_files (c_sbi (zonefs_io_error B w c)) = s_wro_seq_files (c_sbi c)"
    "i_wr_refcnt (c_inode (zonefs_io_error B w c)) = i_wr_refcnt (c_inode c)"
    by (auto simp: zonefs_io_error_def Let_def split: option.split)
qed

lemma account_active_wro [simp]:
  "s_wro_seq_files (c_sbi (zonefs_account_active c)) = s_wro_seq_files (c_sbi c)"
  by (simp add: account_active_eq account_more_def)

text \<open>C30: opening a file for writing counts it exactly once: the count of files open for writing
  grows only when the first writer succeeds, a failed open leaves both the file's reference count
  and the global count as they were, and with \<open>explicit-open\<close> a successful first open never
  takes the global count above the device's limit.\<close>

theorem write_open_counts_once:
  assumes "zonefs_seq_file_write_open B c = (r, c')" and "i_wr_refcnt (c_inode c) + 1 \<noteq> 0"
  shows "wro_balance c' = wro_balance c \<and>
    i_wr_refcnt (c_inode c') = i_wr_refcnt (c_inode c) + (if r = 0 then 1 else 0) \<and>
    (r = 0 \<longrightarrow> i_wr_refcnt (c_inode c) = 0 \<longrightarrow> sbi_has MNTOPT_EXPLICIT_OPEN c \<longrightarrow>
       s_max_wro_seq_files (c_sbi c) \<noteq> 0 \<longrightarrow>
       s_wro_seq_files (c_sbi c') \<le> int (unat (s_max_wro_seq_files (c_sbi c))))"
proof -
  have lim: "s_wro_seq_files (c_sbi c') \<le> int (unat (s_max_wro_seq_files (c_sbi c)))"
    if "r = 0" "i_wr_refcnt (c_inode c) = 0" "sbi_has MNTOPT_EXPLICIT_OPEN c" "s_max_wro_seq_files (c_sbi c) \<noteq> 0"
  proof (rule ccontr)
    assume n: "\<not> ?thesis"
    have x: "sbi_has MNTOPT_EXPLICIT_OPEN (account_wro 1 c)" using that(3) by (simp add: sbi_has_def)
    have u: "int (unat (s_max_wro_seq_files (c_sbi c))) \<noteq> 0" using that(4) by (simp add: uint_0_iff)
    from assms(1) that(1,2) have "s_wro_seq_files (c_sbi c') = s_wro_seq_files (c_sbi c) + 1"
      by (cases rule: write_open_run) (simp_all add: get_ref_def)
    then show False using n assms(1) that(1,2) x u
      by (simp add: zonefs_seq_file_write_open_def Let_def EBUSY_def)
  qed
  from assms(1) show ?thesis
    by (cases rule: write_open_run) (use lim assms(2) in \<open>simp_all add: wro_balance_def get_ref_def\<close>)
qed

text \<open>C31: closing a file gives its reference back and, with the last one, its place in the count
  of files open for writing, except when the zone is explicitly open and the device refuses to
  close it: then the place in the count is never given back, although no writer is left.\<close>

theorem failed_close_leaks_open_count:
  assumes "i_wr_refcnt (c_inode c) \<noteq> 0"
  shows "i_wr_refcnt (c_inode (zonefs_seq_file_write_close B c)) = i_wr_refcnt (c_inode c) - 1 \<and>
    wro_balance (zonefs_seq_file_write_close B c) = wro_balance c +
      of_bool (i_wr_refcnt (c_inode c) = 1 \<and> zone_has ZONE_FLAG_OPEN (c_zone c) \<and>
        fst (zonefs_zone_mgmt B ZONE_CLOSE (put_ref c)) \<noteq> 0)"
proof -
  obtain r d where m: "zonefs_zone_mgmt B ZONE_CLOSE (put_ref c) = (r, (put_ref c)\<lparr>c_dev := d\<rparr>)"
    using zone_mgmt_frame by (metis prod.exhaust)
  have pr: "i_wr_refcnt (c_inode (put_ref c)) = i_wr_refcnt (c_inode c) - 1" "c_sbi (put_ref c) = c_sbi c"
      "c_zone (put_ref c) = c_zone c"
    by (simp_all add: put_ref_def)
  have one: "i_wr_refcnt (c_inode c) - 1 = 0 \<longleftrightarrow> i_wr_refcnt (c_inode c) = 1" by simp
  show ?thesis using assms
    by (auto simp: zonefs_seq_file_write_close_def Let_def m pr one wro_balance_def io_error_counts)
qed

section \<open>Concrete runs\<close>

definition demo_ram :: ram where
  "demo_ram = (\<lambda>s. if s = 524288 then replicate 8192 0 else [])"

definition demo_iocb :: kiocb where
  "demo_iocb = \<lparr>ki_pos = 8192, ki_direct = True, ki_nowait = False, ki_append = False, ki_sync = True,
     ki_largefile = True, ki_rlimit = None, ki_lock_free = True\<rparr>"

lemma demo_sel:
  "c_zone (demo_ctx d) = demo_zone" "c_dev (demo_ctx d) = d" "i_size (c_inode (demo_ctx d)) = 8192"
  "c_blkbits (demo_ctx d) = 12" "ki_pos demo_iocb = 8192" "ki_sync demo_iocb"
  by (simp_all add: demo_ctx_def demo_iocb_def)

lemma demo_ok: "zfile_ok ram_cap (demo_ctx d)"
  using demo_flags
  by (simp add: zfile_ok_def zfile_bounds_def zfile_flags_def demo_ctx_def zonefs_zone_is_seq_def
      zonefs_zone_is_cnv_def zone_is_active_def)
    (simp add: demo_zone_def ram_cap_def ram_zone_sectors_def SECTOR_SHIFT_def)

theorem zfile_invariant_witness:
  "zfile_ok ram_cap (snd (zonefs_file_write_iter ram_blk ram_lib demo_iocb (replicate 4096 0) (demo_ctx demo_ram)))"
proof -
  let ?c = "demo_ctx demo_ram :: ram zctx"
  obtain r c' where run: "zonefs_file_write_iter ram_blk ram_lib demo_iocb (replicate 4096 0) ?c = (r, c')"
    by (rule prod.exhaust)
  have "zfile_step ram_blk ram_lib ?c c'"
    using run by (rule step_write [rotated]) (simp add: demo_iocb_def)
  then have "(zfile_step ram_blk ram_lib)\<^sup>*\<^sup>* ?c c'" by (rule r_into_rtranclp)
  then show ?thesis using zfile_invariant [OF ram.zone_io_axioms _ demo_ok] run by simp
qed

theorem truncate_only_resets_or_finishes_witness:
  "\<exists>c'. zonefs_file_truncate ram_blk 0 (demo_ctx demo_ram) = (0, c') \<and> i_size (c_inode c') = 0 \<and>
     c_dev c' = demo_ram(524288 := []) \<and> demo_ram 524288 \<noteq> []"
proof -
  let ?c = "demo_ctx demo_ram :: ram zctx"
  obtain r c' where run: "zonefs_file_truncate ram_blk 0 ?c = (r, c')" by (rule prod.exhaust)
  have seq: "zonefs_zone_is_seq (c_zone ?c)" "\<not> zone_has ZONE_FLAG_OPEN (c_zone ?c)"
    using demo_flags by (simp_all add: demo_ctx_def zonefs_zone_is_seq_def zonefs_zone_is_cnv_def)
  have cmd: "zone_command ram_blk ZONE_RESET ?c (c_dev ?c) = (0, demo_ram(524288 := []))" and sz: "i_size (c_inode ?c) \<noteq> 0"
    and d: "demo_ram 524288 \<noteq> []"
    by (simp_all add: zone_command_def ram_blk_def demo_ctx_def demo_zone_def demo_ram_def)
  show ?thesis using truncate_only_resets_or_finishes [OF run] run seq cmd sz d by simp
qed

theorem write_open_counts_once_witness:
  "wro_balance (snd (zonefs_seq_file_write_open ram_blk (demo_ctx demo_ram))) = 0"
proof -
  let ?c = "demo_ctx demo_ram :: ram zctx"
  have "wro_balance ?c = 0" "i_wr_refcnt (c_inode ?c) + 1 \<noteq> 0"
    by (simp_all add: wro_balance_def demo_ctx_def demo_sbi_def)
  then show ?thesis
    using write_open_counts_once [of ram_blk ?c "fst (zonefs_seq_file_write_open ram_blk ?c)"
        "snd (zonefs_seq_file_write_open ram_blk ?c)"] by simp
qed

text \<open>A device that refuses every zone management command.\<close>

definition stuck_blk :: "ram blkdev" where
  "stuck_blk = ram_blk\<lparr>bd_zone_mgmt := (\<lambda>op s n d. (- EIO, d))\<rparr>"

theorem failed_close_leaks_open_count_witness:
  "wro_balance (zonefs_seq_file_write_close stuck_blk
     (account_wro 1 (get_ref (map_zone (zone_set ZONE_FLAG_OPEN) (demo_ctx demo_ram))))) = 1"
proof -
  let ?c = "account_wro 1 (get_ref (map_zone (zone_set ZONE_FLAG_OPEN) (demo_ctx demo_ram))) :: ram zctx"
  have "i_wr_refcnt (c_inode ?c) = 1" "wro_balance ?c = 0" "zone_has ZONE_FLAG_OPEN (c_zone ?c)"
      "fst (zonefs_zone_mgmt stuck_blk ZONE_CLOSE (put_ref ?c)) \<noteq> 0"
    by (simp_all add: wro_balance_def demo_ctx_def demo_sbi_def get_ref_def zone_flag_simps
        zonefs_zone_mgmt_def stuck_blk_def EIO_def)
  then show ?thesis using failed_close_leaks_open_count [of ?c stuck_blk] by simp
qed

theorem dio_write_only_at_write_pointer_witness:
  "\<exists>c'. zonefs_file_dio_write ram_blk ram_lib demo_iocb (replicate 4096 0) (demo_ctx demo_ram) =
     ((4096, demo_iocb, replicate 4096 0), c') \<and> c_dev c' 524288 = replicate 12288 0 \<and>
     ki_pos demo_iocb = z_wpoffset demo_zone"
proof -
  let ?c = "demo_ctx demo_ram :: ram zctx" and ?b = "replicate 4096 (0 :: u8)"
  have seq: "zonefs_zone_is_seq demo_zone"
    using demo_flags by (simp add: zonefs_zone_is_seq_def zonefs_zone_is_cnv_def)
  have w: "zonefs_write_checks demo_iocb ?b ?c = (4096, demo_iocb, ?b)"
    by (simp add: zonefs_write_checks_def demo_ctx_def demo_iocb_def zonefs_write_check_limits_def
        Let_def demo_zone_def)
  let ?c1 = "advance_wpoffset 4096 ?c"
  let ?d = "demo_ram(524288 := replicate 8192 0 @ ?b)"
  define c2 where "c2 = zonefs_i_size_write 12288 (zonefs_update_stats 12288 (?c1\<lparr>c_dev := ?d\<rparr>))"
  have beg: "zonefs_write_iomap_begin True 8192 4096 ?c1 =
      Inr \<lparr>im_type = IOMAP_UNWRITTEN, im_offset = 8192, im_addr = Some (524288 * 512 + 8192),
           im_length = 268435456 - 8192\<rparr>"
    using seq by (simp add: zonefs_write_iomap_begin_def demo_ctx_def demo_zone_def Let_def ALIGN_DOWN_def
        c_blocksize_def zone_addr_def SECTOR_SHIFT_def)
  have base: "ram_base (524288 * 512 + 8192) = 524288"
    by (simp add: ram_base_def ram_zone_sectors_def SECTOR_SHIFT_def)
  have io: "io_dio_write ram_lib (zonefs_write_iomap_begin True) (zonefs_file_write_dio_end_io ram_blk demo_iocb)
      demo_iocb ?b ?c1 = (4096, c2)"
    using seq base
    by (simp add: ram_lib_def ram_dio_write_def demo_sel beg Let_def ram_finish_def
        zonefs_file_write_dio_end_io_def c2_def SECTOR_SHIFT_def ram_cap_def ram_zone_sectors_def)
      (simp add: demo_ram_def)
  have s2: "zonefs_zone_is_seq (c_zone c2)" using seq by (simp add: c2_def demo_ctx_def)
  have nm: "\<not> misaligned 8192 4096 ?c"
    by (simp add: not_misaligned c_blocksize_def demo_ctx_def)
  have "zonefs_file_dio_write ram_blk ram_lib demo_iocb ?b ?c = ((4096, demo_iocb, ?b), c2)"
    using seq s2 io nm unfolding zonefs_file_dio_write_def w prod.case advance_wpoffset_def [symmetric]
    by (simp add: demo_ctx_def demo_iocb_def demo_zone_def const_simps)
  moreover have "c_dev c2 524288 = replicate 12288 0"
    by (simp add: c2_def replicate_add [symmetric])
  moreover have "c2 \<noteq> ?c"
  proof
    assume "c2 = ?c"
    then have "i_size (c_inode c2) = i_size (c_inode ?c)" by simp
    then show False by (simp add: c2_def demo_ctx_def)
  qed
  ultimately show ?thesis
    using dio_write_only_at_write_pointer [of ?c ram_blk ram_lib demo_iocb ?b 4096 demo_iocb ?b c2] seq
    by (auto simp: demo_ctx_def)
qed

end
