(* ===== verification/Zonefs_Dir.thy ===== *)
theory Zonefs_Dir
  imports Zonefs_File
begin

text \<open>
  The directory side of \<open>super.c\<close>: file names and numbers, lookup, reading directories,
  \<open>statfs\<close>, the mount options and attribute changes.
\<close>

section \<open>File names\<close>

text \<open>
  The number is a \<open>long\<close> and the sum and the power of ten wrap around; the kernel is compiled without
  undefined overflow. Names have at most \<open>ZONEFS_NAME_MAX\<close> characters when \<open>zonefs_lookup\<close> calls
  \<open>zonefs_fname_to_fno\<close>, and for these the arithmetic is exact.
\<close>

definition isdigit :: "char \<Rightarrow> bool" where
  "isdigit c \<longleftrightarrow> 48 \<le> (of_char c :: nat) \<and> (of_char c :: nat) \<le> 57"

definition digit_val :: "char \<Rightarrow> int" where
  "digit_val c = int (of_char c) - 48"

text \<open>The loop from the last character to the first.\<close>

fun fno_loop :: "string \<Rightarrow> u64 \<Rightarrow> u64 \<Rightarrow> u64" where
  "fno_loop [] fno shift = fno"
| "fno_loop (c # cs) fno shift =
     (if \<not> isdigit c then of_int (- ENOENT)
      else fno_loop cs (fno + of_int (digit_val c) * shift) (shift * 10))"

definition zonefs_fname_to_fno :: "string \<Rightarrow> int" where
  "zonefs_fname_to_fno name =
     (case name of
        [] \<Rightarrow> - ENOENT
      | c # _ \<Rightarrow>
          if \<not> isdigit c then - ENOENT
          else if 1 < length name \<and> c = CHR ''0'' then - ENOENT
          else if length name = 1 then digit_val c
          else sint (fno_loop (rev name) 0 1))"

subsection \<open>Names and numbers\<close>

text \<open>The value of a string of digits, least significant first.\<close>

primrec digits_value :: "string \<Rightarrow> nat" where
  "digits_value [] = 0"
| "digits_value (c # cs) = nat (digit_val c) + 10 * digits_value cs"

lemma digit_val_nonneg: "isdigit c \<Longrightarrow> 0 \<le> digit_val c"
  by (simp add: isdigit_def digit_val_def)

lemma fno_loop_digits:
  "fno_loop cs f s = (if list_all isdigit cs then f + s * of_nat (digits_value cs) else of_int (- ENOENT))"
  by (induction cs f s rule: fno_loop.induct) (auto simp: algebra_simps digit_val_nonneg)

lemma digits_value_less:
  assumes "list_all isdigit cs"
  shows "digits_value cs < 10 ^ length cs"
  using assms
proof (induction cs)
  case (Cons c cs)
  have "digit_val c \<le> 9" using Cons.prems by (simp add: isdigit_def digit_val_def)
  then have "nat (digit_val c) \<le> 9" by simp
  then show ?case using Cons by simp
qed simp

lemma fno_loop_exact:
  assumes "length cs \<le> ZONEFS_NAME_MAX"
  shows "sint (fno_loop cs 0 1) = (if list_all isdigit cs then int (digits_value cs) else - ENOENT)"
proof (cases "list_all isdigit cs")
  case True
  have "digits_value cs < 10 ^ length cs" by (rule digits_value_less [OF True])
  also have "\<dots> \<le> (10 :: nat) ^ 16" using assms by (intro power_increasing) (simp_all add: ZONEFS_NAME_MAX_def)
  finally have "digits_value cs < 10 ^ 16" .
  then have "int (digits_value cs) < 2 ^ 63" by simp
  then show ?thesis using True by (simp add: fno_loop_digits signed_of_nat signed_take_bit_int_eq_self)
next
  case False
  then show ?thesis by (auto simp: fno_loop_digits ENOENT_def)
qed

lemma dec_digit_props:
  assumes "d < 10"
  shows "isdigit (dec_digit d)" "digit_val (dec_digit d) = int d" "dec_digit d = CHR ''0'' \<longleftrightarrow> d = 0"
proof -
  have v: "(of_char (dec_digit d) :: nat) = 48 + d" using assms by (simp add: dec_digit_def)
  then show "isdigit (dec_digit d)" "digit_val (dec_digit d) = int d"
    using assms by (simp_all add: isdigit_def digit_val_def)
  have "dec_digit d = CHR ''0'' \<longleftrightarrow> (of_char (dec_digit d) :: nat) = of_char (CHR ''0'')"
    by (simp only: of_char_eq_iff)
  then show "dec_digit d = CHR ''0'' \<longleftrightarrow> d = 0" using v by simp
qed

lemma dec_digit_of_char:
  assumes "isdigit c"
  shows "dec_digit (nat (digit_val c)) = c" "nat (digit_val c) < 10"
proof -
  have "48 + nat (digit_val c) = (of_char c :: nat)" using assms
    unfolding isdigit_def digit_val_def by linarith
  then show "dec_digit (nat (digit_val c)) = c" by (simp add: dec_digit_def)
  show "nat (digit_val c) < 10" using assms unfolding isdigit_def digit_val_def by linarith
qed

lemma dec_string_digits:
  "list_all isdigit (dec_string n) \<and> digits_value (rev (dec_string n)) = n \<and>
   (10 \<le> n \<longrightarrow> 1 < length (dec_string n)) \<and> (n < 10 \<longrightarrow> length (dec_string n) = 1) \<and>
   (0 < n \<longrightarrow> hd (dec_string n) \<noteq> CHR ''0'')"
proof (induction n rule: dec_string.induct)
  case (1 n)
  show ?case
  proof (cases "n < 10")
    case True
    then show ?thesis by (simp add: dec_string_small dec_digit_props)
  next
    case False
    define m where "m = n div 10"
    have n: "n = 10 * m + n mod 10" "0 < m" using False by (simp_all add: m_def)
    have s: "dec_string n = dec_string m @ [dec_digit (n mod 10)]"
      unfolding m_def by (rule dec_string_large) (use False in simp)
    have d: "n mod 10 < 10" by simp
    note IH = 1 [OF False, folded m_def]
    have "digits_value (rev (dec_string n)) = n"
      using IH n(1) dec_digit_props(2) [OF d] by (simp add: s)
    moreover have "list_all isdigit (dec_string n)" "hd (dec_string n) \<noteq> CHR ''0''"
      "1 < length (dec_string n)"
      using IH n(2) dec_digit_props(1) [OF d] by (simp_all add: s)
    ultimately show ?thesis using False by simp
  qed
qed

lemma digits_dec_string:
  assumes "list_all isdigit cs" "cs \<noteq> []" "1 < length cs \<longrightarrow> hd cs \<noteq> CHR ''0''"
  shows "dec_string (digits_value (rev cs)) = cs \<and> (hd cs \<noteq> CHR ''0'' \<longrightarrow> 0 < digits_value (rev cs))"
  using assms
proof (induction cs rule: rev_induct)
  case Nil
  then show ?case by simp
next
  case (snoc c cs)
  have c: "isdigit c" using snoc.prems by simp
  note d = dec_digit_of_char [OF c]
  show ?case
  proof (cases "cs = []")
    case True
    have "0 < digit_val c" if "c \<noteq> CHR ''0''"
    proof (rule ccontr)
      assume "\<not> ?thesis"
      then have "dec_digit 0 = c" using d(1) by simp
      then show False using dec_digit_props(3) [of 0] that by simp
    qed
    then show ?thesis using True d by (auto simp: dec_string_small)
  next
    case False
    then have h: "hd cs \<noteq> CHR ''0''" using snoc.prems by simp
    then have IH: "dec_string (digits_value (rev cs)) = cs" "0 < digits_value (rev cs)"
      using snoc False by auto
    have v: "digits_value (rev (cs @ [c])) = nat (digit_val c) + 10 * digits_value (rev cs)" by simp
    have "10 \<le> digits_value (rev (cs @ [c]))" unfolding v using IH(2) by simp
    moreover have "digits_value (rev (cs @ [c])) div 10 = digits_value (rev cs)"
      "digits_value (rev (cs @ [c])) mod 10 = nat (digit_val c)"
      unfolding v using d(2) by simp_all
    ultimately show ?thesis using dec_string_large IH d(1) by (metis zero_less_numeral less_le_trans)
  qed
qed

lemma length_dec_string: "0 < k \<Longrightarrow> n < 10 ^ k \<Longrightarrow> length (dec_string n) \<le> k"
proof (induction k arbitrary: n)
  case (Suc k)
  show ?case
  proof (cases "n < 10")
    case False
    then have "k \<noteq> 0" using Suc.prems(2) by (cases k) auto
    moreover have "n div 10 < 10 ^ k" using Suc.prems(2) by (simp add: less_mult_imp_div_less mult.commute)
    ultimately have "length (dec_string (n div 10)) \<le> k" using Suc.IH by simp
    then show ?thesis using False by (simp add: dec_string_large)
  qed (simp add: dec_string_small)
qed simp

lemma fname_to_fno_dec_string:
  assumes "length (dec_string n) \<le> ZONEFS_NAME_MAX"
  shows "zonefs_fname_to_fno (dec_string n) = int n"
proof -
  note p = dec_string_digits [of n]
  obtain c cs where e: "dec_string n = c # cs" by (cases "dec_string n") simp_all
  show ?thesis
  proof (cases "n < 10")
    case True
    then have "dec_string n = [dec_digit n]" by (rule dec_string_small)
    then show ?thesis using dec_digit_props [OF True] by (simp add: zonefs_fname_to_fno_def)
  next
    case False
    then have "1 < length (dec_string n)" "c \<noteq> CHR ''0''" "isdigit c" using p e by auto
    moreover have "sint (fno_loop (rev (dec_string n)) 0 1) = int n" using p assms by (simp add: fno_loop_exact)
    ultimately show ?thesis by (simp add: zonefs_fname_to_fno_def e)
  qed
qed

lemma fname_to_fno_eq:
  assumes "length name \<le> ZONEFS_NAME_MAX" "zonefs_fname_to_fno name = int k"
  shows "name = dec_string k"
proof (cases name)
  case Nil
  then show ?thesis using assms(2) by (simp add: zonefs_fname_to_fno_def ENOENT_def)
next
  case (Cons c cs)
  have pre: "isdigit c" "1 < length name \<longrightarrow> c \<noteq> CHR ''0''"
    using assms(2) Cons by (auto simp: zonefs_fname_to_fno_def ENOENT_def split: if_splits)
  have "list_all isdigit name \<and> digits_value (rev name) = k"
  proof (cases "length name = 1")
    case True
    then have "name = [c]" using Cons by simp
    then show ?thesis using assms(2) pre by (simp add: zonefs_fname_to_fno_def)
  next
    case False
    then have "sint (fno_loop (rev name) 0 1) = int k" using assms(2) pre Cons
      by (auto simp: zonefs_fname_to_fno_def split: if_splits)
    then show ?thesis using fno_loop_exact [of "rev name"] assms(1) by (auto simp: ENOENT_def split: if_splits)
  qed
  then show ?thesis using digits_dec_string [of name] Cons pre by simp
qed

lemma fname_to_fno_error:
  assumes "length name \<le> ZONEFS_NAME_MAX"
  shows "0 \<le> zonefs_fname_to_fno name \<or> zonefs_fname_to_fno name = - ENOENT"
  using fno_loop_exact [of "rev name"] assms
  by (cases name) (auto simp: zonefs_fname_to_fno_def digit_val_nonneg split: if_splits)

text \<open>Without the check of the length in \<open>zonefs_lookup\<close> long names would alias short ones.\<close>

lemma long_name_wraps: "zonefs_fname_to_fno ''18446744073709551623'' = 7"
  by (simp add: zonefs_fname_to_fno_def isdigit_def digit_val_def)

text \<open>C32: file names of the length that \<open>zonefs_lookup\<close> admits and file numbers correspond one to one:
  the decimal name that reading the directory produces for a number of up to 16 digits is parsed back
  to it, and any name of at most 16 characters that is accepted with number \<open>k\<close> is that decimal name;
  everything else, leading zeros included, is \<open>-ENOENT\<close>. The arithmetic is that of \<open>long\<close>.\<close>

theorem fname_fno_roundtrip:
  assumes "n < 10 ^ ZONEFS_NAME_MAX" "length name \<le> ZONEFS_NAME_MAX"
  shows "zonefs_fname_to_fno (dec_string n) = int n \<and>
    (\<forall>k. zonefs_fname_to_fno name = int k \<longleftrightarrow> name = dec_string k) \<and>
    (0 \<le> zonefs_fname_to_fno name \<or> zonefs_fname_to_fno name = - ENOENT)"
proof -
  have "length (dec_string n) \<le> ZONEFS_NAME_MAX" using assms(1) by (intro length_dec_string) (simp_all add: ZONEFS_NAME_MAX_def)
  then show ?thesis
    using assms(2) fname_to_fno_dec_string fname_to_fno_eq [OF assms(2)] fname_to_fno_error [OF assms(2)] by blast
qed

theorem fname_fno_roundtrip_witness:
  "zonefs_fname_to_fno ''9999999999999999'' = 9999999999999999 \<and> dec_string 9999999999999999 = ''9999999999999999'' \<and>
   zonefs_fname_to_fno ''010'' = - ENOENT"
proof -
  have e: "zonefs_fname_to_fno ''9999999999999999'' = 9999999999999999" "zonefs_fname_to_fno ''010'' = - ENOENT"
    by (simp_all add: zonefs_fname_to_fno_def isdigit_def digit_val_def)
  have "(9999999999999999 :: nat) < 10 ^ ZONEFS_NAME_MAX" "length ''9999999999999999'' \<le> ZONEFS_NAME_MAX"
    by (simp_all add: ZONEFS_NAME_MAX_def)
  from fname_fno_roundtrip [OF this] have "''9999999999999999'' = dec_string 9999999999999999" using e(1) by auto
  then show ?thesis using e by simp
qed

section \<open>Lookup\<close>

text \<open>
  The state of the mounted zonefs: the zones of each group, the inodes in the inode cache (by
  inode number), the super block information, and the device. \<open>fs_zones_end\<close> is
  \<open>bdev_nr_zones\<close>.
\<close>

record 'd zonefs_state =
  fs_zones :: "zonefs_ztype \<Rightarrow> zonefs_zone list"
  fs_inodes :: "nat \<Rightarrow> zonefs_inode option"
  fs_sbi :: zonefs_sb_info
  fs_rdonly :: bool
  fs_blkbits :: nat
  fs_nr_zones :: nat
  fs_dev :: 'd

definition zonefs_zgroup_name :: "zonefs_ztype \<Rightarrow> string" where
  "zonefs_zgroup_name t = (case t of ZTYPE_CNV \<Rightarrow> ''cnv'' | ZTYPE_SEQ \<Rightarrow> ''seq'')"

text \<open>Looking up a file: the inode number, and the inode set up from its zone when it is new.\<close>

definition new_zone_inode :: "nat \<Rightarrow> zonefs_zone \<Rightarrow> zonefs_inode" where
  "new_zone_inode ino z = \<lparr>i_ino = ino, i_size = z_wpoffset z, i_flags = 0, i_mode = z_mode z,
     i_uid = z_uid z, i_gid = z_gid z, i_wr_refcnt = 0\<rparr>"

definition fs_view :: "zonefs_zone \<Rightarrow> zonefs_inode \<Rightarrow> 'd zonefs_state \<Rightarrow> 'd zctx" where
  "fs_view z i fs = \<lparr>c_zone = z, c_inode = i, c_sbi = fs_sbi fs, c_rdonly = fs_rdonly fs,
     c_blkbits = fs_blkbits fs, c_dev = fs_dev fs\<rparr>"

definition zone_ino :: "zonefs_zone \<Rightarrow> 'd zonefs_state \<Rightarrow> nat" where
  "zone_ino z fs = drop_bit (s_zone_sectors_shift (fs_sbi fs)) (z_sector z)"

definition zonefs_get_file_inode ::
  "zonefs_ztype \<Rightarrow> string \<Rightarrow> 'd zonefs_state \<Rightarrow> (int + nat) \<times> 'd zonefs_state"
where
  "zonefs_get_file_inode t name fs =
     (let fno = zonefs_fname_to_fno name in
      if fno < 0 then (Inl fno, fs)
      else if s_nr_zones (fs_sbi fs) t = 0 \<or> int (s_nr_zones (fs_sbi fs) t) \<le> fno then (Inl (- ENOENT), fs)
      else let z = fs_zones fs t ! nat fno; ino = zone_ino z fs in
        case fs_inodes fs ino of
          Some _ \<Rightarrow> (Inr ino, fs)
        | None \<Rightarrow>
            let c = zonefs_inode_update_mode (fs_view z (new_zone_inode ino z) fs)
            in (Inr ino, fs\<lparr>fs_zones := (fs_zones fs)(t := (fs_zones fs t)[nat fno := c_zone c]),
                          fs_inodes := (fs_inodes fs)(ino \<mapsto> c_inode c)\<rparr>))"

definition zgroup_ino :: "zonefs_ztype \<Rightarrow> 'd zonefs_state \<Rightarrow> nat" where
  "zgroup_ino t fs = fs_nr_zones fs + (case t of ZTYPE_CNV \<Rightarrow> 0 | ZTYPE_SEQ \<Rightarrow> 1) + 1"

definition zonefs_get_dir_inode :: "string \<Rightarrow> 'd zonefs_state \<Rightarrow> int + nat" where
  "zonefs_get_dir_inode name fs =
     (if length name \<noteq> 3 then Inl (- ENOENT)
      else if s_nr_zones (fs_sbi fs) ZTYPE_CNV \<noteq> 0 \<and> name = zonefs_zgroup_name ZTYPE_CNV
      then Inr (zgroup_ino ZTYPE_CNV fs)
      else if s_nr_zones (fs_sbi fs) ZTYPE_SEQ \<noteq> 0 \<and> name = zonefs_zgroup_name ZTYPE_SEQ
      then Inr (zgroup_ino ZTYPE_SEQ fs)
      else Inl (- ENOENT))"

text \<open>The directory looked in: the root (\<open>None\<close>) or a zone group.\<close>

definition zonefs_lookup ::
  "zonefs_ztype option \<Rightarrow> string \<Rightarrow> 'd zonefs_state \<Rightarrow> (int + nat) \<times> 'd zonefs_state"
where
  "zonefs_lookup dir name fs =
     (if ZONEFS_NAME_MAX < length name then (Inl (- ENAMETOOLONG), fs)
      else case dir of
        None \<Rightarrow> (zonefs_get_dir_inode name fs, fs)
      | Some t \<Rightarrow> zonefs_get_file_inode t name fs)"

section \<open>Reading directories\<close>

text \<open>
  The caller's \<open>dir_context\<close>: its position, the entries it has taken, and its answer to a new
  entry (\<open>dir_emit\<close> returns it). \<open>emit_dots\<close> is the kernel's \<open>dir_emit_dots\<close>.
\<close>

datatype d_type = DT_DIR | DT_REG | DT_OTHER

type_synonym dir_entry = "string \<times> nat \<times> d_type"

record dir_context =
  ctx_pos :: nat
  ctx_out :: "dir_entry list"

type_synonym actor = "dir_entry list \<Rightarrow> dir_entry \<Rightarrow> bool"

definition dir_emit :: "actor \<Rightarrow> dir_entry \<Rightarrow> dir_context \<Rightarrow> bool \<times> dir_context" where
  "dir_emit act e ctx =
     (if act (ctx_out ctx) e then (True, ctx\<lparr>ctx_out := ctx_out ctx @ [e]\<rparr>) else (False, ctx))"

definition ctx_next :: "dir_context \<Rightarrow> dir_context" where
  "ctx_next ctx = ctx\<lparr>ctx_pos := ctx_pos ctx + 1\<rparr>"

definition zonefs_readdir_root ::
  "actor \<Rightarrow> (dir_context \<Rightarrow> bool \<times> dir_context) \<Rightarrow> nat \<Rightarrow> 'd zonefs_state \<Rightarrow> dir_context \<Rightarrow> dir_context"
where
  "zonefs_readdir_root act dots root_size fs ctx =
     (if root_size \<le> ctx_pos ctx then ctx
      else case dots ctx of
        (False, ctx1) \<Rightarrow> ctx1
      | (True, ctx1) \<Rightarrow>
          let ztype = (if ctx_pos ctx1 = 2 \<and> s_nr_zones (fs_sbi fs) ZTYPE_CNV = 0 then ZTYPE_SEQ else ZTYPE_CNV);
              (ok, ctx2) = (if ctx_pos ctx1 = 2
                then (case dir_emit act (zonefs_zgroup_name ztype, zgroup_ino ztype fs, DT_DIR) ctx1 of
                        (True, c) \<Rightarrow> (True, ctx_next c) | (False, c) \<Rightarrow> (False, c))
                else (True, ctx1))
          in if \<not> ok then ctx2
             else if ctx_pos ctx2 = 3 \<and> ztype \<noteq> ZTYPE_SEQ
             then (case dir_emit act (zonefs_zgroup_name ZTYPE_SEQ, zgroup_ino ZTYPE_SEQ fs, DT_DIR) ctx2 of
                     (True, c) \<Rightarrow> ctx_next c | (False, c) \<Rightarrow> c)
             else ctx2)"

text \<open>The loop over the files of a zone group; a file number has at most ten digits, so the
  name always fits its buffer.\<close>

definition zone_file_entry :: "zonefs_ztype \<Rightarrow> 'd zonefs_state \<Rightarrow> nat \<Rightarrow> dir_entry" where
  "zone_file_entry t fs f = (dec_string f, zone_ino (fs_zones fs t ! f) fs, DT_REG)"

function readdir_files :: "actor \<Rightarrow> zonefs_ztype \<Rightarrow> 'd zonefs_state \<Rightarrow> nat \<Rightarrow> dir_context \<Rightarrow> dir_context" where
  "readdir_files act t fs f ctx =
     (if s_nr_zones (fs_sbi fs) t \<le> f then ctx
      else case dir_emit act (zone_file_entry t fs f) ctx of
        (False, ctx') \<Rightarrow> ctx'
      | (True, ctx') \<Rightarrow> readdir_files act t fs (f + 1) (ctx_next ctx'))"
  by pat_completeness auto
termination by (relation "measure (\<lambda>(act, t, fs, f, ctx). s_nr_zones (fs_sbi fs) t - f)") auto

declare readdir_files.simps [simp del]

definition zonefs_readdir_zgroup ::
  "actor \<Rightarrow> (dir_context \<Rightarrow> bool \<times> dir_context) \<Rightarrow> bool \<Rightarrow> zonefs_ztype \<Rightarrow> nat \<Rightarrow> 'd zonefs_state \<Rightarrow> dir_context \<Rightarrow>
     int \<times> dir_context"
where
  "zonefs_readdir_zgroup act dots fname_alloc t dir_size fs ctx =
     (if dir_size + 2 \<le> ctx_pos ctx then (0, ctx)
      else case dots ctx of
        (False, ctx1) \<Rightarrow> (0, ctx1)
      | (True, ctx1) \<Rightarrow>
          if \<not> fname_alloc then (- ENOMEM, ctx1)
          else (0, readdir_files act t fs (ctx_pos ctx1 - 2) ctx1))"

lemma readdir_files_emits:
  "\<exists>k. f + k \<le> max f (s_nr_zones (fs_sbi fs) t) \<and>
     readdir_files act t fs f ctx =
       \<lparr>ctx_pos = ctx_pos ctx + k, ctx_out = ctx_out ctx @ map (zone_file_entry t fs) [f..<f + k]\<rparr> \<and>
     (f + k < s_nr_zones (fs_sbi fs) t \<longrightarrow>
        \<not> act (ctx_out ctx @ map (zone_file_entry t fs) [f..<f + k]) (zone_file_entry t fs (f + k)))"
proof (induction act t fs f ctx rule: readdir_files.induct)
  case (1 act t fs f ctx)
  let ?e = "zone_file_entry t fs f"
  show ?case
  proof (cases "s_nr_zones (fs_sbi fs) t \<le> f \<or> \<not> act (ctx_out ctx) ?e")
    case True
    then have "readdir_files act t fs f ctx = ctx"
      by (subst readdir_files.simps) (auto simp: dir_emit_def)
    then show ?thesis using True by (intro exI [of _ 0]) auto
  next
    case False
    let ?ctx = "\<lparr>ctx_pos = ctx_pos ctx + 1, ctx_out = ctx_out ctx @ [?e]\<rparr>"
    have em: "dir_emit act ?e ctx = (True, ctx\<lparr>ctx_out := ctx_out ctx @ [?e]\<rparr>)"
      using False by (simp add: dir_emit_def)
    have nx: "ctx_next (ctx\<lparr>ctx_out := ctx_out ctx @ [?e]\<rparr>) = ?ctx"
      by (cases ctx) (simp add: ctx_next_def)
    have step: "readdir_files act t fs f ctx = readdir_files act t fs (f + 1) ?ctx"
      using False em nx by (subst readdir_files.simps) simp
    obtain k where k: "f + 1 + k \<le> max (f + 1) (s_nr_zones (fs_sbi fs) t)"
      "readdir_files act t fs (f + 1) ?ctx =
        \<lparr>ctx_pos = ctx_pos ?ctx + k, ctx_out = ctx_out ?ctx @ map (zone_file_entry t fs) [f + 1..<f + 1 + k]\<rparr>"
      "f + 1 + k < s_nr_zones (fs_sbi fs) t \<longrightarrow>
        \<not> act (ctx_out ?ctx @ map (zone_file_entry t fs) [f + 1..<f + 1 + k]) (zone_file_entry t fs (f + 1 + k))"
      using 1 [OF _ em [symmetric]] False nx by auto
    have "[f..<f + (k + 1)] = f # [f + 1..<f + 1 + k]" by (simp add: upt_rec)
    then show ?thesis using k step False by (intro exI [of _ "k + 1"]) auto
  qed
qed


section \<open>Statistics\<close>

record kstatfs =
  f_bsize :: int
  f_namelen :: nat
  f_blocks :: int
  f_bfree :: int
  f_bavail :: int
  f_files :: nat
  f_ffree :: nat

text \<open>The caller zeroes the buffer, so \<open>f_files\<close> counts up from zero.\<close>

definition zonefs_statfs :: "'d zonefs_state \<Rightarrow> kstatfs" where
  "zonefs_statfs fs =
     (let s = fs_sbi fs; free = (if s_blocks s < s_used_blocks s then 0 else s_blocks s - s_used_blocks s);
          files = (\<lambda>t. if s_nr_zones s t \<noteq> 0 then s_nr_zones s t + 1 else 0)
      in \<lparr>f_bsize = 2 ^ fs_blkbits fs, f_namelen = ZONEFS_NAME_MAX, f_blocks = s_blocks s,
          f_bfree = free, f_bavail = free, f_files = files ZTYPE_CNV + files ZTYPE_SEQ, f_ffree = 0\<rparr>)"

section \<open>Mount options\<close>

text \<open>\<open>strsep\<close> at commas; the tokens contain no patterns, so matching is string equality.\<close>

fun split_commas :: "string \<Rightarrow> string list" where
  "split_commas [] = [[]]"
| "split_commas (c # cs) =
     (case split_commas cs of
        [] \<Rightarrow> [[c]]
      | w # ws \<Rightarrow> if c = CHR '','' then [] # w # ws else (c # w) # ws)"

datatype opt_token = Opt_errors_ro | Opt_errors_zro | Opt_errors_zol | Opt_errors_repair
  | Opt_explicit_open | Opt_err

definition match_opt :: "string \<Rightarrow> opt_token" where
  "match_opt p =
     (if p = ''errors=remount-ro'' then Opt_errors_ro
      else if p = ''errors=zone-ro'' then Opt_errors_zro
      else if p = ''errors=zone-offline'' then Opt_errors_zol
      else if p = ''errors=repair'' then Opt_errors_repair
      else if p = ''explicit-open'' then Opt_explicit_open
      else Opt_err)"

definition set_errors_opt :: "u64 \<Rightarrow> u64 \<Rightarrow> u64" where
  "set_errors_opt e opts = (opts AND NOT MNTOPT_ERRORS_MASK) OR e"

fun parse_tokens :: "string list \<Rightarrow> u64 \<Rightarrow> int \<times> u64" where
  "parse_tokens [] opts = (0, opts)"
| "parse_tokens (p # ps) opts =
     (if p = [] then parse_tokens ps opts
      else case match_opt p of
        Opt_errors_ro \<Rightarrow> parse_tokens ps (set_errors_opt MNTOPT_ERRORS_RO opts)
      | Opt_errors_zro \<Rightarrow> parse_tokens ps (set_errors_opt MNTOPT_ERRORS_ZRO opts)
      | Opt_errors_zol \<Rightarrow> parse_tokens ps (set_errors_opt MNTOPT_ERRORS_ZOL opts)
      | Opt_errors_repair \<Rightarrow> parse_tokens ps (set_errors_opt MNTOPT_ERRORS_REPAIR opts)
      | Opt_explicit_open \<Rightarrow> parse_tokens ps (opts OR MNTOPT_EXPLICIT_OPEN)
      | Opt_err \<Rightarrow> (- EINVAL, opts))"

definition zonefs_parse_options :: "string option \<Rightarrow> u64 \<Rightarrow> int \<times> u64" where
  "zonefs_parse_options options opts =
     (case options of None \<Rightarrow> (0, opts) | Some s \<Rightarrow> parse_tokens (split_commas s) opts)"

definition zonefs_show_options :: "u64 \<Rightarrow> string" where
  "zonefs_show_options opts =
     (if opts AND MNTOPT_ERRORS_RO \<noteq> 0 then '',errors=remount-ro'' else []) @
     (if opts AND MNTOPT_ERRORS_ZRO \<noteq> 0 then '',errors=zone-ro'' else []) @
     (if opts AND MNTOPT_ERRORS_ZOL \<noteq> 0 then '',errors=zone-offline'' else []) @
     (if opts AND MNTOPT_ERRORS_REPAIR \<noteq> 0 then '',errors=repair'' else [])"

text \<open>The error policies: an option word in use carries exactly one of their bits.\<close>

definition error_policies :: "u64 list" where
  "error_policies = [MNTOPT_ERRORS_RO, MNTOPT_ERRORS_ZRO, MNTOPT_ERRORS_ZOL, MNTOPT_ERRORS_REPAIR]"

definition one_policy :: "u64 \<Rightarrow> bool" where
  "one_policy opts \<longleftrightarrow> opts AND MNTOPT_ERRORS_MASK \<in> set error_policies"

lemma mntopt_values:
  "MNTOPT_ERRORS_RO = 1" "MNTOPT_ERRORS_ZRO = 2" "MNTOPT_ERRORS_ZOL = 4" "MNTOPT_ERRORS_REPAIR = 8"
  "MNTOPT_ERRORS_MASK = 15" "MNTOPT_EXPLICIT_OPEN = 16"
  by (simp_all add: mntopt_defs)

lemma set_errors_opt_mask:
  assumes "e AND MNTOPT_ERRORS_MASK = e"
  shows "set_errors_opt e opts AND MNTOPT_ERRORS_MASK = e"
proof (rule bit_word_eqI)
  fix n
  have "bit e n \<longleftrightarrow> bit e n \<and> bit MNTOPT_ERRORS_MASK n" using assms by (metis bit_and_iff)
  then show "bit (set_errors_opt e opts AND MNTOPT_ERRORS_MASK) n = bit e n"
    by (auto simp: set_errors_opt_def bit_and_iff bit_or_iff bit_not_iff)
qed

lemma one_policy_simps:
  "one_policy (set_errors_opt MNTOPT_ERRORS_RO opts)" "one_policy (set_errors_opt MNTOPT_ERRORS_ZRO opts)"
  "one_policy (set_errors_opt MNTOPT_ERRORS_ZOL opts)" "one_policy (set_errors_opt MNTOPT_ERRORS_REPAIR opts)"
  "one_policy (opts OR MNTOPT_EXPLICIT_OPEN) = one_policy opts"
proof -
  have "MNTOPT_EXPLICIT_OPEN AND MNTOPT_ERRORS_MASK = 0" by (simp add: mntopt_values)
  then show "one_policy (opts OR MNTOPT_EXPLICIT_OPEN) = one_policy opts"
    by (simp add: one_policy_def bit.conj_disj_distrib2)
next
  have e: "one_policy (set_errors_opt e opts)" if "e \<in> set error_policies" for e
  proof -
    have "e AND MNTOPT_ERRORS_MASK = e" using that by (auto simp: error_policies_def mntopt_values)
    then show ?thesis using that by (simp add: one_policy_def set_errors_opt_mask)
  qed
  show "one_policy (set_errors_opt MNTOPT_ERRORS_RO opts)" "one_policy (set_errors_opt MNTOPT_ERRORS_ZRO opts)"
    "one_policy (set_errors_opt MNTOPT_ERRORS_ZOL opts)" "one_policy (set_errors_opt MNTOPT_ERRORS_REPAIR opts)"
    by (rule e, simp add: error_policies_def)+
qed

text \<open>Whatever the option string, valid or not, parsing it leaves exactly one error policy, and an
  \<open>explicit-open\<close> that was in force.\<close>

lemma parse_options_one_policy:
  assumes "one_policy opts"
  shows "one_policy (snd (zonefs_parse_options s opts)) \<and>
    (opts AND MNTOPT_EXPLICIT_OPEN \<noteq> 0 \<longrightarrow> snd (zonefs_parse_options s opts) AND MNTOPT_EXPLICIT_OPEN \<noteq> 0)"
proof -
  have keep: "(set_errors_opt e o1 AND MNTOPT_EXPLICIT_OPEN) = (o1 AND MNTOPT_EXPLICIT_OPEN)"
    if "e \<in> set error_policies" for e o1
  proof -
    have e: "e AND MNTOPT_EXPLICIT_OPEN = 0" "NOT MNTOPT_ERRORS_MASK AND MNTOPT_EXPLICIT_OPEN = MNTOPT_EXPLICIT_OPEN"
      using that by (auto simp: error_policies_def mntopt_values)
    then show ?thesis by (simp add: set_errors_opt_def bit.conj_disj_distrib2 and.assoc)
  qed
  have "one_policy (snd (parse_tokens ps o1)) \<and>
      (o1 AND MNTOPT_EXPLICIT_OPEN \<noteq> 0 \<longrightarrow> snd (parse_tokens ps o1) AND MNTOPT_EXPLICIT_OPEN \<noteq> 0)"
    if "one_policy o1" for ps o1
    using that
  proof (induction ps o1 rule: parse_tokens.induct)
    case (2 p ps opts)
    have "(opts OR MNTOPT_EXPLICIT_OPEN) AND MNTOPT_EXPLICIT_OPEN \<noteq> 0"
      by (simp add: bit.conj_disj_distrib2 mntopt_values)
    then show ?case using 2 keep
      by (cases "p = []"; cases "match_opt p") (auto simp: one_policy_simps error_policies_def)
  qed simp
  then show ?thesis using assms by (simp add: zonefs_parse_options_def split: option.split)
qed

text \<open>C34: the options shown for a mount restore its error policy when they are parsed again,
  leaving the other options of the target as they are: \<open>explicit-open\<close> is never shown.\<close>

theorem show_parse_options:
  assumes "one_policy opts"
  shows "zonefs_parse_options (Some (tl (zonefs_show_options opts))) base =
      (0, set_errors_opt (opts AND MNTOPT_ERRORS_MASK) base) \<and>
    zonefs_show_options (opts OR MNTOPT_EXPLICIT_OPEN) = zonefs_show_options opts"
proof -
  have sub: "opts AND e = (opts AND MNTOPT_ERRORS_MASK) AND e" if "e \<in> set error_policies" for e
  proof -
    have "MNTOPT_ERRORS_MASK AND e = e" using that by (auto simp: error_policies_def mntopt_values)
    then show ?thesis by (simp add: and.assoc)
  qed
  have "zonefs_show_options (opts OR MNTOPT_EXPLICIT_OPEN) = zonefs_show_options opts"
    by (simp add: zonefs_show_options_def bit.conj_disj_distrib2 mntopt_values)
  moreover have "opts AND MNTOPT_ERRORS_MASK \<in> {1, 2, 4, 8}"
    using assms by (auto simp: one_policy_def error_policies_def mntopt_values)
  moreover have "opts AND 1 = (opts AND MNTOPT_ERRORS_MASK) AND 1" "opts AND 2 = (opts AND MNTOPT_ERRORS_MASK) AND 2"
    "opts AND 4 = (opts AND MNTOPT_ERRORS_MASK) AND 4" "opts AND 8 = (opts AND MNTOPT_ERRORS_MASK) AND 8"
    using sub by (simp_all add: error_policies_def mntopt_values)
  ultimately show ?thesis
    by (auto simp: zonefs_show_options_def zonefs_parse_options_def match_opt_def mntopt_values)
qed

section \<open>Attribute changes\<close>

text \<open>
  The attributes to set, each if requested, and the kernel services \<open>setattr_prepare\<close>,
  \<open>dquot_transfer\<close> and \<open>setattr_copy\<close>.
\<close>

record iattr =
  ia_size :: "int option"
  ia_mode :: "u16 option"
  ia_uid :: "u32 option"
  ia_gid :: "u32 option"

record 'd attr_kernel =
  ak_prepare :: "iattr \<Rightarrow> 'd zctx \<Rightarrow> int"
  ak_dquot :: "iattr \<Rightarrow> 'd zctx \<Rightarrow> int"
  ak_copy :: "iattr \<Rightarrow> zonefs_inode \<Rightarrow> zonefs_inode"

definition S_ISDIR :: "u16 \<Rightarrow> bool" where "S_ISDIR m \<longleftrightarrow> m AND 0xF000 = 0x4000"
definition S_ISREG :: "u16 \<Rightarrow> bool" where "S_ISREG m \<longleftrightarrow> m AND 0xF000 = 0x8000"

definition sync_zone_attrs :: "'d zctx \<Rightarrow> 'd zctx" where
  "sync_zone_attrs c =
     (let i = c_inode c in
      if S_ISREG (i_mode i)
      then map_zone (\<lambda>z. z\<lparr>z_mode := i_mode i, z_uid := i_uid i, z_gid := i_gid i\<rparr>) c else c)"

definition zonefs_inode_setattr ::
  "'d blkdev \<Rightarrow> 'd attr_kernel \<Rightarrow> iattr \<Rightarrow> 'd zctx \<Rightarrow> int \<times> 'd zctx"
where
  "zonefs_inode_setattr B A ia c =
     (let i = c_inode c; ret = ak_prepare A ia c;
          new_owner = ((case ia_uid ia of None \<Rightarrow> False | Some u \<Rightarrow> u \<noteq> i_uid i) \<or>
                       (case ia_gid ia of None \<Rightarrow> False | Some g \<Rightarrow> g \<noteq> i_gid i));
          finish = (\<lambda>d. (0, sync_zone_attrs (map_inode (ak_copy A ia) d)))
      in if inode_immutable i then (- EPERM, c)
         else if ret \<noteq> 0 then (ret, c)
         else if (case ia_mode ia of None \<Rightarrow> False | Some m \<Rightarrow> S_ISDIR (i_mode i) \<and> m AND 0x92 \<noteq> 0)
         then (- EPERM, c)
         else if new_owner \<and> ak_dquot A ia c \<noteq> 0 then (ak_dquot A ia c, c)
         else case ia_size ia of
           None \<Rightarrow> finish c
         | Some n \<Rightarrow> (case zonefs_file_truncate B n c of
             (r, c1) \<Rightarrow> if r \<noteq> 0 then (r, c1) else finish c1))"

section \<open>Concrete instances\<close>

definition demo_fs :: "ram zonefs_state" where
  "demo_fs = \<lparr>fs_zones = (\<lambda>t. replicate 15 demo_zone), fs_inodes = (\<lambda>_. None), fs_sbi = demo_sbi,
     fs_rdonly = False, fs_blkbits = 12, fs_nr_zones = 16, fs_dev = demo_ram\<rparr>"


theorem show_parse_options_witness:
  "zonefs_parse_options (Some (tl (zonefs_show_options 20))) 17 = (0, 20)"
proof -
  have "one_policy 20" by (simp add: one_policy_def error_policies_def mntopt_values)
  then show ?thesis using show_parse_options [of 20 17]
    by (simp add: set_errors_opt_def mntopt_values)
qed

end
