(* ===== verification/Zonefs_Provider.thy ===== *)
theory Zonefs_Provider
  imports Hodo_Store Zonefs_Dir
begin

text \<open>
  The zone files of the mounted zonefs as the provider of the block store's interface: opening by
  path, closing, direct reads and writes, and truncation act on one file's view of the state.
  \<open>zone_dev\<close> states what a healthy device does; \<open>zone_store\<close> is interpreted on the model of
  \<open>file.c\<close> and \<open>super.c\<close> over any such device.
\<close>

section \<open>A healthy device\<close>

text \<open>
  \<open>zdat d s\<close> is the data in the zone that starts at sector \<open>s\<close>. A direct write at the write
  pointer of a zone appends; a direct read below it returns the data; a reset empties the zone.
\<close>

definition dio_done :: "'d dio_end_io \<Rightarrow> nat \<Rightarrow> 'd zctx \<Rightarrow> int \<times> 'd zctx" where
  "dio_done en n c = (case en (int n) 0 c of (e, c') \<Rightarrow> (if e \<noteq> 0 then e else int n, c'))"

locale zone_dev = zone_io B L cap
  for B :: "'d blkdev" and L :: "'d iomap_lib" and cap :: "nat \<Rightarrow> int" +
  fixes zstart :: "nat \<Rightarrow> bool" and dinv :: "'d \<Rightarrow> bool" and zdat :: "'d \<Rightarrow> nat \<Rightarrow> bytes"
  assumes generic_open_ok: "io_generic_open L l c = 0"
    and append_ok: "dinv (c_dev c) \<Longrightarrow> ki_sync iocb \<Longrightarrow> buf \<noteq> [] \<Longrightarrow>
      beg (ki_pos iocb) (int (length buf)) c = Inr m \<Longrightarrow> im_addr m = Some a \<Longrightarrow>
      im_offset m \<le> ki_pos iocb \<Longrightarrow> ki_pos iocb + int (length buf) \<le> im_offset m + im_length m \<Longrightarrow>
      zstart s \<Longrightarrow>
      a + (ki_pos iocb - im_offset m) = int s * 2 ^ SECTOR_SHIFT + int (length (zdat (c_dev c) s)) \<Longrightarrow>
      int (length (zdat (c_dev c) s) + length buf) \<le> cap s \<Longrightarrow>
      \<exists>d. dinv d \<and> zdat d = (zdat (c_dev c))(s := zdat (c_dev c) s @ buf) \<and>
        io_dio_write L beg en iocb buf c = dio_done en (length buf) (c\<lparr>c_dev := d\<rparr>)"
    and dio_read_ok: "dinv (c_dev c) \<Longrightarrow> ki_sync iocb \<Longrightarrow> 0 < n \<Longrightarrow>
      beg (ki_pos iocb) (int n) c = Inr m \<Longrightarrow> im_addr m = Some a \<Longrightarrow>
      im_offset m \<le> ki_pos iocb \<Longrightarrow> ki_pos iocb + int n \<le> im_offset m + im_length m \<Longrightarrow>
      zstart s \<Longrightarrow> a + (ki_pos iocb - im_offset m) = int s * 2 ^ SECTOR_SHIFT + int k \<Longrightarrow>
      k + n \<le> length (zdat (c_dev c) s) \<Longrightarrow>
      \<exists>d. dinv d \<and> zdat d = zdat (c_dev c) \<and>
        io_dio_read L beg en iocb n c =
          (case dio_done en n (c\<lparr>c_dev := d\<rparr>) of (r, c') \<Rightarrow> ((r, get_bytes k n (zdat (c_dev c) s)), c'))"
    and reset_ok: "dinv d \<Longrightarrow> zstart s \<Longrightarrow>
      \<exists>d'. bd_zone_mgmt B ZONE_RESET s n d = (0, d') \<and> dinv d' \<and> zdat d' = (zdat d)(s := [])"

section \<open>One healthy zone file\<close>

text \<open>A sequential zone file whose device works: writable, in step with the device.\<close>

definition zone_synced :: "(nat \<Rightarrow> int) \<Rightarrow> (nat \<Rightarrow> bool) \<Rightarrow> ('d \<Rightarrow> bool) \<Rightarrow> ('d \<Rightarrow> nat \<Rightarrow> bytes) \<Rightarrow> 'd zctx \<Rightarrow> bool" where
  "zone_synced cap zstart dinv zdat c \<longleftrightarrow>
     zfile_ok cap c \<and> \<not> c_rdonly c \<and> \<not> inode_immutable (c_inode c) \<and>
     i_flags (c_inode c) AND S_SWAPFILE = 0 \<and> \<not> sbi_has MNTOPT_EXPLICIT_OPEN c \<and>
     \<not> zone_has ZONE_FLAG_OPEN (c_zone c) \<and> \<not> zone_has ZONE_OFFLINE (c_zone c) \<and>
     \<not> zone_has ZONE_READONLY (c_zone c) \<and> c_blkbits c = 12 \<and>
     zstart (z_sector (c_zone c)) \<and> dinv (c_dev c) \<and>
     int (length (zdat (c_dev c) (z_sector (c_zone c)))) = i_size (c_inode c)"

definition direct_iocb :: "nat \<Rightarrow> kiocb" where
  "direct_iocb off = \<lparr>ki_pos = int off, ki_direct = True, ki_nowait = False, ki_append = False,
     ki_sync = True, ki_largefile = True, ki_rlimit = None, ki_lock_free = True\<rparr>"

lemma direct_iocb_simps [simp]:
  "ki_pos (direct_iocb off) = int off" "ki_direct (direct_iocb off)" "\<not> ki_nowait (direct_iocb off)"
  "\<not> ki_append (direct_iocb off)" "ki_sync (direct_iocb off)" "ki_largefile (direct_iocb off)"
  "ki_rlimit (direct_iocb off) = None"
  by (simp_all add: direct_iocb_def)

lemma zone_syncedD:
  assumes "zone_synced cap zstart dinv zdat c"
  shows "zfile_ok cap c" "\<not> c_rdonly c" "\<not> inode_immutable (c_inode c)"
    "i_flags (c_inode c) AND S_SWAPFILE = 0" "\<not> sbi_has MNTOPT_EXPLICIT_OPEN c"
    "\<not> zone_has ZONE_FLAG_OPEN (c_zone c)" "c_blkbits c = 12"
    "zstart (z_sector (c_zone c))" "dinv (c_dev c)"
    "int (length (zdat (c_dev c) (z_sector (c_zone c)))) = i_size (c_inode c)"
    "i_size (c_inode c) = z_wpoffset (c_zone c)" "zonefs_zone_is_seq (c_zone c)"
    "z_capacity (c_zone c) = cap (z_sector (c_zone c))" "i_size (c_inode c) \<le> z_capacity (c_zone c)"
    "\<not> zone_has ZONE_OFFLINE (c_zone c)" "\<not> zone_has ZONE_READONLY (c_zone c)"
  using assms by (auto simp: zone_synced_def zfile_ok_def zfile_bounds_def)

lemma int_block_dvd: "4096 dvd off \<Longrightarrow> (4096 :: int) dvd int off"
  by (metis int_dvd_int_iff of_nat_numeral)

context zone_dev
begin

lemma read_synced:
  assumes ok: "zone_synced cap zstart dinv zdat c" and "4096 dvd off"
    and below: "off + 4096 \<le> length (zdat (c_dev c) (z_sector (c_zone c)))"
  shows "\<exists>d. zonefs_file_read_iter B L (direct_iocb off) 4096 c =
      ((4096, get_bytes off 4096 (zdat (c_dev c) (z_sector (c_zone c)))), c\<lparr>c_dev := d\<rparr>) \<and>
      dinv d \<and> zdat d = zdat (c_dev c)"
proof -
  note D = zone_syncedD [OF ok]
  let ?s = "z_sector (c_zone c)"
  let ?m = "\<lparr>im_type = IOMAP_MAPPED, im_offset = int off, im_addr = Some (zone_addr c + int off),
      im_length = i_size (c_inode c) - int off\<rparr>"
  have sz: "int off + 4096 \<le> i_size (c_inode c)" using below D(10) by linarith
  have al: "ALIGN_DOWN (int off) (c_blocksize c) = int off"
    using assms(2) by (auto simp: ALIGN_DOWN_def c_blocksize_def D(7) elim!: dvdE)
  have beg: "zonefs_read_iomap_begin (ki_pos (direct_iocb off)) (int 4096) c = Inr ?m"
    using sz al by (simp add: zonefs_read_iomap_begin_def Let_def)
  have mis: "\<not> misaligned (int off) 4096 c"
    using assms(2) by (simp add: not_misaligned c_blocksize_def D(7) int_block_dvd)
  obtain d where d: "dinv d" "zdat d = zdat (c_dev c)"
      "io_dio_read L zonefs_read_iomap_begin (zonefs_file_read_dio_end_io B) (direct_iocb off) 4096 c =
        (case dio_done (zonefs_file_read_dio_end_io B) 4096 (c\<lparr>c_dev := d\<rparr>) of
          (r, c') \<Rightarrow> ((r, get_bytes off 4096 (zdat (c_dev c) ?s)), c'))"
    using dio_read_ok [where beg = zonefs_read_iomap_begin and iocb = "direct_iocb off" and n = 4096
        and c = c and m = ?m and a = "zone_addr c + int off" and s = ?s and k = off
        and en = "zonefs_file_read_dio_end_io B"] beg D sz below
    by (auto simp: zone_addr_def)
  have cnt: "min 4096 (nat (i_size (c_inode c) - int off)) = (4096 :: nat)" using sz by linarith
  have "\<not> z_capacity (c_zone c) \<le> int off" "\<not> i_size (c_inode c) \<le> int off" using D(14) sz by linarith+
  then show ?thesis using d D(3) mis cnt
    by (intro exI [of _ d])
      (simp add: zonefs_file_read_iter_def inode_offline_def Let_def dio_done_def
        zonefs_file_read_dio_end_io_def)
qed

lemma read_synced_eof:
  assumes ok: "zone_synced cap zstart dinv zdat c"
    and eof: "length (zdat (c_dev c) (z_sector (c_zone c))) \<le> off"
  shows "zonefs_file_read_iter B L (direct_iocb off) n c = ((0, []), c)"
  using zone_syncedD [OF ok] eof
  by (simp add: zonefs_file_read_iter_def inode_offline_def)

end

text \<open>What an operation on one file leaves alone.\<close>

definition same_fs :: "'d zctx \<Rightarrow> 'd zctx \<Rightarrow> bool" where
  "same_fs c c' \<longleftrightarrow> z_sector (c_zone c') = z_sector (c_zone c) \<and> c_rdonly c' = c_rdonly c \<and>
     c_blkbits c' = c_blkbits c \<and> s_nr_zones (c_sbi c') = s_nr_zones (c_sbi c) \<and>
     s_zone_sectors_shift (c_sbi c') = s_zone_sectors_shift (c_sbi c) \<and>
     s_mount_opts (c_sbi c') = s_mount_opts (c_sbi c)"

lemma sbi_frames [simp]:
  "s_nr_zones (c_sbi (zonefs_account_active c)) = s_nr_zones (c_sbi c)"
  "s_zone_sectors_shift (c_sbi (zonefs_account_active c)) = s_zone_sectors_shift (c_sbi c)"
  "s_nr_zones (c_sbi (zonefs_i_size_write n c)) = s_nr_zones (c_sbi c)"
  "s_zone_sectors_shift (c_sbi (zonefs_i_size_write n c)) = s_zone_sectors_shift (c_sbi c)"
  "s_nr_zones (c_sbi (zonefs_update_stats n c)) = s_nr_zones (c_sbi c)"
  "s_zone_sectors_shift (c_sbi (zonefs_update_stats n c)) = s_zone_sectors_shift (c_sbi c)"
  by (simp_all add: account_active_eq account_more_def zonefs_i_size_write_def set_isize_def Let_def
      zonefs_update_stats_def)

lemma advance_frames [simp]:
  "c_sbi (map_zone f c) = c_sbi c"
  "s_nr_zones (c_sbi (advance_wpoffset n c)) = s_nr_zones (c_sbi c)"
  "s_zone_sectors_shift (c_sbi (advance_wpoffset n c)) = s_zone_sectors_shift (c_sbi c)"
  "s_mount_opts (c_sbi (advance_wpoffset n c)) = s_mount_opts (c_sbi c)"
  "k \<noteq> 2 \<Longrightarrow> bit (z_flags (c_zone (advance_wpoffset n c))) k = bit (z_flags (c_zone c)) k"
  by (simp_all add: advance_wpoffset_def account_active_flags)

context zone_dev
begin

lemma write_synced:
  assumes ok: "zone_synced cap zstart dinv zdat c" and buf: "length buf = 4096" and off: "4096 dvd off"
    and at_end: "off = length (zdat (c_dev c) (z_sector (c_zone c)))"
    and fits: "int off + 4096 \<le> cap (z_sector (c_zone c))"
  shows "\<exists>c'. zonefs_file_write_iter B L (direct_iocb off) buf c = (4096, c') \<and>
      zone_synced cap zstart dinv zdat c' \<and> same_fs c c' \<and>
      zdat (c_dev c') = (zdat (c_dev c))(z_sector (c_zone c) := zdat (c_dev c) (z_sector (c_zone c)) @ buf)"
proof -
  note D = zone_syncedD [OF ok]
  let ?s = "z_sector (c_zone c)" and ?iocb = "direct_iocb off"
  let ?c1 = "advance_wpoffset 4096 c" and ?en = "zonefs_file_write_dio_end_io B (direct_iocb off)"
  have pos: "int off = i_size (c_inode c)" "int off = z_wpoffset (c_zone c)" "int off < z_capacity (c_zone c)"
    using D at_end fits by simp_all
  have nb: "buf \<noteq> []" using buf by auto
  have w: "zonefs_write_checks ?iocb buf c = (4096, ?iocb, buf)"
    using buf nb D(4,13) fits pos(3)
    by (simp add: zonefs_write_checks_def Let_def zonefs_write_check_limits_def EFBIG_def min_def)
  have al: "ALIGN_DOWN (int off) (c_blocksize c) = int off"
    using off by (auto simp: ALIGN_DOWN_def c_blocksize_def D(7) elim!: dvdE)
  have al1: "ALIGN_DOWN (int off) (c_blocksize ?c1) = int off"
    using al by (simp add: c_blocksize_def)
  let ?m = "\<lparr>im_type = IOMAP_UNWRITTEN, im_offset = int off, im_addr = Some (zone_addr c + int off),
      im_length = z_capacity (c_zone c) - int off\<rparr>"
  have beg: "zonefs_write_iomap_begin True (ki_pos ?iocb) (int (length buf)) ?c1 = Inr ?m"
    using fits D(12,13) buf pos al1 by (simp add: zonefs_write_iomap_begin_def Let_def zone_addr_def)
  obtain d where d: "dinv d" "zdat d = (zdat (c_dev c))(?s := zdat (c_dev c) ?s @ buf)"
      "io_dio_write L (zonefs_write_iomap_begin True) ?en ?iocb buf ?c1 = dio_done ?en 4096 (?c1\<lparr>c_dev := d\<rparr>)"
    using append_ok [where beg = "zonefs_write_iomap_begin True" and iocb = ?iocb and buf = buf and c = ?c1
        and m = ?m and a = "zone_addr c + int off" and s = ?s and en = ?en] beg D fits buf nb at_end
    by (auto simp: zone_addr_def)
  define c2 where "c2 = zonefs_i_size_write (int off + 4096) (zonefs_update_stats (int off + 4096) (?c1\<lparr>c_dev := d\<rparr>))"
  have io: "io_dio_write L (zonefs_write_iomap_begin True) ?en ?iocb buf ?c1 = (4096, c2)"
    using d(3) D(12) pos
    by (simp add: dio_done_def zonefs_file_write_dio_end_io_def c2_def)
  have mis: "\<not> misaligned (int off) 4096 c"
    using off by (simp add: not_misaligned c_blocksize_def D(7) int_block_dvd)
  have seq2: "zonefs_zone_is_seq (c_zone c2)" using D(12) by (simp add: c2_def)
  have run: "zonefs_file_dio_write B L ?iocb buf c = ((4096, ?iocb, buf), c2)"
    using D(12) seq2 io mis pos
    unfolding zonefs_file_dio_write_def w prod.case advance_wpoffset_def [symmetric]
    by (simp add: const_simps)
  have c2: "zfile_ok cap c2"
    using dio_write_ok [OF D(1,2,12) _ run] by simp
  have "zone_synced cap zstart dinv zdat c2"
    using D d buf at_end c2
    by (simp add: zone_synced_def c2_def sbi_has_def inode_immutable_def zone_has_bits i_size_write_flags)
  moreover have "zonefs_file_write_iter B L ?iocb buf c = (4096, c2)"
    using D(2,3) pos(3) run by (simp add: zonefs_file_write_iter_def ENOTBLK_def)
  moreover have "same_fs c c2" by (simp add: same_fs_def c2_def)
  moreover have "c_dev c2 = d" by (simp add: c2_def)
  ultimately show ?thesis using d(2) by blast
qed

text \<open>A write below the write pointer is refused before the device is asked.\<close>

lemma write_synced_refused:
  assumes ok: "zone_synced cap zstart dinv zdat c" and buf: "length buf = 4096"
    and below: "off < length (zdat (c_dev c) (z_sector (c_zone c)))"
  shows "zonefs_file_write_iter B L (direct_iocb off) buf c = (- EINVAL, c)"
proof -
  note D = zone_syncedD [OF ok]
  let ?n = "min 4096 (z_capacity (c_zone c) - int off)"
  have pos: "int off < z_wpoffset (c_zone c)" "int off < z_capacity (c_zone c)" "\<not> ?n \<le> 0"
    using D(10,11,14) below by simp_all
  have nb: "buf \<noteq> []" using buf by auto
  have w: "zonefs_write_checks (direct_iocb off) buf c = (?n, direct_iocb off, take (nat ?n) buf)"
    using buf nb D(4) pos by (simp add: zonefs_write_checks_def Let_def zonefs_write_check_limits_def)
  have "zonefs_file_dio_write B L (direct_iocb off) buf c = ((- EINVAL, direct_iocb off, take (nat ?n) buf), c)"
    using D(12) pos unfolding zonefs_file_dio_write_def w prod.case by simp
  then show ?thesis using D(2,3) pos(2) by (simp add: zonefs_file_write_iter_def const_simps)
qed

lemma truncate_synced:
  assumes ok: "zone_synced cap zstart dinv zdat c"
  shows "\<exists>c'. zonefs_file_truncate B 0 c = (0, c') \<and> zone_synced cap zstart dinv zdat c' \<and> same_fs c c' \<and>
      zdat (c_dev c') = (zdat (c_dev c))(z_sector (c_zone c) := [])"
proof -
  note D = zone_syncedD [OF ok]
  let ?s = "z_sector (c_zone c)"
  show ?thesis
  proof (cases "i_size (c_inode c) = 0")
    case True
    then have "zonefs_file_truncate B 0 c = (0, c)" using D(12) by (simp add: zonefs_file_truncate_def Let_def)
    moreover have "zdat (c_dev c) = (zdat (c_dev c))(?s := [])" using D(10) True by (metis fun_upd_triv length_0_conv of_nat_eq_0_iff)
    ultimately show ?thesis using ok by (intro exI [of _ c]) (simp add: same_fs_def)
  next
    case False
    obtain d where d: "bd_zone_mgmt B ZONE_RESET ?s (nat (z_size (c_zone c)) div 2 ^ SECTOR_SHIFT) (c_dev c) = (0, d)"
        "dinv d" "zdat d = (zdat (c_dev c))(?s := [])"
      using reset_ok [OF D(9,8)] by blast
    define c' where "c' = resized 0 (c\<lparr>c_dev := d\<rparr>)"
    have run: "zonefs_file_truncate B 0 c = (0, c')"
      using D(6,12) False d(1)
      by (simp add: zonefs_file_truncate_def Let_def zonefs_zone_mgmt_def c'_def resized_def)
    have "zfile_ok cap c'" using truncate_ok [OF D(1) run] by simp
    then have "zone_synced cap zstart dinv zdat c'"
      using D d
      by (simp add: zone_synced_def c'_def resized_def set_isize_def sbi_has_def inode_immutable_def
          zone_has_bits account_active_flags)
    moreover have "same_fs c c'" "c_dev c' = d" by (simp_all add: same_fs_def c'_def resized_def set_isize_def)
    ultimately show ?thesis using run d(3) by blast
  qed
qed

end

section \<open>All zone files\<close>

definition zone_file_inode :: "zonefs_zone \<Rightarrow> 'd zonefs_state \<Rightarrow> zonefs_inode" where
  "zone_file_inode z fs =
     (case fs_inodes fs (zone_ino z fs) of Some i \<Rightarrow> i | None \<Rightarrow> new_zone_inode (zone_ino z fs) z)"

definition fs_file :: "nat \<Rightarrow> 'd zonefs_state \<Rightarrow> 'd zctx" where
  "fs_file i fs = (let z = fs_zones fs ZTYPE_SEQ ! i in fs_view z (zone_file_inode z fs) fs)"

definition fs_put :: "nat \<Rightarrow> 'd zctx \<Rightarrow> 'd zonefs_state \<Rightarrow> 'd zonefs_state" where
  "fs_put i c fs = fs\<lparr>
     fs_zones := (fs_zones fs)(ZTYPE_SEQ := (fs_zones fs ZTYPE_SEQ)[i := c_zone c]),
     fs_inodes := (fs_inodes fs)(zone_ino (fs_zones fs ZTYPE_SEQ ! i) fs \<mapsto> c_inode c),
     fs_sbi := c_sbi c, fs_rdonly := c_rdonly c, fs_dev := c_dev c\<rparr>"

text \<open>
  The kernel's path walk below the mount point \<open>mnt\<close>, over the lookups of \<open>super.c\<close>; a file is
  handled by its index in the group of sequential zones.
\<close>

definition zone_file_index :: "nat \<Rightarrow> 'd zonefs_state \<Rightarrow> nat" where
  "zone_file_index ino fs = length (takeWhile (\<lambda>z. zone_ino z fs \<noteq> ino) (fs_zones fs ZTYPE_SEQ))"

definition walk_seq :: "string \<Rightarrow> string \<Rightarrow> 'd zonefs_state \<Rightarrow> (int + nat) \<times> 'd zonefs_state" where
  "walk_seq mnt path fs =
     (let k = length mnt + 5 in
      if take k path \<noteq> mnt @ ''/seq/'' then (Inl (- ENOENT), fs)
      else case zonefs_lookup None ''seq'' fs of
        (Inl e, fs1) \<Rightarrow> (Inl e, fs1)
      | (Inr _, fs1) \<Rightarrow>
          (case zonefs_lookup (Some ZTYPE_SEQ) (drop k path) fs1 of
             (Inl e, fs2) \<Rightarrow> (Inl e, fs2)
           | (Inr ino, fs2) \<Rightarrow> (Inr (zone_file_index ino fs2), fs2)))"

definition zonefs_kernel :: "'d blkdev \<Rightarrow> 'd iomap_lib \<Rightarrow> string \<Rightarrow> 'd zonefs_state kernel \<Rightarrow> 'd zonefs_state kernel" where
  "zonefs_kernel B L mnt K = K\<lparr>
     zf_open := (\<lambda>path w fs. case walk_seq mnt path fs of
         (Inl e, fs1) \<Rightarrow> (Inl e, fs1)
       | (Inr i, fs1) \<Rightarrow> (case zonefs_file_open B L w True (fs_file i fs1) of
           (r, c) \<Rightarrow> (if r \<noteq> 0 then Inl r else Inr i, fs_put i c fs1))),
     zf_close := (\<lambda>i w fs. fs_put i (snd (zonefs_file_release B w (fs_file i fs))) fs),
     zf_read := (\<lambda>i off len fs. case zonefs_file_read_iter B L (direct_iocb off) len (fs_file i fs) of
         (res, c) \<Rightarrow> (res, fs_put i c fs)),
     zf_write := (\<lambda>i off buf fs. case zonefs_file_write_iter B L (direct_iocb off) buf (fs_file i fs) of
         (r, c) \<Rightarrow> (r, fs_put i c fs)),
     zf_path := (\<lambda>path fs. case walk_seq mnt path fs of (Inl e, _) \<Rightarrow> None | (Inr i, _) \<Rightarrow> Some i),
     zf_truncate := (\<lambda>i n fs. case zonefs_file_truncate B n (fs_file i fs) of
         (r, c) \<Rightarrow> (r, fs_put i c fs))\<rparr>"

text \<open>The 16-zone device the layout constants describe: file \<open>i\<close> is zone \<open>i + 1\<close>.\<close>

definition file_sector :: "nat \<Rightarrow> nat" where "file_sector i = (i + 1) * 524288"

definition zonefs_ok ::
  "'d blkdev \<Rightarrow> 'd iomap_lib \<Rightarrow> (nat \<Rightarrow> int) \<Rightarrow> (nat \<Rightarrow> bool) \<Rightarrow> ('d \<Rightarrow> bool) \<Rightarrow> ('d \<Rightarrow> nat \<Rightarrow> bytes) \<Rightarrow>
   'd zonefs_state \<Rightarrow> bool"
where
  "zonefs_ok B L cap zstart dinv zdat fs \<longleftrightarrow>
     zone_dev B L cap zstart dinv zdat \<and>
     length (fs_zones fs ZTYPE_SEQ) = ZONE_FILES \<and> s_nr_zones (fs_sbi fs) ZTYPE_SEQ = ZONE_FILES \<and>
     s_zone_sectors_shift (fs_sbi fs) = 19 \<and>
     (\<forall>i < ZONE_FILES. z_sector (fs_zones fs ZTYPE_SEQ ! i) = file_sector i \<and>
        cap (file_sector i) = int ZONE_SIZE \<and> zone_synced cap zstart dinv zdat (fs_file i fs))"

definition zonefs_data :: "('d \<Rightarrow> nat \<Rightarrow> bytes) \<Rightarrow> 'd zonefs_state \<Rightarrow> nat \<Rightarrow> bytes" where
  "zonefs_data zdat fs i = zdat (fs_dev fs) (file_sector i)"

lemma zone_synced_cong:
  assumes "zone_synced cap zstart dinv zdat c" "c_zone d = c_zone c" "c_inode d = c_inode c"
    "c_rdonly d = c_rdonly c" "c_blkbits d = c_blkbits c"
    "s_mount_opts (c_sbi d) = s_mount_opts (c_sbi c)" "dinv (c_dev d)"
    "zdat (c_dev d) (z_sector (c_zone c)) = zdat (c_dev c) (z_sector (c_zone c))"
  shows "zone_synced cap zstart dinv zdat d"
  using assms by (auto simp: zone_synced_def zfile_ok_def zfile_bounds_def zfile_flags_def sbi_has_def)

lemma fs_view_sel [simp]:
  "c_zone (fs_view z i fs) = z" "c_inode (fs_view z i fs) = i" "c_sbi (fs_view z i fs) = fs_sbi fs"
  "c_rdonly (fs_view z i fs) = fs_rdonly fs" "c_blkbits (fs_view z i fs) = fs_blkbits fs"
  "c_dev (fs_view z i fs) = fs_dev fs"
  by (simp_all add: fs_view_def)

lemma fs_file_sel [simp]:
  "c_zone (fs_file i fs) = fs_zones fs ZTYPE_SEQ ! i" "c_sbi (fs_file i fs) = fs_sbi fs"
  "c_rdonly (fs_file i fs) = fs_rdonly fs" "c_blkbits (fs_file i fs) = fs_blkbits fs"
  "c_dev (fs_file i fs) = fs_dev fs"
  by (simp_all add: fs_file_def Let_def)

lemma zonefs_okD:
  assumes "zonefs_ok B L cap zstart dinv zdat fs" "i < ZONE_FILES"
  shows "zone_dev B L cap zstart dinv zdat" "i < length (fs_zones fs ZTYPE_SEQ)"
    "s_nr_zones (fs_sbi fs) ZTYPE_SEQ = ZONE_FILES" "zone_ino (fs_zones fs ZTYPE_SEQ ! i) fs = i + 1"
    "z_sector (fs_zones fs ZTYPE_SEQ ! i) = file_sector i" "cap (file_sector i) = int ZONE_SIZE"
    "zone_synced cap zstart dinv zdat (fs_file i fs)"
  using assms
  by (auto simp: zonefs_ok_def zone_ino_def file_sector_def drop_bit_eq_div)

lemma file_sector_eq [simp]: "file_sector i = file_sector j \<longleftrightarrow> i = j"
  by (simp add: file_sector_def)

text \<open>The frame of every operation on file \<open>i\<close>.\<close>

lemma fs_put_ok:
  assumes ok: "zonefs_ok B L cap zstart dinv zdat fs" and i: "i < ZONE_FILES"
    and c: "zone_synced cap zstart dinv zdat c" "same_fs (fs_file i fs) c"
    and dat: "zdat (c_dev c) = (zdat (fs_dev fs))(file_sector i := b)"
  shows "zonefs_ok B L cap zstart dinv zdat (fs_put i c fs) \<and>
    zonefs_data zdat (fs_put i c fs) = (zonefs_data zdat fs)(i := b)"
proof
  let ?fs = "fs_put i c fs"
  note D = zonefs_okD [OF ok]
  have sh: "s_zone_sectors_shift (fs_sbi ?fs) = s_zone_sectors_shift (fs_sbi fs)"
    using c(2) by (simp add: same_fs_def fs_put_def)
  have ino: "zone_ino z ?fs = zone_ino z fs" for z using sh by (simp add: zone_ino_def)
  have sec: "z_sector (c_zone c) = file_sector i" using c(2) D(5) [OF i] by (simp add: same_fs_def)
  have zones: "fs_zones ?fs ZTYPE_SEQ = (fs_zones fs ZTYPE_SEQ)[i := c_zone c]"
    by (simp add: fs_put_def)
  have inoi: "zone_ino (c_zone c) fs = i + 1"
    using sec D(4,5) [OF i] by (simp add: zone_ino_def)
  show "zonefs_data zdat ?fs = (zonefs_data zdat fs)(i := b)"
    using dat by (auto simp: zonefs_data_def fs_put_def fun_eq_iff)
  have each: "z_sector (fs_zones ?fs ZTYPE_SEQ ! j) = file_sector j \<and>
      zone_synced cap zstart dinv zdat (fs_file j ?fs)" if j: "j < ZONE_FILES" for j
  proof (cases "j = i")
    case True
    have "fs_file i ?fs = c"
    proof -
      have "c_zone (fs_file i ?fs) = c_zone c" "c_inode (fs_file i ?fs) = c_inode c"
        using D(2,4) [OF i] inoi by (simp_all add: zones fs_file_def Let_def zone_file_inode_def ino)
          (simp add: fs_put_def)
      moreover have "c_blkbits (fs_file i ?fs) = c_blkbits c"
        using c(2) by (simp add: fs_put_def same_fs_def)
      ultimately show ?thesis by (intro zctx.equality) (simp_all add: fs_put_def)
    qed
    then show ?thesis using True c(1) sec D(2) [OF i] by (simp add: zones)
  next
    case False
    have z: "fs_zones ?fs ZTYPE_SEQ ! j = fs_zones fs ZTYPE_SEQ ! j" using False by (simp add: zones)
    have "zone_synced cap zstart dinv zdat (fs_file j ?fs)"
    proof (rule zone_synced_cong [OF D(7) [OF j]])
      show "c_inode (fs_file j ?fs) = c_inode (fs_file j fs)"
        unfolding fs_file_def Let_def zone_file_inode_def ino z
        using False D(4) [OF i] D(4) [OF j] by (simp add: fs_put_def)
      show "zdat (c_dev (fs_file j ?fs)) (z_sector (c_zone (fs_file j fs))) =
          zdat (c_dev (fs_file j fs)) (z_sector (c_zone (fs_file j fs)))"
        using dat False D(5) [OF j] by (simp add: fs_put_def)
    qed (use c z in \<open>simp_all add: fs_put_def same_fs_def zone_syncedD(9)\<close>)
    then show ?thesis using z D(5) [OF j] by simp
  qed
  show "zonefs_ok B L cap zstart dinv zdat ?fs"
    using ok each sh c(2)
    by (simp add: zonefs_ok_def zones) (simp add: fs_put_def same_fs_def)
qed

lemma zonefs_data_triv [simp]:
  "(zonefs_data zdat fs)(i := zdat (fs_dev fs) (file_sector i)) = zonefs_data zdat fs"
  by (auto simp: zonefs_data_def)

subsection \<open>Opening and closing\<close>

lemma update_mode_synced:
  assumes "zone_synced cap zstart dinv zdat c"
  shows "zone_synced cap zstart dinv zdat (zonefs_inode_update_mode c) \<and>
    same_fs c (zonefs_inode_update_mode c)"
proof -
  note D = zone_syncedD [OF assms]
  have e: "zonefs_inode_update_mode c = c\<lparr>c_zone := (zone_clear ZONE_INIT_MODE (c_zone c))\<lparr>z_mode := i_mode (c_inode c)\<rparr>\<rparr>"
    using D(15,16) by (simp add: zonefs_inode_update_mode_def Let_def)
  show ?thesis using assms unfolding e
    by (auto simp: zone_synced_def same_fs_def zfile_ok_def zfile_bounds_def zfile_flags_def sbi_has_def
        zone_is_active_def zonefs_zone_is_seq_def zonefs_zone_is_cnv_def zone_flag_simps)
qed

lemma counts_synced:
  assumes "zone_synced cap zstart dinv zdat c"
  shows "zone_synced cap zstart dinv zdat (get_ref c) \<and> same_fs c (get_ref c)"
    "zone_synced cap zstart dinv zdat (put_ref c) \<and> same_fs c (put_ref c)"
    "zone_synced cap zstart dinv zdat (account_wro k c) \<and> same_fs c (account_wro k c)"
  using assms
  by (auto simp: zone_synced_def same_fs_def zfile_ok_def zfile_bounds_def zfile_flags_def sbi_has_def
      get_ref_def put_ref_def account_wro_def inode_immutable_def)

lemma same_fs_trans: "same_fs a b \<Longrightarrow> same_fs b c \<Longrightarrow> same_fs a c"
  by (simp add: same_fs_def)

lemma write_open_synced:
  assumes "zone_synced cap zstart dinv zdat c"
  obtains c' where "zonefs_seq_file_write_open B c = (0, c')" "zone_synced cap zstart dinv zdat c'"
    "same_fs c c'" "c_dev c' = c_dev c"
proof (cases "i_wr_refcnt (c_inode c) = 0")
  case False
  then show thesis using that [of "get_ref c"] counts_synced(1) [OF assms]
    by (simp add: zonefs_seq_file_write_open_def get_ref_def)
next
  case True
  have "zonefs_seq_file_write_open B c = (0, get_ref (account_wro 1 c))"
    using True zone_syncedD(5) [OF assms] by (simp add: zonefs_seq_file_write_open_def Let_def sbi_has_def)
  moreover have "zone_synced cap zstart dinv zdat (get_ref (account_wro 1 c)) \<and>
      same_fs (account_wro 1 c) (get_ref (account_wro 1 c))"
    by (rule counts_synced(1)) (use counts_synced(3) [OF assms, of 1] in simp)
  moreover have "same_fs c (account_wro 1 c)" using counts_synced(3) [OF assms, of 1] by simp
  moreover have "c_dev (get_ref (account_wro 1 c)) = c_dev c" by (simp add: get_ref_def)
  ultimately show thesis using that same_fs_trans by blast
qed

lemma write_close_synced:
  assumes "zone_synced cap zstart dinv zdat c"
  shows "zone_synced cap zstart dinv zdat (zonefs_seq_file_write_close B c) \<and>
    same_fs c (zonefs_seq_file_write_close B c) \<and> c_dev (zonefs_seq_file_write_close B c) = c_dev c"
proof -
  have "zonefs_seq_file_write_close B c =
      (if i_wr_refcnt (c_inode (put_ref c)) \<noteq> 0 then put_ref c else account_wro (-1) (put_ref c))"
    using zone_syncedD(6) [OF assms] by (simp add: zonefs_seq_file_write_close_def Let_def put_ref_def)
  moreover have "c_dev (put_ref c) = c_dev c" by (simp add: put_ref_def)
  moreover note p = counts_synced(2) [OF assms]
  moreover note counts_synced(3) [OF conjunct1 [OF p], of "- 1"]
  ultimately show ?thesis using same_fs_trans [of c "put_ref c"] by simp
qed

lemma zone_file_index_ok:
  assumes "zonefs_ok B L cap zstart dinv zdat fs" "i < ZONE_FILES"
  shows "zone_file_index (i + 1) fs = i"
proof -
  let ?zs = "fs_zones fs ZTYPE_SEQ"
  have len: "length ?zs = ZONE_FILES" using assms(1) by (simp add: zonefs_ok_def)
  have "zone_ino (?zs ! j) fs = j + 1" if "j < ZONE_FILES" for j
    using zonefs_okD(4) [OF assms(1) that] .
  then have "takeWhile (\<lambda>z. zone_ino z fs \<noteq> i + 1) ?zs = take i ?zs"
    using assms(2) len by (intro takeWhile_eq_take_P_nth) auto
  then show ?thesis using assms(2) len by (simp add: zone_file_index_def)
qed

lemma get_file_inode_ok:
  assumes ok: "zonefs_ok B L cap zstart dinv zdat fs" and i: "i < ZONE_FILES"
  obtains fs' where "zonefs_get_file_inode ZTYPE_SEQ (dec_string i) fs = (Inr (i + 1), fs')"
    "zonefs_ok B L cap zstart dinv zdat fs'" "zonefs_data zdat fs' = zonefs_data zdat fs"
proof -
  note D = zonefs_okD [OF ok i]
  let ?z = "fs_zones fs ZTYPE_SEQ ! i"
  have "length (dec_string i) \<le> ZONEFS_NAME_MAX"
    using length_dec_string [of 2 i] i by (simp add: ZONE_FILES_def NUMBER_ZONES_def ZONEFS_NAME_MAX_def)
  note lk = zonefs_get_file_inode_def [of ZTYPE_SEQ "dec_string i" fs, unfolded fname_to_fno_dec_string [OF this] Let_def]
  show thesis
  proof (cases "fs_inodes fs (zone_ino ?z fs)")
    case (Some x)
    then show thesis using that [of fs] lk i D(3,4) ok by (simp add: const_simps)
  next
    case None
    let ?c = "zonefs_inode_update_mode (fs_view ?z (new_zone_inode (zone_ino ?z fs) ?z) fs)"
    have vw: "fs_view ?z (new_zone_inode (zone_ino ?z fs) ?z) fs = fs_file i fs"
      using None by (simp add: fs_file_def Let_def zone_file_inode_def)
    note up = update_mode_synced [OF D(7)]
    have dev: "c_dev (zonefs_inode_update_mode (fs_file i fs)) = fs_dev fs"
      "c_sbi (zonefs_inode_update_mode (fs_file i fs)) = fs_sbi fs"
      "c_rdonly (zonefs_inode_update_mode (fs_file i fs)) = fs_rdonly fs" by simp_all
    have put: "fs\<lparr>fs_zones := (fs_zones fs)(ZTYPE_SEQ := (fs_zones fs ZTYPE_SEQ)[i := c_zone ?c]),
        fs_inodes := (fs_inodes fs)(zone_ino ?z fs \<mapsto> c_inode ?c)\<rparr> = fs_put i ?c fs"
      unfolding fs_put_def vw dev by simp
    have "zonefs_get_file_inode ZTYPE_SEQ (dec_string i) fs = (Inr (i + 1), fs_put i ?c fs)"
      unfolding lk put [symmetric] using None i D(3,4) by (simp add: const_simps)
    moreover have "zdat (c_dev ?c) = (zdat (fs_dev fs))(file_sector i := zdat (fs_dev fs) (file_sector i))"
      unfolding vw dev by simp
    then have "zonefs_ok B L cap zstart dinv zdat (fs_put i ?c fs) \<and>
        zonefs_data zdat (fs_put i ?c fs) = (zonefs_data zdat fs)(i := zdat (fs_dev fs) (file_sector i))"
      using fs_put_ok [OF ok i] up unfolding vw by blast
    ultimately show thesis using that by simp
  qed
qed

lemma walk_seq_ok:
  assumes ok: "zonefs_ok B L cap zstart dinv zdat fs" and i: "i < ZONE_FILES"
  obtains fs' where "walk_seq mnt (mnt @ ''/seq/'' @ dec_string i) fs = (Inr i, fs')"
    "zonefs_ok B L cap zstart dinv zdat fs'" "zonefs_data zdat fs' = zonefs_data zdat fs"
proof -
  obtain fs' where fs': "zonefs_get_file_inode ZTYPE_SEQ (dec_string i) fs = (Inr (i + 1), fs')"
    "zonefs_ok B L cap zstart dinv zdat fs'" "zonefs_data zdat fs' = zonefs_data zdat fs"
    using get_file_inode_ok [OF ok i] .
  have len: "length (dec_string i) \<le> 16"
    using length_dec_string [of 2 i] i by (simp add: ZONE_FILES_def NUMBER_ZONES_def)
  have "zonefs_lookup (Some ZTYPE_SEQ) (dec_string i) fs = (Inr (i + 1), fs')"
    using fs'(1) len by (simp add: zonefs_lookup_def ZONEFS_NAME_MAX_def)
  moreover have "zonefs_lookup None ''seq'' fs = (Inr (zgroup_ino ZTYPE_SEQ fs), fs)"
    using zonefs_okD(3) [OF ok i]
    by (simp add: zonefs_lookup_def zonefs_get_dir_inode_def zonefs_zgroup_name_def ZONEFS_NAME_MAX_def const_simps)
  ultimately have "walk_seq mnt (mnt @ ''/seq/'' @ dec_string i) fs = (Inr i, fs')"
    using zone_file_index_ok [OF fs'(2) i] by (simp add: walk_seq_def Let_def)
  then show thesis using that fs'(2,3) by blast
qed

section \<open>The interpretation\<close>

lemma fs_put_step:
  assumes "zonefs_ok B L cap zstart dinv zdat fs" "i < ZONE_FILES"
    and "zone_synced cap zstart dinv zdat c" "same_fs (fs_file i fs) c"
    and "zdat (c_dev c) = zdat (fs_dev fs)"
  shows "zonefs_ok B L cap zstart dinv zdat (fs_put i c fs) \<and>
    zonefs_data zdat (fs_put i c fs) = zonefs_data zdat fs"
proof -
  have "zdat (c_dev c) = (zdat (fs_dev fs))(file_sector i := zdat (fs_dev fs) (file_sector i))"
    using assms(5) by simp
  from fs_put_ok [OF assms(1-4) this] show ?thesis by simp
qed

lemma synced_dev:
  "zone_synced cap zstart dinv zdat c \<Longrightarrow> dinv d \<Longrightarrow> zdat d = zdat (c_dev c) \<Longrightarrow>
   zone_synced cap zstart dinv zdat (c\<lparr>c_dev := d\<rparr>) \<and> same_fs c (c\<lparr>c_dev := d\<rparr>)"
  by (auto simp: same_fs_def intro: zone_synced_cong)

interpretation zonefs: zone_store "zonefs_kernel B L mnt K" mnt
    "zonefs_ok B L cap zstart dinv zdat" "zonefs_data zdat"
  for B L mnt K cap zstart dinv zdat
proof
  fix fs i w
  assume ok: "zonefs_ok B L cap zstart dinv zdat fs" and i: "i < ZONE_FILES"
  obtain fs1 where w: "walk_seq mnt (mnt @ ''/seq/'' @ dec_string i) fs = (Inr i, fs1)"
    and ok1: "zonefs_ok B L cap zstart dinv zdat fs1" and dat1: "zonefs_data zdat fs1 = zonefs_data zdat fs"
    using walk_seq_ok [OF ok i] .
  note D1 = zonefs_okD [OF ok1 i]
  obtain c where c: "zonefs_file_open B L w True (fs_file i fs1) = (0, c)"
      "zone_synced cap zstart dinv zdat c" "same_fs (fs_file i fs1) c" "c_dev c = fs_dev fs1"
  proof (cases w)
    case True
    obtain c where c: "zonefs_seq_file_write_open B (fs_file i fs1) = (0, c)"
        "zone_synced cap zstart dinv zdat c" "same_fs (fs_file i fs1) c" "c_dev c = c_dev (fs_file i fs1)"
      using write_open_synced [OF D1(7)] .
    have "zonefs_file_open B L w True (fs_file i fs1) = (0, c)"
      using c(1) True zone_dev.generic_open_ok [OF D1(1)] zone_syncedD(12) [OF D1(7)]
      by (simp add: zonefs_file_open_def zonefs_seq_file_need_wro_def)
    then show ?thesis using that c by simp
  next
    case False
    have "zonefs_file_open B L w True (fs_file i fs1) = (0, fs_file i fs1)"
      using False zone_dev.generic_open_ok [OF D1(1)]
      by (simp add: zonefs_file_open_def zonefs_seq_file_need_wro_def)
    then show ?thesis using that D1(7) by (simp add: same_fs_def)
  qed
  have "zonefs_ok B L cap zstart dinv zdat (fs_put i c fs1) \<and> zonefs_data zdat (fs_put i c fs1) = zonefs_data zdat fs1"
    using fs_put_step [OF ok1 i c(2,3)] c(4) by simp
  then show "\<exists>fs'. zf_open (zonefs_kernel B L mnt K) (mnt @ ''/seq/'' @ dec_string i) w fs = (Inr i, fs') \<and>
      zonefs_ok B L cap zstart dinv zdat fs' \<and> zonefs_data zdat fs' = zonefs_data zdat fs"
    using w c(1) dat1 by (simp add: zonefs_kernel_def)
next
  fix fs i w
  assume ok: "zonefs_ok B L cap zstart dinv zdat fs" and i: "i < ZONE_FILES"
  note D = zonefs_okD [OF ok i]
  let ?c = "snd (zonefs_file_release B w (fs_file i fs))"
  have "zone_synced cap zstart dinv zdat ?c \<and> same_fs (fs_file i fs) ?c \<and> c_dev ?c = fs_dev fs"
    using write_close_synced [OF D(7)] D(7) by (simp add: zonefs_file_release_def same_fs_def)
  then show "zonefs_ok B L cap zstart dinv zdat (zf_close (zonefs_kernel B L mnt K) i w fs) \<and>
      zonefs_data zdat (zf_close (zonefs_kernel B L mnt K) i w fs) = zonefs_data zdat fs"
    using fs_put_step [OF ok i] by (simp add: zonefs_kernel_def)
next
  fix fs i off
  assume ok: "zonefs_ok B L cap zstart dinv zdat fs" and i: "i < ZONE_FILES" and al: "4096 dvd off"
    and below: "off + 4096 \<le> length (zonefs_data zdat fs i)"
  note D = zonefs_okD [OF ok i]
  obtain d where d: "zonefs_file_read_iter B L (direct_iocb off) 4096 (fs_file i fs) =
      ((4096, get_bytes off 4096 (zonefs_data zdat fs i)), (fs_file i fs)\<lparr>c_dev := d\<rparr>)"
      "dinv d" "zdat d = zdat (c_dev (fs_file i fs))"
    using zone_dev.read_synced [OF D(1,7) al] below D(5) by (auto simp: zonefs_data_def)
  have "zonefs_ok B L cap zstart dinv zdat (fs_put i ((fs_file i fs)\<lparr>c_dev := d\<rparr>) fs) \<and>
      zonefs_data zdat (fs_put i ((fs_file i fs)\<lparr>c_dev := d\<rparr>) fs) = zonefs_data zdat fs"
    using synced_dev [OF D(7) d(2,3)] d(3) by (intro fs_put_step [OF ok i]) simp_all
  then show "\<exists>fs'. zf_read (zonefs_kernel B L mnt K) i off 4096 fs =
      ((4096, get_bytes off 4096 (zonefs_data zdat fs i)), fs') \<and>
      zonefs_ok B L cap zstart dinv zdat fs' \<and> zonefs_data zdat fs' = zonefs_data zdat fs"
    using d(1) by (simp add: zonefs_kernel_def)
next
  fix fs i off n
  assume ok: "zonefs_ok B L cap zstart dinv zdat fs" and i: "i < ZONE_FILES"
    and eof: "length (zonefs_data zdat fs i) \<le> off"
  note D = zonefs_okD [OF ok i]
  have r: "zonefs_file_read_iter B L (direct_iocb off) n (fs_file i fs) = ((0, []), fs_file i fs)"
    using zone_dev.read_synced_eof [OF D(1,7)] eof D(5) by (simp add: zonefs_data_def)
  have "zonefs_ok B L cap zstart dinv zdat (fs_put i (fs_file i fs) fs) \<and>
      zonefs_data zdat (fs_put i (fs_file i fs) fs) = zonefs_data zdat fs"
    using D(7) by (intro fs_put_step [OF ok i]) (simp_all add: same_fs_def)
  then show "\<exists>fs'. zf_read (zonefs_kernel B L mnt K) i off n fs = ((0, []), fs') \<and>
      zonefs_ok B L cap zstart dinv zdat fs' \<and> zonefs_data zdat fs' = zonefs_data zdat fs"
    using r by (simp add: zonefs_kernel_def)
next
  fix fs i off and buf :: bytes
  assume ok: "zonefs_ok B L cap zstart dinv zdat fs" and i: "i < ZONE_FILES" and buf: "length buf = 4096"
    and al: "4096 dvd off" and e: "off = length (zonefs_data zdat fs i)" and fits: "off + 4096 \<le> ZONE_SIZE"
  note D = zonefs_okD [OF ok i]
  obtain c where c: "zonefs_file_write_iter B L (direct_iocb off) buf (fs_file i fs) = (4096, c)"
      "zone_synced cap zstart dinv zdat c" "same_fs (fs_file i fs) c"
      "zdat (c_dev c) = (zdat (fs_dev fs))(file_sector i := zonefs_data zdat fs i @ buf)"
    using zone_dev.write_synced [OF D(1,7) buf al] e fits D(5,6) by (auto simp: zonefs_data_def)
  then show "\<exists>fs'. zf_write (zonefs_kernel B L mnt K) i off buf fs = (4096, fs') \<and>
      zonefs_ok B L cap zstart dinv zdat fs' \<and>
      zonefs_data zdat fs' = (zonefs_data zdat fs)(i := zonefs_data zdat fs i @ buf)"
    using fs_put_ok [OF ok i c(2,3,4)] by (simp add: zonefs_kernel_def)
next
  fix fs i off and buf :: bytes
  assume ok: "zonefs_ok B L cap zstart dinv zdat fs" and i: "i < ZONE_FILES" and buf: "length buf = 4096"
    and below: "off < length (zonefs_data zdat fs i)"
  note D = zonefs_okD [OF ok i]
  have r: "zonefs_file_write_iter B L (direct_iocb off) buf (fs_file i fs) = (- EINVAL, fs_file i fs)"
    using zone_dev.write_synced_refused [OF D(1,7) buf] below D(5) by (simp add: zonefs_data_def)
  have "zonefs_ok B L cap zstart dinv zdat (fs_put i (fs_file i fs) fs) \<and>
      zonefs_data zdat (fs_put i (fs_file i fs) fs) = zonefs_data zdat fs"
    using D(7) by (intro fs_put_step [OF ok i]) (simp_all add: same_fs_def)
  then show "\<exists>r fs'. zf_write (zonefs_kernel B L mnt K) i off buf fs = (r, fs') \<and> r < 0 \<and>
      zonefs_ok B L cap zstart dinv zdat fs' \<and> zonefs_data zdat fs' = zonefs_data zdat fs"
    using r by (simp add: zonefs_kernel_def EINVAL_def)
next
  fix fs i
  assume ok: "zonefs_ok B L cap zstart dinv zdat fs" and i: "i < ZONE_FILES"
  then obtain fs1 where "walk_seq mnt (mnt @ ''/seq/'' @ dec_string i) fs = (Inr i, fs1)"
    using walk_seq_ok by metis
  then show "zf_path (zonefs_kernel B L mnt K) (mnt @ ''/seq/'' @ dec_string i) fs = Some i"
    by (simp add: zonefs_kernel_def)
next
  fix fs i
  assume ok: "zonefs_ok B L cap zstart dinv zdat fs" and i: "i < ZONE_FILES"
  note D = zonefs_okD [OF ok i]
  obtain c where c: "zonefs_file_truncate B 0 (fs_file i fs) = (0, c)"
      "zone_synced cap zstart dinv zdat c" "same_fs (fs_file i fs) c"
      "zdat (c_dev c) = (zdat (fs_dev fs))(file_sector i := [])"
    using zone_dev.truncate_synced [OF D(1,7)] D(5) by auto
  then show "\<exists>r fs'. zf_truncate (zonefs_kernel B L mnt K) i 0 fs = (r, fs') \<and>
      zonefs_ok B L cap zstart dinv zdat fs' \<and> zonefs_data zdat fs' = (zonefs_data zdat fs)(i := [])"
    using fs_put_ok [OF ok i c(2,3,4)] by (simp add: zonefs_kernel_def)
qed

section \<open>A concrete mounted device\<close>

definition ram_start :: "nat \<Rightarrow> bool" where
  "ram_start s \<longleftrightarrow> s mod ram_zone_sectors = 0"

definition ram_inv :: "ram \<Rightarrow> bool" where
  "ram_inv d \<longleftrightarrow> (\<forall>s. int (length (d s)) \<le> ram_cap s)"

lemma ram_base_eq:
  assumes "ram_start s" "int k < ram_cap s"
  shows "ram_base (int s * 2 ^ SECTOR_SHIFT + int k) = s"
proof -
  obtain q where q: "s = ram_zone_sectors * q" using assms(1) by (auto simp: ram_start_def dvd_eq_mod_eq_0 [symmetric])
  have k: "k < ram_zone_sectors * 512" using assms(2) by (simp add: ram_cap_def ram_zone_sectors_def SECTOR_SHIFT_def)
  have "nat (int s * 2 ^ SECTOR_SHIFT + int k) = s * 512 + k" by (simp add: SECTOR_SHIFT_def nat_add_distrib nat_mult_distrib)
  moreover have "(s * 512 + k) div 512 = s + k div 512" by simp
  moreover have "k div 512 < ram_zone_sectors" using k by (simp add: less_mult_imp_div_less)
  then have "(s + k div 512) div ram_zone_sectors = q" unfolding q by (simp add: ram_zone_sectors_def)
  ultimately show ?thesis using q by (simp add: ram_base_def SECTOR_SHIFT_def)
qed

lemma ram_dio_done: "ram_finish en (int n) 0 c = dio_done en n c"
  by (simp add: ram_finish_def dio_done_def)

interpretation ram_dev: zone_dev ram_blk ram_lib ram_cap ram_start ram_inv "\<lambda>d. d"
proof
  fix l and c :: "ram zctx"
  show "io_generic_open ram_lib l c = 0" by (simp add: ram_lib_def)
next
  fix c :: "ram zctx" and iocb :: kiocb and m :: iomap and a s en and beg :: "ram iomap_begin" and buf :: bytes
  assume h: "ram_inv (c_dev c)" "buf \<noteq> []" "beg (ki_pos iocb) (int (length buf)) c = Inr m" "im_addr m = Some a"
    "ram_start s" "a + (ki_pos iocb - im_offset m) = int s * 2 ^ SECTOR_SHIFT + int (length (c_dev c s))"
    "int (length (c_dev c s) + length buf) \<le> ram_cap s"
  let ?d = "(c_dev c)(s := c_dev c s @ buf)"
  have b: "ram_base (int s * 2 ^ SECTOR_SHIFT + int (length (c_dev c s))) = s"
    using h(2,5,7) by (intro ram_base_eq) (auto simp: neq_Nil_conv)
  have "io_dio_write ram_lib beg en iocb buf c = dio_done en (length buf) (c\<lparr>c_dev := ?d\<rparr>)"
    using h(7) by (simp add: ram_lib_def ram_dio_write_def h(3,4,6) Let_def b ram_dio_done)
  moreover have "ram_inv ?d" using h(1,7) by (simp add: ram_inv_def)
  ultimately show "\<exists>d. ram_inv d \<and> d = (c_dev c)(s := c_dev c s @ buf) \<and>
      io_dio_write ram_lib beg en iocb buf c = dio_done en (length buf) (c\<lparr>c_dev := d\<rparr>)"
    by blast
next
  fix c :: "ram zctx" and iocb :: kiocb and n and m :: iomap and a s k en and beg :: "ram iomap_begin"
  assume h: "ram_inv (c_dev c)" "0 < n" "beg (ki_pos iocb) (int n) c = Inr m" "im_addr m = Some a"
    "ram_start s" "a + (ki_pos iocb - im_offset m) = int s * 2 ^ SECTOR_SHIFT + int k"
    "k + n \<le> length (c_dev c s)"
  have lt: "int k < ram_cap s" using h(1,2,7) unfolding ram_inv_def
    by (metis add_less_cancel_left le_trans less_le_trans nat_less_as_int not_add_less1 not_le of_nat_less_iff add.right_neutral)
  have b: "ram_base (int s * 2 ^ SECTOR_SHIFT + int k) = s" using h(5) lt by (rule ram_base_eq)
  have off: "nat (int s * 2 ^ SECTOR_SHIFT + int k) - s * 2 ^ SECTOR_SHIFT = k"
    by (simp add: nat_add_distrib nat_mult_distrib nat_power_eq)
  have got: "take n (drop k (c_dev c s)) = get_bytes k n (c_dev c s)" by (simp add: get_bytes_def)
  have len: "length (get_bytes k n (c_dev c s)) = n" using h(7) by (simp add: length_get_bytes)
  have self: "c\<lparr>c_dev := c_dev c\<rparr> = c" by (cases c) simp
  have "io_dio_read ram_lib beg en iocb n c =
      (case dio_done en n (c\<lparr>c_dev := c_dev c\<rparr>) of (r, c') \<Rightarrow> ((r, get_bytes k n (c_dev c s)), c'))"
    by (simp only: ram_lib_def iomap_lib.simps ram_dio_read_def h(3,4,6) Let_def b off got sum.case
        option.case len ram_dio_done self)
  then show "\<exists>d. ram_inv d \<and> d = c_dev c \<and> io_dio_read ram_lib beg en iocb n c =
      (case dio_done en n (c\<lparr>c_dev := d\<rparr>) of (r, c') \<Rightarrow> ((r, get_bytes k n (c_dev c s)), c'))"
    using h(1) by blast
next
  fix d :: ram and s n
  assume "ram_inv d"
  then show "\<exists>d'. bd_zone_mgmt ram_blk ZONE_RESET s n d = (0, d') \<and> ram_inv d' \<and> d' = d(s := [])"
    by (simp add: ram_blk_def ram_inv_def ram_cap_def)
qed

text \<open>The state right after a mount: every zone empty, no inode read yet.\<close>

definition empty_zone :: "nat \<Rightarrow> zonefs_zone" where
  "empty_zone i = \<lparr>z_flags = 1, z_sector = file_sector i, z_size = 268435456, z_capacity = 268435456,
     z_wpoffset = 0, z_mode = 0x81A0, z_uid = 0, z_gid = 0\<rparr>"

definition mounted_fs :: "ram zonefs_state" where
  "mounted_fs = \<lparr>fs_zones = (\<lambda>t. case t of ZTYPE_CNV \<Rightarrow> [] | ZTYPE_SEQ \<Rightarrow> map empty_zone [0..<15]),
     fs_inodes = (\<lambda>_. None), fs_sbi = demo_sbi\<lparr>s_used_blocks := 0, s_active_seq_files := 0\<rparr>,
     fs_rdonly = False, fs_blkbits = 12, fs_nr_zones = 16, fs_dev = (\<lambda>_. [])\<rparr>"

lemma mounted_ok: "zonefs_ok ram_blk ram_lib ram_cap ram_start ram_inv (\<lambda>d. d) mounted_fs"
proof -
  have ez: "\<not> zone_has ZONE_ACTIVE (empty_zone i)" "\<not> zone_has ZONE_FLAG_OPEN (empty_zone i)"
    "\<not> zone_has ZONE_OFFLINE (empty_zone i)" "\<not> zone_has ZONE_READONLY (empty_zone i)"
    "\<not> zone_has ZONE_CNV (empty_zone i)" for i
    by (simp_all add: zone_has_def zone_flag_defs empty_zone_def)
  have nth: "fs_zones mounted_fs ZTYPE_SEQ ! i = empty_zone i" if "i < 15" for i
    using that by (simp add: mounted_fs_def)
  have fl: "zone_synced ram_cap ram_start ram_inv (\<lambda>d. d) (fs_file i mounted_fs)" if "i < 15" for i
    using that ez [of i]
    by (simp add: fs_file_def Let_def nth zone_file_inode_def)
      (simp add: mounted_fs_def demo_sbi_def new_zone_inode_def zone_synced_def zfile_ok_def zfile_bounds_def
        zfile_flags_def zone_is_active_def zonefs_zone_is_seq_def zonefs_zone_is_cnv_def sbi_has_def
        MNTOPT_EXPLICIT_OPEN_def inode_immutable_def fs_view_def,
       simp add: empty_zone_def ram_cap_def ram_zone_sectors_def SECTOR_SHIFT_def ram_start_def
        ram_inv_def file_sector_def)
  show ?thesis unfolding zonefs_ok_def
    using ram_dev.zone_dev_axioms fl nth
    by (simp add: const_simps)
      (simp add: mounted_fs_def demo_sbi_def empty_zone_def ram_cap_def ram_zone_sectors_def SECTOR_SHIFT_def)
qed

end
