(* ===== verification/Hodo_Inode.thy ===== *)
theory Hodo_Inode
  imports Zonefs_Provider
begin

text \<open>
  Inodes whose blocks are all direct, shared by directories and files: what the store maps the
  ten direct pointers to, and the pair of writes (a block, then the inode) that every update of a
  file or directory in \<open>trans.c\<close> ends with. The code that creates files and directories leaves
  the indirect pointers at 0 until a file outgrows ten blocks.
\<close>

section \<open>Block pointers\<close>

text \<open>The pointers of an inode, in the order the loops visit them.\<close>

definition inode_directs :: "bytes \<Rightarrow> u32 list" where
  "inode_directs hi = map (\<lambda>i. hi_direct i hi) [0..<10]"

definition inode_indirects :: "bytes \<Rightarrow> u32 list" where
  "inode_indirects hi = [hi_single hi, hi_double hi, hi_triple hi]"

definition zero_block :: bytes where
  "zero_block = replicate HODO_DATABLOCK_SIZE 0"

definition directs_mapped :: "(u32 \<Rightarrow> bytes option) \<Rightarrow> u32 list \<Rightarrow> bool" where
  "directs_mapped C ls \<longleftrightarrow>
     (\<forall>l \<in> set ls. l \<noteq> 0 \<longrightarrow> (\<exists>b. C l = Some b \<and> length b = 4096 \<and> db_is_dat b \<and> is_directblock b))"

definition inode_ok :: "(u32 \<Rightarrow> bytes option) \<Rightarrow> u32 \<Rightarrow> bytes \<Rightarrow> bool" where
  "inode_ok C dl hi \<longleftrightarrow>
     C dl = Some hi \<and> length hi = 4096 \<and> \<not> db_is_dat hi \<and> hi_ino hi = dl \<and>
     directs_mapped C (inode_directs hi) \<and> distinct (filter is_block_logical_number_valid (inode_directs hi)) \<and>
     hi_single hi = 0 \<and> hi_double hi = 0 \<and> hi_triple hi = 0"

text \<open>The data of the ten blocks, without the 8-byte header that holds the block's number.\<close>

definition data_view :: "(u32 \<Rightarrow> bytes option) \<Rightarrow> bytes \<Rightarrow> bytes option list" where
  "data_view C hi = map (\<lambda>l. if is_block_logical_number_valid l then map_option db_data (C l) else None)
     (inode_directs hi)"

section \<open>Reading\<close>

text \<open>The reads of the file system change nothing but the provider's internal state.\<close>

definition same_store :: "('z \<Rightarrow> bool) \<Rightarrow> ('z \<Rightarrow> nat \<Rightarrow> bytes) \<Rightarrow> 'z hodo_state \<Rightarrow> 'z hodo_state \<Rightarrow> bool" where
  "same_store zinv zdata s s' \<longleftrightarrow>
     (\<exists>z'. s' = s\<lparr>zonefs := z'\<rparr> \<and> zinv z' \<and> zdata z' = zdata (zonefs s))"

lemma same_store_trans:
  "same_store zinv zdata s s' \<Longrightarrow> same_store zinv zdata s' s'' \<Longrightarrow> same_store zinv zdata s s''"
  by (auto simp: same_store_def)

lemma same_store_refl: "store_ok zinv zdata mnt s \<Longrightarrow> same_store zinv zdata s s"
  unfolding same_store_def store_ok_def by (intro exI [of _ "zonefs s"]) simp

lemma same_storeD:
  assumes "same_store zinv zdata s s'"
  shows "store_ok zinv zdata mnt s \<Longrightarrow> store_ok zinv zdata mnt s'"
    "contents zdata s' = contents zdata s" "wp_room zdata Z s' n = wp_room zdata Z s n"
    "num_ok s' l = num_ok s l" "has_free_number s' = has_free_number s" "mapping_info s' = mapping_info s"
    "free_numbers s' = free_numbers s"
  using assms
  by (auto simp: same_store_def store_ok_def contents_def wp_room_def num_ok_def has_free_number_def free_numbers_def
      config_ok_def at_end_def)

lemma directs_mapped_Cons:
  "directs_mapped C (l # ls) \<longleftrightarrow>
     (l \<noteq> 0 \<longrightarrow> (\<exists>b. C l = Some b \<and> length b = 4096 \<and> db_is_dat b \<and> is_directblock b)) \<and> directs_mapped C ls"
  by (simp add: directs_mapped_def)

context zone_store
begin

lemma read_block:
  assumes "store_ok zinv zdata mnt s" "contents zdata s l = Some b" "length buf = 4096"
  obtains s' where "hodo_read_struct K l buf HODO_DATABLOCK_SIZE s = Some (4096, b, s')"
    "same_store zinv zdata s s'" "store_ok zinv zdata mnt s'" "contents zdata s' = contents zdata s"
proof -
  obtain z' where z': "hodo_read_struct K l buf 4096 s = Some (4096, b, s\<lparr>zonefs := z'\<rparr>)"
    "zinv z'" "zdata z' = zdata (zonefs s)" using read_struct [OF assms] by blast
  have "same_store zinv zdata s (s\<lparr>zonefs := z'\<rparr>)" using z' by (auto simp: same_store_def)
  then show thesis using that z'(1) same_storeD(1,2) assms(1) by (metis HODO_DATABLOCK_SIZE_def)
qed

end

section \<open>Updating an inode\<close>

lemma inode_directs_nth [simp]: "j < 10 \<Longrightarrow> inode_directs hi ! j = hi_direct j hi"
  and length_inode_directs [simp]: "length (inode_directs hi) = 10"
  by (simp_all add: inode_directs_def)

lemma length_data_view [simp]: "length (data_view C hi) = 10"
  by (simp add: data_view_def)

lemma inode_directs_eqI: "(\<And>j. j < 10 \<Longrightarrow> hi_direct j hi = xs ! j) \<Longrightarrow> length xs = 10 \<Longrightarrow> inode_directs hi = xs"
  by (rule nth_equalityI) simp_all

text \<open>Setting one field of an inode leaves the others alone.\<close>

lemma set_file_len_frame:
  assumes "length hi = 4096"
  shows "inode_directs (hi_set_file_len v hi) = inode_directs hi" "hi_single (hi_set_file_len v hi) = hi_single hi"
    "hi_double (hi_set_file_len v hi) = hi_double hi" "hi_triple (hi_set_file_len v hi) = hi_triple hi"
    "db_is_dat (hi_set_file_len v hi) = db_is_dat hi" "hi_ino (hi_set_file_len v hi) = hi_ino hi"
    "hi_file_len (hi_set_file_len v hi) = v"
proof -
  show "inode_directs (hi_set_file_len v hi) = inode_directs hi"
    using assms by (intro inode_directs_eqI) (simp_all add: hi_defs layout_simps)
qed (use assms in \<open>simp_all add: hi_defs db_defs layout_simps\<close>)

lemma set_direct_frame:
  assumes "length hi = 4096" "i < 10"
  shows "inode_directs (hi_set_direct i v hi) = (inode_directs hi)[i := v]"
    "hi_single (hi_set_direct i v hi) = hi_single hi"
    "hi_double (hi_set_direct i v hi) = hi_double hi" "hi_triple (hi_set_direct i v hi) = hi_triple hi"
    "db_is_dat (hi_set_direct i v hi) = db_is_dat hi" "hi_ino (hi_set_direct i v hi) = hi_ino hi"
    "hi_file_len (hi_set_direct i v hi) = hi_file_len hi"
proof -
  show "inode_directs (hi_set_direct i v hi) = (inode_directs hi)[i := v]"
    using assms by (intro inode_directs_eqI) (simp_all add: hi_direct_set_direct nth_list_update)
qed (use assms in \<open>simp_all add: hi_defs db_defs layout_simps\<close>)

lemma set_times_frame:
  assumes "length hi = 4096" "length t = 16"
  shows "inode_directs (hi_set_times t hi) = inode_directs hi" "hi_single (hi_set_times t hi) = hi_single hi"
    "hi_double (hi_set_times t hi) = hi_double hi" "hi_triple (hi_set_times t hi) = hi_triple hi"
    "db_is_dat (hi_set_times t hi) = db_is_dat hi" "hi_ino (hi_set_times t hi) = hi_ino hi"
    "hi_file_len (hi_set_times t hi) = hi_file_len hi"
proof -
  show "inode_directs (hi_set_times t hi) = inode_directs hi"
    using assms by (intro inode_directs_eqI) (simp_all add: hi_defs layout_simps length_simps)
qed (use assms in \<open>simp_all add: hi_defs db_defs layout_simps length_simps get_put_other\<close>)

text \<open>Every update stores one block \<open>n\<close> at pointer \<open>i\<close> and then the inode.\<close>

lemma inode_okD:
  assumes "inode_ok C dl hi"
  shows "C dl = Some hi" "length hi = 4096" "\<not> db_is_dat hi" "hi_ino hi = dl"
    "hi_single hi = 0" "hi_double hi = 0" "hi_triple hi = 0"
    "j < 10 \<Longrightarrow> hi_direct j hi \<noteq> 0 \<Longrightarrow>
       \<exists>b. C (hi_direct j hi) = Some b \<and> length b = 4096 \<and> db_is_dat b \<and> is_directblock b"
    "j < 10 \<Longrightarrow> hi_direct j hi \<noteq> 0 \<Longrightarrow> hi_direct j hi \<noteq> dl"
    "distinct (filter is_block_logical_number_valid (inode_directs hi))"
proof -
  show m: "\<exists>b. C (hi_direct j hi) = Some b \<and> length b = 4096 \<and> db_is_dat b \<and> is_directblock b"
    if "j < 10" "hi_direct j hi \<noteq> 0" for j
    using assms that unfolding inode_ok_def directs_mapped_def inode_directs_def by auto
  show "hi_direct j hi \<noteq> dl" if "j < 10" "hi_direct j hi \<noteq> 0"
    using m [OF that] assms unfolding inode_ok_def by auto
qed (use assms in \<open>simp_all add: inode_ok_def\<close>)

lemma distinct_filter_update:
  assumes "distinct (filter P xs)" "i < length xs" "\<forall>j < length xs. j \<noteq> i \<longrightarrow> xs ! j \<noteq> n"
  shows "distinct (filter P (xs[i := n]))"
proof -
  have x: "xs = take i xs @ xs ! i # drop (Suc i) xs" using assms(2) by (rule id_take_nth_drop)
  have "distinct (filter P (take i xs @ xs ! i # drop (Suc i) xs))" using assms(1) x by simp
  moreover have "n \<notin> set (take i xs)" "n \<notin> set (drop (Suc i) xs)"
    using assms(2,3) by (auto simp: in_set_conv_nth)
  ultimately show ?thesis using assms(2) by (auto simp: upd_conv_take_nth_drop split: if_splits)
qed

lemma distinct_filter_nth:
  assumes "distinct (filter P xs)" "i < length xs" "j < length xs" "P (xs ! i)" "xs ! i = xs ! j"
  shows "i = j"
proof (rule ccontr)
  assume ne: "i \<noteq> j"
  have aux: False if "i < j" "j < length xs" "P (xs ! i)" "xs ! i = xs ! j" for i j
  proof -
    have "xs = take j xs @ drop j xs" by simp
    then have d: "distinct (filter P (take j xs) @ filter P (drop j xs))"
      using assms(1) by (metis filter_append)
    have "xs ! i \<in> set (filter P (take j xs))"
      using that by (auto simp: in_set_conv_nth intro: exI [of _ i])
    moreover have "xs ! j \<in> set (filter P (drop j xs))"
      using that by (auto simp: in_set_conv_nth intro!: exI [of _ 0])
    ultimately show False using d that(4) by auto
  qed
  show False using aux [of i j] aux [of j i] ne assms by (metis linorder_neqE_nat)
qed

lemma inode_update:
  assumes ok: "inode_ok C dl hi" and i: "i < 10" and n: "n \<noteq> 0" "n \<noteq> dl"
    and other: "\<forall>j<10. j \<noteq> i \<longrightarrow> hi_direct j hi \<noteq> n"
    and b: "length b = 4096" "db_is_dat b" "is_directblock b"
    and hi': "length hi' = 4096" "\<not> db_is_dat hi'" "hi_ino hi' = dl" "inode_directs hi' = (inode_directs hi)[i := n]"
      "hi_single hi' = 0" "hi_double hi' = 0" "hi_triple hi' = 0"
  shows "inode_ok (C(n \<mapsto> b, dl \<mapsto> hi')) dl hi'"
    and "data_view (C(n \<mapsto> b, dl \<mapsto> hi')) hi' = (data_view C hi)[i := Some (db_data b)]"
proof -
  note D = inode_okD [OF ok]
  let ?C = "C(n \<mapsto> b, dl \<mapsto> hi')"
  have d: "hi_direct j hi' = (if j = i then n else hi_direct j hi)" if "j < 10" for j
    using that hi'(4) i by (metis inode_directs_nth length_inode_directs nth_list_update)
  have "directs_mapped ?C (inode_directs hi')" unfolding directs_mapped_def
  proof (intro ballI impI)
    fix l assume "l \<in> set (inode_directs hi')" "l \<noteq> 0"
    then obtain j where j: "j < 10" "l = hi_direct j hi'" by (auto simp: inode_directs_def)
    then show "\<exists>b. ?C l = Some b \<and> length b = 4096 \<and> db_is_dat b \<and> is_directblock b"
      using d [OF j(1)] D(8,9) [OF j(1)] b n other \<open>l \<noteq> 0\<close> by (auto split: if_splits)
  qed
  moreover have "distinct (filter is_block_logical_number_valid (inode_directs hi'))"
    unfolding hi'(4) using D(10) i other by (intro distinct_filter_update) simp_all
  ultimately show "inode_ok ?C dl hi'" using hi' by (simp add: inode_ok_def)
  show "data_view ?C hi' = (data_view C hi)[i := Some (db_data b)]"
  proof (rule nth_equalityI)
    fix j assume "j < length (data_view ?C hi')"
    then have j: "j < 10" by simp
    show "data_view ?C hi' ! j = (data_view C hi)[i := Some (db_data b)] ! j"
      using d [OF j] D(9) [OF j] j n other
      by (auto simp: data_view_def nth_list_update is_block_logical_number_valid_def)
  qed simp
qed

lemma stamped_simps [simp]:
  assumes "length b = 4096"
  shows "db_is_dat (stamped l b) = db_is_dat b" "is_directblock (stamped l b) = is_directblock b"
    "\<not> db_is_dat b \<Longrightarrow> stamped l b = b"
  using assms by (simp_all add: stamped_def)

lemma db_data_stamped [simp]: "length b = 4096 \<Longrightarrow> db_data (stamped l b) = db_data b"
  by (simp add: stamped_def)

text \<open>Storing \<open>b\<close> as block \<open>n\<close> at pointer \<open>i\<close>, and the inode \<open>hi'\<close>, changes the directory there
  and nothing else in the store.\<close>

definition inode_updated ::
  "('z \<Rightarrow> bool) \<Rightarrow> ('z \<Rightarrow> nat \<Rightarrow> bytes) \<Rightarrow> string \<Rightarrow> u32 \<Rightarrow> bytes \<Rightarrow> nat \<Rightarrow> bytes \<Rightarrow> u32 \<Rightarrow>
     'z hodo_state \<Rightarrow> bytes \<Rightarrow> 'z hodo_state \<Rightarrow> bool"
where
  "inode_updated zinv zdata mnt dl hi i b n s hi' s' \<longleftrightarrow>
     store_ok zinv zdata mnt s' \<and> inode_ok (contents zdata s') dl hi' \<and>
     inode_directs hi' = (inode_directs hi)[i := n] \<and>
     data_view (contents zdata s') hi' = (data_view (contents zdata s) hi)[i := Some (db_data b)] \<and>
     (contents zdata s n = None \<or> n \<in> set (inode_directs hi)) \<and>
     (\<forall>l. l \<noteq> dl \<and> l \<noteq> n \<longrightarrow> contents zdata s' l = contents zdata s l) \<and>
     keeps_disk (zdata (zonefs s)) (zdata (zonefs s'))"

context zone_store
begin

text \<open>The two writes that end every update: block \<open>n\<close> (already written in \<open>s1\<close>) and the inode.\<close>

lemma write_inode:
  assumes ok: "store_ok zinv zdata mnt s1" and room: "wp_room zdata Z s1 (Suc k)" and dl: "num_ok s1 dl"
    and hi': "length hi' = 4096" "\<not> db_is_dat hi'" "hi_ino hi' = dl"
  obtains s2 where "hodo_write_struct K hi' HODO_DATABLOCK_SIZE dl s1 = Some (4096, hi', dl, s2)"
    "store_ok zinv zdata mnt s2" "contents zdata s2 = (contents zdata s1)(dl \<mapsto> hi')" "wp_room zdata Z s2 k"
    "\<And>l. num_ok s2 l = num_ok s1 l" "free_numbers s2 = free_numbers s1"
    "keeps_disk (zdata (zonefs s1)) (zdata (zonefs s2))"
proof -
  obtain s2 where s2: "hodo_write_struct K hi' 4096 dl s1 = Some (4096, stamped dl hi', dl, s2)"
    "store_ok zinv zdata mnt s2" "contents zdata s2 = (contents zdata s1)(dl \<mapsto> stamped dl hi')"
    "wp_room zdata Z s2 k" "\<And>l. num_ok s2 l = num_ok s1 l" "\<And>j. lbit (mapping_info s2) j = lbit (mapping_info s1) j"
    "zdata (zonefs s2) = placed (zdata (zonefs s1)) (wp (mapping_info s1)) (stamped dl hi')"
    using write_existing [OF ok room dl hi'(1)] hi'(3) by metis
  moreover have "keeps_disk (zdata (zonefs s1)) (zdata (zonefs s2))"
    unfolding s2(7) using room hi'(1) by (intro keeps_disk_placed) (simp_all add: wp_room_def at_end_def length_stamped)
  moreover have "free_numbers s2 = free_numbers s1" using s2(6) by (simp add: free_numbers_def)
  ultimately show thesis using that hi'(1,2) by (simp add: HODO_DATABLOCK_SIZE_def)
qed

lemma store_in_block:
  assumes ok: "store_ok zinv zdata mnt s" and dir: "inode_ok (contents zdata s) dl hi"
    and room: "wp_room zdata Z s (Suc (Suc k))" and i: "i < 10" "hi_direct i hi \<noteq> 0"
    and b: "length b = 4096" "db_is_dat b" "is_directblock b"
    and hi': "length hi' = 4096" "\<not> db_is_dat hi'" "hi_ino hi' = dl" "inode_directs hi' = inode_directs hi"
      "hi_single hi' = 0" "hi_double hi' = 0" "hi_triple hi' = 0"
  obtains s1 s2 where
    "hodo_write_struct K b HODO_DATABLOCK_SIZE (hi_direct i hi) s =
       Some (4096, stamped (hi_direct i hi) b, hi_direct i hi, s1)"
    "hodo_write_struct K hi' HODO_DATABLOCK_SIZE dl s1 = Some (4096, hi', dl, s2)"
    "inode_updated zinv zdata mnt dl hi i b (hi_direct i hi) s hi' s2" "wp_room zdata Z s2 k" "num_ok s2 dl" "free_numbers s2 = free_numbers s"
proof -
  let ?l = "hi_direct i hi" and ?C = "contents zdata s"
  note D = inode_okD [OF dir]
  have "mapping_ok (zdata (zonefs s)) (mapping_info s)" using ok by (simp add: store_ok_def)
  note live = num_ok_live [where zdata = zdata and s = s, OF this]
  have nok: "num_ok s ?l" "num_ok s dl" using live D(8) [OF i] D(1) by auto
  obtain s1 where s1: "hodo_write_struct K b 4096 ?l s = Some (4096, stamped ?l b, ?l, s1)"
    "store_ok zinv zdata mnt s1" "contents zdata s1 = ?C(?l \<mapsto> stamped ?l b)" "wp_room zdata Z s1 (Suc k)"
    "num_ok s1 dl" "\<And>j. lbit (mapping_info s1) j = lbit (mapping_info s) j"
    "zdata (zonefs s1) = placed (zdata (zonefs s)) (wp (mapping_info s)) (stamped ?l b)"
    using write_existing [OF ok room nok(1) b(1)] b(2) nok(2) by metis
  have k1: "keeps_disk (zdata (zonefs s)) (zdata (zonefs s1))"
    unfolding s1(7) using room b(1) by (intro keeps_disk_placed) (simp_all add: wp_room_def at_end_def length_stamped)
  obtain s2 where s2: "hodo_write_struct K hi' HODO_DATABLOCK_SIZE dl s1 = Some (4096, hi', dl, s2)"
    "store_ok zinv zdata mnt s2" "contents zdata s2 = (contents zdata s1)(dl \<mapsto> hi')" "wp_room zdata Z s2 k"
    "num_ok s2 dl" "free_numbers s2 = free_numbers s1" "keeps_disk (zdata (zonefs s1)) (zdata (zonefs s2))"
    using write_inode [OF s1(2,4,5) hi'(1-3)] s1(5) by metis
  have o: "\<forall>j<10. j \<noteq> i \<longrightarrow> hi_direct j hi \<noteq> ?l"
    using distinct_filter_nth [OF D(10), of i] i
    by (metis inode_directs_nth is_block_logical_number_valid_def length_inode_directs)
  have sb: "length (stamped ?l b) = 4096" "db_is_dat (stamped ?l b)" "is_directblock (stamped ?l b)"
    using b by (simp_all add: length_stamped)
  have dirs: "inode_directs hi' = (inode_directs hi)[i := ?l]"
    using hi'(4) i(1) by (metis inode_directs_nth list_update_id)
  note up = inode_update [OF dir i D(9) [OF i] o sb hi'(1-3) dirs hi'(5-7)]
  have "?l \<in> set (inode_directs hi)" using i by (auto simp: inode_directs_def)
  then have "inode_updated zinv zdata mnt dl hi i b ?l s hi' s2"
    using s2(2,3) s1(3) up b(1) dirs keeps_disk_trans [OF k1 s2(7)] by (simp add: inode_updated_def)
  moreover have "free_numbers s1 = free_numbers s" using s1(6) by (simp add: free_numbers_def)
  ultimately show thesis using that s1(1) s2(1,4,5,6) by (simp add: HODO_DATABLOCK_SIZE_def)
qed

lemma store_in_new_block:
  assumes ok: "store_ok zinv zdata mnt s" and dir: "inode_ok (contents zdata s) dl hi"
    and room: "wp_room zdata Z s (Suc (Suc k))" and free: "has_free_number s" and i: "i < 10"
    and b: "length b = 4096" "db_is_dat b" "is_directblock b"
    and h: "length h = 4096" "\<not> db_is_dat h" "hi_ino h = dl" "inode_directs h = inode_directs hi"
      "hi_single h = 0" "hi_double h = 0" "hi_triple h = 0"
  obtains s1 s2 n where "hodo_write_struct K b HODO_DATABLOCK_SIZE 0 s = Some (4096, stamped n b, n, s1)"
    "hodo_write_struct K (hi_set_direct i n h) HODO_DATABLOCK_SIZE dl s1 = Some (4096, hi_set_direct i n h, dl, s2)"
    "inode_updated zinv zdata mnt dl hi i b n s (hi_set_direct i n h) s2" "wp_room zdata Z s2 k" "free_numbers s \<le> Suc (free_numbers s2)"
proof -
  let ?C = "contents zdata s"
  note D = inode_okD [OF dir]
  have "mapping_ok (zdata (zonefs s)) (mapping_info s)" using ok by (simp add: store_ok_def)
  note live = num_ok_live [where zdata = zdata and s = s, OF this]
  obtain s1 n where s1: "hodo_write_struct K b 4096 0 s = Some (4096, stamped n b, n, s1)"
    "store_ok zinv zdata mnt s1" "?C n = None" "n \<noteq> 0" "contents zdata s1 = ?C(n \<mapsto> stamped n b)"
    "wp_room zdata Z s1 (Suc k)" "\<And>l. num_ok s l \<Longrightarrow> num_ok s1 l" "free_numbers s \<le> Suc (free_numbers s1)"
    "keeps_disk (zdata (zonefs s)) (zdata (zonefs s1))"
    using write_new [OF ok room free b(1,2)] by metis
  let ?hi' = "hi_set_direct i n h"
  note f = set_direct_frame [OF h(1) i, of n]
  have hi': "length ?hi' = 4096" "\<not> db_is_dat ?hi'" "hi_ino ?hi' = dl"
      "inode_directs ?hi' = (inode_directs hi)[i := n]" "hi_single ?hi' = 0" "hi_double ?hi' = 0" "hi_triple ?hi' = 0"
    using f h i by (simp_all add: length_simps)
  have "num_ok s1 dl" using s1(7) live D(1) by simp
  then obtain s2 where s2: "hodo_write_struct K ?hi' HODO_DATABLOCK_SIZE dl s1 = Some (4096, ?hi', dl, s2)"
    "store_ok zinv zdata mnt s2" "contents zdata s2 = (contents zdata s1)(dl \<mapsto> ?hi')" "wp_room zdata Z s2 k"
    "free_numbers s2 = free_numbers s1" "keeps_disk (zdata (zonefs s1)) (zdata (zonefs s2))"
    using write_inode [OF s1(2,6) _ hi'(1-3)] by metis
  have n: "n \<noteq> dl" "\<forall>j<10. j \<noteq> i \<longrightarrow> hi_direct j hi \<noteq> n"
    using s1(3,4) D(1,8) by (metis option.distinct(1))+
  have sb: "length (stamped n b) = 4096" "db_is_dat (stamped n b)" "is_directblock (stamped n b)"
    using b by (simp_all add: length_stamped)
  note up = inode_update [OF dir i s1(4) n sb hi']
  have "inode_updated zinv zdata mnt dl hi i b n s ?hi' s2"
    using s2(2,3) s1(3,5) up b(1) hi'(4) keeps_disk_trans [OF s1(9) s2(6)] by (simp add: inode_updated_def)
  then show thesis using that s1(1,8) s2(1,4,5) by (simp add: HODO_DATABLOCK_SIZE_def)
qed

end

end
