(* ===== verification/Hodo_Dir.thy ===== *)
theory Hodo_Dir
  imports Hodo_Inode
begin

text \<open>
  Directories in \<open>trans.c\<close>: a directory's inode points at blocks of 40-byte entries, ten
  directly and the rest through up to three levels of indirect blocks. Looking a name up, listing,
  adding and removing an entry, and the emptiness test of \<open>rmdir\<close>.

  A name to look for is the 16 bytes at \<open>target_name\<close>: the code compares the full name field.
  The recursion through indirect blocks follows pointers read from disk, so it need not end: it
  is a \<open>partial_function\<close>, and \<open>None\<close> also stands for a memory fault. The loop index of an
  indirect block and the buffer that is reused across its iterations are arguments.
\<close>

section \<open>Looking a name up\<close>

definition find_inode_number_from_direct_block :: "bytes \<Rightarrow> bytes \<Rightarrow> u64" where
  "find_inode_number_from_direct_block b name =
     (case for_first (\<lambda>k. if de_name (dirent_at k b) = name then Some (de_ino (dirent_at k b)) else None)
             0 DIRENT_SLOTS of
        Some i \<Rightarrow> i
      | None \<Rightarrow> 0)"

partial_function (option) find_inode_number_from_indirect_block ::
  "'z kernel \<Rightarrow> bytes \<Rightarrow> bytes \<Rightarrow> bytes \<Rightarrow> nat \<Rightarrow> 'z hodo_state \<Rightarrow> (u64 \<times> 'z hodo_state) option"
where
  "find_inode_number_from_indirect_block K name b tmp j s =
     (if PTR_LOOP_SLOTS \<le> j then Some (0, s)
      else if \<not> is_block_logical_number_valid (db_ptr j b)
      then find_inode_number_from_indirect_block K name b tmp (j + 1) s
      else do {
        (ret, tmp', s1) \<leftarrow> hodo_read_struct K (db_ptr j b) tmp HODO_DATABLOCK_SIZE s;
        (r, s2) \<leftarrow>
          (if is_directblock tmp' then Some (find_inode_number_from_direct_block tmp' name, s1)
           else case k_kmalloc K 3 of
             None \<Rightarrow> Some (0, s1)
           | Some t \<Rightarrow> find_inode_number_from_indirect_block K name tmp' t 0 s1);
        if r \<noteq> 0 then Some (r, s2)
        else find_inode_number_from_indirect_block K name b tmp' (j + 1) s2
      })"

fun find_in_directs ::
  "'z kernel \<Rightarrow> bytes \<Rightarrow> u32 list \<Rightarrow> bytes \<Rightarrow> 'z hodo_state \<Rightarrow> (u64 \<times> bytes \<times> 'z hodo_state) option"
where
  "find_in_directs K name [] buf s = Some (0, buf, s)"
| "find_in_directs K name (l # ls) buf s =
     (if \<not> is_block_logical_number_valid l then find_in_directs K name ls buf s
      else do {
        (ret, buf', s') \<leftarrow> hodo_read_struct K l buf HODO_DATABLOCK_SIZE s;
        let r = find_inode_number_from_direct_block buf' name;
        if r \<noteq> 0 then Some (r, buf', s') else find_in_directs K name ls buf' s'
      })"

fun find_in_indirects ::
  "'z kernel \<Rightarrow> bytes \<Rightarrow> u32 list \<Rightarrow> bytes \<Rightarrow> 'z hodo_state \<Rightarrow> (u64 \<times> 'z hodo_state) option"
where
  "find_in_indirects K name [] buf s = Some (0, s)"
| "find_in_indirects K name (l # ls) buf s =
     (if \<not> is_block_logical_number_valid l then find_in_indirects K name ls buf s
      else do {
        (ret, buf', s1) \<leftarrow> hodo_read_struct K l buf HODO_DATABLOCK_SIZE s;
        (r, s2) \<leftarrow>
          (case k_kmalloc K 3 of
             None \<Rightarrow> Some (0, s1)
           | Some t \<Rightarrow> find_inode_number_from_indirect_block K name buf' t 0 s1);
        if r \<noteq> 0 then Some (r, s2) else find_in_indirects K name ls buf' s2
      })"

definition find_inode_number ::
  "'z kernel \<Rightarrow> bytes \<Rightarrow> bytes \<Rightarrow> 'z hodo_state \<Rightarrow> (u64 \<times> 'z hodo_state) option"
where
  "find_inode_number K hi name s =
     (case k_kmalloc K 2 of
        None \<Rightarrow> Some (0, s)
      | Some buf \<Rightarrow> do {
          (r, buf', s') \<leftarrow> find_in_directs K name (inode_directs hi) buf s;
          if r \<noteq> 0 then Some (r, s') else find_in_indirects K name (inode_indirects hi) buf' s'
        })"

section \<open>Listing\<close>

text \<open>
  The caller's context and its position, with the count of entries seen so far. A name longer
  than the name field is read beyond it.
\<close>

definition hodo_dir_emit :: "actor \<Rightarrow> dir_context \<Rightarrow> bytes \<Rightarrow> (bool \<times> dir_context) option" where
  "hodo_dir_emit act ctx d =
     (if HODO_MAX_NAME_LEN < unat (de_name_len d) then None
      else Some (dir_emit act (map (\<lambda>b. char_of (unat b)) (take (unat (de_name_len d)) (de_name d)),
                   unat (de_ino d), if de_type d = HODO_TYPE_DIR then DT_DIR else DT_REG) ctx))"

fun emit_dirents :: "actor \<Rightarrow> bytes list \<Rightarrow> dir_context \<times> nat \<Rightarrow> (dir_context \<times> nat) option" where
  "emit_dirents act [] (ctx, cnt) = Some (ctx, cnt)"
| "emit_dirents act (d # ds) (ctx, cnt) =
     (if \<not> is_dirent_valid d then emit_dirents act ds (ctx, cnt)
      else if cnt = ctx_pos ctx
      then do {
        (ok, ctx') \<leftarrow> hodo_dir_emit act ctx d;
        emit_dirents act ds (ctx_next ctx', cnt + 1)
      }
      else emit_dirents act ds (ctx, cnt + 1))"

definition block_dirents :: "bytes \<Rightarrow> bytes list" where
  "block_dirents b = map (\<lambda>k. dirent_at k b) [0..<DIRENT_SLOTS]"

definition read_all_dirents_from_direct_block ::
  "actor \<Rightarrow> bytes \<Rightarrow> dir_context \<times> nat \<Rightarrow> (dir_context \<times> nat) option"
where
  "read_all_dirents_from_direct_block act b = emit_dirents act (block_dirents b)"

partial_function (option) read_all_dirents_from_indirect_block ::
  "'z kernel \<Rightarrow> actor \<Rightarrow> bytes \<Rightarrow> bytes \<Rightarrow> nat \<Rightarrow> dir_context \<times> nat \<Rightarrow> 'z hodo_state \<Rightarrow>
     (int \<times> (dir_context \<times> nat) \<times> 'z hodo_state) option"
where
  "read_all_dirents_from_indirect_block K act b tmp j cc s =
     (if PTR_LOOP_SLOTS \<le> j then Some (1, cc, s)
      else if \<not> is_block_logical_number_valid (db_ptr j b)
      then read_all_dirents_from_indirect_block K act b tmp (j + 1) cc s
      else do {
        (ret, tmp', s1) \<leftarrow> hodo_read_struct K (db_ptr j b) tmp HODO_DATABLOCK_SIZE s;
        (r, cc', s2) \<leftarrow>
          (if is_directblock tmp'
           then do { cc' \<leftarrow> read_all_dirents_from_direct_block act tmp' cc; Some (1, cc', s1) }
           else case k_kmalloc K 5 of
             None \<Rightarrow> Some (0, cc, s1)
           | Some t \<Rightarrow> read_all_dirents_from_indirect_block K act tmp' t 0 cc s1);
        if r = END_READ then Some (r, cc', s2)
        else read_all_dirents_from_indirect_block K act b tmp' (j + 1) cc' s2
      })"

fun read_dirents_directs ::
  "'z kernel \<Rightarrow> actor \<Rightarrow> u32 list \<Rightarrow> bytes \<Rightarrow> dir_context \<times> nat \<Rightarrow> 'z hodo_state \<Rightarrow>
     (bytes \<times> (dir_context \<times> nat) \<times> 'z hodo_state) option"
where
  "read_dirents_directs K act [] buf cc s = Some (buf, cc, s)"
| "read_dirents_directs K act (l # ls) buf cc s =
     (if \<not> is_block_logical_number_valid l then read_dirents_directs K act ls buf cc s
      else do {
        (ret, buf', s') \<leftarrow> hodo_read_struct K l buf HODO_DATABLOCK_SIZE s;
        cc' \<leftarrow> read_all_dirents_from_direct_block act buf' cc;
        read_dirents_directs K act ls buf' cc' s'
      })"

fun read_dirents_indirects ::
  "'z kernel \<Rightarrow> actor \<Rightarrow> u32 list \<Rightarrow> bytes \<Rightarrow> dir_context \<times> nat \<Rightarrow> 'z hodo_state \<Rightarrow>
     ((dir_context \<times> nat) \<times> 'z hodo_state) option"
where
  "read_dirents_indirects K act [] buf cc s = Some (cc, s)"
| "read_dirents_indirects K act (l # ls) buf cc s =
     (if \<not> is_block_logical_number_valid l then read_dirents_indirects K act ls buf cc s
      else do {
        (ret, buf', s1) \<leftarrow> hodo_read_struct K l buf HODO_DATABLOCK_SIZE s;
        (r, cc', s2) \<leftarrow>
          (case k_kmalloc K 5 of
             None \<Rightarrow> Some (0, cc, s1)
           | Some t \<Rightarrow> read_all_dirents_from_indirect_block K act buf' t 0 cc s1);
        if r = END_READ then Some (cc', s2) else read_dirents_indirects K act ls buf' cc' s2
      })"

text \<open>\<open>read_all_dirents\<close> returns \<open>END_READ\<close> on every path, so only the context is left.\<close>

definition read_all_dirents ::
  "'z kernel \<Rightarrow> actor \<Rightarrow> bytes \<Rightarrow> dir_context \<times> nat \<Rightarrow> 'z hodo_state \<Rightarrow>
     (int \<times> (dir_context \<times> nat) \<times> 'z hodo_state) option"
where
  "read_all_dirents K act hi cc s =
     (case k_kmalloc K 4 of
        None \<Rightarrow> Some (END_READ, cc, s)
      | Some buf \<Rightarrow> do {
          (buf', cc1, s1) \<leftarrow> read_dirents_directs K act (inode_directs hi) buf cc s;
          (cc2, s2) \<leftarrow> read_dirents_indirects K act (inode_indirects hi) buf' cc1 s1;
          Some (END_READ, cc2, s2)
        })"

section \<open>Adding an entry\<close>

text \<open>
  The entry to store reuses the 40 bytes it is built in: those of the free slot, or an
  uninitialised automatic object when the entry goes into a new block. Only \<open>name_len\<close> bytes
  of the name are copied; a longer name than the field overruns it.
\<close>

definition stored_dirent :: "bytes \<Rightarrow> bytes \<Rightarrow> bytes" where
  "stored_dirent d sub =
     de_set_type (hi_type sub) (de_set_ino (ucast (hi_ino sub))
       (de_set_name_len (hi_name_len sub) (put_bytes 0 (take (unat (hi_name_len sub)) (hi_name sub)) d)))"

definition new_dirent :: "bytes \<Rightarrow> bytes \<Rightarrow> bytes option" where
  "new_dirent d sub =
     (if HODO_MAX_NAME_LEN < unat (hi_name_len sub) then None else Some (stored_dirent d sub))"

definition free_dirent_slot :: "bytes \<Rightarrow> nat option" where
  "free_dirent_slot b =
     for_first (\<lambda>k. if is_dirent_valid (dirent_at k b) then None else Some k) 0 DIRENT_SLOTS"

text \<open>The outer loop over the ten direct pointers; \<open>hi\<close> is the directory's inode, \<open>dl\<close> its number.\<close>

fun add_dirent_loop ::
  "'z kernel \<Rightarrow> u32 \<Rightarrow> bytes \<Rightarrow> bytes \<Rightarrow> nat list \<Rightarrow> bytes \<Rightarrow> 'z hodo_state \<Rightarrow> (int \<times> 'z hodo_state) option"
where
  "add_dirent_loop K dl sub hi [] buf s = Some (-1, s)"
| "add_dirent_loop K dl sub hi (i # ks) buf s =
     (if hi_direct i hi \<noteq> 0
      then do {
        (ret, buf', s1) \<leftarrow> hodo_read_struct K (hi_direct i hi) buf HODO_DATABLOCK_SIZE s;
        (case free_dirent_slot buf' of
           None \<Rightarrow> add_dirent_loop K dl sub hi ks buf' s1
         | Some k \<Rightarrow> do {
             d \<leftarrow> new_dirent (dirent_at k buf') sub;
             (r1, b1, n1, s2) \<leftarrow>
               hodo_write_struct K (set_dirent_at k d buf') HODO_DATABLOCK_SIZE (hi_direct i hi) s1;
             (r2, b2, n2, s3) \<leftarrow>
               hodo_write_struct K (hi_set_file_len (hi_file_len hi + 1) hi) HODO_DATABLOCK_SIZE dl s2;
             Some (0, s3)
           })
      }
      else do {
        d \<leftarrow> new_dirent (k_stack K 1) sub;
        (r1, b1, n, s2) \<leftarrow>
          hodo_write_struct K (set_dirent_at 0 d (db_set_magic 0x30 zero_block)) HODO_DATABLOCK_SIZE 0 s;
        (r2, b2, n2, s3) \<leftarrow>
          hodo_write_struct K (hi_set_direct i n (hi_set_file_len (hi_file_len hi + 1) hi))
            HODO_DATABLOCK_SIZE dl s2;
        Some (0, s3)
      })"

definition add_dirent :: "'z kernel \<Rightarrow> u64 \<Rightarrow> bytes \<Rightarrow> 'z hodo_state \<Rightarrow> (int \<times> 'z hodo_state) option" where
  "add_dirent K dir_ino sub s =
     do {
       (ret, hi, s1) \<leftarrow> hodo_read_struct K (ucast dir_ino) zero_block HODO_DATABLOCK_SIZE s;
       buf \<leftarrow> k_kmalloc K 6;
       add_dirent_loop K (ucast dir_ino) sub hi [0..<10] buf s1
     }"

section \<open>Removing an entry\<close>

definition dirent_slot :: "bytes \<Rightarrow> bytes \<Rightarrow> nat option" where
  "dirent_slot name b =
     for_first (\<lambda>k. if de_name (dirent_at k b) = name then Some k else None) 0 DIRENT_SLOTS"

definition remove_dirent_from_direct_block ::
  "'z kernel \<Rightarrow> bytes \<Rightarrow> bytes \<Rightarrow> u32 \<Rightarrow> 'z hodo_state \<Rightarrow> (int \<times> u32 \<times> 'z hodo_state) option"
where
  "remove_dirent_from_direct_block K b name l s =
     (case dirent_slot name b of
        None \<Rightarrow> Some (0, l, s)
      | Some k \<Rightarrow> do {
          (ret, l', s') \<leftarrow> compact_datablock K b (dirent_off k) SIZEOF_DIRENT l s;
          Some (1, l', s')
        })"

partial_function (option) remove_dirent_from_indirect_block ::
  "'z kernel \<Rightarrow> bytes \<Rightarrow> bytes \<Rightarrow> bytes \<Rightarrow> nat \<Rightarrow> u32 \<Rightarrow> 'z hodo_state \<Rightarrow>
     (int \<times> u32 \<times> 'z hodo_state) option"
where
  "remove_dirent_from_indirect_block K name b tmp j l s =
     (if PTR_LOOP_SLOTS \<le> j then Some (0, l, s)
      else if \<not> is_block_logical_number_valid (db_ptr j b)
      then remove_dirent_from_indirect_block K name b tmp (j + 1) l s
      else do {
        (ret, tmp', s1) \<leftarrow> hodo_read_struct K (db_ptr j b) tmp HODO_DATABLOCK_SIZE s;
        (r, n, s2) \<leftarrow>
          (if is_directblock tmp' then remove_dirent_from_direct_block K tmp' name (db_ptr j b) s1
           else case k_kmalloc K 8 of
             None \<Rightarrow> Some (0, db_ptr j b, s1)
           | Some t \<Rightarrow> remove_dirent_from_indirect_block K name tmp' t 0 (db_ptr j b) s1);
        if r \<noteq> 0 \<and> is_block_logical_number_valid n
        then do {
          (r2, b2, l', s3) \<leftarrow> hodo_write_struct K (db_set_ptr j n b) HODO_DATABLOCK_SIZE l s2;
          Some (r, l', s3)
        }
        else remove_dirent_from_indirect_block K name b tmp' (j + 1) l s2
      })"

text \<open>
  \<open>remove_dirent\<close> gets the directory's inode and its number (both in-out). Once the entry is gone
  the inode is written back: twice, when the entry was in a direct block. For an entry below an
  indirect block the new pointer goes to a local array only.
\<close>

definition removed_inode :: "'z kernel \<Rightarrow> bytes \<Rightarrow> bytes" where
  "removed_inode K hi = (let h = hi_set_times (k_now K) hi in hi_set_file_len (hi_file_len h - 1) h)"

fun remove_in_directs ::
  "'z kernel \<Rightarrow> bytes \<Rightarrow> nat list \<Rightarrow> bytes \<Rightarrow> bytes \<Rightarrow> u32 \<Rightarrow> 'z hodo_state \<Rightarrow>
     (int \<times> bytes \<times> u32 \<times> bytes \<times> 'z hodo_state) option"
where
  "remove_in_directs K name [] hi buf l s = Some (0, hi, l, buf, s)"
| "remove_in_directs K name (i # ks) hi buf l s =
     (if \<not> is_block_logical_number_valid (hi_direct i hi) then remove_in_directs K name ks hi buf l s
      else do {
        (ret, buf', s1) \<leftarrow> hodo_read_struct K (hi_direct i hi) buf HODO_DATABLOCK_SIZE s;
        (r, n, s2) \<leftarrow> remove_dirent_from_direct_block K buf' name (hi_direct i hi) s1;
        if r \<noteq> 0
        then do {
          let hi' = removed_inode K (hi_set_direct i n hi);
          (r2, hi2, l2, s3) \<leftarrow> hodo_write_struct K hi' HODO_DATABLOCK_SIZE l s2;
          (r3, hi3, l3, s4) \<leftarrow> hodo_write_struct K hi2 HODO_DATABLOCK_SIZE l2 s3;
          Some (r, hi3, l3, buf', s4)
        }
        else remove_in_directs K name ks hi buf' l s2
      })"

fun remove_in_indirects ::
  "'z kernel \<Rightarrow> bytes \<Rightarrow> u32 list \<Rightarrow> bytes \<Rightarrow> bytes \<Rightarrow> u32 \<Rightarrow> 'z hodo_state \<Rightarrow>
     (int \<times> bytes \<times> u32 \<times> 'z hodo_state) option"
where
  "remove_in_indirects K name [] hi buf l s = Some (0, hi, l, s)"
| "remove_in_indirects K name (p # ps) hi buf l s =
     (if \<not> is_block_logical_number_valid p then remove_in_indirects K name ps hi buf l s
      else do {
        (ret, buf', s1) \<leftarrow> hodo_read_struct K p buf HODO_DATABLOCK_SIZE s;
        (r, n, s2) \<leftarrow>
          (case k_kmalloc K 8 of
             None \<Rightarrow> Some (0, p, s1)
           | Some t \<Rightarrow> remove_dirent_from_indirect_block K name buf' t 0 p s1);
        if r \<noteq> 0
        then do {
          (r2, hi2, l2, s3) \<leftarrow> hodo_write_struct K (removed_inode K hi) HODO_DATABLOCK_SIZE l s2;
          Some (r, hi2, l2, s3)
        }
        else remove_in_indirects K name ps hi buf' l s2
      })"

definition remove_dirent ::
  "'z kernel \<Rightarrow> bytes \<Rightarrow> bytes \<Rightarrow> u32 \<Rightarrow> 'z hodo_state \<Rightarrow> (int \<times> bytes \<times> u32 \<times> 'z hodo_state) option"
where
  "remove_dirent K hi name l s =
     (case k_kmalloc K 7 of
        None \<Rightarrow> Some (0, hi, l, s)
      | Some buf \<Rightarrow> do {
          (r, hi1, l1, buf', s1) \<leftarrow> remove_in_directs K name [0..<10] hi buf l s;
          if r \<noteq> 0 then Some (r, hi1, l1, s1)
          else remove_in_indirects K name (inode_indirects hi1) hi1 buf' l1 s1
        })"

section \<open>The emptiness test\<close>

definition check_directory_empty_from_direct_block :: "bytes \<Rightarrow> bool" where
  "check_directory_empty_from_direct_block b \<longleftrightarrow>
     get_bytes HODO_DATA_START HODO_DATA_SIZE b = replicate HODO_DATA_SIZE 0"

partial_function (option) check_directory_empty_from_indirect_block ::
  "'z kernel \<Rightarrow> bytes \<Rightarrow> bytes \<Rightarrow> nat \<Rightarrow> 'z hodo_state \<Rightarrow> (bool \<times> 'z hodo_state) option"
where
  "check_directory_empty_from_indirect_block K b tmp j s =
     (if PTR_LOOP_SLOTS \<le> j then Some (True, s)
      else if \<not> is_block_logical_number_valid (db_ptr j b)
      then check_directory_empty_from_indirect_block K b tmp (j + 1) s
      else do {
        (ret, tmp', s1) \<leftarrow> hodo_read_struct K (db_ptr j b) tmp HODO_DATABLOCK_SIZE s;
        (e, s2) \<leftarrow>
          (if is_directblock tmp' then Some (check_directory_empty_from_direct_block tmp', s1)
           else case k_kmalloc K 10 of
             None \<Rightarrow> Some (True, s1)
           | Some t \<Rightarrow> check_directory_empty_from_indirect_block K tmp' t 0 s1);
        if \<not> e then Some (False, s2) else check_directory_empty_from_indirect_block K b tmp' (j + 1) s2
      })"

fun check_empty_directs ::
  "'z kernel \<Rightarrow> u32 list \<Rightarrow> bytes \<Rightarrow> 'z hodo_state \<Rightarrow> (bool \<times> bytes \<times> 'z hodo_state) option"
where
  "check_empty_directs K [] buf s = Some (True, buf, s)"
| "check_empty_directs K (l # ls) buf s =
     (if \<not> is_block_logical_number_valid l then check_empty_directs K ls buf s
      else do {
        (ret, buf', s1) \<leftarrow> hodo_read_struct K l buf HODO_DATABLOCK_SIZE s;
        if \<not> check_directory_empty_from_direct_block buf' then Some (False, buf', s1)
        else check_empty_directs K ls buf' s1
      })"

fun check_empty_indirects ::
  "'z kernel \<Rightarrow> u32 list \<Rightarrow> bytes \<Rightarrow> 'z hodo_state \<Rightarrow> (bool \<times> 'z hodo_state) option"
where
  "check_empty_indirects K [] buf s = Some (True, s)"
| "check_empty_indirects K (l # ls) buf s =
     (if \<not> is_block_logical_number_valid l then check_empty_indirects K ls buf s
      else do {
        (ret, buf', s1) \<leftarrow> hodo_read_struct K l buf HODO_DATABLOCK_SIZE s;
        (e, s2) \<leftarrow>
          (case k_kmalloc K 10 of
             None \<Rightarrow> Some (True, s1)
           | Some t \<Rightarrow> check_directory_empty_from_indirect_block K buf' t 0 s1);
        if \<not> e then Some (False, s2) else check_empty_indirects K ls buf' s2
      })"

text \<open>
  The directory's number is that of the first inode for the root directory, and its \<open>i_ino\<close>
  otherwise. The inode is read into an uninitialised automatic object.
\<close>

definition dir_number :: "bool \<Rightarrow> u64 \<Rightarrow> 'z hodo_state \<Rightarrow> u32" where
  "dir_number is_root ino s = (if is_root then starting_logical_number (mapping_info s) else ucast ino)"

definition check_directory_empty ::
  "'z kernel \<Rightarrow> bool \<Rightarrow> u64 \<Rightarrow> 'z hodo_state \<Rightarrow> (bool \<times> 'z hodo_state) option"
where
  "check_directory_empty K is_root ino s =
     do {
       (ret, hi, s1) \<leftarrow> hodo_read_struct K (dir_number is_root ino s) (k_stack K 2) HODO_DATABLOCK_SIZE s;
       (case k_kmalloc K 9 of
          None \<Rightarrow> Some (True, s1)
        | Some buf \<Rightarrow> do {
            (e, buf', s2) \<leftarrow> check_empty_directs K (inode_directs hi) buf s1;
            if \<not> e then Some (False, s2) else check_empty_indirects K (inode_indirects hi) buf' s2
          })
     }"


end
