(* ===== verification/Hodo_Dir_Correct.thy ===== *)
theory Hodo_Dir_Correct
  imports Hodo_Dir
begin

text \<open>
  Directories with direct blocks as abstract tables of entries: the reference search, listing,
  insertion and removal on them, and the lemmas that the operations of \<open>trans.c\<close> compute these
  over any provider of \<open>zone_store\<close>.
\<close>

section \<open>Directories with direct blocks only\<close>

text \<open>
  The abstract directory: for each of the ten direct pointers, the 102 entries of the block it
  points at, if any. \<open>C\<close> is the contents of the store. The theorems below are for directories
  whose indirect pointers are 0: the code that adds entries never sets them.
\<close>

type_synonym dir_view = "bytes list option list"

definition dir_view :: "(u32 \<Rightarrow> bytes option) \<Rightarrow> bytes \<Rightarrow> dir_view" where
  "dir_view C hi = map (\<lambda>l. if is_block_logical_number_valid l then map_option block_dirents (C l) else None)
     (inode_directs hi)"

definition view_blocks :: "dir_view \<Rightarrow> bytes list list" where
  "view_blocks v = map the (filter (\<lambda>x. x \<noteq> None) v)"








lemma view_blocks_simps [simp]:
  "view_blocks [] = []" "view_blocks (None # v) = view_blocks v" "view_blocks (Some b # v) = b # view_blocks v"
  by (simp_all add: view_blocks_def)


abbreviation ptr_view :: "(u32 \<Rightarrow> bytes option) \<Rightarrow> u32 list \<Rightarrow> dir_view" where
  "ptr_view C ls \<equiv> map (\<lambda>l. if is_block_logical_number_valid l then map_option block_dirents (C l) else None) ls"

lemma for_first_find:
  "for_first (\<lambda>k. if P (f k) then Some (g (f k)) else None) lo hi = map_option g (find P (map f [lo..<hi]))"
proof (induction "hi - lo" arbitrary: lo)
  case (Suc n)
  then have lt: "lo < hi" by simp
  then have u: "[lo..<hi] = lo # [Suc lo..<hi]" by (rule upt_conv_Cons)
  show ?case
  proof (cases "P (f lo)")
    case True
    then show ?thesis using lt by (simp add: u for_first_hit)
  next
    case False
    then show ?thesis using lt Suc(1) [of "Suc lo"] Suc(2) by (simp add: u for_first_miss)
  qed
qed simp

section \<open>Correctness of look-up\<close>

text \<open>Looking a name up in a view: the first entry of a block with that name decides for the
  block; the number 0 sends the search to the next block.\<close>

definition find_in_entries :: "bytes \<Rightarrow> bytes list \<Rightarrow> u64" where
  "find_in_entries name ds = (case find (\<lambda>d. de_name d = name) ds of Some d \<Rightarrow> de_ino d | None \<Rightarrow> 0)"

fun find_in_view :: "bytes \<Rightarrow> bytes list list \<Rightarrow> u64" where
  "find_in_view name [] = 0"
| "find_in_view name (ds # v) = (let r = find_in_entries name ds in if r \<noteq> 0 then r else find_in_view name v)"

lemma find_direct_block_eq: "find_inode_number_from_direct_block b name = find_in_entries name (block_dirents b)"
  unfolding find_inode_number_from_direct_block_def find_in_entries_def block_dirents_def
  by (simp add: for_first_find [of "\<lambda>d. de_name d = name" "\<lambda>k. dirent_at k b" de_ino] split: option.splits)

context zone_store
begin

lemma find_in_directs_eq:
  assumes "store_ok zinv zdata mnt s" "directs_mapped (contents zdata s) ls" "length buf = 4096"
  shows "\<exists>buf' s'. find_in_directs K name ls buf s =
      Some (find_in_view name (view_blocks (ptr_view (contents zdata s) ls)), buf', s') \<and>
      length buf' = 4096 \<and> same_store zinv zdata s s'"
  using assms
proof (induction ls arbitrary: buf s)
  case Nil
  then show ?case using same_store_refl by auto
next
  case (Cons l ls)
  show ?case
  proof (cases "l = 0")
    case True
    then show ?thesis using Cons by (simp add: is_block_logical_number_valid_def directs_mapped_Cons)
  next
    case False
    then obtain b where b: "contents zdata s l = Some b" "length b = 4096"
      using Cons.prems(2) by (auto simp: directs_mapped_Cons)
    obtain s1 where s1: "hodo_read_struct K l buf HODO_DATABLOCK_SIZE s = Some (4096, b, s1)"
      "same_store zinv zdata s s1" "store_ok zinv zdata mnt s1" "contents zdata s1 = contents zdata s"
      by (rule read_block [OF Cons.prems(1) b(1) Cons.prems(3)])
    obtain buf' s' where "find_in_directs K name ls b s1 =
        Some (find_in_view name (view_blocks (ptr_view (contents zdata s) ls)), buf', s')"
        "length buf' = 4096" "same_store zinv zdata s1 s'"
      using Cons.IH [OF s1(3) _ b(2), unfolded s1(4)] Cons.prems(2) unfolding directs_mapped_Cons by blast
    then show ?thesis using False b s1 same_store_trans [OF s1(2)]
      by (auto simp: is_block_logical_number_valid_def find_direct_block_eq Let_def)
  qed
qed

lemma find_inode_number_ok:
  assumes "store_ok zinv zdata mnt s" "inode_ok (contents zdata s) dl hi"
    and "k_kmalloc K 2 = Some buf" "length buf = 4096"
  obtains s' where "find_inode_number K hi name s =
      Some (find_in_view name (view_blocks (dir_view (contents zdata s) hi)), s')" "same_store zinv zdata s s'"
proof -
  obtain buf' s' where "find_in_directs K name (inode_directs hi) buf s =
      Some (find_in_view name (view_blocks (ptr_view (contents zdata s) (inode_directs hi))), buf', s')"
      "same_store zinv zdata s s'"
    using find_in_directs_eq [OF assms(1) _ assms(4)] assms(2) unfolding inode_ok_def by blast
  moreover have "find_in_indirects K name (inode_indirects hi) b s'' = Some (0, s'')" for b s''
    using assms(2) by (simp add: inode_ok_def inode_indirects_def is_block_logical_number_valid_def)
  ultimately show thesis using assms(3)
    by (intro that [of s']) (simp_all add: find_inode_number_def dir_view_def)
qed

end

section \<open>Correctness of listing\<close>

definition dirent_entry :: "bytes \<Rightarrow> dir_entry" where
  "dirent_entry d = (map (\<lambda>b. char_of (unat b)) (take (unat (de_name_len d)) (de_name d)),
     unat (de_ino d), if de_type d = HODO_TYPE_DIR then DT_DIR else DT_REG)"

definition names_fit :: "bytes list \<Rightarrow> bool" where
  "names_fit ds \<longleftrightarrow> (\<forall>d \<in> set ds. is_dirent_valid d \<longrightarrow> unat (de_name_len d) \<le> HODO_MAX_NAME_LEN)"

text \<open>What the caller's buffer receives when it is offered the entries \<open>es\<close> one by one.\<close>

definition offer :: "actor \<Rightarrow> dir_entry list \<Rightarrow> dir_entry list \<Rightarrow> dir_entry list" where
  "offer act out es = foldl (\<lambda>o' e. if act o' e then o' @ [e] else o') out es"

lemma emit_dirents_append:
  "emit_dirents act (xs @ ys) cc = emit_dirents act xs cc \<bind> emit_dirents act ys"
proof (induction xs arbitrary: cc)
  case Nil
  then show ?case by (cases cc) simp
next
  case (Cons d xs)
  obtain ctx cnt where "cc = (ctx, cnt)" by (cases cc)
  then show ?case using Cons by (cases "hodo_dir_emit act ctx d") auto
qed

lemma emit_dirents_spec:
  assumes "names_fit ds" "cnt \<le> ctx_pos ctx"
  shows "emit_dirents act ds (ctx, cnt) =
    (let vs = filter is_dirent_valid ds in
     Some (\<lparr>ctx_pos = max (ctx_pos ctx) (cnt + length vs),
            ctx_out = offer act (ctx_out ctx) (map dirent_entry (drop (ctx_pos ctx - cnt) vs))\<rparr>,
           cnt + length vs))"
  using assms
proof (induction ds arbitrary: ctx cnt)
  case Nil
  then show ?case by (simp add: offer_def)
next
  case (Cons d ds)
  have fit: "names_fit ds" using Cons.prems(1) by (simp add: names_fit_def)
  show ?case
  proof (cases "is_dirent_valid d")
    case False
    then show ?thesis using Cons.IH [OF fit Cons.prems(2)] by simp
  next
    case True
    then have len: "unat (de_name_len d) \<le> HODO_MAX_NAME_LEN" using Cons.prems(1) by (simp add: names_fit_def)
    show ?thesis
    proof (cases "cnt = ctx_pos ctx")
      case True
      have e: "hodo_dir_emit act ctx d = Some (dir_emit act (dirent_entry d) ctx)"
        using len by (simp add: hodo_dir_emit_def dirent_entry_def)
      let ?c = "ctx_next (snd (dir_emit act (dirent_entry d) ctx))"
      have c: "ctx_pos ?c = ctx_pos ctx + 1" "ctx_out ?c = offer act (ctx_out ctx) [dirent_entry d]"
        by (simp_all add: dir_emit_def ctx_next_def offer_def)
      have step: "emit_dirents act (d # ds) (ctx, cnt) = emit_dirents act ds (?c, cnt + 1)"
        using \<open>is_dirent_valid d\<close> True e by (simp add: case_prod_unfold)
      show ?thesis unfolding step
        using Cons.IH [OF fit, of "cnt + 1" ?c] c True \<open>is_dirent_valid d\<close>
        by (simp add: offer_def Let_def)
    next
      case False
      then have lt: "cnt + 1 \<le> ctx_pos ctx" using Cons.prems(2) by simp
      then have "ctx_pos ctx - cnt = Suc (ctx_pos ctx - (cnt + 1))" by simp
      then show ?thesis using Cons.IH [OF fit lt] False \<open>is_dirent_valid d\<close>
        by (simp add: Let_def)
    qed
  qed
qed

context zone_store
begin

lemma read_dirents_directs_eq:
  assumes "store_ok zinv zdata mnt s" "directs_mapped (contents zdata s) ls" "length buf = 4096"
    and "emit_dirents act (concat (view_blocks (ptr_view (contents zdata s) ls))) cc = Some cc'"
  shows "\<exists>buf' s'. read_dirents_directs K act ls buf cc s = Some (buf', cc', s') \<and>
      length buf' = 4096 \<and> same_store zinv zdata s s'"
  using assms
proof (induction ls arbitrary: buf s cc)
  case Nil
  then show ?case using same_store_refl by (cases cc) auto
next
  case (Cons l ls)
  show ?case
  proof (cases "l = 0")
    case True
    then show ?thesis using Cons by (simp add: is_block_logical_number_valid_def directs_mapped_Cons)
  next
    case False
    then obtain b where b: "contents zdata s l = Some b" "length b = 4096"
      using Cons.prems(2) by (auto simp: directs_mapped_Cons)
    obtain s1 where s1: "hodo_read_struct K l buf HODO_DATABLOCK_SIZE s = Some (4096, b, s1)"
      "same_store zinv zdata s s1" "store_ok zinv zdata mnt s1" "contents zdata s1 = contents zdata s"
      by (rule read_block [OF Cons.prems(1) b(1) Cons.prems(3)])
    have "emit_dirents act (block_dirents b @ concat (view_blocks (ptr_view (contents zdata s) ls))) cc = Some cc'"
      using Cons.prems(4) False b by (simp add: is_block_logical_number_valid_def)
    then obtain cc1 where cc1: "emit_dirents act (block_dirents b) cc = Some cc1"
      "emit_dirents act (concat (view_blocks (ptr_view (contents zdata s) ls))) cc1 = Some cc'"
      unfolding emit_dirents_append bind_eq_Some_conv by blast
    obtain buf' s' where "read_dirents_directs K act ls b cc1 s1 = Some (buf', cc', s')"
        "length buf' = 4096" "same_store zinv zdata s1 s'"
      using Cons.IH [OF s1(3) _ b(2), unfolded s1(4), OF _ cc1(2)] Cons.prems(2)
      unfolding directs_mapped_Cons by blast
    then show ?thesis using False s1 cc1(1) same_store_trans [OF s1(2)]
      by (auto simp: is_block_logical_number_valid_def read_all_dirents_from_direct_block_def)
  qed
qed

lemma read_all_dirents_ok:
  assumes "store_ok zinv zdata mnt s" "inode_ok (contents zdata s) dl hi"
    and "k_kmalloc K 4 = Some buf" "length buf = 4096"
    and "names_fit (concat (view_blocks (dir_view (contents zdata s) hi)))" "cnt \<le> ctx_pos ctx"
    and "vs = filter is_dirent_valid (concat (view_blocks (dir_view (contents zdata s) hi)))"
  obtains s' where "read_all_dirents K act hi (ctx, cnt) s =
      Some (END_READ, (\<lparr>ctx_pos = max (ctx_pos ctx) (cnt + length vs),
          ctx_out = offer act (ctx_out ctx) (map dirent_entry (drop (ctx_pos ctx - cnt) vs))\<rparr>,
        cnt + length vs), s')" "same_store zinv zdata s s'"
proof -
  have em: "emit_dirents act (concat (view_blocks (ptr_view (contents zdata s) (inode_directs hi)))) (ctx, cnt) =
      Some (\<lparr>ctx_pos = max (ctx_pos ctx) (cnt + length vs),
          ctx_out = offer act (ctx_out ctx) (map dirent_entry (drop (ctx_pos ctx - cnt) vs))\<rparr>,
        cnt + length vs)"
    using emit_dirents_spec [OF assms(5,6), of act] unfolding assms(7) dir_view_def by (simp only: Let_def)
  obtain buf' s' where r: "read_dirents_directs K act (inode_directs hi) buf (ctx, cnt) s =
      Some (buf', (\<lparr>ctx_pos = max (ctx_pos ctx) (cnt + length vs),
          ctx_out = offer act (ctx_out ctx) (map dirent_entry (drop (ctx_pos ctx - cnt) vs))\<rparr>,
        cnt + length vs), s')" "same_store zinv zdata s s'"
    using read_dirents_directs_eq [OF assms(1) _ assms(4) em] assms(2) unfolding inode_ok_def by blast
  moreover have "read_dirents_indirects K act (inode_indirects hi) b cc s'' = Some (cc, s'')" for b cc s''
    using assms(2) by (simp add: inode_ok_def inode_indirects_def is_block_logical_number_valid_def)
  ultimately show thesis using assms(3)
    by (intro that [of s']) (simp_all add: read_all_dirents_def)
qed

end

section \<open>Updating a directory\<close>



lemma length_dir_view [simp]: "length (dir_view C hi) = 10"
  by (simp add: dir_view_def)

lemma length_block_dirents [simp]: "length (block_dirents b) = DIRENT_SLOTS"
  by (simp add: block_dirents_def)

lemma block_dirents_nth [simp]: "k < DIRENT_SLOTS \<Longrightarrow> block_dirents b ! k = dirent_at k b"
  by (simp add: block_dirents_def)










text \<open>The entries are a function of a block's data, so an update of the data is one of the entries.\<close>

definition data_dirents :: "bytes \<Rightarrow> bytes list" where
  "data_dirents d = map (\<lambda>k. get_bytes (k * SIZEOF_DIRENT) SIZEOF_DIRENT d) [0..<DIRENT_SLOTS]"

lemma block_dirents_data: "block_dirents b = data_dirents (db_data b)"
  by (simp add: block_dirents_def data_dirents_def dirent_at_def dirent_off_def db_data_def get_bytes_def add.commute)

lemma block_dirents_comp: "block_dirents = (\<lambda>b. data_dirents (db_data b))"
  by (simp add: block_dirents_data fun_eq_iff)

lemma dir_view_data: "dir_view C hi = map (map_option data_dirents) (data_view C hi)"
  by (simp add: dir_view_def data_view_def block_dirents_comp option.map_comp comp_def)

lemma inode_updated_view:
  assumes "inode_updated zinv zdata mnt dl hi i b n s hi' s'"
  shows "dir_view (contents zdata s') hi' = (dir_view (contents zdata s) hi)[i := Some (block_dirents b)]"
  using assms by (simp add: inode_updated_def dir_view_data map_update block_dirents_data)

lemma block_dirents_set:
  assumes "length b = 4096" "k < DIRENT_SLOTS" "length d = 40"
  shows "block_dirents (set_dirent_at k d b) = (block_dirents b)[k := d]"
  using assms by (intro nth_equalityI) (simp_all add: dirent_at_set nth_list_update)

lemma block_dirents_stamped: "length b = 4096 \<Longrightarrow> block_dirents (stamped l b) = block_dirents b"
  by (simp add: block_dirents_def stamped_def)


section \<open>Correctness of adding an entry\<close>

text \<open>
  The reference on the abstract directory: the entry goes into the first free slot of the first
  block that has one, or into a new block at the first null pointer before that.
\<close>

definition free_entry :: "bytes list \<Rightarrow> nat option" where
  "free_entry ds = find (\<lambda>k. \<not> is_dirent_valid (ds ! k)) [0..<length ds]"

definition zero_dirent :: bytes where
  "zero_dirent = replicate SIZEOF_DIRENT 0"

definition new_entries :: "bytes \<Rightarrow> bytes list" where
  "new_entries d = d # replicate (DIRENT_SLOTS - 1) zero_dirent"

fun add_to_view :: "bytes \<Rightarrow> bytes \<Rightarrow> dir_view \<Rightarrow> dir_view option" where
  "add_to_view junk sub [] = None"
| "add_to_view junk sub (None # v) = Some (Some (new_entries (stored_dirent junk sub)) # v)"
| "add_to_view junk sub (Some ds # v) =
     (case free_entry ds of
        Some k \<Rightarrow> Some (Some (ds[k := stored_dirent (ds ! k) sub]) # v)
      | None \<Rightarrow> map_option (Cons (Some ds)) (add_to_view junk sub v))"

lemma free_dirent_slot_eq: "free_dirent_slot b = free_entry (block_dirents b)"
proof -
  have "free_dirent_slot b = for_first (\<lambda>k. if \<not> is_dirent_valid (dirent_at k b) then Some k else None) 0 DIRENT_SLOTS"
    unfolding free_dirent_slot_def by (rule for_first_cong) simp
  also have "\<dots> = find (\<lambda>k. \<not> is_dirent_valid (dirent_at k b)) [0..<DIRENT_SLOTS]"
    using for_first_find [of "\<lambda>k. \<not> is_dirent_valid (dirent_at k b)" "\<lambda>k. k" "\<lambda>k. k" 0 DIRENT_SLOTS]
    by (simp add: option.map_ident)
  also have "\<dots> = free_entry (block_dirents b)"
    unfolding free_entry_def by (rule find_cong) simp_all
  finally show ?thesis .
qed

lemma free_entry_SomeD: "free_entry ds = Some k \<Longrightarrow> k < length ds \<and> \<not> is_dirent_valid (ds ! k)"
  by (auto simp: free_entry_def find_Some_iff)

lemma length_stored_dirent [length_simps]:
  "length d = 40 \<Longrightarrow> unat (hi_name_len sub) \<le> 16 \<Longrightarrow> length (stored_dirent d sub) = 40"
  by (simp add: stored_dirent_def de_defs hi_name_def length_simps get_bytes_def)

lemma new_block_props:
  assumes "length d = 40"
  shows "length (set_dirent_at 0 d (db_set_magic 0x30 zero_block)) = 4096"
    "db_is_dat (set_dirent_at 0 d (db_set_magic 0x30 zero_block))"
    "is_directblock (set_dirent_at 0 d (db_set_magic 0x30 zero_block))"
    "block_dirents (set_dirent_at 0 d (db_set_magic 0x30 zero_block)) = new_entries d"
proof -
  have z: "length zero_block = 4096" by (simp add: zero_block_def HODO_DATABLOCK_SIZE_def)
  then have m: "length (db_set_magic 0x30 zero_block) = 4096" by (rule length_db_set_magic)
  have s: "0 < DIRENT_SLOTS" by (simp add: DIRENT_SLOTS_def)
  show "length (set_dirent_at 0 d (db_set_magic 0x30 zero_block)) = 4096"
    "db_is_dat (set_dirent_at 0 d (db_set_magic 0x30 zero_block))"
    "is_directblock (set_dirent_at 0 d (db_set_magic 0x30 zero_block))"
    using m s z assms by (simp_all add: length_set_dirent_at is_directblock_def)
  have "dirent_at k (db_set_magic 0x30 zero_block) = zero_dirent" if "k < DIRENT_SLOTS" for k
    using that z
    by (simp add: dirent_at_def dirent_off_def db_set_magic_def const_simps get_put_other zero_dirent_def)
      (simp add: zero_block_def get_bytes_def const_simps min_def)
  then show "block_dirents (set_dirent_at 0 d (db_set_magic 0x30 zero_block)) = new_entries d"
    using s by (subst block_dirents_set [OF m s assms], intro nth_equalityI)
      (auto simp: new_entries_def nth_list_update nth_Cons split: nat.splits)
qed



context zone_store
begin




lemma add_dirent_loop_ok:
  assumes ok: "store_ok zinv zdata mnt s" and dir: "inode_ok (contents zdata s) dl hi"
    and room: "wp_room zdata Z s (2 + k)" and free: "has_free_number s"
    and sub: "unat (hi_name_len sub) \<le> 16" and junk: "length (k_stack K 1) = 40"
    and buf: "length buf = 4096" and i: "i \<le> 10"
  shows "case add_to_view (k_stack K 1) sub (drop i (dir_view (contents zdata s) hi)) of
      None \<Rightarrow> \<exists>s'. add_dirent_loop K dl sub hi [i..<10] buf s = Some (-1, s') \<and> same_store zinv zdata s s'
    | Some v \<Rightarrow> \<exists>s1 s' hi' n j b. add_dirent_loop K dl sub hi [i..<10] buf s = Some (0, s') \<and>
        same_store zinv zdata s s1 \<and> inode_updated zinv zdata mnt dl hi j b n s1 hi' s' \<and>
        dir_view (contents zdata s') hi' = take i (dir_view (contents zdata s) hi) @ v \<and>
        hi_file_len hi' = hi_file_len hi + 1 \<and> wp_room zdata Z s' k \<and> free_numbers s \<le> Suc (free_numbers s')"
  using ok dir room free buf i
proof (induction "10 - i" arbitrary: i buf s)
  case 0
  then show ?case using same_store_refl by auto
next
  case (Suc m)
  then have lt: "i < 10" by simp
  then have upt: "[i..<10] = i # [Suc i..<10]" by (rule upt_conv_Cons)
  let ?C = "contents zdata s" and ?v = "dir_view (contents zdata s) hi" and ?l = "hi_direct i hi"
  let ?h = "hi_set_file_len (hi_file_len hi + 1) hi"
  note D = inode_okD [OF Suc.prems(2)] and f = set_file_len_frame [of hi]
  have v: "drop i ?v = ?v ! i # drop (Suc i) ?v" using lt by (simp add: Cons_nth_drop_Suc)
  have vi: "?v ! i = (if ?l \<noteq> 0 then map_option block_dirents (?C ?l) else None)"
    using lt by (simp add: dir_view_def is_block_logical_number_valid_def)
  have upd: "?v[i := x] = take i ?v @ x # drop (Suc i) ?v" for x
    using lt by (simp add: upd_conv_take_nth_drop)
  have room: "wp_room zdata Z s (Suc (Suc k))" using Suc.prems(3) by simp
  have h: "length ?h = 4096" "\<not> db_is_dat ?h" "hi_ino ?h = dl" "inode_directs ?h = inode_directs hi"
      "hi_single ?h = 0" "hi_double ?h = 0" "hi_triple ?h = 0"
    using D(2-7) f by (simp_all add: length_simps)
  show ?case
  proof (cases "?l = 0")
    case True
    let ?d = "stored_dirent (k_stack K 1) sub"
    have d: "length ?d = 40" "new_dirent (k_stack K 1) sub = Some ?d"
      using sub junk by (simp_all add: length_stored_dirent new_dirent_def HODO_MAX_NAME_LEN_def)
    note b = new_block_props [OF d(1)]
    let ?b = "set_dirent_at 0 ?d (db_set_magic 0x30 zero_block)"
    obtain s1 s2 n where w: "hodo_write_struct K ?b HODO_DATABLOCK_SIZE 0 s = Some (4096, stamped n ?b, n, s1)"
      "hodo_write_struct K (hi_set_direct i n ?h) HODO_DATABLOCK_SIZE dl s1 = Some (4096, hi_set_direct i n ?h, dl, s2)"
      "inode_updated zinv zdata mnt dl hi i ?b n s (hi_set_direct i n ?h) s2" "wp_room zdata Z s2 k"
      "free_numbers s \<le> Suc (free_numbers s2)"
      by (rule store_in_new_block [OF Suc.prems(1,2) room Suc.prems(4) lt b(1-3) h])
    have "hi_file_len (hi_set_direct i n ?h) = hi_file_len hi + 1"
      using set_direct_frame(7) [OF h(1) lt] f(7) D(2) by simp
    moreover have "add_dirent_loop K dl sub hi [i..<10] buf s = Some (0, s2)"
      using True d(2) w(1,2) by (simp add: upt)
    moreover have "dir_view (contents zdata s2) (hi_set_direct i n ?h) = take i ?v @ Some (new_entries ?d) # drop (Suc i) ?v"
      using inode_updated_view [OF w(3)] b(4) upd by simp
    moreover have "add_to_view (k_stack K 1) sub (drop i ?v) = Some (Some (new_entries ?d) # drop (Suc i) ?v)"
      unfolding v vi using True by simp
    ultimately show ?thesis using w(3-5) same_store_refl [OF Suc.prems(1)] by (simp, blast)
  next
    case False
    obtain b where b: "?C ?l = Some b" "length b = 4096" "db_is_dat b" "is_directblock b"
      using D(8) [OF lt False] by blast
    obtain s1 where s1: "hodo_read_struct K ?l buf HODO_DATABLOCK_SIZE s = Some (4096, b, s1)"
      "same_store zinv zdata s s1" "store_ok zinv zdata mnt s1" "contents zdata s1 = ?C"
      by (rule read_block [OF Suc.prems(1) b(1) Suc.prems(5)])
    have v1: "drop i ?v = Some (block_dirents b) # drop (Suc i) ?v" unfolding v vi using False b by simp
    show ?thesis
    proof (cases "free_entry (block_dirents b)")
      case None
      have step: "add_dirent_loop K dl sub hi [i..<10] buf s = add_dirent_loop K dl sub hi [Suc i..<10] b s1"
        using False s1(1) None by (simp add: upt free_dirent_slot_eq)
      note ih = Suc.hyps(1) [of "Suc i" s1 b, unfolded s1(4) same_storeD(3,5,7) [OF s1(2)]]
      have tk: "take (Suc i) ?v = take i ?v @ [Some (block_dirents b)]"
        using lt v1 v by (simp add: take_Suc_conv_app_nth)
      show ?thesis
        using ih Suc.hyps(2) Suc.prems(2-4) s1(3) b(2) lt None same_store_trans [OF s1(2)]
        unfolding step v1 tk
        by (cases "add_to_view (k_stack K 1) sub (drop (Suc i) ?v)") (fastforce+)
    next
      case (Some q)
      let ?d = "stored_dirent (dirent_at q b) sub"
      have q: "q < DIRENT_SLOTS" using free_entry_SomeD [OF Some] by simp
      have d: "length ?d = 40" "new_dirent (dirent_at q b) sub = Some ?d"
        using sub b(2) q by (simp_all add: length_stored_dirent length_dirent_at new_dirent_def HODO_MAX_NAME_LEN_def)
      let ?b = "set_dirent_at q ?d b"
      have lb: "length ?b = 4096" "db_is_dat ?b" "is_directblock ?b" "block_dirents ?b = (block_dirents b)[q := ?d]"
        using b q d by (simp_all add: length_set_dirent_at is_directblock_def block_dirents_set)
      obtain s2 s3 where w: "hodo_write_struct K ?b HODO_DATABLOCK_SIZE ?l s1 = Some (4096, stamped ?l ?b, ?l, s2)"
        "hodo_write_struct K ?h HODO_DATABLOCK_SIZE dl s2 = Some (4096, ?h, dl, s3)"
        "inode_updated zinv zdata mnt dl hi i ?b ?l s1 ?h s3" "wp_room zdata Z s3 k" "free_numbers s3 = free_numbers s1"
        using store_in_block [OF s1(3), unfolded s1(4), OF Suc.prems(2) room [folded same_storeD(3) [OF s1(2)]] lt False lb(1-3) h] .
      have "add_dirent_loop K dl sub hi [i..<10] buf s = Some (0, s3)"
        using False s1(1) Some d(2) w(1,2) by (simp add: upt free_dirent_slot_eq)
      moreover have "dir_view (contents zdata s3) ?h =
          take i ?v @ Some ((block_dirents b)[q := ?d]) # drop (Suc i) ?v"
        using inode_updated_view [OF w(3)] lb(4) upd s1(4) by simp
      moreover have "add_to_view (k_stack K 1) sub (drop i ?v) =
          Some (Some ((block_dirents b)[q := ?d]) # drop (Suc i) ?v)"
        unfolding v1 using Some q by simp
      ultimately show ?thesis using w(3-5) s1(2) same_storeD(7) [OF s1(2)] f(7) D(2) by (simp, blast)
    qed
  qed
qed

end

section \<open>Look-up after an insertion\<close>

text \<open>The name an entry gets: the new name, then whatever the slot held after it.\<close>

definition stored_name :: "bytes \<Rightarrow> bytes \<Rightarrow> bytes" where
  "stored_name d sub =
     take (unat (hi_name_len sub)) (hi_name sub) @ drop (unat (hi_name_len sub)) (de_name d)"

lemma stored_dirent_fields:
  assumes "length d = 40" "unat (hi_name_len sub) \<le> 16" "length sub = 4096"
  shows "de_name (stored_dirent d sub) = stored_name d sub" "de_ino (stored_dirent d sub) = ucast (hi_ino sub)"
    "de_type (stored_dirent d sub) = hi_type sub" "de_name_len (stored_dirent d sub) = hi_name_len sub"
proof -
  let ?n = "unat (hi_name_len sub)" and ?x = "take (unat (hi_name_len sub)) (hi_name sub)"
  have n: "length ?x = ?n" using assms by (simp add: hi_name_def length_get_bytes)
  have p: "length (put_bytes 0 ?x d) = 40" using assms n by (simp add: length_put_bytes)
  have "get_bytes 0 16 (put_bytes 0 ?x d) = stored_name d sub"
    using assms n by (simp add: get_bytes_def put_bytes_def stored_name_def de_name_def take_drop)
  then show "de_name (stored_dirent d sub) = stored_name d sub"
    using p by (simp add: stored_dirent_def de_defs layout_simps length_simps)
qed (use assms in \<open>simp_all add: stored_dirent_def de_defs layout_simps length_simps hi_name_def\<close>)

definition view_dirents :: "dir_view \<Rightarrow> bytes list" where
  "view_dirents v = concat (view_blocks v)"

lemma find_in_view_none:
  "(\<forall>d \<in> set (concat bs). de_name d \<noteq> name) \<Longrightarrow> find_in_view name bs = 0"
proof (induction bs)
  case (Cons ds bs)
  then have "find (\<lambda>d. de_name d = name) ds = None" by (simp add: find_None_iff)
  then show ?case using Cons by (simp add: find_in_entries_def)
qed simp

lemma find_update:
  assumes "k < length ds" "\<forall>d \<in> set ds. \<not> P d" "P x"
  shows "find P (ds[k := x]) = Some x"
  using assms
proof (induction ds arbitrary: k)
  case (Cons d ds)
  then show ?case by (cases k) auto
qed simp

lemma find_update_other:
  assumes "k < length ds" "\<not> P (ds ! k)" "\<not> P x"
  shows "find P (ds[k := x]) = find P ds"
  using assms
proof (induction ds arbitrary: k)
  case (Cons d ds)
  then show ?case by (cases k) auto
qed simp

lemma ucast_u32_u64_zero: "(ucast (x :: u32) :: u64) = 0 \<longleftrightarrow> x = 0"
proof
  assume h: "(ucast x :: u64) = 0"
  have "\<not> bit x n" for n
  proof
    assume b: "bit x n"
    then have "n < 32" using bit_imp_le_length [of x n] by simp
    then have "bit (ucast x :: u64) n" using b by (simp add: bit_ucast_iff)
    then show False using h by simp
  qed
  then show "x = 0" by (simp add: bit_eq_iff)
qed simp

lemma find_after_add:
  assumes "add_to_view junk sub v = Some v'"
    and len: "length junk = 40" "\<forall>d \<in> set (view_dirents v). length d = 40"
    and sub: "length sub = 4096" "unat (hi_name_len sub) \<le> 16" "hi_ino sub \<noteq> 0"
    and fresh: "\<forall>d \<in> set (view_dirents v). de_name d \<noteq> name"
    and tails: "\<forall>d \<in> insert junk {d \<in> set (view_dirents v). \<not> is_dirent_valid d}. stored_name d sub = name"
  shows "find_in_view name (view_blocks v') = ucast (hi_ino sub)"
  using assms
proof (induction junk sub v arbitrary: v' rule: add_to_view.induct)
  case (2 junk sub v)
  have nz: "(ucast (hi_ino sub) :: u64) \<noteq> 0" using "2.prems"(6) by (simp add: ucast_u32_u64_zero)
  have "find_in_entries name (new_entries (stored_dirent junk sub)) = ucast (hi_ino sub)"
    using stored_dirent_fields [of junk sub] "2.prems" by (simp add: find_in_entries_def new_entries_def)
  then show ?case using "2.prems"(1) nz by auto
next
  case (3 junk sub ds v)
  have nz: "(ucast (hi_ino sub) :: u64) \<noteq> 0" using "3.prems"(6) by (simp add: ucast_u32_u64_zero)
  have in_ds: "d \<in> set (view_dirents (Some ds # v))" if "d \<in> set ds" for d using that by (simp add: view_dirents_def)
  show ?case
  proof (cases "free_entry ds")
    case None
    then obtain w where w: "add_to_view junk sub v = Some w" "v' = Some ds # w" using "3.prems"(1) by auto
    have "find (\<lambda>d. de_name d = name) ds = None" using "3.prems"(7) in_ds by (simp add: find_None_iff)
    moreover have "find_in_view name (view_blocks w) = ucast (hi_ino sub)"
      using "3.prems" by (intro "3.IH" [OF None w(1)]) (auto simp: view_dirents_def)
    ultimately show ?thesis using w(2) by (simp add: find_in_entries_def)
  next
    case (Some k)
    let ?x = "stored_dirent (ds ! k) sub"
    have k: "k < length ds" "\<not> is_dirent_valid (ds ! k)" using free_entry_SomeD [OF Some] by auto
    have mem: "ds ! k \<in> set (view_dirents (Some ds # v))" using in_ds k(1) by simp
    have "de_name ?x = name" "de_ino ?x = ucast (hi_ino sub)"
      using stored_dirent_fields [of "ds ! k" sub] "3.prems" mem k(2) by auto
    then have "find_in_entries name (ds[k := ?x]) = ucast (hi_ino sub)"
      using find_update [OF k(1), of "\<lambda>d. de_name d = name" ?x] "3.prems"(7) in_ds
      by (simp add: find_in_entries_def)
    then show ?thesis using "3.prems"(1) Some nz by auto
  qed
qed simp

lemma find_other_after_add:
  assumes "add_to_view junk sub v = Some v'"
    and "\<forall>d \<in> insert junk (set (view_dirents v)). length d = 40"
    and sub: "length sub = 4096" "unat (hi_name_len sub) \<le> 16"
    and other: "\<forall>d \<in> insert junk {d \<in> set (view_dirents v). \<not> is_dirent_valid d}. stored_name d sub \<noteq> name"
    and stale: "\<forall>d \<in> set (view_dirents v). de_name d = name \<longrightarrow> is_dirent_valid d"
    and name: "name \<noteq> replicate 16 0"
  shows "find_in_view name (view_blocks v') = find_in_view name (view_blocks v)"
  using assms
proof (induction junk sub v arbitrary: v' rule: add_to_view.induct)
  case (2 junk sub v)
  have z: "de_name zero_dirent \<noteq> name" using "2.prems"(7)
    by (simp add: zero_dirent_def de_name_def get_bytes_def SIZEOF_DIRENT_def min_def)
  have "de_name (stored_dirent junk sub) \<noteq> name" using stored_dirent_fields [of junk sub] "2.prems" by simp
  then have "find (\<lambda>d. de_name d = name) (new_entries (stored_dirent junk sub)) = None"
    using z by (auto simp: find_None_iff new_entries_def)
  then show ?case using "2.prems"(1) by (auto simp: find_in_entries_def)
next
  case (3 junk sub ds v)
  have in_ds: "d \<in> set (view_dirents (Some ds # v))" if "d \<in> set ds" for d using that by (simp add: view_dirents_def)
  show ?case
  proof (cases "free_entry ds")
    case None
    then obtain w where w: "add_to_view junk sub v = Some w" "v' = Some ds # w" using "3.prems"(1) by auto
    have "find_in_view name (view_blocks w) = find_in_view name (view_blocks v)"
      using "3.prems" by (intro "3.IH" [OF None w(1)]) (auto simp: view_dirents_def)
    then show ?thesis using w(2) by (simp add: Let_def)
  next
    case (Some k)
    let ?x = "stored_dirent (ds ! k) sub"
    have k: "k < length ds" "\<not> is_dirent_valid (ds ! k)" using free_entry_SomeD [OF Some] by auto
    have mem: "ds ! k \<in> set (view_dirents (Some ds # v))" using in_ds k(1) by simp
    have "de_name ?x \<noteq> name" using stored_dirent_fields [of "ds ! k" sub] "3.prems" mem k(2) by auto
    moreover have "de_name (ds ! k) \<noteq> name" using "3.prems"(6) mem k(2) by auto
    ultimately have "find_in_entries name (ds[k := ?x]) = find_in_entries name ds"
      using find_update_other [OF k(1), of "\<lambda>d. de_name d = name" ?x] by (simp add: find_in_entries_def)
    then show ?thesis using "3.prems"(1) Some by (auto simp: Let_def)
  qed
qed simp

context zone_store
begin

lemma add_dirent_ok:
  assumes ok: "store_ok zinv zdata mnt s" and dir: "inode_ok (contents zdata s) (ucast ino) hi"
    and room: "wp_room zdata Z s (2 + k)" "has_free_number s"
    and sub: "unat (hi_name_len sub) \<le> 16" and junk: "length (k_stack K 1) = 40"
    and buf: "k_kmalloc K 6 = Some buf" "length buf = 4096"
  shows "case add_to_view (k_stack K 1) sub (dir_view (contents zdata s) hi) of
      None \<Rightarrow> \<exists>s'. add_dirent K ino sub s = Some (-1, s') \<and> same_store zinv zdata s s'
    | Some v \<Rightarrow> \<exists>s1 s' hi' n j b. add_dirent K ino sub s = Some (0, s') \<and> same_store zinv zdata s s1 \<and>
        inode_updated zinv zdata mnt (ucast ino) hi j b n s1 hi' s' \<and>
        dir_view (contents zdata s') hi' = v \<and> hi_file_len hi' = hi_file_len hi + 1 \<and>
        wp_room zdata Z s' k \<and> free_numbers s \<le> Suc (free_numbers s')"
proof -
  have z: "length zero_block = 4096" by (simp add: zero_block_def HODO_DATABLOCK_SIZE_def)
  obtain s1 where s1: "hodo_read_struct K (ucast ino) zero_block HODO_DATABLOCK_SIZE s = Some (4096, hi, s1)"
    "same_store zinv zdata s s1" "store_ok zinv zdata mnt s1" "contents zdata s1 = contents zdata s"
    by (rule read_block [OF ok inode_okD(1) [OF dir] z])
  have run: "add_dirent K ino sub s = add_dirent_loop K (ucast ino) sub hi [0..<10] buf s1"
    using s1(1) buf(1) by (simp add: add_dirent_def)
  note loop = add_dirent_loop_ok [OF s1(3), unfolded s1(4) same_storeD(3,5,7) [OF s1(2)],
      OF dir room sub junk buf(2), of 0]
  show ?thesis
  proof (cases "add_to_view (k_stack K 1) sub (dir_view (contents zdata s) hi)")
    case None
    then show ?thesis using loop same_store_trans [OF s1(2)] unfolding run by auto
  next
    case (Some v)
    then show ?thesis using loop same_store_trans [OF s1(2)] unfolding run by (simp, blast)
  qed
qed

end

section \<open>Correctness of removing an entry\<close>

text \<open>
  The reference on the abstract directory: the first entry with the name, in the first block that
  has one, is dropped, the later ones move up, and \<open>lst i\<close> appears in the last slot.
\<close>

definition name_slot :: "bytes \<Rightarrow> bytes list \<Rightarrow> nat option" where
  "name_slot name ds = find (\<lambda>k. de_name (ds ! k) = name) [0..<length ds]"

definition drop_entry :: "nat \<Rightarrow> bytes \<Rightarrow> bytes list \<Rightarrow> bytes list" where
  "drop_entry k lst ds = take k ds @ drop (Suc k) ds @ [lst]"

fun remove_from_view :: "bytes \<Rightarrow> (nat \<Rightarrow> bytes) \<Rightarrow> nat \<Rightarrow> dir_view \<Rightarrow> dir_view option" where
  "remove_from_view name lst i [] = None"
| "remove_from_view name lst i (None # v) = map_option (Cons None) (remove_from_view name lst (Suc i) v)"
| "remove_from_view name lst i (Some ds # v) =
     (case name_slot name ds of
        Some k \<Rightarrow> Some (Some (drop_entry k (lst i) ds) # v)
      | None \<Rightarrow> map_option (Cons (Some ds)) (remove_from_view name lst (Suc i) v))"

text \<open>What the last slot of block \<open>b\<close> holds afterwards: the 8 bytes behind the old entries, then
  bytes of the new buffer.\<close>

definition last_slot :: "bytes \<Rightarrow> bytes \<Rightarrow> bytes" where
  "last_slot tmp b = get_bytes 4088 8 b @ get_bytes 4056 32 tmp"

lemma dirent_slot_eq: "dirent_slot name b = name_slot name (block_dirents b)"
proof -
  have "dirent_slot name b = map_option (\<lambda>k. k) (find (\<lambda>k. de_name (dirent_at k b) = name) (map (\<lambda>k. k) [0..<DIRENT_SLOTS]))"
    unfolding dirent_slot_def by (rule for_first_find [of "\<lambda>k. de_name (dirent_at k b) = name" "\<lambda>k. k" "\<lambda>k. k"])
  also have "\<dots> = name_slot name (block_dirents b)"
    unfolding name_slot_def by (simp add: option.map_ident) (rule find_cong, simp_all)
  finally show ?thesis .
qed

lemma name_slot_SomeD: "name_slot name ds = Some k \<Longrightarrow> k < length ds \<and> de_name (ds ! k) = name"
  by (auto simp: name_slot_def find_Some_iff)

lemma name_slot_None: "name_slot name ds = None \<longleftrightarrow> (\<forall>d \<in> set ds. de_name d \<noteq> name)"
  by (auto simp: name_slot_def find_None_iff in_set_conv_nth) (metis nth_mem)

lemma length_compact_bytes [length_simps]:
  "length b = 4096 \<Longrightarrow> length tmp = 4096 \<Longrightarrow> off + n \<le> 4096 \<Longrightarrow> length (compact_bytes off n b tmp) = 4096"
  by (simp add: compact_bytes_def HODO_DATABLOCK_SIZE_def)

lemma compact_bytes_nth:
  assumes "length b = 4096" "length tmp = 4096" "off + n \<le> 4096" "j < 4096"
  shows "compact_bytes off n b tmp ! j = (if j < off then b ! j else if j + n < 4096 then b ! (j + n) else tmp ! j)"
  using assms by (auto simp: compact_bytes_def HODO_DATABLOCK_SIZE_def nth_append algebra_simps)

lemma get_compact_before:
  "length b = 4096 \<Longrightarrow> o1 + m \<le> off \<Longrightarrow> off + n \<le> 4096 \<Longrightarrow> get_bytes o1 m (compact_bytes off n b tmp) = get_bytes o1 m b"
  by (simp add: get_bytes_def compact_bytes_def drop_take [symmetric] take_drop min_def)

lemma compact_block_props:
  assumes b: "length b = 4096" and tmp: "length tmp = 4096" and k: "k < DIRENT_SLOTS"
  shows "length (compact_bytes (dirent_off k) SIZEOF_DIRENT b tmp) = 4096"
    "db_is_dat (compact_bytes (dirent_off k) SIZEOF_DIRENT b tmp) = db_is_dat b"
    "is_directblock (compact_bytes (dirent_off k) SIZEOF_DIRENT b tmp) = is_directblock b"
    "block_dirents (compact_bytes (dirent_off k) SIZEOF_DIRENT b tmp) =
       drop_entry k (last_slot tmp b) (block_dirents b)"
proof -
  let ?c = "compact_bytes (dirent_off k) SIZEOF_DIRENT b tmp"
  have off: "dirent_off k + SIZEOF_DIRENT \<le> 4096" "8 \<le> dirent_off k"
    using k by (simp_all add: dirent_off_def const_simps)
  show len: "length ?c = 4096" using b tmp off(1) by (rule length_compact_bytes)
  show "db_is_dat ?c = db_is_dat b" "is_directblock ?c = is_directblock b"
    using off b by (simp_all add: db_is_dat_def is_directblock_def db_level_def u8_at_def get_compact_before)
  show "block_dirents ?c = drop_entry k (last_slot tmp b) (block_dirents b)"
  proof (rule nth_equalityI)
    show "length (block_dirents ?c) = length (drop_entry k (last_slot tmp b) (block_dirents b))"
      using k by (simp add: drop_entry_def)
    fix j assume "j < length (block_dirents ?c)"
    then have j: "j < DIRENT_SLOTS" by simp
    have lens: "length (dirent_at j ?c) = 40" using len j by (rule length_dirent_at)
    have x: "dirent_at i y ! p = y ! (8 + i * 40 + p)" if "p < 40" "length y = 4096" "i < DIRENT_SLOTS" for p y i
      using that by (simp add: dirent_at_def dirent_off_def nth_get_bytes const_simps)
    have c: "?c ! q = (if q < 8 + k * 40 then b ! q else if q + 40 < 4096 then b ! (q + 40) else tmp ! q)"
      if "q < 4096" for q
      using compact_bytes_nth [OF b tmp off(1) that] by (simp add: dirent_off_def const_simps)
    have "dirent_at j ?c = (if j < k then dirent_at j b else if j < DIRENT_SLOTS - 1 then dirent_at (Suc j) b else last_slot tmp b)"
    proof (rule nth_equalityI)
      show "length (dirent_at j ?c) = length (if j < k then dirent_at j b else if j < DIRENT_SLOTS - 1 then dirent_at (Suc j) b else last_slot tmp b)"
        using lens b tmp j k by (simp add: length_dirent_at last_slot_def length_get_bytes)
      fix p assume "p < length (dirent_at j ?c)"
      then have p: "p < 40" using lens by simp
      have q: "8 + j * 40 + p < 4096" using j p by (simp add: DIRENT_SLOTS_def)
      have l: "?c ! (8 + j * 40 + p) = last_slot tmp b ! p" if "\<not> j < k" "\<not> j < DIRENT_SLOTS - 1"
      proof -
        have "j = 101" using that(2) j by (simp add: DIRENT_SLOTS_def)
        then show ?thesis using c [OF q] p that(1) b tmp
          by (simp add: last_slot_def nth_append length_get_bytes nth_get_bytes)
      qed
      show "dirent_at j ?c ! p = (if j < k then dirent_at j b else if j < DIRENT_SLOTS - 1 then dirent_at (Suc j) b else last_slot tmp b) ! p"
        using l x [OF p len j] x [OF p b, of j] x [OF p b, of "Suc j"] c [OF q] j p k
        by (auto simp: DIRENT_SLOTS_def add.assoc)
    qed
    then show "block_dirents ?c ! j = drop_entry k (last_slot tmp b) (block_dirents b) ! j"
      using j k by (auto simp: drop_entry_def nth_append DIRENT_SLOTS_def)
  qed
qed

lemma removed_inode_frame:
  assumes "length hi = 4096" "length (k_now K) = 16" "i < 10"
  shows "length (removed_inode K (hi_set_direct i (hi_direct i hi) hi)) = 4096"
    "inode_directs (removed_inode K (hi_set_direct i (hi_direct i hi) hi)) = inode_directs hi"
    "hi_single (removed_inode K (hi_set_direct i (hi_direct i hi) hi)) = hi_single hi"
    "hi_double (removed_inode K (hi_set_direct i (hi_direct i hi) hi)) = hi_double hi"
    "hi_triple (removed_inode K (hi_set_direct i (hi_direct i hi) hi)) = hi_triple hi"
    "db_is_dat (removed_inode K (hi_set_direct i (hi_direct i hi) hi)) = db_is_dat hi"
    "hi_ino (removed_inode K (hi_set_direct i (hi_direct i hi) hi)) = hi_ino hi"
    "hi_file_len (removed_inode K (hi_set_direct i (hi_direct i hi) hi)) = hi_file_len hi - 1"
proof -
  let ?h1 = "hi_set_direct i (hi_direct i hi) hi" and ?t = "k_now K"
  have l1: "length ?h1 = 4096" using assms by (simp add: length_simps)
  then have l2: "length (hi_set_times ?t ?h1) = 4096" using assms by (simp add: length_simps)
  note f = set_direct_frame [OF assms(1,3)] set_times_frame [OF l1 assms(2)] set_file_len_frame [OF l2]
  have "(inode_directs hi)[i := hi_direct i hi] = inode_directs hi"
    using assms(3) by (metis inode_directs_nth list_update_id)
  then show "inode_directs (removed_inode K ?h1) = inode_directs hi"
    using f by (simp add: removed_inode_def Let_def)
  show "length (removed_inode K ?h1) = 4096" using l2 by (simp add: removed_inode_def Let_def length_simps)
qed (use assms set_direct_frame [OF assms(1,3)] in \<open>simp_all add: removed_inode_def Let_def set_file_len_frame set_times_frame length_simps\<close>)

text \<open>Rewriting the inode once more changes nothing.\<close>

lemma inode_updated_again:
  assumes "inode_updated zinv zdata mnt dl hi i b n s hi' s1" "store_ok zinv zdata mnt s2"
    and "contents zdata s2 = (contents zdata s1)(dl \<mapsto> hi')" "keeps_disk (zdata (zonefs s1)) (zdata (zonefs s2))"
  shows "inode_updated zinv zdata mnt dl hi i b n s hi' s2"
proof -
  have "contents zdata s1 dl = Some hi'"
    using assms(1) inode_okD(1) by (auto simp: inode_updated_def)
  then have "contents zdata s2 = contents zdata s1" using assms(3) by (simp add: fun_upd_idem)
  moreover have "keeps_disk (zdata (zonefs s)) (zdata (zonefs s2))"
    using assms(1,4) by (auto simp: inode_updated_def intro: keeps_disk_trans)
  ultimately show ?thesis using assms(1,2) by (simp add: inode_updated_def)
qed

context zone_store
begin

lemma remove_in_directs_ok:
  assumes ok: "store_ok zinv zdata mnt s" and dir: "inode_ok (contents zdata s) dl hi"
    and room: "wp_room zdata Z s (3 + k)" and tmp: "k_kmalloc K 1 = Some tmp" "length tmp = 4096"
    and now: "length (k_now K) = 16" and buf: "length buf = 4096" and i: "i \<le> 10"
  defines "lst \<equiv> \<lambda>j. last_slot tmp (the (contents zdata s (hi_direct j hi)))"
  shows "case remove_from_view name lst i (drop i (dir_view (contents zdata s) hi)) of
      None \<Rightarrow> \<exists>buf' s'. remove_in_directs K name [i..<10] hi buf dl s = Some (0, hi, dl, buf', s') \<and>
        same_store zinv zdata s s'
    | Some v \<Rightarrow> \<exists>buf' s1 s' hi' n j b. remove_in_directs K name [i..<10] hi buf dl s = Some (1, hi', dl, buf', s') \<and>
        same_store zinv zdata s s1 \<and> inode_updated zinv zdata mnt dl hi j b n s1 hi' s' \<and>
        dir_view (contents zdata s') hi' = take i (dir_view (contents zdata s) hi) @ v \<and>
        hi_file_len hi' = hi_file_len hi - 1 \<and> wp_room zdata Z s' k"
  using ok dir room buf i unfolding lst_def
proof (induction "10 - i" arbitrary: i buf s)
  case 0
  then show ?case using same_store_refl by auto
next
  case (Suc m)
  then have lt: "i < 10" by simp
  then have upt: "[i..<10] = i # [Suc i..<10]" by (rule upt_conv_Cons)
  let ?C = "contents zdata s" and ?v = "dir_view (contents zdata s) hi" and ?l = "hi_direct i hi"
  let ?lst = "\<lambda>j. last_slot tmp (the (contents zdata s (hi_direct j hi)))"
  note D = inode_okD [OF Suc.prems(2)]
  have v: "drop i ?v = ?v ! i # drop (Suc i) ?v" using lt by (simp add: Cons_nth_drop_Suc)
  have vi: "?v ! i = (if ?l \<noteq> 0 then map_option block_dirents (?C ?l) else None)"
    using lt by (simp add: dir_view_def is_block_logical_number_valid_def)
  have tk: "take (Suc i) ?v = take i ?v @ [?v ! i]" using lt by (simp add: take_Suc_conv_app_nth)
  show ?case
  proof (cases "?l = 0")
    case True
    have step: "remove_in_directs K name [i..<10] hi buf dl s = remove_in_directs K name [Suc i..<10] hi buf dl s"
      using True by (simp add: upt is_block_logical_number_valid_def)
    have d: "drop i ?v = None # drop (Suc i) ?v" "take (Suc i) ?v = take i ?v @ [None]"
      using v vi tk True by simp_all
    show ?thesis
      using Suc.hyps(1) [of "Suc i" s buf] Suc.hyps(2) Suc.prems lt
      unfolding step d by (cases "remove_from_view name ?lst (Suc i) (drop (Suc i) ?v)") simp_all
  next
    case False
    obtain b where b: "?C ?l = Some b" "length b = 4096" "db_is_dat b" "is_directblock b"
      using D(8) [OF lt False] by blast
    obtain s1 where s1: "hodo_read_struct K ?l buf HODO_DATABLOCK_SIZE s = Some (4096, b, s1)"
      "same_store zinv zdata s s1" "store_ok zinv zdata mnt s1" "contents zdata s1 = ?C"
      by (rule read_block [OF Suc.prems(1) b(1) Suc.prems(4)])
    have d: "drop i ?v = Some (block_dirents b) # drop (Suc i) ?v" "take (Suc i) ?v = take i ?v @ [Some (block_dirents b)]"
      using v vi tk False b by simp_all
    show ?thesis
    proof (cases "name_slot name (block_dirents b)")
      case None
      have step: "remove_in_directs K name [i..<10] hi buf dl s = remove_in_directs K name [Suc i..<10] hi b dl s1"
        using False s1(1) None
        by (simp add: upt remove_dirent_from_direct_block_def dirent_slot_eq is_block_logical_number_valid_def)
      note ih = Suc.hyps(1) [of "Suc i" s1 b, unfolded s1(4) same_storeD(3) [OF s1(2)]]
      show ?thesis
        using ih Suc.hyps(2) Suc.prems(2-3) s1(3) b(2) lt None same_store_trans [OF s1(2)]
        unfolding step d
        by (cases "remove_from_view name ?lst (Suc i) (drop (Suc i) ?v)") (fastforce+)
    next
      case (Some q)
      let ?h = "removed_inode K (hi_set_direct i ?l hi)" and ?b = "compact_bytes (dirent_off q) SIZEOF_DIRENT b tmp"
      have q: "q < DIRENT_SLOTS" using name_slot_SomeD [OF Some] by simp
      note c = compact_block_props [OF b(2) tmp(2) q] and f = removed_inode_frame [OF D(2) now lt]
      have room: "wp_room zdata Z s1 (Suc (Suc (Suc k)))"
        using Suc.prems(3) same_storeD(3) [OF s1(2)] by (simp add: numeral_3_eq_3)
      obtain s2 s3 where w: "hodo_write_struct K ?b HODO_DATABLOCK_SIZE ?l s1 = Some (4096, stamped ?l ?b, ?l, s2)"
        "hodo_write_struct K ?h HODO_DATABLOCK_SIZE dl s2 = Some (4096, ?h, dl, s3)"
        "inode_updated zinv zdata mnt dl hi i ?b ?l s1 ?h s3" "wp_room zdata Z s3 (Suc k)" "num_ok s3 dl"
        by (rule store_in_block [OF s1(3), unfolded s1(4), OF Suc.prems(2) room lt False, of ?b ?h])
          (use b c f D(3-7) in simp_all)
      have h: "\<not> db_is_dat ?h" "hi_ino ?h = dl" using f D(3,4) by simp_all
      have ok3: "store_ok zinv zdata mnt s3" using w(3) by (simp add: inode_updated_def)
      obtain s4 where s4: "hodo_write_struct K ?h HODO_DATABLOCK_SIZE dl s3 = Some (4096, ?h, dl, s4)"
        "store_ok zinv zdata mnt s4" "contents zdata s4 = (contents zdata s3)(dl \<mapsto> ?h)" "wp_room zdata Z s4 k"
        "keeps_disk (zdata (zonefs s3)) (zdata (zonefs s4))"
        using write_inode [OF ok3 w(4,5) f(1) h] by metis
      have upd: "inode_updated zinv zdata mnt dl hi i ?b ?l s1 ?h s4" by (rule inode_updated_again [OF w(3) s4(2,3,5)])
      have "remove_dirent_from_direct_block K b name ?l s1 = Some (1, ?l, s2)"
        using Some tmp(1) w(1)
        by (simp add: remove_dirent_from_direct_block_def dirent_slot_eq compact_datablock_def HODO_DATABLOCK_SIZE_def)
      then have "remove_in_directs K name [i..<10] hi buf dl s = Some (1, ?h, dl, b, s4)"
        using False s1(1) w(2) s4(1) by (simp add: upt is_block_logical_number_valid_def)
      moreover have "dir_view (contents zdata s4) ?h =
          take i ?v @ Some (drop_entry q (?lst i) (block_dirents b)) # drop (Suc i) ?v"
        using inode_updated_view [OF upd] c(4) s1(4) b(1) lt by (simp add: upd_conv_take_nth_drop)
      moreover have "remove_from_view name ?lst i (drop i ?v) =
          Some (Some (drop_entry q (?lst i) (block_dirents b)) # drop (Suc i) ?v)"
        unfolding d using Some by simp
      ultimately show ?thesis using upd s1(2) f(8) s4(4) by (simp, blast)
    qed
  qed
qed

lemma remove_dirent_ok:
  assumes ok: "store_ok zinv zdata mnt s" and dir: "inode_ok (contents zdata s) dl hi"
    and room: "wp_room zdata Z s (3 + k)" and tmp: "k_kmalloc K 1 = Some tmp" "length tmp = 4096"
    and now: "length (k_now K) = 16" and buf: "k_kmalloc K 7 = Some buf" "length buf = 4096"
  defines "lst \<equiv> \<lambda>j. last_slot tmp (the (contents zdata s (hi_direct j hi)))"
  shows "case remove_from_view name lst 0 (dir_view (contents zdata s) hi) of
      None \<Rightarrow> \<exists>s'. remove_dirent K hi name dl s = Some (0, hi, dl, s') \<and> same_store zinv zdata s s'
    | Some v \<Rightarrow> \<exists>s1 s' hi' n j b. remove_dirent K hi name dl s = Some (1, hi', dl, s') \<and>
        same_store zinv zdata s s1 \<and> inode_updated zinv zdata mnt dl hi j b n s1 hi' s' \<and>
        dir_view (contents zdata s') hi' = v \<and> hi_file_len hi' = hi_file_len hi - 1 \<and> wp_room zdata Z s' k"
proof -
  have ind: "remove_in_indirects K name (inode_indirects hi) hi b l s'' = Some (0, hi, l, s'')" for b l s''
    using dir by (simp add: inode_ok_def inode_indirects_def is_block_logical_number_valid_def)
  note loop = remove_in_directs_ok [OF ok dir room tmp now buf(2), of 0 name, folded lst_def]
  show ?thesis
  proof (cases "remove_from_view name lst 0 (dir_view (contents zdata s) hi)")
    case None
    then obtain buf' s' where "remove_in_directs K name [0..<10] hi buf dl s = Some (0, hi, dl, buf', s')"
      "same_store zinv zdata s s'" using loop by auto
    then show ?thesis using None buf(1) ind by (simp add: remove_dirent_def)
  next
    case (Some v)
    then obtain buf' s1 s' hi' n j b where "remove_in_directs K name [0..<10] hi buf dl s = Some (1, hi', dl, buf', s')"
      "same_store zinv zdata s s1" "inode_updated zinv zdata mnt dl hi j b n s1 hi' s'"
      "dir_view (contents zdata s') hi' = v" "hi_file_len hi' = hi_file_len hi - 1" "wp_room zdata Z s' k"
      using loop by auto
    moreover from this(1) have "remove_dirent K hi name dl s = Some (1, hi', dl, s')"
      using buf(1) by (simp add: remove_dirent_def)
    ultimately show ?thesis using Some by (simp, blast)
  qed
qed

end

text \<open>Look-up after a removal.\<close>

lemma find_drop_entry:
  assumes "k < length ds" "\<not> P (ds ! k)" "\<not> P x"
  shows "find P (drop_entry k x ds) = find P ds"
  using assms unfolding drop_entry_def
proof (induction ds arbitrary: k)
  case Nil
  then show ?case by simp
next
  case (Cons d ds)
  show ?case
  proof (cases k)
    case 0
    have "find P (ds @ [x]) = find P ds" using Cons.prems(3) by (induction ds) auto
    then show ?thesis using 0 Cons.prems by simp
  next
    case (Suc k')
    then show ?thesis using Cons by simp
  qed
qed

text \<open>The bytes that appear in the last slots do not spell the name.\<close>

definition lst_avoids :: "(nat \<Rightarrow> bytes) \<Rightarrow> bytes \<Rightarrow> nat \<Rightarrow> dir_view \<Rightarrow> bool" where
  "lst_avoids lst name i v \<longleftrightarrow> (\<forall>j < length v. v ! j \<noteq> None \<longrightarrow> de_name (lst (i + j)) \<noteq> name)"

lemma lst_avoids_Cons [simp]:
  "lst_avoids lst name i (x # v) \<longleftrightarrow> (x \<noteq> None \<longrightarrow> de_name (lst i) \<noteq> name) \<and> lst_avoids lst name (Suc i) v"
  by (auto simp: lst_avoids_def less_Suc_eq_0_disj)

lemma find_other_after_remove:
  assumes "remove_from_view name lst i v = Some v'" "name' \<noteq> name" "lst_avoids lst name' i v"
  shows "find_in_view name' (view_blocks v') = find_in_view name' (view_blocks v)"
  using assms
proof (induction name lst i v arbitrary: v' rule: remove_from_view.induct)
  case (3 name lst i ds v)
  show ?case
  proof (cases "name_slot name ds")
    case None
    then show ?thesis using 3 by (auto simp: Let_def)
  next
    case (Some k)
    note k = name_slot_SomeD [OF Some]
    have "find (\<lambda>d. de_name d = name') (drop_entry k (lst i) ds) = find (\<lambda>d. de_name d = name') ds"
      using k 3 by (intro find_drop_entry) auto
    then have "find_in_entries name' (drop_entry k (lst i) ds) = find_in_entries name' ds"
      by (simp add: find_in_entries_def)
    then show ?thesis using "3.prems"(1) Some by (auto simp: Let_def)
  qed
qed auto

lemma count_drop_entry:
  assumes "k < length ds" "P (ds ! k)" "\<not> P x"
  shows "length (filter P ds) = Suc (length (filter P (drop_entry k x ds)))"
proof -
  have "ds = take k ds @ ds ! k # drop (Suc k) ds" using assms(1) by (rule id_take_nth_drop)
  then have "length (filter P ds) = length (filter P (take k ds @ ds ! k # drop (Suc k) ds))" by simp
  then show ?thesis using assms by (simp add: drop_entry_def)
qed

lemma remove_counts:
  assumes "remove_from_view name lst i v = Some v'" "lst_avoids lst name i v"
  shows "length (filter (\<lambda>d. de_name d = name) (view_dirents v)) =
    Suc (length (filter (\<lambda>d. de_name d = name) (view_dirents v')))"
  using assms
proof (induction name lst i v arbitrary: v' rule: remove_from_view.induct)
  case (3 name lst i ds v)
  show ?case
  proof (cases "name_slot name ds")
    case None
    then show ?thesis using 3 by (auto simp: view_dirents_def)
  next
    case (Some k)
    then show ?thesis using "3.prems" name_slot_SomeD [OF Some]
        count_drop_entry [of k ds "\<lambda>d. de_name d = name" "lst i"] by (auto simp: view_dirents_def)
  qed
qed (auto simp: view_dirents_def)

lemma find_after_remove:
  assumes "remove_from_view name lst i v = Some v'" "lst_avoids lst name i v"
    and once: "length (filter (\<lambda>d. de_name d = name) (view_dirents v)) = 1"
  shows "find_in_view name (view_blocks v') = 0"
proof -
  have "filter (\<lambda>d. de_name d = name) (view_dirents v') = []" using remove_counts [OF assms(1,2)] once by simp
  then show ?thesis by (intro find_in_view_none) (simp add: view_dirents_def filter_empty_conv)
qed

section \<open>Correctness of the emptiness test\<close>

definition blocks_zero :: "(u32 \<Rightarrow> bytes option) \<Rightarrow> u32 list \<Rightarrow> bool" where
  "blocks_zero C ls \<longleftrightarrow>
     (\<forall>l \<in> set ls. l \<noteq> 0 \<longrightarrow> get_bytes HODO_DATA_START HODO_DATA_SIZE (the (C l)) = replicate HODO_DATA_SIZE 0)"

lemma zero_block_no_dirents:
  assumes "get_bytes HODO_DATA_START HODO_DATA_SIZE b = replicate HODO_DATA_SIZE 0" "length b = 4096"
  shows "filter is_dirent_valid (block_dirents b) = []"
proof -
  have "\<not> is_dirent_valid (dirent_at k b)" if k: "k < DIRENT_SLOTS" for k
  proof -
    have i: "k * 40 < 4088" using k by (simp add: DIRENT_SLOTS_def)
    then have "get_bytes HODO_DATA_START HODO_DATA_SIZE b ! (k * 40) = 0" using assms(1) by (simp add: HODO_DATA_SIZE_eq)
    then have "b ! (8 + k * 40) = 0" using assms(2) i by (simp add: nth_get_bytes const_simps)
    then have "dirent_at k b ! 0 = 0" using assms(2) k
      by (simp add: dirent_at_def dirent_off_def nth_get_bytes const_simps)
    moreover obtain x xs where "dirent_at k b = x # xs" using length_dirent_at [OF assms(2) k] by (cases "dirent_at k b") auto
    ultimately show ?thesis by (simp add: is_dirent_valid_def u8_at_def get_bytes_def)
  qed
  then show ?thesis by (auto simp: block_dirents_def filter_empty_conv)
qed

lemma blocks_zero_no_dirents:
  assumes "blocks_zero C (inode_directs hi)" "inode_ok C dl hi"
  shows "filter is_dirent_valid (view_dirents (dir_view C hi)) = []"
proof -
  have "filter is_dirent_valid (view_dirents (ptr_view C ls)) = []"
    if "blocks_zero C ls" "directs_mapped C ls" for ls
    using that
  proof (induction ls)
    case (Cons l ls)
    then show ?case using zero_block_no_dirents
      by (auto simp: blocks_zero_def directs_mapped_Cons view_dirents_def is_block_logical_number_valid_def)
  qed (simp add: view_dirents_def)
  then show ?thesis using assms unfolding dir_view_def inode_ok_def by blast
qed

lemma blocks_zero_dirents:
  assumes "blocks_zero C (inode_directs hi)" "inode_ok C dl hi"
  shows "\<forall>d \<in> set (view_dirents (dir_view C hi)). d = zero_dirent"
proof -
  have z: "dirent_at k b = zero_dirent"
    if "get_bytes HODO_DATA_START HODO_DATA_SIZE b = replicate HODO_DATA_SIZE 0" "length b = 4096" "k < DIRENT_SLOTS"
    for k b
  proof -
    have "dirent_at k b = get_bytes (k * SIZEOF_DIRENT) SIZEOF_DIRENT (get_bytes HODO_DATA_START HODO_DATA_SIZE b)"
      using that(2,3) by (simp add: dirent_at_def dirent_off_def get_bytes_def const_simps drop_take add.commute)
    then show ?thesis using that(3) unfolding that(1)
      by (simp add: get_bytes_def zero_dirent_def const_simps min_def)
  qed
  have "\<forall>d \<in> set (view_dirents (ptr_view C ls)). d = zero_dirent"
    if "blocks_zero C ls" "directs_mapped C ls" for ls
    using that
  proof (induction ls)
    case (Cons l ls)
    then show ?case using z
      by (auto simp: blocks_zero_def directs_mapped_Cons view_dirents_def is_block_logical_number_valid_def block_dirents_def)
  qed (simp add: view_dirents_def)
  then show ?thesis using assms unfolding dir_view_def inode_ok_def by blast
qed

context zone_store
begin

lemma check_empty_directs_ok:
  assumes "store_ok zinv zdata mnt s" "directs_mapped (contents zdata s) ls" "length buf = 4096"
  shows "\<exists>buf' s'. check_empty_directs K ls buf s = Some (blocks_zero (contents zdata s) ls, buf', s') \<and>
      length buf' = 4096 \<and> same_store zinv zdata s s'"
  using assms
proof (induction ls arbitrary: buf s)
  case Nil
  then show ?case using same_store_refl by (auto simp: blocks_zero_def)
next
  case (Cons l ls)
  show ?case
  proof (cases "l = 0")
    case True
    then show ?thesis using Cons
      by (simp add: is_block_logical_number_valid_def directs_mapped_Cons blocks_zero_def)
  next
    case False
    then obtain b where b: "contents zdata s l = Some b" "length b = 4096"
      using Cons.prems(2) by (auto simp: directs_mapped_Cons)
    obtain s1 where s1: "hodo_read_struct K l buf HODO_DATABLOCK_SIZE s = Some (4096, b, s1)"
      "same_store zinv zdata s s1" "store_ok zinv zdata mnt s1" "contents zdata s1 = contents zdata s"
      by (rule read_block [OF Cons.prems(1) b(1) Cons.prems(3)])
    obtain buf' s' where "check_empty_directs K ls b s1 = Some (blocks_zero (contents zdata s) ls, buf', s')"
        "length buf' = 4096" "same_store zinv zdata s1 s'"
      using Cons.IH [OF s1(3) _ b(2), unfolded s1(4)] Cons.prems(2) unfolding directs_mapped_Cons by blast
    then show ?thesis using False b s1 same_store_trans [OF s1(2)]
      by (auto simp: is_block_logical_number_valid_def check_directory_empty_from_direct_block_def blocks_zero_def)
  qed
qed

lemma check_directory_empty_ok:
  assumes ok: "store_ok zinv zdata mnt s" and dir: "inode_ok (contents zdata s) (dir_number root ino s) hi"
    and st: "length (k_stack K 2) = 4096" and buf: "k_kmalloc K 9 = Some buf" "length buf = 4096"
  obtains s' where "check_directory_empty K root ino s =
      Some (blocks_zero (contents zdata s) (inode_directs hi), s')" "same_store zinv zdata s s'"
proof -
  obtain s1 where s1: "hodo_read_struct K (dir_number root ino s) (k_stack K 2) HODO_DATABLOCK_SIZE s = Some (4096, hi, s1)"
    "same_store zinv zdata s s1" "store_ok zinv zdata mnt s1" "contents zdata s1 = contents zdata s"
    by (rule read_block [OF ok inode_okD(1) [OF dir] st])
  obtain buf' s2 where s2: "check_empty_directs K (inode_directs hi) buf s1 =
      Some (blocks_zero (contents zdata s) (inode_directs hi), buf', s2)" "same_store zinv zdata s1 s2"
    using check_empty_directs_ok [OF s1(3), unfolded s1(4), OF _ buf(2)] dir unfolding inode_ok_def by blast
  have ind: "check_empty_indirects K (inode_indirects hi) b s'' = Some (True, s'')" for b s''
    using dir by (simp add: inode_ok_def inode_indirects_def is_block_logical_number_valid_def)
  show thesis
    by (rule that [OF _ same_store_trans [OF s1(2) s2(2)]])
      (use s1(1) s2(1) buf(1) ind in \<open>simp add: check_directory_empty_def\<close>)
qed

end

end
