(* ===== verification/Hodo_Init.thy ===== *)
theory Hodo_Init
  imports Hodo_Dir_Correct
begin

text \<open>
  \<open>hodo_init\<close> of \<open>hodo.c\<close>: finding the mount point in \<open>/proc/self/mountinfo\<close>, reading the
  mapping table that a previous mount might have left in zone file 0, and creating the root
  directory on a fresh device.
\<close>

section \<open>Finding the mount point\<close>

fun strsep_all :: "char \<Rightarrow> string \<Rightarrow> string list" where
  "strsep_all c [] = [[]]"
| "strsep_all c (x # xs) =
     (if x = c then [] # strsep_all c xs
      else case strsep_all c xs of t # ts \<Rightarrow> (x # t) # ts | [] \<Rightarrow> [[x]])"

fun strstr :: "string \<Rightarrow> string \<Rightarrow> nat option" where
  "strstr sub [] = (if sub = [] then Some 0 else None)"
| "strstr sub (x # xs) =
     (if take (length sub) (x # xs) = sub then Some 0 else map_option Suc (strstr sub xs))"

definition mount_point_of_line :: "string \<Rightarrow> string option" where
  "mount_point_of_line line =
     (if strstr ''zonefs'' line = None then None
      else case strstr '' - '' line of
        None \<Rightarrow> None
      | Some i \<Rightarrow> (let ts = strsep_all CHR '' '' (take i line) in if 4 < length ts then Some (ts ! 4) else None))"

fun first_mount_point :: "string list \<Rightarrow> string option" where
  "first_mount_point [] = None"
| "first_mount_point (l # ls) =
     (case mount_point_of_line l of Some m \<Rightarrow> Some m | None \<Rightarrow> first_mount_point ls)"

text \<open>
  One call of \<open>kernel_read\<close> fills the buffer. Scanning its lines moves the buffer pointer, to
  \<open>NULL\<close> when no line matches, so a second non-empty read writes through a moved pointer.
\<close>

definition find_mount_point :: "'z kernel \<Rightarrow> string list \<Rightarrow> string \<Rightarrow> string option" where
  "find_mount_point K chunks old =
     (case chunks of
        [] \<Rightarrow> Some old
      | [c] \<Rightarrow>
          (if k_kmalloc K 11 = None then None
           else Some (case first_mount_point (strsep_all CHR 0x0A c) of Some m \<Rightarrow> take 16 m | None \<Rightarrow> old))
      | _ \<Rightarrow> None)"

section \<open>Reading the mapping table from disk\<close>

text \<open>
  The read fills the start of \<open>mapping_info\<close>, byte by byte; \<open>sizeof\<close> the struct is 4456468.
  A field keeps the bytes that the read did not reach.
\<close>

definition SIZEOF_MAPPING_INFO :: nat where "SIZEOF_MAPPING_INFO = 4456468"

definition overlay :: "bytes \<Rightarrow> nat \<Rightarrow> bytes \<Rightarrow> bytes" where
  "overlay got off old =
     (let new = get_bytes off (length old) got in new @ drop (length new) old)"

definition overlay32 :: "bytes \<Rightarrow> nat \<Rightarrow> u32 \<Rightarrow> u32" where
  "overlay32 got off w = of_nat (le_val (overlay got off (le_bytes 4 (unat w))))"

definition overlay16 :: "bytes \<Rightarrow> nat \<Rightarrow> u16 \<Rightarrow> u16" where
  "overlay16 got off w = of_nat (le_val (overlay got off (le_bytes 2 (unat w))))"

definition overlay_pos :: "bytes \<Rightarrow> nat \<Rightarrow> hodo_block_pos \<Rightarrow> hodo_block_pos" where
  "overlay_pos got off p =
     \<lparr>zone_id = overlay16 got off (zone_id p), block_index = overlay16 got (off + 2) (block_index p)\<rparr>"

definition overlay_mapping :: "bytes \<Rightarrow> hodo_mapping_info \<Rightarrow> hodo_mapping_info" where
  "overlay_mapping got m =
     \<lparr>mapping_table = (\<lambda>i. overlay_pos got (4 * i) (mapping_table m i)),
      starting_logical_number = overlay32 got 4194304 (starting_logical_number m),
      wp = overlay_pos got 4194308 (wp m),
      logical_entry_bitmap = (\<lambda>i. overlay32 got (4194312 + 4 * i) (logical_entry_bitmap m i)),
      invalid_count = overlay32 got 4325384 (invalid_count m),
      valid_count = overlay32 got 4325388 (valid_count m),
      GC_bitmap = (\<lambda>z i. overlay32 got (4325392 + 8192 * z + 4 * i) (GC_bitmap m z i)),
      swap_wp = overlay_pos got 4456464 (swap_wp m)\<rparr>"

definition hodo_read_on_disk_mapping_info :: "'z kernel \<Rightarrow> 'z hodo_state \<Rightarrow> (int \<times> 'z hodo_state) option" where
  "hodo_read_on_disk_mapping_info K s =
     do {
       (ret, got, s') \<leftarrow> hodo_zone_read K 0 0 [] SIZEOF_MAPPING_INFO s;
       Some (ret, s'\<lparr>mapping_info := overlay_mapping got (mapping_info s')\<rparr>)
     }"

section \<open>Building an inode\<close>

text \<open>
  The fields that \<open>hodo_init\<close>, \<open>hodo_create\<close> and \<open>hodo_mkdir\<close> all set, in an
  uninitialised automatic object; the block pointers are not among them. A name longer than the
  field overruns it.
\<close>

definition S_IFDIR :: u16 where "S_IFDIR = 0x4000"
definition S_IFREG :: u16 where "S_IFREG = 0x8000"

definition fill_hinode ::
  "'z kernel \<Rightarrow> bytes \<Rightarrow> u64 \<Rightarrow> bytes \<Rightarrow> u8 \<Rightarrow> u32 \<Rightarrow> u16 \<Rightarrow> bytes option"
where
  "fill_hinode K junk flen nm ty ino mode =
     (if HODO_MAX_NAME_LEN < length nm then None
      else Some (hi_set_nlink 1 (hi_set_gid (k_fsgid K) (hi_set_uid (k_fsuid K) (hi_set_mode mode
        (hi_set_ino ino (hi_set_type ty (hi_put_name nm (hi_set_name_len (of_nat (length nm))
          (hi_set_file_len flen (hi_set_magic junk)))))))))))"

section \<open>hodo\_init\<close>

definition create_root :: "'z kernel \<Rightarrow> 'z hodo_state \<Rightarrow> 'z hodo_state option" where
  "create_root K s =
     (let m = (mapping_info s)\<lparr>wp := mk_pos 1 0, invalid_count := 0, valid_count := 0,
                swap_wp := mk_pos (hodo_nr_zones s - 2) 0\<rparr> in
      do {
        (ino, m') \<leftarrow> hodo_get_next_logical_number m;
        root \<leftarrow> fill_hinode K (k_stack K 3) 0 [0x2F] 1 ino S_IFDIR;
        (ret, _, _, s') \<leftarrow> hodo_write_struct K root HODO_DATABLOCK_SIZE ino (s\<lparr>mapping_info := m'\<rparr>);
        Some s'
      })"

definition hodo_init :: "'z kernel \<Rightarrow> 'z hodo_state \<Rightarrow> 'z hodo_state option" where
  "hodo_init K s =
     (case k_mountinfo K of
        None \<Rightarrow> Some s
      | Some chunks \<Rightarrow> do {
          path \<leftarrow> find_mount_point K chunks (mount_point_path s);
          let s1 = s\<lparr>mount_point_path := path,
                     mapping_info := (mapping_info s)\<lparr>starting_logical_number := of_nat (hodo_nr_zones s)\<rparr>\<rparr>;
          (ret, s2) \<leftarrow> hodo_read_on_disk_mapping_info K s1;
          if zone_id (wp (mapping_info s2)) = 0 \<and> block_index (wp (mapping_info s2)) = 0
          then create_root K s2
          else Some s2
        })"

section \<open>The first mount\<close>

lemma overlay_nil [simp]: "overlay [] off old = old"
  by (simp add: overlay_def get_bytes_def)

lemma overlay_mapping_nil [simp]: "overlay_mapping [] m = m"
proof -
  have a: "overlay32 [] off w = w" for off w by (simp add: overlay32_def of_nat_le_val_32)
  have b: "overlay16 [] off w = w" for off w by (simp add: overlay16_def of_nat_le_val_16)
  have p: "overlay_pos [] off p = p" for off p by (cases p) (simp add: overlay_pos_def b)
  show ?thesis by (cases m) (simp add: overlay_mapping_def a p)
qed

text \<open>The module's static mapping table before anything is mounted.\<close>

definition blank_mapping :: hodo_mapping_info where
  "blank_mapping = \<lparr>mapping_table = (\<lambda>_. mk_pos 0 0), starting_logical_number = 0, wp = mk_pos 0 0,
     logical_entry_bitmap = (\<lambda>_. 0), invalid_count = 0, valid_count = 0, GC_bitmap = (\<lambda>_ _. 0),
     swap_wp = mk_pos 0 0\<rparr>"

lemma mk_pos_zero [simp]: "zone_id (mk_pos z b) = of_nat z" "block_index (mk_pos z b) = of_nat b"
  by (simp_all add: mk_pos_def)

lemma fresh_mapping_ok:
  assumes "\<forall>i. zone_id (mapping_table m i) = 0" "\<forall>q. \<not> gvalid m q" "starting_logical_number m = 16"
  shows "mapping_ok D m" "lookup D m = Map.empty"
  using assms by (simp_all add: mapping_ok_def live_def lookup_def NUMBER_MAPPING_TABLE_ENTRY_eq fun_eq_iff)

lemma fill_hinode_props:
  assumes "fill_hinode K junk flen nm ty ino mode = Some hi" "length junk = 4096"
  shows "length hi = 4096" "\<not> db_is_dat hi" "hi_ino hi = ino" "hi_type hi = ty" "hi_mode hi = mode"
    "hi_file_len hi = flen" "hi_name_len hi = of_nat (length nm)" "get_bytes 17 (length nm) hi = nm"
    "hi_uid hi = k_fsuid K" "hi_gid hi = k_fsgid K" "hi_nlink hi = 1"
    "j < 10 \<Longrightarrow> hi_direct j hi = hi_direct j junk"
    "hi_single hi = hi_single junk" "hi_double hi = hi_double junk" "hi_triple hi = hi_triple junk"
proof -
  have nm: "length nm \<le> 16" and hi: "hi = hi_set_nlink 1 (hi_set_gid (k_fsgid K) (hi_set_uid (k_fsuid K)
      (hi_set_mode mode (hi_set_ino ino (hi_set_type ty (hi_put_name nm (hi_set_name_len (of_nat (length nm))
      (hi_set_file_len flen (hi_set_magic junk)))))))))"
    using assms(1) by (auto simp: fill_hinode_def HODO_MAX_NAME_LEN_def split: if_splits)
  note defs = hi hi_defs
  show "length hi = 4096" using assms(2) nm by (simp add: defs length_simps)
  have "get_bytes 0 3 hi = [0x49, 0x4E, 0x4F]"
    using assms(2) nm by (simp add: defs layout_simps length_simps get_put_other)
      (simp add: get_bytes_def put_bytes_def)
  then show "\<not> db_is_dat hi" by (simp add: db_is_dat_def)
  show "get_bytes 17 (length nm) hi = nm"
    using assms(2) nm by (simp add: defs layout_simps length_simps get_put_same)
  show "hi_direct j hi = hi_direct j junk" if "j < 10"
    using assms(2) nm that by (simp add: defs layout_simps length_simps)
  show "hi_ino hi = ino" "hi_type hi = ty" "hi_mode hi = mode" "hi_file_len hi = flen"
    "hi_name_len hi = of_nat (length nm)" "hi_uid hi = k_fsuid K" "hi_gid hi = k_fsgid K" "hi_nlink hi = 1"
    "hi_single hi = hi_single junk" "hi_double hi = hi_double junk" "hi_triple hi = hi_triple junk"
    using assms(2) nm by (simp_all add: defs layout_simps length_simps)
qed

lemma zero_block_ptrs [simp]:
  "length zero_block = 4096" "hi_single zero_block = 0" "hi_double zero_block = 0" "hi_triple zero_block = 0"
  "j < 10 \<Longrightarrow> hi_direct j zero_block = 0"
  by (simp_all add: zero_block_def HODO_DATABLOCK_SIZE_def hi_defs u32_at_def get_bytes_def min_def)

text \<open>An inode without blocks is an empty directory.\<close>

lemma empty_directory:
  assumes "C dl = Some hi" "length hi = 4096" "\<not> db_is_dat hi" "hi_ino hi = dl"
    "\<And>j. j < 10 \<Longrightarrow> hi_direct j hi = 0" "hi_single hi = 0" "hi_double hi = 0" "hi_triple hi = 0"
  shows "inode_ok C dl hi" "dir_view C hi = replicate 10 None" "view_dirents (dir_view C hi) = []"
proof -
  have d: "inode_directs hi = replicate 10 0" using assms(5) by (intro inode_directs_eqI) simp_all
  then show "inode_ok C dl hi" using assms
    by (simp add: inode_ok_def directs_mapped_def is_block_logical_number_valid_def)
  show v: "dir_view C hi = replicate 10 None" by (simp add: dir_view_def d is_block_logical_number_valid_def)
  show "view_dirents (dir_view C hi) = []" unfolding v by (simp add: view_dirents_def view_blocks_def)
qed

text \<open>The module just loaded, the device mounted, and no mapping table in zone file 0; and a device on
  which nothing has been stored.\<close>

definition loaded_module :: "'z kernel \<Rightarrow> string \<Rightarrow> ('z \<Rightarrow> nat \<Rightarrow> bytes) \<Rightarrow> 'z hodo_state \<Rightarrow> bool" where
  "loaded_module K mnt zdata s \<longleftrightarrow>
     hodo_nr_zones s = NUMBER_ZONES \<and> hodo_zone_size s = ZONE_SIZE \<and> mapping_info s = blank_mapping \<and>
     zdata (zonefs s) 0 = [] \<and> length mnt \<le> 8 \<and>
     (case k_mountinfo K of None \<Rightarrow> False
      | Some chunks \<Rightarrow> find_mount_point K chunks (mount_point_path s) = Some mnt)"

definition fresh_mount :: "'z kernel \<Rightarrow> string \<Rightarrow> ('z \<Rightarrow> nat \<Rightarrow> bytes) \<Rightarrow> 'z hodo_state \<Rightarrow> bool" where
  "fresh_mount K mnt zdata s \<longleftrightarrow> loaded_module K mnt zdata s \<and> zdata (zonefs s) 1 = []"

context zone_store
begin

lemma create_root_ok:
  assumes z: "zinv (zonefs s)" and cfg: "config_ok mnt s"
    and m: "mapping_info s = blank_mapping\<lparr>starting_logical_number := 16\<rparr>"
    and e: "zdata (zonefs s) 1 = []" and st: "k_stack K 3 = zero_block"
  obtains s' root where "create_root K s = Some s'" "store_ok zinv zdata mnt s'"
    "contents zdata s' = [16 \<mapsto> root]" "inode_ok (contents zdata s') 16 root"
    "dir_view (contents zdata s') root = replicate 10 None" "hi_type root = HODO_TYPE_DIR"
    "hi_file_len root = 0" "wp_room zdata {} s' (BLOCKS_PER_ZONE - 1)" "\<And>j. lbit (mapping_info s') j \<longleftrightarrow> j = 0"
    "starting_logical_number (mapping_info s') = 16" "wp (mapping_info s') = mk_pos 1 1"
    "\<And>z. z \<noteq> 1 \<Longrightarrow> zdata (zonefs s') z = zdata (zonefs s) z"
proof -
  define m1 where "m1 = (blank_mapping\<lparr>starting_logical_number := 16\<rparr>)\<lparr>wp := mk_pos 1 0, invalid_count := 0,
      valid_count := 0, swap_wp := mk_pos (hodo_nr_zones s - 2) 0\<rparr>"
  let ?m = "set_lbit 0 m1"
  have lb: "\<not> lbit m1 j" for j by (simp add: m1_def lbit_def blank_mapping_def)
  have n: "hodo_get_next_logical_number m1 = Some (16, ?m)"
    using next_logical_number_at [of 0 m1] lb by (simp add: NUMBER_MAPPING_TABLE_ENTRY_eq m1_def)
  have gv: "\<not> gvalid ?m q" for q by (simp add: gvalid_def gbit_def m1_def blank_mapping_def)
  have zi: "zone_id (mapping_table ?m i) = 0" and sl: "starting_logical_number ?m = 16"
    and wp: "wp ?m = mk_pos 1 0" for i
    by (simp_all add: m1_def blank_mapping_def)
  obtain root where root: "fill_hinode K (k_stack K 3) 0 [0x2F] 1 16 S_IFDIR = Some root"
    by (simp add: fill_hinode_def HODO_MAX_NAME_LEN_def)
  note r = fill_hinode_props [OF root, unfolded st, OF zero_block_ptrs(1)]
  let ?s = "s\<lparr>mapping_info := ?m\<rparr>"
  have ok: "store_ok zinv zdata mnt ?s"
    using z cfg fresh_mapping_ok [of ?m] gv zi sl by (simp add: store_ok_def config_ok_def)
  have c0: "contents zdata ?s = Map.empty"
    using fresh_mapping_ok(2) [of ?m] gv zi sl by (simp add: contents_def)
  have room: "wp_room zdata {} ?s (Suc (BLOCKS_PER_ZONE - 1))"
    using e wp by (simp add: wp_room_def at_end_def pos_off_def BLOCKS_PER_ZONE_eq ZONE_FILES_def NUMBER_ZONES_def)
  have "starting_logical_number m1 = 16" by (simp add: m1_def)
  then have num: "num_ok ?s 16" by (simp add: num_ok_def table_index_def NUMBER_MAPPING_TABLE_ENTRY_eq)
  have bn: "db_is_dat root \<or> hi_ino root = 16" using r(3) by simp
  obtain s' where s': "hodo_write_struct K root 4096 16 ?s = Some (4096, stamped 16 root, 16, s')"
    "store_ok zinv zdata mnt s'" "contents zdata s' = (contents zdata ?s)(16 \<mapsto> stamped 16 root)"
    "wp_room zdata {} s' (BLOCKS_PER_ZONE - 1)" "\<And>k. num_ok s' k = num_ok ?s k"
    "swap_wp (mapping_info s') = swap_wp (mapping_info ?s)"
    "starting_logical_number (mapping_info s') = starting_logical_number (mapping_info ?s)"
    "\<And>j. lbit (mapping_info s') j = lbit (mapping_info ?s) j"
    "zdata (zonefs s') = placed (zdata (zonefs ?s)) (wp (mapping_info ?s)) (stamped 16 root)"
    "wp (mapping_info s') = next_pos (wp (mapping_info ?s))"
    using write_existing [OF ok room num r(1) bn] by blast
  have st': "stamped 16 root = root" using r(1,2) by simp
  have run: "create_root K s = Some s'"
    using n root s'(1) m by (simp add: create_root_def m1_def HODO_DATABLOCK_SIZE_def)
  have c: "contents zdata s' 16 = Some root" using s'(3) st' by simp
  note em = empty_directory [where C = "contents zdata s'" and dl = 16 and hi = root, OF c r(1-3)]
  show thesis
  proof (rule that [OF run s'(2)])
    show "contents zdata s' = [16 \<mapsto> root]" using s'(3) st' c0 by simp
    show "inode_ok (contents zdata s') 16 root" "dir_view (contents zdata s') root = replicate 10 None"
      using r(12-15) by (intro em; simp)+
    show "lbit (mapping_info s') j \<longleftrightarrow> j = 0" for j using s'(8) lb by simp
    show "wp (mapping_info s') = mk_pos 1 1"
      using s'(10) wp by (simp add: next_pos_def mk_pos_def BLOCKS_PER_ZONE_eq)
    show "zdata (zonefs s') z = zdata (zonefs s) z" if "z \<noteq> 1" for z
      using s'(9) wp that by (simp add: placed_def mk_pos_def)
  qed (use r s' sl in \<open>simp_all add: HODO_TYPE_DIR_def\<close>)
qed

text \<open>The first half of the initialisation: there is no table to read, so the root is created.\<close>

lemma hodo_init_loaded:
  assumes z: "zinv (zonefs s)" and fr: "loaded_module K mnt zdata s"
  obtains s2 where "hodo_init K s = create_root K s2" "zinv (zonefs s2)" "config_ok mnt s2"
    "zdata (zonefs s2) = zdata (zonefs s)" "mapping_info s2 = blank_mapping\<lparr>starting_logical_number := 16\<rparr>"
proof -
  note F = fr [unfolded loaded_module_def]
  obtain chunks where ch: "k_mountinfo K = Some chunks" "find_mount_point K chunks (mount_point_path s) = Some mnt"
    using F by (auto split: option.splits)
  define s1 where "s1 = s\<lparr>mount_point_path := mnt,
    mapping_info := (mapping_info s)\<lparr>starting_logical_number := of_nat (hodo_nr_zones s)\<rparr>\<rparr>"
  have cfg: "config_ok mnt s1" "zinv (zonefs s1)" "zdata (zonefs s1) = zdata (zonefs s)"
    using F z by (simp_all add: config_ok_def s1_def)
  have zf: "0 < ZONE_FILES" by (simp add: ZONE_FILES_def NUMBER_ZONES_def)
  have e0: "length (zdata (zonefs s1) 0) \<le> 0" using F cfg(3) by simp
  obtain z' where z': "hodo_zone_read K 0 0 [] SIZEOF_MAPPING_INFO s1 = Some (0, [], s1\<lparr>zonefs := z'\<rparr>)"
    "zinv z'" "zdata z' = zdata (zonefs s1)" using zone_read_eof [OF cfg(2,1) zf e0] by blast
  let ?s2 = "s1\<lparr>zonefs := z'\<rparr>"
  have m: "mapping_info ?s2 = blank_mapping\<lparr>starting_logical_number := 16\<rparr>"
    using F by (simp add: s1_def NUMBER_ZONES_def)
  have rd: "hodo_read_on_disk_mapping_info K s1 = Some (0, ?s2)"
    using z'(1) by (simp add: hodo_read_on_disk_mapping_info_def)
  have "zone_id (wp (mapping_info ?s2)) = 0 \<and> block_index (wp (mapping_info ?s2)) = 0"
    unfolding m by (simp add: blank_mapping_def)
  then have run: "hodo_init K s = create_root K ?s2"
    using ch rd by (simp add: hodo_init_def Let_def s1_def)
  have cfg2: "config_ok mnt ?s2" using cfg(1) by (simp add: config_ok_def)
  show thesis by (rule that [OF run _ cfg2 _ m]) (use z' cfg(3) in simp_all)
qed

lemma hodo_init_fresh:
  assumes z: "zinv (zonefs s)" and fr: "fresh_mount K mnt zdata s" and st: "k_stack K 3 = zero_block"
  obtains s' root where "hodo_init K s = Some s'" "store_ok zinv zdata mnt s'"
    "contents zdata s' = [16 \<mapsto> root]" "inode_ok (contents zdata s') 16 root"
    "dir_view (contents zdata s') root = replicate 10 None" "hi_type root = HODO_TYPE_DIR"
    "hi_file_len root = 0" "wp_room zdata {} s' (BLOCKS_PER_ZONE - 1)" "\<And>j. lbit (mapping_info s') j \<longleftrightarrow> j = 0"
    "starting_logical_number (mapping_info s') = 16" "wp (mapping_info s') = mk_pos 1 1"
    "\<And>z. z \<noteq> 1 \<Longrightarrow> zdata (zonefs s') z = zdata (zonefs s) z"
proof -
  note F = fr [unfolded fresh_mount_def]
  obtain s2 where s2: "hodo_init K s = create_root K s2" "zinv (zonefs s2)" "config_ok mnt s2"
    "zdata (zonefs s2) = zdata (zonefs s)" "mapping_info s2 = blank_mapping\<lparr>starting_logical_number := 16\<rparr>"
    by (rule hodo_init_loaded [OF z conjunct1 [OF F]])
  have e1: "zdata (zonefs s2) 1 = []" using F s2(4) by simp
  show thesis
    using that create_root_ok [OF s2(2,3,5) e1 st] unfolding s2(1,4) by metis
qed

end

end
