(* ===== verification/Hodo_Dir_Props.thy ===== *)
theory Hodo_Dir_Props
  imports Hodo_Init
begin

text \<open>
  The block store and the directories over the mounted zonefs: the facts that \<open>zone_store\<close> gives
  for the model of \<open>file.c\<close> and \<open>super.c\<close> on any healthy device, stated over that model, with
  a concrete RAM device for the examples.
\<close>

section \<open>The setting\<close>

lemma zonefs_kernel_simps [simp]:
  "k_kmalloc (zonefs_kernel B L mnt K) = k_kmalloc K" "k_stack (zonefs_kernel B L mnt K) = k_stack K"
  "k_now (zonefs_kernel B L mnt K) = k_now K" "k_mountinfo (zonefs_kernel B L mnt K) = k_mountinfo K"
  "k_fsuid (zonefs_kernel B L mnt K) = k_fsuid K" "k_fsgid (zonefs_kernel B L mnt K) = k_fsgid K"
  by (simp_all add: zonefs_kernel_def)

text \<open>Allocation works, and the automatic objects have their sizes.\<close>

definition memory_ok :: "'z kernel \<Rightarrow> bool" where
  "memory_ok K \<longleftrightarrow> (\<forall>n. \<exists>b. k_kmalloc K n = Some b \<and> length b = 4096) \<and> length (k_now K) = 16 \<and>
     length (k_stack K 1) = 40 \<and> (\<forall>n. n \<noteq> 1 \<longrightarrow> length (k_stack K n) = 4096)"

lemma memory_okD:
  assumes "memory_ok K"
  obtains b where "k_kmalloc K n = Some b" "length b = 4096"
  using assms unfolding memory_ok_def by blast

lemma memory_ok_zonefs [simp]: "memory_ok (zonefs_kernel B L mnt K) = memory_ok K"
  by (simp add: memory_ok_def)

text \<open>The file system mounted on a healthy device, and the contents of its blocks.\<close>

abbreviation hodo_ok ::
  "'d blkdev \<Rightarrow> 'd iomap_lib \<Rightarrow> (nat \<Rightarrow> int) \<Rightarrow> (nat \<Rightarrow> bool) \<Rightarrow> ('d \<Rightarrow> bool) \<Rightarrow> ('d \<Rightarrow> nat \<Rightarrow> bytes) \<Rightarrow> string \<Rightarrow>
   'd zonefs_state hodo_state \<Rightarrow> bool"
where
  "hodo_ok B L cap zstart dinv zdat \<equiv> store_ok (zonefs_ok B L cap zstart dinv zdat) (zonefs_data zdat)"

abbreviation blocks :: "('d \<Rightarrow> nat \<Rightarrow> bytes) \<Rightarrow> 'd zonefs_state hodo_state \<Rightarrow> u32 \<Rightarrow> bytes option" where
  "blocks zdat \<equiv> contents (zonefs_data zdat)"

abbreviation room :: "('d \<Rightarrow> nat \<Rightarrow> bytes) \<Rightarrow> 'd zonefs_state hodo_state \<Rightarrow> nat \<Rightarrow> bool" where
  "room zdat \<equiv> wp_room (zonefs_data zdat) {}"

abbreviation room_in :: "('d \<Rightarrow> nat \<Rightarrow> bytes) \<Rightarrow> nat set \<Rightarrow> 'd zonefs_state hodo_state \<Rightarrow> nat \<Rightarrow> bool" where
  "room_in zdat \<equiv> wp_room (zonefs_data zdat)"

section \<open>A concrete file system\<close>

definition demo_kernel :: "ram zonefs_state kernel" where
  "demo_kernel = \<lparr>k_kmalloc = (\<lambda>_. Some zero_block),
     k_stack = (\<lambda>n. if n = 1 then zero_dirent else zero_block), k_now = replicate 16 0,
     k_fsuid = 0, k_fsgid = 0, k_mountinfo = Some [''36 35 254:0 / /mnt rw - zonefs /dev/nvme0n1 rw''],
     zf_open = (\<lambda>_ _ z. (Inl (- ENOENT), z)), zf_close = (\<lambda>_ _ z. z), zf_read = (\<lambda>_ _ _ z. ((0, []), z)),
     zf_write = (\<lambda>_ _ _ z. (0, z)), zf_path = (\<lambda>_ _. None), zf_truncate = (\<lambda>_ _ z. (0, z))\<rparr>"

definition demo_state :: "ram zonefs_state hodo_state" where
  "demo_state = \<lparr>mapping_info = blank_mapping, mount_point_path = [], hodo_nr_zones = 16,
     hodo_zone_size = 268435456, zonefs = mounted_fs\<rparr>"

abbreviation demo_K :: "ram zonefs_state kernel" where
  "demo_K \<equiv> zonefs_kernel ram_blk ram_lib ''/mnt'' demo_kernel"

abbreviation demo_ok :: "ram zonefs_state hodo_state \<Rightarrow> bool" where
  "demo_ok \<equiv> hodo_ok ram_blk ram_lib ram_cap ram_start ram_inv (\<lambda>d. d) ''/mnt''"

lemma demo_memory: "memory_ok demo_kernel"
  by (simp add: memory_ok_def demo_kernel_def zero_dirent_def SIZEOF_DIRENT_def)

lemma demo_mountinfo:
  "find_mount_point demo_kernel [''36 35 254:0 / /mnt rw - zonefs /dev/nvme0n1 rw''] [] = Some ''/mnt''"
  by (simp add: find_mount_point_def demo_kernel_def mount_point_of_line_def Let_def)

lemma demo_fresh: "fresh_mount demo_K ''/mnt'' (zonefs_data (\<lambda>d. d)) demo_state"
proof -
  have "find_mount_point demo_K [''36 35 254:0 / /mnt rw - zonefs /dev/nvme0n1 rw''] [] = Some ''/mnt''"
    using demo_mountinfo by (simp add: find_mount_point_def split del: if_split)
  moreover have "k_mountinfo demo_K = Some [''36 35 254:0 / /mnt rw - zonefs /dev/nvme0n1 rw'']"
    by (simp add: demo_kernel_def)
  ultimately show ?thesis
    by (simp add: fresh_mount_def loaded_module_def demo_state_def NUMBER_ZONES_def ZONE_SIZE_def zonefs_data_def mounted_fs_def)
qed

lemma demo_init:
  obtains s root where "hodo_init demo_K demo_state = Some s" "demo_ok s" "blocks (\<lambda>d. d) s = [16 \<mapsto> root]"
    "inode_ok (blocks (\<lambda>d. d) s) 16 root" "dir_view (blocks (\<lambda>d. d) s) root = replicate 10 None"
    "room (\<lambda>d. d) s (BLOCKS_PER_ZONE - 1)" "has_free_number s" "starting_logical_number (mapping_info s) = 16"
    "\<And>j. lbit (mapping_info s) j \<longleftrightarrow> j = 0"
proof -
  have st: "k_stack demo_K 3 = zero_block" by (simp add: demo_kernel_def)
  have z: "zonefs_ok ram_blk ram_lib ram_cap ram_start ram_inv (\<lambda>d. d) (zonefs demo_state)"
    using mounted_ok by (simp add: demo_state_def)
  obtain s root where s: "hodo_init demo_K demo_state = Some s" "demo_ok s" "blocks (\<lambda>d. d) s = [16 \<mapsto> root]"
    "inode_ok (blocks (\<lambda>d. d) s) 16 root" "dir_view (blocks (\<lambda>d. d) s) root = replicate 10 None"
    "room (\<lambda>d. d) s (BLOCKS_PER_ZONE - 1)" "starting_logical_number (mapping_info s) = 16"
    "\<And>j. lbit (mapping_info s) j \<longleftrightarrow> j = 0"
    using zonefs.hodo_init_fresh [OF z demo_fresh st] by metis
  have "has_free_number s" unfolding has_free_number_def using s(8)
    by (intro exI [of _ 1]) (simp add: NUMBER_MAPPING_TABLE_ENTRY_eq)
  then show thesis using that s by blast
qed

text \<open>The empty root inode of the new file system, and what is free.\<close>

lemma demo_root:
  obtains s root where "demo_ok s" "blocks (\<lambda>d. d) s = [16 \<mapsto> root]" "inode_ok (blocks (\<lambda>d. d) s) 16 root"
    "inode_directs root = replicate 10 0" "room (\<lambda>d. d) s 65535" "1048575 \<le> free_numbers s" "num_ok s 16"
    "starting_logical_number (mapping_info s) = 16" "hi_file_len root = 0"
proof -
  let ?C = "blocks (\<lambda>d. d)"
  have st: "k_stack demo_K 3 = zero_block" by (simp add: demo_kernel_def)
  have z: "zonefs_ok ram_blk ram_lib ram_cap ram_start ram_inv (\<lambda>d. d) (zonefs demo_state)"
    using mounted_ok by (simp add: demo_state_def)
  obtain s root where s: "demo_ok s" "?C s = [16 \<mapsto> root]" "inode_ok (?C s) 16 root"
    "dir_view (?C s) root = replicate 10 None" "room (\<lambda>d. d) s (BLOCKS_PER_ZONE - 1)"
    "\<And>j. lbit (mapping_info s) j \<longleftrightarrow> j = 0" "starting_logical_number (mapping_info s) = 16" "hi_file_len root = 0"
    using zonefs.hodo_init_fresh [OF z demo_fresh st] by metis
  have dz: "hi_direct i root = 0" if i: "i < 10" for i
  proof (rule ccontr)
    assume n: "hi_direct i root \<noteq> 0"
    obtain b where "?C s (hi_direct i root) = Some b" using inode_okD(8) [OF s(3) i n] by blast
    then have "dir_view (?C s) root ! i \<noteq> None" using i n by (simp add: dir_view_def is_block_logical_number_valid_def)
    then show False using i by (simp add: s(4))
  qed
  have dirs: "inode_directs root = replicate 10 0" by (intro nth_equalityI) (simp_all add: dz)
  have r: "room (\<lambda>d. d) s 65535" using s(5) by (simp add: BLOCKS_PER_ZONE_eq)
  have "{1..1048575} \<subseteq> {k. k < NUMBER_MAPPING_TABLE_ENTRY \<and> \<not> lbit (mapping_info s) k}"
    unfolding s(6) NUMBER_MAPPING_TABLE_ENTRY_eq by auto
  then have "card {1..1048575 :: nat} \<le> free_numbers s" unfolding free_numbers_def by (intro card_mono) simp_all
  then have fn: "1048575 \<le> free_numbers s" by simp
  have m: "mapping_ok (zonefs_data (\<lambda>d. d) (zonefs s)) (mapping_info s)" using s(1) by (simp add: store_ok_def)
  have "num_ok s 16" by (rule num_ok_live [where zdata = "zonefs_data (\<lambda>d. d)", OF m]) (simp add: s(2))
  then show thesis using that s(1-3,7,8) dirs r fn by blast
qed

section \<open>Properties of the block store\<close>

text \<open>C3: the store reads back what was written. A write of a block with room in its zone
  succeeds and keeps the invariant; afterwards a read of any mapped number returns its block: the
  one just written for that number, the earlier contents for every other.\<close>

theorem store_write_read:
  assumes "hodo_ok B L cap zstart dinv zdat mnt s" "room zdat s 1" "num_ok s l"
    and "length buf = 4096" "db_is_dat buf \<or> hi_ino buf = l"
  shows "\<exists>s1. hodo_write_struct (zonefs_kernel B L mnt K) buf 4096 l s = Some (4096, stamped l buf, l, s1) \<and>
    hodo_ok B L cap zstart dinv zdat mnt s1 \<and>
    (\<forall>l' b out. ((blocks zdat s)(l \<mapsto> stamped l buf)) l' = Some b \<and> length out = 4096 \<longrightarrow>
      (\<exists>s2. hodo_read_struct (zonefs_kernel B L mnt K) l' out 4096 s1 = Some (4096, b, s2) \<and>
         blocks zdat s2 = blocks zdat s1))"
proof -
  have rm: "room zdat s (Suc 0)" using assms(2) by simp
  obtain s1 where s1: "hodo_write_struct (zonefs_kernel B L mnt K) buf 4096 l s = Some (4096, stamped l buf, l, s1)"
    "store_ok (zonefs_ok B L cap zstart dinv zdat) (zonefs_data zdat) mnt s1"
    "blocks zdat s1 = (blocks zdat s)(l \<mapsto> stamped l buf)"
    by (rule zonefs.write_existing [OF assms(1) rm assms(3-5)])
  have "\<exists>s2. hodo_read_struct (zonefs_kernel B L mnt K) l' out 4096 s1 = Some (4096, b, s2) \<and>
      blocks zdat s2 = blocks zdat s1" if "blocks zdat s1 l' = Some b" "length out = 4096" for l' b out
    using zonefs.read_block [OF s1(2) that] by (metis HODO_DATABLOCK_SIZE_def)
  then show ?thesis using s1 by simp
qed

theorem store_write_read_witness:
  "\<exists>s s1 s2. demo_ok s \<and>
     hodo_write_struct demo_K (db_set_magic 0x30 zero_block) 4096 16 s =
       Some (4096, stamped 16 (db_set_magic 0x30 zero_block), 16, s1) \<and>
     hodo_read_struct demo_K 16 zero_block 4096 s1 = Some (4096, stamped 16 (db_set_magic 0x30 zero_block), s2)"
proof -
  obtain s root where s: "hodo_init demo_K demo_state = Some s" "demo_ok s" "blocks (\<lambda>d. d) s = [16 \<mapsto> root]"
    "room (\<lambda>d. d) s (BLOCKS_PER_ZONE - 1)" using demo_init by metis
  have m: "mapping_ok (zonefs_data (\<lambda>d. d) (zonefs s)) (mapping_info s)"
    using s(2) by (simp add: store_ok_def)
  have n: "num_ok s 16" by (rule num_ok_live [where zdata = "zonefs_data (\<lambda>d. d)", OF m]) (simp add: s(3))
  have r: "room (\<lambda>d. d) s 1" using s(4) by (auto simp: wp_room_def BLOCKS_PER_ZONE_eq)
  have b: "length (db_set_magic 0x30 zero_block) = 4096" "db_is_dat (db_set_magic 0x30 zero_block)"
    by (simp_all add: length_db_set_magic)
  from store_write_read [OF s(2) r n b(1) disjI1 [OF b(2)]]
  obtain s1 where s1: "hodo_write_struct demo_K (db_set_magic 0x30 zero_block) 4096 16 s =
       Some (4096, stamped 16 (db_set_magic 0x30 zero_block), 16, s1)"
    "\<And>l' b out. ((blocks (\<lambda>d. d) s)(16 \<mapsto> stamped 16 (db_set_magic 0x30 zero_block))) l' = Some b \<and>
       length out = 4096 \<Longrightarrow> \<exists>s2. hodo_read_struct demo_K l' out 4096 s1 = Some (4096, b, s2)" by blast
  then show ?thesis using s(2) by (metis fun_upd_same zero_block_ptrs(1))
qed

text \<open>A write with the number 0 takes a number that was free, and only that number's
  contents change.\<close>

theorem store_write_new:
  assumes "hodo_ok B L cap zstart dinv zdat mnt s" "room zdat s 1" "has_free_number s"
    and "length buf = 4096" "db_is_dat buf"
  shows "\<exists>n s1. hodo_write_struct (zonefs_kernel B L mnt K) buf 4096 0 s = Some (4096, stamped n buf, n, s1) \<and>
    hodo_ok B L cap zstart dinv zdat mnt s1 \<and> n \<noteq> 0 \<and> blocks zdat s n = None \<and>
    blocks zdat s1 = (blocks zdat s)(n \<mapsto> stamped n buf)"
proof -
  have rm: "room zdat s (Suc 0)" using assms(2) by simp
  show ?thesis
    by (rule zonefs.write_new [OF assms(1) rm assms(3-5)]) blast
qed

theorem store_write_new_witness:
  "\<exists>s n s1. demo_ok s \<and>
     hodo_write_struct demo_K (db_set_magic 0x30 zero_block) 4096 0 s =
       Some (4096, stamped n (db_set_magic 0x30 zero_block), n, s1) \<and> n \<noteq> 16"
proof -
  obtain s root where s: "hodo_init demo_K demo_state = Some s" "demo_ok s" "blocks (\<lambda>d. d) s = [16 \<mapsto> root]"
    "room (\<lambda>d. d) s (BLOCKS_PER_ZONE - 1)" "has_free_number s" using demo_init by metis
  have r: "room (\<lambda>d. d) s 1" using s(4) by (auto simp: wp_room_def BLOCKS_PER_ZONE_eq)
  have b: "length (db_set_magic 0x30 zero_block) = 4096" "db_is_dat (db_set_magic 0x30 zero_block)"
    by (simp_all add: length_db_set_magic)
  from store_write_new [OF s(2) r s(5) b]
  show ?thesis using s(2,3) by (metis fun_upd_same option.distinct(1))
qed

lemma find_mount_point_zonefs: "find_mount_point (zonefs_kernel B L mnt K) = find_mount_point K"
  by (intro ext) (simp add: find_mount_point_def split: list.split)

text \<open>On a fresh device \<open>hodo_init\<close> creates an empty root directory with the first number,
  the number of zones, and leaves a well-formed store with that one block.\<close>

theorem init_creates_root:
  assumes "zonefs_ok B L cap zstart dinv zdat (zonefs s)" "fresh_mount K mnt (zonefs_data zdat) s"
    and "k_stack K 3 = zero_block"
  shows "\<exists>s' root. hodo_init (zonefs_kernel B L mnt K) s = Some s' \<and>
    hodo_ok B L cap zstart dinv zdat mnt s' \<and> blocks zdat s' = [16 \<mapsto> root] \<and>
    inode_ok (blocks zdat s') 16 root \<and> hi_type root = HODO_TYPE_DIR \<and>
    view_dirents (dir_view (blocks zdat s') root) = [] \<and> (\<forall>j. lbit (mapping_info s') j \<longleftrightarrow> j = 0)"
proof -
  have f: "fresh_mount (zonefs_kernel B L mnt K) mnt (zonefs_data zdat) s"
    using assms(2) unfolding fresh_mount_def loaded_module_def by (simp add: find_mount_point_zonefs split: option.splits)
  have st: "k_stack (zonefs_kernel B L mnt K) 3 = zero_block" using assms(3) by simp
  obtain s' root where s': "hodo_init (zonefs_kernel B L mnt K) s = Some s'"
    "hodo_ok B L cap zstart dinv zdat mnt s'" "blocks zdat s' = [16 \<mapsto> root]"
    "inode_ok (blocks zdat s') 16 root" "dir_view (blocks zdat s') root = replicate 10 None"
    "hi_type root = HODO_TYPE_DIR" "hi_file_len root = 0" "room zdat s' (BLOCKS_PER_ZONE - 1)"
    "\<And>j. lbit (mapping_info s') j \<longleftrightarrow> j = 0" "starting_logical_number (mapping_info s') = 16"
    using zonefs.hodo_init_fresh [OF assms(1) f st] by metis
  have "view_dirents (dir_view (blocks zdat s') root) = []"
    unfolding s'(5) by (simp add: view_dirents_def view_blocks_def)
  then show ?thesis using s' by (intro exI [of _ s'] exI [of _ root] conjI allI)
qed

theorem init_creates_root_witness:
  "\<exists>s' root. hodo_init demo_K demo_state = Some s' \<and> blocks (\<lambda>d. d) s' = [16 \<mapsto> root]"
proof -
  have z: "zonefs_ok ram_blk ram_lib ram_cap ram_start ram_inv (\<lambda>d. d) (zonefs demo_state)"
    using mounted_ok by (simp add: demo_state_def)
  have f: "fresh_mount demo_kernel ''/mnt'' (zonefs_data (\<lambda>d. d)) demo_state"
    using demo_fresh demo_mountinfo by (simp add: fresh_mount_def loaded_module_def demo_kernel_def demo_state_def)
  have "k_stack demo_kernel 3 = zero_block" by (simp add: demo_kernel_def)
  from init_creates_root [OF z f this] show ?thesis by blast
qed

section \<open>Properties of directories\<close>

text \<open>C18: looking a name up in a directory computes the reference search on the abstract
  directory and changes nothing in the store.\<close>

theorem lookup_refines_search:
  assumes "hodo_ok B L cap zstart dinv zdat mnt s" "inode_ok (blocks zdat s) dl hi" "memory_ok K"
  shows "\<exists>s'. find_inode_number (zonefs_kernel B L mnt K) hi name s =
      Some (find_in_view name (view_blocks (dir_view (blocks zdat s) hi)), s') \<and>
    hodo_ok B L cap zstart dinv zdat mnt s' \<and> blocks zdat s' = blocks zdat s \<and>
    mapping_info s' = mapping_info s"
proof -
  obtain b where b: "k_kmalloc (zonefs_kernel B L mnt K) 2 = Some b" "length b = 4096"
    using memory_okD [OF assms(3)] by auto
  obtain s' where s': "find_inode_number (zonefs_kernel B L mnt K) hi name s =
      Some (find_in_view name (view_blocks (dir_view (blocks zdat s) hi)), s')"
    "same_store (zonefs_ok B L cap zstart dinv zdat) (zonefs_data zdat) s s'"
    by (rule zonefs.find_inode_number_ok [OF assms(1,2) b])
  then show ?thesis using same_storeD [OF s'(2)] assms(1) by blast
qed

theorem lookup_refines_search_witness:
  "\<exists>s root s'. demo_ok s \<and> find_inode_number demo_K root (replicate 16 0x61) s = Some (0, s')"
proof -
  obtain s root where s: "demo_ok s" "inode_ok (blocks (\<lambda>d. d) s) 16 root"
    "dir_view (blocks (\<lambda>d. d) s) root = replicate 10 None" using demo_init by metis
  from lookup_refines_search [OF s(1,2) demo_memory, of "replicate 16 0x61"]
  obtain s' where "find_inode_number demo_K root (replicate 16 0x61) s =
      Some (find_in_view (replicate 16 0x61) (view_blocks (replicate 10 None)), s')"
    unfolding s(3) by blast
  then show ?thesis using s(1) by (auto simp: view_blocks_def)
qed

text \<open>C16: adding an entry implements the reference insertion: it returns 0 and the directory on
  disk becomes the reference's result with one more file counted, every block outside the
  directory keeping its contents; or, when all ten blocks are full, it returns \<open>-1\<close> and
  nothing changes.\<close>

theorem add_dirent_refines_insertion:
  assumes "hodo_ok B L cap zstart dinv zdat mnt s" "inode_ok (blocks zdat s) (ucast ino) hi"
    and "room zdat s 2" "has_free_number s" "unat (hi_name_len sub) \<le> 16" "memory_ok K"
  shows "case add_to_view (k_stack K 1) sub (dir_view (blocks zdat s) hi) of
      None \<Rightarrow> \<exists>s'. add_dirent (zonefs_kernel B L mnt K) ino sub s = Some (-1, s') \<and>
        hodo_ok B L cap zstart dinv zdat mnt s' \<and> blocks zdat s' = blocks zdat s
    | Some v \<Rightarrow> \<exists>s' hi' n. add_dirent (zonefs_kernel B L mnt K) ino sub s = Some (0, s') \<and>
        hodo_ok B L cap zstart dinv zdat mnt s' \<and> inode_ok (blocks zdat s') (ucast ino) hi' \<and>
        dir_view (blocks zdat s') hi' = v \<and> hi_file_len hi' = hi_file_len hi + 1 \<and>
        (blocks zdat s n = None \<or> n \<in> set (inode_directs hi)) \<and>
        (\<forall>l. l \<noteq> ucast ino \<and> l \<noteq> n \<longrightarrow> blocks zdat s' l = blocks zdat s l)"
proof -
  obtain b where b: "k_kmalloc (zonefs_kernel B L mnt K) 6 = Some b" "length b = 4096"
    using memory_okD [OF assms(6)] by auto
  have j: "length (k_stack (zonefs_kernel B L mnt K) 1) = 40" using assms(6) by (simp add: memory_ok_def)
  have rm: "room zdat s (2 + 0)" using assms(3) by simp
  note add = zonefs.add_dirent_ok [OF assms(1,2) rm assms(4,5) j b, simplified zonefs_kernel_simps]
  show ?thesis
  proof (cases "add_to_view (k_stack K 1) sub (dir_view (blocks zdat s) hi)")
    case None
    then show ?thesis using add same_storeD(1,2) assms(1) by (simp, blast)
  next
    case (Some v)
    then obtain s1 s' hi' n j b where a: "add_dirent (zonefs_kernel B L mnt K) ino sub s = Some (0, s')"
      "same_store (zonefs_ok B L cap zstart dinv zdat) (zonefs_data zdat) s s1"
      "inode_updated (zonefs_ok B L cap zstart dinv zdat) (zonefs_data zdat) mnt (ucast ino) hi j b n s1 hi' s'"
      "dir_view (blocks zdat s') hi' = v" "hi_file_len hi' = hi_file_len hi + 1"
      using add by auto
    have "blocks zdat s1 = blocks zdat s" using same_storeD(2) [OF a(2)] .
    then show ?thesis using Some a(1,3,4,5) unfolding inode_updated_def by (simp, blast)
  qed
qed

text \<open>A file to add: named \<open>a\<close>, numbered 17.\<close>

definition demo_file :: bytes where
  "demo_file = hi_set_name_len 1 (hi_put_name [0x61] (hi_set_ino 17 zero_block))"

lemma demo_file_simps [simp]:
  "length demo_file = 4096" "unat (hi_name_len demo_file) = 1" "hi_ino demo_file = 17"
  "take 1 (hi_name demo_file) = [0x61]"
proof -
  show "length demo_file = 4096" "unat (hi_name_len demo_file) = 1" "hi_ino demo_file = 17"
    by (simp_all add: demo_file_def hi_defs layout_simps length_simps)
  have "get_bytes 17 1 demo_file = [0x61]"
    by (simp add: demo_file_def hi_defs layout_simps length_simps get_put_same)
  then show "take 1 (hi_name demo_file) = [0x61]" by (simp add: hi_name_def get_bytes_def)
qed

theorem add_dirent_refines_insertion_witness:
  "\<exists>s root s' hi'. demo_ok s \<and> add_dirent demo_K 16 demo_file s = Some (0, s') \<and>
     dir_view (blocks (\<lambda>d. d) s') hi' =
       Some (new_entries (stored_dirent zero_dirent demo_file)) # replicate 9 None \<and>
     inode_ok (blocks (\<lambda>d. d) s) 16 root"
proof -
  obtain s root where s: "demo_ok s" "inode_ok (blocks (\<lambda>d. d) s) 16 root"
    "dir_view (blocks (\<lambda>d. d) s) root = replicate 10 None" "room (\<lambda>d. d) s (BLOCKS_PER_ZONE - 1)"
    "has_free_number s" using demo_init by metis
  have r: "room (\<lambda>d. d) s 2" using s(4) by (auto simp: wp_room_def BLOCKS_PER_ZONE_eq)
  have d: "inode_ok (blocks (\<lambda>d. d) s) (ucast (16 :: u64)) root" using s(2) by simp
  have st: "k_stack demo_kernel 1 = zero_dirent" by (simp add: demo_kernel_def)
  have v: "add_to_view zero_dirent demo_file (replicate 10 None) =
      Some (Some (new_entries (stored_dirent zero_dirent demo_file)) # replicate 9 None)"
    by (simp add: numeral_eq_Suc)
  have "unat (hi_name_len demo_file) \<le> 16" by simp
  from add_dirent_refines_insertion [OF s(1) d r s(5) this demo_memory]
  show ?thesis unfolding s(3) st v using s(1,2) by auto
qed

text \<open>The outcome of an insertion into a directory, for the look-ups that follow it.\<close>

lemma add_dirent_outcome:
  assumes "hodo_ok B L cap zstart dinv zdat mnt s" "inode_ok (blocks zdat s) (ucast ino) hi"
    and "room zdat s (2 + k)" "has_free_number s" "unat (hi_name_len sub) \<le> 16" "memory_ok K"
    and "add_to_view (k_stack K 1) sub (dir_view (blocks zdat s) hi) = Some v"
  obtains s' hi' where "add_dirent (zonefs_kernel B L mnt K) ino sub s = Some (0, s')"
    "hodo_ok B L cap zstart dinv zdat mnt s'" "inode_ok (blocks zdat s') (ucast ino) hi'"
    "dir_view (blocks zdat s') hi' = v" "room zdat s' k"
proof -
  obtain b where b: "k_kmalloc (zonefs_kernel B L mnt K) 6 = Some b" "length b = 4096"
    using memory_okD [OF assms(6)] by auto
  have j: "length (k_stack (zonefs_kernel B L mnt K) 1) = 40" using assms(6) by (simp add: memory_ok_def)
  show thesis using zonefs.add_dirent_ok [OF assms(1-5) j b, simplified zonefs_kernel_simps] assms(7) that
    by (auto simp: inode_updated_def)
qed

lemma find_inode_number_view:
  assumes "hodo_ok B L cap zstart dinv zdat mnt s" "inode_ok (blocks zdat s) dl hi" "memory_ok K"
  shows "\<exists>s'. find_inode_number (zonefs_kernel B L mnt K) hi name s =
      Some (find_in_view name (view_blocks (dir_view (blocks zdat s) hi)), s')"
proof -
  obtain b where "k_kmalloc (zonefs_kernel B L mnt K) 2 = Some b" "length b = 4096"
    using memory_okD [OF assms(3)] by auto
  then show ?thesis by (rule zonefs.find_inode_number_ok [OF assms(1,2)]) blast
qed

lemma view_dirents_length:
  assumes "inode_ok C dl hi"
  shows "\<forall>d \<in> set (view_dirents (dir_view C hi)). length d = 40"
proof -
  have "\<forall>d \<in> set (view_dirents (ptr_view C ls)). length d = 40" if "directs_mapped C ls" for ls
    using that
  proof (induction ls)
    case (Cons l ls)
    then show ?case
      by (auto simp: directs_mapped_Cons view_dirents_def is_block_logical_number_valid_def block_dirents_def
          length_dirent_at)
  qed (simp add: view_dirents_def)
  then show ?thesis using assms unfolding dir_view_def inode_ok_def by blast
qed

text \<open>A file whose entry has just been added is found under its name, with its inode number,
  provided the name was not in the directory and the bytes behind the name in the slot it got
  make up the same 16-byte name.\<close>

theorem added_entry_is_found:
  assumes "hodo_ok B L cap zstart dinv zdat mnt s" "inode_ok (blocks zdat s) (ucast ino) hi"
    and "room zdat s 2" "has_free_number s" "memory_ok K"
    and "length sub = 4096" "unat (hi_name_len sub) \<le> 16" "hi_ino sub \<noteq> 0"
    and "v = dir_view (blocks zdat s) hi" "add_to_view (k_stack K 1) sub v \<noteq> None"
    and "\<forall>d \<in> set (view_dirents v). de_name d \<noteq> name"
    and "\<forall>d \<in> insert (k_stack K 1) {d \<in> set (view_dirents v). \<not> is_dirent_valid d}. stored_name d sub = name"
  shows "\<exists>s1 hi1. add_dirent (zonefs_kernel B L mnt K) ino sub s = Some (0, s1) \<and>
    inode_ok (blocks zdat s1) (ucast ino) hi1 \<and>
    (\<exists>s2. find_inode_number (zonefs_kernel B L mnt K) hi1 name s1 = Some (ucast (hi_ino sub), s2))"
proof -
  obtain v' where v': "add_to_view (k_stack K 1) sub (dir_view (blocks zdat s) hi) = Some v'"
    using assms(9,10) by auto
  obtain s1 hi1 where s1: "add_dirent (zonefs_kernel B L mnt K) ino sub s = Some (0, s1)"
    "hodo_ok B L cap zstart dinv zdat mnt s1" "inode_ok (blocks zdat s1) (ucast ino) hi1"
    "dir_view (blocks zdat s1) hi1 = v'"
    by (rule add_dirent_outcome [OF assms(1,2) _ assms(4,7,5) v', where k = 0]) (use assms(3) in simp_all)
  have "find_in_view name (view_blocks v') = ucast (hi_ino sub)"
    using v' assms(5-8) view_dirents_length [OF assms(2)] assms(11,12) unfolding assms(9)
    by (intro find_after_add) (simp_all add: memory_ok_def)
  then show ?thesis using s1 find_inode_number_view [OF s1(2,3) assms(5), of name] by auto
qed

lemma demo_root_view:
  obtains s root where "demo_ok s" "inode_ok (blocks (\<lambda>d. d) s) (ucast (16 :: u64)) root"
    "dir_view (blocks (\<lambda>d. d) s) root = replicate 10 None" "room (\<lambda>d. d) s 2" "has_free_number s"
proof -
  obtain s root where s: "demo_ok s" "inode_ok (blocks (\<lambda>d. d) s) 16 root"
    "dir_view (blocks (\<lambda>d. d) s) root = replicate 10 None" "room (\<lambda>d. d) s (BLOCKS_PER_ZONE - 1)"
    "has_free_number s" using demo_init by metis
  moreover have "room (\<lambda>d. d) s 2" using s(4) by (auto simp: wp_room_def BLOCKS_PER_ZONE_eq)
  ultimately show thesis using that by simp
qed

lemma empty_view_simps [simp]:
  "view_dirents (replicate n None) = []" "view_blocks (replicate n None) = []"
  "add_to_view junk sub (replicate 10 None) = Some (Some (new_entries (stored_dirent junk sub)) # replicate 9 None)"
  by (simp_all add: view_dirents_def view_blocks_def numeral_eq_Suc)

definition demo_name :: bytes where
  "demo_name = 0x61 # replicate 15 0"

lemma demo_stored_name: "stored_name zero_dirent demo_file = demo_name"
proof -
  have "stored_name zero_dirent demo_file = [0x61] @ drop 1 (de_name zero_dirent)"
    using demo_file_simps(2,4) unfolding stored_name_def by simp
  then show ?thesis
    by (simp add: demo_name_def zero_dirent_def de_name_def get_bytes_def SIZEOF_DIRENT_def min_def)
qed

theorem added_entry_is_found_witness:
  "\<exists>s s1 hi1 s2. demo_ok s \<and> add_dirent demo_K 16 demo_file s = Some (0, s1) \<and>
     find_inode_number demo_K hi1 demo_name s1 = Some (17, s2)"
proof -
  obtain s root where s: "demo_ok s" "inode_ok (blocks (\<lambda>d. d) s) (ucast (16 :: u64)) root"
    "dir_view (blocks (\<lambda>d. d) s) root = replicate 10 None" "room (\<lambda>d. d) s 2" "has_free_number s"
    using demo_root_view .
  have "\<exists>s1 hi1. add_dirent demo_K 16 demo_file s = Some (0, s1) \<and>
      inode_ok (blocks (\<lambda>d. d) s1) (ucast (16 :: u64)) hi1 \<and>
      (\<exists>s2. find_inode_number demo_K hi1 demo_name s1 = Some (ucast (hi_ino demo_file), s2))"
    by (rule added_entry_is_found [OF s(1,2,4,5) demo_memory, of demo_file "replicate 10 None" demo_name])
      (simp_all add: s(3) demo_kernel_def demo_stored_name)
  then show ?thesis using s(1) by auto
qed

text \<open>C35: the entry that goes into a new block is built in an uninitialised object, and only the
  name's own bytes are copied into it. When the object holds a nonzero byte behind them, the
  file just created in an empty directory is not found under its zero-padded name.\<close>

theorem stack_bytes_hide_new_entry:
  assumes "hodo_ok B L cap zstart dinv zdat mnt s" "inode_ok (blocks zdat s) (ucast ino) hi"
    and "dir_view (blocks zdat s) hi = replicate 10 None"
    and "room zdat s 2" "has_free_number s" "memory_ok K"
    and "length sub = 4096" "n = unat (hi_name_len sub)" "n \<le> 16"
    and "name = take n (hi_name sub) @ replicate (16 - n) 0" "name \<noteq> replicate 16 0"
    and "drop n (de_name (k_stack K 1)) \<noteq> replicate (16 - n) 0"
  shows "\<exists>s1 hi1. add_dirent (zonefs_kernel B L mnt K) ino sub s = Some (0, s1) \<and>
    inode_ok (blocks zdat s1) (ucast ino) hi1 \<and>
    (\<exists>s2. find_inode_number (zonefs_kernel B L mnt K) hi1 name s1 = Some (0, s2))"
proof -
  obtain v' where v': "add_to_view (k_stack K 1) sub (dir_view (blocks zdat s) hi) = Some v'"
    unfolding assms(3) by simp
  have n: "unat (hi_name_len sub) \<le> 16" using assms(8,9) by simp
  obtain s1 hi1 where s1: "add_dirent (zonefs_kernel B L mnt K) ino sub s = Some (0, s1)"
    "hodo_ok B L cap zstart dinv zdat mnt s1" "inode_ok (blocks zdat s1) (ucast ino) hi1"
    "dir_view (blocks zdat s1) hi1 = v'"
    by (rule add_dirent_outcome [OF assms(1,2) _ assms(5) n assms(6) v', where k = 0]) (use assms(4) in simp_all)
  have ne: "stored_name (k_stack K 1) sub \<noteq> name" using assms(8,10,12) by (simp add: stored_name_def)
  have "find_in_view name (view_blocks v') = find_in_view name (view_blocks (dir_view (blocks zdat s) hi))"
    using v' assms(6,7,11) n ne unfolding assms(3)
    by (intro find_other_after_add) (simp_all add: memory_ok_def)
  then have "find_in_view name (view_blocks v') = 0" unfolding assms(3) by simp
  then show ?thesis using s1 find_inode_number_view [OF s1(2,3) assms(6), of name] by auto
qed

definition dirty_kernel :: "ram zonefs_state kernel" where
  "dirty_kernel = demo_kernel\<lparr>k_stack := (k_stack demo_kernel)(1 := replicate 40 0xFF)\<rparr>"

theorem stack_bytes_hide_new_entry_witness:
  "\<exists>s s1 hi1 s2. demo_ok s \<and> add_dirent (zonefs_kernel ram_blk ram_lib ''/mnt'' dirty_kernel) 16 demo_file s = Some (0, s1) \<and>
     find_inode_number (zonefs_kernel ram_blk ram_lib ''/mnt'' dirty_kernel) hi1 demo_name s1 = Some (0, s2)"
proof -
  obtain s root where s: "demo_ok s" "inode_ok (blocks (\<lambda>d. d) s) (ucast (16 :: u64)) root"
    "dir_view (blocks (\<lambda>d. d) s) root = replicate 10 None" "room (\<lambda>d. d) s 2" "has_free_number s"
    using demo_root_view .
  have m: "memory_ok dirty_kernel"
    by (simp add: memory_ok_def dirty_kernel_def demo_kernel_def)
  have nm: "demo_name = take 1 (hi_name demo_file) @ replicate (16 - 1) 0"
    unfolding demo_file_simps by (simp add: demo_name_def)
  have "hd demo_name \<noteq> hd (replicate 16 0)" by (simp add: demo_name_def)
  then have z: "demo_name \<noteq> replicate 16 0" by metis
  have dn: "de_name (k_stack dirty_kernel 1) = replicate 16 0xFF"
    by (simp add: dirty_kernel_def de_name_def get_bytes_def min_def)
  have d: "drop 1 (de_name (k_stack dirty_kernel 1)) \<noteq> replicate (16 - 1) 0" unfolding dn by simp
  have n: "1 = unat (hi_name_len demo_file)" "(1 :: nat) \<le> 16" by simp_all
  show ?thesis
    using stack_bytes_hide_new_entry [OF s(1-5) m demo_file_simps(1) n nm z d] s(1) by blast
qed

lemma offer_accepted: "(\<forall>k < length es. act (out @ take k es) (es ! k)) \<Longrightarrow> offer act out es = out @ es"
proof (induction es arbitrary: out)
  case (Cons e es)
  have "act out e" using Cons.prems by (auto dest: spec [of _ 0])
  moreover have "\<forall>k < length es. act ((out @ [e]) @ take k es) (es ! k)" using Cons.prems by (auto dest: spec [of _ "Suc _"])
  ultimately show ?case using Cons.IH [of "out @ [e]"] by (simp add: offer_def)
qed (simp add: offer_def)

text \<open>C25: listing a directory emits exactly its valid entries, in the order of the blocks and slots, from
  the caller's position on, when the caller's buffer accepts every one of them as it comes; the position
  is left behind the last one, and no block changes. (For a buffer that fills up before, see
  \<open>listing_loses_entries\<close>.)\<close>

theorem listing_is_complete:
  assumes "hodo_ok B L cap zstart dinv zdat mnt s" "inode_ok (blocks zdat s) dl hi" "memory_ok K"
    and "vs = filter is_dirent_valid (view_dirents (dir_view (blocks zdat s) hi))"
    and "names_fit (view_dirents (dir_view (blocks zdat s) hi))" "cnt \<le> ctx_pos ctx"
    and "es = map dirent_entry (drop (ctx_pos ctx - cnt) vs)" "\<forall>k < length es. act (ctx_out ctx @ take k es) (es ! k)"
  shows "\<exists>s'. read_all_dirents (zonefs_kernel B L mnt K) act hi (ctx, cnt) s =
      Some (END_READ, (\<lparr>ctx_pos = max (ctx_pos ctx) (cnt + length vs),
          ctx_out = ctx_out ctx @ es\<rparr>, cnt + length vs), s') \<and>
    blocks zdat s' = blocks zdat s"
proof -
  obtain b where b: "k_kmalloc (zonefs_kernel B L mnt K) 4 = Some b" "length b = 4096"
    using memory_okD [OF assms(3)] by auto
  have o: "offer act (ctx_out ctx) es = ctx_out ctx @ es" by (rule offer_accepted) (use assms(8) in blast)
  obtain s' where "read_all_dirents (zonefs_kernel B L mnt K) act hi (ctx, cnt) s =
      Some (END_READ, (\<lparr>ctx_pos = max (ctx_pos ctx) (cnt + length vs),
          ctx_out = offer act (ctx_out ctx) es\<rparr>, cnt + length vs), s')"
    "same_store (zonefs_ok B L cap zstart dinv zdat) (zonefs_data zdat) s s'"
    unfolding assms(7)
    by (rule zonefs.read_all_dirents_ok [OF assms(1,2) b assms(5) [unfolded view_dirents_def] assms(6)
        assms(4) [unfolded view_dirents_def]])
  then show ?thesis using same_storeD(2) by (auto simp: o)
qed

text \<open>The result of \<open>dir_emit\<close> is ignored. When the caller's buffer takes only \<open>n\<close> entries
  the position still moves behind the last entry of the directory, so the entries that did not
  fit are never listed: the next call, with an empty buffer, emits nothing.\<close>

theorem listing_loses_entries:
  assumes "hodo_ok B L cap zstart dinv zdat mnt s" "inode_ok (blocks zdat s) dl hi" "memory_ok K"
    and "vs = filter is_dirent_valid (view_dirents (dir_view (blocks zdat s) hi))"
    and "names_fit (view_dirents (dir_view (blocks zdat s) hi))"
    and "act = (\<lambda>o' e. length o' < n)"
    and "pos = 2 + length vs"
  shows "\<exists>s1 s2. read_all_dirents (zonefs_kernel B L mnt K) act hi (\<lparr>ctx_pos = 2, ctx_out = []\<rparr>, 2) s =
      Some (END_READ, (\<lparr>ctx_pos = pos, ctx_out = map dirent_entry (take n vs)\<rparr>, pos), s1) \<and>
    read_all_dirents (zonefs_kernel B L mnt K) act hi (\<lparr>ctx_pos = pos, ctx_out = []\<rparr>, 2) s1 =
      Some (END_READ, (\<lparr>ctx_pos = pos, ctx_out = []\<rparr>, pos), s2)"
proof -
  obtain b where b: "k_kmalloc (zonefs_kernel B L mnt K) 4 = Some b" "length b = 4096"
    using memory_okD [OF assms(3)] by auto
  note fit = assms(5) [unfolded view_dirents_def] and vs = assms(4) [unfolded view_dirents_def]
  have o: "offer act out es = out @ take (n - length out) es" for out es
    unfolding offer_def assms(6) by (induction es arbitrary: out) (auto simp: take_Cons' Suc_diff_le)
  obtain s1 where s1: "read_all_dirents (zonefs_kernel B L mnt K) act hi (\<lparr>ctx_pos = 2, ctx_out = []\<rparr>, 2) s =
      Some (END_READ, (\<lparr>ctx_pos = max 2 (2 + length vs),
          ctx_out = offer act [] (map dirent_entry (drop (2 - 2) vs))\<rparr>, 2 + length vs), s1)"
    "same_store (zonefs_ok B L cap zstart dinv zdat) (zonefs_data zdat) s s1"
    using zonefs.read_all_dirents_ok [OF assms(1,2) b fit _ vs, of 2 "\<lparr>ctx_pos = 2, ctx_out = []\<rparr>" act] by auto
  note d = same_storeD(1) [OF s1(2) assms(1)] same_storeD(2) [OF s1(2)]
  obtain s2 where s2: "read_all_dirents (zonefs_kernel B L mnt K) act hi (\<lparr>ctx_pos = 2 + length vs, ctx_out = []\<rparr>, 2) s1 =
      Some (END_READ, (\<lparr>ctx_pos = max (2 + length vs) (2 + length vs),
          ctx_out = offer act [] (map dirent_entry (drop (2 + length vs - 2) vs))\<rparr>, 2 + length vs), s2)"
    using zonefs.read_all_dirents_ok [OF d(1) _ b, unfolded d(2), OF assms(2) fit _ vs, of 2 "\<lparr>ctx_pos = 2 + length vs, ctx_out = []\<rparr>" act] by auto
  show ?thesis
    by (intro exI [of _ s1] exI [of _ s2]) (use s1(1) s2 assms(7) in \<open>simp add: o take_map\<close>)
qed

text \<open>The root directory with the file \<open>a\<close> in it.\<close>

lemma demo_with_file:
  obtains s hi where "demo_ok s" "inode_ok (blocks (\<lambda>d. d) s) 16 hi"
    "dir_view (blocks (\<lambda>d. d) s) hi = Some (new_entries (stored_dirent zero_dirent demo_file)) # replicate 9 None"
    "room (\<lambda>d. d) s 100"
proof -
  obtain s0 root where s: "demo_ok s0" "inode_ok (blocks (\<lambda>d. d) s0) 16 root"
    "dir_view (blocks (\<lambda>d. d) s0) root = replicate 10 None" "room (\<lambda>d. d) s0 (BLOCKS_PER_ZONE - 1)"
    "has_free_number s0" using demo_init by metis
  have r: "room (\<lambda>d. d) s0 (2 + 100)" using s(4) by (auto simp: wp_room_def BLOCKS_PER_ZONE_eq)
  have d: "inode_ok (blocks (\<lambda>d. d) s0) (ucast (16 :: u64)) root" using s(2) by simp
  have n: "unat (hi_name_len demo_file) \<le> 16" by simp
  have st: "k_stack demo_kernel 1 = zero_dirent" by (simp add: demo_kernel_def)
  have v: "add_to_view (k_stack demo_kernel 1) demo_file (dir_view (blocks (\<lambda>d. d) s0) root) =
      Some (Some (new_entries (stored_dirent zero_dirent demo_file)) # replicate 9 None)"
    unfolding s(3) st by simp
  from add_dirent_outcome [OF s(1) d r s(5) n demo_memory v]
  show thesis using that by simp blast
qed

lemma demo_file_entries:
  "filter is_dirent_valid (new_entries (stored_dirent zero_dirent demo_file)) = [stored_dirent zero_dirent demo_file]"
  "names_fit (new_entries (stored_dirent zero_dirent demo_file))"
  "de_name (stored_dirent zero_dirent demo_file) = demo_name" "de_name zero_dirent = replicate 16 0"
proof -
  have l: "length zero_dirent = 40" by (simp add: zero_dirent_def SIZEOF_DIRENT_def)
  have sub: "unat (hi_name_len demo_file) \<le> 16" by simp
  note f = stored_dirent_fields [OF l sub demo_file_simps(1), unfolded demo_stored_name]
  show "de_name (stored_dirent zero_dirent demo_file) = demo_name" by (rule f(1))
  show z: "de_name zero_dirent = replicate 16 0"
    by (simp add: zero_dirent_def de_name_def get_bytes_def SIZEOF_DIRENT_def)
  have ty: "hi_type demo_file = 0"
    by (simp add: demo_file_def hi_defs layout_simps length_simps)
      (simp add: zero_block_def u8_at_def get_bytes_def HODO_DATABLOCK_SIZE_def min_def)
  have u: "u8_at 0 d = hd (de_name d)" if "length d = 40" for d
  proof -
    have "d \<noteq> []" using that by auto
    then obtain x xs where "d = x # xs" by (meson neq_Nil_conv)
    then show ?thesis by (simp add: u8_at_def de_name_def get_bytes_def)
  qed
  have v: "is_dirent_valid (stored_dirent zero_dirent demo_file)"
    using f ty l sub by (simp add: is_dirent_valid_def u length_stored_dirent demo_name_def HODO_TYPE_REG_def unat_eq_0 [symmetric])
  have nv: "\<not> is_dirent_valid zero_dirent" by (simp add: is_dirent_valid_def u [OF l] z)
  show "filter is_dirent_valid (new_entries (stored_dirent zero_dirent demo_file)) = [stored_dirent zero_dirent demo_file]"
    using v nv by (simp add: new_entries_def)
  show "names_fit (new_entries (stored_dirent zero_dirent demo_file))"
    using nv f(4) by (auto simp: names_fit_def new_entries_def HODO_MAX_NAME_LEN_def)
qed

theorem listing_is_complete_witness:
  "\<exists>s hi s'. demo_ok s \<and>
     read_all_dirents demo_K (\<lambda>o' e. length o' < 1) hi (\<lparr>ctx_pos = 2, ctx_out = []\<rparr>, 2) s =
       Some (END_READ, (\<lparr>ctx_pos = 3, ctx_out = [dirent_entry (stored_dirent zero_dirent demo_file)]\<rparr>, 3), s')"
proof -
  let ?e = "new_entries (stored_dirent zero_dirent demo_file)"
  obtain s hi where s: "demo_ok s" "inode_ok (blocks (\<lambda>d. d) s) 16 hi"
    "dir_view (blocks (\<lambda>d. d) s) hi = Some ?e # replicate 9 None" using demo_with_file by metis
  have v: "view_dirents (dir_view (blocks (\<lambda>d. d) s) hi) = ?e"
    unfolding s(3) by (simp add: view_dirents_def)
  note e = demo_file_entries(1,2) [folded v]
  have c: "2 \<le> ctx_pos \<lparr>ctx_pos = 2, ctx_out = []\<rparr>"
    and m: "[dirent_entry (stored_dirent zero_dirent demo_file)] =
      map dirent_entry (drop (ctx_pos \<lparr>ctx_pos = 2, ctx_out = []\<rparr> - 2) [stored_dirent zero_dirent demo_file])"
    and a: "\<forall>k < length [dirent_entry (stored_dirent zero_dirent demo_file)]. (\<lambda>o' e. length o' < 1)
      (ctx_out \<lparr>ctx_pos = 2, ctx_out = []\<rparr> @ take k [dirent_entry (stored_dirent zero_dirent demo_file)])
      ([dirent_entry (stored_dirent zero_dirent demo_file)] ! k)"
    by simp_all
  from listing_is_complete [OF s(1,2) demo_memory e(1) [symmetric] e(2) c m a] show ?thesis
    using s(1) by (simp, blast)
qed

theorem listing_loses_entries_witness:
  "\<exists>s hi s1 s2. demo_ok s \<and>
     filter is_dirent_valid (view_dirents (dir_view (blocks (\<lambda>d. d) s) hi)) = [stored_dirent zero_dirent demo_file] \<and>
     read_all_dirents demo_K (\<lambda>o' e. length o' < 0) hi (\<lparr>ctx_pos = 2, ctx_out = []\<rparr>, 2) s =
       Some (END_READ, (\<lparr>ctx_pos = 3, ctx_out = []\<rparr>, 3), s1) \<and>
     read_all_dirents demo_K (\<lambda>o' e. length o' < 0) hi (\<lparr>ctx_pos = 3, ctx_out = []\<rparr>, 2) s1 =
       Some (END_READ, (\<lparr>ctx_pos = 3, ctx_out = []\<rparr>, 3), s2)"
proof -
  let ?e = "new_entries (stored_dirent zero_dirent demo_file)"
  obtain s hi where s: "demo_ok s" "inode_ok (blocks (\<lambda>d. d) s) 16 hi"
    "dir_view (blocks (\<lambda>d. d) s) hi = Some ?e # replicate 9 None" using demo_with_file by metis
  have v: "view_dirents (dir_view (blocks (\<lambda>d. d) s) hi) = ?e"
    unfolding s(3) by (simp add: view_dirents_def)
  note e = demo_file_entries(1,2) [folded v]
  have p: "(3 :: nat) = 2 + length [stored_dirent zero_dirent demo_file]" by simp
  from listing_loses_entries [OF s(1,2) demo_memory e(1) [symmetric] e(2) refl p, of 0] s(1) e(1)
  show ?thesis by (simp, blast)
qed

section \<open>Properties of removal\<close>

text \<open>The bytes that a removal from block \<open>j\<close> of the directory brings into its last slot.\<close>

definition removal_tail :: "bytes \<Rightarrow> (u32 \<Rightarrow> bytes option) \<Rightarrow> bytes \<Rightarrow> nat \<Rightarrow> bytes" where
  "removal_tail tmp C hi j = last_slot tmp (the (C (hi_direct j hi)))"

text \<open>C17: removing a name implements the reference removal: it returns 1 and the directory on disk
  becomes the reference's result, with one file less counted; when no entry has the name it
  returns 0 and nothing changes.\<close>

theorem remove_dirent_refines_removal:
  assumes "hodo_ok B L cap zstart dinv zdat mnt s" "inode_ok (blocks zdat s) dl hi"
    and "room zdat s 3" "memory_ok K" "k_kmalloc K 1 = Some tmp"
  shows "case remove_from_view name (removal_tail tmp (blocks zdat s) hi) 0 (dir_view (blocks zdat s) hi) of
      None \<Rightarrow> \<exists>s'. remove_dirent (zonefs_kernel B L mnt K) hi name dl s = Some (0, hi, dl, s') \<and>
        hodo_ok B L cap zstart dinv zdat mnt s' \<and> blocks zdat s' = blocks zdat s
    | Some v \<Rightarrow> \<exists>s' hi'. remove_dirent (zonefs_kernel B L mnt K) hi name dl s = Some (1, hi', dl, s') \<and>
        hodo_ok B L cap zstart dinv zdat mnt s' \<and> inode_ok (blocks zdat s') dl hi' \<and>
        dir_view (blocks zdat s') hi' = v \<and> hi_file_len hi' = hi_file_len hi - 1"
proof -
  obtain b where b: "k_kmalloc (zonefs_kernel B L mnt K) 7 = Some b" "length b = 4096"
    using memory_okD [OF assms(4)] by auto
  have t: "k_kmalloc (zonefs_kernel B L mnt K) 1 = Some tmp" "length tmp = 4096"
    using memory_okD [OF assms(4), of 1] assms(5) by auto
  have n: "length (k_now (zonefs_kernel B L mnt K)) = 16" using assms(4) by (simp add: memory_ok_def)
  have rm: "room zdat s (3 + 0)" using assms(3) by simp
  note r = zonefs.remove_dirent_ok [OF assms(1,2) rm t n b, of name]
  have lst: "(\<lambda>j. last_slot tmp (the (blocks zdat s (hi_direct j hi)))) = removal_tail tmp (blocks zdat s) hi"
    by (simp add: removal_tail_def fun_eq_iff)
  show ?thesis
  proof (cases "remove_from_view name (removal_tail tmp (blocks zdat s) hi) 0 (dir_view (blocks zdat s) hi)")
    case None
    then show ?thesis using r same_storeD(1,2) assms(1) unfolding lst by (simp, blast)
  next
    case (Some v)
    then show ?thesis using r unfolding lst by (auto simp: inode_updated_def)
  qed
qed

lemma remove_dirent_outcome:
  assumes "hodo_ok B L cap zstart dinv zdat mnt s" "inode_ok (blocks zdat s) dl hi"
    and "room zdat s 3" "memory_ok K" "k_kmalloc K 1 = Some tmp"
    and "remove_from_view name (removal_tail tmp (blocks zdat s) hi) 0 (dir_view (blocks zdat s) hi) = Some v"
  obtains s' hi' where "remove_dirent (zonefs_kernel B L mnt K) hi name dl s = Some (1, hi', dl, s')"
    "hodo_ok B L cap zstart dinv zdat mnt s'" "inode_ok (blocks zdat s') dl hi'"
    "dir_view (blocks zdat s') hi' = v"
proof -
  obtain b where b: "k_kmalloc (zonefs_kernel B L mnt K) 7 = Some b" "length b = 4096"
    using memory_okD [OF assms(4)] by auto
  have t: "k_kmalloc (zonefs_kernel B L mnt K) 1 = Some tmp" "length tmp = 4096"
    using memory_okD [OF assms(4), of 1] assms(5) by auto
  have n: "length (k_now (zonefs_kernel B L mnt K)) = 16" using assms(4) by (simp add: memory_ok_def)
  have rm: "room zdat s (3 + 0)" using assms(3) by simp
  have lst: "(\<lambda>j. last_slot tmp (the (blocks zdat s (hi_direct j hi)))) = removal_tail tmp (blocks zdat s) hi"
    by (simp add: removal_tail_def fun_eq_iff)
  show thesis using zonefs.remove_dirent_ok [OF assms(1,2) rm t n b, of name] assms(6) that unfolding lst
    by (auto simp: inode_updated_def)
qed

lemma remove_finds_slot:
  assumes "\<exists>d \<in> set (view_dirents v). de_name d = name"
  obtains v' where "remove_from_view name lst i v = Some v'"
proof -
  have "remove_from_view name lst i v \<noteq> None" using assms
  proof (induction name lst i v rule: remove_from_view.induct)
    case (3 name lst i ds v)
    show ?case
    proof (cases "name_slot name ds")
      case None
      then have "\<forall>d \<in> set ds. de_name d \<noteq> name" by (simp only: name_slot_None)
      then show ?thesis using 3 None by (auto simp: view_dirents_def)
    qed simp
  qed (auto simp: view_dirents_def)
  then show thesis using that by auto
qed

text \<open>C36: a removed name is gone. When exactly one entry had the name and the bytes that move into
  the last slot do not spell it, a look-up finds nothing afterwards; a look-up of another name
  that those bytes do not spell gives what it gave before.\<close>

theorem removed_entry_is_gone:
  assumes "hodo_ok B L cap zstart dinv zdat mnt s" "inode_ok (blocks zdat s) dl hi"
    and "room zdat s 3" "memory_ok K" "k_kmalloc K 1 = Some tmp"
    and "v = dir_view (blocks zdat s) hi" "length (filter (\<lambda>d. de_name d = name) (view_dirents v)) = 1"
    and "lst_avoids (removal_tail tmp (blocks zdat s) hi) name 0 v"
    and "other \<noteq> name" "lst_avoids (removal_tail tmp (blocks zdat s) hi) other 0 v"
  shows "\<exists>s1 hi1. remove_dirent (zonefs_kernel B L mnt K) hi name dl s = Some (1, hi1, dl, s1) \<and>
    inode_ok (blocks zdat s1) dl hi1 \<and>
    (\<exists>s2. find_inode_number (zonefs_kernel B L mnt K) hi1 name s1 = Some (0, s2)) \<and>
    (\<exists>s2. find_inode_number (zonefs_kernel B L mnt K) hi1 other s1 = Some (find_in_view other (view_blocks v), s2))"
proof -
  have "filter (\<lambda>d. de_name d = name) (view_dirents v) \<noteq> []" using assms(7) by auto
  then have "\<exists>d \<in> set (view_dirents (dir_view (blocks zdat s) hi)). de_name d = name"
    unfolding assms(6) by (auto simp: filter_empty_conv)
  then obtain v' where v': "remove_from_view name (removal_tail tmp (blocks zdat s) hi) 0 (dir_view (blocks zdat s) hi) = Some v'"
    by (rule remove_finds_slot)
  obtain s1 hi1 where s1: "remove_dirent (zonefs_kernel B L mnt K) hi name dl s = Some (1, hi1, dl, s1)"
    "hodo_ok B L cap zstart dinv zdat mnt s1" "inode_ok (blocks zdat s1) dl hi1"
    "dir_view (blocks zdat s1) hi1 = v'"
    by (rule remove_dirent_outcome [OF assms(1-5) v'])
  have "find_in_view name (view_blocks v') = 0"
    using v' assms(8,7) unfolding assms(6) by (rule find_after_remove)
  moreover have "find_in_view other (view_blocks v') = find_in_view other (view_blocks v)"
    using v' assms(9,10) unfolding assms(6) by (rule find_other_after_remove)
  ultimately show ?thesis
    using s1 find_inode_number_view [OF s1(2,3) assms(4), of name] find_inode_number_view [OF s1(2,3) assms(4), of other]
    by auto
qed

text \<open>The emptiness test of \<open>rmdir\<close> is safe: a directory it calls empty has no valid entry.\<close>

theorem empty_test_is_safe:
  assumes "hodo_ok B L cap zstart dinv zdat mnt s" "inode_ok (blocks zdat s) (dir_number root ino s) hi"
    and "memory_ok K" "check_directory_empty (zonefs_kernel B L mnt K) root ino s = Some (True, s')"
  shows "filter is_dirent_valid (view_dirents (dir_view (blocks zdat s) hi)) = [] \<and> blocks zdat s' = blocks zdat s"
proof -
  obtain b where b: "k_kmalloc (zonefs_kernel B L mnt K) 9 = Some b" "length b = 4096"
    using memory_okD [OF assms(3)] by auto
  have st: "length (k_stack (zonefs_kernel B L mnt K) 2) = 4096" using assms(3) by (simp add: memory_ok_def)
  obtain s'' where "check_directory_empty (zonefs_kernel B L mnt K) root ino s =
      Some (blocks_zero (blocks zdat s) (inode_directs hi), s'')"
    "same_store (zonefs_ok B L cap zstart dinv zdat) (zonefs_data zdat) s s''"
    by (rule zonefs.check_directory_empty_ok [OF assms(1,2) st b])
  then have "blocks_zero (blocks zdat s) (inode_directs hi)"
    "same_store (zonefs_ok B L cap zstart dinv zdat) (zonefs_data zdat) s s'" using assms(4) by auto
  then show ?thesis using blocks_zero_no_dirents [OF _ assms(2)] same_storeD(2) by blast
qed

text \<open>The emptiness test looks at every byte, and the buffer a removal builds the new block in
  is not cleared: when it held a nonzero byte where the last slot takes its bytes from, a directory
  whose last file was removed is refused as not empty.\<close>

theorem heap_bytes_keep_directory_nonempty:
  assumes "hodo_ok B L cap zstart dinv zdat mnt s" "inode_ok (blocks zdat s) (ucast ino) hi"
    and "room zdat s 3" "memory_ok K" "k_kmalloc K 1 = Some tmp"
    and "dir_view (blocks zdat s) hi = Some (d # replicate 101 zero_dirent) # replicate 9 None"
    and "get_bytes 4056 32 tmp \<noteq> replicate 32 0"
  shows "\<exists>s1 hi1 s2. remove_dirent (zonefs_kernel B L mnt K) hi (de_name d) (ucast ino) s = Some (1, hi1, ucast ino, s1) \<and>
    inode_ok (blocks zdat s1) (ucast ino) hi1 \<and>
    check_directory_empty (zonefs_kernel B L mnt K) False ino s1 = Some (False, s2)"
proof -
  let ?x = "removal_tail tmp (blocks zdat s) hi 0"
  have sl: "name_slot (de_name d) (d # replicate 101 zero_dirent) = Some 0"
    unfolding name_slot_def by (simp add: upt_conv_Cons)
  have v': "remove_from_view (de_name d) (removal_tail tmp (blocks zdat s) hi) 0 (dir_view (blocks zdat s) hi) =
      Some (Some (drop_entry 0 ?x (d # replicate 101 zero_dirent)) # replicate 9 None)"
    unfolding assms(6) by (simp add: sl)
  obtain s1 hi1 where s1: "remove_dirent (zonefs_kernel B L mnt K) hi (de_name d) (ucast ino) s = Some (1, hi1, ucast ino, s1)"
    "hodo_ok B L cap zstart dinv zdat mnt s1" "inode_ok (blocks zdat s1) (ucast ino) hi1"
    "dir_view (blocks zdat s1) hi1 = Some (drop_entry 0 ?x (d # replicate 101 zero_dirent)) # replicate 9 None"
    by (rule remove_dirent_outcome [OF assms(1-5) v'])
  have t: "length tmp = 4096" using memory_okD [OF assms(4), of 1] assms(5) by auto
  have "drop (length ?x - 32) ?x = get_bytes 4056 32 tmp"
    using t by (simp add: removal_tail_def last_slot_def length_get_bytes)
  moreover have "drop (length zero_dirent - 32) zero_dirent = replicate 32 0"
    by (simp add: zero_dirent_def SIZEOF_DIRENT_def)
  ultimately have "?x \<noteq> zero_dirent" using assms(7) by metis
  moreover have "?x \<in> set (view_dirents (dir_view (blocks zdat s1) hi1))"
    unfolding s1(4) by (simp add: view_dirents_def drop_entry_def)
  ultimately have nz: "\<not> blocks_zero (blocks zdat s1) (inode_directs hi1)"
    using blocks_zero_dirents [OF _ s1(3)] by blast
  obtain b where b: "k_kmalloc (zonefs_kernel B L mnt K) 9 = Some b" "length b = 4096"
    using memory_okD [OF assms(4)] by auto
  have st: "length (k_stack (zonefs_kernel B L mnt K) 2) = 4096" using assms(4) by (simp add: memory_ok_def)
  have dn: "inode_ok (blocks zdat s1) (dir_number False ino s1) hi1" using s1(3) by (simp add: dir_number_def)
  obtain s2 where "check_directory_empty (zonefs_kernel B L mnt K) False ino s1 = Some (False, s2)"
    using zonefs.check_directory_empty_ok [OF s1(2) dn st b] nz by metis
  then show ?thesis using s1 by blast
qed

section \<open>Examples of removal\<close>

text \<open>A kernel whose first buffer holds old bytes.\<close>

definition old_buffer :: bytes where "old_buffer = replicate 4096 0xFF"

definition reuse_kernel :: "ram zonefs_state kernel" where
  "reuse_kernel = demo_kernel\<lparr>k_kmalloc := (\<lambda>n. if n = 1 then Some old_buffer else Some zero_block)\<rparr>"

abbreviation reuse_K :: "ram zonefs_state kernel" where
  "reuse_K \<equiv> zonefs_kernel ram_blk ram_lib ''/mnt'' reuse_kernel"

lemma reuse_memory: "memory_ok reuse_kernel" "k_kmalloc reuse_kernel 1 = Some old_buffer"
  by (simp_all add: memory_ok_def reuse_kernel_def demo_kernel_def old_buffer_def zero_dirent_def SIZEOF_DIRENT_def)

lemma old_buffer_avoids:
  assumes "inode_ok C dl hi" "drop 8 name \<noteq> replicate 8 0xFF"
  shows "lst_avoids (removal_tail old_buffer C hi) name 0 (dir_view C hi)"
  unfolding lst_avoids_def
proof (intro allI impI)
  fix j assume j: "j < length (dir_view C hi)" "dir_view C hi ! j \<noteq> None"
  then have "hi_direct j hi \<noteq> 0" by (auto simp: dir_view_def is_block_logical_number_valid_def split: if_splits)
  then obtain b where b: "C (hi_direct j hi) = Some b" "length b = 4096"
    using inode_okD(8) [OF assms(1), of j] j(1) by auto
  have "drop 8 (de_name (removal_tail old_buffer C hi j)) = replicate 8 0xFF"
    using b by (simp add: removal_tail_def last_slot_def de_name_def get_bytes_def old_buffer_def min_def)
  then show "de_name (removal_tail old_buffer C hi (0 + j)) \<noteq> name" using assms(2) by auto
qed

lemma demo_view_removed:
  "remove_from_view demo_name lst 0 (Some (new_entries (stored_dirent zero_dirent demo_file)) # replicate 9 None) =
     Some (Some (drop_entry 0 (lst 0) (new_entries (stored_dirent zero_dirent demo_file))) # replicate 9 None)"
proof -
  have "name_slot demo_name (new_entries (stored_dirent zero_dirent demo_file)) = Some 0"
    unfolding name_slot_def new_entries_def by (simp add: DIRENT_SLOTS_def upt_conv_Cons demo_file_entries(3))
  then show ?thesis by simp
qed

theorem remove_dirent_refines_removal_witness:
  "\<exists>s hi s' hi'. demo_ok s \<and> remove_dirent demo_K hi demo_name 16 s = Some (1, hi', 16, s') \<and>
     inode_ok (blocks (\<lambda>d. d) s') 16 hi'"
proof -
  obtain s hi where s: "demo_ok s" "inode_ok (blocks (\<lambda>d. d) s) 16 hi"
    "dir_view (blocks (\<lambda>d. d) s) hi = Some (new_entries (stored_dirent zero_dirent demo_file)) # replicate 9 None"
    "room (\<lambda>d. d) s 100" using demo_with_file .
  have r: "room (\<lambda>d. d) s 3" using s(4) by (auto simp: wp_room_def)
  have k: "k_kmalloc demo_kernel 1 = Some zero_block" by (simp add: demo_kernel_def)
  from remove_dirent_refines_removal [OF s(1,2) r demo_memory k, of demo_name]
  show ?thesis unfolding s(3) demo_view_removed using s(1) by auto
qed

theorem removed_entry_is_gone_witness:
  "\<exists>s hi s1 hi1 s2. demo_ok s \<and> remove_dirent reuse_K hi demo_name 16 s = Some (1, hi1, 16, s1) \<and>
     find_inode_number reuse_K hi1 demo_name s1 = Some (0, s2)"
proof -
  obtain s hi where s: "demo_ok s" "inode_ok (blocks (\<lambda>d. d) s) 16 hi"
    "dir_view (blocks (\<lambda>d. d) s) hi = Some (new_entries (stored_dirent zero_dirent demo_file)) # replicate 9 None"
    "room (\<lambda>d. d) s 100" using demo_with_file .
  have r: "room (\<lambda>d. d) s 3" using s(4) by (auto simp: wp_room_def)
  have zn: "hd (replicate 16 0) \<noteq> hd demo_name" by (simp add: demo_name_def)
  then have ne: "de_name zero_dirent \<noteq> demo_name" using demo_file_entries(4) by metis
  have one: "length (filter (\<lambda>d. de_name d = demo_name) (view_dirents (dir_view (blocks (\<lambda>d. d) s) hi))) = 1"
    unfolding s(3) using ne by (simp add: view_dirents_def new_entries_def demo_file_entries(3))
  have a: "lst_avoids (removal_tail old_buffer (blocks (\<lambda>d. d) s) hi) demo_name 0 (dir_view (blocks (\<lambda>d. d) s) hi)"
    "lst_avoids (removal_tail old_buffer (blocks (\<lambda>d. d) s) hi) (replicate 16 0x62) 0 (dir_view (blocks (\<lambda>d. d) s) hi)"
    by (rule old_buffer_avoids [OF s(2)]; simp add: demo_name_def)+
  have o: "replicate 16 0x62 \<noteq> demo_name" by (simp add: demo_name_def replicate_eq_replicate numeral_eq_Suc)
  from removed_entry_is_gone [OF s(1,2) r reuse_memory refl one a(1) o a(2)]
  show ?thesis using s(1) by blast
qed

theorem empty_test_is_safe_witness:
  "\<exists>s root s'. demo_ok s \<and> check_directory_empty demo_K True 16 s = Some (True, s') \<and>
     filter is_dirent_valid (view_dirents (dir_view (blocks (\<lambda>d. d) s) root)) = []"
proof -
  obtain s root where s: "demo_ok s" "inode_ok (blocks (\<lambda>d. d) s) 16 root"
    "dir_view (blocks (\<lambda>d. d) s) root = replicate 10 None" "starting_logical_number (mapping_info s) = 16"
    using demo_init by metis
  have dn: "inode_ok (blocks (\<lambda>d. d) s) (dir_number True 16 s) root" using s(2,4) by (simp add: dir_number_def)
  have "hi_direct j root = 0" if "j < 10" for j
  proof (rule ccontr)
    assume nz: "hi_direct j root \<noteq> 0"
    have "dir_view (blocks (\<lambda>d. d) s) root ! j = None" unfolding s(3) using that by simp
    then show False using inode_okD(8) [OF s(2) that nz] nz that
      by (auto simp: dir_view_def is_block_logical_number_valid_def)
  qed
  then have "inode_directs root = replicate 10 0" by (intro inode_directs_eqI) simp_all
  then have z: "blocks_zero (blocks (\<lambda>d. d) s) (inode_directs root)" by (simp add: blocks_zero_def)
  have k: "k_kmalloc demo_K 9 = Some zero_block" "length (k_stack demo_K 2) = 4096" by (simp_all add: demo_kernel_def)
  obtain s' where c: "check_directory_empty demo_K True 16 s = Some (True, s')"
    using zonefs.check_directory_empty_ok [OF s(1) dn k(2,1) zero_block_ptrs(1)] z by metis
  from empty_test_is_safe [OF s(1) dn demo_memory c] show ?thesis using c s(1) by blast
qed

theorem heap_bytes_keep_directory_nonempty_witness:
  "\<exists>s hi s1 hi1 s2. demo_ok s \<and> remove_dirent reuse_K hi demo_name 16 s = Some (1, hi1, 16, s1) \<and>
     check_directory_empty reuse_K False 16 s1 = Some (False, s2)"
proof -
  obtain s hi where s: "demo_ok s" "inode_ok (blocks (\<lambda>d. d) s) 16 hi"
    "dir_view (blocks (\<lambda>d. d) s) hi = Some (new_entries (stored_dirent zero_dirent demo_file)) # replicate 9 None"
    "room (\<lambda>d. d) s 100" using demo_with_file .
  have r: "room (\<lambda>d. d) s 3" using s(4) by (auto simp: wp_room_def)
  have d: "inode_ok (blocks (\<lambda>d. d) s) (ucast (16 :: u64)) hi" using s(2) by simp
  have v: "dir_view (blocks (\<lambda>d. d) s) hi = Some (stored_dirent zero_dirent demo_file # replicate 101 zero_dirent) # replicate 9 None"
    unfolding s(3) by (simp add: new_entries_def DIRENT_SLOTS_def)
  have "get_bytes 4056 32 old_buffer = replicate 32 0xFF"
    by (simp add: get_bytes_def old_buffer_def)
  then have b: "get_bytes 4056 32 old_buffer \<noteq> replicate 32 0" by simp
  from heap_bytes_keep_directory_nonempty [OF s(1) d r reuse_memory v b] s(1)
  show ?thesis unfolding demo_file_entries(3) by auto
qed

end
