(* ===== verification/Hodo_File.thy ===== *)
theory Hodo_File
  imports Hodo_Inode
begin

text \<open>
  Regular files: reading (\<open>hodo_file_read_iter\<close> of \<open>hodo.c\<close>, \<open>hodo_read_nth_block\<close> of
  \<open>trans.c\<close>) and writing (\<open>hodo_sub_file_write_iter\<close>, \<open>write_one_block\<close> and its two helpers).

  A file offset is a \<open>loff_t\<close>; divisions by \<open>HODO_DATA_SIZE\<close>, an unsigned constant, see it as
  \<open>u64\<close>. The user's buffer is an \<open>iov_iter\<close>: the bytes still wanted, and those that can
  be copied before the user's memory faults. \<open>copy_to_iter\<close> is taken to succeed.
\<close>

section \<open>The caller's objects\<close>

text \<open>The VFS inode, as far as these operations use it, and the operation tables it can have.\<close>

datatype inode_ops = Hodo_File_Inode_Ops | Hodo_Dir_Inode_Ops | Other_Inode_Ops
datatype file_ops = Hodo_File_Ops | Hodo_Dir_Ops | Other_File_Ops

record vinode =
  vi_ino :: u64
  vi_size :: int
  vi_mode :: u16
  vi_uid :: u32
  vi_gid :: u32
  vi_nlink :: int
  vi_op :: inode_ops
  vi_fop :: file_ops
  vi_atime :: bytes
  vi_mtime :: bytes
  vi_ctime :: bytes

record iov_iter =
  iov_count :: nat
  iov_data :: bytes

definition copy_from_iter :: "nat \<Rightarrow> iov_iter \<Rightarrow> bytes \<times> iov_iter" where
  "copy_from_iter n it =
     (let got = take (min n (iov_count it)) (iov_data it) in
      (got, \<lparr>iov_count = iov_count it - length got, iov_data = drop (length got) (iov_data it)\<rparr>))"

definition file_offset :: "int \<Rightarrow> nat" where
  "file_offset pos = unat (of_int pos :: u64)"

section \<open>Reading\<close>

definition read_ptr ::
  "'z kernel \<Rightarrow> u32 \<Rightarrow> nat \<Rightarrow> bytes \<Rightarrow> 'z hodo_state \<Rightarrow> (u32 \<times> bytes \<times> 'z hodo_state) option"
where
  "read_ptr K l i buf s =
     do {
       (ret, buf', s') \<leftarrow> hodo_read_struct K l buf HODO_DATABLOCK_SIZE s;
       if i < PTR_SLOTS then Some (db_ptr i buf', buf', s') else None
     }"

text \<open>\<open>n\<close> is the C \<open>int\<close>; the result is the destination buffer.\<close>

definition hodo_read_nth_block ::
  "'z kernel \<Rightarrow> bytes \<Rightarrow> int \<Rightarrow> bytes \<Rightarrow> 'z hodo_state \<Rightarrow> (bytes \<times> 'z hodo_state) option"
where
  "hodo_read_nth_block K hi n dst s =
     (if n < 0 then None
      else if n < 10 then do {
        (ret, dst', s') \<leftarrow> hodo_read_struct K (hi_direct (nat n) hi) dst HODO_DATABLOCK_SIZE s;
        Some (dst', s')
      }
      else if n < 10 + 1022 then do {
        tmp \<leftarrow> k_kmalloc K 12;
        (l, tmp1, s1) \<leftarrow> read_ptr K (hi_single hi) (nat (n - 10)) tmp s;
        (ret, dst', s') \<leftarrow> hodo_read_struct K l dst HODO_DATABLOCK_SIZE s1;
        Some (dst', s')
      }
      else if n < 10 + 1022 + 1022 * 1022 then do {
        let r = nat (n - (10 + 1022));
        tmp \<leftarrow> k_kmalloc K 12;
        (l1, tmp1, s1) \<leftarrow> read_ptr K (hi_double hi) (r div 1022) tmp s;
        (l2, tmp2, s2) \<leftarrow> read_ptr K l1 (r mod 1022) tmp1 s1;
        (ret, dst', s') \<leftarrow> hodo_read_struct K l2 dst HODO_DATABLOCK_SIZE s2;
        Some (dst', s')
      }
      else do {
        let r = nat (n - (10 + 1022 + 1022 * 1022));
        tmp \<leftarrow> k_kmalloc K 12;
        (l1, tmp1, s1) \<leftarrow> read_ptr K (hi_triple hi) (r div (1022 * 1022)) tmp s;
        (l2, tmp2, s2) \<leftarrow> read_ptr K l1 (r mod (1022 * 1022) div 1022) tmp1 s1;
        (l3, tmp3, s3) \<leftarrow> read_ptr K l2 (r mod (1022 * 1022) mod 1022) tmp2 s2;
        (ret, dst', s') \<leftarrow> hodo_read_struct K l3 dst HODO_DATABLOCK_SIZE s3;
        Some (dst', s')
      })"

fun read_blocks ::
  "'z kernel \<Rightarrow> bytes \<Rightarrow> int list \<Rightarrow> bytes \<Rightarrow> 'z hodo_state \<Rightarrow> (bytes \<times> bytes \<times> 'z hodo_state) option"
where
  "read_blocks K hi [] buf s = Some ([], buf, s)"
| "read_blocks K hi (n # ns) buf s =
     do {
       (buf', s1) \<leftarrow> hodo_read_nth_block K hi n buf s;
       (bs, buf'', s2) \<leftarrow> read_blocks K hi ns buf' s1;
       Some (db_data buf' @ bs, buf'', s2)
     }"

text \<open>The length to read: \<open>int read_len\<close>, compared as \<open>size_t\<close> with the count.\<close>

definition read_len :: "u64 \<Rightarrow> int \<Rightarrow> nat \<Rightarrow> int" where
  "read_len flen pos count =
     (let left = (ucast (flen - of_int pos) :: u32) in
      sint (if (of_nat count :: u64) < scast left then (of_nat count :: u32) else left))"

definition block_of :: "nat \<Rightarrow> int" where
  "block_of off = sint (of_nat (off div HODO_DATA_SIZE) :: u32)"

text \<open>
  The part of \<open>hodo_file_read_iter\<close> for hodo's own files, after the inode has been read. The
  first block is copied from the offset on, whole blocks follow, and the block in which the range
  ends is read even when no byte of it is wanted.
\<close>

definition read_range ::
  "'z kernel \<Rightarrow> bytes \<Rightarrow> kiocb \<Rightarrow> nat \<Rightarrow> 'z hodo_state \<Rightarrow> (int \<times> bytes \<times> kiocb \<times> 'z hodo_state) option"
where
  "read_range K hi iocb count s =
     (let pos = ki_pos iocb; rl = read_len (hi_file_len hi) pos count;
          off = file_offset pos mod HODO_DATA_SIZE; last = file_offset (pos + rl);
          start = block_of (file_offset pos); end_block = block_of last;
          tail = last mod HODO_DATA_SIZE in
      if hi_file_len hi \<le> of_int pos then Some (0, [], iocb, s)
      else do {
        buf \<leftarrow> k_kmalloc K 16;
        (b1, s1) \<leftarrow> hodo_read_nth_block K hi start buf s;
        if start = end_block
        then Some (rl, take (nat rl) (drop off (db_data b1)), iocb\<lparr>ki_pos := pos + rl\<rparr>, s1)
        else do {
          let mids = [start + 1..end_block - 1];
          (mid, b2, s2) \<leftarrow> read_blocks K hi mids b1 s1;
          let pos2 = pos + int (HODO_DATA_SIZE - off) + int (HODO_DATA_SIZE * length mids);
          if start < end_block
          then do {
            (b3, s3) \<leftarrow> hodo_read_nth_block K hi end_block b2 s2;
            Some (rl, drop off (db_data b1) @ mid @ take tail (db_data b3), iocb\<lparr>ki_pos := pos2 + int tail\<rparr>, s3)
          }
          else Some (rl, drop off (db_data b1) @ mid, iocb\<lparr>ki_pos := pos2\<rparr>, s2)
        }
      })"

text \<open>
  Numbers below the first logical number belong to the zone files of zonefs, whose operation is
  the argument \<open>zonefs_read\<close>.
\<close>

definition hodo_file_read_iter ::
  "'z kernel \<Rightarrow> (kiocb \<Rightarrow> nat \<Rightarrow> 'z \<Rightarrow> (int \<times> bytes \<times> kiocb) \<times> 'z) \<Rightarrow> u64 \<Rightarrow> kiocb \<Rightarrow> nat \<Rightarrow> 'z hodo_state \<Rightarrow>
     (int \<times> bytes \<times> kiocb \<times> 'z hodo_state) option"
where
  "hodo_file_read_iter K zonefs_read ino iocb count s =
     (if (ucast ino :: u32) < starting_logical_number (mapping_info s)
      then (case zonefs_read iocb count (zonefs s) of
              ((ret, got, iocb'), zs) \<Rightarrow> Some (ret, got, iocb', s\<lparr>zonefs := zs\<rparr>))
      else do {
        (ret, hi, s1) \<leftarrow> hodo_read_struct K (ucast ino) zero_block HODO_DATABLOCK_SIZE s;
        read_range K hi iocb count s1
      })"

section \<open>Writing\<close>

text \<open>
  One data block: the bytes before the offset come from the current block, then the new bytes;
  the rest of the new block is whatever the new buffer held. The two branches of the code, with
  and without earlier bytes, compute the same expressions.
\<close>

definition write_one_block_by_direct_block ::
  "'z kernel \<Rightarrow> int \<Rightarrow> iov_iter \<Rightarrow> u32 \<Rightarrow> bytes \<Rightarrow> 'z hodo_state \<Rightarrow>
     (int \<times> u32 \<times> iov_iter \<times> 'z hodo_state) option"
where
  "write_one_block_by_direct_block K pos it l cur s =
     (case k_kmalloc K 14 of
        None \<Rightarrow> Some (- ENOMEM, l, it, s)
      | Some new \<Rightarrow>
          let left_len = file_offset pos mod HODO_DATA_SIZE;
              b = put_bytes HODO_DATA_START (take left_len (db_data cur)) (db_set_magic 0x30 new);
              n = (if HODO_DATA_SIZE \<le> iov_count it + left_len then HODO_DATA_SIZE - left_len else iov_count it);
              (got, it') = copy_from_iter n it in
          if length got \<noteq> n then Some (- EFAULT, l, it', s)
          else do {
            (ret, _, l', s') \<leftarrow>
              hodo_write_struct K (put_bytes (HODO_DATA_START + left_len) got b) HODO_DATABLOCK_SIZE l s;
            Some (int n, l', it', s')
          })"

text \<open>The slot of an indirect block that leads to data block \<open>i\<close>, by the block's level.\<close>

definition has_level :: "u8 \<Rightarrow> bytes \<Rightarrow> bool" where
  "has_level c b \<longleftrightarrow> db_is_dat b \<and> db_level b = c"

definition indirect_slot :: "nat \<Rightarrow> bytes \<Rightarrow> int + nat" where
  "indirect_slot i cur =
     (let N = HODO_DATA_SIZE div BLOCK_PTR_SZ in
      if i < 10 then Inl (- EIO)
      else if i < 10 + N then Inr (i - 10)
      else if i < 10 + N + N * N then
        (let r = i - 10 - N in
         if has_level 0x32 cur then Inr (r div N)
         else if has_level 0x31 cur then Inr (r mod N) else Inl (- EIO))
      else if i < 10 + N + N * N + N * N * N then
        (let r = i - 10 - N - N * N in
         if has_level 0x33 cur then Inr (r div N div N)
         else if has_level 0x32 cur then Inr (r div N mod N)
         else if has_level 0x31 cur then Inr (r mod N) else Inl (- EIO))
      else Inl (- EFBIG))"

text \<open>The block behind a pointer, or a new block of the given level in the uncleared buffer.\<close>

definition load_or_new ::
  "'z kernel \<Rightarrow> u32 \<Rightarrow> u8 \<Rightarrow> bytes \<Rightarrow> 'z hodo_state \<Rightarrow> (bytes \<times> 'z hodo_state) option"
where
  "load_or_new K l level buf s =
     (if is_block_logical_number_valid l
      then do { (ret, b, s') \<leftarrow> hodo_read_struct K l buf HODO_DATABLOCK_SIZE s; Some (b, s') }
      else Some (db_set_magic level buf, s))"

partial_function (option) write_one_block_by_indirect_block ::
  "'z kernel \<Rightarrow> int \<Rightarrow> iov_iter \<Rightarrow> u32 \<Rightarrow> bytes \<Rightarrow> 'z hodo_state \<Rightarrow>
     (int \<times> u32 \<times> iov_iter \<times> 'z hodo_state) option"
where
  "write_one_block_by_indirect_block K pos it l cur s =
     (case indirect_slot (file_offset pos div HODO_DATA_SIZE) cur of
        Inl e \<Rightarrow> Some (e, l, it, s)
      | Inr i \<Rightarrow>
         (case k_kmalloc K 15 of
            None \<Rightarrow> Some (- ENOMEM, l, it, s)
          | Some buf \<Rightarrow> do {
              (b, s1) \<leftarrow> load_or_new K (db_ptr i cur) (db_level cur - 1) buf s;
              (w, l1, it', s2) \<leftarrow>
                (if is_directblock b then write_one_block_by_direct_block K pos it (db_ptr i cur) b s1
                 else write_one_block_by_indirect_block K pos it (db_ptr i cur) b s1);
              if 0 < w \<and> is_block_logical_number_valid l1
              then do {
                (ret, _, l', s3) \<leftarrow> hodo_write_struct K (db_set_ptr i l1 cur) HODO_DATABLOCK_SIZE l s2;
                Some (w, l', it', s3)
              }
              else Some (w, l, it', s2)
            }))"

text \<open>
  One block of a write: the result, the advanced \<open>kiocb\<close>, the rest of the user's buffer, the VFS
  inode and the state. A negative result of the helpers still goes into the file length, the
  offset and the size.
\<close>

type_synonym 'z write_result = "int \<times> kiocb \<times> iov_iter \<times> vinode \<times> 'z hodo_state"

definition finish_write ::
  "'z kernel \<Rightarrow> vinode \<Rightarrow> kiocb \<Rightarrow> int \<Rightarrow> bytes \<Rightarrow> iov_iter \<Rightarrow> 'z hodo_state \<Rightarrow> 'z write_result option"
where
  "finish_write K vi iocb w hi it s =
     do {
       (ret, _, _, s') \<leftarrow>
         hodo_write_struct K (hi_set_file_len (of_int (ki_pos iocb + w)) hi) HODO_DATABLOCK_SIZE (ucast (vi_ino vi)) s;
       Some (w, iocb\<lparr>ki_pos := ki_pos iocb + w\<rparr>, it, vi\<lparr>vi_size := ki_pos iocb + w\<rparr>, s')
     }"

definition write_one_block ::
  "'z kernel \<Rightarrow> vinode \<Rightarrow> kiocb \<Rightarrow> iov_iter \<Rightarrow> 'z hodo_state \<Rightarrow> 'z write_result option"
where
  "write_one_block K vi iocb0 it s =
     do {
       (ret, hi, s0) \<leftarrow> hodo_read_struct K (ucast (vi_ino vi)) (k_stack K 4) HODO_DATABLOCK_SIZE s;
       let iocb = (if ki_append iocb0 then iocb0\<lparr>ki_pos := vi_size vi\<rparr> else iocb0);
       let pos = ki_pos iocb;
       let i = file_offset pos div HODO_DATA_SIZE;
       let N = HODO_DATA_SIZE div BLOCK_PTR_SZ;
       let indirect = (\<lambda>l level buf. do {
             (b, s1) \<leftarrow> load_or_new K l level buf s0;
             write_one_block_by_indirect_block K pos it l b s1
           });
       (case k_kmalloc K 13 of
          None \<Rightarrow> Some (- ENOMEM, iocb, it, vi, s0)
        | Some buf \<Rightarrow>
            if i < 10 then do {
              (b, s1) \<leftarrow> load_or_new K (hi_direct i hi) 0x30 buf s0;
              (w, l, it', s2) \<leftarrow> write_one_block_by_direct_block K pos it (hi_direct i hi) b s1;
              finish_write K vi iocb w (hi_set_direct i l hi) it' s2
            }
            else if i < 10 + N then do {
              (w, l, it', s2) \<leftarrow> indirect (hi_single hi) 0x31 buf;
              finish_write K vi iocb w (hi_set_single l hi) it' s2
            }
            else if i < 10 + N + N * N then do {
              (w, l, it', s2) \<leftarrow> indirect (hi_double hi) 0x32 buf;
              finish_write K vi iocb w (hi_set_double l hi) it' s2
            }
            else if i < 10 + N + N * N + N * N * N then do {
              (w, l, it', s2) \<leftarrow> indirect (hi_triple hi) 0x33 buf;
              finish_write K vi iocb w (hi_set_triple l hi) it' s2
            }
            else Some (- EFBIG, iocb, it, vi, s0))
     }"

text \<open>The loop of \<open>hodo_sub_file_write_iter\<close>; it goes on as long as a block makes no progress.\<close>

partial_function (option) write_loop ::
  "'z kernel \<Rightarrow> nat \<Rightarrow> int \<Rightarrow> vinode \<Rightarrow> kiocb \<Rightarrow> iov_iter \<Rightarrow> 'z hodo_state \<Rightarrow> 'z write_result option"
where
  "write_loop K len written vi iocb it s =
     (if written < int len
      then do {
        (w, iocb', it', vi', s') \<leftarrow> write_one_block K vi iocb it s;
        if w < 0 then Some (w, iocb', it', vi', s')
        else write_loop K len (written + w) vi' iocb' it' s'
      }
      else Some (written, iocb, it, vi, s))"

definition hodo_sub_file_write_iter ::
  "'z kernel \<Rightarrow> vinode \<Rightarrow> kiocb \<Rightarrow> iov_iter \<Rightarrow> 'z hodo_state \<Rightarrow> 'z write_result option"
where
  "hodo_sub_file_write_iter K vi iocb it s = write_loop K (iov_count it) 0 vi iocb it s"

definition hodo_file_write_iter ::
  "'z kernel \<Rightarrow> (kiocb \<Rightarrow> iov_iter \<Rightarrow> 'z \<Rightarrow> (int \<times> kiocb \<times> iov_iter) \<times> 'z) \<Rightarrow> vinode \<Rightarrow> kiocb \<Rightarrow> iov_iter \<Rightarrow>
     'z hodo_state \<Rightarrow> 'z write_result option"
where
  "hodo_file_write_iter K zonefs_write vi iocb it s =
     (if vi_ino vi < ucast (starting_logical_number (mapping_info s))
      then (case zonefs_write iocb it (zonefs s) of
              ((ret, iocb', it'), zs) \<Rightarrow> Some (ret, iocb', it', vi, s\<lparr>zonefs := zs\<rparr>))
      else hodo_sub_file_write_iter K vi iocb it s)"


section \<open>The contents of a file\<close>

text \<open>
  A file whose blocks are all direct: its contents are the first \<open>file_len\<close> bytes of its data
  areas, and every area up to the length has a block.
\<close>

definition area :: "bytes option \<Rightarrow> bytes" where
  "area d = (case d of None \<Rightarrow> replicate HODO_DATA_SIZE 0 | Some b \<Rightarrow> b)"

definition file_data :: "(u32 \<Rightarrow> bytes option) \<Rightarrow> bytes \<Rightarrow> bytes" where
  "file_data C hi = take (unat (hi_file_len hi)) (concat (map area (data_view C hi)))"

definition file_ok :: "(u32 \<Rightarrow> bytes option) \<Rightarrow> u32 \<Rightarrow> bytes \<Rightarrow> bool" where
  "file_ok C dl hi \<longleftrightarrow>
     inode_ok C dl hi \<and> unat (hi_file_len hi) \<le> 10 * HODO_DATA_SIZE \<and>
     (\<forall>j<10. j * HODO_DATA_SIZE < unat (hi_file_len hi) \<longrightarrow> hi_direct j hi \<noteq> 0)"

lemma concat_uniform:
  assumes "\<forall>x \<in> set A. length x = n"
  shows "length (concat A) = length A * n"
    and "i < length A \<Longrightarrow> m \<le> n \<Longrightarrow> take (i * n + m) (concat A) = take (i * n) (concat A) @ take m (A ! i)"
proof -
  show l: "length (concat A) = length A * n" using assms by (induction A) auto
  assume i: "i < length A" "m \<le> n"
  have A: "concat A = concat (take i A) @ A ! i @ concat (drop (Suc i) A)"
    using i(1) by (metis concat.simps(2) concat_append id_take_nth_drop)
  have "length (concat (take i A)) = i * n"
  proof -
    have "length (concat B) = length B * n" if "\<forall>x \<in> set B. length x = n" for B :: "'a list list"
      using that by (induction B) auto
    moreover have "\<forall>x \<in> set (take i A). length x = n" using assms by (auto dest: in_set_takeD)
    ultimately show ?thesis using i(1) by simp
  qed
  moreover have "length (A ! i) = n" using assms i(1) by simp
  ultimately show "take (i * n + m) (concat A) = take (i * n) (concat A) @ take m (A ! i)"
    unfolding A using i(2) by simp
qed

text \<open>Replacing one area does not touch the bytes before it.\<close>

lemma take_concat_update:
  assumes "\<forall>x \<in> set A. length x = n" "length x = n" "i < length A"
  shows "take (i * n) (concat (A[i := x])) = take (i * n) (concat A)"
proof -
  have l: "length (concat (take i A)) = i * n"
    using concat_uniform(1) [of "take i A" n] assms(1,3) by (auto dest: in_set_takeD)
  have "concat A = concat (take i A) @ concat (drop i A)"
    "concat (A[i := x]) = concat (take i A) @ concat (x # drop (Suc i) A)"
    using assms(3) by (simp add: flip: concat_append, simp add: upd_conv_take_nth_drop)
  then show ?thesis using l by simp
qed


lemma data_view_length:
  assumes "inode_ok C dl hi"
  shows "\<forall>x \<in> set (map area (data_view C hi)). length x = HODO_DATA_SIZE"
proof -
  have "length (area (data_view C hi ! j)) = HODO_DATA_SIZE" if j: "j < 10" for j
  proof (cases "hi_direct j hi = 0")
    case False
    then obtain b where "C (hi_direct j hi) = Some b" "length b = 4096" using inode_okD(8) [OF assms j] by blast
    then show ?thesis using j False
      by (simp add: data_view_def area_def is_block_logical_number_valid_def db_data_def length_simps const_simps)
  qed (use j in \<open>simp add: data_view_def area_def is_block_logical_number_valid_def\<close>)
  then show ?thesis by (auto simp: in_set_conv_nth)
qed

lemma length_file_data: "file_ok C dl hi \<Longrightarrow> length (file_data C hi) = unat (hi_file_len hi)"
  using concat_uniform(1) [OF data_view_length, of C dl hi] by (simp add: file_data_def file_ok_def)

text \<open>
  The step of every write: block \<open>i\<close> becomes the bytes of the file up to the offset, then the
  new bytes, and the length is the end of those.
\<close>

lemma file_data_write:
  assumes ok: "file_ok C dl hi" and p: "p = i * HODO_DATA_SIZE + left" "left < HODO_DATA_SIZE" "i < 10"
      "p \<le> unat (hi_file_len hi)"
    and w: "left + length new \<le> HODO_DATA_SIZE"
    and d: "length d = HODO_DATA_SIZE" "take (left + length new) d = take left (area (data_view C hi ! i)) @ new"
    and ok': "inode_ok C' dl hi'" "data_view C' hi' = (data_view C hi)[i := Some d]"
      "hi_file_len hi' = of_nat (p + length new)" "\<And>j. j < 10 \<Longrightarrow> j \<noteq> i \<Longrightarrow> hi_direct j hi' = hi_direct j hi"
      "hi_direct i hi' \<noteq> 0"
  shows "file_ok C' dl hi'" "file_data C' hi' = take p (file_data C hi) @ new"
proof -
  let ?A = "map area (data_view C hi)" and ?n = HODO_DATA_SIZE
  have ino: "inode_ok C dl hi" using ok by (simp add: file_ok_def)
  note u = data_view_length [OF ino]
  have fin: "p + length new \<le> Suc i * ?n" using p(1) w by simp
  also have "\<dots> \<le> 10 * ?n" using p(3) by (intro mult_right_mono) simp_all
  finally have le: "p + length new \<le> 10 * ?n" .
  then have fl: "unat (hi_file_len hi') = p + length new"
    unfolding ok'(3) by (simp only: unat_of_nat) (simp add: HODO_DATA_SIZE_eq)
  have "hi_direct j hi' \<noteq> 0" if j: "j < 10" "j * ?n < p + length new" for j
  proof (cases "j = i")
    case False
    have "j * ?n < Suc i * ?n" using j(2) fin by simp
    then have "j < i" using False by (simp add: HODO_DATA_SIZE_eq)
    then have "j * ?n < i * ?n" by (simp add: HODO_DATA_SIZE_eq)
    then have "j * ?n < unat (hi_file_len hi)" using p(1,4) by linarith
    then show ?thesis using ok j(1) False ok'(4) by (simp add: file_ok_def)
  qed (simp add: ok'(5))
  then show "file_ok C' dl hi'" using ok'(1) le fl by (simp add: file_ok_def)
  have A': "map area (data_view C' hi') = ?A[i := d]" by (simp add: ok'(2) map_update area_def)
  have u': "\<forall>x \<in> set (?A[i := d]). length x = ?n"
    using u d(1) by (metis insertE set_update_subset_insert subsetD)
  have "take (p + length new) (concat (?A[i := d])) = take (i * ?n) (concat (?A[i := d])) @ take (left + length new) d"
    using concat_uniform(2) [OF u', of i "left + length new"] w p(1,3) by (simp add: add.assoc)
  also have "take (i * ?n) (concat (?A[i := d])) = take (i * ?n) (concat ?A)"
    using take_concat_update [OF u d(1)] p(3) by simp
  also have "take (left + length new) d = take left (?A ! i) @ new" using d(2) p(3) by simp
  also have "take (i * ?n) (concat ?A) @ (take left (?A ! i) @ new) = take p (concat ?A) @ new"
    using concat_uniform(2) [OF u, of i left] p(1-3) by simp
  finally show "file_data C' hi' = take p (file_data C hi) @ new"
    using p(4) fl by (simp add: file_data_def A' min_def)
qed


section \<open>One block of a write\<close>

definition merged_block :: "nat \<Rightarrow> bytes \<Rightarrow> bytes \<Rightarrow> bytes \<Rightarrow> bytes" where
  "merged_block left cur got new =
     put_bytes (HODO_DATA_START + left) got
       (put_bytes HODO_DATA_START (take left (db_data cur)) (db_set_magic 0x30 new))"

lemma length_db_data: "length b = 4096 \<Longrightarrow> length (db_data b) = HODO_DATA_SIZE"
  by (simp add: db_data_def length_simps const_simps)

lemma merged_block:
  assumes "length cur = 4096" "length new = 4096" "left + length got \<le> HODO_DATA_SIZE"
  shows "length (merged_block left cur got new) = 4096" "db_is_dat (merged_block left cur got new)"
    "is_directblock (merged_block left cur got new)"
    "take (left + length got) (db_data (merged_block left cur got new)) = take left (db_data cur) @ got"
proof -
  let ?d = "take left (db_data cur)" and ?m = "db_set_magic 0x30 new"
  have l: "length ?d = left" "length ?m = 4096"
    using assms by (simp_all add: length_db_data length_db_set_magic)
  have ml: "length (put_bytes 8 ?d ?m) = 4096"
    using l assms(3) by (simp add: length_put_bytes HODO_DATA_SIZE_eq)
  show "length (merged_block left cur got new) = 4096"
    using ml assms(3) by (simp add: merged_block_def HODO_DATA_START_def length_put_bytes HODO_DATA_SIZE_eq)
  have "get_bytes 0 3 (merged_block left cur got new) = get_bytes 0 3 ?m"
    "get_bytes 3 1 (merged_block left cur got new) = get_bytes 3 1 ?m"
    using ml l assms(3) by (simp_all add: merged_block_def HODO_DATA_START_def get_put_before HODO_DATA_SIZE_eq)
  moreover have "db_is_dat ?m" "db_level ?m = 0x30" using assms(2) by simp_all
  ultimately show "db_is_dat (merged_block left cur got new)" "is_directblock (merged_block left cur got new)"
    by (simp_all add: db_is_dat_def is_directblock_def db_level_def u8_at_def)
  have "drop 8 (put_bytes 8 ?d ?m) = ?d @ drop left (db_data ?m)"
    using l by (simp add: put_bytes_def db_data_def HODO_DATA_START_def add.commute)
  then have "take left (drop 8 (put_bytes 8 ?d ?m)) = ?d" using l by simp
  moreover have "db_data (merged_block left cur got new) =
      take left (drop 8 (put_bytes 8 ?d ?m)) @ got @ drop (8 + left + length got) (put_bytes 8 ?d ?m)"
    using ml assms(3)
    by (simp add: merged_block_def db_data_def HODO_DATA_START_def HODO_DATA_SIZE_eq put_bytes_def [of "8 + left"] drop_take)
  ultimately show "take (left + length got) (db_data (merged_block left cur got new)) = ?d @ got"
    using l(1) by simp
qed

text \<open>With a complete user buffer, the helper writes the merged block.\<close>

lemma by_direct_block:
  assumes "k_kmalloc K 14 = Some new" "length (iov_data it) = iov_count it"
    and n: "n = min (iov_count it) (HODO_DATA_SIZE - left)" and left: "left = file_offset pos mod HODO_DATA_SIZE"
    and wr: "hodo_write_struct K (merged_block left cur (take n (iov_data it)) new) HODO_DATABLOCK_SIZE l s =
      Some (r, b', l', s')"
  shows "write_one_block_by_direct_block K pos it l cur s =
    Some (int n, l', \<lparr>iov_count = iov_count it - n, iov_data = drop n (iov_data it)\<rparr>, s')"
proof -
  have lt: "left < HODO_DATA_SIZE" unfolding left by (simp add: HODO_DATA_SIZE_eq)
  have n': "(if HODO_DATA_SIZE \<le> iov_count it + left then HODO_DATA_SIZE - left else iov_count it) = n"
    using lt n by auto
  have c: "copy_from_iter n it = (take n (iov_data it), \<lparr>iov_count = iov_count it - n, iov_data = drop n (iov_data it)\<rparr>)"
    using n assms(2) by (simp add: copy_from_iter_def Let_def min_def)
  have len: "length (take n (iov_data it)) = n" using n assms(2) by simp
  show ?thesis
    unfolding write_one_block_by_direct_block_def left [symmetric] Let_def assms(1) option.case n' c prod.case
      merged_block_def [symmetric] wr
    using len by (simp add: Option.bind_def)
qed

text \<open>The offset at which a write starts.\<close>

definition write_pos :: "vinode \<Rightarrow> kiocb \<Rightarrow> int" where
  "write_pos vi iocb = (if ki_append iocb then vi_size vi else ki_pos iocb)"

lemma file_offset_nat: "0 \<le> pos \<Longrightarrow> pos < 2 ^ 63 \<Longrightarrow> file_offset pos = nat pos"
  by (simp add: file_offset_def unat_eq_nat_uint uint_word_of_int)


lemma put_bytes_commute:
  assumes "o1 + length xs \<le> o2" "o2 + length ys \<le> length b"
  shows "put_bytes o1 xs (put_bytes o2 ys b) = put_bytes o2 ys (put_bytes o1 xs b)"
proof (rule nth_equalityI)
  show "length (put_bytes o1 xs (put_bytes o2 ys b)) = length (put_bytes o2 ys (put_bytes o1 xs b))"
    using assms by (simp add: length_put_bytes)
qed (use assms in \<open>auto simp: nth_put_bytes length_put_bytes\<close>)

lemma set_len_direct_commute:
  assumes "length hi = 4096" "i < 10"
  shows "hi_set_file_len v (hi_set_direct i l hi) = hi_set_direct i l (hi_set_file_len v hi)"
  using assms unfolding hi_defs set_u64_def set_u32_def by (intro put_bytes_commute) simp_all

text \<open>What a write leaves alone: the blocks of other files, and it takes only free numbers.\<close>

definition file_frame :: "(u32 \<Rightarrow> bytes option) \<Rightarrow> u32 \<Rightarrow> bytes \<Rightarrow> (u32 \<Rightarrow> bytes option) \<Rightarrow> bytes \<Rightarrow> bool" where
  "file_frame C dl hi C' hi' \<longleftrightarrow>
     (\<forall>l. C l \<noteq> None \<and> l \<noteq> dl \<and> l \<notin> set (inode_directs hi) \<longrightarrow> C' l = C l) \<and>
     (\<forall>l \<in> set (inode_directs hi'). l \<in> set (inode_directs hi) \<or> C l = None)"

lemma file_frame_refl: "file_frame C dl hi C hi"
  by (simp add: file_frame_def)

lemma file_frame_trans:
  assumes "file_frame C dl hi C1 hi1" "file_frame C1 dl hi1 C2 hi2" "C dl \<noteq> None" "C1 dl \<noteq> None"
  shows "file_frame C dl hi C2 hi2"
  unfolding file_frame_def
proof (intro conjI allI impI ballI)
  fix l assume l: "C l \<noteq> None \<and> l \<noteq> dl \<and> l \<notin> set (inode_directs hi)"
  then have "C1 l = C l" "l \<notin> set (inode_directs hi1)" using assms(1) by (auto simp: file_frame_def)
  then show "C2 l = C l" using assms(2) l by (simp add: file_frame_def)
next
  fix l assume "l \<in> set (inode_directs hi2)"
  then consider "l \<in> set (inode_directs hi1)" | "C1 l = None" using assms(2) by (auto simp: file_frame_def)
  then show "l \<in> set (inode_directs hi) \<or> C l = None"
  proof cases
    case 1
    then show ?thesis using assms(1) by (simp add: file_frame_def)
  next
    case 2
    then have "l \<noteq> dl" using assms(4) by metis
    then show ?thesis using 2 assms(1) unfolding file_frame_def by metis
  qed
qed

context zone_store
begin

text \<open>The common end of both cases: block \<open>i\<close> and the inode have been stored.\<close>

lemma write_stored:
  assumes f: "file_ok (contents zdata s) dl hi"
    and p: "p = i * HODO_DATA_SIZE + left" "left < HODO_DATA_SIZE" "i < 10" "p \<le> unat (hi_file_len hi)"
    and cur: "length cur = 4096" "length new = 4096" "left = 0 \<or> area (data_view (contents zdata s) hi ! i) = db_data cur"
    and got: "left + length got \<le> HODO_DATA_SIZE"
    and up: "inode_updated zinv zdata mnt dl hi i (merged_block left cur got new) n s hi' s'"
    and hi': "hi_file_len hi' = of_nat (p + length got)" "inode_directs hi' = (inode_directs hi)[i := n]" "n \<noteq> 0"
  shows "store_ok zinv zdata mnt s'" "file_ok (contents zdata s') dl hi'"
    "file_data (contents zdata s') hi' = take p (file_data (contents zdata s) hi) @ got"
    "file_frame (contents zdata s) dl hi (contents zdata s') hi'"
proof -
  note m = merged_block [OF cur(1,2) got]
  have d: "length (db_data (merged_block left cur got new)) = HODO_DATA_SIZE" by (rule length_db_data [OF m(1)])
  have c: "take (left + length got) (db_data (merged_block left cur got new)) =
      take left (area (data_view (contents zdata s) hi ! i)) @ got" using m(4) cur(3) by (metis (no_types) take_0)
  have di: "hi_direct j hi' = (inode_directs hi)[i := n] ! j" if "j < 10" for j
    using that hi'(2) by (metis inode_directs_nth)
  have v: "inode_ok (contents zdata s') dl hi'"
    "data_view (contents zdata s') hi' = (data_view (contents zdata s) hi)[i := Some (db_data (merged_block left cur got new))]"
    using up by (simp_all only: inode_updated_def)
  note w = file_data_write [OF f p got d c v hi'(1)]
  have others: "\<And>j. j < 10 \<Longrightarrow> j \<noteq> i \<Longrightarrow> hi_direct j hi' = hi_direct j hi" and slot: "hi_direct i hi' \<noteq> 0"
    using di hi'(3) p(3) by simp_all
  show "file_ok (contents zdata s') dl hi'" by (rule w(1) [OF others slot])
  show "file_data (contents zdata s') hi' = take p (file_data (contents zdata s) hi) @ got"
    by (rule w(2) [OF others slot])
  have n: "contents zdata s n = None \<or> n \<in> set (inode_directs hi)"
    "\<forall>l. l \<noteq> dl \<and> l \<noteq> n \<longrightarrow> contents zdata s' l = contents zdata s l"
    using up by (simp_all only: inode_updated_def) simp_all
  have "set (inode_directs hi') \<subseteq> insert n (set (inode_directs hi))"
    unfolding hi'(2) by (rule set_update_subset_insert)
  then show "file_frame (contents zdata s) dl hi (contents zdata s') hi'"
    unfolding file_frame_def using n by (intro conjI allI impI ballI) (metis, metis insertE subsetD)
  show "store_ok zinv zdata mnt s'" using up by (simp only: inode_updated_def)
qed

end


text \<open>The buffers and the caller's objects of a write at offset \<open>p\<close>.\<close>

definition write_memory :: "'z kernel \<Rightarrow> bool" where
  "write_memory K \<longleftrightarrow> (\<exists>b. k_kmalloc K 13 = Some b \<and> length b = 4096) \<and>
     (\<exists>b. k_kmalloc K 14 = Some b \<and> length b = 4096) \<and> length (k_stack K 4) = 4096"

definition block_bytes :: "nat \<Rightarrow> iov_iter \<Rightarrow> nat" where
  "block_bytes p it = min (iov_count it) (HODO_DATA_SIZE - p mod HODO_DATA_SIZE)"

definition rest_of :: "nat \<Rightarrow> iov_iter \<Rightarrow> iov_iter" where
  "rest_of n it = \<lparr>iov_count = iov_count it - n, iov_data = drop n (iov_data it)\<rparr>"

text \<open>What one block of a write achieves.\<close>

definition wrote ::
  "('z \<Rightarrow> bool) \<Rightarrow> ('z \<Rightarrow> nat \<Rightarrow> bytes) \<Rightarrow> string \<Rightarrow> u32 \<Rightarrow> bytes \<Rightarrow> nat \<Rightarrow> bytes \<Rightarrow>
     'z hodo_state \<Rightarrow> bytes \<Rightarrow> 'z hodo_state \<Rightarrow> bool"
where
  "wrote zinv zdata mnt dl hi p new s hi' s' \<longleftrightarrow>
     store_ok zinv zdata mnt s' \<and> file_ok (contents zdata s') dl hi' \<and>
     file_data (contents zdata s') hi' = take p (file_data (contents zdata s) hi) @ new \<and>
     file_frame (contents zdata s) dl hi (contents zdata s') hi'"

context zone_store
begin

lemma write_direct:
  assumes ok: "store_ok zinv zdata mnt s" and f: "file_ok (contents zdata s) dl hi"
    and room: "wp_room zdata Z s (Suc (Suc k))" and free: "has_free_number s"
    and mem: "length b13 = 4096" "length new = 4096"
    and p: "p = i * HODO_DATA_SIZE + left" "left < HODO_DATA_SIZE" "i < 10" "p \<le> unat (hi_file_len hi)"
    and got: "left + length got \<le> HODO_DATA_SIZE"
  obtains cur l s1 s2 s3 hi' where "load_or_new K (hi_direct i hi) 0x30 b13 s = Some (cur, s1)"
    "hodo_write_struct K (merged_block left cur got new) HODO_DATABLOCK_SIZE (hi_direct i hi) s1 =
       Some (4096, stamped l (merged_block left cur got new), l, s2)"
    "hodo_write_struct K (hi_set_file_len (of_nat (p + length got)) (hi_set_direct i l hi)) HODO_DATABLOCK_SIZE dl s2 =
       Some (4096, hi', dl, s3)"
    "wrote zinv zdata mnt dl hi p got s hi' s3" "wp_room zdata Z s3 k" "free_numbers s \<le> Suc (free_numbers s3)"
proof -
  let ?C = "contents zdata s"
  define v :: u64 where v: "v = of_nat (p + length got)"
  have ino: "inode_ok ?C dl hi" using f by (simp add: file_ok_def)
  note D = inode_okD [OF ino]
  note fl = set_file_len_frame [OF D(2), of v]
  have dd: "hi_direct i hi \<noteq> 0 \<Longrightarrow> area (data_view ?C hi ! i) = db_data (the (?C (hi_direct i hi)))"
    using D(8) [OF p(3)] p(3)
    by (auto simp: data_view_def is_block_logical_number_valid_def area_def)
  show thesis
  proof (cases "hi_direct i hi = 0")
    case True
    have left: "left = 0"
    proof (rule ccontr)
      assume "left \<noteq> 0"
      then have "i * HODO_DATA_SIZE < unat (hi_file_len hi)" using p(1,4) by linarith
      then show False using f p(3) True by (simp add: file_ok_def)
    qed
    let ?cur = "db_set_magic 0x30 b13" and ?h = "hi_set_file_len v hi"
    have cur: "length ?cur = 4096" using mem(1) by (simp add: length_db_set_magic)
    note m = merged_block(1-3) [OF cur mem(2) got]
    have h: "length ?h = 4096" "\<not> db_is_dat ?h" "hi_ino ?h = dl" "inode_directs ?h = inode_directs hi"
      "hi_single ?h = 0" "hi_double ?h = 0" "hi_triple ?h = 0"
      using fl D(2-7) by (simp_all add: length_simps)
    obtain s1 s2 n where st: "hodo_write_struct K (merged_block left ?cur got new) HODO_DATABLOCK_SIZE 0 s =
        Some (4096, stamped n (merged_block left ?cur got new), n, s1)"
      "hodo_write_struct K (hi_set_direct i n ?h) HODO_DATABLOCK_SIZE dl s1 = Some (4096, hi_set_direct i n ?h, dl, s2)"
      "inode_updated zinv zdata mnt dl hi i (merged_block left ?cur got new) n s (hi_set_direct i n ?h) s2"
      "wp_room zdata Z s2 k" "free_numbers s \<le> Suc (free_numbers s2)"
      by (rule store_in_new_block [OF ok ino room free p(3) m h])
    note g = set_direct_frame [OF h(1) p(3), of n]
    have n: "n \<noteq> 0"
    proof -
      have "inode_ok (contents zdata s2) dl (hi_set_direct i n ?h)"
        "data_view (contents zdata s2) (hi_set_direct i n ?h) ! i \<noteq> None"
        using st(3) p(3) by (simp_all add: inode_updated_def)
      moreover have "hi_direct i (hi_set_direct i n ?h) = n"
        using g(1) p(3) by (metis inode_directs_nth length_inode_directs nth_list_update_eq)
      ultimately show ?thesis using p(3)
        by (auto simp: data_view_def is_block_logical_number_valid_def)
    qed
    have e: "hi_file_len (hi_set_direct i n ?h) = v" "inode_directs (hi_set_direct i n ?h) = (inode_directs hi)[i := n]"
      using g(1,7) h(4) fl(7) by simp_all
    have "wrote zinv zdata mnt dl hi p got s (hi_set_direct i n ?h) s2"
      unfolding wrote_def
      using write_stored [OF f p cur mem(2) disjI1 [OF left] got st(3) trans [OF e(1) v] e(2) n] by simp
    then show thesis
      by (intro that [of ?cur s n s1 "hi_set_direct i n ?h" s2])
        (use st True v in \<open>simp_all add: load_or_new_def is_block_logical_number_valid_def
           set_len_direct_commute [OF D(2) p(3)]\<close>)
  next
    case False
    let ?l = "hi_direct i hi" and ?h = "hi_set_file_len v (hi_set_direct i (hi_direct i hi) hi)"
    obtain cur where cur: "?C ?l = Some cur" "length cur = 4096" using D(8) [OF p(3) False] by blast
    obtain s1 where s1: "hodo_read_struct K ?l b13 HODO_DATABLOCK_SIZE s = Some (4096, cur, s1)"
      "same_store zinv zdata s s1" "store_ok zinv zdata mnt s1" "contents zdata s1 = ?C"
      by (rule read_block [OF ok cur(1) mem(1)])
    note same = same_storeD [OF s1(2)]
    note m = merged_block(1-3) [OF cur(2) mem(2) got]
    note g = set_direct_frame [OF D(2) p(3), of ?l]
    have lg: "length (hi_set_direct i ?l hi) = 4096" using D(2) p(3) by (simp add: length_simps)
    note fl = set_file_len_frame [OF lg, of v]
    have dirs: "inode_directs (hi_set_direct i ?l hi) = inode_directs hi"
      using g(1) p(3) by (metis inode_directs_nth list_update_id)
    have h: "length ?h = 4096" "\<not> db_is_dat ?h" "hi_ino ?h = dl" "inode_directs ?h = inode_directs hi"
      "hi_single ?h = 0" "hi_double ?h = 0" "hi_triple ?h = 0"
      using fl g dirs D(2-7) lg by (simp_all add: length_simps)
    have room1: "wp_room zdata Z s1 (Suc (Suc k))" using room same(3) by simp
    have ino1: "inode_ok (contents zdata s1) dl hi" using ino same(2) by simp
    obtain s2 s3 where st: "hodo_write_struct K (merged_block left cur got new) HODO_DATABLOCK_SIZE ?l s1 =
        Some (4096, stamped ?l (merged_block left cur got new), ?l, s2)"
      "hodo_write_struct K ?h HODO_DATABLOCK_SIZE dl s2 = Some (4096, ?h, dl, s3)"
      "inode_updated zinv zdata mnt dl hi i (merged_block left cur got new) ?l s1 ?h s3" "wp_room zdata Z s3 k"
      "num_ok s3 dl" "free_numbers s3 = free_numbers s1"
      by (rule store_in_block [OF s1(3) ino1 room1 p(3) False m h])
    have e: "hi_file_len ?h = v" "inode_directs ?h = (inode_directs hi)[i := ?l]"
      using fl(7) h(4) p(3) by (simp, metis inode_directs_nth list_update_id)
    have a: "area (data_view (contents zdata s1) hi ! i) = db_data cur" using dd [OF False] cur(1) same(2) by simp
    have f1: "file_ok (contents zdata s1) dl hi" using f same(2) by simp
    have "wrote zinv zdata mnt dl hi p got s ?h s3"
      unfolding wrote_def same(2) [symmetric]
      using write_stored [OF f1 p cur(2) mem(2) disjI2 [OF a] got st(3) trans [OF e(1) v] e(2) False] by simp
    moreover have "free_numbers s1 = free_numbers s" using same(6) by (simp add: free_numbers_def)
    ultimately show thesis
      by (intro that [of cur s1 ?l s2 ?h s3])
        (use st s1 False v in \<open>simp_all add: load_or_new_def is_block_logical_number_valid_def\<close>)
  qed
qed

end


context zone_store
begin

lemma write_one_block_ok:
  assumes ok: "store_ok zinv zdata mnt s" and f: "file_ok (contents zdata s) dl hi" and dl: "dl = ucast (vi_ino vi)"
    and room: "wp_room zdata Z s (Suc (Suc k))" and free: "has_free_number s" and mem: "write_memory K"
    and it: "length (iov_data it) = iov_count it"
    and pos: "write_pos vi iocb = int p" "p \<le> unat (hi_file_len hi)" "p < 10 * HODO_DATA_SIZE"
    and n: "n = block_bytes p it"
  obtains s' hi' where "write_one_block K vi iocb it s =
      Some (int n, iocb\<lparr>ki_pos := int (p + n)\<rparr>, rest_of n it, vi\<lparr>vi_size := int (p + n)\<rparr>, s')"
    "wrote zinv zdata mnt dl hi p (take n (iov_data it)) s hi' s'" "wp_room zdata Z s' k"
    "free_numbers s \<le> Suc (free_numbers s')"
proof -
  obtain b13 new where b: "k_kmalloc K 13 = Some b13" "length b13 = 4096" "k_kmalloc K 14 = Some new"
    "length new = 4096" "length (k_stack K 4) = 4096"
    using mem by (auto simp: write_memory_def)
  define i left where i: "i = p div HODO_DATA_SIZE" and left: "left = p mod HODO_DATA_SIZE"
  have "contents zdata s dl = Some hi" using f by (simp add: file_ok_def inode_ok_def)
  then obtain s0 where s0: "hodo_read_struct K dl (k_stack K 4) HODO_DATABLOCK_SIZE s = Some (4096, hi, s0)"
    "same_store zinv zdata s s0" "store_ok zinv zdata mnt s0" "contents zdata s0 = contents zdata s"
    by (rule read_block [OF ok _ b(5)])
  note same = same_storeD [OF s0(2)]
  have f0: "file_ok (contents zdata s0) dl hi" using f same(2) by simp
  have room0: "wp_room zdata Z s0 (Suc (Suc k))" using room same(3) by simp
  have free0: "has_free_number s0" using free same(5) by simp
  have i10: "i < 10" using pos(3) by (simp add: i HODO_DATA_SIZE_eq)
  have p: "p = i * HODO_DATA_SIZE + left" "left < HODO_DATA_SIZE" unfolding i left by (simp_all add: HODO_DATA_SIZE_eq)
  let ?got = "take n (iov_data it)"
  have lg: "length ?got = n" "left + n \<le> HODO_DATA_SIZE"
    using it p(2) by (simp_all add: n block_bytes_def left [symmetric])
  have off: "file_offset (int p) = p" using pos(3) by (simp add: file_offset_nat HODO_DATA_SIZE_eq)
  obtain cur l s1 s2 s3 hi' where w: "load_or_new K (hi_direct i hi) 0x30 b13 s0 = Some (cur, s1)"
    "hodo_write_struct K (merged_block left cur ?got new) HODO_DATABLOCK_SIZE (hi_direct i hi) s1 =
       Some (4096, stamped l (merged_block left cur ?got new), l, s2)"
    "hodo_write_struct K (hi_set_file_len (of_nat (p + length ?got)) (hi_set_direct i l hi)) HODO_DATABLOCK_SIZE dl s2 =
       Some (4096, hi', dl, s3)"
    "wrote zinv zdata mnt dl hi p ?got s0 hi' s3" "wp_room zdata Z s3 k" "free_numbers s0 \<le> Suc (free_numbers s3)"
    using write_direct [OF s0(3) f0 room0 free0 b(2,4) p i10 pos(2), of ?got] lg by metis
  define iocb' where "iocb' = (if ki_append iocb then iocb\<lparr>ki_pos := vi_size vi\<rparr> else iocb)"
  have ip: "ki_pos iocb' = int p" using pos(1) by (simp add: write_pos_def iocb'_def split: if_splits)
  have ip': "iocb'\<lparr>ki_pos := x\<rparr> = iocb\<lparr>ki_pos := x\<rparr>" for x by (simp add: iocb'_def)
  have by_direct: "write_one_block_by_direct_block K (int p) it (hi_direct i hi) cur s1 = Some (int n, l, rest_of n it, s2)"
    unfolding rest_of_def
    by (rule by_direct_block [OF b(3) it _ _ w(2)]) (simp_all add: n block_bytes_def left off)
  have fin: "finish_write K vi iocb' (int n) (hi_set_direct i l hi) (rest_of n it) s2 =
      Some (int n, iocb\<lparr>ki_pos := int (p + n)\<rparr>, rest_of n it, vi\<lparr>vi_size := int (p + n)\<rparr>, s3)"
    using w(3) lg(1) by (simp add: finish_write_def ip ip' dl)
  have "write_one_block K vi iocb it s =
      Some (int n, iocb\<lparr>ki_pos := int (p + n)\<rparr>, rest_of n it, vi\<lparr>vi_size := int (p + n)\<rparr>, s3)"
    using s0(1) b(1) i10 w(1) by_direct fin
    by (simp add: write_one_block_def dl Let_def iocb'_def [symmetric] ip off i [symmetric])
  moreover have "wrote zinv zdata mnt dl hi p ?got s hi' s3" using w(4) same(2) by (simp add: wrote_def)
  moreover have "free_numbers s0 = free_numbers s" using same(6) by (simp add: free_numbers_def)
  ultimately show thesis using that w(5,6) by simp
qed

end


lemma wrote_trans:
  assumes "file_ok (contents zdata s) dl hi" "wrote zinv zdata mnt dl hi p (take n new) s hi1 s1"
    "wrote zinv zdata mnt dl hi1 (p + n) (drop n new) s1 hi2 s2" "p \<le> unat (hi_file_len hi)" "n \<le> length new"
  shows "wrote zinv zdata mnt dl hi p new s hi2 s2"
proof -
  have d: "contents zdata s dl \<noteq> None" "contents zdata s1 dl \<noteq> None"
    using assms(1,2) by (simp_all add: wrote_def file_ok_def inode_ok_def)
  have l: "length (take p (file_data (contents zdata s) hi)) = p"
    using length_file_data [OF assms(1)] assms(4) by simp
  have "file_data (contents zdata s2) hi2 =
      take (p + n) (take p (file_data (contents zdata s) hi) @ take n new) @ drop n new"
    using assms(2,3) by (simp add: wrote_def)
  also have "\<dots> = take p (file_data (contents zdata s) hi) @ new" using l assms(5) by simp
  finally show ?thesis using assms(2,3) file_frame_trans d unfolding wrote_def by metis
qed

text \<open>
  The whole write, by induction on the number of blocks \<open>m\<close> it may still touch: every round
  fills its block or ends the data. \<open>ok m x\<close> says that the object \<open>x\<close>, whose store is \<open>st x\<close> and whose
  length is \<open>flen x\<close>, admits \<open>m\<close> more blocks; \<open>W p new x x'\<close> that the bytes \<open>new\<close> have been written at \<open>p\<close>.
\<close>

lemma write_loop_steps:
  fixes st :: "'x \<Rightarrow> 'z hodo_state"
  assumes step: "\<And>m x vi iocb it p n. ok (Suc m) x \<Longrightarrow> vi_ino vi = ino \<Longrightarrow> length (iov_data it) = iov_count it \<Longrightarrow>
      0 < iov_count it \<Longrightarrow> write_pos vi iocb = int p \<Longrightarrow> p \<le> flen x \<Longrightarrow> p < lim \<Longrightarrow> n = block_bytes p it \<Longrightarrow>
      \<exists>x'. write_one_block K vi iocb it (st x) =
          Some (int n, iocb\<lparr>ki_pos := int (p + n)\<rparr>, rest_of n it, vi\<lparr>vi_size := int (p + n)\<rparr>, st x') \<and>
        ok m x' \<and> flen x' = p + n \<and> W p (take n (iov_data it)) x x'"
    and weaken: "\<And>m x. ok (Suc m) x \<Longrightarrow> ok m x"
    and trans: "\<And>p n new x x1 x2. ok 0 x \<Longrightarrow> W p (take n new) x x1 \<Longrightarrow> W (p + n) (drop n new) x1 x2 \<Longrightarrow> p \<le> flen x \<Longrightarrow>
      n \<le> length new \<Longrightarrow> W p new x x2"
  shows "ok m x \<Longrightarrow> vi_ino vi = ino \<Longrightarrow> length (iov_data it) = iov_count it \<Longrightarrow> len = written + iov_count it \<Longrightarrow>
    write_pos vi iocb = int p \<Longrightarrow> p \<le> flen x \<Longrightarrow>
    iov_count it = 0 \<or> p + iov_count it \<le> (p div HODO_DATA_SIZE + m) * HODO_DATA_SIZE \<Longrightarrow> p + iov_count it \<le> lim \<Longrightarrow>
    \<exists>x' iocb' vi'. write_loop K len (int written) vi iocb it (st x) =
        Some (int len, iocb', rest_of (iov_count it) it, vi', st x') \<and> ok 0 x' \<and>
      (if iov_count it = 0 then x' = x
       else ki_pos iocb' = int (p + iov_count it) \<and> vi_size vi' = int (p + iov_count it) \<and> W p (iov_data it) x x')"
proof (induction m arbitrary: x vi it iocb p written)
  case 0
  have z: "iov_count it = 0" using 0(7) div_times_less_eq_dividend [of p HODO_DATA_SIZE] by (simp only: add_0_right) linarith
  show ?case using z 0(1,3,4) by (subst write_loop.simps) (auto simp: rest_of_def)
next
  case (Suc m)
  have ok0: "ok 0 x" using Suc.prems(1) by (induction m) (auto dest: weaken)
  show ?case
  proof (cases "iov_count it = 0")
    case True
    then show ?thesis using Suc.prems(3,4) ok0 by (subst write_loop.simps) (auto simp: rest_of_def)
  next
    case False
    define n where "n = block_bytes p it"
    let ?it = "rest_of n it" and ?iocb = "iocb\<lparr>ki_pos := int (p + n)\<rparr>" and ?vi = "vi\<lparr>vi_size := int (p + n)\<rparr>"
    have lt: "p mod HODO_DATA_SIZE < HODO_DATA_SIZE" by (simp add: HODO_DATA_SIZE_eq)
    have n: "0 < n" "n \<le> iov_count it" using False lt by (simp_all add: n_def block_bytes_def)
    have plim: "p < lim" using False Suc.prems(8) by linarith
    have pc: "0 < iov_count it" using False by simp
    obtain x1 where w: "write_one_block K vi iocb it (st x) = Some (int n, ?iocb, ?it, ?vi, st x1)"
      "ok m x1" "flen x1 = p + n" "W p (take n (iov_data it)) x x1"
      using step [OF Suc.prems(1-3) pc Suc.prems(5,6) plim n_def] by blast
    have it1: "length (iov_data ?it) = iov_count ?it" "iov_count ?it = iov_count it - n"
      using Suc.prems(3) by (simp_all add: rest_of_def)
    have next_block: "iov_count ?it = 0 \<or> p + n + iov_count ?it \<le> ((p + n) div HODO_DATA_SIZE + m) * HODO_DATA_SIZE"
    proof (cases "n = iov_count it")
      case False
      then have "n = HODO_DATA_SIZE - p mod HODO_DATA_SIZE" by (simp add: n_def block_bytes_def min_def split: if_splits)
      then have e: "p + n = p div HODO_DATA_SIZE * HODO_DATA_SIZE + HODO_DATA_SIZE"
        using lt div_mult_mod_eq [of p HODO_DATA_SIZE] by linarith
      then have "(p + n) div HODO_DATA_SIZE = p div HODO_DATA_SIZE + 1" by (simp add: HODO_DATA_SIZE_eq)
      then show ?thesis using Suc.prems(7) n by (simp add: it1)
    next
      case True
      then have "iov_count ?it = 0" using it1(2) by simp
      then show ?thesis ..
    qed
    have IH: "\<exists>x' iocb' vi'. write_loop K len (int (written + n)) ?vi ?iocb ?it (st x1) =
          Some (int len, iocb', rest_of (iov_count ?it) ?it, vi', st x') \<and> ok 0 x' \<and>
        (if iov_count ?it = 0 then x' = x1
         else ki_pos iocb' = int (p + n + iov_count ?it) \<and> vi_size vi' = int (p + n + iov_count ?it) \<and>
           W (p + n) (iov_data ?it) x1 x')"
      by (rule Suc.IH [OF w(2) _ it1(1) _ _ _ next_block])
        (use Suc.prems(2,4,8) w(3) n it1(2) in \<open>simp_all add: write_pos_def\<close>)
    have run: "write_loop K len (int written) vi iocb it (st x) = write_loop K len (int (written + n)) ?vi ?iocb ?it (st x1)"
      using False Suc.prems(4) w(1) by (subst write_loop.simps) simp
    have rest: "rest_of (iov_count ?it) ?it = rest_of (iov_count it) it"
      using n(2) by (simp add: rest_of_def)
    show ?thesis
    proof (cases "iov_count ?it = 0")
      case True
      then have e: "n = iov_count it" using n(2) it1(2) by simp
      have len: "len = written + n" using Suc.prems(4) e by simp
      have "write_loop K len (int (written + n)) ?vi ?iocb ?it (st x1) = Some (int len, ?iocb, rest_of (iov_count it) it, ?vi, st x1)"
        using True len unfolding rest [symmetric] by (subst write_loop.simps) (simp add: rest_of_def)
      moreover have "ok 0 x1" using w(2) by (induction m) (auto dest: weaken)
      ultimately show ?thesis using w(4) e Suc.prems(3) False unfolding run by (intro exI [of _ x1] exI) auto
    next
      case more: False
      obtain x' iocb' vi' where l: "write_loop K len (int (written + n)) ?vi ?iocb ?it (st x1) =
          Some (int len, iocb', rest_of (iov_count it) it, vi', st x')" "ok 0 x'"
        "ki_pos iocb' = int (p + n + iov_count ?it)" "vi_size vi' = int (p + n + iov_count ?it)"
        "W (p + n) (drop n (iov_data it)) x1 x'"
        using IH more unfolding rest by (auto simp: rest_of_def)
      have "W p (iov_data it) x x'"
        by (rule trans [OF ok0 w(4) l(5) Suc.prems(6)]) (use Suc.prems(3) n(2) in simp)
      then show ?thesis using l n(2) False unfolding run by (auto simp: it1(2))
    qed
  qed
qed

context zone_store
begin

lemma write_loop_ok:
  assumes ok: "store_ok zinv zdata mnt s" and f: "file_ok (contents zdata s) dl hi" and dl: "dl = ucast (vi_ino vi)"
    and room: "wp_room zdata Z s (2 * m + k)" and free: "m \<le> free_numbers s" and mem: "write_memory K"
    and it: "length (iov_data it) = iov_count it" "0 < iov_count it"
    and pos: "write_pos vi iocb = int p" "p \<le> unat (hi_file_len hi)"
      "p + iov_count it \<le> (p div HODO_DATA_SIZE + m) * HODO_DATA_SIZE" "p + iov_count it \<le> 10 * HODO_DATA_SIZE"
  obtains s' hi' iocb' vi' where "write_loop K (iov_count it) 0 vi iocb it s =
      Some (int (iov_count it), iocb', rest_of (iov_count it) it, vi', s')"
    "ki_pos iocb' = int (p + iov_count it)" "vi_size vi' = int (p + iov_count it)"
    "wrote zinv zdata mnt dl hi p (iov_data it) s hi' s'" "wp_room zdata Z s' k" "free_numbers s \<le> m + free_numbers s'"
proof -
  define good where "good = (\<lambda>j x. case x of (hi, s1) \<Rightarrow> store_ok zinv zdata mnt s1 \<and> file_ok (contents zdata s1) dl hi \<and>
    wp_room zdata Z s1 (2 * j + k) \<and> j \<le> free_numbers s1 \<and> free_numbers s + j \<le> m + free_numbers s1)"
  define flen where "flen = (\<lambda>x :: bytes \<times> 'z hodo_state. unat (hi_file_len (fst x)))"
  define W where "W = (\<lambda>p new x x'. wrote zinv zdata mnt dl (fst x) p new (snd x) (fst x') (snd x'))"
  have step: "\<exists>x'. write_one_block K vi1 io it1 (snd x) =
        Some (int n, io\<lparr>ki_pos := int (q + n)\<rparr>, rest_of n it1, vi1\<lparr>vi_size := int (q + n)\<rparr>, snd x') \<and>
      good j x' \<and> flen x' = q + n \<and> W q (take n (iov_data it1)) x x'"
    if g: "good (Suc j) x" and h: "vi_ino vi1 = vi_ino vi" "length (iov_data it1) = iov_count it1" "0 < iov_count it1"
      "write_pos vi1 io = int q" "q \<le> flen x" "q < 10 * HODO_DATA_SIZE" "n = block_bytes q it1" for j x vi1 io it1 q n
  proof -
    obtain hi1 s1 where x: "x = (hi1, s1)" by fastforce
    have g1: "store_ok zinv zdata mnt s1" "file_ok (contents zdata s1) dl hi1" "wp_room zdata Z s1 (Suc (Suc (2 * j + k)))"
      "Suc j \<le> free_numbers s1" "free_numbers s + Suc j \<le> m + free_numbers s1"
      using g by (simp_all add: good_def x)
    have fr: "has_free_number s1" using g1(4) by (simp add: has_free_number_iff)
    have q: "q \<le> unat (hi_file_len hi1)" using h(5) by (simp add: flen_def x)
    have d: "dl = ucast (vi_ino vi1)" using dl h(1) by simp
    obtain s2 hi2 where w: "write_one_block K vi1 io it1 s1 =
        Some (int n, io\<lparr>ki_pos := int (q + n)\<rparr>, rest_of n it1, vi1\<lparr>vi_size := int (q + n)\<rparr>, s2)"
      "wrote zinv zdata mnt dl hi1 q (take n (iov_data it1)) s1 hi2 s2" "wp_room zdata Z s2 (2 * j + k)"
      "free_numbers s1 \<le> Suc (free_numbers s2)"
      by (rule write_one_block_ok [OF g1(1,2) d g1(3) fr mem h(2,4) q h(6,7)])
    have w2: "file_ok (contents zdata s2) dl hi2"
      "file_data (contents zdata s2) hi2 = take q (file_data (contents zdata s1) hi1) @ take n (iov_data it1)"
      using w(2) by (simp_all add: wrote_def)
    have "n \<le> iov_count it1" using h(7) by (simp add: block_bytes_def)
    then have "unat (hi_file_len hi2) = q + n"
      using length_file_data [OF w2(1)] length_file_data [OF g1(2)] w2(2) q h(2) by simp
    moreover have "good j (hi2, s2)" using w g1 by (simp add: good_def wrote_def)
    ultimately show ?thesis using w(1,2) by (intro exI [of _ "(hi2, s2)"]) (simp add: x flen_def W_def)
  qed
  have weaken: "good j x" if "good (Suc j) x" for j x
    using that wp_room_mono [of zdata Z _ "2 * Suc j + k" "2 * j + k"] by (auto simp: good_def split: prod.splits)
  have trans: "W q new x x2" if "good 0 x" "W q (take n new) x x1" "W (q + n) (drop n new) x1 x2" "q \<le> flen x" "n \<le> length new"
    for q n new x x1 x2
    unfolding W_def
    by (rule wrote_trans [OF _ that(2,3) [unfolded W_def]])
      (use that(1,4,5) in \<open>simp_all add: flen_def good_def split: prod.splits\<close>)
  have g: "good m (hi, s)" using ok f room free by (simp add: good_def)
  have pl: "p \<le> flen (hi, s)" using pos(2) by (simp add: flen_def)
  have "\<exists>x' iocb' vi'. write_loop K (iov_count it) (int 0) vi iocb it (snd (hi, s)) =
      Some (int (iov_count it), iocb', rest_of (iov_count it) it, vi', snd x') \<and> good 0 x' \<and>
    (if iov_count it = 0 then x' = (hi, s)
     else ki_pos iocb' = int (p + iov_count it) \<and> vi_size vi' = int (p + iov_count it) \<and> W p (iov_data it) (hi, s) x')"
    by (rule write_loop_steps [where st = snd and ok = good and flen = flen and W = W and lim = "10 * HODO_DATA_SIZE" and
          ino = "vi_ino vi" and m = m and x = "(hi, s)" and p = p])
      ((rule step; assumption) | (rule weaken; assumption) | (rule trans; assumption) | (use g it pos pl in simp))+
  then obtain x' iocb' vi' where "write_loop K (iov_count it) 0 vi iocb it s =
      Some (int (iov_count it), iocb', rest_of (iov_count it) it, vi', snd x')" "good 0 x'"
    "ki_pos iocb' = int (p + iov_count it)" "vi_size vi' = int (p + iov_count it)" "W p (iov_data it) (hi, s) x'"
    using it(2) by auto
  then show thesis using that [of iocb' vi' "snd x'" "fst x'"] by (cases x') (simp add: good_def W_def)
qed

end


section \<open>Reading a range\<close>

lemma block_of_exact:
  assumes "off < 2 ^ 32"
  shows "block_of off = int (off div HODO_DATA_SIZE)"
proof -
  have "off div HODO_DATA_SIZE * HODO_DATA_SIZE \<le> off" by (rule div_times_less_eq_dividend)
  then have "off div HODO_DATA_SIZE < 2 ^ 31" using assms by (simp add: HODO_DATA_SIZE_eq)
  then have "int (off div HODO_DATA_SIZE) < 2 ^ 31" by simp
  then show ?thesis by (simp add: block_of_def signed_of_nat signed_take_bit_int_eq_self)
qed

text \<open>The length fits an \<open>int\<close> when what is read does: the rest of the file, converted to a negative
  \<open>int\<close>, is a large \<open>size_t\<close> in the comparison.\<close>

lemma rest_compare:
  assumes "d < 2 ^ 32" "count < 2 ^ 31"
  shows "(of_nat count :: u64) < scast (of_nat d :: u32) \<longleftrightarrow> count < d"
proof -
  have c: "unat (of_nat count :: u64) = count" using assms(2) by (simp add: unat_of_nat)
  show ?thesis
  proof (cases "d < 2 ^ 31")
    case True
    then have "sint (of_nat d :: u32) = int d" by (simp add: signed_of_nat signed_take_bit_int_eq_self)
    then have "(scast (of_nat d :: u32) :: u64) = of_nat d" by (metis of_int_of_nat_eq scast_eq)
    then show ?thesis using True c by (simp add: word_less_nat_alt unat_of_nat)
  next
    case False
    define k where "k = int d - 2 ^ 32"
    have k: "- (2 ^ 31) \<le> k" "k < 0" using assms(1) False by (simp_all add: k_def)
    have "(of_nat d :: u32) = of_int k" by (simp add: k_def)
    moreover have "sint (of_int k :: u32) = k" using k by (simp add: signed_of_int signed_take_bit_int_eq_self)
    ultimately have "(scast (of_nat d :: u32) :: u64) = of_int k" by (simp add: scast_eq)
    moreover have "uint (of_int k :: u64) = 2 ^ 64 + k"
    proof -
      have "k mod 2 ^ 64 = (2 ^ 64 + k) mod 2 ^ 64" by simp
      also have "\<dots> = 2 ^ 64 + k" by (rule mod_pos_pos_trivial) (use k in simp_all)
      finally show ?thesis by (simp add: unsigned_of_int take_bit_eq_mod)
    qed
    moreover have "uint (of_nat count :: u64) = int count" by (simp only: uint_nat c)
    ultimately have "(of_nat count :: u64) < scast (of_nat d :: u32)"
      unfolding word_less_alt using k assms(2) by simp
    moreover have "count < d" using False assms(2) by simp
    ultimately show ?thesis by simp
  qed
qed

lemma read_len_exact:
  assumes "p < unat flen" "unat flen < 2 ^ 32" "count < 2 ^ 64" "min count (unat flen - p) < 2 ^ 31"
  shows "read_len flen (int p) count = int (min count (unat flen - p))"
proof -
  define d where "d = unat flen - p"
  have d: "d < 2 ^ 32" "0 < d" using assms(1,2) by (simp_all add: d_def)
  have "of_nat p \<le> flen" using assms by (simp add: word_le_nat_alt unat_of_nat)
  then have "unat (flen - of_nat p) = d" using assms by (simp add: unat_sub unat_of_nat d_def)
  then have e: "flen - of_nat p = of_nat d" using d by (simp add: word_unat_eq_iff unat_of_nat)
  have l: "(ucast (of_nat d :: u64) :: u32) = of_nat d"
    using d by (simp add: word_unat_eq_iff unsigned_ucast_eq unat_of_nat take_bit_nat_eq_self)
  have s: "sint (of_nat n :: u32) = int n" if "n < 2 ^ 31" for n
    using that by (simp add: signed_of_nat signed_take_bit_int_eq_self)
  have lt: "(of_nat count :: u64) < scast (of_nat d :: u32) \<longleftrightarrow> count < d"
  proof (cases "count < 2 ^ 31")
    case True
    then show ?thesis by (rule rest_compare [OF d(1)])
  next
    case False
    then have d31: "d < 2 ^ 31" using assms(4) by (simp add: d_def min_def split: if_splits)
    then have "(scast (of_nat d :: u32) :: u64) = of_nat d" by (metis s of_int_of_nat_eq scast_eq)
    then show ?thesis using d31 assms(3) by (simp add: word_less_nat_alt unat_of_nat)
  qed
  have m: "min count d < 2 ^ 31" using assms(4) by (simp add: d_def)
  show ?thesis
  proof (cases "count < d")
    case True
    then show ?thesis using e l lt s [of count] m by (simp add: read_len_def Let_def d_def [symmetric])
  next
    case False
    then show ?thesis using e l lt s [of d] m by (simp add: read_len_def Let_def d_def [symmetric])
  qed
qed

lemma upto_upt: "[int a + 1..int b - 1] = map int [Suc a..<b]"
  by (rule nth_equalityI) (simp_all add: nth_upto)

text \<open>The bytes from one block to another, as the loop collects them.\<close>

lemma range_of_blocks:
  assumes u: "\<forall>x \<in> set A. length x = n" and st: "st < e" "e < length A" and m: "off \<le> n" "t \<le> n"
  shows "drop (st * n + off) (take (e * n + t) (concat A)) =
    drop off (A ! st) @ concat (map ((!) A) [Suc st..<e]) @ take t (A ! e)"
proof -
  have l: "length (concat (take st A)) = st * n" "length (A ! st) = n"
    using concat_uniform(1) [of "take st A" n] u st by (auto dest: in_set_takeD)
  have te: "take e A = take st A @ A ! st # drop (Suc st) (take e A)"
    using id_take_nth_drop [of st "take e A"] st by simp
  have "concat (take e A) = concat (take st A) @ A ! st @ concat (drop (Suc st) (take e A))"
    by (subst te) simp
  moreover have "take (e * n) (concat A) = concat (take e A)"
  proof -
    have "length (concat (take e A)) = e * n"
      using concat_uniform(1) [of "take e A" n] u st by (auto dest: in_set_takeD)
    moreover have "concat A = concat (take e A) @ concat (drop e A)" by (simp flip: concat_append)
    ultimately show ?thesis by simp
  qed
  moreover have "map ((!) A) [Suc st..<e] = drop (Suc st) (take e A)"
    using st by (intro nth_equalityI) simp_all
  ultimately show ?thesis using concat_uniform(2) [OF u, of e t] l st m by simp
qed

text \<open>Reading block \<open>j\<close>, now or after more reads, finds the data \<open>d\<close>.\<close>

definition reads_block ::
  "('z \<Rightarrow> bool) \<Rightarrow> ('z \<Rightarrow> nat \<Rightarrow> bytes) \<Rightarrow> 'z kernel \<Rightarrow> bytes \<Rightarrow> 'z hodo_state \<Rightarrow> nat \<Rightarrow> bytes \<Rightarrow> bool"
where
  "reads_block zinv zdata K hi s j d \<longleftrightarrow>
     (\<forall>s1 buf. same_store zinv zdata s s1 \<longrightarrow> length buf = 4096 \<longrightarrow>
        (\<exists>b s'. hodo_read_nth_block K hi (int j) buf s1 = Some (b, s') \<and> length b = 4096 \<and> db_data b = d \<and>
           same_store zinv zdata s1 s'))"

lemma reads_blockE:
  assumes "reads_block zinv zdata K hi s j d" "same_store zinv zdata s s1" "length buf = 4096"
  obtains b s' where "hodo_read_nth_block K hi (int j) buf s1 = Some (b, s')" "length b = 4096" "db_data b = d"
    "same_store zinv zdata s1 s'" "same_store zinv zdata s s'"
proof -
  obtain b s' where "hodo_read_nth_block K hi (int j) buf s1 = Some (b, s')" "length b = 4096" "db_data b = d"
    "same_store zinv zdata s1 s'" using assms unfolding reads_block_def by blast
  then show thesis using that same_store_trans [OF assms(2)] by blast
qed

lemma read_blocks_ok:
  assumes "\<forall>i \<in> set ns. reads_block zinv zdata K hi s i (A ! i)" "store_ok zinv zdata mnt s1"
    "same_store zinv zdata s s1" "length buf = 4096"
  shows "\<exists>buf' s'. read_blocks K hi (map int ns) buf s1 = Some (concat (map ((!) A) ns), buf', s') \<and>
    length buf' = 4096 \<and> same_store zinv zdata s s'"
  using assms
proof (induction ns arbitrary: buf s1)
  case (Cons i ns)
  have ri: "reads_block zinv zdata K hi s i (A ! i)" using Cons.prems(1) by simp
  obtain b s2 where b: "hodo_read_nth_block K hi (int i) buf s1 = Some (b, s2)" "length b = 4096" "db_data b = A ! i"
    "same_store zinv zdata s1 s2" "same_store zinv zdata s s2"
    by (rule reads_blockE [OF ri Cons.prems(3,4)])
  have "\<exists>buf' s'. read_blocks K hi (map int ns) b s2 = Some (concat (map ((!) A) ns), buf', s') \<and>
    length buf' = 4096 \<and> same_store zinv zdata s s'"
    by (rule Cons.IH) (use b Cons.prems same_storeD(1) [OF b(4)] in simp_all)
  then show ?case using b(1,3) by auto
qed simp

text \<open>\<open>read_range\<close> over any blocks \<open>A\<close> that can be read.\<close>

lemma read_range_areas:
  assumes ok: "store_ok zinv zdata mnt s" and u: "\<forall>x \<in> set A. length x = HODO_DATA_SIZE"
    and mem: "k_kmalloc K 16 = Some buf" "length buf = 4096"
    and pos: "ki_pos iocb = int p" "p < unat (hi_file_len hi)" and count: "count < 2 ^ 64"
    and small: "unat (hi_file_len hi) < 2 ^ 32" "rl < 2 ^ 31"
    and rl: "rl = min count (unat (hi_file_len hi) - p)"
    and last: "(p + rl) div HODO_DATA_SIZE < length A"
    and rd: "\<And>j. j \<le> (p + rl) div HODO_DATA_SIZE \<Longrightarrow> reads_block zinv zdata K hi s j (A ! j)"
  shows "\<exists>s'. read_range K hi iocb count s =
      Some (int rl, drop p (take (p + rl) (concat A)), iocb\<lparr>ki_pos := int (p + rl)\<rparr>, s') \<and>
    same_store zinv zdata s s'"
proof -
  let ?n = HODO_DATA_SIZE and ?flen = "unat (hi_file_len hi)"
  define st e off tl where d: "st = p div ?n" "e = (p + rl) div ?n" "off = p mod ?n" "tl = (p + rl) mod ?n"
  have n0: "0 < ?n" by (simp add: HODO_DATA_SIZE_eq)
  have pe: "p = st * ?n + off" "p + rl = e * ?n + tl" "off < ?n" "tl < ?n"
    using n0 by (simp_all add: d)
  have le: "p + rl \<le> ?flen" using rl pos(2) by simp
  have se: "st \<le> e" unfolding d by (intro div_le_mono) simp
  have eA: "e < length A" using last by (simp add: d)
  have rd': "reads_block zinv zdata K hi s j (A ! j)" if "j \<le> e" for j using rd that by (simp add: d)
  have lim: "p < 2 ^ 32" "p + rl < 2 ^ 32" using pos(2) small(1) le by linarith+
  have off_p: "file_offset (int p) = p" "file_offset (int (p + rl)) = p + rl"
    using lim by (simp_all add: file_offset_nat del: of_nat_add)
  have bl: "block_of p = int st" "block_of (p + rl) = int e"
    using block_of_exact [OF lim(1)] block_of_exact [OF lim(2)] by (simp_all add: d)
  have rlen: "read_len (hi_file_len hi) (int p) count = int rl"
    unfolding rl by (rule read_len_exact [OF pos(2) small(1) count small(2) [unfolded rl]])
  have not_eof: "\<not> hi_file_len hi \<le> of_nat p"
    using pos(2) small(1) by (simp add: word_le_nat_alt unat_of_nat)
  obtain b1 s1 where b1: "hodo_read_nth_block K hi (int st) buf s = Some (b1, s1)" "length b1 = 4096"
    "db_data b1 = A ! st" "same_store zinv zdata s s1"
    by (rule reads_blockE [OF rd' [OF se] same_store_refl [OF ok] mem(2)])
  note unfold = read_range_def Let_def pos(1) rlen of_nat_add [symmetric] off_p bl mem(1)
    d(3,4) [symmetric]
  show ?thesis
  proof (cases "st = e")
    case True
    have "take (p + rl) (concat A) = take (st * ?n) (concat A) @ take tl (A ! st)"
      using concat_uniform(2) [OF u, of e tl] pe(2,4) eA True by simp
    moreover have "length (take (st * ?n) (concat A)) = st * ?n"
      using concat_uniform(1) [OF u] se eA by (simp add: min_def)
    ultimately have "drop p (take (p + rl) (concat A)) = drop off (take tl (A ! st))" using pe(1) by simp
    moreover have "tl - off = rl" using pe(1,2) True by simp
    ultimately have "drop p (take (p + rl) (concat A)) = take rl (drop off (A ! st))" by (simp add: drop_take)
    then show ?thesis unfolding unfold using b1(1,3,4) True not_eof by simp
  next
    case False
    then have lt: "st < e" using se by simp
    have mids: "[int st + 1..int e - 1] = map int [Suc st..<e]" by (rule upto_upt)
    have ns: "\<forall>i \<in> set [Suc st..<e]. reads_block zinv zdata K hi s i (A ! i)" using rd' by simp
    obtain b2 s2 where b2: "read_blocks K hi (map int [Suc st..<e]) b1 s1 =
        Some (concat (map ((!) A) [Suc st..<e]), b2, s2)" "length b2 = 4096" "same_store zinv zdata s s2"
      using read_blocks_ok [OF ns same_storeD(1) [OF b1(4) ok] b1(4,2)] by blast
    obtain b3 s3 where b3: "hodo_read_nth_block K hi (int e) b2 s2 = Some (b3, s3)" "db_data b3 = A ! e"
      "same_store zinv zdata s s3"
      by (rule reads_blockE [OF rd' [OF order_refl] b2(3,2)])
    have res: "drop p (take (p + rl) (concat A)) =
        drop off (db_data b1) @ concat (map ((!) A) [Suc st..<e]) @ take tl (db_data b3)"
      unfolding pe(1) [symmetric] pe(2) b1(3) b3(2)
      using range_of_blocks [OF u lt, of off tl] eA pe by simp
    have len: "length (map int [Suc st..<e]) = e - Suc st" by simp
    have "e * ?n = st * ?n + ?n + ?n * (e - Suc st)"
    proof -
      have "e = st + 1 + (e - Suc st)" using lt by simp
      then show ?thesis by (metis add.commute distrib_right mult.commute mult_1)
    qed
    then have end_pos: "int p + int (?n - off) + int (?n * (e - Suc st)) + int tl = int (p + rl)"
      using pe by (simp only: of_nat_add [symmetric] of_nat_eq_iff)
    show ?thesis unfolding unfold mids res
      using b1(1) b2(1) b3(1,3) lt end_pos len not_eof by (simp del: of_nat_add of_nat_mult)
  qed
qed

context zone_store
begin

lemma read_nth:
  assumes ok: "store_ok zinv zdata mnt s" and f: "inode_ok (contents zdata s) dl hi"
    and i: "i < 10" "hi_direct i hi \<noteq> 0"
  shows "reads_block zinv zdata K hi s i (area (data_view (contents zdata s) hi ! i))"
  unfolding reads_block_def
proof (intro allI impI)
  fix s1 buf assume s1: "same_store zinv zdata s s1" and buf: "length (buf :: bytes) = 4096"
  note same = same_storeD [OF s1]
  obtain b where b: "contents zdata s (hi_direct i hi) = Some b" "length b = 4096"
    using inode_okD(8) [OF f i] by blast
  have b1: "contents zdata s1 (hi_direct i hi) = Some b" using b(1) same(2) by simp
  obtain s' where s': "hodo_read_struct K (hi_direct i hi) buf HODO_DATABLOCK_SIZE s1 = Some (4096, b, s')"
    "same_store zinv zdata s1 s'"
    by (rule read_block [OF same(1) [OF ok] b1 buf])
  have "hodo_read_nth_block K hi (int i) buf s1 = Some (b, s')"
    using s'(1) i(1) by (simp add: hodo_read_nth_block_def)
  moreover have "db_data b = area (data_view (contents zdata s) hi ! i)"
    using b(1) i by (simp add: data_view_def is_block_logical_number_valid_def area_def)
  ultimately show "\<exists>b s'. hodo_read_nth_block K hi (int i) buf s1 = Some (b, s') \<and> length b = 4096 \<and>
      db_data b = area (data_view (contents zdata s) hi ! i) \<and> same_store zinv zdata s1 s'" using b(2) s'(2) by blast
qed

lemma read_range_ok:
  assumes ok: "store_ok zinv zdata mnt s" and f: "file_ok (contents zdata s) dl hi"
    and mem: "k_kmalloc K 16 = Some buf" "length buf = 4096"
    and pos: "ki_pos iocb = int p" "p < unat (hi_file_len hi)" and count: "count < 2 ^ 64"
    and rl: "rl = min count (unat (hi_file_len hi) - p)"
    and last: "(p + rl) div HODO_DATA_SIZE < 10" "hi_direct ((p + rl) div HODO_DATA_SIZE) hi \<noteq> 0"
  shows "\<exists>s'. read_range K hi iocb count s =
      Some (int rl, take rl (drop p (file_data (contents zdata s) hi)), iocb\<lparr>ki_pos := int (p + rl)\<rparr>, s') \<and>
    same_store zinv zdata s s'"
proof -
  let ?n = HODO_DATA_SIZE and ?A = "map area (data_view (contents zdata s) hi)" and ?flen = "unat (hi_file_len hi)"
  let ?e = "(p + rl) div ?n"
  have ino: "inode_ok (contents zdata s) dl hi" and fl: "?flen \<le> 10 * ?n" using f by (simp_all add: file_ok_def)
  have small: "?flen < 2 ^ 32" "rl < 2 ^ 31" using fl rl by (simp_all add: HODO_DATA_SIZE_eq)
  have le: "p + rl \<le> ?flen" using rl pos(2) by simp
  have mapped: "hi_direct j hi \<noteq> 0" if "j \<le> ?e" for j
  proof (cases "j = ?e")
    case False
    then have "Suc j * ?n \<le> ?e * ?n" using that by (intro mult_right_mono) simp_all
    also have "\<dots> \<le> p + rl" by (rule div_times_less_eq_dividend)
    finally have "j * ?n < ?flen" using le by (simp add: HODO_DATA_SIZE_eq)
    then show ?thesis using f that last(1) by (simp add: file_ok_def)
  qed (simp add: last(2))
  have rd: "reads_block zinv zdata K hi s j (?A ! j)" if "j \<le> ?e" for j
    using read_nth [OF ok ino _ mapped [OF that]] that last(1) by simp
  have eA: "?e < length ?A" using last(1) by simp
  have data: "take rl (drop p (file_data (contents zdata s) hi)) = drop p (take (p + rl) (concat ?A))"
    using le by (simp add: file_data_def drop_take)
  show ?thesis unfolding data
    by (rule read_range_areas [OF ok data_view_length [OF ino] mem pos count small rl eA rd])
qed

end


text \<open>Numbers that the store maps are not below the first logical number, and 0 is not mapped.\<close>

lemma mapped_number_ge:
  assumes "mapping_ok (zdata (zonefs s)) (mapping_info s)" "contents zdata s l \<noteq> None"
  shows "starting_logical_number (mapping_info s) \<le> l"
proof -
  let ?st = "starting_logical_number (mapping_info s)"
  have i: "table_index (mapping_info s) l < NUMBER_MAPPING_TABLE_ENTRY"
    using assms(2) by (auto simp: contents_def lookup_def live_def split: if_splits)
  have b: "unat ?st + NUMBER_MAPPING_TABLE_ENTRY \<le> 2 ^ 31" using assms(1) by (simp add: mapping_ok_def)
  show ?thesis
  proof (rule ccontr)
    assume "\<not> ?st \<le> l"
    then have "unat l < unat ?st" by (simp add: word_le_nat_alt)
    then have "unat (l - ?st) = 2 ^ 32 + unat l - unat ?st" by (simp add: unat_sub_if')
    then show False using i b by (simp add: table_index_def)
  qed
qed

lemma read_number_0:
  assumes "mapping_ok D (mapping_info s)"
  shows "hodo_read_struct K 0 buf n s = None"
proof -
  let ?st = "starting_logical_number (mapping_info s)"
  have b: "unat ?st + NUMBER_MAPPING_TABLE_ENTRY \<le> 2 ^ 31" "?st \<noteq> 0" using assms by (simp_all add: mapping_ok_def)
  then have "0 < unat ?st" by (simp add: unat_gt_0)
  then have "unat (0 - ?st) = 2 ^ 32 - unat ?st" unfolding unat_sub_if' by simp
  then have "\<not> table_index (mapping_info s) 0 < NUMBER_MAPPING_TABLE_ENTRY"
    using b(1) by (simp add: table_index_def NUMBER_MAPPING_TABLE_ENTRY_eq)
  then show ?thesis by (simp add: hodo_read_struct_def read_table_def)
qed

context zone_store
begin

lemma read_nth_0:
  assumes "store_ok zinv zdata mnt s" "i < 10 \<Longrightarrow> hi_direct i hi = 0" "hi_single hi = 0" "i \<le> 10"
  shows "hodo_read_nth_block K hi (int i) buf s = None"
proof -
  have z: "hodo_read_struct K 0 b n s = None" for b n
    using assms(1) read_number_0 by (metis store_ok_def)
  show ?thesis using assms(2-4) z
    by (cases "i = 10") (simp_all add: hodo_read_nth_block_def read_ptr_def split: option.splits)
qed

text \<open>A read that reaches the end of a file of full blocks looks for one block more.\<close>

lemma read_boundary_faults:
  assumes ok: "store_ok zinv zdata mnt s" and f: "file_ok (contents zdata s) dl hi"
    and pos: "ki_pos iocb = int p" "p < unat (hi_file_len hi)" "unat (hi_file_len hi) \<le> p + count" "count < 2 ^ 64"
    and full: "unat (hi_file_len hi) = e * HODO_DATA_SIZE" "e < 10 \<Longrightarrow> hi_direct e hi = 0"
    and mem: "\<And>buf. k_kmalloc K 16 = Some buf \<Longrightarrow> length buf = 4096"
  shows "read_range K hi iocb count s = None"
proof (cases "k_kmalloc K 16")
  case None
  have "\<not> hi_file_len hi \<le> of_int (ki_pos iocb)"
    using pos(1,2) f by (simp add: word_le_nat_alt unat_of_nat HODO_DATA_SIZE_eq file_ok_def)
  then show ?thesis using None by (simp add: read_range_def Let_def)
next
  case (Some buf)
  let ?n = HODO_DATA_SIZE and ?flen = "unat (hi_file_len hi)"
  have lb: "length buf = 4096" by (rule mem [OF Some])
  have ino: "inode_ok (contents zdata s) dl hi" and fl: "?flen \<le> 10 * ?n" using f by (simp_all add: file_ok_def)
  have n0: "0 < ?n" by (simp add: HODO_DATA_SIZE_eq)
  define st where "st = p div ?n"
  have e: "e \<le> 10" using fl full(1) n0 by simp
  have se: "st < e" using pos(2) full(1) n0 by (simp add: st_def less_mult_imp_div_less)
  have rl: "min count (?flen - p) = ?flen - p" using pos(3) by simp
  have lim: "p < 2 ^ 32" "?flen < 2 ^ 32" "?flen - p < 2 ^ 31" using pos(2) fl by (simp_all add: HODO_DATA_SIZE_eq)
  have rlen: "read_len (hi_file_len hi) (int p) count = int (?flen - p)"
    using read_len_exact [OF pos(2) lim(2) pos(4)] rl lim(3) by simp
  have not_eof: "\<not> hi_file_len hi \<le> of_nat p"
    using pos(2) fl by (simp add: word_le_nat_alt unat_of_nat HODO_DATA_SIZE_eq)
  have sum: "int p + int (?flen - p) = int ?flen" using pos(2) by simp
  have off: "file_offset (int p) = p" "file_offset (int ?flen) = ?flen"
  proof -
    have "file_offset (int k) = k" if "k \<le> 10 * ?n" for k
      using that by (simp add: file_offset_nat HODO_DATA_SIZE_eq)
    then show "file_offset (int p) = p" "file_offset (int ?flen) = ?flen"
      using pos(2) fl by (metis less_imp_le order_trans)+
  qed
  have bl: "block_of p = int st" "block_of ?flen = int e"
    using block_of_exact [OF lim(1)] block_of_exact [OF lim(2)] full(1) n0 by (simp_all add: st_def)
  have mapped: "hi_direct j hi \<noteq> 0" if "j < e" for j
    using f that e full(1) n0 by (simp add: file_ok_def)
  have st10: "st < 10" using se e by simp
  have rd: "reads_block zinv zdata K hi s j (map area (data_view (contents zdata s) hi) ! j)" if "j < e" for j
    using read_nth [OF ok ino _ mapped [OF that]] that e by simp
  obtain b1 s1 where b1: "hodo_read_nth_block K hi (int st) buf s = Some (b1, s1)" "length b1 = 4096"
    "same_store zinv zdata s s1" by (rule reads_blockE [OF rd [OF se] same_store_refl [OF ok] lb])
  have ns: "\<forall>i \<in> set [Suc st..<e]. reads_block zinv zdata K hi s i (map area (data_view (contents zdata s) hi) ! i)"
    using rd by simp
  obtain bs b2 s2 where b2: "read_blocks K hi (map int [Suc st..<e]) b1 s1 = Some (bs, b2, s2)"
    "store_ok zinv zdata mnt s2"
    using read_blocks_ok [OF ns same_storeD(1) [OF b1(3) ok] b1(3,2)] same_storeD(1) ok by blast
  have "hodo_read_nth_block K hi (int e) b2 s2 = None"
    by (rule read_nth_0 [OF b2(2) full(2) _ e]) (use inode_okD [OF ino] in simp_all)
  then show ?thesis
    unfolding read_range_def Let_def pos(1) rlen sum off bl Some upto_upt
    using b1(1) b2(1) se not_eof by simp
qed

end

end
