(* ===== verification/Hodo_File_Props.thy ===== *)
theory Hodo_File_Props
  imports Hodo_Dir_Props Hodo_File
begin

text \<open>
  What reads and writes of regular files do over the mounted zonefs, for files whose blocks are
  all direct (up to 40880 bytes): a write keeps the contents before its offset, puts the new bytes
  there and ends the file after them; a read returns the bytes asked for.
\<close>

section \<open>The setting\<close>

lemma memory_ok_write: "memory_ok K \<Longrightarrow> write_memory K"
  by (auto simp: memory_ok_def write_memory_def)

lemma file_ok_mapped: "file_ok C dl hi \<Longrightarrow> C dl \<noteq> None"
  by (simp add: file_ok_def inode_ok_def)

text \<open>An inode number that the store maps does not belong to a zone file.\<close>

lemma not_zone_file:
  assumes "hodo_ok B L cap zstart dinv zdat mnt s" "blocks zdat s (ucast ino) \<noteq> None"
  shows "\<not> (ucast ino :: u32) < starting_logical_number (mapping_info s)"
    "\<not> (ino :: u64) < ucast (starting_logical_number (mapping_info s))"
proof -
  have "starting_logical_number (mapping_info s) \<le> ucast ino"
    using assms by (intro mapped_number_ge [where zdata = "zonefs_data zdat"])
      (simp_all add: store_ok_def)
  then have le: "unat (starting_logical_number (mapping_info s)) \<le> unat (ucast ino :: u32)"
    by (simp add: word_le_nat_alt)
  then show "\<not> (ucast ino :: u32) < starting_logical_number (mapping_info s)" by (simp add: word_less_nat_alt)
  have "unat (ucast ino :: u32) \<le> unat ino" by (simp add: unsigned_ucast_eq take_bit_nat_less_eq_self)
  moreover have "unat (ucast (starting_logical_number (mapping_info s)) :: u64) =
      unat (starting_logical_number (mapping_info s))"
    by (simp add: unsigned_ucast_eq take_bit_nat_eq_self unat_u32_less order.strict_trans [OF unat_u32_less])
  ultimately show "\<not> ino < ucast (starting_logical_number (mapping_info s))"
    using le by (simp add: word_less_nat_alt)
qed

text \<open>A write request that is complete and fits the direct blocks and the device.\<close>

definition write_fits :: "vinode \<Rightarrow> kiocb \<Rightarrow> nat \<Rightarrow> bytes \<Rightarrow> iov_iter \<Rightarrow> bool" where
  "write_fits vi iocb p hi it \<longleftrightarrow>
     0 < iov_count it \<and> length (iov_data it) = iov_count it \<and> write_pos vi iocb = int p \<and>
     p \<le> unat (hi_file_len hi) \<and> p + iov_count it \<le> 10 * HODO_DATA_SIZE"

definition blocks_touched :: "nat \<Rightarrow> nat \<Rightarrow> nat" where
  "blocks_touched p n = (p + n - 1) div HODO_DATA_SIZE + 1 - p div HODO_DATA_SIZE"

lemma blocks_touched:
  assumes "0 < n"
  shows "p + n \<le> (p div HODO_DATA_SIZE + blocks_touched p n) * HODO_DATA_SIZE"
proof -
  have "p div HODO_DATA_SIZE \<le> (p + n - 1) div HODO_DATA_SIZE" using assms by (intro div_le_mono) simp
  then have e: "p div HODO_DATA_SIZE + blocks_touched p n = (p + n - 1) div HODO_DATA_SIZE + 1"
    by (simp add: blocks_touched_def)
  have "p + n - 1 < ((p + n - 1) div HODO_DATA_SIZE + 1) * HODO_DATA_SIZE"
    using dividend_less_div_times [of HODO_DATA_SIZE "p + n - 1"] by (simp add: HODO_DATA_SIZE_eq)
  then show ?thesis unfolding e using assms by simp
qed

lemma file_write:
  assumes "hodo_ok B L cap zstart dinv zdat mnt s" "file_ok (blocks zdat s) (ucast (vi_ino vi)) hi" "memory_ok K"
    and fits: "write_fits vi iocb p hi it"
    and "room_in zdat Z s (2 * blocks_touched p (iov_count it) + k)" "blocks_touched p (iov_count it) \<le> free_numbers s"
  obtains s' hi' iocb' vi' where
    "hodo_file_write_iter (zonefs_kernel B L mnt K) zw vi iocb it s =
      Some (int (iov_count it), iocb', \<lparr>iov_count = 0, iov_data = []\<rparr>, vi', s')"
    "ki_pos iocb' = int (p + iov_count it)" "vi_size vi' = int (p + iov_count it)"
    "hodo_ok B L cap zstart dinv zdat mnt s'" "file_ok (blocks zdat s') (ucast (vi_ino vi)) hi'"
    "file_data (blocks zdat s') hi' = take p (file_data (blocks zdat s) hi) @ iov_data it"
    "file_frame (blocks zdat s) (ucast (vi_ino vi)) hi (blocks zdat s') hi'"
    "room_in zdat Z s' k" "free_numbers s \<le> blocks_touched p (iov_count it) + free_numbers s'"
proof -
  have w: "write_memory (zonefs_kernel B L mnt K)" using assms(3) memory_ok_write memory_ok_zonefs by blast
  have it: "length (iov_data it) = iov_count it" "0 < iov_count it" "write_pos vi iocb = int p"
    "p \<le> unat (hi_file_len hi)" "p + iov_count it \<le> 10 * HODO_DATA_SIZE"
    using fits by (simp_all add: write_fits_def)
  obtain s' hi' iocb' vi' where l: "write_loop (zonefs_kernel B L mnt K) (iov_count it) 0 vi iocb it s =
      Some (int (iov_count it), iocb', rest_of (iov_count it) it, vi', s')"
    "ki_pos iocb' = int (p + iov_count it)" "vi_size vi' = int (p + iov_count it)"
    "wrote (zonefs_ok B L cap zstart dinv zdat) (zonefs_data zdat) mnt (ucast (vi_ino vi)) hi p (iov_data it) s hi' s'"
    "room_in zdat Z s' k" "free_numbers s \<le> blocks_touched p (iov_count it) + free_numbers s'"
    by (rule zonefs.write_loop_ok [OF assms(1,2) refl assms(5,6) w it(1,2,3,4) blocks_touched [OF it(2)] it(5)])
  have "rest_of (iov_count it) it = \<lparr>iov_count = 0, iov_data = []\<rparr>" by (simp add: rest_of_def it(1))
  then show thesis
    using that [of iocb' vi' s' hi'] l not_zone_file(2) [OF assms(1) file_ok_mapped [OF assms(2)]]
    by (simp add: hodo_file_write_iter_def hodo_sub_file_write_iter_def wrote_def)
qed


lemma file_read:
  assumes "hodo_ok B L cap zstart dinv zdat mnt s" "file_ok (blocks zdat s) (ucast ino) hi" "memory_ok K"
    and "ki_pos iocb = int p" "p < unat (hi_file_len hi)" "count < 2 ^ 64"
    and rl: "rl = min count (unat (hi_file_len hi) - p)"
    and nb: "p + rl < unat (hi_file_len hi) \<or> \<not> HODO_DATA_SIZE dvd unat (hi_file_len hi)"
  obtains s' where "hodo_file_read_iter (zonefs_kernel B L mnt K) zr ino iocb count s =
      Some (int rl, take rl (drop p (file_data (blocks zdat s) hi)), iocb\<lparr>ki_pos := int (p + rl)\<rparr>, s')"
    "same_store (zonefs_ok B L cap zstart dinv zdat) (zonefs_data zdat) s s'"
proof -
  let ?e = "(p + rl) div HODO_DATA_SIZE" and ?K = "zonefs_kernel B L mnt K"
  have le: "p + rl \<le> unat (hi_file_len hi)" using rl assms(5) by simp
  have "?e * HODO_DATA_SIZE < unat (hi_file_len hi)"
  proof (cases "p + rl < unat (hi_file_len hi)")
    case True
    then show ?thesis using div_times_less_eq_dividend [of "p + rl" HODO_DATA_SIZE] by linarith
  next
    case False
    then have "\<not> HODO_DATA_SIZE dvd p + rl" using nb le by simp
    then have "?e * HODO_DATA_SIZE \<noteq> p + rl" by (metis dvd_triv_right)
    then show ?thesis using div_times_less_eq_dividend [of "p + rl" HODO_DATA_SIZE] le by linarith
  qed
  moreover have "?e < 10"
    using calculation assms(2) by (simp add: file_ok_def HODO_DATA_SIZE_eq)
  ultimately have last: "?e < 10" "hi_direct ?e hi \<noteq> 0" using assms(2) by (simp_all add: file_ok_def)
  obtain buf where b: "k_kmalloc ?K 16 = Some buf" "length buf = 4096" using memory_okD [OF assms(3)] by auto
  have z: "length zero_block = 4096" by (simp add: zero_block_def HODO_DATABLOCK_SIZE_def)
  have c: "blocks zdat s (ucast ino) = Some hi" using assms(2) by (simp add: file_ok_def inode_ok_def)
  obtain s1 where s1: "hodo_read_struct ?K (ucast ino) zero_block HODO_DATABLOCK_SIZE s = Some (4096, hi, s1)"
    "same_store (zonefs_ok B L cap zstart dinv zdat) (zonefs_data zdat) s s1"
    "hodo_ok B L cap zstart dinv zdat mnt s1" "blocks zdat s1 = blocks zdat s"
    by (rule zonefs.read_block [OF assms(1) c z])
  have f1: "file_ok (blocks zdat s1) (ucast ino) hi" using assms(2) s1(4) by simp
  obtain s2 where s2: "read_range ?K hi iocb count s1 =
      Some (int rl, take rl (drop p (file_data (blocks zdat s) hi)), iocb\<lparr>ki_pos := int (p + rl)\<rparr>, s2)"
    "same_store (zonefs_ok B L cap zstart dinv zdat) (zonefs_data zdat) s1 s2"
    using zonefs.read_range_ok [OF s1(3) f1 b assms(4-6) rl last] s1(4) by auto
  show thesis
    by (rule that [OF _ same_store_trans [OF s1(2) s2(2)]])
      (use s1(1) s2(1) not_zone_file(1) [OF assms(1) file_ok_mapped [OF assms(2)]] in \<open>simp add: hodo_file_read_iter_def\<close>)
qed

section \<open>The numbers in use\<close>

lemma free_numbers_le: "free_numbers s \<le> NUMBER_MAPPING_TABLE_ENTRY"
proof -
  have "free_numbers s \<le> card {..<NUMBER_MAPPING_TABLE_ENTRY}" unfolding free_numbers_def by (intro card_mono) auto
  then show ?thesis by simp
qed

text \<open>A mapped number is in use.\<close>

lemma mapped_in_use:
  assumes "hodo_ok B L cap zstart dinv zdat mnt s"
  shows "card (dom (blocks zdat s)) + free_numbers s \<le> NUMBER_MAPPING_TABLE_ENTRY"
proof -
  let ?m = "mapping_info s" and ?N = NUMBER_MAPPING_TABLE_ENTRY
  let ?U = "{k. k < ?N \<and> lbit ?m k}" and ?F = "{k. k < ?N \<and> \<not> lbit ?m k}"
  have mok: "mapping_ok (zonefs_data zdat (zonefs s)) ?m" using assms by (simp add: store_ok_def)
  have "dom (blocks zdat s) \<subseteq> number_of ?m ` ?U"
  proof
    fix l assume "l \<in> dom (blocks zdat s)"
    then have lv: "live ?m (table_index ?m l)" by (auto simp: contents_def lookup_def split: if_splits)
    then have "table_index ?m l \<in> ?U" using mapping_ok_entryD(5) [OF mok lv] by (simp add: live_def)
    then show "l \<in> number_of ?m ` ?U" by (metis imageI number_of_table_index)
  qed
  then have "card (dom (blocks zdat s)) \<le> card ?U" by (rule surj_card_le [rotated]) simp
  moreover have "card ?U + card ?F = card (?U \<union> ?F)" by (rule card_Un_disjoint [symmetric]) auto
  moreover have "card (?U \<union> ?F) = card {..<?N}" by (rule arg_cong [where f = card]) auto
  ultimately show ?thesis by (simp add: free_numbers_def)
qed

section \<open>The example file\<close>

text \<open>The root inode of a new file system has no blocks and the length 0: as an object of the two
  operations it is an empty file.\<close>

definition demo_vi :: vinode where
  "demo_vi = \<lparr>vi_ino = 16, vi_size = 0, vi_mode = 0, vi_uid = 0, vi_gid = 0, vi_nlink = 1,
     vi_op = Hodo_File_Inode_Ops, vi_fop = Hodo_File_Ops, vi_atime = [], vi_mtime = [], vi_ctime = []\<rparr>"

definition demo_iocb :: kiocb where
  "demo_iocb = \<lparr>ki_pos = 0, ki_direct = False, ki_nowait = False, ki_append = False, ki_sync = True,
     ki_largefile = True, ki_rlimit = None, ki_lock_free = True\<rparr>"

text \<open>Operations of zonefs that files of hodo never reach.\<close>

definition demo_zw :: "kiocb \<Rightarrow> iov_iter \<Rightarrow> 'z \<Rightarrow> (int \<times> kiocb \<times> iov_iter) \<times> 'z" where
  "demo_zw iocb it z = ((0, iocb, it), z)"

definition demo_zr :: "kiocb \<Rightarrow> nat \<Rightarrow> 'z \<Rightarrow> (int \<times> bytes \<times> kiocb) \<times> 'z" where
  "demo_zr iocb n z = ((0, [], iocb), z)"

definition demo_iov :: "nat \<Rightarrow> iov_iter" where
  "demo_iov n = \<lparr>iov_count = n, iov_data = replicate n 0x61\<rparr>"

lemma demo_empty_file:
  obtains s hi where "demo_ok s" "file_ok (blocks (\<lambda>d. d) s) (ucast (vi_ino demo_vi)) hi"
    "hi_file_len hi = 0" "room (\<lambda>d. d) s 100" "100 \<le> free_numbers s" "file_data (blocks (\<lambda>d. d) s) hi = []"
proof -
  obtain s root where s: "demo_ok s" "inode_ok (blocks (\<lambda>d. d) s) 16 root" "room (\<lambda>d. d) s 65535" "1048575 \<le> free_numbers s"
    "hi_file_len root = 0" by (rule demo_root)
  have "room (\<lambda>d. d) s 100" by (rule wp_room_mono [OF s(3)]) simp
  moreover have "file_ok (blocks (\<lambda>d. d) s) (ucast (vi_ino demo_vi)) root"
    using s(2,5) by (simp add: file_ok_def demo_vi_def)
  moreover have "file_data (blocks (\<lambda>d. d) s) root = []" by (simp add: file_data_def s(5))
  ultimately show thesis using that s(1,4,5) by simp
qed

lemma demo_fits: "0 < n \<Longrightarrow> n \<le> 40880 \<Longrightarrow> hi_file_len hi = 0 \<Longrightarrow> write_fits demo_vi demo_iocb 0 hi (demo_iov n)"
  by (simp add: write_fits_def demo_iov_def write_pos_def demo_iocb_def HODO_DATA_SIZE_eq)

text \<open>After a first write of \<open>n\<close> bytes.\<close>

lemma demo_written:
  assumes n: "0 < n" "n \<le> 40880" and few: "blocks_touched 0 n \<le> 10"
  obtains s hi where "demo_ok s" "file_ok (blocks (\<lambda>d. d) s) (ucast (vi_ino demo_vi)) hi"
    "file_data (blocks (\<lambda>d. d) s) hi = replicate n 0x61" "unat (hi_file_len hi) = n"
    "room (\<lambda>d. d) s 40" "40 \<le> free_numbers s"
proof -
  obtain s0 hi0 where s0: "demo_ok s0" "file_ok (blocks (\<lambda>d. d) s0) (ucast (vi_ino demo_vi)) hi0"
    "hi_file_len hi0 = 0" "room (\<lambda>d. d) s0 100" "100 \<le> free_numbers s0" "file_data (blocks (\<lambda>d. d) s0) hi0 = []"
    by (rule demo_empty_file)
  have r: "room (\<lambda>d. d) s0 (2 * blocks_touched 0 (iov_count (demo_iov n)) + 40)"
    using s0(4) few by (intro wp_room_mono [OF s0(4)]) (simp add: demo_iov_def)
  have fr: "blocks_touched 0 (iov_count (demo_iov n)) \<le> free_numbers s0"
    using few s0(5) by (simp add: demo_iov_def)
  obtain s' hi' where s': "demo_ok s'" "file_ok (blocks (\<lambda>d. d) s') (ucast (vi_ino demo_vi)) hi'"
    "file_data (blocks (\<lambda>d. d) s') hi' = take 0 (file_data (blocks (\<lambda>d. d) s0) hi0) @ iov_data (demo_iov n)"
    "room (\<lambda>d. d) s' 40" "free_numbers s0 \<le> blocks_touched 0 (iov_count (demo_iov n)) + free_numbers s'"
    using file_write [OF s0(1,2) demo_memory demo_fits [OF n s0(3)] r fr] by metis
  have d: "file_data (blocks (\<lambda>d. d) s') hi' = replicate n 0x61" using s'(3) by (simp add: demo_iov_def)
  show thesis
    by (rule that [OF s'(1,2) d _ s'(4)])
      (use length_file_data [OF s'(2)] d s'(5) few s0(5) in \<open>simp_all add: demo_iov_def\<close>)
qed


section \<open>Properties of regular files\<close>

text \<open>A write implements the reference update of the contents: the bytes before the offset
  stay, the new bytes follow and end the file. The loop returns, with the whole count; the offset
  and the size of the VFS inode end behind the data; and the blocks of other files stay as they
  are.\<close>

theorem write_refines_contents:
  assumes "hodo_ok B L cap zstart dinv zdat mnt s" "file_ok (blocks zdat s) (ucast (vi_ino vi)) hi" "memory_ok K"
    and "write_fits vi iocb p hi it" "m = blocks_touched p (iov_count it)"
    and "room zdat s (2 * m)" "m \<le> free_numbers s"
  shows "\<exists>s' hi' iocb' vi'.
    hodo_file_write_iter (zonefs_kernel B L mnt K) zw vi iocb it s =
      Some (int (iov_count it), iocb', \<lparr>iov_count = 0, iov_data = []\<rparr>, vi', s') \<and>
    ki_pos iocb' = int (p + iov_count it) \<and> vi_size vi' = int (p + iov_count it) \<and>
    hodo_ok B L cap zstart dinv zdat mnt s' \<and> file_ok (blocks zdat s') (ucast (vi_ino vi)) hi' \<and>
    file_data (blocks zdat s') hi' = take p (file_data (blocks zdat s) hi) @ iov_data it \<and>
    file_frame (blocks zdat s) (ucast (vi_ino vi)) hi (blocks zdat s') hi'"
proof -
  have r: "room zdat s (2 * blocks_touched p (iov_count it) + 0)" using assms(5,6) by simp
  show ?thesis
    by (rule file_write [OF assms(1-4) r assms(7) [unfolded assms(5)], where zw = zw]) blast
qed

theorem write_refines_contents_witness:
  "\<exists>s s' hi' iocb' vi'. demo_ok s \<and>
     hodo_file_write_iter demo_K demo_zw demo_vi demo_iocb (demo_iov 5000) s =
       Some (5000, iocb', \<lparr>iov_count = 0, iov_data = []\<rparr>, vi', s') \<and>
     file_data (blocks (\<lambda>d. d) s') hi' = replicate 5000 0x61"
proof -
  obtain s hi where s: "demo_ok s" "file_ok (blocks (\<lambda>d. d) s) (ucast (vi_ino demo_vi)) hi"
    "hi_file_len hi = 0" "room (\<lambda>d. d) s 100" "100 \<le> free_numbers s" "file_data (blocks (\<lambda>d. d) s) hi = []"
    by (rule demo_empty_file)
  have m: "2 = blocks_touched 0 (iov_count (demo_iov 5000))"
    by (simp add: blocks_touched_def demo_iov_def HODO_DATA_SIZE_eq)
  have r: "room (\<lambda>d. d) s (2 * 2)" by (rule wp_room_mono [OF s(4)]) simp
  have f: "2 \<le> free_numbers s" using s(5) by simp
  have w: "write_fits demo_vi demo_iocb 0 hi (demo_iov 5000)" by (rule demo_fits) (use s(3) in simp_all)
  from write_refines_contents [OF s(1,2) demo_memory w m r f, of demo_zw] show ?thesis
    using s(1,6) by (simp add: demo_iov_def) blast
qed

text \<open>An append keeps the contents and adds the new bytes at the end.\<close>

theorem append_extends_contents:
  assumes "hodo_ok B L cap zstart dinv zdat mnt s" "file_ok (blocks zdat s) (ucast (vi_ino vi)) hi" "memory_ok K"
    and "ki_append iocb" "vi_size vi = int p" "p = unat (hi_file_len hi)" "write_fits vi iocb p hi it"
    and "m = blocks_touched p (iov_count it)" "room zdat s (2 * m)" "m \<le> free_numbers s"
  shows "\<exists>s' hi' iocb' vi'.
    hodo_file_write_iter (zonefs_kernel B L mnt K) zw vi iocb it s =
      Some (int (iov_count it), iocb', \<lparr>iov_count = 0, iov_data = []\<rparr>, vi', s') \<and>
    file_data (blocks zdat s') hi' = file_data (blocks zdat s) hi @ iov_data it"
proof -
  have r: "room zdat s (2 * blocks_touched p (iov_count it) + 0)" using assms(8,9) by simp
  have "take p (file_data (blocks zdat s) hi) = file_data (blocks zdat s) hi"
    using length_file_data [OF assms(2)] assms(6) by simp
  then show ?thesis
    using file_write [OF assms(1-3,7) r assms(10) [unfolded assms(8)], where zw = zw] by metis
qed

theorem append_extends_contents_witness:
  "\<exists>s s' hi hi' iocb' vi'. demo_ok s \<and> file_data (blocks (\<lambda>d. d) s) hi = replicate 10 0x61 \<and>
     hodo_file_write_iter demo_K demo_zw (demo_vi\<lparr>vi_size := 10\<rparr>) (demo_iocb\<lparr>ki_append := True\<rparr>) (demo_iov 20) s =
       Some (20, iocb', \<lparr>iov_count = 0, iov_data = []\<rparr>, vi', s') \<and>
     file_data (blocks (\<lambda>d. d) s') hi' = replicate 10 0x61 @ replicate 20 0x61"
proof -
  have n: "0 < (10 :: nat)" "(10 :: nat) \<le> 40880" by simp_all
  have b: "blocks_touched 0 10 \<le> 10" by (simp add: blocks_touched_def HODO_DATA_SIZE_eq)
  obtain s hi where s: "demo_ok s" "file_ok (blocks (\<lambda>d. d) s) (ucast (vi_ino demo_vi)) hi"
    "file_data (blocks (\<lambda>d. d) s) hi = replicate 10 0x61" "unat (hi_file_len hi) = 10"
    "room (\<lambda>d. d) s 40" "40 \<le> free_numbers s" by (rule demo_written [OF n b])
  let ?vi = "demo_vi\<lparr>vi_size := 10\<rparr>" and ?io = "demo_iocb\<lparr>ki_append := True\<rparr>"
  have f: "file_ok (blocks (\<lambda>d. d) s) (ucast (vi_ino ?vi)) hi" using s(2) by simp
  have a: "ki_append ?io" "vi_size ?vi = int 10" "10 = unat (hi_file_len hi)" using s(4) by simp_all
  have w: "write_fits ?vi ?io 10 hi (demo_iov 20)"
    using s(4) by (simp add: write_fits_def demo_iov_def write_pos_def HODO_DATA_SIZE_eq)
  have m: "1 = blocks_touched 10 (iov_count (demo_iov 20))"
    by (simp add: blocks_touched_def demo_iov_def HODO_DATA_SIZE_eq)
  have r: "room (\<lambda>d. d) s (2 * 1)" by (rule wp_room_mono [OF s(5)]) simp
  have fr: "1 \<le> free_numbers s" using s(6) by simp
  from append_extends_contents [OF s(1) f demo_memory a w m r fr, of demo_zw] show ?thesis
    using s(1,3) by (simp add: demo_iov_def) blast
qed

text \<open>The block in which a read ends has been written, unless the file is a sequence of full blocks
  that the read exhausts.\<close>

definition read_stays_inside :: "nat \<Rightarrow> nat \<Rightarrow> bytes \<Rightarrow> bool" where
  "read_stays_inside p count hi \<longleftrightarrow>
     p + count < unat (hi_file_len hi) \<or> unat (hi_file_len hi) \<le> p \<or> \<not> HODO_DATA_SIZE dvd unat (hi_file_len hi)"

lemma file_read_any:
  assumes ok: "hodo_ok B L cap zstart dinv zdat mnt s" and f: "file_ok (blocks zdat s) (ucast ino) hi"
    and K: "memory_ok K" and pos: "ki_pos iocb = int p" "p < 2 ^ 63" "count < 2 ^ 64"
    and nb: "read_stays_inside p count hi"
  obtains s' where "hodo_file_read_iter (zonefs_kernel B L mnt K) zr ino iocb count s =
      Some (int (min count (unat (hi_file_len hi) - p)), take count (drop p (file_data (blocks zdat s) hi)),
        iocb\<lparr>ki_pos := int (p + min count (unat (hi_file_len hi) - p))\<rparr>, s')"
    "blocks zdat s' = blocks zdat s" "hodo_ok B L cap zstart dinv zdat mnt s'"
    "same_store (zonefs_ok B L cap zstart dinv zdat) (zonefs_data zdat) s s'"
proof -
  let ?flen = "unat (hi_file_len hi)" and ?d = "file_data (blocks zdat s) hi"
  note l = length_file_data [OF f]
  show thesis
  proof (cases "p < ?flen")
    case True
    define rl where "rl = min count (?flen - p)"
    have nb': "p + rl < ?flen \<or> \<not> HODO_DATA_SIZE dvd ?flen"
      using nb True by (auto simp: read_stays_inside_def rl_def min_def)
    obtain s' where s': "hodo_file_read_iter (zonefs_kernel B L mnt K) zr ino iocb count s =
        Some (int rl, take rl (drop p ?d), iocb\<lparr>ki_pos := int (p + rl)\<rparr>, s')"
      "same_store (zonefs_ok B L cap zstart dinv zdat) (zonefs_data zdat) s s'"
      by (rule file_read [OF ok f K pos(1) True pos(3) rl_def nb'])
    have "take rl (drop p ?d) = take count (drop p ?d)" using l by (simp add: rl_def min_def)
    then show thesis using that s'(1) same_storeD(1,2) [OF s'(2)] ok s'(2) unfolding rl_def by metis
  next
    case False
    have z: "length zero_block = 4096" by (simp add: zero_block_def HODO_DATABLOCK_SIZE_def)
    have c: "blocks zdat s (ucast ino) = Some hi" using f by (simp add: file_ok_def inode_ok_def)
    obtain s1 where s1: "hodo_read_struct (zonefs_kernel B L mnt K) (ucast ino) zero_block HODO_DATABLOCK_SIZE s =
        Some (4096, hi, s1)" "same_store (zonefs_ok B L cap zstart dinv zdat) (zonefs_data zdat) s s1"
      "hodo_ok B L cap zstart dinv zdat mnt s1" "blocks zdat s1 = blocks zdat s"
      by (rule zonefs.read_block [OF ok c z])
    have "hi_file_len hi \<le> of_nat p" using False pos(2) by (simp add: word_le_nat_alt unat_of_nat)
    moreover have "iocb\<lparr>ki_pos := int p\<rparr> = iocb" using pos(1) by simp
    ultimately show thesis
      using that [of s1] s1 False pos(1) l not_zone_file(1) [OF ok file_ok_mapped [OF f]]
      by (simp add: hodo_file_read_iter_def read_range_def Let_def)
  qed
qed

lemma read_behind_end:
  assumes "hodo_ok B L cap zstart dinv zdat mnt s" "file_ok (blocks zdat s) (ucast ino) hi" "memory_ok K"
    and "ki_pos iocb = int p" "unat (hi_file_len hi) \<le> p" "p < 2 ^ 63" "count < 2 ^ 64"
  shows "\<exists>s'. hodo_file_read_iter (zonefs_kernel B L mnt K) zr ino iocb count s = Some (0, [], iocb, s')"
proof -
  have i: "iocb\<lparr>ki_pos := int p\<rparr> = iocb" using assms(4) by simp
  have nb: "read_stays_inside p count hi" using assms(5) by (simp add: read_stays_inside_def)
  obtain s' where "hodo_file_read_iter (zonefs_kernel B L mnt K) zr ino iocb count s =
      Some (int (min count (unat (hi_file_len hi) - p)), take count (drop p (file_data (blocks zdat s) hi)),
        iocb\<lparr>ki_pos := int (p + min count (unat (hi_file_len hi) - p))\<rparr>, s')"
    by (rule file_read_any [OF assms(1-4) assms(6,7) nb])
  then show ?thesis using assms(5) length_file_data [OF assms(2)] i by auto
qed

text \<open>C39: a write into the middle of a file loses everything behind the written range. The inode block
  stored under the number of the file afterwards says that the file ends with the written bytes,
  its data are the old bytes before the write followed by the new ones, which is not the old file
  with the written range replaced, and a read behind the written range returns no bytes, even
  where the file had bytes before.\<close>

theorem overwrite_drops_tail:
  assumes "hodo_ok B L cap zstart dinv zdat mnt s" "file_ok (blocks zdat s) (ucast (vi_ino vi)) hi" "memory_ok K"
    and "write_fits vi iocb p hi it" "m = blocks_touched p (iov_count it)"
    and "room zdat s (2 * m)" "m \<le> free_numbers s" "p + iov_count it < unat (hi_file_len hi)"
  shows "\<exists>s' hi' iocb' vi'.
    hodo_file_write_iter (zonefs_kernel B L mnt K) zw vi iocb it s =
      Some (int (iov_count it), iocb', \<lparr>iov_count = 0, iov_data = []\<rparr>, vi', s') \<and>
    vi_size vi' = int (p + iov_count it) \<and>
    blocks zdat s' (ucast (vi_ino vi)) = Some hi' \<and> file_ok (blocks zdat s') (ucast (vi_ino vi)) hi' \<and>
    unat (hi_file_len hi') = p + iov_count it \<and>
    file_data (blocks zdat s') hi' = take p (file_data (blocks zdat s) hi) @ iov_data it \<and>
    file_data (blocks zdat s') hi' \<noteq> put_bytes p (iov_data it) (file_data (blocks zdat s) hi) \<and>
    (\<forall>io q count. ki_pos io = int q \<longrightarrow> p + iov_count it \<le> q \<longrightarrow> q < 2 ^ 63 \<longrightarrow> count < 2 ^ 64 \<longrightarrow>
      (\<exists>s''. hodo_file_read_iter (zonefs_kernel B L mnt K) zr (vi_ino vi) io count s' = Some (0, [], io, s'')))"
proof -
  have r: "room zdat s (2 * blocks_touched p (iov_count it) + 0)" using assms(5,6) by simp
  have it: "length (iov_data it) = iov_count it" "p \<le> unat (hi_file_len hi)"
    using assms(4) by (simp_all add: write_fits_def)
  obtain s' hi' iocb' vi' where s':
    "hodo_file_write_iter (zonefs_kernel B L mnt K) zw vi iocb it s =
      Some (int (iov_count it), iocb', \<lparr>iov_count = 0, iov_data = []\<rparr>, vi', s')"
    "vi_size vi' = int (p + iov_count it)" "hodo_ok B L cap zstart dinv zdat mnt s'"
    "file_ok (blocks zdat s') (ucast (vi_ino vi)) hi'"
    "file_data (blocks zdat s') hi' = take p (file_data (blocks zdat s) hi) @ iov_data it"
    using file_write [OF assms(1-4) r assms(7) [unfolded assms(5)], where zw = zw] by metis
  note l = length_file_data [OF assms(2)] length_file_data [OF s'(4)]
  have len: "unat (hi_file_len hi') = p + iov_count it" using l s'(5) it by simp
  have "length (put_bytes p (iov_data it) (file_data (blocks zdat s) hi)) = unat (hi_file_len hi)"
    using l it assms(8) by (simp add: length_put_bytes)
  then have ne: "file_data (blocks zdat s') hi' \<noteq> put_bytes p (iov_data it) (file_data (blocks zdat s) hi)"
    using l len assms(8) by (metis less_irrefl)
  have st: "blocks zdat s' (ucast (vi_ino vi)) = Some hi'" using s'(4) by (simp add: file_ok_def inode_ok_def)
  have rd: "\<exists>s''. hodo_file_read_iter (zonefs_kernel B L mnt K) zr (vi_ino vi) io count s' = Some (0, [], io, s'')"
    if "ki_pos io = int q" "p + iov_count it \<le> q" "q < 2 ^ 63" "count < 2 ^ 64" for io q count
    by (rule read_behind_end [OF s'(3,4) assms(3) that(1) _ that(3,4), where zr = zr]) (use len that(2) in simp_all)
  show ?thesis using s'(1,2,4,5) st len ne rd by blast
qed

theorem overwrite_drops_tail_witness:
  "\<exists>s s' hi hi' iocb' vi'. demo_ok s \<and> file_data (blocks (\<lambda>d. d) s) hi = replicate 5000 0x61 \<and>
     hodo_file_write_iter demo_K demo_zw demo_vi demo_iocb (demo_iov 10) s =
       Some (10, iocb', \<lparr>iov_count = 0, iov_data = []\<rparr>, vi', s') \<and>
     blocks (\<lambda>d. d) s' (ucast (vi_ino demo_vi)) = Some hi' \<and> unat (hi_file_len hi') = 10 \<and>
     (\<exists>s''. hodo_file_read_iter demo_K demo_zr (vi_ino demo_vi) (demo_iocb\<lparr>ki_pos := 20\<rparr>) 100 s' =
       Some (0, [], demo_iocb\<lparr>ki_pos := 20\<rparr>, s''))"
proof -
  have n: "0 < (5000 :: nat)" "(5000 :: nat) \<le> 40880" by simp_all
  have b: "blocks_touched 0 5000 \<le> 10" by (simp add: blocks_touched_def HODO_DATA_SIZE_eq)
  obtain s hi where s: "demo_ok s" "file_ok (blocks (\<lambda>d. d) s) (ucast (vi_ino demo_vi)) hi"
    "file_data (blocks (\<lambda>d. d) s) hi = replicate 5000 0x61" "unat (hi_file_len hi) = 5000"
    "room (\<lambda>d. d) s 40" "40 \<le> free_numbers s" by (rule demo_written [OF n b])
  have w: "write_fits demo_vi demo_iocb 0 hi (demo_iov 10)"
    by (simp add: write_fits_def demo_iov_def write_pos_def demo_iocb_def HODO_DATA_SIZE_eq)
  have m: "1 = blocks_touched 0 (iov_count (demo_iov 10))"
    by (simp add: blocks_touched_def demo_iov_def HODO_DATA_SIZE_eq)
  have r: "room (\<lambda>d. d) s (2 * 1)" by (rule wp_room_mono [OF s(5)]) simp
  have fr: "1 \<le> free_numbers s" using s(6) by simp
  have lt: "0 + iov_count (demo_iov 10) < unat (hi_file_len hi)" using s(4) by (simp add: demo_iov_def)
  obtain s' hi' iocb' vi' where t: "hodo_file_write_iter demo_K demo_zw demo_vi demo_iocb (demo_iov 10) s =
      Some (int (iov_count (demo_iov 10)), iocb', \<lparr>iov_count = 0, iov_data = []\<rparr>, vi', s')"
    "blocks (\<lambda>d. d) s' (ucast (vi_ino demo_vi)) = Some hi'" "unat (hi_file_len hi') = 0 + iov_count (demo_iov 10)"
    "\<forall>io q count. ki_pos io = int q \<longrightarrow> 0 + iov_count (demo_iov 10) \<le> q \<longrightarrow> q < 2 ^ 63 \<longrightarrow> count < 2 ^ 64 \<longrightarrow>
      (\<exists>s''. hodo_file_read_iter demo_K demo_zr (vi_ino demo_vi) io count s' = Some (0, [], io, s''))"
    using overwrite_drops_tail [OF s(1,2) demo_memory w m r fr lt, of demo_zw demo_zr] by blast
  have i: "iov_count (demo_iov 10) = 10" by (simp add: demo_iov_def)
  have "\<exists>s''. hodo_file_read_iter demo_K demo_zr (vi_ino demo_vi) (demo_iocb\<lparr>ki_pos := 20\<rparr>) 100 s' =
      Some (0, [], demo_iocb\<lparr>ki_pos := 20\<rparr>, s'')"
    using spec [OF spec [OF spec [OF t(4)]], of "demo_iocb\<lparr>ki_pos := 20\<rparr>" 20 100] by (simp add: i)
  then show ?thesis using s(1,3) t(1-3) unfolding i by auto
qed

text \<open>A read returns the bytes of the file from the offset on, as many as were asked for and
  are there, none at or behind the end; it advances the offset by that number and changes no
  block.\<close>

theorem read_returns_contents:
  assumes "hodo_ok B L cap zstart dinv zdat mnt s" "file_ok (blocks zdat s) (ucast ino) hi" "memory_ok K"
    and "ki_pos iocb = int p" "p < 2 ^ 63" "count < 2 ^ 64" "read_stays_inside p count hi"
  shows "\<exists>s' n. hodo_file_read_iter (zonefs_kernel B L mnt K) zr ino iocb count s =
      Some (int n, take count (drop p (file_data (blocks zdat s) hi)), iocb\<lparr>ki_pos := int (p + n)\<rparr>, s') \<and>
    n = length (take count (drop p (file_data (blocks zdat s) hi))) \<and>
    blocks zdat s' = blocks zdat s \<and> hodo_ok B L cap zstart dinv zdat mnt s'"
proof -
  have "min count (unat (hi_file_len hi) - p) = length (take count (drop p (file_data (blocks zdat s) hi)))"
    using length_file_data [OF assms(2)] by (simp add: min.commute)
  then show ?thesis using file_read_any [OF assms, where zr = zr] by metis
qed

theorem read_returns_contents_witness:
  "\<exists>s s' iocb'. demo_ok s \<and>
     hodo_file_read_iter demo_K demo_zr 16 (demo_iocb\<lparr>ki_pos := 4080\<rparr>) 5000 s = Some (920, replicate 920 0x61, iocb', s')"
proof -
  have n: "0 < (5000 :: nat)" "(5000 :: nat) \<le> 40880" by simp_all
  have b: "blocks_touched 0 5000 \<le> 10" by (simp add: blocks_touched_def HODO_DATA_SIZE_eq)
  obtain s hi where s: "demo_ok s" "file_ok (blocks (\<lambda>d. d) s) (ucast (vi_ino demo_vi)) hi"
    "file_data (blocks (\<lambda>d. d) s) hi = replicate 5000 0x61" "unat (hi_file_len hi) = 5000"
    by (rule demo_written [OF n b])
  have f: "file_ok (blocks (\<lambda>d. d) s) (ucast (16 :: u64)) hi" using s(2) by (simp add: demo_vi_def)
  let ?io = "demo_iocb\<lparr>ki_pos := 4080\<rparr>"
  have p: "ki_pos ?io = int 4080" "(4080 :: nat) < 2 ^ 63" "(5000 :: nat) < 2 ^ 64" by simp_all
  have i: "read_stays_inside 4080 5000 hi" by (simp add: read_stays_inside_def s(4) HODO_DATA_SIZE_eq)
  from read_returns_contents [OF s(1) f demo_memory p i, of demo_zr] show ?thesis
    using s(1) unfolding s(3) by (auto simp: min_def)
qed

text \<open>What was written can be read back: after a write at offset \<open>p\<close> that does not end on a
  block boundary, a read of the written range returns exactly the new bytes.\<close>

theorem file_write_read:
  assumes "hodo_ok B L cap zstart dinv zdat mnt s" "file_ok (blocks zdat s) (ucast (vi_ino vi)) hi" "memory_ok K"
    and "write_fits vi iocb p hi it" "m = blocks_touched p (iov_count it)"
    and "room zdat s (2 * m)" "m \<le> free_numbers s" "\<not> HODO_DATA_SIZE dvd p + iov_count it"
  shows "\<exists>s1 iocb1 vi1 it1 s2 iocb2.
    hodo_file_write_iter (zonefs_kernel B L mnt K) zw vi iocb it s = Some (int (iov_count it), iocb1, it1, vi1, s1) \<and>
    hodo_file_read_iter (zonefs_kernel B L mnt K) zr (vi_ino vi) (iocb\<lparr>ki_pos := int p\<rparr>) (iov_count it) s1 =
      Some (int (iov_count it), iov_data it, iocb2, s2)"
proof -
  have r: "room zdat s (2 * blocks_touched p (iov_count it) + 0)" using assms(5,6) by simp
  have it: "length (iov_data it) = iov_count it" "p \<le> unat (hi_file_len hi)" "p + iov_count it \<le> 40880"
    using assms(4) by (simp_all add: write_fits_def HODO_DATA_SIZE_eq)
  obtain s1 hi1 iocb1 vi1 where s1: "hodo_file_write_iter (zonefs_kernel B L mnt K) zw vi iocb it s =
      Some (int (iov_count it), iocb1, \<lparr>iov_count = 0, iov_data = []\<rparr>, vi1, s1)"
    "hodo_ok B L cap zstart dinv zdat mnt s1" "file_ok (blocks zdat s1) (ucast (vi_ino vi)) hi1"
    "file_data (blocks zdat s1) hi1 = take p (file_data (blocks zdat s) hi) @ iov_data it"
    using file_write [OF assms(1-4) r assms(7) [unfolded assms(5)], where zw = zw] by metis
  note l = length_file_data [OF assms(2)] length_file_data [OF s1(3)]
  have l1: "unat (hi_file_len hi1) = p + iov_count it" using l s1(4) it by simp
  have d: "take (iov_count it) (drop p (file_data (blocks zdat s1) hi1)) = iov_data it"
    using l(1) s1(4) it by simp
  have p: "ki_pos (iocb\<lparr>ki_pos := int p\<rparr>) = int p" "p < 2 ^ 63" "iov_count it < 2 ^ 64" using it by simp_all
  have i: "read_stays_inside p (iov_count it) hi1" using assms(8) l1 by (simp add: read_stays_inside_def)
  have n: "min (iov_count it) (unat (hi_file_len hi1) - p) = iov_count it" using l1 by simp
  obtain s2 where "hodo_file_read_iter (zonefs_kernel B L mnt K) zr (vi_ino vi) (iocb\<lparr>ki_pos := int p\<rparr>) (iov_count it) s1 =
      Some (int (iov_count it), iov_data it, iocb\<lparr>ki_pos := int p\<rparr>\<lparr>ki_pos := int (p + iov_count it)\<rparr>, s2)"
    using file_read_any [OF s1(2,3) assms(3) p i, where zr = zr] unfolding n d by metis
  then show ?thesis using s1(1) by blast
qed

theorem file_write_read_witness:
  "\<exists>s s1 iocb1 vi1 it1 s2 iocb2. demo_ok s \<and>
     hodo_file_write_iter demo_K demo_zw demo_vi demo_iocb (demo_iov 5000) s = Some (5000, iocb1, it1, vi1, s1) \<and>
     hodo_file_read_iter demo_K demo_zr 16 (demo_iocb\<lparr>ki_pos := 0\<rparr>) 5000 s1 = Some (5000, replicate 5000 0x61, iocb2, s2)"
proof -
  obtain s hi where s: "demo_ok s" "file_ok (blocks (\<lambda>d. d) s) (ucast (vi_ino demo_vi)) hi"
    "hi_file_len hi = 0" "room (\<lambda>d. d) s 100" "100 \<le> free_numbers s" "file_data (blocks (\<lambda>d. d) s) hi = []"
    by (rule demo_empty_file)
  have m: "2 = blocks_touched 0 (iov_count (demo_iov 5000))"
    by (simp add: blocks_touched_def demo_iov_def HODO_DATA_SIZE_eq)
  have r: "room (\<lambda>d. d) s (2 * 2)" by (rule wp_room_mono [OF s(4)]) simp
  have f: "2 \<le> free_numbers s" using s(5) by simp
  have w: "write_fits demo_vi demo_iocb 0 hi (demo_iov 5000)" by (rule demo_fits) (use s(3) in simp_all)
  have b: "\<not> HODO_DATA_SIZE dvd 0 + iov_count (demo_iov 5000)" by (simp add: demo_iov_def HODO_DATA_SIZE_eq)
  from file_write_read [OF s(1,2) demo_memory w m r f b, of demo_zw demo_zr] show ?thesis
    using s(1) by (simp add: demo_iov_def demo_vi_def) blast
qed

text \<open>C40: a read that reaches the end of a file of full blocks looks for the block behind them. Its
  pointer is 0, which is no index of the mapping table: the access is out of bounds.\<close>

theorem read_at_block_boundary_faults:
  assumes "hodo_ok B L cap zstart dinv zdat mnt s" "file_ok (blocks zdat s) (ucast ino) hi" "memory_ok K"
    and "ki_pos iocb = int p" "p < unat (hi_file_len hi)" "unat (hi_file_len hi) \<le> p + count" "count < 2 ^ 64"
    and "unat (hi_file_len hi) = e * HODO_DATA_SIZE" "e = 10 \<or> hi_direct e hi = 0"
  shows "hodo_file_read_iter (zonefs_kernel B L mnt K) zr ino iocb count s = None"
proof -
  have z: "length zero_block = 4096" by (simp add: zero_block_def HODO_DATABLOCK_SIZE_def)
  have c: "blocks zdat s (ucast ino) = Some hi" using assms(2) by (simp add: file_ok_def inode_ok_def)
  obtain s1 where s1: "hodo_read_struct (zonefs_kernel B L mnt K) (ucast ino) zero_block HODO_DATABLOCK_SIZE s =
      Some (4096, hi, s1)" "hodo_ok B L cap zstart dinv zdat mnt s1" "blocks zdat s1 = blocks zdat s"
    by (rule zonefs.read_block [OF assms(1) c z])
  have f1: "file_ok (blocks zdat s1) (ucast ino) hi" using assms(2) s1(3) by simp
  have k: "length buf = 4096" if "k_kmalloc (zonefs_kernel B L mnt K) 16 = Some buf" for buf
    using that memory_okD [OF assms(3), of 16] by (metis option.inject zonefs_kernel_simps(1))
  have d: "hi_direct e hi = 0" if "e < 10" using assms(9) that by auto
  have "read_range (zonefs_kernel B L mnt K) hi iocb count s1 = None"
    by (rule zonefs.read_boundary_faults [OF s1(2) f1 assms(4-8) d k])
  then show ?thesis
    using s1(1) not_zone_file(1) [OF assms(1) file_ok_mapped [OF assms(2)]] by (simp add: hodo_file_read_iter_def)
qed

theorem read_at_block_boundary_faults_witness:
  "\<exists>s hi. demo_ok s \<and> file_data (blocks (\<lambda>d. d) s) hi = replicate 40880 0x61 \<and>
     hodo_file_read_iter demo_K demo_zr 16 demo_iocb 40880 s = None"
proof -
  have n: "0 < (40880 :: nat)" "(40880 :: nat) \<le> 40880" by simp_all
  have b: "blocks_touched 0 40880 \<le> 10" by (simp add: blocks_touched_def HODO_DATA_SIZE_eq)
  obtain s hi where s: "demo_ok s" "file_ok (blocks (\<lambda>d. d) s) (ucast (vi_ino demo_vi)) hi"
    "file_data (blocks (\<lambda>d. d) s) hi = replicate 40880 0x61" "unat (hi_file_len hi) = 40880"
    by (rule demo_written [OF n b])
  have f: "file_ok (blocks (\<lambda>d. d) s) (ucast (16 :: u64)) hi" using s(2) by (simp add: demo_vi_def)
  have p: "ki_pos demo_iocb = int 0" "0 < unat (hi_file_len hi)" "unat (hi_file_len hi) \<le> 0 + 40880"
    "(40880 :: nat) < 2 ^ 64" using s(4) by (simp_all add: demo_iocb_def)
  have e: "unat (hi_file_len hi) = 10 * HODO_DATA_SIZE" "(10 :: nat) = 10 \<or> hi_direct 10 hi = 0"
    using s(4) by (simp_all add: HODO_DATA_SIZE_eq)
  from read_at_block_boundary_faults [OF s(1) f demo_memory p e] show ?thesis using s(1,3) by blast
qed

end
