(* ===== verification/Hodo_GC.thy ===== *)
theory Hodo_GC
  imports Hodo_Dir_Props
begin

text \<open>
  The garbage collector \<open>GC\<close> of \<open>trans.c\<close>: it moves the valid blocks of the data zones to the
  swap zone, empties the first data zone, moves them back to its beginning, and empties the
  other data zones.

  The loop over the valid blocks is a \<open>partial_function\<close>; that it ends is part of the theorem.
  Debug counters and messages are left out.
\<close>

section \<open>The collector\<close>

definition GC_timing :: int where "GC_timing = 1"

text \<open>\<open>scnprintf\<close> into \<open>path_buf[32]\<close> cuts a long path off; an unresolved path is only reported.\<close>

definition gc_zone_path :: "string \<Rightarrow> nat \<Rightarrow> string" where
  "gc_zone_path mnt z = take 31 (mnt @ ''/seq/'' @ dec_string z)"

definition gc_reset_zone :: "'z kernel \<Rightarrow> nat \<Rightarrow> 'z hodo_state \<Rightarrow> 'z hodo_state" where
  "gc_reset_zone K z s =
     (case zf_path K (gc_zone_path (mount_point_path s) z) (zonefs s) of
        None \<Rightarrow> s
      | Some i \<Rightarrow> s\<lparr>zonefs := snd (zf_truncate K i 0 (zonefs s))\<rparr>)"

text \<open>One round of the loops that write the swap zone back; \<open>tmp\<close> is the shared buffer.\<close>

definition gc_copy_block ::
  "'z kernel \<Rightarrow> hodo_block_pos \<Rightarrow> bytes \<Rightarrow> 'z hodo_state \<Rightarrow> (bytes \<times> 'z hodo_state) option"
where
  "gc_copy_block K p tmp s =
     do {
       (r, t, s1) \<leftarrow> hodo_GC_read_struct K p tmp HODO_DATABLOCK_SIZE s;
       (w, t', l, s2) \<leftarrow> hodo_write_struct K t HODO_DATABLOCK_SIZE (block_number t) s1;
       Some (t', s2)
     }"

fun gc_copy_back ::
  "'z kernel \<Rightarrow> nat \<Rightarrow> nat list \<Rightarrow> bytes \<Rightarrow> 'z hodo_state \<Rightarrow> (bytes \<times> 'z hodo_state) option"
where
  "gc_copy_back K zone [] tmp s = Some (tmp, s)"
| "gc_copy_back K zone (b # bs) tmp s =
     do { (t, s1) \<leftarrow> gc_copy_block K (mk_pos zone b) tmp s; gc_copy_back K zone bs t s1 }"

text \<open>
  Emptying the zone of the write pointer, writing the blocks \<open>bs\<close> of the swap zone there, and
  emptying the swap zone. Nothing in the loop assigns \<open>swap_wp\<close>, so its bound is fixed.
\<close>

definition gc_swap_out ::
  "'z kernel \<Rightarrow> nat list \<Rightarrow> bytes \<Rightarrow> 'z hodo_state \<Rightarrow> (bytes \<times> 'z hodo_state) option"
where
  "gc_swap_out K bs tmp s =
     do {
       (t, s1) \<leftarrow> gc_copy_back K (hodo_nr_zones s - 2) bs tmp
                    (gc_reset_zone K (unat (zone_id (wp (mapping_info s)))) s);
       Some (t, gc_reset_zone K (unat (zone_id (swap_wp (mapping_info s1)))) s1)
     }"

text \<open>
  The loop over the valid blocks. The buffer may be missing: then the first access to it faults.
\<close>

partial_function (option) gc_collect ::
  "'z kernel \<Rightarrow> bytes option \<Rightarrow> 'z hodo_state \<Rightarrow> (bytes option \<times> 'z hodo_state) option"
where
  "gc_collect K tmp s =
     (let p = hodo_get_next_GC_valid (mapping_info s) in
      if zone_id p = 0 then Some (tmp, s)
      else do {
        t0 \<leftarrow> tmp;
        (r, t, s1) \<leftarrow> hodo_GC_read_struct K p t0 HODO_DATABLOCK_SIZE s;
        (w, s2) \<leftarrow> hodo_GC_write_struct K t HODO_DATABLOCK_SIZE (block_number t) s1;
        (t', s3) \<leftarrow>
          (if BLOCKS_PER_ZONE - 1 \<le> unat (block_index (swap_wp (mapping_info s2)))
           then do {
             (u, s3) \<leftarrow> gc_swap_out K [0..<BLOCKS_PER_ZONE] t s2;
             Some (u, s3\<lparr>mapping_info := (mapping_info s3)\<lparr>swap_wp :=
               (swap_wp (mapping_info s3))\<lparr>block_index := 0\<rparr>\<rparr>\<rparr>)
           }
           else Some (t, s2));
        gc_collect K (Some t') s3
      })"

definition GC :: "'z kernel \<Rightarrow> 'z hodo_state \<Rightarrow> (int \<times> 'z hodo_state) option" where
  "GC K s =
     do {
       let prev_wp = wp (mapping_info s);
       (tmp, s1) \<leftarrow> gc_collect K (k_kmalloc K 17)
         (s\<lparr>mapping_info := (mapping_info s)\<lparr>wp := mk_pos 1 0, swap_wp := mk_pos (hodo_nr_zones s - 2) 0\<rparr>\<rparr>);
       let n = unat (block_index (swap_wp (mapping_info s1)));
       s2 \<leftarrow> (if n \<noteq> 0
              then do { t \<leftarrow> tmp; (u, s2) \<leftarrow> gc_swap_out K [0..<n] t s1; Some s2 }
              else Some s1);
       let w = wp (mapping_info s2);
       let start = (if block_index w = 0 then unat (zone_id w) else unat (zone_id w) + 1);
       Some (0, fold (gc_reset_zone K) [start..<Suc (unat (zone_id prev_wp))] s2)
     }"

section \<open>The next valid block\<close>

definition in_data_zone :: "hodo_block_pos \<Rightarrow> bool" where
  "in_data_zone p \<longleftrightarrow> zone_id p \<noteq> 0 \<and> unat (zone_id p) < NUMBER_ZONES - 2"

definition valid_at :: "hodo_mapping_info \<Rightarrow> nat \<Rightarrow> hodo_block_pos option" where
  "valid_at m n =
     (if gbit m (n div BLOCKS_PER_ZONE) (n mod BLOCKS_PER_ZONE)
      then Some (mk_pos (n div BLOCKS_PER_ZONE) (n mod BLOCKS_PER_ZONE)) else None)"

lemma next_valid_scan:
  "hodo_get_next_GC_valid m =
     (case for_first (valid_at m) (unat (zone_id (wp m)) * BLOCKS_PER_ZONE) ((NUMBER_ZONES - 2) * BLOCKS_PER_ZONE)
      of Some p \<Rightarrow> p | None \<Rightarrow> mk_pos 0 0)"
  unfolding hodo_get_next_GC_valid_def gbit_zone_scan valid_at_def [abs_def]
  by (subst for_first_nested) (simp_all add: BLOCKS_PER_ZONE_eq)

lemma valid_at_pos:
  assumes "valid_at m n = Some p" "n < (NUMBER_ZONES - 2) * BLOCKS_PER_ZONE"
  shows "gvalid m p" "unat (zone_id p) < NUMBER_ZONES - 2"
proof -
  have g: "gbit m (n div BLOCKS_PER_ZONE) (n mod BLOCKS_PER_ZONE)"
    "p = mk_pos (n div BLOCKS_PER_ZONE) (n mod BLOCKS_PER_ZONE)"
    using assms(1) by (simp_all add: valid_at_def split: if_splits)
  have z: "n div BLOCKS_PER_ZONE < NUMBER_ZONES - 2" using assms(2) by (simp add: less_mult_imp_div_less)
  then have "n div BLOCKS_PER_ZONE < 65536" "n mod BLOCKS_PER_ZONE < 65536"
    by (simp_all add: NUMBER_ZONES_def BLOCKS_PER_ZONE_eq)
  then have "unat (zone_id p) = n div BLOCKS_PER_ZONE" "unat (block_index p) = n mod BLOCKS_PER_ZONE"
    unfolding g(2) by (metis unat_mk_pos)+
  then show "gvalid m p" "unat (zone_id p) < NUMBER_ZONES - 2" using g(1) z by (simp_all add: gvalid_def)
qed

lemma next_valid_Some:
  assumes "zone_id (hodo_get_next_GC_valid m) \<noteq> 0"
  shows "gvalid m (hodo_get_next_GC_valid m)" "in_data_zone (hodo_get_next_GC_valid m)"
proof -
  obtain p where p: "for_first (valid_at m) (unat (zone_id (wp m)) * BLOCKS_PER_ZONE) ((NUMBER_ZONES - 2) * BLOCKS_PER_ZONE) = Some p"
    using assms unfolding next_valid_scan by (auto simp: mk_pos_def split: option.splits)
  have e: "hodo_get_next_GC_valid m = p" by (simp add: next_valid_scan p)
  obtain n where "n < (NUMBER_ZONES - 2) * BLOCKS_PER_ZONE" "valid_at m n = Some p"
    using for_first_SomeD [OF p] by blast
  then show "gvalid m (hodo_get_next_GC_valid m)" "in_data_zone (hodo_get_next_GC_valid m)"
    using valid_at_pos assms unfolding e in_data_zone_def by metis+
qed

lemma next_valid_None:
  assumes "zone_id (hodo_get_next_GC_valid m) = 0" "unat (zone_id (wp m)) = 1" "in_data_zone p"
  shows "\<not> gvalid m p"
proof
  assume g: "gvalid m p"
  let ?lo = "unat (zone_id (wp m)) * BLOCKS_PER_ZONE" and ?hi = "(NUMBER_ZONES - 2) * BLOCKS_PER_ZONE"
  define n where "n = unat (zone_id p) * BLOCKS_PER_ZONE + unat (block_index p)"
  have b: "unat (block_index p) < BLOCKS_PER_ZONE" using unat_u16_less by (simp add: BLOCKS_PER_ZONE_eq)
  have z: "0 < unat (zone_id p)" "unat (zone_id p) < NUMBER_ZONES - 2"
    using assms(3) by (simp_all add: in_data_zone_def unat_gt_0)
  have n: "n div BLOCKS_PER_ZONE = unat (zone_id p)" "n mod BLOCKS_PER_ZONE = unat (block_index p)"
    using b by (simp_all add: n_def)
  have lo: "?lo \<le> n" using z(1) assms(2) by (simp add: n_def BLOCKS_PER_ZONE_eq)
  have "Suc (unat (zone_id p)) * BLOCKS_PER_ZONE \<le> ?hi" using z(2) by (intro mult_right_mono) simp_all
  then have hi: "n < ?hi" using b by (simp add: n_def)
  have v: "valid_at m n = Some p" using g by (simp add: valid_at_def n gvalid_def)
  show False
  proof (cases "for_first (valid_at m) ?lo ?hi")
    case None
    then have "valid_at m n = None" using lo hi by (rule for_first_NoneD)
    then show False using v by simp
  next
    case (Some q)
    then obtain k where k: "?lo \<le> k" "k < ?hi" "valid_at m k = Some q" using for_first_SomeD [OF Some] by blast
    have "k div BLOCKS_PER_ZONE \<noteq> 0" using k(1) assms(2) by (simp add: BLOCKS_PER_ZONE_eq)
    moreover have "k div BLOCKS_PER_ZONE < NUMBER_ZONES - 2" using k(2) by (simp add: less_mult_imp_div_less)
    moreover have "q = mk_pos (k div BLOCKS_PER_ZONE) (k mod BLOCKS_PER_ZONE)"
      using k(3) by (simp add: valid_at_def split: if_splits)
    moreover have "k div BLOCKS_PER_ZONE < 65536" using calculation(2) by (simp add: NUMBER_ZONES_def)
    ultimately have "unat (zone_id q) \<noteq> 0" by (metis unat_mk_pos(1))
    then show False using assms(1) Some by (simp add: next_valid_scan)
  qed
qed


section \<open>The steps of the collector\<close>

definition swap_zone :: nat where "swap_zone = NUMBER_ZONES - 2"

text \<open>A position the collector uses, and the block behind a mapped position.\<close>

lemma set_u32_same: "off + 4 \<le> length b \<Longrightarrow> set_u32 off (u32_at off b) b = b"
proof -
  assume l: "off + 4 \<le> length b"
  have le: "length (get_bytes off 4 b) = 4" using l by (simp add: length_get_bytes)
  have "le_val (get_bytes off 4 b) < 256 ^ 4" using le_val_less [of "get_bytes off 4 b"] le by simp
  then have "unat (u32_at off b) = le_val (get_bytes off 4 b)"
    by (simp add: u32_at_def unat_of_nat)
  then have "le_bytes 4 (unat (u32_at off b)) = get_bytes off 4 b"
    using le_bytes_le_val [of "get_bytes off 4 b"] le by simp
  then show ?thesis using l by (simp add: set_u32_def put_get_same)
qed

lemma stamped_same: "length b = 4096 \<Longrightarrow> block_number b = l \<Longrightarrow> stamped l b = b"
  by (auto simp: stamped_def block_number_def db_set_lbn_def db_lbn_def set_u32_same)

lemma length_blk: "on_disk D p \<Longrightarrow> length (blk D p) = 4096"
  by (simp add: on_disk_def blk_def length_get_bytes)

lemma next_pos_mk: "b < BLOCKS_PER_ZONE - 1 \<Longrightarrow> next_pos (mk_pos z b) = mk_pos z (Suc b)"
proof -
  assume b: "b < BLOCKS_PER_ZONE - 1"
  then have "b < 65536" by (simp add: BLOCKS_PER_ZONE_eq)
  then have "unat (block_index (mk_pos z b)) = b" by (rule unat_mk_pos(2))
  then show ?thesis using b by (simp add: next_pos_def mk_pos_def add.commute)
qed

context zone_store
begin

text \<open>Reading a block that a live entry points to.\<close>

lemma gc_read_live:
  assumes ok: "store_ok zinv zdata mnt s" and p: "gvalid (mapping_info s) p" "zone_id p \<noteq> 0" "unat (zone_id p) < ZONE_FILES"
    and buf: "length buf = 4096"
  obtains l b s1 where "hodo_GC_read_struct K p buf HODO_DATABLOCK_SIZE s = Some (4096, b, s1)"
    "same_store zinv zdata s s1" "contents zdata s l = Some b" "block_number b = l" "length b = 4096"
    "live (mapping_info s) (table_index (mapping_info s) l)"
    "mapping_table (mapping_info s) (table_index (mapping_info s) l) = p"
proof -
  let ?m = "mapping_info s" and ?D = "zdata (zonefs s)"
  have m: "mapping_ok ?D ?m" and c: "config_ok mnt s" "zinv (zonefs s)" using ok by (simp_all add: store_ok_def)
  obtain i where i: "live ?m i" "mapping_table ?m i = p" by (rule mapping_ok_markD [OF m p])
  note e = mapping_ok_entryD [OF m i(1), unfolded i(2)]
  let ?l = "number_of ?m i"
  have t: "table_index ?m ?l = i" using i(1) by (simp add: live_def table_index_number_of)
  have "pos_off p + 4096 \<le> length (?D (unat (zone_id p)))" using e(3) by (simp add: on_disk_def)
  then obtain z' where z': "hodo_zone_read K (unat (zone_id p)) (pos_off p) buf 4096 s = Some (4096, blk ?D p, s\<lparr>zonefs := z'\<rparr>)"
    "zinv z'" "zdata z' = ?D"
    using zone_read [OF c(2,1) p(3) pos_off_dvd _ buf] unfolding blk_def by blast
  show thesis
  proof (rule that [of "blk ?D p" "s\<lparr>zonefs := z'\<rparr>" ?l])
    show "hodo_GC_read_struct K p buf HODO_DATABLOCK_SIZE s = Some (4096, blk ?D p, s\<lparr>zonefs := z'\<rparr>)"
      using z'(1) by (simp add: hodo_GC_read_struct_def HODO_DATABLOCK_SIZE_def)
    show "contents zdata s ?l = Some (blk ?D p)" using i t by (simp add: contents_def lookup_def)
  qed (use z' e i t length_blk in \<open>auto simp: same_store_def\<close>)
qed

text \<open>The collector's write moves a block to the swap zone.\<close>

lemma gc_write_struct:
  assumes ok: "store_ok zinv zdata mnt s" and sw: "at_end zdata s (swap_wp (mapping_info s))"
      "unat (block_index (swap_wp (mapping_info s))) < BLOCKS_PER_ZONE - 1"
    and l: "live (mapping_info s) (table_index (mapping_info s) l)"
    and buf: "length buf = 4096" "block_number buf = l"
  obtains s' where "hodo_GC_write_struct K buf HODO_DATABLOCK_SIZE l s = Some (4096, s')"
    "store_ok zinv zdata mnt s'" "contents zdata s' = (contents zdata s)(l \<mapsto> buf)"
    "zdata (zonefs s') = placed (zdata (zonefs s)) (swap_wp (mapping_info s)) buf"
    "moves (mapping_info s) (table_index (mapping_info s) l) (swap_wp (mapping_info s)) (mapping_info s')"
    "wp (mapping_info s') = wp (mapping_info s)" "swap_wp (mapping_info s') = next_pos (swap_wp (mapping_info s))"
proof -
  let ?m = "mapping_info s" and ?D = "zdata (zonefs s)"
  let ?p = "swap_wp ?m" and ?i = "table_index ?m l"
  note ok' = ok [unfolded store_ok_def] and sw' = sw(1) [unfolded at_end_def]
  have p: "unat (zone_id ?p) < NUMBER_ZONES" using sw' by (simp add: const_simps)
  have map_ok: "mapping_ok ?D ?m" using ok' by simp
  have i: "?i < NUMBER_MAPPING_TABLE_ENTRY" "lbit ?m ?i"
    using l mapping_ok_entryD(5) [OF map_ok l] by (simp_all add: live_def)
  obtain m1 m2 where m12: "hodo_set_GC_bitmap ?p ?m = Some m1"
      "read_table m1 l = Some (mapping_table ?m ?i)"
      "hodo_unset_GC_bitmap (mapping_table ?m ?i) m1 = Some m2"
      "write_table l ?p m2 = Some (m2\<lparr>mapping_table := (mapping_table ?m)(?i := ?p)\<rparr>)"
      "moves ?m ?i ?p (m2\<lparr>mapping_table := (mapping_table ?m)(?i := ?p)\<rparr>)"
      "wp m2 = wp ?m" "swap_wp m2 = swap_wp ?m"
    by (rule reassign_moves [OF map_ok i p])
  define m3 where "m3 = m2\<lparr>mapping_table := (mapping_table ?m)(?i := ?p)\<rparr>"
  have bn: "block_number buf = number_of ?m ?i" using buf(2) by (simp add: number_of_table_index)
  obtain z' where z': "hodo_zone_write K (unat (zone_id ?p)) (pos_off ?p) buf (s\<lparr>mapping_info := m3\<rparr>) =
      Some (Inr 4096, s\<lparr>mapping_info := m3, zonefs := z'\<rparr>)" "zinv z'"
      "zdata z' = placed ?D ?p buf"
    using zone_append [of "s\<lparr>mapping_info := m3\<rparr>" ?p buf] ok' sw buf(1)
    by (auto simp: config_ok_def at_end_def)
  let ?s' = "s\<lparr>mapping_info := m3\<lparr>swap_wp := next_pos ?p\<rparr>, zonefs := z'\<rparr>"
  have mv: "moves ?m ?i ?p (m3\<lparr>swap_wp := next_pos ?p\<rparr>)" using m12(5) by (simp add: moves_def m3_def)
  have ne: "pos_off ?p + 4096 \<noteq> ZONE_SIZE" using sw(2) pos_off_end [of ?p] by simp
  have nx: "next_pos ?p = ?p\<lparr>block_index := block_index ?p + 1\<rparr>" using sw(2) by (simp add: next_pos_def)
  have run: "hodo_GC_write_struct K buf HODO_DATABLOCK_SIZE l s = Some (4096, ?s')"
    using m12 z'(1) buf(1) ok' ne nx
    by (simp add: hodo_GC_write_struct_def Let_def HODO_DATABLOCK_SIZE_def m3_def [symmetric] config_ok_def)
  note res = moves_mapping_ok [OF map_ok mv i(1) _ _ _ buf(1) bn]
  have "mapping_ok (placed ?D ?p buf) (m3\<lparr>swap_wp := next_pos ?p\<rparr>)"
    using sw' by (intro res(1)) simp_all
  moreover have "lookup (placed ?D ?p buf) (m3\<lparr>swap_wp := next_pos ?p\<rparr>) = (lookup ?D ?m)(number_of ?m ?i \<mapsto> buf)"
    using sw' by (intro res(2)) simp_all
  ultimately show thesis using that [of ?s'] run z' ok' mv m12(6)
    by (simp add: store_ok_def config_ok_def contents_def number_of_table_index m3_def)
qed

text \<open>Emptying a zone that no entry points into.\<close>

lemma gc_reset:
  assumes ok: "store_ok zinv zdata mnt s" and z: "z < ZONE_FILES"
    and free: "\<And>i. live (mapping_info s) i \<Longrightarrow> unat (zone_id (mapping_table (mapping_info s) i)) \<noteq> z"
  shows "store_ok zinv zdata mnt (gc_reset_zone K z s)" "contents zdata (gc_reset_zone K z s) = contents zdata s"
    "mapping_info (gc_reset_zone K z s) = mapping_info s"
    "zdata (zonefs (gc_reset_zone K z s)) = (zdata (zonefs s))(z := [])"
    "hodo_nr_zones (gc_reset_zone K z s) = hodo_nr_zones s"
proof -
  let ?m = "mapping_info s" and ?D = "zdata (zonefs s)"
  have c: "config_ok mnt s" "zinv (zonefs s)" and m: "mapping_ok ?D ?m" using ok by (simp_all add: store_ok_def)
  have "length (mnt @ ''/seq/'' @ dec_string z) \<le> 31"
    using c(1) z length_dec_string_2 [of z] by (simp add: config_ok_def const_simps)
  then have path: "gc_zone_path (mount_point_path s) z = mnt @ ''/seq/'' @ dec_string z"
    using c(1) by (simp add: gc_zone_path_def config_ok_def)
  obtain r z' where z': "zf_truncate K z 0 (zonefs s) = (r, z')" "zinv z'" "zdata z' = ?D(z := [])"
    using truncate_ok [OF c(2) z] by blast
  have e: "gc_reset_zone K z s = s\<lparr>zonefs := z'\<rparr>"
    using path_ok [OF c(2) z] z'(1) by (simp add: gc_reset_zone_def path)
  have d: "on_disk (?D(z := [])) (mapping_table ?m i) = on_disk ?D (mapping_table ?m i)"
    "blk (?D(z := [])) (mapping_table ?m i) = blk ?D (mapping_table ?m i)" if "live ?m i" for i
    using free [OF that] by (simp_all add: on_disk_def blk_def)
  have "mapping_ok (?D(z := [])) ?m"
    using m d unfolding mapping_ok_def entry_ok_def Let_def by simp
  moreover have "lookup (?D(z := [])) ?m = lookup ?D ?m"
    using d by (auto simp: lookup_def fun_eq_iff)
  ultimately show "store_ok zinv zdata mnt (gc_reset_zone K z s)" "contents zdata (gc_reset_zone K z s) = contents zdata s"
    "mapping_info (gc_reset_zone K z s) = mapping_info s"
    "zdata (zonefs (gc_reset_zone K z s)) = ?D(z := [])"
    "hodo_nr_zones (gc_reset_zone K z s) = hodo_nr_zones s"
    using c(1) z'(2,3) unfolding e by (simp_all add: store_ok_def contents_def config_ok_def)
qed

end


section \<open>Writing the swap zone back\<close>

text \<open>Blocks \<open>b..k\<close> of the swap zone are still to be written back to zone 1; \<open>U\<close> are the numbers in use.\<close>

definition copying ::
  "('z \<Rightarrow> bool) \<Rightarrow> ('z \<Rightarrow> nat \<Rightarrow> bytes) \<Rightarrow> string \<Rightarrow> (u32 \<Rightarrow> bytes option) \<Rightarrow> (nat \<Rightarrow> bool) \<Rightarrow> nat \<Rightarrow> nat \<Rightarrow>
     'z hodo_state \<Rightarrow> bool"
where
  "copying zinv zdata mnt C U k b s \<longleftrightarrow>
     store_ok zinv zdata mnt s \<and> contents zdata s = C \<and> lbit (mapping_info s) = U \<and>
     wp (mapping_info s) = mk_pos 1 b \<and> length (zdata (zonefs s) 1) = b * 4096 \<and>
     swap_wp (mapping_info s) = mk_pos swap_zone k \<and>
     (\<forall>j. b \<le> j \<and> j < k \<longrightarrow> gvalid (mapping_info s) (mk_pos swap_zone j)) \<and>
     (\<forall>i. live (mapping_info s) i \<longrightarrow>
        unat (zone_id (mapping_table (mapping_info s) i)) = 1 \<or>
        (\<exists>j. b \<le> j \<and> j < k \<and> mapping_table (mapping_info s) i = mk_pos swap_zone j))"

lemma moves_in_use: "moves m i p m' \<Longrightarrow> lbit m i \<Longrightarrow> lbit m' = lbit m"
  by (auto simp: moves_def fun_eq_iff)

lemma mk_pos_inj: "j < 65536 \<Longrightarrow> j' < 65536 \<Longrightarrow> mk_pos z j = mk_pos z j' \<longleftrightarrow> j = j'"
  by (metis unat_mk_pos(2))

lemma swap_zone_pos: "unat (zone_id (mk_pos swap_zone j)) = swap_zone" "zone_id (mk_pos swap_zone j) \<noteq> 0"
  "swap_zone < ZONE_FILES" "swap_zone \<noteq> 1"
  by (simp_all add: mk_pos_def swap_zone_def const_simps)

lemma data_zone_pos: "unat (zone_id (mk_pos 1 j)) = 1" "zone_id (mk_pos 1 j) \<noteq> 0" "mk_pos 1 j \<noteq> mk_pos swap_zone j'"
proof -
  show z: "unat (zone_id (mk_pos 1 j)) = 1" "zone_id (mk_pos 1 j) \<noteq> 0" by (simp_all add: mk_pos_def)
  show "mk_pos 1 j \<noteq> mk_pos swap_zone j'" using z(1) swap_zone_pos(1,4) by metis
qed

context zone_store
begin

lemma same_store_wp:
  assumes "same_store zinv zdata s s'"
  shows "mapping_info s' = mapping_info s" "zdata (zonefs s') = zdata (zonefs s)"
  using assms by (auto simp: same_store_def)

lemma gc_copy_step:
  assumes c: "copying zinv zdata mnt C U k b s" and b: "b < k" "k < BLOCKS_PER_ZONE" and buf: "length tmp = 4096"
  shows "\<exists>t' s'. gc_copy_block K (mk_pos swap_zone b) tmp s = Some (t', s') \<and> length t' = 4096 \<and>
    copying zinv zdata mnt C U k (Suc b) s'"
proof -
  let ?m = "mapping_info s" and ?p = "mk_pos swap_zone b"
  have ok: "store_ok zinv zdata mnt s" and C: "contents zdata s = C" and U: "lbit ?m = U" and w: "wp ?m = mk_pos 1 b"
    and l1: "length (zdata (zonefs s) 1) = b * 4096" and sw: "swap_wp ?m = mk_pos swap_zone k"
    and v: "\<And>j. b \<le> j \<Longrightarrow> j < k \<Longrightarrow> gvalid ?m (mk_pos swap_zone j)"
    and lv: "\<And>i. live ?m i \<Longrightarrow> unat (zone_id (mapping_table ?m i)) = 1 \<or>
        (\<exists>j. b \<le> j \<and> j < k \<and> mapping_table ?m i = mk_pos swap_zone j)"
    using c by (auto simp: copying_def)
  have b16: "b < 65536" "k \<le> 65536" using b by (simp_all add: BLOCKS_PER_ZONE_eq)
  have p3: "unat (zone_id ?p) < ZONE_FILES" using swap_zone_pos(1,3) by simp
  obtain l t s1 where r: "hodo_GC_read_struct K ?p tmp HODO_DATABLOCK_SIZE s = Some (4096, t, s1)"
    "same_store zinv zdata s s1" "contents zdata s l = Some t" "block_number t = l" "length t = 4096"
    "live ?m (table_index ?m l)" "mapping_table ?m (table_index ?m l) = ?p"
    by (rule gc_read_live [OF ok v [OF order_refl b(1)] swap_zone_pos(2) p3 buf])
  note same = same_storeD [OF r(2)] and same' = same_store_wp [OF r(2)]
  have ok1: "store_ok zinv zdata mnt s1" using same(1) ok by blast
  have e: "at_end zdata s1 (wp (mapping_info s1))"
    unfolding at_end_def pos_off_def same' w unat_mk_pos(2) [OF b16(1)] data_zone_pos(1)
    using data_zone_pos(2) l1 by (simp add: const_simps)
  have mok: "mapping_ok (zdata (zonefs s)) ?m" using ok by (simp add: store_ok_def)
  have nm: "num_ok s l" by (rule num_ok_live [where zdata = zdata, OF mok]) (simp add: r(3))
  then have l: "l \<noteq> 0" "table_index (mapping_info s1) l < NUMBER_MAPPING_TABLE_ENTRY"
    "lbit (mapping_info s1) (table_index (mapping_info s1) l)" using same' by (simp_all add: num_ok_def)
  have st: "stamped l t = t" using r(4,5) by (intro stamped_same)
  have bn: "db_is_dat t \<or> hi_ino t = l" using r(4) by (simp add: block_number_def split: if_splits)
  obtain s2 where wr: "hodo_write_struct K t 4096 l s1 = Some (4096, t, l, s2)" "store_ok zinv zdata mnt s2"
    "contents zdata s2 = (contents zdata s1)(l \<mapsto> t)" "zdata (zonefs s2) = placed (zdata (zonefs s)) (mk_pos 1 b) t"
    "moves ?m (table_index ?m l) (mk_pos 1 b) (mapping_info s2)"
    "wp (mapping_info s2) = next_pos (mk_pos 1 b)" "swap_wp (mapping_info s2) = mk_pos swap_zone k"
    using write_struct [OF ok1 e l r(5) bn] same' w sw unfolding st by metis
  let ?m2 = "mapping_info s2" and ?i = "table_index ?m l"
  have run: "gc_copy_block K ?p tmp s = Some (t, s2)"
    using r(1,4) wr(1) by (simp add: gc_copy_block_def HODO_DATABLOCK_SIZE_def)
  have C2: "contents zdata s2 = C" using wr(3) same(2) r(3) C by (metis fun_upd_triv)
  have U2: "lbit ?m2 = U" using moves_in_use [OF wr(5)] l(3) U same' by simp
  have w2: "wp ?m2 = mk_pos 1 (Suc b)" using wr(6) b by (simp add: next_pos_mk)
  have l2: "length (zdata (zonefs s2) 1) = Suc b * 4096"
    using l1 r(5) data_zone_pos(1) [of b] by (simp add: wr(4) placed_def)
  have mt: "mapping_table ?m2 = (mapping_table ?m)(?i := mk_pos 1 b)" using wr(5) by (simp add: moves_def)
  have gv: "gvalid ?m2 q \<longleftrightarrow> (gvalid ?m q \<or> q = mk_pos 1 b) \<and> q \<noteq> ?p" if "zone_id q \<noteq> 0" for q
    using wr(5) that r(7) by (simp add: moves_def)
  have v2: "gvalid ?m2 (mk_pos swap_zone j)" if "Suc b \<le> j" "j < k" for j
    using gv [OF swap_zone_pos(2)] v [of j] that b16 mk_pos_inj [of j b swap_zone] by simp
  have lv2: "unat (zone_id (mapping_table ?m2 i)) = 1 \<or>
      (\<exists>j. Suc b \<le> j \<and> j < k \<and> mapping_table ?m2 i = mk_pos swap_zone j)" if i: "live ?m2 i" for i
  proof (cases "i = ?i")
    case True
    then show ?thesis using mt data_zone_pos(1) by simp
  next
    case False
    then have li: "live ?m i" "mapping_table ?m2 i = mapping_table ?m i" using i mt by (simp_all add: live_def)
    have "mapping_table ?m i \<noteq> ?p" using live_unique [OF mok li(1) r(6)] r(7) False by metis
    then show ?thesis using lv [OF li(1)] li(2) by (metis le_SucE Suc_leI le_neq_implies_less)
  qed
  have "copying zinv zdata mnt C U k (Suc b) s2"
    unfolding copying_def using wr(2,7) C2 U2 w2 l2 v2 lv2 by blast
  then show ?thesis using run r(5) by blast
qed

lemma gc_copy_back_ok:
  assumes "copying zinv zdata mnt C U k b s" "b \<le> k" "k < BLOCKS_PER_ZONE" "length tmp = 4096"
  shows "\<exists>t' s'. gc_copy_back K swap_zone [b..<k] tmp s = Some (t', s') \<and> copying zinv zdata mnt C U k k s'"
  using assms
proof (induction "k - b" arbitrary: b s tmp)
  case 0
  then show ?case by simp
next
  case (Suc n)
  then have lt: "b < k" by simp
  obtain t1 s1 where s1: "gc_copy_block K (mk_pos swap_zone b) tmp s = Some (t1, s1)" "length t1 = 4096"
    "copying zinv zdata mnt C U k (Suc b) s1"
    using gc_copy_step [OF Suc.prems(1) lt Suc.prems(3,4)] by blast
  have "\<exists>t' s'. gc_copy_back K swap_zone [Suc b..<k] t1 s1 = Some (t', s') \<and> copying zinv zdata mnt C U k k s'"
    by (rule Suc.hyps(1)) (use Suc.hyps(2) s1 lt Suc.prems(3) in simp_all)
  then show ?case using s1(1) lt by (simp add: upt_conv_Cons)
qed

end


section \<open>Collecting the valid blocks\<close>

definition collecting ::
  "('z \<Rightarrow> bool) \<Rightarrow> ('z \<Rightarrow> nat \<Rightarrow> bytes) \<Rightarrow> string \<Rightarrow> (u32 \<Rightarrow> bytes option) \<Rightarrow> (nat \<Rightarrow> bool) \<Rightarrow> nat \<Rightarrow>
     'z hodo_state \<Rightarrow> bool"
where
  "collecting zinv zdata mnt C U k s \<longleftrightarrow>
     store_ok zinv zdata mnt s \<and> contents zdata s = C \<and> lbit (mapping_info s) = U \<and> wp (mapping_info s) = mk_pos 1 0 \<and>
     swap_wp (mapping_info s) = mk_pos swap_zone k \<and> length (zdata (zonefs s) swap_zone) = k * 4096 \<and>
     (\<forall>j<k. gvalid (mapping_info s) (mk_pos swap_zone j))"

definition data_valid :: "hodo_mapping_info \<Rightarrow> hodo_block_pos set" where
  "data_valid m = {p. in_data_zone p \<and> gvalid m p}"

lemma in_data_zoneD:
  assumes "in_data_zone p"
  shows "zone_id p \<noteq> 0" "unat (zone_id p) < ZONE_FILES" "p \<noteq> mk_pos swap_zone j"
proof -
  show "zone_id p \<noteq> 0" "unat (zone_id p) < ZONE_FILES" using assms by (simp_all add: in_data_zone_def const_simps)
  show "p \<noteq> mk_pos swap_zone j"
    using assms swap_zone_pos(1) [of j] unfolding in_data_zone_def swap_zone_def by (metis less_irrefl)
qed

lemma finite_data_valid:
  assumes "mapping_ok D m"
  shows "finite (data_valid m)"
proof (rule finite_subset)
  show "data_valid m \<subseteq> mapping_table m ` {..<NUMBER_MAPPING_TABLE_ENTRY}"
  proof
    fix p assume "p \<in> data_valid m"
    then have p: "gvalid m p" "in_data_zone p" by (simp_all add: data_valid_def)
    obtain i where "live m i" "mapping_table m i = p"
      by (rule mapping_ok_markD [OF assms p(1) in_data_zoneD(1,2) [OF p(2)]])
    then show "p \<in> mapping_table m ` {..<NUMBER_MAPPING_TABLE_ENTRY}" by (auto simp: live_def)
  qed
qed simp

context zone_store
begin

lemma gc_collect_ok:
  assumes "collecting zinv zdata mnt C U k s" "k + card (data_valid (mapping_info s)) < BLOCKS_PER_ZONE - 1"
    and "length tmp = 4096"
  shows "\<exists>t s'. gc_collect K (Some tmp) s = Some (Some t, s') \<and> length t = 4096 \<and>
    collecting zinv zdata mnt C U (k + card (data_valid (mapping_info s))) s' \<and> data_valid (mapping_info s') = {}"
  using assms
proof (induction "card (data_valid (mapping_info s))" arbitrary: k s tmp)
  case 0
  then have mok: "mapping_ok (zdata (zonefs s)) (mapping_info s)" by (simp add: collecting_def store_ok_def)
  have e: "data_valid (mapping_info s) = {}" using 0(1) finite_data_valid [OF mok] by simp
  have "zone_id (hodo_get_next_GC_valid (mapping_info s)) = 0"
    using next_valid_Some [of "mapping_info s"] e by (auto simp: data_valid_def)
  then have "gc_collect K (Some tmp) s = Some (Some tmp, s)" by (subst gc_collect.simps) simp
  then show ?case using 0 e by auto
next
  case (Suc n)
  let ?m = "mapping_info s"
  define p where "p = hodo_get_next_GC_valid ?m"
  have ok: "store_ok zinv zdata mnt s" and C: "contents zdata s = C" and U: "lbit ?m = U" and w: "wp ?m = mk_pos 1 0"
    and sw: "swap_wp ?m = mk_pos swap_zone k" and l: "length (zdata (zonefs s) swap_zone) = k * 4096"
    and v: "\<And>j. j < k \<Longrightarrow> gvalid ?m (mk_pos swap_zone j)"
    using Suc.prems(1) by (auto simp: collecting_def)
  have mok: "mapping_ok (zdata (zonefs s)) ?m" using ok by (simp add: store_ok_def)
  have k: "Suc k < BLOCKS_PER_ZONE - 1" "k < 65536" using Suc.prems(2) Suc.hyps(2) by (simp_all add: BLOCKS_PER_ZONE_eq)
  have ne: "zone_id p \<noteq> 0"
  proof
    assume "zone_id p = 0"
    then have "data_valid ?m = {}"
      using next_valid_None [of ?m] w data_zone_pos(1) by (auto simp: data_valid_def p_def)
    then show False using Suc.hyps(2) by simp
  qed
  have p: "gvalid ?m p" "in_data_zone p" using next_valid_Some ne by (simp_all add: p_def)
  obtain l' t s1 where r: "hodo_GC_read_struct K p tmp HODO_DATABLOCK_SIZE s = Some (4096, t, s1)"
    "same_store zinv zdata s s1" "contents zdata s l' = Some t" "block_number t = l'" "length t = 4096"
    "live ?m (table_index ?m l')" "mapping_table ?m (table_index ?m l') = p"
    by (rule gc_read_live [OF ok p(1) in_data_zoneD(1,2) [OF p(2)] Suc.prems(3)])
  note same = same_storeD [OF r(2)] and same' = same_store_wp [OF r(2)]
  have ok1: "store_ok zinv zdata mnt s1" using same(1) ok by blast
  have e: "at_end zdata s1 (swap_wp (mapping_info s1))"
    unfolding at_end_def pos_off_def same' sw unat_mk_pos(2) [OF k(2)] swap_zone_pos(1)
    using swap_zone_pos(2,3) l by (simp add: HODO_DATABLOCK_SIZE_def)
  have idx: "unat (block_index (swap_wp (mapping_info s1))) < BLOCKS_PER_ZONE - 1"
    unfolding same' sw unat_mk_pos(2) [OF k(2)] using k(1) by simp
  have lv1: "live (mapping_info s1) (table_index (mapping_info s1) l')" using r(6) same' by simp
  obtain s2 where s2: "hodo_GC_write_struct K t HODO_DATABLOCK_SIZE l' s1 = Some (4096, s2)"
    "store_ok zinv zdata mnt s2" "contents zdata s2 = (contents zdata s)(l' \<mapsto> t)"
    "zdata (zonefs s2) = placed (zdata (zonefs s)) (mk_pos swap_zone k) t"
    "moves ?m (table_index ?m l') (mk_pos swap_zone k) (mapping_info s2)"
    "wp (mapping_info s2) = mk_pos 1 0" "swap_wp (mapping_info s2) = next_pos (mk_pos swap_zone k)"
    using gc_write_struct [OF ok1 e idx lv1 r(5,4)] same' same(2) w sw by metis
  let ?m2 = "mapping_info s2"
  have C2: "contents zdata s2 = C" using s2(3) r(3) C by (metis fun_upd_triv)
  have U2: "lbit ?m2 = U" using moves_in_use [OF s2(5) mapping_ok_entryD(5) [OF mok r(6)]] U by simp
  have sw2: "swap_wp ?m2 = mk_pos swap_zone (Suc k)" using s2(7) k(1) by (simp add: next_pos_mk)
  have l2: "length (zdata (zonefs s2) swap_zone) = Suc k * 4096"
    using l r(5) swap_zone_pos(1) [of k] by (simp add: s2(4) placed_def)
  have gv: "gvalid ?m2 q \<longleftrightarrow> (gvalid ?m q \<or> q = mk_pos swap_zone k) \<and> q \<noteq> p" if "zone_id q \<noteq> 0" for q
    using s2(5) that r(7) by (simp add: moves_def)
  have v2: "\<forall>j<Suc k. gvalid ?m2 (mk_pos swap_zone j)"
    using gv [OF swap_zone_pos(2)] v in_data_zoneD(3) [OF p(2)] by (metis less_Suc_eq)
  have col2: "collecting zinv zdata mnt C U (Suc k) s2"
    unfolding collecting_def using s2(2,6) C2 U2 sw2 l2 v2 by blast
  have dv: "data_valid ?m2 = data_valid ?m - {p}"
    using gv in_data_zoneD(1,3) by (auto simp: data_valid_def)
  have "p \<in> data_valid ?m" using p by (simp add: data_valid_def)
  then have card: "card (data_valid ?m2) = n" using Suc.hyps(2) finite_data_valid [OF mok] by (simp add: dv)
  have "unat (block_index (swap_wp ?m2)) = Suc k" unfolding sw2 by (rule unat_mk_pos(2)) (use k in \<open>simp add: BLOCKS_PER_ZONE_eq\<close>)
  then have no: "\<not> BLOCKS_PER_ZONE - 1 \<le> unat (block_index (swap_wp ?m2))" using k(1) by simp
  have step: "gc_collect K (Some tmp) s = gc_collect K (Some t) s2"
    using ne r(1,4) s2(1) no by (subst gc_collect.simps) (simp add: p_def [symmetric] Let_def)
  have "\<exists>t' s'. gc_collect K (Some t) s2 = Some (Some t', s') \<and> length t' = 4096 \<and>
      collecting zinv zdata mnt C U (Suc k + card (data_valid ?m2)) s' \<and> data_valid (mapping_info s') = {}"
    by (rule Suc.hyps(1) [OF card [symmetric] col2 _ r(5)]) (use card Suc.hyps(2) Suc.prems(2) in simp)
  then show ?case unfolding step using card Suc.hyps(2) by (metis add_Suc_shift)
qed

text \<open>When no data zone holds a valid block, every entry points into the swap zone.\<close>

lemma collected_live:
  assumes c: "collecting zinv zdata mnt C U k s" and e: "data_valid (mapping_info s) = {}" and i: "live (mapping_info s) i"
    and k: "k < BLOCKS_PER_ZONE"
  shows "\<exists>j<k. mapping_table (mapping_info s) i = mk_pos swap_zone j"
proof -
  let ?m = "mapping_info s" and ?p = "mapping_table (mapping_info s) i"
  have mok: "mapping_ok (zdata (zonefs s)) ?m" using c by (simp add: collecting_def store_ok_def)
  note d = mapping_ok_entryD [OF mok i]
  have "\<not> in_data_zone ?p" using d(4) e by (auto simp: data_valid_def)
  then have z: "unat (zone_id ?p) = swap_zone" using d(1,2) by (simp add: in_data_zone_def swap_zone_def const_simps)
  have "pos_off ?p + 4096 \<le> k * 4096" using d(3) c unfolding on_disk_def z by (simp add: collecting_def)
  then have "unat (block_index ?p) < k" by (simp add: pos_off_def HODO_DATABLOCK_SIZE_def)
  moreover have "?p = mk_pos swap_zone (unat (block_index ?p))" using mk_pos_unat [of ?p] z by simp
  ultimately show ?thesis by metis
qed

end


section \<open>The whole collection\<close>

context zone_store
begin

lemma gc_reset_zones:
  assumes "store_ok zinv zdata mnt s" "\<forall>z \<in> set zs. z < ZONE_FILES"
    and "\<And>i. live (mapping_info s) i \<Longrightarrow> unat (zone_id (mapping_table (mapping_info s) i)) \<notin> set zs"
  shows "store_ok zinv zdata mnt (fold (gc_reset_zone K) zs s) \<and>
    contents zdata (fold (gc_reset_zone K) zs s) = contents zdata s \<and>
    mapping_info (fold (gc_reset_zone K) zs s) = mapping_info s \<and>
    (\<forall>z. zdata (zonefs (fold (gc_reset_zone K) zs s)) z = (if z \<in> set zs then [] else zdata (zonefs s) z))"
  using assms
proof (induction zs arbitrary: s)
  case (Cons z zs)
  have z: "z < ZONE_FILES" using Cons.prems(2) by simp
  have f: "unat (zone_id (mapping_table (mapping_info s) i)) \<noteq> z" if "live (mapping_info s) i" for i
    using Cons.prems(3) [OF that] by auto
  note r = gc_reset [OF Cons.prems(1) z f]
  have "store_ok zinv zdata mnt (fold (gc_reset_zone K) zs (gc_reset_zone K z s)) \<and>
    contents zdata (fold (gc_reset_zone K) zs (gc_reset_zone K z s)) = contents zdata (gc_reset_zone K z s) \<and>
    mapping_info (fold (gc_reset_zone K) zs (gc_reset_zone K z s)) = mapping_info (gc_reset_zone K z s) \<and>
    (\<forall>z'. zdata (zonefs (fold (gc_reset_zone K) zs (gc_reset_zone K z s))) z' =
      (if z' \<in> set zs then [] else zdata (zonefs (gc_reset_zone K z s)) z'))"
    by (rule Cons.IH) (use r Cons.prems(2,3) in auto)
  then show ?case using r by simp
qed simp

lemma gc_swap_out_ok:
  assumes c: "collecting zinv zdata mnt C U k s" and e: "data_valid (mapping_info s) = {}"
    and k: "k < BLOCKS_PER_ZONE" and t: "length t = 4096"
  obtains t' s' where "gc_swap_out K [0..<k] t s = Some (t', s')" "store_ok zinv zdata mnt s'"
    "contents zdata s' = C" "lbit (mapping_info s') = U" "wp (mapping_info s') = mk_pos 1 k"
    "length (zdata (zonefs s') 1) = k * 4096"
    "zdata (zonefs s') swap_zone = []"
    "\<And>i. live (mapping_info s') i \<Longrightarrow> unat (zone_id (mapping_table (mapping_info s') i)) = 1"
proof -
  let ?m = "mapping_info s"
  have ok: "store_ok zinv zdata mnt s" and C: "contents zdata s = C" and U: "lbit ?m = U" and w: "wp ?m = mk_pos 1 0"
    and sw: "swap_wp ?m = mk_pos swap_zone k" and v: "\<forall>j<k. gvalid ?m (mk_pos swap_zone j)"
    using c by (simp_all add: collecting_def)
  have nz: "hodo_nr_zones s - 2 = swap_zone" using ok by (simp add: store_ok_def config_ok_def swap_zone_def)
  note lv = collected_live [OF c e _ k]
  have one: "unat (zone_id (wp ?m)) = 1" "(1 :: nat) < ZONE_FILES" unfolding w by (simp_all add: data_zone_pos const_simps)
  have f: "unat (zone_id (mapping_table ?m i)) \<noteq> 1" if "live ?m i" for i
    using lv [OF that] swap_zone_pos(1,4) by metis
  note r = gc_reset [OF ok one(2) f]
  let ?s1 = "gc_reset_zone K 1 s"
  have "copying zinv zdata mnt C U k 0 ?s1"
    unfolding copying_def using r C U w sw v lv by auto
  then obtain t2 s2 where s2: "gc_copy_back K swap_zone [0..<k] t ?s1 = Some (t2, s2)" "copying zinv zdata mnt C U k k s2"
    using gc_copy_back_ok [OF _ le0 k t] by blast
  have ok2: "store_ok zinv zdata mnt s2" and C2: "contents zdata s2 = C" "lbit (mapping_info s2) = U" and w2: "wp (mapping_info s2) = mk_pos 1 k"
    and l2: "length (zdata (zonefs s2) 1) = k * 4096" and sw2: "swap_wp (mapping_info s2) = mk_pos swap_zone k"
    using s2(2) by (simp_all add: copying_def)
  have lv2: "unat (zone_id (mapping_table (mapping_info s2) i)) = 1" if "live (mapping_info s2) i" for i
    using s2(2) that by (fastforce simp: copying_def)
  have "unat (zone_id (mapping_table (mapping_info s2) i)) \<noteq> swap_zone" if "live (mapping_info s2) i" for i
    using lv2 [OF that] swap_zone_pos(4) by simp
  note r2 = gc_reset [OF ok2 swap_zone_pos(3) this]
  have sz: "unat (zone_id (swap_wp (mapping_info s2))) = swap_zone" unfolding sw2 by (rule swap_zone_pos)
  show thesis
  proof (rule that [of t2 "gc_reset_zone K swap_zone s2"])
    show "gc_swap_out K [0..<k] t s = Some (t2, gc_reset_zone K swap_zone s2)"
      unfolding gc_swap_out_def nz one(1) using s2(1) sz by simp
  qed (use r2 C2 w2 l2 lv2 swap_zone_pos(4) in simp_all)
qed

lemma GC_ok:
  assumes ok: "store_ok zinv zdata mnt s" and sw: "zdata (zonefs s) swap_zone = []"
    and few: "card (data_valid (mapping_info s)) < BLOCKS_PER_ZONE - 1"
    and w: "unat (zone_id (wp (mapping_info s))) < ZONE_FILES" "zone_id (wp (mapping_info s)) \<noteq> 0"
    and mem: "k_kmalloc K 17 = Some tmp" "length tmp = 4096" and n: "n = card (data_valid (mapping_info s))"
  obtains s' where "GC K s = Some (0, s')" "store_ok zinv zdata mnt s'" "contents zdata s' = contents zdata s"
    "wp (mapping_info s') = mk_pos 1 n" "at_end zdata s' (wp (mapping_info s'))"
    "\<And>z. 2 \<le> z \<Longrightarrow> z \<le> unat (zone_id (wp (mapping_info s))) \<Longrightarrow> zdata (zonefs s') z = []"
    "zdata (zonefs s') swap_zone = []" "lbit (mapping_info s') = lbit (mapping_info s)"
proof -
  let ?m = "mapping_info s" and ?prev = "unat (zone_id (wp (mapping_info s)))" and ?C = "contents zdata s"
  let ?s0 = "s\<lparr>mapping_info := ?m\<lparr>wp := mk_pos 1 0, swap_wp := mk_pos (hodo_nr_zones s - 2) 0\<rparr>\<rparr>"
  have nz: "hodo_nr_zones s - 2 = swap_zone" using ok by (simp add: store_ok_def config_ok_def swap_zone_def)
  have gvs: "gvalid (m\<lparr>wp := x, swap_wp := y\<rparr>) q = gvalid m q" "lbit (m\<lparr>wp := x, swap_wp := y\<rparr>) i = lbit m i"
    for m x y q i by (simp_all add: gvalid_def gbit_def lbit_def)
  have "mapping_ok (zdata (zonefs s)) (?m\<lparr>wp := x, swap_wp := y\<rparr>)" for x y
    using ok unfolding store_ok_def mapping_ok_def entry_ok_def live_def number_of_def Let_def gvs by simp
  then have ok0: "store_ok zinv zdata mnt ?s0" using ok by (simp add: store_ok_def config_ok_def)
  have C0: "contents zdata ?s0 = ?C" by (simp add: contents_def lookup_def live_def table_index_def fun_eq_iff)
  have dv: "data_valid (mapping_info ?s0) = data_valid ?m" by (simp add: data_valid_def gvs)
  have c0: "collecting zinv zdata mnt ?C (lbit ?m) 0 ?s0"
    unfolding collecting_def using ok0 C0 sw nz by (simp add: fun_eq_iff gvs)
  have n16: "n < BLOCKS_PER_ZONE - 1" "n < 65536" using few n by (simp_all add: BLOCKS_PER_ZONE_eq)
  have few0: "0 + card (data_valid (mapping_info ?s0)) < BLOCKS_PER_ZONE - 1" using few dv by simp
  obtain t s1 where s1: "gc_collect K (Some tmp) ?s0 = Some (Some t, s1)" "length t = 4096"
    "collecting zinv zdata mnt ?C (lbit ?m) n s1" "data_valid (mapping_info s1) = {}"
    using gc_collect_ok [OF c0 few0 mem(2)] unfolding dv n add_0 by blast
  have bi: "unat (block_index (swap_wp (mapping_info s1))) = n"
    using s1(3) unat_mk_pos(2) [OF n16(2)] by (simp add: collecting_def)
  obtain s2 where s2: "(if n \<noteq> 0 then do { (u, s2) \<leftarrow> gc_swap_out K [0..<n] t s1; Some s2 } else Some s1) = Some s2"
    "store_ok zinv zdata mnt s2" "contents zdata s2 = ?C" "wp (mapping_info s2) = mk_pos 1 n"
    "n \<noteq> 0 \<longrightarrow> length (zdata (zonefs s2) 1) = n * 4096" "zdata (zonefs s2) swap_zone = []"
    "\<And>i. live (mapping_info s2) i \<Longrightarrow> unat (zone_id (mapping_table (mapping_info s2) i)) = 1 \<and> n \<noteq> 0"
    "lbit (mapping_info s2) = lbit ?m"
  proof (cases "n = 0")
    case True
    have "\<not> live (mapping_info s1) i" for i
      using collected_live [OF s1(3,4), of i] True by (auto simp: BLOCKS_PER_ZONE_eq)
    then show thesis using that [of s1] True s1(3) by (simp add: collecting_def)
  next
    case False
    have kn: "n < BLOCKS_PER_ZONE" using n16(1) by simp
    obtain t' s2 where "gc_swap_out K [0..<n] t s1 = Some (t', s2)" "store_ok zinv zdata mnt s2"
      "contents zdata s2 = ?C" "lbit (mapping_info s2) = lbit ?m" "wp (mapping_info s2) = mk_pos 1 n"
      "length (zdata (zonefs s2) 1) = n * 4096" "zdata (zonefs s2) swap_zone = []"
      "\<And>i. live (mapping_info s2) i \<Longrightarrow> unat (zone_id (mapping_table (mapping_info s2) i)) = 1"
      using gc_swap_out_ok [OF s1(3,4) kn s1(2)] by metis
    then show thesis using that [of s2] False by simp
  qed
  define start where "start = (if n = 0 then 1 else 2 :: nat)"
  have bi2: "block_index (mk_pos 1 n) = 0 \<longleftrightarrow> n = 0"
    using unat_mk_pos(2) [OF n16(2), of 1] by (metis unat_eq_zero)
  have st: "(if block_index (wp (mapping_info s2)) = 0 then unat (zone_id (wp (mapping_info s2)))
      else unat (zone_id (wp (mapping_info s2))) + 1) = start"
    unfolding s2(4) bi2 data_zone_pos(1) by (simp add: start_def)
  let ?zs = "[start..<Suc ?prev]" and ?s3 = "fold (gc_reset_zone K) [start..<Suc ?prev] s2"
  have zs: "\<forall>z \<in> set ?zs. z < ZONE_FILES" using w(1) by auto
  have fr: "unat (zone_id (mapping_table (mapping_info s2) i)) \<notin> set ?zs" if "live (mapping_info s2) i" for i
    using s2(7) [OF that] by (auto simp: start_def)
  note r = gc_reset_zones [OF s2(2) zs fr]
  have run: "GC K s = Some (0, ?s3)"
    by (simp only: GC_def Let_def mem(1) s1(1) Option.bind.simps prod.case bi s2(1) st)
  have pw: "0 < ?prev" using w(2) by (simp add: unat_gt_0)
  have l1: "length (zdata (zonefs ?s3) 1) = n * 4096"
    using r s2(5) pw by (auto simp: start_def)
  have "at_end zdata ?s3 (mk_pos 1 n)"
    unfolding at_end_def pos_off_def unat_mk_pos(2) [OF n16(2)] data_zone_pos(1)
    using data_zone_pos(2) l1 by (simp add: const_simps)
  then show thesis
    by (intro that [OF run]) (use r s2 in \<open>auto simp: start_def\<close>)
qed

end


section \<open>The property\<close>

text \<open>With an empty swap zone the valid blocks of the data zones are those of the mapped numbers.\<close>

lemma card_data_valid:
  assumes m: "mapping_ok D m" and sw: "D swap_zone = []"
  shows "card (data_valid m) = card (dom (lookup D m))"
proof -
  let ?f = "\<lambda>l. mapping_table m (table_index m l)"
  have lv: "live m (table_index m l)" if "l \<in> dom (lookup D m)" for l
    using that by (auto simp: lookup_def split: if_splits)
  have "bij_betw ?f (dom (lookup D m)) (data_valid m)"
  proof (intro bij_betw_imageI)
    show "inj_on ?f (dom (lookup D m))"
    proof (intro inj_onI)
      fix l l' assume l: "l \<in> dom (lookup D m)" "l' \<in> dom (lookup D m)" "?f l = ?f l'"
      have "table_index m l = table_index m l'" by (rule live_unique [OF m lv [OF l(1)] lv [OF l(2)] l(3)])
      then show "l = l'" by (metis number_of_table_index)
    qed
    show "?f ` dom (lookup D m) = data_valid m"
    proof (intro set_eqI iffI)
      fix p assume "p \<in> ?f ` dom (lookup D m)"
      then obtain l where l: "l \<in> dom (lookup D m)" "p = ?f l" by blast
      note d = mapping_ok_entryD [OF m lv [OF l(1)]]
      have "unat (zone_id p) \<noteq> swap_zone" using d(3) sw l(2) by (auto simp: on_disk_def)
      then have "in_data_zone p" using d(1,2) l(2) by (simp add: in_data_zone_def swap_zone_def const_simps)
      then show "p \<in> data_valid m" using d(4) l(2) by (simp add: data_valid_def)
    next
      fix p assume p: "p \<in> data_valid m"
      then have g: "gvalid m p" "in_data_zone p" by (simp_all add: data_valid_def)
      obtain i where i: "live m i" "mapping_table m i = p"
        by (rule mapping_ok_markD [OF m g(1) in_data_zoneD(1,2) [OF g(2)]])
      have "i < NUMBER_MAPPING_TABLE_ENTRY" using i(1) by (simp add: live_def)
      then have t: "table_index m (number_of m i) = i" by (rule table_index_number_of)
      then have "number_of m i \<in> dom (lookup D m)" using i(1) by (simp add: lookup_def domIff)
      then show "p \<in> ?f ` dom (lookup D m)" using t i(2) by (metis imageI)
    qed
  qed
  then show ?thesis by (simp add: bij_betw_same_card)
qed

lemma GC_done:
  assumes "hodo_ok B L cap zstart dinv zdat mnt s" "memory_ok K"
    and "zonefs_data zdat (zonefs s) swap_zone = []"
    and "zone_id (wp (mapping_info s)) \<noteq> 0" "unat (zone_id (wp (mapping_info s))) < ZONE_FILES"
    and "n = card (dom (blocks zdat s))" "n < BLOCKS_PER_ZONE - 1"
  obtains s' where "GC (zonefs_kernel B L mnt K) s = Some (0, s')" "hodo_ok B L cap zstart dinv zdat mnt s'"
    "blocks zdat s' = blocks zdat s" "wp (mapping_info s') = mk_pos 1 n" "free_numbers s' = free_numbers s"
    "room_in zdat {swap_zone} s' (BLOCKS_PER_ZONE - n)"
    "\<And>z. 2 \<le> z \<Longrightarrow> z \<le> unat (zone_id (wp (mapping_info s))) \<Longrightarrow> zonefs_data zdat (zonefs s') z = []"
proof -
  obtain b where b: "k_kmalloc (zonefs_kernel B L mnt K) 17 = Some b" "length b = 4096"
    using memory_okD [OF assms(2)] by auto
  have m: "mapping_ok (zonefs_data zdat (zonefs s)) (mapping_info s)" using assms(1) by (simp add: store_ok_def)
  have n: "n = card (data_valid (mapping_info s))"
    using card_data_valid [OF m assms(3)] assms(6) by (simp add: contents_def)
  have few: "card (data_valid (mapping_info s)) < BLOCKS_PER_ZONE - 1" using assms(7) n by simp
  obtain s' where s': "GC (zonefs_kernel B L mnt K) s = Some (0, s')" "hodo_ok B L cap zstart dinv zdat mnt s'"
    "blocks zdat s' = blocks zdat s" "wp (mapping_info s') = mk_pos 1 n"
    "at_end (zonefs_data zdat) s' (wp (mapping_info s'))"
    "\<And>z. 2 \<le> z \<Longrightarrow> z \<le> unat (zone_id (wp (mapping_info s))) \<Longrightarrow> zonefs_data zdat (zonefs s') z = []"
    "zonefs_data zdat (zonefs s') swap_zone = []" "lbit (mapping_info s') = lbit (mapping_info s)"
    using zonefs.GC_ok [OF assms(1,3) few assms(5,4) b n] by metis
  have "n < 65536" using assms(7) by (simp add: BLOCKS_PER_ZONE_eq)
  then have "unat (block_index (wp (mapping_info s'))) = n" unfolding s'(4) by (rule unat_mk_pos(2))
  moreover have "unat (zone_id (wp (mapping_info s'))) \<noteq> swap_zone"
    unfolding s'(4) data_zone_pos(1) using swap_zone_pos(4) by simp
  ultimately have "room_in zdat {swap_zone} s' (BLOCKS_PER_ZONE - n)" using s'(5,7) assms(7) by (simp add: wp_room_def)
  moreover have "free_numbers s' = free_numbers s" by (simp add: free_numbers_def s'(8))
  ultimately show thesis using that [OF s'(1-4)] s'(6) by blast
qed

text \<open>C4: the garbage collector returns, keeps the contents of every mapped block, and leaves them as
  the first blocks of zone 1, with the write pointer behind them, the other data zones up to the old
  write pointer empty, and the swap zone empty again. It is proved for fewer than 65535 mapped blocks
  and an empty swap zone, the case in which the swap zone takes all of them.\<close>

theorem GC_preserves_contents:
  assumes "hodo_ok B L cap zstart dinv zdat mnt s" "memory_ok K"
    and "zonefs_data zdat (zonefs s) swap_zone = []"
    and "zone_id (wp (mapping_info s)) \<noteq> 0" "unat (zone_id (wp (mapping_info s))) < ZONE_FILES"
    and "n = card (dom (blocks zdat s))" "n < BLOCKS_PER_ZONE - 1"
  shows "\<exists>s'. GC (zonefs_kernel B L mnt K) s = Some (0, s') \<and> hodo_ok B L cap zstart dinv zdat mnt s' \<and>
    blocks zdat s' = blocks zdat s \<and> wp (mapping_info s') = mk_pos 1 n \<and>
    room zdat s' (BLOCKS_PER_ZONE - n) \<and> zonefs_data zdat (zonefs s') swap_zone = [] \<and>
    (\<forall>z. 2 \<le> z \<and> z \<le> unat (zone_id (wp (mapping_info s))) \<longrightarrow> zonefs_data zdat (zonefs s') z = [])"
proof -
  obtain s' where s': "GC (zonefs_kernel B L mnt K) s = Some (0, s')" "hodo_ok B L cap zstart dinv zdat mnt s'"
    "blocks zdat s' = blocks zdat s" "wp (mapping_info s') = mk_pos 1 n" "free_numbers s' = free_numbers s"
    "room_in zdat {swap_zone} s' (BLOCKS_PER_ZONE - n)"
    "\<And>z. 2 \<le> z \<Longrightarrow> z \<le> unat (zone_id (wp (mapping_info s))) \<Longrightarrow> zonefs_data zdat (zonefs s') z = []"
    by (rule GC_done [OF assms]) blast
  have "room zdat s' (BLOCKS_PER_ZONE - n)" "zonefs_data zdat (zonefs s') swap_zone = []"
    using s'(6) by (auto simp: wp_room_def)
  then show ?thesis using s'(1-4,7) by blast
qed

theorem GC_preserves_contents_witness:
  "\<exists>s root s'. demo_ok s \<and> wp (mapping_info s) = mk_pos 1 2 \<and>
     GC demo_K s = Some (0, s') \<and> blocks (\<lambda>d. d) s' = [16 \<mapsto> root] \<and> wp (mapping_info s') = mk_pos 1 1"
proof -
  have st: "k_stack demo_K 3 = zero_block" by (simp add: demo_kernel_def)
  have z: "zonefs_ok ram_blk ram_lib ram_cap ram_start ram_inv (\<lambda>d. d) (zonefs demo_state)"
    using mounted_ok by (simp add: demo_state_def)
  have e0: "zonefs_data (\<lambda>d. d) (zonefs demo_state) swap_zone = []"
    by (simp add: demo_state_def zonefs_data_def mounted_fs_def)
  obtain s root where s: "demo_ok s" "blocks (\<lambda>d. d) s = [16 \<mapsto> root]" "inode_ok (blocks (\<lambda>d. d) s) 16 root"
    "room (\<lambda>d. d) s (BLOCKS_PER_ZONE - 1)" "wp (mapping_info s) = mk_pos 1 1"
    "\<And>z. z \<noteq> 1 \<Longrightarrow> zonefs_data (\<lambda>d. d) (zonefs s) z = zonefs_data (\<lambda>d. d) (zonefs demo_state) z"
    using zonefs.hodo_init_fresh [OF z demo_fresh st] by metis
  have m: "mapping_ok (zonefs_data (\<lambda>d. d) (zonefs s)) (mapping_info s)" using s(1) by (simp add: store_ok_def)
  have n: "num_ok s 16" by (rule num_ok_live [where zdata = "zonefs_data (\<lambda>d. d)", OF m]) (simp add: s(2))
  have r: "room (\<lambda>d. d) s (Suc 0)" using s(4) by (auto simp: wp_room_def BLOCKS_PER_ZONE_eq)
  note D = inode_okD [OF s(3)]
  have st2: "stamped 16 root = root" using D(2,3) by simp
  have bn: "db_is_dat root \<or> hi_ino root = 16" using D(4) by simp
  obtain s1 where s1: "demo_ok s1" "blocks (\<lambda>d. d) s1 = (blocks (\<lambda>d. d) s)(16 \<mapsto> root)"
    "zonefs_data (\<lambda>d. d) (zonefs s1) = placed (zonefs_data (\<lambda>d. d) (zonefs s)) (mk_pos 1 1) root"
    "wp (mapping_info s1) = next_pos (mk_pos 1 1)"
    using zonefs.write_existing [OF s(1) r n D(2) bn] unfolding st2 s(5) by metis
  have w: "wp (mapping_info s1) = mk_pos 1 2"
    using s1(4) next_pos_mk [of 1 1] by (simp add: BLOCKS_PER_ZONE_eq numeral_2_eq_2)
  have c: "blocks (\<lambda>d. d) s1 = [16 \<mapsto> root]" using s1(2) s(2) by simp
  have e: "zonefs_data (\<lambda>d. d) (zonefs s1) swap_zone = []"
    using s1(3) s(6) [OF swap_zone_pos(4)] e0 data_zone_pos(1) [of 1] swap_zone_pos(4) by (simp add: placed_def)
  have wz: "zone_id (wp (mapping_info s1)) \<noteq> 0" "unat (zone_id (wp (mapping_info s1))) < ZONE_FILES"
    unfolding w data_zone_pos(1) using data_zone_pos(2) by (simp_all add: const_simps)
  have k: "1 = card (dom (blocks (\<lambda>d. d) s1))" "(1 :: nat) < BLOCKS_PER_ZONE - 1"
    by (simp_all add: c BLOCKS_PER_ZONE_eq)
  from GC_preserves_contents [OF s1(1) demo_memory e wz k] show ?thesis using s1(1) w c by metis
qed

end
