(* ===== verification/Hodo_Vfs.thy ===== *)
theory Hodo_Vfs
  imports Hodo_File_Props Hodo_GC
begin

text \<open>
  The operations of \<open>hodo.c\<close> that the VFS calls on directories and inodes: creating, removing and
  finding files, listing a directory, changing attributes, and the entry points that hand the
  zone files under \<open>seq\<close> and \<open>cnv\<close> to the operations of zonefs.

  Kernel services are arguments: what \<open>new_inode\<close> returned (\<open>None\<close> for \<open>NULL\<close>), \<open>dir_emit_dots\<close>,
  \<open>setattr_prepare\<close>, \<open>setattr_copy\<close>, and the operations of zonefs. Whether an inode is that of the
  superblock's root, a comparison of pointers, is a flag. The inode given to \<open>d_add\<close> is a result.
\<close>

section \<open>Names\<close>

text \<open>
  A dentry: the memory at its name pointer, the name's length, the memory at its parent's name
  pointer, and its inode. The file system compares names over 16 bytes of that memory, and the
  names of the zone directories with \<open>strcmp\<close>.
\<close>

record dentry =
  d_name :: bytes
  d_len :: nat
  d_parent_name :: bytes
  d_inode :: "vinode option"

definition strcmp_eq :: "bytes \<Rightarrow> string \<Rightarrow> bool" where
  "strcmp_eq mem str \<longleftrightarrow> takeWhile (\<lambda>b. b \<noteq> 0) mem = map of_char str"

definition is_zone_dir :: "bytes \<Rightarrow> bool" where
  "is_zone_dir mem \<longleftrightarrow> strcmp_eq mem ''seq'' \<or> strcmp_eq mem ''cnv''"

definition name16 :: "dentry \<Rightarrow> bytes" where
  "name16 d = take HODO_MAX_NAME_LEN (d_name d)"

definition touch :: "'z kernel \<Rightarrow> vinode \<Rightarrow> vinode" where
  "touch K vi = vi\<lparr>vi_ctime := k_now K, vi_atime := k_now K, vi_mtime := k_now K\<rparr>"

section \<open>Creating files and directories\<close>

text \<open>
  The inode that is stored, in an uninitialised automatic object: the block pointers keep their
  bytes. \<open>name_len\<close> is a \<open>u8\<close>, and a name longer than the field overruns it.
\<close>

definition new_hinode ::
  "'z kernel \<Rightarrow> nat \<Rightarrow> u64 \<Rightarrow> dentry \<Rightarrow> u8 \<Rightarrow> u32 \<Rightarrow> u16 \<Rightarrow> bytes option"
where
  "new_hinode K site flen d ty ino mode =
     map_option (hi_set_times (k_now K))
       (fill_hinode K (k_stack K site) flen (take (unat (of_nat (d_len d) :: u8)) (d_name d)) ty ino mode)"

text \<open>
  What \<open>hodo_create\<close> and \<open>hodo_mkdir\<close> share: taking a number, storing the inode, and adding its
  entry to the directory; the result is the stored inode.
\<close>

definition make_hinode ::
  "'z kernel \<Rightarrow> nat \<Rightarrow> u64 \<Rightarrow> vinode \<Rightarrow> dentry \<Rightarrow> u8 \<Rightarrow> u16 \<Rightarrow> 'z hodo_state \<Rightarrow> (bytes \<times> 'z hodo_state) option"
where
  "make_hinode K site flen dir d ty mode s =
     do {
       (ino, m) \<leftarrow> hodo_get_next_logical_number (mapping_info s);
       h0 \<leftarrow> new_hinode K site flen d ty ino mode;
       (ret, h, l, s1) \<leftarrow> hodo_write_struct K h0 HODO_DATABLOCK_SIZE ino (s\<lparr>mapping_info := m\<rparr>);
       (ret, s2) \<leftarrow> add_dirent K (vi_ino dir) h s1;
       Some (h, s2)
     }"

definition hodo_create ::
  "'z kernel \<Rightarrow> vinode option \<Rightarrow> vinode \<Rightarrow> dentry \<Rightarrow> u16 \<Rightarrow> 'z hodo_state \<Rightarrow>
     (int \<times> vinode \<times> vinode \<times> 'z hodo_state) option"
where
  "hodo_create K fresh dir d mode s =
     do {
       vi \<leftarrow> fresh;
       (h, s1) \<leftarrow> make_hinode K 5 0 dir d HODO_TYPE_REG (S_IFREG OR mode) s;
       Some (0, dir\<lparr>vi_size := vi_size dir + 1\<rparr>,
         touch K (vi\<lparr>vi_ino := ucast (hi_ino h), vi_op := Hodo_File_Inode_Ops, vi_fop := Hodo_File_Ops,
           vi_mode := S_IFREG OR mode, vi_uid := k_fsuid K, vi_gid := k_fsgid K\<rparr>), s1)
     }"

definition hodo_mkdir ::
  "'z kernel \<Rightarrow> vinode option \<Rightarrow> vinode \<Rightarrow> dentry \<Rightarrow> u16 \<Rightarrow> 'z hodo_state \<Rightarrow>
     (int \<times> vinode \<times> 'z hodo_state) option"
where
  "hodo_mkdir K fresh dir d mode s =
     do {
       vi \<leftarrow> fresh;
       (h, s1) \<leftarrow> make_hinode K 8 2 dir d HODO_TYPE_DIR (S_IFDIR OR mode) s;
       (ret, s2) \<leftarrow> GC K s1;
       Some (0,
         touch K (vi\<lparr>vi_size := 2, vi_ino := ucast (hi_ino h), vi_op := Hodo_Dir_Inode_Ops, vi_fop := Hodo_Dir_Ops,
           vi_mode := S_IFDIR OR mode, vi_uid := k_fsuid K, vi_gid := k_fsgid K\<rparr>), s2)
     }"

section \<open>Removing\<close>

text \<open>The target's part of \<open>hodo_unlink\<close>: the table entry is erased first; then the inode is read
  by its number into an uninitialised object, and written.\<close>

definition unlink_target :: "'z kernel \<Rightarrow> u32 \<Rightarrow> 'z hodo_state \<Rightarrow> 'z hodo_state option" where
  "unlink_target K t s =
     do {
       m \<leftarrow> hodo_erase_table_entry t (mapping_info s);
       (r1, hi, s1) \<leftarrow> hodo_read_struct K t (k_stack K 6) HODO_DATABLOCK_SIZE (s\<lparr>mapping_info := m\<rparr>);
       (r2, _, _, s2) \<leftarrow> hodo_write_struct K (hi_set_nlink 0 hi) HODO_DATABLOCK_SIZE t s1;
       Some s2
     }"

definition hodo_unlink ::
  "'z kernel \<Rightarrow> bool \<Rightarrow> vinode \<Rightarrow> dentry \<Rightarrow> 'z hodo_state \<Rightarrow> (int \<times> vinode \<times> 'z hodo_state) option"
where
  "hodo_unlink K is_root dir d s =
     (if is_zone_dir (d_parent_name d) then Some (0, touch K dir, s)
      else do {
        vi \<leftarrow> d_inode d;
        let parent = dir_number is_root (vi_ino dir) s;
        s1 \<leftarrow> unlink_target K (ucast (vi_ino vi)) s;
        (r, hi, s2) \<leftarrow> hodo_read_struct K parent (k_stack K 7) HODO_DATABLOCK_SIZE s1;
        (r', _, _, s3) \<leftarrow> remove_dirent K hi (name16 d) parent s2;
        Some (0, (touch K dir)\<lparr>vi_size := vi_size dir - 1\<rparr>, s3)
      })"

definition hodo_rmdir ::
  "'z kernel \<Rightarrow> bool \<Rightarrow> bool \<Rightarrow> vinode \<Rightarrow> dentry \<Rightarrow> 'z hodo_state \<Rightarrow> (int \<times> vinode \<times> 'z hodo_state) option"
where
  "hodo_rmdir K is_root target_is_root dir d s =
     (if is_zone_dir (d_name d) then Some (0, dir, s)
      else do {
        vi \<leftarrow> d_inode d;
        (e, s1) \<leftarrow> check_directory_empty K target_is_root (vi_ino vi) s;
        if \<not> e then Some (- ENOTEMPTY, dir, s1)
        else hodo_unlink K is_root (dir\<lparr>vi_nlink := vi_nlink dir - 1\<rparr>) d s1
      })"

section \<open>Finding and listing\<close>

text \<open>The result is an error or the inode given to \<open>d_add\<close>, if any.\<close>

definition hodo_sub_lookup ::
  "'z kernel \<Rightarrow> vinode option \<Rightarrow> bool \<Rightarrow> vinode \<Rightarrow> dentry \<Rightarrow> 'z hodo_state \<Rightarrow>
     ((int + vinode option) \<times> vinode \<times> 'z hodo_state) option"
where
  "hodo_sub_lookup K fresh is_root dir d s =
     do {
       (r, hi, s1) \<leftarrow> hodo_read_struct K (dir_number is_root (vi_ino dir) s) (k_stack K 9) HODO_DATABLOCK_SIZE s;
       (n, s2) \<leftarrow> find_inode_number K hi (name16 d) s1;
       if n = 0 then Some (Inr None, touch K dir, s2)
       else do {
         (r', t, s3) \<leftarrow> hodo_read_struct K (ucast n) zero_block HODO_DATABLOCK_SIZE s2;
         (case fresh of
            None \<Rightarrow> Some (Inl (- ENOMEM), touch K dir, s3)
          | Some vi \<Rightarrow> Some (Inr (Some (vi\<lparr>vi_ino := ucast (hi_ino t), vi_op := Hodo_Dir_Inode_Ops,
              vi_fop := Hodo_File_Ops, vi_mode := hi_mode t, vi_uid := hi_uid t, vi_gid := hi_gid t,
              vi_ctime := hi_ctime t, vi_mtime := hi_mtime t, vi_atime := hi_atime t\<rparr>)), touch K dir, s3))
       }
     }"

definition hodo_sub_readdir ::
  "'z kernel \<Rightarrow> actor \<Rightarrow> (dir_context \<Rightarrow> bool \<times> dir_context) \<Rightarrow> bool \<Rightarrow> vinode \<Rightarrow> dir_context \<Rightarrow> 'z hodo_state \<Rightarrow>
     (int \<times> dir_context \<times> vinode \<times> 'z hodo_state) option"
where
  "hodo_sub_readdir K act emit_dots is_root dir ctx s =
     (case emit_dots ctx of
        (False, ctx1) \<Rightarrow> Some (0, ctx1, touch K dir, s)
      | (True, ctx1) \<Rightarrow> do {
          (r, hi, s1) \<leftarrow> hodo_read_struct K (dir_number is_root (vi_ino dir) s) zero_block HODO_DATABLOCK_SIZE s;
          (ret, (ctx2, cnt), s2) \<leftarrow> read_all_dirents K act hi (ctx1, 2) s1;
          Some (ret, ctx2, touch K dir, s2)
        })"

section \<open>Attributes\<close>

record iattr =
  ia_size :: "int option"
  ia_apply :: "vinode \<Rightarrow> vinode"

text \<open>\<open>truncate_setsize\<close> sets the size of the VFS inode and drops its cached pages; the stored
  length does not change. \<open>ia_apply\<close> is \<open>setattr_copy\<close>.\<close>

definition hodo_sub_setattr :: "int \<Rightarrow> bool \<Rightarrow> iattr \<Rightarrow> vinode \<Rightarrow> int \<times> vinode" where
  "hodo_sub_setattr prepared is_root ia vi =
     (if prepared \<noteq> 0 \<and> \<not> is_root then (prepared, vi)
      else (0, ia_apply ia (case ia_size ia of Some n \<Rightarrow> vi\<lparr>vi_size := n\<rparr> | None \<Rightarrow> vi)))"

section \<open>Entry points\<close>

definition hodo_setattr ::
  "('z \<Rightarrow> (int \<times> vinode) \<times> 'z) \<Rightarrow> int \<Rightarrow> bool \<Rightarrow> iattr \<Rightarrow> dentry \<Rightarrow> vinode \<Rightarrow> 'z hodo_state \<Rightarrow>
     (int \<times> vinode) \<times> 'z hodo_state"
where
  "hodo_setattr orig_setattr prepared is_root ia d vi s =
     (if is_zone_dir (d_name d) \<or> is_zone_dir (d_parent_name d)
      then (case orig_setattr (zonefs s) of (r, z) \<Rightarrow> (r, s\<lparr>zonefs := z\<rparr>))
      else (hodo_sub_setattr prepared is_root ia vi, s))"

definition hodo_lookup ::
  "'z kernel \<Rightarrow> ('z \<Rightarrow> ((int + vinode option) \<times> vinode) \<times> 'z) \<Rightarrow> vinode option \<Rightarrow> bool \<Rightarrow> vinode \<Rightarrow> dentry \<Rightarrow>
     'z hodo_state \<Rightarrow> ((int + vinode option) \<times> vinode \<times> 'z hodo_state) option"
where
  "hodo_lookup K orig_lookup fresh is_root dir d s =
     (if is_zone_dir (d_name d) \<or> is_zone_dir (d_parent_name d)
      then (case orig_lookup (zonefs s) of ((r, dir'), z) \<Rightarrow> Some (r, dir', s\<lparr>zonefs := z\<rparr>))
      else hodo_sub_lookup K fresh is_root dir d s)"

definition hodo_readdir ::
  "'z kernel \<Rightarrow> (dir_context \<Rightarrow> 'z \<Rightarrow> (int \<times> dir_context) \<times> 'z) \<Rightarrow> actor \<Rightarrow> (dir_context \<Rightarrow> bool \<times> dir_context) \<Rightarrow>
     bool \<Rightarrow> vinode \<Rightarrow> dentry \<Rightarrow> dir_context \<Rightarrow> 'z hodo_state \<Rightarrow> (int \<times> dir_context \<times> vinode \<times> 'z hodo_state) option"
where
  "hodo_readdir K orig_iterate act emit_dots is_root dir d ctx s =
     (if is_zone_dir (d_name d)
      then (case orig_iterate ctx (zonefs s) of ((r, ctx'), z) \<Rightarrow> Some (r, ctx', dir, s\<lparr>zonefs := z\<rparr>))
      else hodo_sub_readdir K act emit_dots is_root dir ctx s)"

definition hodo_file_open :: "('z \<Rightarrow> int \<times> 'z) \<Rightarrow> dentry \<Rightarrow> 'z hodo_state \<Rightarrow> int \<times> 'z hodo_state" where
  "hodo_file_open orig_open d s =
     (if is_zone_dir (d_parent_name d)
      then (case orig_open (zonefs s) of (r, z) \<Rightarrow> (r, s\<lparr>zonefs := z\<rparr>)) else (0, s))"

definition hodo_file_release :: "('z \<Rightarrow> int \<times> 'z) \<Rightarrow> dentry \<Rightarrow> 'z hodo_state \<Rightarrow> int \<times> 'z hodo_state" where
  "hodo_file_release orig_release d s =
     (if is_zone_dir (d_parent_name d)
      then (case orig_release (zonefs s) of (r, z) \<Rightarrow> (r, s\<lparr>zonefs := z\<rparr>)) else (0, s))"

text \<open>The inode number is an \<open>int\<close> here, compared as \<open>u32\<close>.\<close>

definition hodo_file_fsync :: "('z \<Rightarrow> int \<times> 'z) \<Rightarrow> u64 \<Rightarrow> 'z hodo_state \<Rightarrow> int \<times> 'z hodo_state" where
  "hodo_file_fsync orig_fsync ino s =
     (if (ucast ino :: u32) < starting_logical_number (mapping_info s)
      then (case orig_fsync (zonefs s) of (r, z) \<Rightarrow> (r, s\<lparr>zonefs := z\<rparr>)) else (0, s))"


text \<open>
  Mapping, seeking and splicing go to zonefs for every file. Those of zonefs reach the zone through
  \<open>i_private\<close>, which is \<open>NULL\<close> in an inode that hodo made: the argument is the zone file's view, or
  else the inode alone. There, \<open>mmap\<close> reads the flags of a zone through the null pointer, and
  splicing its capacity, unless the inode is that of an offline zone.
\<close>

definition hodo_file_mmap :: "bool \<Rightarrow> bool \<Rightarrow> zonefs_inode + 'd zctx \<Rightarrow> int option" where
  "hodo_file_mmap shared maywrite f =
     (case f of Inl _ \<Rightarrow> None | Inr c \<Rightarrow> Some (zonefs_file_mmap shared maywrite c))"

definition hodo_file_llseek ::
  "(int \<Rightarrow> nat \<Rightarrow> int \<Rightarrow> int \<Rightarrow> int) \<Rightarrow> int \<Rightarrow> nat \<Rightarrow> zonefs_inode + 'd zctx \<Rightarrow> int"
where
  "hodo_file_llseek generic_file_llseek_size offset whence f =
     (case f of
        Inl i \<Rightarrow> (let isize = i_size i in generic_file_llseek_size offset whence isize isize)
      | Inr c \<Rightarrow> zonefs_file_llseek generic_file_llseek_size offset whence c)"

definition hodo_file_splice_read ::
  "'d blkdev \<Rightarrow> 'd iomap_lib \<Rightarrow> int \<Rightarrow> nat \<Rightarrow> zonefs_inode + 'd zctx \<Rightarrow> ((int \<times> bytes) \<times> (zonefs_inode + 'd zctx)) option"
where
  "hodo_file_splice_read B L ppos len f =
     (case f of
        Inl i \<Rightarrow> if inode_offline i then Some ((- EPERM, []), Inl i) else None
      | Inr c \<Rightarrow> (case zonefs_file_splice_read B L ppos len c of (r, c') \<Rightarrow> Some (r, Inr c')))"

lemma own_files_not_mapped:
  "hodo_file_mmap shared maywrite (Inl i :: zonefs_inode + 'd zctx) = None"
  "\<not> inode_immutable i \<Longrightarrow> hodo_file_splice_read B L ppos len (Inl i) = None"
  by (simp_all add: hodo_file_mmap_def hodo_file_splice_read_def inode_offline_def)

section \<open>Creating a file\<close>

lemma set_lbit_store:
  assumes "mapping_ok D m"
  shows "mapping_ok D (set_lbit k m)" "lookup D (set_lbit k m) = lookup D m"
proof -
  have g: "gvalid (set_lbit k m) q = gvalid m q" "live (set_lbit k m) i = live m i"
    "number_of (set_lbit k m) i = number_of m i" "table_index (set_lbit k m) l = table_index m l" for q i l
    by (simp_all add: gvalid_def gbit_def live_def number_of_def table_index_def)
  show "mapping_ok D (set_lbit k m)"
    using assms unfolding mapping_ok_def entry_ok_def Let_def g by simp
  show "lookup D (set_lbit k m) = lookup D m" by (simp add: lookup_def fun_eq_iff g)
qed

lemma inode_ok_new_block:
  assumes "inode_ok C dl hi" "C n = None"
  shows "inode_ok (C(n \<mapsto> b)) dl hi" "dir_view (C(n \<mapsto> b)) hi = dir_view C hi"
proof -
  note D = inode_okD [OF assms(1)]
  have ne: "n \<noteq> dl" using D(1) assms(2) by auto
  have m: "C l \<noteq> None" if "l \<in> set (inode_directs hi)" "l \<noteq> 0" for l
    using assms(1) that by (auto simp: inode_ok_def directs_mapped_def)
  then have mem: "n \<notin> set (inode_directs hi) \<or> n = 0" using assms(2) by blast
  then show "inode_ok (C(n \<mapsto> b)) dl hi"
    using assms(1) ne by (auto simp: inode_ok_def directs_mapped_def)
  show "dir_view (C(n \<mapsto> b)) hi = dir_view C hi"
    using mem by (auto simp: dir_view_def is_block_logical_number_valid_def)
qed

text \<open>The stored inode, for a name that fits.\<close>

definition fits_name :: "dentry \<Rightarrow> bool" where
  "fits_name d \<longleftrightarrow> d_len d \<le> 16 \<and> d_len d \<le> length (d_name d)"

lemma new_hinode_props:
  assumes "fits_name d" "length (k_stack K site) = 4096" "length (k_now K) = 16"
  obtains h where "new_hinode K site flen d ty ino mode = Some h" "length h = 4096" "\<not> db_is_dat h" "hi_ino h = ino"
    "hi_type h = ty" "hi_mode h = mode" "hi_file_len h = flen" "unat (hi_name_len h) = d_len d"
    "take (d_len d) (hi_name h) = take (d_len d) (d_name d)" "inode_directs h = inode_directs (k_stack K site)"
    "hi_single h = hi_single (k_stack K site)" "hi_double h = hi_double (k_stack K site)"
    "hi_triple h = hi_triple (k_stack K site)"
proof -
  let ?nm = "take (d_len d) (d_name d)"
  have n: "unat (of_nat (d_len d) :: u8) = d_len d" using assms(1) by (simp add: fits_name_def unat_of_nat)
  have l: "length ?nm = d_len d" "length ?nm \<le> 16" using assms(1) by (simp_all add: fits_name_def)
  obtain h0 where h0: "fill_hinode K (k_stack K site) flen ?nm ty ino mode = Some h0"
    using l(2) unfolding fill_hinode_def HODO_MAX_NAME_LEN_def by (metis not_less)
  note r = fill_hinode_props [OF h0 assms(2)]
  note f = set_times_frame [OF r(1) assms(3)]
  have dirs: "inode_directs h0 = inode_directs (k_stack K site)"
    by (rule inode_directs_eqI) (use r(12) in simp_all)
  let ?h = "hi_set_times (k_now K) h0"
  have g: "hi_type ?h = hi_type h0" "hi_mode ?h = hi_mode h0" "hi_name_len ?h = hi_name_len h0" "hi_name ?h = hi_name h0"
    using r(1) assms(3) by (simp_all add: hi_defs layout_simps length_simps get_put_other)
  have "take (d_len d) (hi_name h0) = ?nm"
    using r(8) l by (simp add: hi_name_def get_bytes_def min_def)
  then show thesis
    using that [of ?h] h0 r f g dirs n l assms(2,3) by (simp add: new_hinode_def length_simps)
qed

context zone_store
begin

lemma store_hinode:
  assumes ok: "store_ok zinv zdata mnt s" and room: "wp_room zdata Z s (Suc k)" and free: "has_free_number s"
    and nm: "fits_name d" and mem: "length (k_stack K site) = 4096" "length (k_now K) = 16"
  obtains n m h s1 where "hodo_get_next_logical_number (mapping_info s) = Some (n, m)"
    "new_hinode K site flen d ty n mode = Some h"
    "hodo_write_struct K h HODO_DATABLOCK_SIZE n (s\<lparr>mapping_info := m\<rparr>) = Some (4096, h, n, s1)"
    "store_ok zinv zdata mnt s1" "contents zdata s n = None" "n \<noteq> 0" "contents zdata s1 = (contents zdata s)(n \<mapsto> h)"
    "wp_room zdata Z s1 k" "free_numbers s \<le> Suc (free_numbers s1)"
    "wp (mapping_info s1) = next_pos (wp (mapping_info s))"
    "zdata (zonefs s1) = placed (zdata (zonefs s)) (wp (mapping_info s)) h"
proof -
  let ?m = "mapping_info s"
  have mok: "mapping_ok (zdata (zonefs s)) ?m" using ok by (simp add: store_ok_def)
  obtain j where "j < NUMBER_MAPPING_TABLE_ENTRY" "\<not> lbit ?m j" using free by (auto simp: has_free_number_def)
  then obtain n m where n: "hodo_get_next_logical_number ?m = Some (n, m)" "n \<noteq> -1" "n \<noteq> 0"
    using next_number_ok [OF mok] by metis
  obtain i where i: "i < NUMBER_MAPPING_TABLE_ENTRY" "\<not> lbit ?m i" "n = number_of ?m i" "m = set_lbit i ?m"
    using next_logical_SomeD [OF n(1,2)] unfolding number_of_def by metis
  have t: "table_index ?m n = i" unfolding i(3) by (rule table_index_number_of [OF i(1)])
  have none: "contents zdata s n = None"
    using mapping_ok_entryD(5) [OF mok] i(2) t by (auto simp: contents_def lookup_def)
  let ?s = "s\<lparr>mapping_info := m\<rparr>"
  have ok': "store_ok zinv zdata mnt ?s" and C': "contents zdata ?s = contents zdata s"
    using ok set_lbit_store [OF mok, of i] by (simp_all add: store_ok_def config_ok_def contents_def i(4))
  have room': "wp_room zdata Z ?s (Suc k)" using room by (simp add: wp_room_def at_end_def i(4))
  have num: "num_ok ?s n" using n(3) i(1) t by (simp add: num_ok_def i(4) table_index_def)
  obtain h where h: "new_hinode K site flen d ty n mode = Some h" "length h = 4096" "\<not> db_is_dat h" "hi_ino h = n"
    by (rule new_hinode_props [OF nm mem])
  have st: "stamped n h = h" using h(2,3) by simp
  obtain s1 where s1: "hodo_write_struct K h 4096 n ?s = Some (4096, h, n, s1)" "store_ok zinv zdata mnt s1"
    "contents zdata s1 = (contents zdata s)(n \<mapsto> h)" "wp_room zdata Z s1 k"
    "\<And>j. lbit (mapping_info s1) j = lbit (mapping_info ?s) j"
    "wp (mapping_info s1) = next_pos (wp (mapping_info ?s))"
    "zdata (zonefs s1) = placed (zdata (zonefs ?s)) (wp (mapping_info ?s)) h"
    using write_existing [OF ok' room' num h(2) disjI2 [OF h(4)]] unfolding st C' by metis
  have "free_numbers s \<le> Suc (free_numbers s1)"
    using s1(5) by (intro free_numbers_take [of _ _ i]) (auto simp: i(4))
  then show thesis
    using that [OF n(1) h(1)] s1 none n(3) by (simp add: HODO_DATABLOCK_SIZE_def i(4))
qed

end


definition has_free_slot :: "dir_view \<Rightarrow> bool" where
  "has_free_slot v \<longleftrightarrow> None \<in> set v \<or> (\<exists>e \<in> set (view_dirents v). \<not> is_dirent_valid e)"

lemma add_to_free_slot: "has_free_slot v \<Longrightarrow> add_to_view junk sub v \<noteq> None"
proof (induction junk sub v rule: add_to_view.induct)
  case (3 junk sub ds v)
  show ?case
  proof (cases "free_entry ds")
    case None
    then have "\<forall>e \<in> set ds. is_dirent_valid e"
      by (auto simp: free_entry_def find_None_iff in_set_conv_nth)
    then have "has_free_slot v" using 3(2) by (auto simp: has_free_slot_def view_dirents_def view_blocks_def)
    then show ?thesis using 3(1) None by simp
  qed simp
qed (simp_all add: has_free_slot_def view_dirents_def view_blocks_def)

lemma ucast_up_down [simp]: "(ucast (ucast n :: u64) :: u32) = (n :: u32)"
  by transfer simp

text \<open>The name of a dentry, padded with zeros, as the directory stores it when the memory behind
  the slots is clear.\<close>

definition clear_behind :: "nat \<Rightarrow> bytes \<Rightarrow> bool" where
  "clear_behind n nm \<longleftrightarrow> drop n nm = replicate (16 - n) 0"

text \<open>The inode that \<open>hodo_create\<close> and \<open>hodo_mkdir\<close> store.\<close>

definition made_hinode ::
  "'z kernel \<Rightarrow> nat \<Rightarrow> u64 \<Rightarrow> dentry \<Rightarrow> u8 \<Rightarrow> u16 \<Rightarrow> u32 \<Rightarrow> bytes \<Rightarrow> bool"
where
  "made_hinode K site flen d ty mode n h \<longleftrightarrow>
     length h = 4096 \<and> \<not> db_is_dat h \<and> hi_ino h = n \<and> hi_type h = ty \<and> hi_mode h = mode \<and>
     hi_file_len h = flen \<and> unat (hi_name_len h) = d_len d \<and> take (d_len d) (hi_name h) = take (d_len d) (d_name d) \<and>
     inode_directs h = inode_directs (k_stack K site) \<and> hi_single h = hi_single (k_stack K site) \<and>
     hi_double h = hi_double (k_stack K site) \<and> hi_triple h = hi_triple (k_stack K site)"

abbreviation created_hinode :: "'z kernel \<Rightarrow> dentry \<Rightarrow> u16 \<Rightarrow> u32 \<Rightarrow> bytes \<Rightarrow> bool" where
  "created_hinode K d mode n h \<equiv> made_hinode K 5 0 d HODO_TYPE_REG (S_IFREG OR mode) n h"

definition created_vinode :: "'z kernel \<Rightarrow> u16 \<Rightarrow> u32 \<Rightarrow> vinode \<Rightarrow> vinode" where
  "created_vinode K mode n vi = touch K (vi\<lparr>vi_ino := ucast n, vi_op := Hodo_File_Inode_Ops, vi_fop := Hodo_File_Ops,
     vi_mode := S_IFREG OR mode, vi_uid := k_fsuid K, vi_gid := k_fsgid K\<rparr>)"

lemma created_vinode_ino [simp]: "vi_ino (created_vinode K mode n vi) = ucast n"
  by (simp add: created_vinode_def touch_def)

text \<open>An insertion into a directory, with what it leaves alone.\<close>

lemma add_dirent_frame:
  assumes "hodo_ok B L cap zstart dinv zdat mnt s" "inode_ok (blocks zdat s) (ucast ino) root" "memory_ok K"
    and "room_in zdat Z s (2 + k)" "has_free_number s" "unat (hi_name_len h) \<le> 16"
    and "has_free_slot (dir_view (blocks zdat s) root)"
  obtains s' root' where "add_dirent (zonefs_kernel B L mnt K) ino h s = Some (0, s')"
    "hodo_ok B L cap zstart dinv zdat mnt s'" "inode_ok (blocks zdat s') (ucast ino) root'"
    "add_to_view (k_stack K 1) h (dir_view (blocks zdat s) root) = Some (dir_view (blocks zdat s') root')"
    "file_frame (blocks zdat s) (ucast ino) root (blocks zdat s') root'"
    "room_in zdat Z s' k" "free_numbers s \<le> Suc (free_numbers s')"
proof -
  have j: "length (k_stack (zonefs_kernel B L mnt K) 1) = 40" using assms(3) by (simp add: memory_ok_def)
  obtain b where b: "k_kmalloc (zonefs_kernel B L mnt K) 6 = Some b" "length b = 4096"
    using memory_okD [OF assms(3)] by auto
  obtain v where v: "add_to_view (k_stack K 1) h (dir_view (blocks zdat s) root) = Some v"
    using add_to_free_slot [OF assms(7)] by blast
  obtain s1 s' root' n i b' where a: "add_dirent (zonefs_kernel B L mnt K) ino h s = Some (0, s')"
    "same_store (zonefs_ok B L cap zstart dinv zdat) (zonefs_data zdat) s s1"
    "inode_updated (zonefs_ok B L cap zstart dinv zdat) (zonefs_data zdat) mnt (ucast ino) root i b' n s1 root' s'"
    "dir_view (blocks zdat s') root' = v" "room_in zdat Z s' k" "free_numbers s \<le> Suc (free_numbers s')"
    using zonefs.add_dirent_ok [OF assms(1,2,4-6) j b, simplified zonefs_kernel_simps] v by auto
  have C: "blocks zdat s1 = blocks zdat s" by (rule same_storeD(2) [OF a(2)])
  have dirs: "set (inode_directs root') \<subseteq> insert n (set (inode_directs root))"
    using a(3) by (simp add: inode_updated_def set_update_subset_insert)
  have "file_frame (blocks zdat s) (ucast ino) root (blocks zdat s') root'"
    using a(3) dirs unfolding file_frame_def by (auto simp: inode_updated_def C)
  moreover have "hodo_ok B L cap zstart dinv zdat mnt s'" "inode_ok (blocks zdat s') (ucast ino) root'"
    using a(3) by (simp_all add: inode_updated_def)
  ultimately show thesis using that [of s' root'] a(1,4-6) v by simp
qed

lemma make_hinode_ok:
  assumes "hodo_ok B L cap zstart dinv zdat mnt s" "inode_ok (blocks zdat s) (ucast (vi_ino dir)) root" "memory_ok K"
    and "room_in zdat Z s (3 + k)" "2 \<le> free_numbers s" "fits_name d" "has_free_slot (dir_view (blocks zdat s) root)"
    and "site \<noteq> 1"
  obtains n h s' root' where "make_hinode (zonefs_kernel B L mnt K) site flen dir d ty mode s = Some (h, s')"
    "made_hinode K site flen d ty mode n h" "blocks zdat s n = None" "n \<noteq> 0" "hodo_ok B L cap zstart dinv zdat mnt s'"
    "blocks zdat s' n = Some h" "inode_ok (blocks zdat s') (ucast (vi_ino dir)) root'"
    "add_to_view (k_stack K 1) h (dir_view (blocks zdat s) root) = Some (dir_view (blocks zdat s') root')"
    "file_frame (blocks zdat s) (ucast (vi_ino dir)) root (blocks zdat s') root'" "n \<notin> set (inode_directs root')"
    "room_in zdat Z s' k" "free_numbers s \<le> 2 + free_numbers s'"
proof -
  let ?K = "zonefs_kernel B L mnt K" and ?dl = "ucast (vi_ino dir) :: u32"
  have rm: "room_in zdat Z s (Suc (2 + k))" using assms(4) by (simp add: numeral_3_eq_3)
  have free: "has_free_number s" using assms(5) by (simp add: has_free_number_iff)
  have st: "length (k_stack ?K site) = 4096" "length (k_now ?K) = 16"
    using assms(3,8) by (simp_all add: memory_ok_def)
  obtain n m h s1 where h: "hodo_get_next_logical_number (mapping_info s) = Some (n, m)"
    "new_hinode ?K site flen d ty n mode = Some h"
    "hodo_write_struct ?K h HODO_DATABLOCK_SIZE n (s\<lparr>mapping_info := m\<rparr>) = Some (4096, h, n, s1)"
    "hodo_ok B L cap zstart dinv zdat mnt s1" "blocks zdat s n = None" "n \<noteq> 0" "blocks zdat s1 = (blocks zdat s)(n \<mapsto> h)"
    "room_in zdat Z s1 (2 + k)" "free_numbers s \<le> Suc (free_numbers s1)"
    by (rule zonefs.store_hinode [OF assms(1) rm free assms(6) st])
  have p: "made_hinode K site flen d ty mode n h"
    by (rule new_hinode_props [OF assms(6) st, of flen ty n mode]) (use h(2) in \<open>simp add: made_hinode_def\<close>)
  then have nl: "unat (hi_name_len h) \<le> 16" using assms(6) by (simp add: fits_name_def made_hinode_def)
  note root1 = inode_ok_new_block [where n = n and b = h, OF assms(2) h(5), folded h(7)]
  have free1: "has_free_number s1" using h(9) assms(5) by (simp add: has_free_number_iff)
  obtain s2 root' where a: "add_dirent ?K (vi_ino dir) h s1 = Some (0, s2)"
    "hodo_ok B L cap zstart dinv zdat mnt s2" "inode_ok (blocks zdat s2) ?dl root'"
    "add_to_view (k_stack K 1) h (dir_view (blocks zdat s) root) = Some (dir_view (blocks zdat s2) root')"
    "file_frame (blocks zdat s1) ?dl root (blocks zdat s2) root'" "room_in zdat Z s2 k" "free_numbers s1 \<le> Suc (free_numbers s2)"
    using add_dirent_frame [OF h(4) root1(1) assms(3) h(8) free1 nl] assms(7) unfolding root1(2) by metis
  have nd: "n \<noteq> ?dl" using inode_okD(1) [OF assms(2)] h(5) by auto
  have nr: "n \<notin> set (inode_directs root)"
    using assms(2) h(5,6) by (auto simp: inode_ok_def directs_mapped_def)
  have n1: "blocks zdat s1 n = Some h" by (simp add: h(7))
  have hn: "blocks zdat s2 n = Some h" using a(5) n1 nd nr by (simp add: file_frame_def)
  have nr': "n \<notin> set (inode_directs root')" using a(5) n1 nr by (auto simp: file_frame_def)
  have fr: "file_frame (blocks zdat s) ?dl root (blocks zdat s2) root'"
    unfolding file_frame_def
  proof (intro conjI allI impI ballI)
    fix l assume l: "blocks zdat s l \<noteq> None \<and> l \<noteq> ?dl \<and> l \<notin> set (inode_directs root)"
    then have "l \<noteq> n" using h(5) by auto
    then show "blocks zdat s2 l = blocks zdat s l" using a(5) l by (simp add: file_frame_def h(7))
  next
    fix l assume l: "l \<in> set (inode_directs root')"
    then have "l \<noteq> n" using nr' by auto
    then show "l \<in> set (inode_directs root) \<or> blocks zdat s l = None"
      using a(5) l by (auto simp: file_frame_def h(7))
  qed
  have run: "make_hinode ?K site flen dir d ty mode s = Some (h, s2)"
    using h(1-3) a(1) by (simp add: make_hinode_def)
  have fn: "free_numbers s \<le> 2 + free_numbers s2" using h(9) a(7) by simp
  show thesis by (rule that [OF run p h(5,6) a(2) hn a(3,4) fr nr' a(6) fn])
qed

lemma create_ok:
  assumes "hodo_ok B L cap zstart dinv zdat mnt s" "inode_ok (blocks zdat s) (ucast (vi_ino dir)) root" "memory_ok K"
    and "room_in zdat Z s (3 + k)" "2 \<le> free_numbers s" "fits_name d" "has_free_slot (dir_view (blocks zdat s) root)"
  obtains n h s' root' where
    "hodo_create (zonefs_kernel B L mnt K) (Some vi) dir d mode s =
       Some (0, dir\<lparr>vi_size := vi_size dir + 1\<rparr>, created_vinode K mode n vi, s')"
    "created_hinode K d mode n h" "blocks zdat s n = None" "n \<noteq> 0" "hodo_ok B L cap zstart dinv zdat mnt s'"
    "blocks zdat s' n = Some h" "inode_ok (blocks zdat s') (ucast (vi_ino dir)) root'"
    "add_to_view (k_stack K 1) h (dir_view (blocks zdat s) root) = Some (dir_view (blocks zdat s') root')"
    "file_frame (blocks zdat s) (ucast (vi_ino dir)) root (blocks zdat s') root'" "n \<notin> set (inode_directs root')"
    "room_in zdat Z s' k" "free_numbers s \<le> 2 + free_numbers s'"
proof -
  have site: "(5 :: nat) \<noteq> 1" by simp
  obtain n h s' root' where
    m: "make_hinode (zonefs_kernel B L mnt K) 5 0 dir d HODO_TYPE_REG (S_IFREG OR mode) s = Some (h, s')"
    "created_hinode K d mode n h" "blocks zdat s n = None" "n \<noteq> 0" "hodo_ok B L cap zstart dinv zdat mnt s'"
    "blocks zdat s' n = Some h" "inode_ok (blocks zdat s') (ucast (vi_ino dir)) root'"
    "add_to_view (k_stack K 1) h (dir_view (blocks zdat s) root) = Some (dir_view (blocks zdat s') root')"
    "file_frame (blocks zdat s) (ucast (vi_ino dir)) root (blocks zdat s') root'" "n \<notin> set (inode_directs root')"
    "room_in zdat Z s' k" "free_numbers s \<le> 2 + free_numbers s'"
    by (rule make_hinode_ok [OF assms site])
  have "hi_ino h = n" using m(2) by (simp add: made_hinode_def)
  then have cr: "hodo_create (zonefs_kernel B L mnt K) (Some vi) dir d mode s =
      Some (0, dir\<lparr>vi_size := vi_size dir + 1\<rparr>, created_vinode K mode n vi, s')"
    using m(1) by (simp add: hodo_create_def created_vinode_def touch_def)
  show thesis by (rule that [OF cr m(2-12)])
qed

text \<open>With a clear automatic object, the stored inode is an empty file.\<close>

lemma made_inode_ok:
  assumes "made_hinode K site flen d ty mode n h" "C n = Some h" "k_stack K site = zero_block"
  shows "inode_ok C n h" "dir_view C h = replicate 10 None" "inode_directs h = inode_directs zero_block"
proof -
  have p: "length h = 4096" "\<not> db_is_dat h" "hi_ino h = n"
    and q: "inode_directs h = inode_directs zero_block" "hi_single h = 0" "hi_double h = 0" "hi_triple h = 0"
    using assms(1,3) by (simp_all add: made_hinode_def)
  have z: "\<And>i. i < 10 \<Longrightarrow> hi_direct i h = 0" using q(1) by (metis inode_directs_nth zero_block_ptrs(5))
  show "inode_ok C n h" by (rule empty_directory(1) [where C = C, OF assms(2) p z q(2-4)])
  show "dir_view C h = replicate 10 None" by (rule empty_directory(2) [where C = C, OF assms(2) p z q(2-4)])
  show "inode_directs h = inode_directs zero_block" by (rule q(1))
qed

lemma created_file_ok:
  assumes "created_hinode K d mode n h" "C n = Some h" "k_stack K 5 = zero_block"
  shows "file_ok C n h" "file_data C h = []" "inode_directs h = inode_directs zero_block"
  using made_inode_ok [where C = C, OF assms] assms(1) by (simp_all add: file_ok_def file_data_def made_hinode_def)

lemma created_stored_name:
  assumes "made_hinode K site flen d ty mode n h" "fits_name d" "clear_behind (d_len d) (name16 d)" "clear_behind (d_len d) (de_name e)"
  shows "stored_name e h = name16 d"
proof -
  have "take (d_len d) (hi_name h) = take (d_len d) (name16 d)" "unat (hi_name_len h) = d_len d"
    using assms(1,2) by (simp_all add: made_hinode_def name16_def fits_name_def HODO_MAX_NAME_LEN_def min_def)
  moreover have "drop (d_len d) (de_name e) = drop (d_len d) (name16 d)" using assms(3,4) by (simp add: clear_behind_def)
  ultimately show ?thesis by (simp add: stored_name_def)
qed

text \<open>The inode that \<open>hodo_mkdir\<close> gives to the VFS, and its effect: that of a creation, then that of the
  collector.\<close>

definition mkdir_vinode :: "'z kernel \<Rightarrow> u16 \<Rightarrow> u32 \<Rightarrow> vinode \<Rightarrow> vinode" where
  "mkdir_vinode K mode n vi = touch K (vi\<lparr>vi_size := 2, vi_ino := ucast n, vi_op := Hodo_Dir_Inode_Ops,
     vi_fop := Hodo_Dir_Ops, vi_mode := S_IFDIR OR mode, vi_uid := k_fsuid K, vi_gid := k_fsgid K\<rparr>)"

lemma mkdir_vinode_ino [simp]: "vi_ino (mkdir_vinode K mode n vi) = ucast n"
  by (simp add: mkdir_vinode_def touch_def)

lemma mkdir_ok:
  assumes "hodo_ok B L cap zstart dinv zdat mnt s" "inode_ok (blocks zdat s) (ucast (vi_ino dir)) root" "memory_ok K"
    and "room_in zdat {swap_zone} s 4" "2 \<le> free_numbers s" "fits_name d" "has_free_slot (dir_view (blocks zdat s) root)"
    and few: "NUMBER_MAPPING_TABLE_ENTRY + 3 < BLOCKS_PER_ZONE + free_numbers s"
  obtains n h s' root' where
    "hodo_mkdir (zonefs_kernel B L mnt K) (Some vi) dir d mode s = Some (0, mkdir_vinode K mode n vi, s')"
    "made_hinode K 8 2 d HODO_TYPE_DIR (S_IFDIR OR mode) n h" "blocks zdat s n = None" "n \<noteq> 0"
    "hodo_ok B L cap zstart dinv zdat mnt s'"
    "blocks zdat s' n = Some h" "inode_ok (blocks zdat s') (ucast (vi_ino dir)) root'"
    "add_to_view (k_stack K 1) h (dir_view (blocks zdat s) root) = Some (dir_view (blocks zdat s') root')"
    "file_frame (blocks zdat s) (ucast (vi_ino dir)) root (blocks zdat s') root'" "n \<notin> set (inode_directs root')"
    "room_in zdat {swap_zone} s' (BLOCKS_PER_ZONE - card (dom (blocks zdat s')))" "free_numbers s \<le> 2 + free_numbers s'"
proof -
  have site: "(8 :: nat) \<noteq> 1" by simp
  have r4: "room_in zdat {swap_zone} s (3 + 1)" using assms(4) by simp
  obtain n h s1 root' where
    m: "make_hinode (zonefs_kernel B L mnt K) 8 2 dir d HODO_TYPE_DIR (S_IFDIR OR mode) s = Some (h, s1)"
    "made_hinode K 8 2 d HODO_TYPE_DIR (S_IFDIR OR mode) n h" "blocks zdat s n = None" "n \<noteq> 0"
    "hodo_ok B L cap zstart dinv zdat mnt s1"
    "blocks zdat s1 n = Some h" "inode_ok (blocks zdat s1) (ucast (vi_ino dir)) root'"
    "add_to_view (k_stack K 1) h (dir_view (blocks zdat s) root) = Some (dir_view (blocks zdat s1) root')"
    "file_frame (blocks zdat s) (ucast (vi_ino dir)) root (blocks zdat s1) root'" "n \<notin> set (inode_directs root')"
    "room_in zdat {swap_zone} s1 1" "free_numbers s \<le> 2 + free_numbers s1"
    by (rule make_hinode_ok [OF assms(1-3) r4 assms(5-7) site])
  have z: "zonefs_data zdat (zonefs s1) swap_zone = []" "zone_id (wp (mapping_info s1)) \<noteq> 0"
    "unat (zone_id (wp (mapping_info s1))) < ZONE_FILES" using m(11) by (simp_all add: wp_room_def at_end_def)
  have c: "card (dom (blocks zdat s1)) < BLOCKS_PER_ZONE - 1" using mapped_in_use [OF m(5)] few m(12) by linarith
  obtain s' where s': "GC (zonefs_kernel B L mnt K) s1 = Some (0, s')" "hodo_ok B L cap zstart dinv zdat mnt s'"
    "blocks zdat s' = blocks zdat s1" "free_numbers s' = free_numbers s1"
    "room_in zdat {swap_zone} s' (BLOCKS_PER_ZONE - card (dom (blocks zdat s1)))"
    by (rule GC_done [OF m(5) assms(3) z refl c])
  have "hi_ino h = n" using m(2) by (simp add: made_hinode_def)
  then have run: "hodo_mkdir (zonefs_kernel B L mnt K) (Some vi) dir d mode s = Some (0, mkdir_vinode K mode n vi, s')"
    using m(1) s'(1) by (simp add: hodo_mkdir_def mkdir_vinode_def touch_def)
  show thesis by (rule that [OF run m(2-4) s'(2)]) (use m(6-10,12) s'(3-5) in simp_all)
qed

lemma create_number:
  assumes "hodo_ok B L cap zstart dinv zdat mnt s" "memory_ok K" "room_in zdat Z s (Suc k)" "has_free_number s" "fits_name d"
    and "hodo_create (zonefs_kernel B L mnt K) (Some vi) dir d mode s = Some (r, dir', vi', s')"
  obtains m where "hodo_get_next_logical_number (mapping_info s) = Some (ucast (vi_ino vi'), m)"
proof -
  let ?K = "zonefs_kernel B L mnt K"
  have mem: "length (k_stack ?K 5) = 4096" "length (k_now ?K) = 16" using assms(2) by (simp_all add: memory_ok_def)
  obtain n m h s1 where h: "hodo_get_next_logical_number (mapping_info s) = Some (n, m)"
    "new_hinode ?K 5 0 d HODO_TYPE_REG n (S_IFREG OR mode) = Some h"
    "hodo_write_struct ?K h HODO_DATABLOCK_SIZE n (s\<lparr>mapping_info := m\<rparr>) = Some (4096, h, n, s1)"
    by (rule zonefs.store_hinode [OF assms(1,3,4,5) mem]) blast
  have "hi_ino h = n" using new_hinode_props [OF assms(5) mem] h(2) by (metis option.inject)
  then have "vi_ino vi' = ucast n"
    using assms(6) h by (auto simp: hodo_create_def make_hinode_def touch_def bind_eq_Some_conv)
  then show thesis using that h(1) by simp
qed

text \<open>C21: creating a file in a directory with a free slot, under a name that is not there. The file
  gets the number that \<open>hodo_get_next_logical_number\<close> gives next, which had no block; the inode stored
  under it is that of a regular file with the given mode and no data, and the inode for the VFS
  has the number. In the directory the name is found with this number, and every other name that
  no free slot carries is looked up as before. The memory of the automatic objects that become the
  inode and the entry is uninitialised in the code: here the first is taken to be clear, and so are
  the bytes behind the name in the dentry, in the second and in the free slots.\<close>

theorem create_makes_empty_file:
  assumes "hodo_ok B L cap zstart dinv zdat mnt s" "inode_ok (blocks zdat s) (ucast (vi_ino dir)) root" "memory_ok K"
    and "room zdat s 3" "2 \<le> free_numbers s" "k_stack K 5 = zero_block"
    and "fits_name d" "length (name16 d) = 16" "clear_behind (d_len d) (name16 d)"
    and "v = dir_view (blocks zdat s) root" "has_free_slot v" "\<forall>e \<in> set (view_dirents v). de_name e \<noteq> name16 d"
    and "\<forall>e \<in> insert (k_stack K 1) {e \<in> set (view_dirents v). \<not> is_dirent_valid e}. clear_behind (d_len d) (de_name e)"
  shows "\<exists>n m s' root' hi.
    hodo_get_next_logical_number (mapping_info s) = Some (n, m) \<and> n \<noteq> 0 \<and> blocks zdat s n = None \<and>
    hodo_create (zonefs_kernel B L mnt K) (Some vi) dir d mode s =
      Some (0, dir\<lparr>vi_size := vi_size dir + 1\<rparr>, created_vinode K mode n vi, s') \<and>
    hodo_ok B L cap zstart dinv zdat mnt s' \<and> blocks zdat s' n = Some hi \<and>
    hi_type hi = HODO_TYPE_REG \<and> hi_mode hi = S_IFREG OR mode \<and>
    file_ok (blocks zdat s') n hi \<and> file_data (blocks zdat s') hi = [] \<and>
    inode_ok (blocks zdat s') (ucast (vi_ino dir)) root' \<and>
    (\<exists>s2. find_inode_number (zonefs_kernel B L mnt K) root' (name16 d) s' = Some (ucast n, s2)) \<and>
    (\<forall>other. other \<noteq> name16 d \<longrightarrow> other \<noteq> replicate 16 0 \<longrightarrow>
      (\<forall>e \<in> set (view_dirents v). de_name e = other \<longrightarrow> is_dirent_valid e) \<longrightarrow>
      (\<exists>x s2 s3. find_inode_number (zonefs_kernel B L mnt K) root other s = Some (x, s2) \<and>
        find_inode_number (zonefs_kernel B L mnt K) root' other s' = Some (x, s3)))"
proof -
  have rm: "room zdat s (3 + 0)" using assms(4) by simp
  obtain n h s' root' where c: "hodo_create (zonefs_kernel B L mnt K) (Some vi) dir d mode s =
      Some (0, dir\<lparr>vi_size := vi_size dir + 1\<rparr>, created_vinode K mode n vi, s')"
    "created_hinode K d mode n h" "blocks zdat s n = None" "n \<noteq> 0" "hodo_ok B L cap zstart dinv zdat mnt s'"
    "blocks zdat s' n = Some h" "inode_ok (blocks zdat s') (ucast (vi_ino dir)) root'"
    "add_to_view (k_stack K 1) h v = Some (dir_view (blocks zdat s') root')"
    by (rule create_ok [OF assms(1-3) rm assms(5,7) assms(11) [unfolded assms(10)]]) (use assms(10) in blast)
  have r3: "room zdat s (Suc 2)" "has_free_number s" using assms(4,5) by (simp_all add: numeral_eq_Suc has_free_number_iff)
  obtain m where m: "hodo_get_next_logical_number (mapping_info s) = Some (n, m)"
    using create_number [OF assms(1,3) r3 assms(7) c(1)] by auto
  note f = created_file_ok [where C = "blocks zdat s'", OF c(2,6) assms(6)]
  have p: "length h = 4096" "unat (hi_name_len h) \<le> 16" "hi_ino h \<noteq> 0" "hi_ino h = n"
    "hi_type h = HODO_TYPE_REG" "hi_mode h = S_IFREG OR mode"
    using c(2,4) assms(7) by (simp_all add: made_hinode_def fits_name_def)
  have sn: "\<forall>e \<in> insert (k_stack K 1) {e \<in> set (view_dirents v). \<not> is_dirent_valid e}. stored_name e h = name16 d"
    using assms(13) created_stored_name [OF c(2) assms(7,9)] by blast
  have j: "length (k_stack K 1) = 40" using assms(3) by (simp add: memory_ok_def)
  have len: "\<forall>e \<in> set (view_dirents v). length e = 40" using view_dirents_length [OF assms(2)] assms(10) by simp
  have "find_in_view (name16 d) (view_blocks (dir_view (blocks zdat s') root')) = ucast n"
    using find_after_add [OF c(8) j len p(1-3) assms(12) sn] p(4) by simp
  then obtain s3 where s3: "find_inode_number (zonefs_kernel B L mnt K) root' (name16 d) s' = Some (ucast n, s3)"
    using find_inode_number_view [OF c(5,7) assms(3), of "name16 d"] by auto
  have oth: "\<exists>x s2 s3. find_inode_number (zonefs_kernel B L mnt K) root other s = Some (x, s2) \<and>
      find_inode_number (zonefs_kernel B L mnt K) root' other s' = Some (x, s3)"
    if o: "other \<noteq> name16 d" "other \<noteq> replicate 16 0" "\<forall>e \<in> set (view_dirents v). de_name e = other \<longrightarrow> is_dirent_valid e"
    for other
  proof -
    have ne: "\<forall>e \<in> insert (k_stack K 1) {e \<in> set (view_dirents v). \<not> is_dirent_valid e}. stored_name e h \<noteq> other"
      using sn o(1) by metis
    have "find_in_view other (view_blocks (dir_view (blocks zdat s') root')) = find_in_view other (view_blocks v)"
      by (rule find_other_after_add [OF c(8) _ p(1,2) ne o(3,2)]) (use j len in simp)
    then show ?thesis
      using find_inode_number_view [OF c(5,7) assms(3), of other] find_inode_number_view [OF assms(1-3), of other]
      unfolding assms(10) by auto
  qed
  show ?thesis
    by (rule exI [of _ n], rule exI [of _ m], rule exI [of _ s'], rule exI [of _ root'], rule exI [of _ h])
      (use m c(1,3-7) p(5,6) f(1,2) s3 oth in blast)
qed


definition demo_dentry :: dentry where
  "demo_dentry = \<lparr>d_name = 0x61 # replicate 31 0, d_len = 1, d_parent_name = [0x2F, 0], d_inode = None\<rparr>"

lemma demo_dentry_simps:
  "fits_name demo_dentry" "name16 demo_dentry = 0x61 # replicate 15 0" "clear_behind 1 (name16 demo_dentry)"
  "d_len demo_dentry = 1" "clear_behind 1 (de_name zero_dirent)" "k_stack demo_kernel 1 = zero_dirent"
  by (simp_all add: demo_dentry_def fits_name_def name16_def HODO_MAX_NAME_LEN_def clear_behind_def demo_kernel_def
      zero_dirent_def de_name_def get_bytes_def SIZEOF_DIRENT_def min_def)

theorem create_makes_empty_file_witness:
  "\<exists>s n s' hi root' s2. demo_ok s \<and> hodo_create demo_K (Some demo_vi) demo_vi demo_dentry 0x1A4 s =
       Some (0, demo_vi\<lparr>vi_size := vi_size demo_vi + 1\<rparr>, created_vinode demo_kernel 0x1A4 n demo_vi, s') \<and>
     blocks (\<lambda>d. d) s' n = Some hi \<and> hi_type hi = HODO_TYPE_REG \<and>
     file_ok (blocks (\<lambda>d. d) s') n hi \<and> file_data (blocks (\<lambda>d. d) s') hi = [] \<and>
     find_inode_number demo_K root' (name16 demo_dentry) s' = Some (ucast n, s2)"
proof -
  have st: "k_stack demo_K 3 = zero_block" by (simp add: demo_kernel_def)
  have z: "zonefs_ok ram_blk ram_lib ram_cap ram_start ram_inv (\<lambda>d. d) (zonefs demo_state)"
    using mounted_ok by (simp add: demo_state_def)
  obtain s root where s: "demo_ok s" "inode_ok (blocks (\<lambda>d. d) s) 16 root"
    "dir_view (blocks (\<lambda>d. d) s) root = replicate 10 None" "room (\<lambda>d. d) s (BLOCKS_PER_ZONE - 1)"
    "\<And>j. lbit (mapping_info s) j \<longleftrightarrow> j = 0"
    using zonefs.hodo_init_fresh [OF z demo_fresh st] by metis
  have r: "room (\<lambda>d. d) s 3" using s(4) by (auto simp: wp_room_def BLOCKS_PER_ZONE_eq)
  have "{1..100} \<subseteq> {k. k < NUMBER_MAPPING_TABLE_ENTRY \<and> \<not> lbit (mapping_info s) k}"
    unfolding s(5) NUMBER_MAPPING_TABLE_ENTRY_eq by auto
  then have "card {1..100 :: nat} \<le> free_numbers s" unfolding free_numbers_def by (intro card_mono) simp_all
  then have fr: "2 \<le> free_numbers s" by simp
  have i: "inode_ok (blocks (\<lambda>d. d) s) (ucast (vi_ino demo_vi)) root" using s(2) by (simp add: demo_vi_def)
  have k: "k_stack demo_kernel 5 = zero_block" by (simp add: demo_kernel_def)
  have l: "length (name16 demo_dentry) = 16" by (simp add: demo_dentry_simps)
  have sl: "has_free_slot (replicate 10 None)" by (simp add: has_free_slot_def)
  have a: "\<forall>e \<in> set (view_dirents (replicate 10 None)). de_name e \<noteq> name16 demo_dentry" by simp
  have b: "\<forall>e \<in> insert (k_stack demo_kernel 1) {e \<in> set (view_dirents (replicate 10 None)). \<not> is_dirent_valid e}.
      clear_behind (d_len demo_dentry) (de_name e)"
    unfolding demo_dentry_simps(4,6) using demo_dentry_simps(5) by simp
  have c: "clear_behind (d_len demo_dentry) (name16 demo_dentry)"
    unfolding demo_dentry_simps(4) by (rule demo_dentry_simps(3))
  from create_makes_empty_file [OF s(1) i demo_memory r fr k demo_dentry_simps(1) l c s(3) [symmetric] sl a b]
  show ?thesis using s(1) by blast
qed

text \<open>Nothing bounds the length of the name that \<open>hodo_create\<close> copies: a name of 17 to 255 bytes
  is copied behind the name field of the automatic object.\<close>

theorem create_overruns_name:
  assumes "16 < d_len d" "d_len d < 256" "d_len d \<le> length (d_name d)"
  shows "hodo_create K fresh dir d mode s = None \<and> hodo_mkdir K fresh dir d mode s = None"
proof -
  have n: "unat (of_nat (d_len d) :: u8) = d_len d" using assms(2) by (simp add: unat_of_nat)
  have l: "HODO_MAX_NAME_LEN < length (take (d_len d) (d_name d))"
    using assms(1,3) by (simp add: HODO_MAX_NAME_LEN_def)
  have "new_hinode K site flen d ty ino md = None" for site flen ty ino md
    unfolding new_hinode_def n fill_hinode_def using l by simp
  then have "make_hinode K site flen dir d ty md s = None" for site flen ty md
    by (cases "hodo_get_next_logical_number (mapping_info s)") (auto simp: make_hinode_def)
  then show ?thesis by (cases fresh) (simp_all add: hodo_create_def hodo_mkdir_def)
qed

theorem create_overruns_name_witness:
  "hodo_create demo_K (Some demo_vi) demo_vi (demo_dentry\<lparr>d_name := replicate 32 0x61, d_len := 20\<rparr>) 0 demo_state = None"
  by (rule conjunct1 [OF create_overruns_name]) simp_all

section \<open>Finding a file\<close>

lemma sub_lookup_ok:
  assumes "hodo_ok B L cap zstart dinv zdat mnt s" "inode_ok (blocks zdat s) dl hi" "memory_ok K"
    and "dl = dir_number is_root (vi_ino dir) s" "n = find_in_view (name16 d) (view_blocks (dir_view (blocks zdat s) hi))"
    and "n \<noteq> 0 \<Longrightarrow> blocks zdat s (ucast n) = Some t"
  obtains s' vi' where "hodo_sub_lookup (zonefs_kernel B L mnt K) (Some vi) is_root dir d s =
      Some (Inr (if n = 0 then None else Some vi'), touch K dir, s')"
    "vi' = vi\<lparr>vi_ino := ucast (hi_ino t), vi_op := Hodo_Dir_Inode_Ops, vi_fop := Hodo_File_Ops, vi_mode := hi_mode t,
       vi_uid := hi_uid t, vi_gid := hi_gid t, vi_ctime := hi_ctime t, vi_mtime := hi_mtime t, vi_atime := hi_atime t\<rparr>"
    "same_store (zonefs_ok B L cap zstart dinv zdat) (zonefs_data zdat) s s'"
proof -
  let ?K = "zonefs_kernel B L mnt K" and ?same = "same_store (zonefs_ok B L cap zstart dinv zdat) (zonefs_data zdat)"
  have k9: "length (k_stack ?K 9) = 4096" using assms(3) by (simp add: memory_ok_def)
  have tk: "touch ?K dir = touch K dir" by (simp add: touch_def)
  obtain s1 where s1: "hodo_read_struct ?K dl (k_stack ?K 9) HODO_DATABLOCK_SIZE s = Some (4096, hi, s1)" "?same s s1"
    "hodo_ok B L cap zstart dinv zdat mnt s1" "blocks zdat s1 = blocks zdat s"
    by (rule zonefs.read_block [OF assms(1) inode_okD(1) [OF assms(2)] k9])
  have i1: "inode_ok (blocks zdat s1) dl hi" using assms(2) s1(4) by simp
  obtain b where b: "k_kmalloc ?K 2 = Some b" "length b = 4096" using memory_okD [OF assms(3)] by auto
  obtain s2 where s2: "find_inode_number ?K hi (name16 d) s1 = Some (n, s2)" "?same s1 s2"
    using zonefs.find_inode_number_ok [OF s1(3) i1 b, of "name16 d"] s1(4) assms(5) by metis
  have s02: "?same s s2" by (rule same_store_trans [OF s1(2) s2(2)])
  have ok2: "hodo_ok B L cap zstart dinv zdat mnt s2" "blocks zdat s2 = blocks zdat s"
    using same_storeD(1,2) [OF s02] assms(1) by simp_all
  show thesis
  proof (cases "n = 0")
    case True
    then show thesis using that [OF _ refl s02] s1(1) s2(1) assms(4) tk by (simp add: hodo_sub_lookup_def)
  next
    case False
    then have t: "blocks zdat s2 (ucast n) = Some t" using assms(6) ok2(2) by simp
    obtain s3 where s3: "hodo_read_struct ?K (ucast n) zero_block HODO_DATABLOCK_SIZE s2 = Some (4096, t, s3)" "?same s2 s3"
      by (rule zonefs.read_block [OF ok2(1) t zero_block_ptrs(1)])
    show thesis
      using that [OF _ refl same_store_trans [OF s02 s3(2)]] s3(1) s1(1) s2(1) assms(4) tk False
      by (simp add: hodo_sub_lookup_def)
  qed
qed

text \<open>\<open>hodo_sub_lookup\<close> of a name that the directory does not have gives a negative dentry; of a
  name it has, an inode with the stored number, mode and owner. The inode always gets the
  operations of a file, also for a directory, and its size is not set.\<close>

theorem lookup_builds_inode:
  assumes "hodo_ok B L cap zstart dinv zdat mnt s" "inode_ok (blocks zdat s) dl hi" "memory_ok K"
    and "dl = dir_number is_root (vi_ino dir) s" "n = find_in_view (name16 d) (view_blocks (dir_view (blocks zdat s) hi))"
    and "n \<noteq> 0 \<longrightarrow> blocks zdat s (ucast n) = Some t"
  shows "\<exists>s' r. hodo_sub_lookup (zonefs_kernel B L mnt K) (Some vi) is_root dir d s = Some (Inr r, touch K dir, s') \<and>
    hodo_ok B L cap zstart dinv zdat mnt s' \<and> blocks zdat s' = blocks zdat s \<and>
    (if n = 0 then r = None
     else \<exists>vi'. r = Some vi' \<and> vi_ino vi' = ucast (hi_ino t) \<and> vi_mode vi' = hi_mode t \<and>
       vi_uid vi' = hi_uid t \<and> vi_gid vi' = hi_gid t \<and> vi_size vi' = vi_size vi \<and> vi_fop vi' = Hodo_File_Ops)"
proof -
  obtain s' vi' where s': "hodo_sub_lookup (zonefs_kernel B L mnt K) (Some vi) is_root dir d s =
      Some (Inr (if n = 0 then None else Some vi'), touch K dir, s')"
    "vi' = vi\<lparr>vi_ino := ucast (hi_ino t), vi_op := Hodo_Dir_Inode_Ops, vi_fop := Hodo_File_Ops, vi_mode := hi_mode t,
       vi_uid := hi_uid t, vi_gid := hi_gid t, vi_ctime := hi_ctime t, vi_mtime := hi_mtime t, vi_atime := hi_atime t\<rparr>"
    "same_store (zonefs_ok B L cap zstart dinv zdat) (zonefs_data zdat) s s'"
    by (rule sub_lookup_ok [OF assms(1-5) mp [OF assms(6)]])
  then show ?thesis using same_storeD(1,2) [OF s'(3)] assms(1) by simp
qed

theorem lookup_builds_inode_witness:
  "\<exists>s s' dir'. demo_ok s \<and> hodo_sub_lookup demo_K (Some demo_vi) True demo_vi demo_dentry s = Some (Inr None, dir', s')"
proof -
  obtain s root where s: "demo_ok s" "inode_ok (blocks (\<lambda>d. d) s) 16 root"
    "dir_view (blocks (\<lambda>d. d) s) root = replicate 10 None" "starting_logical_number (mapping_info s) = 16"
    using demo_init by metis
  have d: "16 = dir_number True (vi_ino demo_vi) s" by (simp add: dir_number_def s(4))
  have n: "0 = find_in_view (name16 demo_dentry) (view_blocks (dir_view (blocks (\<lambda>d. d) s) root))"
    by (simp add: s(3))
  have t: "(0 :: u64) \<noteq> 0 \<longrightarrow> blocks (\<lambda>d. d) s (ucast (0 :: u64)) = Some zero_block" by simp
  from lookup_builds_inode [OF s(1,2) demo_memory d n t, of demo_vi] show ?thesis
    using s(1) by auto
qed


section \<open>Removing a directory\<close>

text \<open>C38: \<open>hodo_rmdir\<close> refuses a directory that has an entry, with \<open>-ENOTEMPTY\<close>, and changes no
  block; the directories \<open>seq\<close> and \<open>cnv\<close> are never removed.\<close>

theorem rmdir_keeps_nonempty:
  assumes "hodo_ok B L cap zstart dinv zdat mnt s" "d_inode d = Some vi" "memory_ok K"
    and "inode_ok (blocks zdat s) (dir_number target_is_root (vi_ino vi) s) hi"
    and "e \<in> set (view_dirents (dir_view (blocks zdat s) hi))" "is_dirent_valid e"
  shows "\<exists>s'. hodo_rmdir (zonefs_kernel B L mnt K) is_root target_is_root dir d s =
      Some (if is_zone_dir (d_name d) then 0 else - ENOTEMPTY, dir, s') \<and>
    blocks zdat s' = blocks zdat s \<and> hodo_ok B L cap zstart dinv zdat mnt s'"
proof -
  obtain b where b: "k_kmalloc (zonefs_kernel B L mnt K) 9 = Some b" "length b = 4096"
    using memory_okD [OF assms(3)] by auto
  have st: "length (k_stack (zonefs_kernel B L mnt K) 2) = 4096" using assms(3) by (simp add: memory_ok_def)
  obtain s' where s': "check_directory_empty (zonefs_kernel B L mnt K) target_is_root (vi_ino vi) s =
      Some (blocks_zero (blocks zdat s) (inode_directs hi), s')"
    "same_store (zonefs_ok B L cap zstart dinv zdat) (zonefs_data zdat) s s'"
    by (rule zonefs.check_directory_empty_ok [OF assms(1,4) st b])
  have "e \<in> set (filter is_dirent_valid (view_dirents (dir_view (blocks zdat s) hi)))" using assms(5,6) by simp
  then have "\<not> blocks_zero (blocks zdat s) (inode_directs hi)"
    using blocks_zero_no_dirents [OF _ assms(4)] by (metis empty_iff empty_set)
  then show ?thesis
    using s'(1) same_storeD(1,2) [OF s'(2)] assms(1,2) by (simp add: hodo_rmdir_def)
qed

theorem rmdir_keeps_nonempty_witness:
  "\<exists>s s'. demo_ok s \<and>
     hodo_rmdir demo_K True False demo_vi (demo_dentry\<lparr>d_inode := Some demo_vi\<rparr>) s = Some (- ENOTEMPTY, demo_vi, s')"
proof -
  obtain s hi where s: "demo_ok s" "inode_ok (blocks (\<lambda>d. d) s) 16 hi"
    "dir_view (blocks (\<lambda>d. d) s) hi = Some (new_entries (stored_dirent zero_dirent demo_file)) # replicate 9 None"
    using demo_with_file by metis
  let ?d = "demo_dentry\<lparr>d_inode := Some demo_vi\<rparr>" and ?e = "stored_dirent zero_dirent demo_file"
  have i: "inode_ok (blocks (\<lambda>d. d) s) (dir_number False (vi_ino demo_vi) s) hi"
    using s(2) by (simp add: dir_number_def demo_vi_def)
  have "?e \<in> set (filter is_dirent_valid (new_entries ?e))" unfolding demo_file_entries(1) by simp
  then have "is_dirent_valid ?e" by simp
  moreover have "?e \<in> set (view_dirents (dir_view (blocks (\<lambda>d. d) s) hi))"
    unfolding s(3) by (simp add: view_dirents_def view_blocks_def new_entries_def)
  ultimately have e: "?e \<in> set (view_dirents (dir_view (blocks (\<lambda>d. d) s) hi))" "is_dirent_valid ?e"
    by simp_all
  have d: "d_inode ?d = Some demo_vi" by simp
  have n: "\<not> is_zone_dir (d_name ?d)" by (simp add: is_zone_dir_def strcmp_eq_def demo_dentry_def)
  from rmdir_keeps_nonempty [OF s(1) d demo_memory i e, of True demo_vi] show ?thesis
    using s(1) n by auto
qed

end
