(* ===== verification/Hodo_System.thy ===== *)
theory Hodo_System
  imports Hodo_Vfs "HOL-Library.Multiset"
begin

text \<open>
  The file system as a whole: an abstract file system of numbered files and directories, the
  relation between it and the blocks of the store, and the proof that every sequence of creations of
  files and directories, look-ups, listings, writes and reads that the abstract file system allows
  has, on the code's model, results that the abstract file system permits. Making a directory also
  collects garbage, so these runs include the collector.

  Left out of the sequences: removing (\<open>unlink_remaps_number\<close> shows that it does not keep the
  store consistent), and files with indirect blocks.
\<close>

section \<open>The abstract file system\<close>

text \<open>A file is its bytes; a directory maps names to numbers.\<close>

datatype node = File bytes | Dir "bytes \<Rightarrow> u32 option"

type_synonym afs = "u32 \<Rightarrow> node option"

text \<open>The names the file system treats as its own: one to sixteen bytes, without a zero byte, and not
  those of the directories of zone files.\<close>

definition valid_name :: "bytes \<Rightarrow> bool" where
  "valid_name nm \<longleftrightarrow> nm \<noteq> [] \<and> length nm \<le> 16 \<and> 0 \<notin> set nm \<and>
     nm \<noteq> map of_char ''seq'' \<and> nm \<noteq> map of_char ''cnv''"

definition pad_name :: "bytes \<Rightarrow> bytes" where
  "pad_name nm = nm @ replicate (16 - length nm) 0"

lemma length_pad_name: "length nm \<le> 16 \<Longrightarrow> length (pad_name nm) = 16"
  by (simp add: pad_name_def)

lemma pad_name_inj:
  assumes "valid_name a" "valid_name b" "pad_name a = pad_name b"
  shows "a = b"
proof -
  have "takeWhile (\<lambda>x. x \<noteq> 0) (pad_name nm) = nm" if "valid_name nm" for nm
  proof -
    have "\<And>x. x \<in> set nm \<Longrightarrow> x \<noteq> 0" using that by (metis valid_name_def)
    then show ?thesis by (simp add: pad_name_def takeWhile_append2 del: takeWhile_replicate) (simp add: takeWhile_replicate)
  qed
  then show ?thesis using assms by metis
qed

lemma pad_name_not_zero: "valid_name nm \<Longrightarrow> pad_name nm \<noteq> replicate 16 0"
  by (cases nm) (auto simp: valid_name_def pad_name_def numeral_eq_Suc)

section \<open>Directories\<close>

text \<open>The slots of a directory are clear or hold a valid entry, and the valid entries are the
  bindings of the map, each name once.\<close>

definition valid_entries :: "dir_view \<Rightarrow> bytes list" where
  "valid_entries v = filter is_dirent_valid (view_dirents v)"

definition entry_key :: "bytes \<Rightarrow> bytes \<times> u8 \<times> u64" where
  "entry_key e = (de_name e, de_name_len e, de_ino e)"

definition dir_repr :: "dir_view \<Rightarrow> (bytes \<Rightarrow> u32 option) \<Rightarrow> bool" where
  "dir_repr v m \<longleftrightarrow>
     (\<forall>e \<in> set (view_dirents v). is_dirent_valid e \<or> e = zero_dirent) \<and>
     distinct (map de_name (valid_entries v)) \<and>
     entry_key ` set (valid_entries v) = {(pad_name nm, of_nat (length nm), ucast n) |nm n. m nm = Some n} \<and>
     (\<forall>nm \<in> dom m. valid_name nm)"

lemma zero_dirent_simps: "\<not> is_dirent_valid zero_dirent" "de_name zero_dirent = replicate 16 0" "length zero_dirent = 40"
  by (simp_all add: is_dirent_valid_def zero_dirent_def u8_at_def get_bytes_def SIZEOF_DIRENT_def de_name_def min_def)

lemma find_in_view_unique:
  assumes "\<forall>e \<in> set (concat bs). de_name e = name \<longrightarrow> de_ino e = i" "e \<in> set (concat bs)" "de_name e = name" "i \<noteq> 0"
  shows "find_in_view name bs = i"
  using assms
proof (induction bs)
  case (Cons ds bs)
  show ?case
  proof (cases "find (\<lambda>d. de_name d = name) ds")
    case None
    then have "e \<notin> set ds" using Cons.prems(3) by (auto simp: find_None_iff)
    then have "find_in_view name bs = i" using Cons.prems by (intro Cons.IH) auto
    then show ?thesis using None by (simp add: find_in_entries_def)
  next
    case (Some d)
    then have "de_name d = name" "d \<in> set ds" by (auto simp: find_Some_iff)
    then have "de_ino d = i" using Cons.prems(1) by simp
    then show ?thesis using Some Cons.prems(4) by (simp add: find_in_entries_def)
  qed
qed simp

lemma dir_reprD:
  assumes "dir_repr v m"
  shows "e \<in> set (view_dirents v) \<Longrightarrow> is_dirent_valid e \<or> e = zero_dirent"
    "distinct (map de_name (valid_entries v))"
    "entry_key ` set (valid_entries v) = {(pad_name nm, of_nat (length nm), ucast n) |nm n. m nm = Some n}"
    "m nm = Some n \<Longrightarrow> valid_name nm"
  using assms unfolding dir_repr_def by blast+

lemma set_valid_entries: "set (valid_entries v) = {e \<in> set (view_dirents v). is_dirent_valid e}"
  by (simp add: valid_entries_def)

lemma dir_repr_entry:
  assumes "dir_repr v m" "valid_name nm" "e \<in> set (view_dirents v)" "de_name e = pad_name nm"
  obtains n where "m nm = Some n" "de_ino e = ucast n" "n \<noteq> 0"
proof -
  have "e \<noteq> zero_dirent" using assms(4) pad_name_not_zero [OF assms(2)] zero_dirent_simps(2) by metis
  then have v: "is_dirent_valid e" using dir_reprD(1) [OF assms(1,3)] by simp
  then have "entry_key e \<in> entry_key ` set (valid_entries v)"
    using assms(3) by (intro imageI) (simp add: set_valid_entries)
  then obtain nm' n where n: "de_name e = pad_name nm'" "de_ino e = ucast n" "m nm' = Some n"
    unfolding dir_reprD(3) [OF assms(1)] by (auto simp: entry_key_def)
  have "nm' = nm" using pad_name_inj [OF dir_reprD(4) [OF assms(1) n(3)] assms(2)] n(1) assms(4) by simp
  moreover have "n \<noteq> 0" using v n(2) by (auto simp: is_dirent_valid_def)
  ultimately show thesis using that n by simp
qed

lemma dir_repr_binding:
  assumes "dir_repr v m" "m nm = Some n"
  obtains e where "e \<in> set (view_dirents v)" "de_name e = pad_name nm" "de_ino e = ucast n" "n \<noteq> 0"
proof -
  have "(pad_name nm, of_nat (length nm), ucast n) \<in> entry_key ` set (valid_entries v)"
    unfolding dir_reprD(3) [OF assms(1)] using assms(2) by blast
  then obtain e where "e \<in> set (valid_entries v)" "de_name e = pad_name nm" "de_ino e = ucast n"
    by (auto simp: entry_key_def)
  then have "e \<in> set (view_dirents v)" "de_name e = pad_name nm" "de_ino e = ucast n" "n \<noteq> 0"
    by (auto simp: set_valid_entries is_dirent_valid_def ucast_u32_u64_zero)
  then show thesis by (rule that)
qed

lemma dir_repr_find:
  assumes "dir_repr v m" "valid_name nm"
  shows "find_in_view (pad_name nm) (view_blocks v) = (case m nm of None \<Rightarrow> 0 | Some n \<Rightarrow> ucast n)"
proof (cases "m nm")
  case None
  then have "\<forall>e \<in> set (concat (view_blocks v)). de_name e \<noteq> pad_name nm"
    using dir_repr_entry [OF assms] by (metis option.distinct(1) view_dirents_def)
  then show ?thesis using None by (simp add: find_in_view_none)
next
  case (Some n)
  obtain e where e: "e \<in> set (view_dirents v)" "de_name e = pad_name nm" "n \<noteq> 0"
    by (rule dir_repr_binding [OF assms(1) Some])
  have "\<forall>e \<in> set (concat (view_blocks v)). de_name e = pad_name nm \<longrightarrow> de_ino e = ucast n"
    using dir_repr_entry [OF assms] Some by (metis option.inject view_dirents_def)
  then have "find_in_view (pad_name nm) (view_blocks v) = ucast n"
    by (rule find_in_view_unique) (use e in \<open>simp_all add: view_dirents_def ucast_u32_u64_zero\<close>)
  then show ?thesis using Some by simp
qed

text \<open>Adding an entry adds one valid entry and keeps the other slots clear.\<close>

lemma valid_entries_simps:
  "valid_entries (None # v) = valid_entries v"
  "valid_entries (Some ds # v) = filter is_dirent_valid ds @ valid_entries v"
  "view_dirents (None # v) = view_dirents v" "view_dirents (Some ds # v) = ds @ view_dirents v"
  by (simp_all add: valid_entries_def view_dirents_def view_blocks_def)

lemma mset_filter_update:
  assumes "k < length ds" "\<not> P (ds ! k)" "P x"
  shows "mset (filter P (ds[k := x])) = add_mset x (mset (filter P ds))"
  using assms
proof (induction ds arbitrary: k)
  case (Cons d ds)
  then show ?case by (cases k) auto
qed simp

lemma add_view_entries:
  assumes "add_to_view zero_dirent h v = Some v'" "\<forall>e \<in> set (view_dirents v). is_dirent_valid e \<or> e = zero_dirent"
    and "x = stored_dirent zero_dirent h" "is_dirent_valid x"
  shows "mset (valid_entries v') = add_mset x (mset (valid_entries v)) \<and>
    (\<forall>e \<in> set (view_dirents v'). is_dirent_valid e \<or> e = zero_dirent)"
  using assms
proof (induction zero_dirent h v arbitrary: v' rule: add_to_view.induct)
  case (2 h v)
  have f: "filter is_dirent_valid (new_entries x) = [x]"
    using "2.prems"(4) zero_dirent_simps(1) by (simp add: new_entries_def)
  have v': "v' = Some (new_entries x) # v" using "2.prems"(1,3) by simp
  have s: "set (new_entries x) \<subseteq> {x, zero_dirent}" by (auto simp: new_entries_def)
  show ?case unfolding v' valid_entries_simps f using "2.prems"(2,4) s by (auto simp: valid_entries_simps(3))
next
  case (3 h ds v)
  show ?case
  proof (cases "free_entry ds")
    case None
    then obtain w where w: "add_to_view zero_dirent h v = Some w" "v' = Some ds # w" using "3.prems"(1) by auto
    have "mset (valid_entries w) = add_mset x (mset (valid_entries v)) \<and>
        (\<forall>e \<in> set (view_dirents w). is_dirent_valid e \<or> e = zero_dirent)"
      using "3.prems" by (intro "3.hyps" [OF None w(1)]) (simp_all add: valid_entries_simps)
    then show ?thesis unfolding w(2) valid_entries_simps using "3.prems"(2) by (auto simp: valid_entries_simps)
  next
    case (Some k)
    have k: "k < length ds" "\<not> is_dirent_valid (ds ! k)" using free_entry_SomeD [OF Some] by auto
    have "ds ! k = zero_dirent" using "3.prems"(2) k by (auto simp: valid_entries_simps)
    then have v': "v' = Some (ds[k := x]) # v" using "3.prems"(1,3) Some by simp
    have s: "set (ds[k := x]) \<subseteq> insert x (set ds)" by (rule set_update_subset_insert)
    show ?thesis unfolding v' valid_entries_simps
      using mset_filter_update [of k ds is_dirent_valid x, OF k "3.prems"(4)] "3.prems"(2,4) s by (auto simp: valid_entries_simps)
  qed
qed simp

lemma stored_entry:
  assumes "made_hinode K site flen (d :: dentry) ty mode n h" "fits_name d" "d_len d = length nm" "name16 d = pad_name nm"
    and "valid_name nm" "n \<noteq> 0" "ty = HODO_TYPE_REG \<or> ty = HODO_TYPE_DIR"
  shows "de_name (stored_dirent zero_dirent h) = pad_name nm"
    "entry_key (stored_dirent zero_dirent h) = (pad_name nm, of_nat (length nm), ucast n)"
    "is_dirent_valid (stored_dirent zero_dirent h)"
proof -
  let ?x = "stored_dirent zero_dirent h"
  have h: "length h = 4096" "unat (hi_name_len h) = length nm" "hi_ino h = n" "hi_type h = ty"
    using assms(1,3) by (simp_all add: made_hinode_def)
  have nm: "length nm \<le> 16" "nm \<noteq> []" "0 \<notin> set nm" using assms(5) by (simp_all add: valid_name_def)
  have le: "unat (hi_name_len h) \<le> 16" using h(2) nm(1) by simp
  note f = stored_dirent_fields [OF zero_dirent_simps(3) le h(1)]
  have "clear_behind (d_len d) (name16 d)" "clear_behind (d_len d) (de_name zero_dirent)"
    using nm(1) assms(3,4) zero_dirent_simps(2) by (simp_all add: clear_behind_def pad_name_def)
  then show name: "de_name ?x = pad_name nm" using created_stored_name [OF assms(1,2)] assms(4) f(1) by metis
  have ino: "de_ino ?x = ucast n" using f(2) h(3) by simp
  have "of_nat (unat (hi_name_len h)) = (of_nat (length nm) :: u8)" unfolding h(2) ..
  then have "de_name_len ?x = of_nat (length nm)" using f(4) by simp
  then show "entry_key ?x = (pad_name nm, of_nat (length nm), ucast n)" using name ino by (simp add: entry_key_def)
  have lx: "length ?x = 40" by (rule length_stored_dirent [OF zero_dirent_simps(3) le])
  then obtain y ys where y: "?x = y # ys" by (cases ?x) simp_all
  have "u8_at 0 ?x = de_name ?x ! 0" by (simp add: y de_name_def u8_at_def get_bytes_def)
  also have "\<dots> = nm ! 0" unfolding name using nm(2) by (simp add: pad_name_def nth_append)
  also have "\<dots> \<noteq> 0" using nm(2,3) by (metis length_greater_0_conv nth_mem)
  finally have "u8_at 0 ?x \<noteq> 0" .
  moreover have "hi_name_len h \<noteq> 0" using h(2) nm(2) by auto
  ultimately show "is_dirent_valid ?x" using f(3,4) h(4) ino assms(6,7) by (auto simp: is_dirent_valid_def ucast_u32_u64_zero)
qed

lemma bindings_upd:
  "m a = None \<Longrightarrow> {F nm n |nm n. (m(a \<mapsto> b)) nm = Some n} = insert (F a b) {F nm n |nm n. m nm = Some n}"
  by (auto split: if_splits) (metis option.distinct(1))

lemma dir_repr_add:
  assumes "dir_repr v m" "add_to_view zero_dirent h v = Some v'" "m nm = None" "valid_name nm"
    and x: "de_name (stored_dirent zero_dirent h) = pad_name nm"
      "entry_key (stored_dirent zero_dirent h) = (pad_name nm, of_nat (length nm), ucast n)"
      "is_dirent_valid (stored_dirent zero_dirent h)"
  shows "dir_repr v' (m(nm \<mapsto> n))"
proof -
  define x where "x = stored_dirent zero_dirent h"
  have a: "mset (valid_entries v') = add_mset x (mset (valid_entries v))"
    "\<forall>e \<in> set (view_dirents v'). is_dirent_valid e \<or> e = zero_dirent"
    using add_view_entries [OF assms(2) _ x_def] dir_reprD(1) [OF assms(1)] x(3) by (auto simp: x_def)
  have s: "set (valid_entries v') = insert x (set (valid_entries v))"
    using arg_cong [where f = set_mset, OF a(1)] by simp
  have "pad_name nm \<notin> set (map de_name (valid_entries v))"
  proof
    assume "pad_name nm \<in> set (map de_name (valid_entries v))"
    then obtain e where "e \<in> set (view_dirents v)" "de_name e = pad_name nm" by (auto simp: set_valid_entries)
    then show False using dir_repr_entry [OF assms(1,4)] assms(3) by (metis option.distinct(1))
  qed
  then have "distinct (pad_name nm # map de_name (valid_entries v))" using dir_reprD(2) [OF assms(1)] by simp
  moreover have "mset (map de_name (valid_entries v')) = mset (pad_name nm # map de_name (valid_entries v))"
    using a(1) x(1) by (simp add: x_def)
  ultimately have "distinct (map de_name (valid_entries v'))" by (metis mset_eq_imp_distinct_iff)
  moreover have "entry_key ` set (valid_entries v') =
      {(pad_name nm', of_nat (length nm'), ucast n') |nm' n'. (m(nm \<mapsto> n)) nm' = Some n'}"
    unfolding s image_insert dir_reprD(3) [OF assms(1)] bindings_upd [where m = m, OF assms(3)] x_def x(2) ..
  moreover have "\<forall>nm' \<in> dom (m(nm \<mapsto> n)). valid_name nm'" using dir_reprD(4) [OF assms(1)] assms(4) by auto
  ultimately show ?thesis using a(2) unfolding dir_repr_def by blast
qed

lemma ucast_u64_inj [simp]: "(ucast a :: u64) = ucast b \<longleftrightarrow> a = (b :: u32)"
  by (metis ucast_up_down)

lemma dir_repr_card:
  assumes "dir_repr v m"
  shows "finite (dom m)" "card (dom m) = length (valid_entries v)"
proof -
  let ?f = entry_key and ?g = "\<lambda>(nm, n). (pad_name nm, of_nat (length nm) :: u8, ucast n :: u64)"
  have "{(pad_name nm, of_nat (length nm) :: u8, ucast n :: u64) |nm n. m nm = Some n} = ?g ` {(nm, n). m nm = Some n}" by (force simp: image_iff)
  then have G: "?f ` set (valid_entries v) = ?g ` {(nm, n). m nm = Some n}" using dir_reprD(3) [OF assms] by (rule trans [rotated])
  have inj: "inj_on ?g {(nm, n). m nm = Some n}"
  proof (rule inj_onI)
    fix x y assume a: "x \<in> {(nm, n). m nm = Some n}" "y \<in> {(nm, n). m nm = Some n}" "?g x = ?g y"
    obtain nm n nm' n' where xy: "x = (nm, n)" "y = (nm', n')" by (cases x, cases y)
    then have v: "valid_name nm" "valid_name nm'" using a(1,2) dir_reprD(4) [OF assms] by simp_all
    have "pad_name nm = pad_name nm'" "n = n'" using a(3) xy by simp_all
    then show "x = y" using pad_name_inj [OF v] xy by simp
  qed
  have "finite (?g ` {(nm, n). m nm = Some n})" unfolding G [symmetric] by simp
  then have fin: "finite {(nm, n). m nm = Some n}" using inj by (rule finite_imageD)
  have dom: "dom m = fst ` {(nm, n). m nm = Some n}" by (force simp: dom_def image_iff)
  have "inj_on fst {(nm, n). m nm = Some n}" by (auto intro: inj_onI)
  then have gr: "card (dom m) = card {(nm, n). m nm = Some n}" unfolding dom by (rule card_image)
  show "finite (dom m)" unfolding dom using fin by simp
  have d: "distinct (map fst (map ?f (valid_entries v)))" using dir_reprD(2) [OF assms] by (simp add: comp_def entry_key_def)
  then have "distinct (map ?f (valid_entries v))" by (simp only: distinct_map)
  from distinct_card [OF this] have "card (?f ` set (valid_entries v)) = length (valid_entries v)" by simp
  then show "card (dom m) = length (valid_entries v)" unfolding G gr using card_image [OF inj] by simp
qed

text \<open>A directory has ten blocks of 102 slots.\<close>

lemma dir_has_room:
  assumes "dir_repr v m" "length v = 10" "\<forall>ds. Some ds \<in> set v \<longrightarrow> length ds = DIRENT_SLOTS" "card (dom m) < 1020"
  shows "has_free_slot v"
proof (rule ccontr)
  assume n: "\<not> has_free_slot v"
  have "length (view_dirents v) = length v * DIRENT_SLOTS" if "None \<notin> set v" "\<forall>ds. Some ds \<in> set v \<longrightarrow> length ds = DIRENT_SLOTS"
    for v :: dir_view using that
  proof (induction v)
    case (Cons a v)
    then show ?case by (cases a) (auto simp: valid_entries_simps)
  qed (simp add: view_dirents_def view_blocks_def)
  then have "length (view_dirents v) = 1020" using n assms(2,3) by (simp add: has_free_slot_def DIRENT_SLOTS_def)
  moreover have "filter is_dirent_valid (view_dirents v) = view_dirents v" using n by (simp add: has_free_slot_def)
  ultimately show False using dir_repr_card(2) [OF assms(1)] assms(4) by (simp add: valid_entries_def)
qed

section \<open>Nodes and their blocks\<close>

definition node_repr :: "(u32 \<Rightarrow> bytes option) \<Rightarrow> u32 \<Rightarrow> node \<Rightarrow> bool" where
  "node_repr C n nd \<longleftrightarrow>
     (case nd of
        File bs \<Rightarrow> file_ok C n (the (C n)) \<and> file_data C (the (C n)) = bs
      | Dir m \<Rightarrow> inode_ok C n (the (C n)) \<and> dir_repr (dir_view C (the (C n))) m)"

text \<open>The numbers a node uses: its own and those of its blocks.\<close>

definition owned :: "(u32 \<Rightarrow> bytes option) \<Rightarrow> u32 \<Rightarrow> u32 set" where
  "owned C n = insert n {l \<in> set (inode_directs (the (C n))). l \<noteq> 0}"

definition represents :: "(u32 \<Rightarrow> bytes option) \<Rightarrow> afs \<Rightarrow> bool" where
  "represents C A \<longleftrightarrow> A 0 = None \<and>
     (\<forall>n nd. A n = Some nd \<longrightarrow> node_repr C n nd) \<and>
     (\<forall>n1 n2. A n1 \<noteq> None \<and> A n2 \<noteq> None \<and> n1 \<noteq> n2 \<longrightarrow> owned C n1 \<inter> owned C n2 = {})"

lemma node_repr_inode: "node_repr C n nd \<Longrightarrow> inode_ok C n (the (C n))"
  by (simp add: node_repr_def file_ok_def split: node.splits)

lemma owned_mapped:
  assumes "node_repr C n nd" "l \<in> owned C n"
  shows "C l \<noteq> None"
  using node_repr_inode [OF assms(1)] assms(2) by (auto simp: owned_def inode_ok_def directs_mapped_def)

lemma node_repr_cong:
  assumes "node_repr C n nd" "\<And>l. l \<in> owned C n \<Longrightarrow> C' l = C l"
  shows "node_repr C' n nd" "owned C' n = owned C n"
proof -
  have n: "C' n = C n" using assms(2) by (simp add: owned_def)
  let ?h = "the (C n)"
  have d: "l \<in> set (inode_directs ?h) \<Longrightarrow> l \<noteq> 0 \<Longrightarrow> C' l = C l" for l
    using assms(2) by (simp add: owned_def)
  have i: "inode_ok C' n ?h = inode_ok C n ?h" using n d by (auto simp: inode_ok_def directs_mapped_def)
  have v: "dir_view C' ?h = dir_view C ?h" "data_view C' ?h = data_view C ?h"
    using d by (simp_all add: dir_view_def data_view_def is_block_logical_number_valid_def)
  show "node_repr C' n nd" using assms(1) n i v by (simp add: node_repr_def file_ok_def file_data_def split: node.splits)
  show "owned C' n = owned C n" using n by (simp add: owned_def)
qed

lemma representsD:
  assumes "represents C A"
  shows "A n = Some nd \<Longrightarrow> node_repr C n nd" "A n = Some nd \<Longrightarrow> n \<noteq> 0"
    "A n1 \<noteq> None \<Longrightarrow> A n2 \<noteq> None \<Longrightarrow> n1 \<noteq> n2 \<Longrightarrow> owned C n1 \<inter> owned C n2 = {}"
  using assms unfolding represents_def by (blast, metis option.distinct(1), blast)

text \<open>One node changes, inside its own blocks and unmapped ones.\<close>

lemma represents_update:
  assumes R: "represents C A" and A: "A n \<noteq> None" and nd: "node_repr C' n nd"
    and fr: "file_frame C n (the (C n)) C' (the (C' n))"
  shows "represents C' (A(n \<mapsto> nd))" "k \<noteq> n \<Longrightarrow> A k = Some x \<Longrightarrow> owned C' k = owned C k"
proof -
  have nz: "l \<noteq> 0" if "A k = Some x" "l \<in> owned C k" for k x l
    using representsD(2) [OF R that(1)] that(2) by (auto simp: owned_def)
  have agree: "C' l = C l" if k: "A k = Some x" "k \<noteq> n" "l \<in> owned C k" for k x l
  proof -
    have "l \<notin> owned C n" using representsD(3) [OF R _ A k(2)] k(1,3) by blast
    then show ?thesis
      using fr owned_mapped [OF representsD(1) [OF R k(1)] k(3)] nz [OF k(1,3)] by (simp add: file_frame_def owned_def)
  qed
  have other: "node_repr C' k x \<and> owned C' k = owned C k" if k: "A k = Some x" "k \<noteq> n" for k x
    using node_repr_cong [OF representsD(1) [OF R k(1)]] agree [OF k] by blast
  then show "k \<noteq> n \<Longrightarrow> A k = Some x \<Longrightarrow> owned C' k = owned C k" by blast
  have mine: "owned C' n \<inter> owned C k = {}" if k: "A k = Some x" "k \<noteq> n" for k x
  proof -
    have "l \<notin> owned C k" if l: "l \<in> owned C' n" for l
    proof
      assume lk: "l \<in> owned C k"
      have "l \<notin> owned C n" using representsD(3) [OF R _ A k(2)] k(1) lk by blast
      then show False
        using l fr owned_mapped [OF representsD(1) [OF R k(1)] lk] by (auto simp: owned_def file_frame_def)
    qed
    then show ?thesis by blast
  qed
  show "represents C' (A(n \<mapsto> nd))"
    unfolding represents_def
  proof (intro conjI allI impI)
    show "(A(n \<mapsto> nd)) 0 = None" using R A by (auto simp: represents_def)
    show "node_repr C' k x" if "(A(n \<mapsto> nd)) k = Some x" for k x
      using that nd other by (auto split: if_splits)
    fix a b assume ab: "(A(n \<mapsto> nd)) a \<noteq> None \<and> (A(n \<mapsto> nd)) b \<noteq> None \<and> a \<noteq> b"
    then consider "a = n" "b \<noteq> n" | "b = n" "a \<noteq> n" | "a \<noteq> n" "b \<noteq> n" by metis
    then show "owned C' a \<inter> owned C' b = {}"
    proof cases
      case 1
      then obtain x where "A b = Some x" using ab by auto
      then show ?thesis using 1 mine other by blast
    next
      case 2
      then obtain x where "A a = Some x" using ab by auto
      then show ?thesis using 2 mine other by blast
    next
      case 3
      then obtain x y where "A a = Some x" "A b = Some y" using ab by auto
      then show ?thesis using 3 ab other representsD(3) [OF R] by blast
    qed
  qed
qed

text \<open>A node is added that uses no number of another node.\<close>

lemma represents_add:
  assumes R: "represents C A" and n: "n \<noteq> 0" "A n = None" and nd: "node_repr C n nd"
    and own: "\<And>k x. A k = Some x \<Longrightarrow> owned C n \<inter> owned C k = {}"
  shows "represents C (A(n \<mapsto> nd))"
  unfolding represents_def
proof (intro conjI allI impI)
  show "(A(n \<mapsto> nd)) 0 = None" using R n(1) by (simp add: represents_def)
  show "node_repr C k x" if "(A(n \<mapsto> nd)) k = Some x" for k x
    using that nd representsD(1) [OF R] by (auto split: if_splits)
  fix a b assume ab: "(A(n \<mapsto> nd)) a \<noteq> None \<and> (A(n \<mapsto> nd)) b \<noteq> None \<and> a \<noteq> b"
  then consider "a = n" "A b \<noteq> None" | "b = n" "A a \<noteq> None" | "A a \<noteq> None" "A b \<noteq> None"
    by (metis fun_upd_apply)
  then show "owned C a \<inter> owned C b = {}"
    using ab own representsD(3) [OF R] by cases blast+
qed

section \<open>Operations and results\<close>

datatype fs_op =
    Create u32 bytes u16
  | Mkdir u32 bytes u16
  | Lookup u32 bytes
  | List u32
  | Write u32 nat bytes
  | Read u32 nat nat

datatype fs_res =
    Created u32
  | Found "u32 option"
  | Listed "(string \<times> nat) list"
  | Count int
  | Data int bytes
  | Failed int

text \<open>A name as \<open>readdir\<close> shows it.\<close>

definition shown_name :: "bytes \<Rightarrow> string" where
  "shown_name nm = map (\<lambda>b. char_of (unat b)) nm"

text \<open>What the abstract file system asks of an operation. A read must not end at the end of a file of
  full blocks (\<open>read_at_block_boundary_faults\<close>); a directory has 1020 slots, a file ten blocks.\<close>

fun enabled :: "afs \<Rightarrow> fs_op \<Rightarrow> bool" where
  "enabled A (Create d nm mode) \<longleftrightarrow>
     (\<exists>m. A d = Some (Dir m) \<and> valid_name nm \<and> m nm = None \<and> card (dom m) < 1020)"
| "enabled A (Mkdir d nm mode) \<longleftrightarrow>
     (\<exists>m. A d = Some (Dir m) \<and> valid_name nm \<and> m nm = None \<and> card (dom m) < 1020)"
| "enabled A (Lookup d nm) \<longleftrightarrow> (\<exists>m. A d = Some (Dir m) \<and> valid_name nm)"
| "enabled A (List d) \<longleftrightarrow> (\<exists>m. A d = Some (Dir m))"
| "enabled A (Write n p bs) \<longleftrightarrow>
     (\<exists>old. A n = Some (File old) \<and> bs \<noteq> [] \<and> p \<le> length old \<and> p + length bs \<le> 10 * HODO_DATA_SIZE)"
| "enabled A (Read n p cnt) \<longleftrightarrow>
     (\<exists>old. A n = Some (File old) \<and> p < 2 ^ 63 \<and> cnt < 2 ^ 64 \<and>
        (p + cnt < length old \<or> length old \<le> p \<or> \<not> HODO_DATA_SIZE dvd length old))"

text \<open>The state after an operation with the given result, \<open>None\<close> where the result is not one that the
  abstract file system permits. A new file or directory has a number that is not in use; a write cuts the file
  off behind the written bytes, as the code does (\<open>overwrite_drops_tail\<close>).\<close>

fun spec_next :: "afs \<Rightarrow> fs_op \<Rightarrow> fs_res \<Rightarrow> afs option" where
  "spec_next A (Create d nm mode) (Created n) =
     (case A d of
        Some (Dir m) \<Rightarrow> if n \<noteq> 0 \<and> A n = None then Some (A(d \<mapsto> Dir (m(nm \<mapsto> n)), n \<mapsto> File [])) else None
      | _ \<Rightarrow> None)"
| "spec_next A (Mkdir d nm mode) (Created n) =
     (case A d of
        Some (Dir m) \<Rightarrow> if n \<noteq> 0 \<and> A n = None then Some (A(d \<mapsto> Dir (m(nm \<mapsto> n)), n \<mapsto> Dir Map.empty)) else None
      | _ \<Rightarrow> None)"
| "spec_next A (Lookup d nm) (Found r) =
     (case A d of Some (Dir m) \<Rightarrow> if r = m nm then Some A else None | _ \<Rightarrow> None)"
| "spec_next A (List d) (Listed xs) =
     (case A d of
        Some (Dir m) \<Rightarrow>
          if distinct xs \<and> set xs = {(shown_name nm, unat n) |nm n. m nm = Some n} then Some A else None
      | _ \<Rightarrow> None)"
| "spec_next A (Write n p bs) (Count r) =
     (case A n of
        Some (File old) \<Rightarrow> if r = int (length bs) then Some (A(n \<mapsto> File (take p old @ bs))) else None
      | _ \<Rightarrow> None)"
| "spec_next A (Read n p cnt) (Data r got) =
     (case A n of
        Some (File old) \<Rightarrow> if got = take cnt (drop p old) \<and> r = int (length got) then Some A else None
      | _ \<Rightarrow> None)"
| "spec_next A _ _ = None"

text \<open>What an operation may take of the zone, in blocks; at most two thirds of them get new numbers.\<close>

fun cost :: "fs_op \<Rightarrow> nat" where
  "cost (Create d nm mode) = 3"
| "cost (Mkdir d nm mode) = 4"
| "cost (Write n p bs) = 2 * blocks_touched p (length bs)"
| "cost _ = 0"

section \<open>The code's operations\<close>

text \<open>The operations of zonefs behind the entry points, and the kernel's \<open>dir_emit_dots\<close>, which emits
  two entries at the start of a directory.\<close>

record 'z vfs_env =
  ev_lookup :: "'z \<Rightarrow> ((int + vinode option) \<times> vinode) \<times> 'z"
  ev_iterate :: "dir_context \<Rightarrow> 'z \<Rightarrow> (int \<times> dir_context) \<times> 'z"
  ev_write :: "kiocb \<Rightarrow> iov_iter \<Rightarrow> 'z \<Rightarrow> (int \<times> kiocb \<times> iov_iter) \<times> 'z"
  ev_read :: "kiocb \<Rightarrow> nat \<Rightarrow> 'z \<Rightarrow> (int \<times> bytes \<times> kiocb) \<times> 'z"
  ev_dots :: "dir_context \<Rightarrow> bool \<times> dir_context"

definition dots_ok :: "'z vfs_env \<Rightarrow> bool" where
  "dots_ok E \<longleftrightarrow> (\<exists>dd. ev_dots E \<lparr>ctx_pos = 0, ctx_out = []\<rparr> = (True, \<lparr>ctx_pos = 2, ctx_out = dd\<rparr>) \<and> length dd = 2)"

definition fresh_vinode :: vinode where
  "fresh_vinode = \<lparr>vi_ino = 0, vi_size = 0, vi_mode = 0, vi_uid = 0, vi_gid = 0, vi_nlink = 1,
     vi_op = Hodo_File_Inode_Ops, vi_fop = Hodo_File_Ops, vi_atime = [], vi_mtime = [], vi_ctime = []\<rparr>"

definition vinode_of :: "u32 \<Rightarrow> vinode" where
  "vinode_of n = fresh_vinode\<lparr>vi_ino := ucast n\<rparr>"

definition dentry_of :: "bytes \<Rightarrow> dentry" where
  "dentry_of nm = \<lparr>d_name = nm @ replicate (32 - length nm) 0, d_len = length nm, d_parent_name = [0x2F, 0], d_inode = None\<rparr>"

definition iocb_at :: "nat \<Rightarrow> kiocb" where
  "iocb_at p = \<lparr>ki_pos = int p, ki_direct = False, ki_nowait = False, ki_append = False, ki_sync = False,
     ki_largefile = True, ki_rlimit = None, ki_lock_free = True\<rparr>"

definition is_root :: "u32 \<Rightarrow> 'z hodo_state \<Rightarrow> bool" where
  "is_root d s \<longleftrightarrow> d = starting_logical_number (mapping_info s)"

fun run_op :: "'z kernel \<Rightarrow> 'z vfs_env \<Rightarrow> fs_op \<Rightarrow> 'z hodo_state \<Rightarrow> (fs_res \<times> 'z hodo_state) option" where
  "run_op K E (Create d nm mode) s =
     do {
       (r, dir, vi, s1) \<leftarrow> hodo_create K (Some fresh_vinode) (vinode_of d) (dentry_of nm) mode s;
       Some (if r = 0 then Created (ucast (vi_ino vi)) else Failed r, s1)
     }"
| "run_op K E (Mkdir d nm mode) s =
     do {
       (r, vi, s1) \<leftarrow> hodo_mkdir K (Some fresh_vinode) (vinode_of d) (dentry_of nm) mode s;
       Some (if r = 0 then Created (ucast (vi_ino vi)) else Failed r, s1)
     }"
| "run_op K E (Lookup d nm) s =
     do {
       (r, dir, s1) \<leftarrow> hodo_lookup K (ev_lookup E) (Some fresh_vinode) (is_root d s) (vinode_of d) (dentry_of nm) s;
       Some (case r of Inl e \<Rightarrow> Failed e | Inr vi \<Rightarrow> Found (map_option (\<lambda>v. ucast (vi_ino v)) vi), s1)
     }"
| "run_op K E (List d) s =
     do {
       (r, ctx, dir, s1) \<leftarrow> hodo_readdir K (ev_iterate E) (\<lambda>_ _. True) (ev_dots E) (is_root d s) (vinode_of d)
         (dentry_of [0x2F]) \<lparr>ctx_pos = 0, ctx_out = []\<rparr> s;
       Some (if r < 0 then Failed r else Listed (map (\<lambda>(nm, n, ty). (nm, n)) (drop 2 (ctx_out ctx))), s1)
     }"
| "run_op K E (Write n p bs) s =
     do {
       (r, iocb, it, vi, s1) \<leftarrow> hodo_file_write_iter K (ev_write E) (vinode_of n) (iocb_at p)
         \<lparr>iov_count = length bs, iov_data = bs\<rparr> s;
       Some (Count r, s1)
     }"
| "run_op K E (Read n p cnt) s =
     do {
       (r, got, iocb, s1) \<leftarrow> hodo_file_read_iter K (ev_read E) (ucast n) (iocb_at p) cnt s;
       Some (Data r got, s1)
     }"

section \<open>The relation\<close>

definition closed_afs :: "afs \<Rightarrow> bool" where
  "closed_afs A \<longleftrightarrow> (\<forall>d m nm n. A d = Some (Dir m) \<and> m nm = Some n \<longrightarrow> A n \<noteq> None)"

text \<open>
  Room for \<open>k\<close> more blocks in the zone, with the swap zone empty; and as many numbers in use as the
  blocks written so far allow, so that the collector finds few enough blocks and leaves room behind.
\<close>

definition budget :: "('d \<Rightarrow> nat \<Rightarrow> bytes) \<Rightarrow> 'd zonefs_state hodo_state \<Rightarrow> nat \<Rightarrow> bool" where
  "budget zdat s k \<longleftrightarrow> room_in zdat {swap_zone} s k \<and>
     3 * NUMBER_MAPPING_TABLE_ENTRY + 2 * k \<le> 2 * BLOCKS_PER_ZONE + 1 + 3 * free_numbers s"

definition fs_rel ::
  "'d blkdev \<Rightarrow> 'd iomap_lib \<Rightarrow> (nat \<Rightarrow> int) \<Rightarrow> (nat \<Rightarrow> bool) \<Rightarrow> ('d \<Rightarrow> bool) \<Rightarrow> ('d \<Rightarrow> nat \<Rightarrow> bytes) \<Rightarrow> string \<Rightarrow>
   nat \<Rightarrow> 'd zonefs_state hodo_state \<Rightarrow> afs \<Rightarrow> bool"
where
  "fs_rel B L cap zstart dinv zdat mnt k s A \<longleftrightarrow>
     hodo_ok B L cap zstart dinv zdat mnt s \<and> represents (blocks zdat s) A \<and> closed_afs A \<and>
     budget zdat s k"

lemma budgetD:
  assumes "budget zdat s k"
  shows "room_in zdat {swap_zone} s k" "k \<le> free_numbers s"
    "3 * NUMBER_MAPPING_TABLE_ENTRY + 2 * k \<le> 2 * BLOCKS_PER_ZONE + 1 + 3 * free_numbers s"
proof -
  show "room_in zdat {swap_zone} s k" and b: "3 * NUMBER_MAPPING_TABLE_ENTRY + 2 * k \<le> 2 * BLOCKS_PER_ZONE + 1 + 3 * free_numbers s"
    using assms by (simp_all add: budget_def)
  then show "k \<le> free_numbers s"
    using free_numbers_le [of s] by (simp add: NUMBER_MAPPING_TABLE_ENTRY_eq BLOCKS_PER_ZONE_eq)
qed

lemma budget_spend:
  assumes "budget zdat s (c + k)" "room_in zdat {swap_zone} s' k" "free_numbers s \<le> d + free_numbers s'" "3 * d \<le> 2 * c"
  shows "budget zdat s' k"
  using budgetD(3) [OF assms(1)] assms(2-4) unfolding budget_def by simp

text \<open>The uninitialised objects that become the inode and the entry of a new node are clear.\<close>

definition clear_stack :: "'z kernel \<Rightarrow> bool" where
  "clear_stack K \<longleftrightarrow> memory_ok K \<and> k_stack K 5 = zero_block \<and> k_stack K 8 = zero_block \<and> k_stack K 1 = zero_dirent"

lemma vinode_of_simps [simp]: "vi_ino (vinode_of n) = ucast n" "dir_number (is_root d s) (ucast d) s = d"
  by (simp_all add: vinode_of_def dir_number_def is_root_def)

lemma dentry_of_simps:
  assumes "valid_name nm"
  shows "fits_name (dentry_of nm)" "name16 (dentry_of nm) = pad_name nm" "d_len (dentry_of nm) = length nm"
    "\<not> is_zone_dir (d_name (dentry_of nm))" "\<not> is_zone_dir (d_parent_name (dentry_of nm))"
proof -
  have l: "length nm \<le> 16" "\<And>x. x \<in> set nm \<Longrightarrow> x \<noteq> 0" "0 < 32 - length nm"
    using assms by (auto simp: valid_name_def)
  show "fits_name (dentry_of nm)" "name16 (dentry_of nm) = pad_name nm" "d_len (dentry_of nm) = length nm"
    using l(1) by (simp_all add: fits_name_def dentry_of_def name16_def pad_name_def HODO_MAX_NAME_LEN_def min_def)
  have "takeWhile (\<lambda>b. b \<noteq> 0) (nm @ replicate (32 - length nm) 0) = nm"
    using l(2) by (simp add: takeWhile_append2 takeWhile_eq_Nil_iff)
  then show "\<not> is_zone_dir (d_name (dentry_of nm))"
    using assms by (simp add: is_zone_dir_def strcmp_eq_def dentry_of_def valid_name_def)
  show "\<not> is_zone_dir (d_parent_name (dentry_of nm))"
    by (simp add: is_zone_dir_def strcmp_eq_def dentry_of_def)
qed

section \<open>One operation\<close>

lemma fs_relD:
  assumes "fs_rel B L cap zstart dinv zdat mnt k s A"
  shows "hodo_ok B L cap zstart dinv zdat mnt s" "represents (blocks zdat s) A" "closed_afs A"
    "room_in zdat {swap_zone} s k" "k \<le> free_numbers s"
    "A n = Some (Dir m) \<Longrightarrow> inode_ok (blocks zdat s) n (the (blocks zdat s n))"
    "A n = Some (Dir m) \<Longrightarrow> dir_repr (dir_view (blocks zdat s) (the (blocks zdat s n))) m"
    "A n = Some (File bs) \<Longrightarrow> file_ok (blocks zdat s) n (the (blocks zdat s n))"
    "A n = Some (File bs) \<Longrightarrow> file_data (blocks zdat s) (the (blocks zdat s n)) = bs"
    "A n = Some nd \<Longrightarrow> blocks zdat s n = Some (the (blocks zdat s n)) \<and> hi_ino (the (blocks zdat s n)) = n"
proof -
  show "hodo_ok B L cap zstart dinv zdat mnt s" "represents (blocks zdat s) A" "closed_afs A"
    "room_in zdat {swap_zone} s k" "k \<le> free_numbers s" using assms budgetD(1,2) [of zdat s k] by (simp_all add: fs_rel_def)
  note R = representsD(1) [OF \<open>represents (blocks zdat s) A\<close>]
  show "inode_ok (blocks zdat s) n (the (blocks zdat s n))" "dir_repr (dir_view (blocks zdat s) (the (blocks zdat s n))) m"
    if "A n = Some (Dir m)" using R [OF that] by (simp_all add: node_repr_def)
  show "file_ok (blocks zdat s) n (the (blocks zdat s n))" "file_data (blocks zdat s) (the (blocks zdat s n)) = bs"
    if "A n = Some (File bs)" using R [OF that] by (simp_all add: node_repr_def)
  show "blocks zdat s n = Some (the (blocks zdat s n)) \<and> hi_ino (the (blocks zdat s n)) = n" if "A n = Some nd"
    using node_repr_inode [OF R [OF that]] inode_okD(1,4) by metis
qed

lemma fs_rel_same:
  assumes "fs_rel B L cap zstart dinv zdat mnt k s A"
    and "same_store (zonefs_ok B L cap zstart dinv zdat) (zonefs_data zdat) s s'"
  shows "fs_rel B L cap zstart dinv zdat mnt k s' A"
  using assms same_storeD [OF assms(2)] by (simp add: fs_rel_def budget_def)

text \<open>A directory that has fewer than 1020 entries has a free slot.\<close>

lemma dir_view_blocks:
  assumes "Some ds \<in> set (dir_view C hi)"
  shows "length ds = DIRENT_SLOTS"
proof -
  have "Some ds = map_option block_dirents x \<Longrightarrow> length ds = DIRENT_SLOTS" for x by (cases x) simp_all
  then show ?thesis using assms by (auto simp: dir_view_def split: if_splits)
qed

text \<open>A new node and its entry, as \<open>make_hinode\<close> leaves them, against the abstract file system.\<close>

lemma made_node:
  assumes rep: "represents C A" and cl: "closed_afs A" and en: "A d = Some (Dir m)" "valid_name nm" "m nm = None"
    and h: "made_hinode K site flen (dentry_of nm) ty mode n h" "ty = HODO_TYPE_REG \<or> ty = HODO_TYPE_DIR" "k_stack K 1 = zero_dirent"
    and new: "C n = None" "n \<noteq> 0" "C' n = Some h" "inode_directs h = inode_directs zero_block" "node_repr C' n nd"
      "nd = File bs \<or> nd = Dir Map.empty"
    and dir: "inode_ok C' d root'" "add_to_view (k_stack K 1) h (dir_view C (the (C d))) = Some (dir_view C' root')"
      "file_frame C d (the (C d)) C' root'" "n \<notin> set (inode_directs root')"
  shows "A n = None" "represents C' (A(d \<mapsto> Dir (m(nm \<mapsto> n)), n \<mapsto> nd))" "closed_afs (A(d \<mapsto> Dir (m(nm \<mapsto> n)), n \<mapsto> nd))"
proof -
  have i: "dir_repr (dir_view C (the (C d))) m" using representsD(1) [OF rep en(1)] by (simp add: node_repr_def)
  have mapped: "A l \<noteq> None \<Longrightarrow> C l \<noteq> None" for l
    using representsD(1) [OF rep] node_repr_inode inode_okD(1) by (metis not_None_eq option.distinct(1))
  have rd: "the (C' d) = root'" using inode_okD(1) [OF dir(1)] by simp
  show An: "A n = None" using mapped new(1) by blast
  have dn: "d \<noteq> n" using An en(1) by auto
  have x: "dir_repr (dir_view C' root') (m(nm \<mapsto> n))"
    using dir_repr_add [OF i dir(2) [unfolded h(3)] en(3,2)]
      stored_entry [OF h(1) dentry_of_simps(1,3,2) [OF en(2)] en(2) new(2) h(2)] by blast
  have nd: "node_repr C' d (Dir (m(nm \<mapsto> n)))" using dir(1) x rd by (simp add: node_repr_def)
  have A': "A d \<noteq> None" using en(1) by simp
  note up = represents_update [OF rep A' nd, unfolded rd, OF dir(3)]
  have own: "owned C' n = {n}" using new(3,4) zero_block_ptrs(5) by (auto simp: owned_def inode_directs_def)
  have "owned C' n \<inter> owned C' k = {}" if "(A(d \<mapsto> Dir (m(nm \<mapsto> n)))) k = Some y" for k y
  proof (cases "k = d")
    case True
    then show ?thesis using own dir(4) dn rd by (auto simp: owned_def)
  next
    case False
    then have k: "A k = Some y" using that by simp
    then have "n \<notin> owned C k" using owned_mapped [OF representsD(1) [OF rep k]] new(1) by blast
    then show ?thesis using own up(2) [OF False k] by simp
  qed
  then show "represents C' (A(d \<mapsto> Dir (m(nm \<mapsto> n)), n \<mapsto> nd))"
    using represents_add [OF up(1) new(2) _ new(5)] An dn by simp
  show "closed_afs (A(d \<mapsto> Dir (m(nm \<mapsto> n)), n \<mapsto> nd))"
    using cl en(1) dn new(6) unfolding closed_afs_def by (auto split: if_splits)
qed

lemma create_step:
  assumes R: "fs_rel B L cap zstart dinv zdat mnt (3 + k) s A" and K: "clear_stack K"
    and en: "A d = Some (Dir m)" "valid_name nm" "m nm = None" "card (dom m) < 1020"
  obtains n s' where "run_op (zonefs_kernel B L mnt K) E (Create d nm mode) s = Some (Created n, s')"
    "n \<noteq> 0" "A n = None" "fs_rel B L cap zstart dinv zdat mnt k s' (A(d \<mapsto> Dir (m(nm \<mapsto> n)), n \<mapsto> File []))"
proof -
  let ?C = "blocks zdat s" and ?d = "vinode_of d"
  note D = fs_relD [OF R]
  have mem: "memory_ok K" "k_stack K 5 = zero_block" "k_stack K 1 = zero_dirent" using K by (simp_all add: clear_stack_def)
  have id: "inode_ok ?C (ucast (vi_ino ?d)) (the (?C d))" using D(6) [OF en(1)] by simp
  have fr: "2 \<le> free_numbers s" using D(5) by simp
  have sl: "has_free_slot (dir_view ?C (the (?C d)))"
    using dir_has_room [OF D(7) [OF en(1)] _ _ en(4)] dir_view_blocks by simp
  obtain n h s' root' where c: "hodo_create (zonefs_kernel B L mnt K) (Some fresh_vinode) ?d (dentry_of nm) mode s =
      Some (0, ?d\<lparr>vi_size := vi_size ?d + 1\<rparr>, created_vinode K mode n fresh_vinode, s')"
    "created_hinode K (dentry_of nm) mode n h" "?C n = None" "n \<noteq> 0" "hodo_ok B L cap zstart dinv zdat mnt s'"
    "blocks zdat s' n = Some h" "inode_ok (blocks zdat s') (ucast (vi_ino ?d)) root'"
    "add_to_view (k_stack K 1) h (dir_view ?C (the (?C d))) = Some (dir_view (blocks zdat s') root')"
    "file_frame ?C (ucast (vi_ino ?d)) (the (?C d)) (blocks zdat s') root'" "n \<notin> set (inode_directs root')"
    "room_in zdat {swap_zone} s' k" "free_numbers s \<le> 2 + free_numbers s'"
    by (rule create_ok [OF D(1) id mem(1) D(4) fr dentry_of_simps(1) [OF en(2)] sl])
  note f = created_file_ok [where C = "blocks zdat s'", OF c(2,6) mem(2)]
  have nf: "node_repr (blocks zdat s') n (File [])" using f(1,2) c(6) by (simp add: node_repr_def)
  have dd: "inode_ok (blocks zdat s') d root'" "file_frame ?C d (the (?C d)) (blocks zdat s') root'" using c(7,9) by simp_all
  note N = made_node [OF D(2,3) en(1-3) c(2) disjI1 [OF refl] mem(3) c(3,4,6) f(3) nf disjI1 [OF refl] dd(1) c(8) dd(2) c(10)]
  have "budget zdat s' k" using R budget_spend [OF _ c(11,12), of 3] by (simp add: fs_rel_def)
  then have "fs_rel B L cap zstart dinv zdat mnt k s' (A(d \<mapsto> Dir (m(nm \<mapsto> n)), n \<mapsto> File []))"
    using c(5) N(2,3) by (simp add: fs_rel_def)
  moreover have "run_op (zonefs_kernel B L mnt K) E (Create d nm mode) s = Some (Created n, s')" using c(1) by simp
  ultimately show thesis using that c(4) N(1) by blast
qed

lemma room_arith: "c + f' \<le> n \<Longrightarrow> 3 * n + 2 * (4 + k) \<le> 2 * p + 1 + 3 * f \<Longrightarrow> f \<le> 2 + f' \<Longrightarrow> k + c \<le> p" for p :: nat
  by presburger

lemma mkdir_step:
  assumes R: "fs_rel B L cap zstart dinv zdat mnt (4 + k) s A" and K: "clear_stack K"
    and en: "A d = Some (Dir m)" "valid_name nm" "m nm = None" "card (dom m) < 1020"
  obtains n s' where "run_op (zonefs_kernel B L mnt K) E (Mkdir d nm mode) s = Some (Created n, s')"
    "n \<noteq> 0" "A n = None" "fs_rel B L cap zstart dinv zdat mnt k s' (A(d \<mapsto> Dir (m(nm \<mapsto> n)), n \<mapsto> Dir Map.empty))"
proof -
  let ?C = "blocks zdat s" and ?d = "vinode_of d"
  note D = fs_relD [OF R]
  have bud: "budget zdat s (4 + k)" using R by (simp add: fs_rel_def)
  have mem: "memory_ok K" "k_stack K 8 = zero_block" "k_stack K 1 = zero_dirent" using K by (simp_all add: clear_stack_def)
  have id: "inode_ok ?C (ucast (vi_ino ?d)) (the (?C d))" using D(6) [OF en(1)] by simp
  have fr: "2 \<le> free_numbers s" using D(5) by simp
  have r4: "room_in zdat {swap_zone} s 4" using D(4) by (rule wp_room_mono) simp
  have few: "NUMBER_MAPPING_TABLE_ENTRY + 3 < BLOCKS_PER_ZONE + free_numbers s"
    using budgetD(3) [OF bud] by (simp add: NUMBER_MAPPING_TABLE_ENTRY_eq BLOCKS_PER_ZONE_eq)
  have sl: "has_free_slot (dir_view ?C (the (?C d)))"
    using dir_has_room [OF D(7) [OF en(1)] _ _ en(4)] dir_view_blocks by simp
  obtain n h s' root' where c: "hodo_mkdir (zonefs_kernel B L mnt K) (Some fresh_vinode) ?d (dentry_of nm) mode s =
      Some (0, mkdir_vinode K mode n fresh_vinode, s')"
    "made_hinode K 8 2 (dentry_of nm) HODO_TYPE_DIR (S_IFDIR OR mode) n h" "?C n = None" "n \<noteq> 0"
    "hodo_ok B L cap zstart dinv zdat mnt s'"
    "blocks zdat s' n = Some h" "inode_ok (blocks zdat s') (ucast (vi_ino ?d)) root'"
    "add_to_view (k_stack K 1) h (dir_view ?C (the (?C d))) = Some (dir_view (blocks zdat s') root')"
    "file_frame ?C (ucast (vi_ino ?d)) (the (?C d)) (blocks zdat s') root'" "n \<notin> set (inode_directs root')"
    "room_in zdat {swap_zone} s' (BLOCKS_PER_ZONE - card (dom (blocks zdat s')))" "free_numbers s \<le> 2 + free_numbers s'"
    by (rule mkdir_ok [OF D(1) id mem(1) r4 fr dentry_of_simps(1) [OF en(2)] sl few])
  note f = made_inode_ok [where C = "blocks zdat s'", OF c(2,6) mem(2)]
  have "dir_repr (replicate 10 None) Map.empty"
    by (simp add: dir_repr_def valid_entries_def view_dirents_def view_blocks_def)
  then have nf: "node_repr (blocks zdat s') n (Dir Map.empty)" using f(1,2) c(6) by (simp add: node_repr_def)
  have dd: "inode_ok (blocks zdat s') d root'" "file_frame ?C d (the (?C d)) (blocks zdat s') root'" using c(7,9) by simp_all
  note N = made_node [OF D(2,3) en(1-3) c(2) disjI2 [OF refl] mem(3) c(3,4,6) f(3) nf disjI2 [OF refl] dd(1) c(8) dd(2) c(10)]
  have "k + card (dom (blocks zdat s')) \<le> BLOCKS_PER_ZONE"
    by (rule room_arith [OF mapped_in_use [OF c(5)] budgetD(3) [OF bud] c(12)])
  then have "k \<le> BLOCKS_PER_ZONE - card (dom (blocks zdat s'))" by simp
  then have rm: "room_in zdat {swap_zone} s' k" using c(11) wp_room_mono by blast
  have "budget zdat s' k" using budget_spend [OF bud rm c(12)] by simp
  then have "fs_rel B L cap zstart dinv zdat mnt k s' (A(d \<mapsto> Dir (m(nm \<mapsto> n)), n \<mapsto> Dir Map.empty))"
    using c(5) N(2,3) by (simp add: fs_rel_def)
  moreover have "run_op (zonefs_kernel B L mnt K) E (Mkdir d nm mode) s = Some (Created n, s')" using c(1) by simp
  ultimately show thesis using that c(4) N(1) by blast
qed

lemma lookup_step:
  assumes R: "fs_rel B L cap zstart dinv zdat mnt k s A" and K: "clear_stack K"
    and en: "A d = Some (Dir m)" "valid_name nm"
  obtains s' where "run_op (zonefs_kernel B L mnt K) E (Lookup d nm) s = Some (Found (m nm), s')"
    "fs_rel B L cap zstart dinv zdat mnt k s' A"
proof -
  let ?C = "blocks zdat s" and ?n = "find_in_view (name16 (dentry_of nm)) (view_blocks (dir_view (blocks zdat s) (the (blocks zdat s d))))"
  note D = fs_relD [OF R]
  note nm = dentry_of_simps [OF en(2)]
  have mem: "memory_ok K" using K by (simp add: clear_stack_def)
  have n: "?n = (case m nm of None \<Rightarrow> 0 | Some n \<Rightarrow> ucast n)"
    unfolding nm(2) by (rule dir_repr_find [OF D(7) [OF en(1)] en(2)])
  have m: "m nm = Some i \<Longrightarrow> i \<noteq> 0 \<and> ?C i = Some (the (?C i)) \<and> hi_ino (the (?C i)) = i" for i
    using D(3) en(1) D(10) [of i] representsD(2) [OF D(2)] unfolding closed_afs_def by (metis not_None_eq)
  have t: "?n \<noteq> 0 \<Longrightarrow> ?C (ucast ?n) = Some (the (?C (ucast ?n)))"
    using m unfolding n by (auto split: option.splits)
  have dn: "d = dir_number (is_root d s) (vi_ino (vinode_of d)) s" by simp
  obtain s' vi' where s': "hodo_sub_lookup (zonefs_kernel B L mnt K) (Some fresh_vinode) (is_root d s) (vinode_of d) (dentry_of nm) s =
      Some (Inr (if ?n = 0 then None else Some vi'), touch K (vinode_of d), s')"
    "vi_ino vi' = ucast (hi_ino (the (?C (ucast ?n))))"
    "same_store (zonefs_ok B L cap zstart dinv zdat) (zonefs_data zdat) s s'"
    by (rule sub_lookup_ok [where vi = fresh_vinode and d = "dentry_of nm", OF D(1) D(6) [OF en(1)] mem dn refl t]) simp_all
  have f: "map_option (\<lambda>v. ucast (vi_ino v)) (if ?n = 0 then None else Some vi') = m nm"
    using m s'(2) unfolding n by (auto split: option.splits simp: ucast_u32_u64_zero)
  have "run_op (zonefs_kernel B L mnt K) E (Lookup d nm) s = Some (Found (m nm), s')"
    using s'(1) nm(4,5) f by (simp add: hodo_lookup_def)
  then show thesis using that fs_rel_same [OF R s'(3)] by blast
qed

lemma read_step:
  assumes R: "fs_rel B L cap zstart dinv zdat mnt k s A" and K: "clear_stack K"
    and en: "A n = Some (File old)" "p < 2 ^ 63" "cnt < 2 ^ 64"
      "p + cnt < length old \<or> length old \<le> p \<or> \<not> HODO_DATA_SIZE dvd length old"
  obtains s' where "run_op (zonefs_kernel B L mnt K) E (Read n p cnt) s =
      Some (Data (int (length (take cnt (drop p old)))) (take cnt (drop p old)), s')"
    "fs_rel B L cap zstart dinv zdat mnt k s' A"
proof -
  note D = fs_relD [OF R]
  have mem: "memory_ok K" using K by (simp add: clear_stack_def)
  have f: "file_ok (blocks zdat s) (ucast (ucast n :: u64)) (the (blocks zdat s n))" using D(8) [OF en(1)] by simp
  have l: "length old = unat (hi_file_len (the (blocks zdat s n)))"
    using length_file_data [OF D(8) [OF en(1)]] D(9) [OF en(1)] by simp
  have st: "read_stays_inside p cnt (the (blocks zdat s n))" using en(4) l by (simp add: read_stays_inside_def)
  have p: "ki_pos (iocb_at p) = int p" by (simp add: iocb_at_def)
  obtain s' where s': "hodo_file_read_iter (zonefs_kernel B L mnt K) (ev_read E) (ucast n) (iocb_at p) cnt s =
      Some (int (min cnt (length old - p)), take cnt (drop p old), (iocb_at p)\<lparr>ki_pos := int (p + min cnt (length old - p))\<rparr>, s')"
    "same_store (zonefs_ok B L cap zstart dinv zdat) (zonefs_data zdat) s s'"
    using file_read_any [OF D(1) f mem p en(2,3) st, where zr = "ev_read E"] D(9) [OF en(1)] l by metis
  then have "run_op (zonefs_kernel B L mnt K) E (Read n p cnt) s =
      Some (Data (int (length (take cnt (drop p old)))) (take cnt (drop p old)), s')"
    by (simp add: min.commute)
  then show thesis using that fs_rel_same [OF R s'(2)] by blast
qed

lemma write_step:
  assumes R: "fs_rel B L cap zstart dinv zdat mnt (2 * blocks_touched p (length bs) + k) s A" and K: "clear_stack K"
    and en: "A n = Some (File old)" "bs \<noteq> []" "p \<le> length old" "p + length bs \<le> 10 * HODO_DATA_SIZE"
  obtains s' where "run_op (zonefs_kernel B L mnt K) E (Write n p bs) s = Some (Count (int (length bs)), s')"
    "fs_rel B L cap zstart dinv zdat mnt k s' (A(n \<mapsto> File (take p old @ bs)))"
proof -
  let ?C = "blocks zdat s" and ?it = "\<lparr>iov_count = length bs, iov_data = bs\<rparr>"
  note D = fs_relD [OF R]
  have mem: "memory_ok K" using K by (simp add: clear_stack_def)
  have f: "file_ok ?C (ucast (vi_ino (vinode_of n))) (the (?C n))" using D(8) [OF en(1)] by simp
  have l: "length old = unat (hi_file_len (the (?C n)))"
    using length_file_data [OF D(8) [OF en(1)]] D(9) [OF en(1)] by simp
  have w: "write_fits (vinode_of n) (iocb_at p) p (the (?C n)) ?it"
    using en(2-4) l by (simp add: write_fits_def write_pos_def iocb_at_def)
  have rm: "room_in zdat {swap_zone} s (2 * blocks_touched p (iov_count ?it) + k)" "blocks_touched p (iov_count ?it) \<le> free_numbers s"
    using D(4,5) by simp_all
  obtain s' hi' iocb' vi' where s': "hodo_file_write_iter (zonefs_kernel B L mnt K) (ev_write E) (vinode_of n) (iocb_at p) ?it s =
      Some (int (iov_count ?it), iocb', \<lparr>iov_count = 0, iov_data = []\<rparr>, vi', s')"
    "hodo_ok B L cap zstart dinv zdat mnt s'" "file_ok (blocks zdat s') n hi'"
    "file_data (blocks zdat s') hi' = take p old @ bs" "file_frame ?C n (the (?C n)) (blocks zdat s') hi'"
    "room_in zdat {swap_zone} s' k" "free_numbers s \<le> blocks_touched p (iov_count ?it) + free_numbers s'"
    by (rule file_write [OF D(1) f mem w rm, where zw = "ev_write E"]) (use D(9) [OF en(1)] in simp)
  have h: "the (blocks zdat s' n) = hi'" using s'(3) by (simp add: file_ok_def inode_ok_def)
  have nd: "node_repr (blocks zdat s') n (File (take p old @ bs))" using s'(3,4) h by (simp add: node_repr_def)
  have "A n \<noteq> None" using en(1) by simp
  note up = represents_update(1) [OF D(2) this nd, unfolded h, OF s'(5)]
  have "closed_afs (A(n \<mapsto> File (take p old @ bs)))"
    using D(3) unfolding closed_afs_def by (auto split: if_splits)
  moreover have "budget zdat s (2 * blocks_touched p (iov_count ?it) + k)" using R by (simp add: fs_rel_def)
  then have "budget zdat s' k" by (rule budget_spend [OF _ s'(6,7)]) simp
  ultimately have "fs_rel B L cap zstart dinv zdat mnt k s' (A(n \<mapsto> File (take p old @ bs)))"
    using s'(2) up by (simp add: fs_rel_def)
  moreover have "run_op (zonefs_kernel B L mnt K) E (Write n p bs) s = Some (Count (int (length bs)), s')"
    using s'(1) by simp
  ultimately show thesis using that by blast
qed

text \<open>What a listing shows of an entry.\<close>

lemma shown_name_inj: "shown_name a = shown_name b \<longleftrightarrow> a = b"
proof -
  have "inj (\<lambda>b :: u8. char_of (unat b))"
  proof (rule injI)
    fix x y :: u8
    have m: "unat (b :: u8) mod 256 = unat b" for b using unsigned_less [of b, where ?'a = nat] by simp
    assume "(char_of (unat x) :: char) = char_of (unat y)"
    then have "(of_char (char_of (unat x) :: char) :: nat) = of_char (char_of (unat y) :: char)" by simp
    then have "unat x = unat y" unfolding of_char_of m .
    then show "x = y" by (simp only: word_unat_eq_iff)
  qed
  then show ?thesis unfolding shown_name_def by (metis inj_map_eq_map)
qed

lemma offer_all: "offer (\<lambda>_ _. True) out es = out @ es"
  unfolding offer_def by (induction es arbitrary: out) simp_all

lemma unat_ucast_u32: "unat (ucast (n :: u32) :: u64) = unat n"
  by (simp add: unsigned_ucast_eq take_bit_nat_eq_self unat_u32_less order.strict_trans [OF unat_u32_less])

lemma shown_entry:
  assumes "dir_repr v m" "e \<in> set (valid_entries v)"
  obtains nm n where "m nm = Some n" "de_name e = pad_name nm" "unat (de_name_len e) = length nm" "length nm \<le> 16"
    "(case dirent_entry e of (a, b, ty) \<Rightarrow> (a, b)) = (shown_name nm, unat n)"
proof -
  have "entry_key e \<in> entry_key ` set (valid_entries v)" using assms(2) by simp
  then obtain nm n where k: "m nm = Some n" "de_name e = pad_name nm" "de_name_len e = of_nat (length nm)" "de_ino e = ucast n"
    unfolding dir_reprD(3) [OF assms(1)] by (auto simp: entry_key_def)
  have l: "length nm \<le> 16" using dir_reprD(4) [OF assms(1) k(1)] by (simp add: valid_name_def)
  then have u: "unat (de_name_len e) = length nm" unfolding k(3) by (simp add: unat_of_nat)
  have "take (length nm) (pad_name nm) = nm" by (simp add: pad_name_def)
  then have "(case dirent_entry e of (a, b, ty) \<Rightarrow> (a, b)) = (shown_name nm, unat n)"
    using u k(2,4) by (simp add: dirent_entry_def shown_name_def unat_ucast_u32)
  then show thesis using that k(1,2) u l by blast
qed

lemma shown_bindings:
  assumes "dir_repr v m"
  shows "distinct (map (\<lambda>e. case dirent_entry e of (a, b, ty) \<Rightarrow> (a, b)) (valid_entries v))"
    "(\<lambda>e. case dirent_entry e of (a, b, ty) \<Rightarrow> (a, b)) ` set (valid_entries v) = {(shown_name nm, unat n) |nm n. m nm = Some n}"
proof -
  let ?s = "\<lambda>e. case dirent_entry e of (a, b, ty) \<Rightarrow> (a, b)"
  have d: "distinct (map de_name (valid_entries v))" by (rule dir_reprD(2) [OF assms])
  have "inj_on ?s (set (valid_entries v))"
  proof (rule inj_onI)
    fix x y assume x: "x \<in> set (valid_entries v)" and y: "y \<in> set (valid_entries v)" and eq: "?s x = ?s y"
    obtain a and i :: u32 where a: "de_name x = pad_name a" "?s x = (shown_name a, unat i)" by (rule shown_entry [OF assms x]) blast
    obtain b and j :: u32 where b: "de_name y = pad_name b" "?s y = (shown_name b, unat j)" by (rule shown_entry [OF assms y]) blast
    have "a = b" using eq a(2) b(2) shown_name_inj by simp
    then have "de_name x = de_name y" using a(1) b(1) by simp
    then show "x = y" using d x y unfolding distinct_map inj_on_def by blast
  qed
  then show "distinct (map ?s (valid_entries v))" using d by (simp add: distinct_map)
  show "?s ` set (valid_entries v) = {(shown_name nm, unat n) |nm n. m nm = Some n}"
  proof (intro subset_antisym subsetI)
    fix p assume "p \<in> ?s ` set (valid_entries v)"
    then obtain e where e: "e \<in> set (valid_entries v)" "p = ?s e" by blast
    show "p \<in> {(shown_name nm, unat n) |nm n. m nm = Some n}" unfolding e(2) by (rule shown_entry [OF assms e(1)]) blast
  next
    fix p assume "p \<in> {(shown_name nm, unat n) |nm n. m nm = Some n}"
    then obtain nm n where p: "p = (shown_name nm, unat n)" "m nm = Some n" by blast
    obtain e where e: "e \<in> set (view_dirents v)" "de_name e = pad_name nm" by (rule dir_repr_binding [OF assms p(2)])
    have vn: "valid_name nm" by (rule dir_reprD(4) [OF assms p(2)])
    have "e \<noteq> zero_dirent" using e(2) pad_name_not_zero [OF vn] zero_dirent_simps(2) by metis
    then have ev: "e \<in> set (valid_entries v)" using e(1) dir_reprD(1) [OF assms e(1)] by (simp add: set_valid_entries)
    obtain nm' n' where e': "m nm' = Some n'" "de_name e = pad_name nm'" "?s e = (shown_name nm', unat n')"
      by (rule shown_entry [OF assms ev]) blast
    have "nm' = nm" using pad_name_inj [OF dir_reprD(4) [OF assms e'(1)] vn] e'(2) e(2) by simp
    then have "?s e = p" using e' p by simp
    then show "p \<in> ?s ` set (valid_entries v)" using ev by blast
  qed
qed

lemma list_step:
  assumes R: "fs_rel B L cap zstart dinv zdat mnt k s A" and K: "clear_stack K" and E: "dots_ok E"
    and en: "A d = Some (Dir m)"
  obtains xs s' where "run_op (zonefs_kernel B L mnt K) E (List d) s = Some (Listed xs, s')"
    "distinct xs" "set xs = {(shown_name nm, unat n) |nm n. m nm = Some n}"
    "fs_rel B L cap zstart dinv zdat mnt k s' A"
proof -
  let ?K = "zonefs_kernel B L mnt K" and ?hi = "the (blocks zdat s d)" and ?act = "\<lambda>_ _. True"
  let ?same = "same_store (zonefs_ok B L cap zstart dinv zdat) (zonefs_data zdat)"
  define vs where "vs = valid_entries (dir_view (blocks zdat s) ?hi)"
  note D = fs_relD [OF R]
  note dr = D(7) [OF en]
  have mem: "memory_ok K" using K by (simp add: clear_stack_def)
  obtain dd where dd: "ev_dots E \<lparr>ctx_pos = 0, ctx_out = []\<rparr> = (True, \<lparr>ctx_pos = 2, ctx_out = dd\<rparr>)" "length dd = 2"
    using E by (auto simp: dots_ok_def)
  obtain s1 where s1: "hodo_read_struct ?K d zero_block HODO_DATABLOCK_SIZE s = Some (4096, ?hi, s1)" "?same s s1"
    "hodo_ok B L cap zstart dinv zdat mnt s1" "blocks zdat s1 = blocks zdat s"
    by (rule zonefs.read_block [OF D(1) conjunct1 [OF D(10) [OF en]] zero_block_ptrs(1)])
  obtain b where b: "k_kmalloc ?K 4 = Some b" "length b = 4096" using memory_okD [OF mem] by auto
  have fit: "names_fit (concat (view_blocks (dir_view (blocks zdat s1) ?hi)))"
    unfolding names_fit_def s1(4) HODO_MAX_NAME_LEN_def view_dirents_def [symmetric]
  proof (intro ballI impI)
    fix e assume "e \<in> set (view_dirents (dir_view (blocks zdat s) ?hi))" "is_dirent_valid e"
    then have "e \<in> set (valid_entries (dir_view (blocks zdat s) ?hi))" by (simp add: set_valid_entries)
    then show "unat (de_name_len e) \<le> 16" by (rule shown_entry [OF dr]) linarith
  qed
  have i1: "inode_ok (blocks zdat s1) d ?hi" using D(6) [OF en] s1(4) by simp
  have v1: "vs = filter is_dirent_valid (concat (view_blocks (dir_view (blocks zdat s1) ?hi)))"
    by (simp add: vs_def valid_entries_def s1(4) view_dirents_def)
  have pos: "2 \<le> ctx_pos \<lparr>ctx_pos = 2, ctx_out = dd\<rparr>" by simp
  obtain s2 where s2: "read_all_dirents ?K ?act ?hi (\<lparr>ctx_pos = 2, ctx_out = dd\<rparr>, 2) s1 =
      Some (END_READ, (\<lparr>ctx_pos = max 2 (2 + length vs), ctx_out = dd @ map dirent_entry vs\<rparr>, 2 + length vs), s2)" "?same s1 s2"
    using zonefs.read_all_dirents_ok [OF s1(3) i1 b fit pos v1, of ?act] by (auto simp: offer_all)
  have z: "\<not> is_zone_dir (d_name (dentry_of [0x2F]))" by (rule dentry_of_simps(4)) (simp add: valid_name_def)
  have ls: "map (\<lambda>(nm, n, ty). (nm, n)) (drop 2 (dd @ map dirent_entry vs)) =
      map (\<lambda>e. case dirent_entry e of (a, b, ty) \<Rightarrow> (a, b)) vs" using dd(2) by simp
  have run: "run_op ?K E (List d) s = Some (Listed (map (\<lambda>e. case dirent_entry e of (a, b, ty) \<Rightarrow> (a, b)) vs), s2)"
    using s1(1) s2(1) dd(1) z ls by (simp add: hodo_readdir_def hodo_sub_readdir_def END_READ_def)
  show thesis
    by (rule that [OF run]) (use shown_bindings [OF dr] fs_rel_same [OF R same_store_trans [OF s1(2) s2(2)]] in \<open>simp_all add: vs_def\<close>)
qed

lemma op_step:
  assumes R: "fs_rel B L cap zstart dinv zdat mnt (cost op + k) s A" and K: "clear_stack K" and E: "dots_ok E"
    and en: "enabled A op"
  obtains res s' A' where "run_op (zonefs_kernel B L mnt K) E op s = Some (res, s')" "spec_next A op res = Some A'"
    "fs_rel B L cap zstart dinv zdat mnt k s' A'"
proof (cases op)
  case (Create d nm mode)
  then obtain m where m: "A d = Some (Dir m)" "valid_name nm" "m nm = None" "card (dom m) < 1020" using en by auto
  have R': "fs_rel B L cap zstart dinv zdat mnt (3 + k) s A" using R Create by simp
  obtain n s' where s': "run_op (zonefs_kernel B L mnt K) E (Create d nm mode) s = Some (Created n, s')" "n \<noteq> 0" "A n = None"
    "fs_rel B L cap zstart dinv zdat mnt k s' (A(d \<mapsto> Dir (m(nm \<mapsto> n)), n \<mapsto> File []))"
    by (rule create_step [OF R' K m])
  have "spec_next A op (Created n) = Some (A(d \<mapsto> Dir (m(nm \<mapsto> n)), n \<mapsto> File []))"
    unfolding Create using s'(2,3) m(1) by simp
  then show thesis by (rule that [OF _ _ s'(4), unfolded Create, OF s'(1), folded Create])
next
  case (Mkdir d nm mode)
  then obtain m where m: "A d = Some (Dir m)" "valid_name nm" "m nm = None" "card (dom m) < 1020" using en by auto
  have R': "fs_rel B L cap zstart dinv zdat mnt (4 + k) s A" using R Mkdir by simp
  obtain n s' where s': "run_op (zonefs_kernel B L mnt K) E (Mkdir d nm mode) s = Some (Created n, s')" "n \<noteq> 0" "A n = None"
    "fs_rel B L cap zstart dinv zdat mnt k s' (A(d \<mapsto> Dir (m(nm \<mapsto> n)), n \<mapsto> Dir Map.empty))"
    by (rule mkdir_step [OF R' K m])
  have "spec_next A op (Created n) = Some (A(d \<mapsto> Dir (m(nm \<mapsto> n)), n \<mapsto> Dir Map.empty))"
    unfolding Mkdir using s'(2,3) m(1) by simp
  then show thesis by (rule that [OF _ _ s'(4), unfolded Mkdir, OF s'(1), folded Mkdir])
next
  case (Lookup d nm)
  then obtain m where m: "A d = Some (Dir m)" "valid_name nm" using en by auto
  have R': "fs_rel B L cap zstart dinv zdat mnt k s A" using R Lookup by simp
  obtain s' where s': "run_op (zonefs_kernel B L mnt K) E (Lookup d nm) s = Some (Found (m nm), s')"
    "fs_rel B L cap zstart dinv zdat mnt k s' A" by (rule lookup_step [OF R' K m])
  have "spec_next A op (Found (m nm)) = Some A" unfolding Lookup using m(1) by simp
  then show thesis by (rule that [OF _ _ s'(2), unfolded Lookup, OF s'(1), folded Lookup])
next
  case (List d)
  then obtain m where m: "A d = Some (Dir m)" using en by auto
  have R': "fs_rel B L cap zstart dinv zdat mnt k s A" using R List by simp
  obtain xs s' where s': "run_op (zonefs_kernel B L mnt K) E (List d) s = Some (Listed xs, s')" "distinct xs"
    "set xs = {(shown_name nm, unat n) |nm n. m nm = Some n}" "fs_rel B L cap zstart dinv zdat mnt k s' A"
    by (rule list_step [OF R' K E m])
  have "spec_next A op (Listed xs) = Some A" unfolding List using s'(2,3) m by simp
  then show thesis by (rule that [OF _ _ s'(4), unfolded List, OF s'(1), folded List])
next
  case (Write n p bs)
  then obtain old where f: "A n = Some (File old)" "bs \<noteq> []" "p \<le> length old" "p + length bs \<le> 10 * HODO_DATA_SIZE"
    using en by auto
  have R': "fs_rel B L cap zstart dinv zdat mnt (2 * blocks_touched p (length bs) + k) s A" using R Write by simp
  obtain s' where s': "run_op (zonefs_kernel B L mnt K) E (Write n p bs) s = Some (Count (int (length bs)), s')"
    "fs_rel B L cap zstart dinv zdat mnt k s' (A(n \<mapsto> File (take p old @ bs)))" by (rule write_step [OF R' K f])
  have "spec_next A op (Count (int (length bs))) = Some (A(n \<mapsto> File (take p old @ bs)))" unfolding Write using f(1) by simp
  then show thesis by (rule that [OF _ _ s'(2), unfolded Write, OF s'(1), folded Write])
next
  case (Read n p cnt)
  then obtain old where f: "A n = Some (File old)" "p < 2 ^ 63" "cnt < 2 ^ 64"
    "p + cnt < length old \<or> length old \<le> p \<or> \<not> HODO_DATA_SIZE dvd length old" using en by auto
  have R': "fs_rel B L cap zstart dinv zdat mnt k s A" using R Read by simp
  obtain s' where s': "run_op (zonefs_kernel B L mnt K) E (Read n p cnt) s =
      Some (Data (int (length (take cnt (drop p old)))) (take cnt (drop p old)), s')"
    "fs_rel B L cap zstart dinv zdat mnt k s' A" by (rule read_step [OF R' K f])
  have "spec_next A op (Data (int (length (take cnt (drop p old)))) (take cnt (drop p old))) = Some A"
    unfolding Read using f(1) by simp
  then show thesis by (rule that [OF _ _ s'(2), unfolded Read, OF s'(1), folded Read])
qed

section \<open>Sequences of operations\<close>

text \<open>A run of the code: the operations with the results they had.\<close>

inductive hodo_run ::
  "'z kernel \<Rightarrow> 'z vfs_env \<Rightarrow> 'z hodo_state \<Rightarrow> (fs_op \<times> fs_res) list \<Rightarrow> 'z hodo_state \<Rightarrow> bool"
  for K :: "'z kernel" and E :: "'z vfs_env"
where
  hodo_run_none: "hodo_run K E s [] s"
| hodo_run_op: "run_op K E op s = Some (res, s1) \<Longrightarrow> hodo_run K E s1 tr s' \<Longrightarrow> hodo_run K E s ((op, res) # tr) s'"

inductive_simps hodo_run_Cons: "hodo_run K E s ((op, res) # tr) s'"
inductive_simps hodo_run_Nil [simp]: "hodo_run K E s [] s'"

text \<open>A run of the abstract file system, and a client that issues only enabled operations, each
  judged in the state that the results so far have led to.\<close>

fun spec_run :: "afs \<Rightarrow> (fs_op \<times> fs_res) list \<Rightarrow> afs option" where
  "spec_run A [] = Some A"
| "spec_run A ((op, res) # tr) = (case spec_next A op res of None \<Rightarrow> None | Some A' \<Rightarrow> spec_run A' tr)"

fun allowed :: "afs \<Rightarrow> (fs_op \<times> fs_res) list \<Rightarrow> bool" where
  "allowed A [] \<longleftrightarrow> True"
| "allowed A ((op, res) # tr) \<longleftrightarrow>
     enabled A op \<and> (case spec_next A op res of None \<Rightarrow> True | Some A' \<Rightarrow> allowed A' tr)"

definition total_cost :: "(fs_op \<times> fs_res) list \<Rightarrow> nat" where
  "total_cost tr = sum_list (map (\<lambda>(op, res). cost op) tr)"

lemma total_cost_simps [simp]: "total_cost [] = 0" "total_cost ((op, res) # tr) = cost op + total_cost tr"
  by (simp_all add: total_cost_def)

lemma run_refines:
  assumes "hodo_run (zonefs_kernel B L mnt K) E s tr s'" "fs_rel B L cap zstart dinv zdat mnt (total_cost tr + k) s A"
    and "clear_stack K" "dots_ok E" "allowed A tr"
  shows "\<exists>A'. spec_run A tr = Some A' \<and> fs_rel B L cap zstart dinv zdat mnt k s' A'"
  using assms
proof (induction arbitrary: A)
  case (hodo_run_op op s res s1 tr s')
  have R: "fs_rel B L cap zstart dinv zdat mnt (cost op + (total_cost tr + k)) s A"
    using hodo_run_op.prems(1) by (simp add: add.assoc)
  have en: "enabled A op" using hodo_run_op.prems(4) by simp
  obtain A1 where A1: "spec_next A op res = Some A1" "fs_rel B L cap zstart dinv zdat mnt (total_cost tr + k) s1 A1"
    using op_step [OF R hodo_run_op.prems(2,3) en] hodo_run_op.hyps(1) by (metis Pair_inject option.inject)
  have al: "allowed A1 tr" using hodo_run_op.prems(4) A1(1) by simp
  obtain A' where "spec_run A1 tr = Some A' \<and> fs_rel B L cap zstart dinv zdat mnt k s' A'"
    using hodo_run_op.IH [OF A1(2) hodo_run_op.prems(2,3) al] by blast
  then show ?case using A1(1) by simp
qed simp

text \<open>The file system that \<open>hodo_init\<close> leaves on a fresh device: an empty root directory with the
  number 16, the number of zones.\<close>

definition root_only :: afs where
  "root_only = [16 \<mapsto> Dir (\<lambda>_. None)]"

lemma init_rel:
  assumes "zonefs_ok B L cap zstart dinv zdat (zonefs s)" "fresh_mount (zonefs_kernel B L mnt K) mnt (zonefs_data zdat) s"
    and "k_stack K 3 = zero_block" "zonefs_data zdat (zonefs s) swap_zone = []"
  obtains s' where "hodo_init (zonefs_kernel B L mnt K) s = Some s'"
    "fs_rel B L cap zstart dinv zdat mnt (BLOCKS_PER_ZONE - 1) s' root_only"
proof -
  have st: "k_stack (zonefs_kernel B L mnt K) 3 = zero_block" using assms(3) by simp
  obtain s' root where s': "hodo_init (zonefs_kernel B L mnt K) s = Some s'" "hodo_ok B L cap zstart dinv zdat mnt s'"
    "blocks zdat s' = [16 \<mapsto> root]" "inode_ok (blocks zdat s') 16 root" "dir_view (blocks zdat s') root = replicate 10 None"
    "room zdat s' (BLOCKS_PER_ZONE - 1)" "\<And>j. lbit (mapping_info s') j \<longleftrightarrow> j = 0" "wp (mapping_info s') = mk_pos 1 1"
    "\<And>z. z \<noteq> 1 \<Longrightarrow> zonefs_data zdat (zonefs s') z = zonefs_data zdat (zonefs s) z"
    using zonefs.hodo_init_fresh [OF assms(1,2) st] by metis
  have "{k. k < NUMBER_MAPPING_TABLE_ENTRY \<and> \<not> lbit (mapping_info s') k} = {1..<NUMBER_MAPPING_TABLE_ENTRY}"
    unfolding s'(7) by auto
  then have fr: "free_numbers s' = NUMBER_MAPPING_TABLE_ENTRY - 1" by (simp add: free_numbers_def)
  have "zonefs_data zdat (zonefs s') swap_zone = []" using s'(9) [OF swap_zone_pos(4)] assms(4) by simp
  moreover have "unat (zone_id (wp (mapping_info s'))) \<noteq> swap_zone"
    unfolding s'(8) data_zone_pos(1) using swap_zone_pos(4) by simp
  ultimately have "room_in zdat {swap_zone} s' (BLOCKS_PER_ZONE - 1)" using s'(6) by (auto simp: wp_room_def)
  then have bud: "budget zdat s' (BLOCKS_PER_ZONE - 1)"
    unfolding budget_def fr by (simp add: NUMBER_MAPPING_TABLE_ENTRY_eq BLOCKS_PER_ZONE_eq)
  have "dir_repr (replicate 10 None) (\<lambda>_. None)"
    by (simp add: dir_repr_def valid_entries_def view_dirents_def view_blocks_def)
  then have nd: "node_repr (blocks zdat s') 16 (Dir (\<lambda>_. None))" using s'(3-5) by (simp add: node_repr_def)
  have "represents (blocks zdat s') root_only" using nd by (simp add: represents_def root_only_def)
  moreover have "closed_afs root_only" by (simp add: closed_afs_def root_only_def)
  ultimately show thesis using that s'(1,2) bud by (simp add: fs_rel_def)
qed

section \<open>Properties of the whole file system\<close>

lemma fs_rel_less:
  assumes "fs_rel B L cap zstart dinv zdat mnt n s A" "k \<le> n"
  shows "fs_rel B L cap zstart dinv zdat mnt k s A"
proof -
  have "room_in zdat {swap_zone} s n" using assms(1) by (simp add: fs_rel_def budget_def)
  then have "room_in zdat {swap_zone} s k" by (rule wp_room_mono) (rule assms(2))
  then show ?thesis using assms by (simp add: fs_rel_def budget_def)
qed

text \<open>The state after a run from a fresh device.\<close>

lemma run_from_init:
  assumes "zonefs_ok B L cap zstart dinv zdat (zonefs s)" "fresh_mount (zonefs_kernel B L mnt K) mnt (zonefs_data zdat) s"
    and "zonefs_data zdat (zonefs s) swap_zone = []"
    and "k_stack K 3 = zero_block" "hodo_init (zonefs_kernel B L mnt K) s = Some s1" "clear_stack K" "dots_ok E"
    and "hodo_run (zonefs_kernel B L mnt K) E s1 tr s'" "allowed root_only tr" "total_cost tr + k < BLOCKS_PER_ZONE"
  obtains A where "spec_run root_only tr = Some A" "fs_rel B L cap zstart dinv zdat mnt k s' A"
proof -
  have R: "fs_rel B L cap zstart dinv zdat mnt (BLOCKS_PER_ZONE - 1) s1 root_only"
    using init_rel [OF assms(1,2,4,3)] assms(5) by (metis option.inject)
  have le: "total_cost tr + k \<le> BLOCKS_PER_ZONE - 1" using assms(10) by simp
  from run_refines [OF assms(8) fs_rel_less [OF R le] assms(6,7,9)] show thesis using that by blast
qed

text \<open>The file system implements the abstract one. After initialisation on a fresh device, every
  run of creations of files and directories, look-ups, listings, writes and reads whose operations
  the abstract file system allows, and that writes less than one zone of blocks, has only results that
  the abstract file system permits: look-ups and listings show exactly what was created, reads return
  the bytes last written, new files and directories get numbers that are not in use. The blocks of
  the store represent the abstract state, also over the garbage collections that making directories
  triggers.\<close>

theorem fs_refines_spec:
  assumes "zonefs_ok B L cap zstart dinv zdat (zonefs s)" "fresh_mount (zonefs_kernel B L mnt K) mnt (zonefs_data zdat) s"
    and "zonefs_data zdat (zonefs s) swap_zone = []"
    and "k_stack K 3 = zero_block" "hodo_init (zonefs_kernel B L mnt K) s = Some s1" "clear_stack K" "dots_ok E"
    and "hodo_run (zonefs_kernel B L mnt K) E s1 tr s'" "allowed root_only tr" "total_cost tr < BLOCKS_PER_ZONE"
  shows "\<exists>A. spec_run root_only tr = Some A \<and> represents (blocks zdat s') A \<and> closed_afs A \<and>
    hodo_ok B L cap zstart dinv zdat mnt s'"
proof -
  have c: "total_cost tr + 0 < BLOCKS_PER_ZONE" using assms(10) by simp
  show ?thesis by (rule run_from_init [OF assms(1-9) c]) (auto simp: fs_rel_def)
qed

text \<open>A run for the examples: a directory is made, and in it a file, which is written, found and read.\<close>

definition demo_env :: "'z vfs_env" where
  "demo_env = \<lparr>ev_lookup = (\<lambda>z. ((Inr None, fresh_vinode), z)), ev_iterate = (\<lambda>ctx z. ((0, ctx), z)),
     ev_write = demo_zw, ev_read = demo_zr,
     ev_dots = (\<lambda>ctx. (True, ctx\<lparr>ctx_pos := 2, ctx_out := [(''.'', 16, DT_DIR), (''..'', 1, DT_DIR)]\<rparr>))\<rparr>"

lemma demo_env_ok: "dots_ok demo_env" "clear_stack demo_kernel" "k_stack demo_kernel 3 = zero_block"
proof -
  show "dots_ok demo_env" by (simp add: dots_ok_def demo_env_def)
  show "clear_stack demo_kernel" using demo_memory by (simp add: clear_stack_def demo_kernel_def)
  show "k_stack demo_kernel 3 = zero_block" by (simp add: demo_kernel_def)
qed

lemma demo_zonefs_ok: "zonefs_ok ram_blk ram_lib ram_cap ram_start ram_inv (\<lambda>d. d) (zonefs demo_state)"
  using mounted_ok by (simp add: demo_state_def)

lemma demo_swap_empty: "zonefs_data (\<lambda>d. d) (zonefs demo_state) swap_zone = []"
  by (simp add: demo_state_def zonefs_data_def mounted_fs_def)

definition demo_trace :: "u32 \<Rightarrow> u32 \<Rightarrow> (fs_op \<times> fs_res) list" where
  "demo_trace k n = [(Mkdir 16 [0x64] 0x1ED, Created k), (Create k [0x61] 0x1A4, Created n), (Write n 0 [1, 2, 3], Count 3),
     (Lookup k [0x61], Found (Some n)), (Read n 0 3, Data 3 [1, 2, 3])]"

definition demo_afs :: "u32 \<Rightarrow> u32 \<Rightarrow> afs" where
  "demo_afs k n = [16 \<mapsto> Dir [[0x64] \<mapsto> k], k \<mapsto> Dir [[0x61] \<mapsto> n], n \<mapsto> File [1, 2, 3]]"

lemma demo_cost: "total_cost (demo_trace k n) = 9"
  by (simp add: demo_trace_def blocks_touched_def HODO_DATA_SIZE_eq)

lemma demo_run_from:
  assumes s: "fs_rel ram_blk ram_lib ram_cap ram_start ram_inv (\<lambda>d. d) ''/mnt'' (BLOCKS_PER_ZONE - 1) s root_only"
  obtains k n s' where "hodo_run demo_K demo_env s (demo_trace k n) s'"
    "allowed root_only (demo_trace k n)" "distinct [16, k, n]" "spec_run root_only (demo_trace k n) = Some (demo_afs k n)"
proof -
  let ?rel = "fs_rel ram_blk ram_lib ram_cap ram_start ram_inv (\<lambda>d. d) ''/mnt''"
  note K = demo_env_ok(2) and E = demo_env_ok(1)
  have m: "root_only 16 = Some (Dir Map.empty)" "valid_name [0x64]" "valid_name [0x61]"
    "card (dom (Map.empty :: bytes \<Rightarrow> u32 option)) < 1020"
    by (simp_all add: root_only_def valid_name_def)
  have R: "?rel (4 + 5) s root_only" by (rule fs_rel_less [OF s]) (simp add: BLOCKS_PER_ZONE_eq)
  obtain k s0 where d: "run_op demo_K demo_env (Mkdir 16 [0x64] 0x1ED) s = Some (Created k, s0)" "k \<noteq> 0"
    "root_only k = None" "?rel 5 s0 (root_only(16 \<mapsto> Dir (Map.empty([0x64] \<mapsto> k)), k \<mapsto> Dir Map.empty))"
    by (rule mkdir_step [OF R K m(1,2) refl m(4)])
  have k: "k \<noteq> 16" using d(3) by (auto simp: root_only_def)
  let ?A0 = "root_only(16 \<mapsto> Dir (Map.empty([0x64] \<mapsto> k)), k \<mapsto> Dir Map.empty)"
  have A0: "?A0 k = Some (Dir Map.empty)" by simp
  have R0: "?rel (3 + 2) s0 ?A0" using d(4) by simp
  obtain n s1 where c: "run_op demo_K demo_env (Create k [0x61] 0x1A4) s0 = Some (Created n, s1)" "n \<noteq> 0"
    "?A0 n = None" "?rel 2 s1 (?A0(k \<mapsto> Dir (Map.empty([0x61] \<mapsto> n)), n \<mapsto> File []))"
    by (rule create_step [OF R0 K A0 m(3) refl m(4)])
  have n: "n \<noteq> 16" "n \<noteq> k" using c(3) by (auto simp: root_only_def split: if_splits)
  let ?A1 = "?A0(k \<mapsto> Dir (Map.empty([0x61] \<mapsto> n)), n \<mapsto> File [])"
  have A1: "?A1 n = Some (File [])" "[1, 2, 3 :: u8] \<noteq> []" "0 \<le> length []" "0 + length [1, 2, 3 :: u8] \<le> 10 * HODO_DATA_SIZE"
    by (simp_all add: HODO_DATA_SIZE_eq)
  have R1: "?rel (2 * blocks_touched 0 (length [1, 2, 3 :: u8]) + 0) s1 ?A1"
    using c(4) by (simp add: blocks_touched_def HODO_DATA_SIZE_eq numeral_2_eq_2)
  obtain s2 where w: "run_op demo_K demo_env (Write n 0 [1, 2, 3]) s1 = Some (Count (int (length [1, 2, 3 :: u8])), s2)"
    "?rel 0 s2 (?A1(n \<mapsto> File (take 0 [] @ [1, 2, 3])))" by (rule write_step [OF R1 K A1])
  have A2: "?A1(n \<mapsto> File (take 0 [] @ [1, 2, 3])) = demo_afs k n" by (simp add: demo_afs_def root_only_def)
  have da: "demo_afs k n k = Some (Dir [[0x61] \<mapsto> n])" "demo_afs k n n = Some (File [1, 2, 3])"
    using n k by (simp_all add: demo_afs_def)
  obtain s3 where l: "run_op demo_K demo_env (Lookup k [0x61]) s2 = Some (Found (([[0x61] \<mapsto> n] :: bytes \<Rightarrow> u32 option) [0x61]), s3)"
    "?rel 0 s3 (demo_afs k n)"
    by (rule lookup_step [OF w(2) [unfolded A2] K da(1) m(3)])
  have nd: "\<not> 4088 dvd (Suc (Suc (Suc 0)))" by (auto dest: dvd_imp_le)
  have r: "(0 :: nat) < 2 ^ 63" "(3 :: nat) < 2 ^ 64"
    "0 + 3 < length [1, 2, 3 :: u8] \<or> length [1, 2, 3 :: u8] \<le> 0 \<or> \<not> HODO_DATA_SIZE dvd length [1, 2, 3 :: u8]"
    using nd by (simp_all add: HODO_DATA_SIZE_eq)
  obtain s4 where rd: "run_op demo_K demo_env (Read n 0 3) s3 =
      Some (Data (int (length (take 3 (drop 0 [1, 2, 3 :: u8])))) (take 3 (drop 0 [1, 2, 3])), s4)"
    by (rule read_step [OF l(2) K da(2) r])
  have run: "hodo_run demo_K demo_env s (demo_trace k n) s4"
    unfolding demo_trace_def hodo_run_Cons using d(1) c(1) w(1) l(1) rd by (simp del: run_op.simps)
  have sp: "spec_run root_only (demo_trace k n) = Some (demo_afs k n)"
    unfolding demo_trace_def using c(2,3) d(2,3) n k m(1) by (simp add: demo_afs_def root_only_def fun_upd_twist)
  have al: "allowed root_only (demo_trace k n)"
    unfolding demo_trace_def using c(2,3) d(2,3) n k m nd by (simp add: HODO_DATA_SIZE_eq root_only_def)
  show thesis by (rule that [OF run al _ sp]) (use n k in simp)
qed

lemma demo_run:
  obtains s k n s' where "hodo_init demo_K demo_state = Some s" "hodo_run demo_K demo_env s (demo_trace k n) s'"
    "allowed root_only (demo_trace k n)" "distinct [16, k, n]" "spec_run root_only (demo_trace k n) = Some (demo_afs k n)"
proof -
  obtain s where s: "hodo_init demo_K demo_state = Some s"
    "fs_rel ram_blk ram_lib ram_cap ram_start ram_inv (\<lambda>d. d) ''/mnt'' (BLOCKS_PER_ZONE - 1) s root_only"
    by (rule init_rel [OF demo_zonefs_ok demo_fresh demo_env_ok(3) demo_swap_empty])
  show thesis by (rule demo_run_from [OF s(2)]) (rule that [OF s(1)])
qed

theorem fs_refines_spec_witness:
  "\<exists>s k n s'. hodo_init demo_K demo_state = Some s \<and> hodo_run demo_K demo_env s (demo_trace k n) s' \<and>
     spec_run root_only (demo_trace k n) = Some (demo_afs k n) \<and> represents (blocks (\<lambda>d. d) s') (demo_afs k n)"
proof -
  obtain s k n s' where r: "hodo_init demo_K demo_state = Some s" "hodo_run demo_K demo_env s (demo_trace k n) s'"
    "allowed root_only (demo_trace k n)" "spec_run root_only (demo_trace k n) = Some (demo_afs k n)" by (rule demo_run)
  have c: "total_cost (demo_trace k n) < BLOCKS_PER_ZONE" by (simp add: demo_cost BLOCKS_PER_ZONE_eq)
  from fs_refines_spec [OF demo_zonefs_ok demo_fresh demo_swap_empty demo_env_ok(3) r(1) demo_env_ok(2,1) r(2,3) c]
  show ?thesis using r by auto
qed

text \<open>C2: an allowed client is never stuck. After any run that is allowed after the
  initialisation of a fresh device, as long as the zone has room, every enabled operation returns,
  without a memory fault or an endless loop, with a result that the abstract file system permits.\<close>

theorem allowed_client_never_stuck:
  assumes "zonefs_ok B L cap zstart dinv zdat (zonefs s)" "fresh_mount (zonefs_kernel B L mnt K) mnt (zonefs_data zdat) s"
    and "zonefs_data zdat (zonefs s) swap_zone = []"
    and "k_stack K 3 = zero_block" "hodo_init (zonefs_kernel B L mnt K) s = Some s1" "clear_stack K" "dots_ok E"
    and "hodo_run (zonefs_kernel B L mnt K) E s1 tr s'" "allowed root_only tr" "spec_run root_only tr = Some A"
    and "enabled A op" "total_cost tr + cost op < BLOCKS_PER_ZONE"
  shows "\<exists>res s''. run_op (zonefs_kernel B L mnt K) E op s' = Some (res, s'') \<and>
    hodo_run (zonefs_kernel B L mnt K) E s' [(op, res)] s'' \<and> spec_next A op res \<noteq> None"
proof -
  have c: "total_cost tr + (cost op + 0) < BLOCKS_PER_ZONE" using assms(12) by simp
  obtain A' where A': "spec_run root_only tr = Some A'" "fs_rel B L cap zstart dinv zdat mnt (cost op + 0) s' A'"
    by (rule run_from_init [OF assms(1-9) c])
  have R: "fs_rel B L cap zstart dinv zdat mnt (cost op + 0) s' A" using A' assms(10) by simp
  show ?thesis by (rule op_step [OF R assms(6,7,11)]) (simp add: hodo_run_Cons)
qed

theorem allowed_client_never_stuck_witness:
  "\<exists>s k n s' res s''. hodo_init demo_K demo_state = Some s \<and> hodo_run demo_K demo_env s (demo_trace k n) s' \<and>
     run_op demo_K demo_env (Mkdir k [0x62] 0x1ED) s' = Some (res, s'')"
proof -
  obtain s k n s' where r: "hodo_init demo_K demo_state = Some s" "hodo_run demo_K demo_env s (demo_trace k n) s'"
    "allowed root_only (demo_trace k n)" "distinct [16, k, n]" "spec_run root_only (demo_trace k n) = Some (demo_afs k n)" by (rule demo_run)
  have en: "enabled (demo_afs k n) (Mkdir k [0x62] 0x1ED)" using r(4) by (simp add: demo_afs_def valid_name_def)
  have c: "total_cost (demo_trace k n) + cost (Mkdir k [0x62] 0x1ED) < BLOCKS_PER_ZONE"
    by (simp add: demo_cost BLOCKS_PER_ZONE_eq)
  from allowed_client_never_stuck [OF demo_zonefs_ok demo_fresh demo_swap_empty demo_env_ok(3) r(1) demo_env_ok(2,1) r(2,3,5) en c]
  show ?thesis using r(1,2) by blast
qed

text \<open>C20: every state that an allowed run reaches is well-formed: each number that a directory shows has
  an inode block that carries this number, its block pointers lead to data blocks, and no block is
  used by two files or directories.\<close>

theorem reached_store_well_formed:
  assumes "zonefs_ok B L cap zstart dinv zdat (zonefs s)" "fresh_mount (zonefs_kernel B L mnt K) mnt (zonefs_data zdat) s"
    and "zonefs_data zdat (zonefs s) swap_zone = []"
    and "k_stack K 3 = zero_block" "hodo_init (zonefs_kernel B L mnt K) s = Some s1" "clear_stack K" "dots_ok E"
    and "hodo_run (zonefs_kernel B L mnt K) E s1 tr s'" "allowed root_only tr" "total_cost tr < BLOCKS_PER_ZONE"
    and "spec_run root_only tr = Some A" "A d = Some (Dir m)" "m nm = Some n" "a \<noteq> b" "A a \<noteq> None" "A b \<noteq> None"
  shows "inode_ok (blocks zdat s') n (the (blocks zdat s' n)) \<and> owned (blocks zdat s') a \<inter> owned (blocks zdat s') b = {}"
proof -
  have c: "total_cost tr + 0 < BLOCKS_PER_ZONE" using assms(10) by simp
  obtain A' where A': "spec_run root_only tr = Some A'" "fs_rel B L cap zstart dinv zdat mnt 0 s' A'"
    by (rule run_from_init [OF assms(1-9) c])
  have R: "represents (blocks zdat s') A" "closed_afs A" using A' assms(11) by (simp_all add: fs_rel_def)
  obtain nd where "A n = Some nd" using R(2) assms(12,13) unfolding closed_afs_def by blast
  then have "inode_ok (blocks zdat s') n (the (blocks zdat s' n))"
    using node_repr_inode [OF representsD(1) [OF R(1)]] by blast
  then show ?thesis using representsD(3) [OF R(1) assms(15,16,14)] by blast
qed

theorem reached_store_well_formed_witness:
  "\<exists>s k n s'. hodo_init demo_K demo_state = Some s \<and> hodo_run demo_K demo_env s (demo_trace k n) s' \<and>
     inode_ok (blocks (\<lambda>d. d) s') n (the (blocks (\<lambda>d. d) s' n)) \<and>
     owned (blocks (\<lambda>d. d) s') 16 \<inter> owned (blocks (\<lambda>d. d) s') n = {}"
proof -
  obtain s k n s' where r: "hodo_init demo_K demo_state = Some s" "hodo_run demo_K demo_env s (demo_trace k n) s'"
    "allowed root_only (demo_trace k n)" "distinct [16, k, n]" "spec_run root_only (demo_trace k n) = Some (demo_afs k n)" by (rule demo_run)
  have c: "total_cost (demo_trace k n) < BLOCKS_PER_ZONE" by (simp add: demo_cost BLOCKS_PER_ZONE_eq)
  have d: "demo_afs k n k = Some (Dir [[0x61] \<mapsto> n])" "[[0x61] \<mapsto> n] [0x61 :: u8] = Some n"
    "16 \<noteq> n" "demo_afs k n 16 \<noteq> None" "demo_afs k n n \<noteq> None" using r(4) by (simp_all add: demo_afs_def)
  from reached_store_well_formed [OF demo_zonefs_ok demo_fresh demo_swap_empty demo_env_ok(3) r(1) demo_env_ok(2,1) r(2,3) c r(5) d]
  show ?thesis using r(1,2) by blast
qed

end
