(* ===== verification/Zonefs_Mount.thy ===== *)
theory Zonefs_Mount
  imports Zonefs_Dir
begin

text \<open>
  Mounting zonefs, the last part of \<open>super.c\<close>: the on-disk super block, the zone report, the
  zone groups and their files, the registration with sysfs, and \<open>zonefs_fill_super\<close>. What the
  block layer, the kernel's allocators and sysfs answer is the record \<open>mount_dev\<close>. Tracing and the
  reference counts of the directory inodes are left out.
\<close>

section \<open>The device and the state of a mount\<close>

text \<open>
  \<open>md_report\<close> is \<open>blkdev_report_zones\<close> of the whole device: the zones handed to the callback,
  and the error after them when the report breaks off. \<open>md_super\<close> is the read of block 0,
  \<open>md_blkbits\<close> the block size \<open>sb_set_blocksize\<close> leaves, \<open>md_iget\<close> whether \<open>iget_locked\<close>
  returns an inode for a number, \<open>md_sysfs\<close> the result of \<open>kobject_init_and_add\<close>, and
  \<open>md_alloc\<close> whether an allocation succeeds, by what is allocated.
\<close>

datatype alloc_site = Alloc_zones | Alloc_zgroup zonefs_ztype | Alloc_sbi | Alloc_page | Alloc_root_inode
  | Alloc_root_dentry

record 'd mount_dev =
  md_is_zoned :: bool
  md_nr_zones :: nat
  md_zone_sectors :: nat
  md_blkbits :: nat
  md_max_open :: u32
  md_max_active :: u32
  md_report :: "'d \<Rightarrow> blk_zone list \<times> int option"
  md_super :: "'d \<Rightarrow> int + bytes"
  md_crc32 :: "bytes \<Rightarrow> u32"
  md_kuid :: "u32 \<Rightarrow> u32"
  md_kgid :: "u32 \<Rightarrow> u32"
  md_iget :: "nat \<Rightarrow> bool"
  md_sysfs :: int
  md_alloc :: "alloc_site \<Rightarrow> bool"
  md_blk :: "'d blkdev"

text \<open>
  The super block during a mount: the state of the mounted file system, the largest file, the
  inodes of the zone groups, the globals \<open>hodo_nr_zones\<close> and \<open>hodo_zone_size\<close>, whether
  \<open>s_fs_info\<close> points at the super block information, \<open>s_sysfs_registered\<close>, and the calls made on
  the kobject \<open>s_kobj\<close> and its completion.
\<close>

datatype kobj_call = Kobject_init_and_add | Kobject_del | Kobject_put | Wait_for_completion

record 'd mount_state =
  ms_fs :: "'d zonefs_state"
  ms_maxbytes :: int
  ms_zgroup_inode :: "zonefs_ztype \<Rightarrow> nat option"
  ms_hodo_nr_zones :: nat
  ms_hodo_zone_size :: int
  ms_info :: bool
  ms_registered :: bool
  ms_kobj :: "kobj_call list"

definition F_AGGRCNV :: u64 where "F_AGGRCNV = push_bit 0 1"
definition F_UID :: u64 where "F_UID = push_bit 1 1"
definition F_GID :: u64 where "F_GID = push_bit 2 1"
definition F_PERM :: u64 where "F_PERM = push_bit 3 1"
definition F_DEFINED_FEATURES :: u64 where
  "F_DEFINED_FEATURES = (F_AGGRCNV OR F_UID OR F_GID OR F_PERM)"

lemmas feature_defs = F_AGGRCNV_def F_UID_def F_GID_def F_PERM_def F_DEFINED_FEATURES_def

definition sb_has_feature :: "u64 \<Rightarrow> zonefs_sb_info \<Rightarrow> bool" where
  "sb_has_feature f s \<longleftrightarrow> s_features s AND f \<noteq> 0"

abbreviation ms_sbi :: "'d mount_state \<Rightarrow> zonefs_sb_info" where
  "ms_sbi ms \<equiv> fs_sbi (ms_fs ms)"

definition map_fs :: "('d zonefs_state \<Rightarrow> 'd zonefs_state) \<Rightarrow> 'd mount_state \<Rightarrow> 'd mount_state" where
  "map_fs f ms = ms\<lparr>ms_fs := f (ms_fs ms)\<rparr>"

definition map_sbi :: "(zonefs_sb_info \<Rightarrow> zonefs_sb_info) \<Rightarrow> 'd mount_state \<Rightarrow> 'd mount_state" where
  "map_sbi f = map_fs (\<lambda>fs. fs\<lparr>fs_sbi := f (fs_sbi fs)\<rparr>)"

section \<open>The zone report\<close>

text \<open>
  \<open>zonefs_zone_data\<close>: where the last conventional zone ended, and the copy of the reported
  zones. Writing behind the \<open>bdev_nr_zones\<close> entries of the copy is a fault.
\<close>

record zonefs_zone_data =
  zd_cnv_zone_start :: nat
  zd_zones :: "blk_zone list"

definition zero_blk_zone :: blk_zone where
  "zero_blk_zone = \<lparr>bz_start = 0, bz_len = 0, bz_wp = 0, bz_type = TYPE_OTHER 0, bz_cond = COND_NOT_WP,
     bz_capacity = 0\<rparr>"

definition count_zone :: "zonefs_ztype \<Rightarrow> zonefs_sb_info \<Rightarrow> zonefs_sb_info" where
  "count_zone t s = s\<lparr>s_nr_zones := (s_nr_zones s)(t := s_nr_zones s t + 1)\<rparr>"

definition store_zone ::
  "nat \<Rightarrow> blk_zone \<Rightarrow> zonefs_zone_data \<Rightarrow> 'd mount_state \<Rightarrow> (int \<times> zonefs_zone_data \<times> 'd mount_state) option"
where
  "store_zone idx zone zd ms =
     (if idx < length (zd_zones zd)
      then Some (0, zd\<lparr>zd_zones := (zd_zones zd)[idx := zone]\<rparr>,
                 ms\<lparr>ms_hodo_zone_size := sint (of_nat (bz_len zone * 512) :: u32)\<rparr>)
      else None)"

definition zonefs_get_zone_info_cb ::
  "blk_zone \<Rightarrow> nat \<Rightarrow> zonefs_zone_data \<Rightarrow> 'd mount_state \<Rightarrow> (int \<times> zonefs_zone_data \<times> 'd mount_state) option"
where
  "zonefs_get_zone_info_cb zone idx zd ms =
     (if idx = 0 then Some (0, zd, ms)
      else case bz_type zone of
        TYPE_CONVENTIONAL \<Rightarrow>
          (if sb_has_feature F_AGGRCNV (ms_sbi ms)
           then store_zone idx zone (zd\<lparr>zd_cnv_zone_start := bz_start zone + bz_len zone\<rparr>)
                  (if s_nr_zones (ms_sbi ms) ZTYPE_CNV = 0 \<or> bz_start zone \<noteq> zd_cnv_zone_start zd
                   then map_sbi (count_zone ZTYPE_CNV) ms else ms)
           else store_zone idx zone zd (map_sbi (count_zone ZTYPE_CNV) ms))
      | TYPE_SEQWRITE_REQ \<Rightarrow> store_zone idx zone zd (map_sbi (count_zone ZTYPE_SEQ) ms)
      | TYPE_SEQWRITE_PREF \<Rightarrow> store_zone idx zone zd (map_sbi (count_zone ZTYPE_SEQ) ms)
      | TYPE_OTHER _ \<Rightarrow> Some (- EIO, zd, ms))"

text \<open>The block layer's loop over the zones, until the callback returns an error.\<close>

fun report_zones ::
  "blk_zone list \<Rightarrow> nat \<Rightarrow> zonefs_zone_data \<Rightarrow> 'd mount_state \<Rightarrow> (int \<times> zonefs_zone_data \<times> 'd mount_state) option"
where
  "report_zones [] idx zd ms = Some (int idx, zd, ms)"
| "report_zones (zone # zs) idx zd ms =
     do {
       (ret, zd1, ms1) \<leftarrow> zonefs_get_zone_info_cb zone idx zd ms;
       if ret \<noteq> 0 then Some (ret, zd1, ms1) else report_zones zs (idx + 1) zd1 ms1
     }"

definition zonefs_get_zone_info ::
  "'d mount_dev \<Rightarrow> 'd mount_state \<Rightarrow> (int \<times> zonefs_zone_data \<times> 'd mount_state) option"
where
  "zonefs_get_zone_info D ms =
     (let zd = \<lparr>zd_cnv_zone_start = 0, zd_zones = []\<rparr> in
      if \<not> md_alloc D Alloc_zones then Some (- ENOMEM, zd, ms)
      else do {
        let (zs, err) = md_report D (fs_dev (ms_fs ms));
        (n, zd1, ms1) \<leftarrow> report_zones zs 0 (zd\<lparr>zd_zones := replicate (md_nr_zones D) zero_blk_zone\<rparr>) ms;
        let ret = (case err of Some e \<Rightarrow> if n < 0 then n else e | None \<Rightarrow> n);
        if ret < 0 then Some (ret, zd1, ms1)
        else if ret \<noteq> int (md_nr_zones D) then Some (- EIO, zd1, ms1)
        else Some (0, zd1, ms1\<lparr>ms_hodo_nr_zones := md_nr_zones D\<rparr>)
      })"

section \<open>Zone groups\<close>

text \<open>
  The aggregation of the conventional zones that follow a zone; the result is the grown zone and
  the zones behind it. The code grows the zone in the shared copy of the report, which is not
  read again at that index.
\<close>

definition grow_zone :: "blk_zone \<Rightarrow> blk_zone \<Rightarrow> blk_zone" where
  "grow_zone zone next =
     zone\<lparr>bz_len := bz_len zone + bz_len next, bz_capacity := bz_capacity zone + bz_capacity next,
       bz_cond := (if bz_cond next = COND_READONLY \<and> bz_cond zone \<noteq> COND_OFFLINE then COND_READONLY
                   else if bz_cond next = COND_OFFLINE then COND_OFFLINE else bz_cond zone)\<rparr>"

fun aggregate :: "zonefs_ztype \<Rightarrow> blk_zone \<Rightarrow> blk_zone list \<Rightarrow> blk_zone \<times> blk_zone list" where
  "aggregate t zone [] = (zone, [])"
| "aggregate t zone (next # rest) =
     (if zonefs_zone_type next \<noteq> t then (zone, next # rest) else aggregate t (grow_zone zone next) rest)"

lemma length_aggregate: "length (snd (aggregate t zone zs)) \<le> length zs"
  by (induction zs arbitrary: zone) (auto intro: le_SucI)

definition MAX_LFS_FILESIZE :: int where "MAX_LFS_FILESIZE = 2 ^ 63 - 1"
definition S_IFREG16 :: u16 where "S_IFREG16 = 0x8000"

definition zero_zone :: zonefs_zone where
  "zero_zone = \<lparr>z_flags = 0, z_sector = 0, z_size = 0, z_capacity = 0, z_wpoffset = 0, z_mode = 0,
     z_uid = 0, z_gid = 0\<rparr>"

text \<open>The view of one zone that \<open>zonefs_zone_mgmt\<close> and \<open>zonefs_account_active\<close> work on. There
  is no inode yet and neither reads it.\<close>

definition zone_view :: "zonefs_zone \<Rightarrow> 'd mount_state \<Rightarrow> 'd zctx" where
  "zone_view z ms = fs_view z (new_zone_inode 0 z) (ms_fs ms)"

definition keep_view :: "'d zctx \<Rightarrow> 'd mount_state \<Rightarrow> 'd mount_state" where
  "keep_view c = map_fs (\<lambda>fs. fs\<lparr>fs_sbi := c_sbi c, fs_dev := c_dev c\<rparr>)"

text \<open>The zone of one file: its fields, before the device's zone is closed.\<close>

definition zone_of_report :: "zonefs_ztype \<Rightarrow> blk_zone \<Rightarrow> zonefs_sb_info \<Rightarrow> zonefs_zone" where
  "zone_of_report t zone s =
     (let z0 = (if t = ZTYPE_CNV then zone_set ZONE_CNV zero_zone else zero_zone);
          z1 = z0\<lparr>z_sector := bz_start zone, z_size := int (bz_len zone) * 2 ^ SECTOR_SHIFT,
                  z_capacity := min MAX_LFS_FILESIZE (int (bz_capacity zone) * 2 ^ SECTOR_SHIFT)\<rparr>;
          (wpoff, z2) = zonefs_check_zone_condition zone z1
      in zone_set ZONE_INIT_MODE (z2\<lparr>z_wpoffset := wpoff, z_mode := S_IFREG16 OR s_perm s, z_uid := s_uid s,
           z_gid := s_gid s\<rparr>))"

definition count_blocks :: "zonefs_zone \<Rightarrow> 'd mount_state \<Rightarrow> 'd mount_state" where
  "count_blocks z ms =
     map_sbi (\<lambda>s. s\<lparr>s_blocks := s_blocks s + drop_bit (fs_blkbits (ms_fs ms)) (z_capacity z),
         s_used_blocks := s_used_blocks s + drop_bit (fs_blkbits (ms_fs ms)) (z_wpoffset z)\<rparr>)
       (ms\<lparr>ms_maxbytes := max (z_capacity z) (ms_maxbytes ms)\<rparr>)"

definition init_zone ::
  "'d mount_dev \<Rightarrow> zonefs_ztype \<Rightarrow> blk_zone \<Rightarrow> 'd mount_state \<Rightarrow> int \<times> zonefs_zone \<times> 'd mount_state"
where
  "init_zone D t zone ms =
     (let z = zone_of_report t zone (ms_sbi ms) in
      if int (md_zone_sectors D) * 2 ^ SECTOR_SHIFT < z_size z \<and> \<not> sb_has_feature F_AGGRCNV (ms_sbi ms)
      then (- EINVAL, z, ms)
      else let ms1 = count_blocks z ms;
               (ret, c) = (if t = ZTYPE_SEQ \<and> (bz_cond zone = COND_IMP_OPEN \<or> bz_cond zone = COND_EXP_OPEN)
                           then zonefs_zone_mgmt (md_blk D) ZONE_CLOSE (zone_view z ms1)
                           else (0, zone_view z ms1))
           in if ret \<noteq> 0 then (ret, z, keep_view c ms1)
              else let c' = zonefs_account_active c in (0, c_zone c', keep_view c' ms1))"

definition put_zone :: "zonefs_ztype \<Rightarrow> nat \<Rightarrow> zonefs_zone \<Rightarrow> 'd mount_state \<Rightarrow> 'd mount_state" where
  "put_zone t n z = map_fs (\<lambda>fs. fs\<lparr>fs_zones := (fs_zones fs)(t := (fs_zones fs t)[n := z])\<rparr>)"

text \<open>The loop over the reported zones: the result, the number of files made and the state.\<close>

function init_zones ::
  "'d mount_dev \<Rightarrow> zonefs_ztype \<Rightarrow> nat \<Rightarrow> blk_zone list \<Rightarrow> 'd mount_state \<Rightarrow> int \<times> nat \<times> 'd mount_state"
where
  "init_zones D t n [] ms = (0, n, ms)"
| "init_zones D t n (zone # rest) ms =
     (if zonefs_zone_type zone \<noteq> t then init_zones D t n rest ms
      else if s_nr_zones (ms_sbi ms) t \<le> n then (- EINVAL, n, ms)
      else let zr = (if t = ZTYPE_CNV \<and> sb_has_feature F_AGGRCNV (ms_sbi ms) then aggregate t zone rest
                     else (zone, rest));
               r = init_zone D t (fst zr) ms;
               ms' = put_zone t n (fst (snd r)) (snd (snd r))
           in if fst r \<noteq> 0 then (fst r, n, ms') else init_zones D t (n + 1) (snd zr) ms')"
  by pat_completeness auto
termination
  by (relation "measure (\<lambda>(D, t, n, zs, ms). length zs)") (auto simp: less_Suc_eq_le length_aggregate)

declare init_zones.simps [simp del]

definition zonefs_init_zgroup ::
  "'d mount_dev \<Rightarrow> zonefs_zone_data \<Rightarrow> zonefs_ztype \<Rightarrow> 'd mount_state \<Rightarrow> int \<times> 'd mount_state"
where
  "zonefs_init_zgroup D zd t ms =
     (let nr = s_nr_zones (ms_sbi ms) t in
      if nr = 0 then (0, ms)
      else if \<not> md_alloc D (Alloc_zgroup t) then (- ENOMEM, map_fs (\<lambda>fs. fs\<lparr>fs_zones := (fs_zones fs)(t := [])\<rparr>) ms)
      else let (ret, n, ms') = init_zones D t 0 (drop 1 (zd_zones zd))
                 (map_fs (\<lambda>fs. fs\<lparr>fs_zones := (fs_zones fs)(t := replicate nr zero_zone)\<rparr>) ms)
           in if ret \<noteq> 0 then (ret, ms') else if n \<noteq> nr then (- EINVAL, ms') else (0, ms'))"

definition zonefs_free_zgroups :: "'d mount_state \<Rightarrow> 'd mount_state" where
  "zonefs_free_zgroups ms = (if ms_info ms then map_fs (\<lambda>fs. fs\<lparr>fs_zones := (\<lambda>_. [])\<rparr>) ms else ms)"

definition zonefs_init_zgroups :: "'d mount_dev \<Rightarrow> 'd mount_state \<Rightarrow> (int \<times> 'd mount_state) option" where
  "zonefs_init_zgroups D ms =
     do {
       (ret, zd, ms1) \<leftarrow> zonefs_get_zone_info D ms;
       let (ret2, ms2) = (if ret \<noteq> 0 then (ret, ms1) else zonefs_init_zgroup D zd ZTYPE_CNV ms1);
       let (ret3, ms3) = (if ret2 \<noteq> 0 then (ret2, ms2) else zonefs_init_zgroup D zd ZTYPE_SEQ ms2);
       Some (ret3, if ret3 \<noteq> 0 then zonefs_free_zgroups ms3 else ms3)
     }"

section \<open>The super block\<close>

definition ZONEFS_MAGIC :: u32 where "ZONEFS_MAGIC = 0x5A4F4653"
definition ZONEFS_SUPER_SIZE :: nat where [const_simps]: "ZONEFS_SUPER_SIZE = 4096"

definition zs_magic :: "bytes \<Rightarrow> u32" where "zs_magic = u32_at 0"
definition zs_crc :: "bytes \<Rightarrow> u32" where "zs_crc = u32_at 4"
definition zs_features :: "bytes \<Rightarrow> u64" where "zs_features = u64_at 88"
definition zs_uid :: "bytes \<Rightarrow> u32" where "zs_uid = u32_at 96"
definition zs_gid :: "bytes \<Rightarrow> u32" where "zs_gid = u32_at 100"
definition zs_perm :: "bytes \<Rightarrow> u32" where "zs_perm = u32_at 104"
definition zs_reserved :: "bytes \<Rightarrow> bytes" where "zs_reserved = get_bytes 108 3988"

definition INVALID_ID :: u32 where "INVALID_ID = - 1"

text \<open>The fields are taken over one by one, so a rejected super block leaves the earlier ones.\<close>

definition take_uid :: "'d mount_dev \<Rightarrow> bytes \<Rightarrow> zonefs_sb_info \<Rightarrow> zonefs_sb_info" where
  "take_uid D b s = (if sb_has_feature F_UID s then s\<lparr>s_uid := md_kuid D (zs_uid b)\<rparr> else s)"

definition take_gid :: "'d mount_dev \<Rightarrow> bytes \<Rightarrow> zonefs_sb_info \<Rightarrow> zonefs_sb_info" where
  "take_gid D b s = (if sb_has_feature F_GID s then s\<lparr>s_gid := md_kgid D (zs_gid b)\<rparr> else s)"

definition take_perm :: "bytes \<Rightarrow> zonefs_sb_info \<Rightarrow> zonefs_sb_info" where
  "take_perm b s = (if sb_has_feature F_PERM s then s\<lparr>s_perm := ucast (zs_perm b)\<rparr> else s)"

definition check_super :: "'d mount_dev \<Rightarrow> bytes \<Rightarrow> zonefs_sb_info \<Rightarrow> int \<times> zonefs_sb_info" where
  "check_super D b s =
     (if zs_magic b \<noteq> ZONEFS_MAGIC then (- EINVAL, s)
      else if md_crc32 D (set_u32 4 0 b) \<noteq> zs_crc b then (- EINVAL, s)
      else let s1 = s\<lparr>s_features := zs_features b\<rparr>; s2 = take_uid D b s1; s3 = take_gid D b s2;
               s4 = take_perm b s3
           in if s_features s1 AND NOT F_DEFINED_FEATURES \<noteq> 0 then (- EINVAL, s1)
              else if sb_has_feature F_UID s1 \<and> s_uid s2 = INVALID_ID then (- EINVAL, s2)
              else if sb_has_feature F_GID s1 \<and> s_gid s3 = INVALID_ID then (- EINVAL, s3)
              else if zs_reserved b \<noteq> replicate 3988 0 then (- EINVAL, s4)
              else (0, s4))"

definition zonefs_read_super :: "'d mount_dev \<Rightarrow> 'd mount_state \<Rightarrow> int \<times> 'd mount_state" where
  "zonefs_read_super D ms =
     (if \<not> md_alloc D Alloc_page then (- ENOMEM, ms)
      else case md_super D (fs_dev (ms_fs ms)) of
        Inl ret \<Rightarrow> (ret, ms)
      | Inr b \<Rightarrow> (case check_super D b (ms_sbi ms) of (ret, s) \<Rightarrow> (ret, map_sbi (\<lambda>_. s) ms)))"

section \<open>Filling the super block\<close>

text \<open>The inodes of the zone group directories, by number.\<close>

definition zonefs_get_zgroup_inode :: "'d mount_dev \<Rightarrow> zonefs_ztype \<Rightarrow> 'd mount_state \<Rightarrow> int + nat" where
  "zonefs_get_zgroup_inode D t ms =
     (let ino = zgroup_ino t (ms_fs ms) in if md_iget D ino then Inr ino else Inl (- ENOMEM))"

fun get_zgroup_inodes :: "'d mount_dev \<Rightarrow> zonefs_ztype list \<Rightarrow> 'd mount_state \<Rightarrow> int \<times> 'd mount_state" where
  "get_zgroup_inodes D [] ms = (0, ms)"
| "get_zgroup_inodes D (t # ts) ms =
     (if s_nr_zones (ms_sbi ms) t = 0 then get_zgroup_inodes D ts ms
      else case zonefs_get_zgroup_inode D t ms of
        Inl e \<Rightarrow> (e, ms)
      | Inr ino \<Rightarrow> get_zgroup_inodes D ts (ms\<lparr>ms_zgroup_inode := (ms_zgroup_inode ms)(t \<mapsto> ino)\<rparr>))"

definition zonefs_get_zgroup_inodes :: "'d mount_dev \<Rightarrow> 'd mount_state \<Rightarrow> int \<times> 'd mount_state" where
  "zonefs_get_zgroup_inodes D = get_zgroup_inodes D [ZTYPE_CNV, ZTYPE_SEQ]"

definition zonefs_release_zgroup_inodes :: "'d mount_state \<Rightarrow> 'd mount_state" where
  "zonefs_release_zgroup_inodes ms = (if ms_info ms then ms\<lparr>ms_zgroup_inode := (\<lambda>_. None)\<rparr> else ms)"

record root_inode =
  ri_ino :: nat
  ri_size :: int
  ri_nlink :: nat

definition root_entries :: "zonefs_sb_info \<Rightarrow> nat" where
  "root_entries s = (if s_nr_zones s ZTYPE_CNV \<noteq> 0 then 1 else 0) + (if s_nr_zones s ZTYPE_SEQ \<noteq> 0 then 1 else 0)"

definition make_root :: "'d mount_dev \<Rightarrow> zonefs_sb_info \<Rightarrow> root_inode" where
  "make_root D s = \<lparr>ri_ino = md_nr_zones D, ri_size = 2 + int (root_entries s), ri_nlink = 2 + root_entries s\<rparr>"

fun ilog2 :: "nat \<Rightarrow> nat" where
  "ilog2 n = (if n < 2 then 0 else ilog2 (n div 2) + 1)"

declare ilog2.simps [simp del]

definition fresh_sbi :: "'d mount_dev \<Rightarrow> zonefs_sb_info" where
  "fresh_sbi D = \<lparr>s_mount_opts = MNTOPT_ERRORS_RO, s_features = 0, s_uid = 0, s_gid = 0, s_perm = 0x1A0,
     s_zone_sectors_shift = ilog2 (md_zone_sectors D), s_nr_zones = (\<lambda>_. 0), s_blocks = 0, s_used_blocks = 0,
     s_max_wro_seq_files = md_max_open D, s_wro_seq_files = 0, s_max_active_seq_files = md_max_active D,
     s_active_seq_files = 0\<rparr>"

definition fresh_super :: "'d mount_dev \<Rightarrow> 'd mount_state \<Rightarrow> 'd mount_state" where
  "fresh_super D ms =
     (map_fs (\<lambda>fs. fs\<lparr>fs_sbi := fresh_sbi D, fs_zones := (\<lambda>_. []), fs_blkbits := md_blkbits D,
        fs_nr_zones := md_nr_zones D\<rparr>) ms)\<lparr>ms_maxbytes := 0, ms_zgroup_inode := (\<lambda>_. None), ms_info := True,
        ms_registered := False\<rparr>"

definition drop_explicit_open :: "zonefs_sb_info \<Rightarrow> zonefs_sb_info" where
  "drop_explicit_open s =
     (if s_max_wro_seq_files s = 0 \<and> s_max_active_seq_files s = 0 \<and> s_mount_opts s AND MNTOPT_EXPLICIT_OPEN \<noteq> 0
      then s\<lparr>s_mount_opts := s_mount_opts s AND NOT MNTOPT_EXPLICIT_OPEN\<rparr> else s)"

text \<open>Registration with sysfs (\<open>sysfs.c\<close>). A kobject that could not be added is put back.\<close>

definition kobj_calls :: "kobj_call list \<Rightarrow> 'd mount_state \<Rightarrow> 'd mount_state" where
  "kobj_calls cs ms = ms\<lparr>ms_kobj := ms_kobj ms @ cs\<rparr>"

definition zonefs_sysfs_register :: "'d mount_dev \<Rightarrow> 'd mount_state \<Rightarrow> int \<times> 'd mount_state" where
  "zonefs_sysfs_register D ms =
     (let ret = md_sysfs D; ms1 = kobj_calls [Kobject_init_and_add] ms in
      if ret \<noteq> 0 then (ret, kobj_calls [Kobject_put, Wait_for_completion] ms1)
      else (0, ms1\<lparr>ms_registered := True\<rparr>))"

text \<open>The result, the root inode when the mount succeeds, and the state.\<close>

type_synonym 'd mount_result = "int \<times> root_inode option \<times> 'd mount_state"

definition fill_failed :: "int \<Rightarrow> 'd mount_state \<Rightarrow> 'd mount_result" where
  "fill_failed ret ms = (ret, None, zonefs_free_zgroups (zonefs_release_zgroup_inodes ms))"

text \<open>The second half, after the options: from the zone groups to the registration.\<close>

definition fill_groups :: "'d mount_dev \<Rightarrow> 'd mount_state \<Rightarrow> 'd mount_result option" where
  "fill_groups D ms2 =
     do {
       (ret3, ms3) \<leftarrow> zonefs_init_zgroups D ms2;
       let (ret4, ms4) = zonefs_get_zgroup_inodes D ms3;
       let (ret5, ms5) = zonefs_sysfs_register D ms4;
       Some (if ret3 \<noteq> 0 then fill_failed ret3 ms3
             else if \<not> md_alloc D Alloc_root_inode \<or> \<not> md_alloc D Alloc_root_dentry
             then fill_failed (- ENOMEM) ms3
             else if ret4 \<noteq> 0 then fill_failed ret4 ms4
             else if ret5 \<noteq> 0 then fill_failed ret5 ms5
             else (0, Some (make_root D (ms_sbi ms3)), ms5))
     }"

definition zonefs_fill_super ::
  "'d mount_dev \<Rightarrow> string option \<Rightarrow> 'd mount_state \<Rightarrow> 'd mount_result option"
where
  "zonefs_fill_super D options ms =
     (if \<not> md_is_zoned D then Some (- EINVAL, None, ms)
      else if \<not> md_alloc D Alloc_sbi then Some (- ENOMEM, None, ms)
      else let (ret1, ms1) = zonefs_read_super D (fresh_super D ms);
               (ret2, opts) = zonefs_parse_options options (s_mount_opts (ms_sbi ms1));
               ms2 = map_sbi (\<lambda>s. s\<lparr>s_mount_opts := opts\<rparr>) ms1
           in if ret1 \<noteq> 0 then Some (ret1, None, ms1)
              else if ret2 \<noteq> 0 then Some (ret2, None, ms2)
              else fill_groups D (map_sbi drop_explicit_open ms2))"

section \<open>Files and the zones they cover\<close>

text \<open>
  The reference: the groups of zones that make one file each. With aggregation, a run of
  neighbouring conventional zones is one group; every other zone is a group of its own.
\<close>

abbreviation of_type :: "zonefs_ztype \<Rightarrow> blk_zone \<Rightarrow> bool" where
  "of_type t zone \<equiv> zonefs_zone_type zone = t"

function runs :: "zonefs_ztype \<Rightarrow> blk_zone list \<Rightarrow> blk_zone list list" where
  "runs t [] = []"
| "runs t (zone # zs) =
     (if of_type t zone then (zone # takeWhile (of_type t) zs) # runs t (dropWhile (of_type t) zs) else runs t zs)"
  by pat_completeness auto
termination by (relation "measure (\<lambda>(t, zs). length zs)") (auto simp: less_Suc_eq_le length_dropWhile_le)

definition zone_groups :: "bool \<Rightarrow> zonefs_ztype \<Rightarrow> blk_zone list \<Rightarrow> blk_zone list list" where
  "zone_groups aggr t zs =
     (if aggr \<and> t = ZTYPE_CNV then runs t zs else map (\<lambda>zone. [zone]) (filter (of_type t) zs))"

lemma concat_runs: "concat (runs t zs) = filter (of_type t) zs"
proof (induction t zs rule: runs.induct)
  case (2 t zone zs)
  have "filter (of_type t) zs = takeWhile (of_type t) zs @ filter (of_type t) (dropWhile (of_type t) zs)"
    by (induction zs) auto
  then show ?case using 2 by auto
qed simp

lemma concat_zone_groups: "concat (zone_groups aggr t zs) = filter (of_type t) zs"
proof -
  have "concat (map (\<lambda>z. [z]) xs) = xs" for xs :: "blk_zone list" by (induction xs) simp_all
  then show ?thesis by (simp add: zone_groups_def concat_runs)
qed

lemma zone_groups_Nil [simp]: "zone_groups aggr t [] = []"
  by (simp add: zone_groups_def)

lemma zone_groups_Cons:
  "zone_groups aggr t (zone # zs) =
     (if \<not> of_type t zone then zone_groups aggr t zs
      else if aggr \<and> t = ZTYPE_CNV
      then (zone # takeWhile (of_type t) zs) # zone_groups aggr t (dropWhile (of_type t) zs)
      else [zone] # zone_groups aggr t zs)"
  by (simp add: zone_groups_def)

section \<open>Counting the files\<close>

text \<open>The zones of a report are known and follow each other on the device.\<close>

fun adjacent :: "blk_zone list \<Rightarrow> bool" where
  "adjacent (a # b # zs) \<longleftrightarrow> bz_start b = bz_start a + bz_len a \<and> 0 < bz_len a \<and> adjacent (b # zs)"
| "adjacent zs \<longleftrightarrow> True"

definition known_type :: "blk_zone \<Rightarrow> bool" where
  "known_type zone \<longleftrightarrow> (case bz_type zone of TYPE_OTHER _ \<Rightarrow> False | _ \<Rightarrow> True)"

lemma map_sbi_simps [simp]:
  "ms_sbi (map_sbi f ms) = f (ms_sbi ms)" "fs_zones (ms_fs (map_sbi f ms)) = fs_zones (ms_fs ms)"
  "fs_dev (ms_fs (map_sbi f ms)) = fs_dev (ms_fs ms)" "fs_blkbits (ms_fs (map_sbi f ms)) = fs_blkbits (ms_fs ms)"
  "ms_maxbytes (map_sbi f ms) = ms_maxbytes ms" "ms_zgroup_inode (map_sbi f ms) = ms_zgroup_inode ms"
  by (simp_all add: map_sbi_def map_fs_def)

lemma count_zone_simps [simp]:
  "s_nr_zones (count_zone t s) = (s_nr_zones s)(t := s_nr_zones s t + 1)"
  "s_features (count_zone t s) = s_features s" "sb_has_feature f (count_zone t s) = sb_has_feature f s"
  by (simp_all add: count_zone_def sb_has_feature_def)

text \<open>What one call of the callback for a known zone does.\<close>

definition counts_as_new :: "blk_zone \<Rightarrow> zonefs_zone_data \<Rightarrow> zonefs_sb_info \<Rightarrow> bool" where
  "counts_as_new zone zd s \<longleftrightarrow> \<not> (of_type ZTYPE_CNV zone \<and> sb_has_feature F_AGGRCNV s \<and>
     s_nr_zones s ZTYPE_CNV \<noteq> 0 \<and> bz_start zone = zd_cnv_zone_start zd)"

definition without_counts :: "'d mount_state \<Rightarrow> 'd mount_state" where
  "without_counts ms = map_sbi (\<lambda>s. s\<lparr>s_nr_zones := (\<lambda>_. 0)\<rparr>) (ms\<lparr>ms_hodo_zone_size := 0, ms_hodo_nr_zones := 0\<rparr>)"

lemma without_counts_simps:
  assumes "without_counts ms' = without_counts ms"
  shows "s_features (ms_sbi ms') = s_features (ms_sbi ms)" "fs_zones (ms_fs ms') = fs_zones (ms_fs ms)"
    "fs_dev (ms_fs ms') = fs_dev (ms_fs ms)" "fs_blkbits (ms_fs ms') = fs_blkbits (ms_fs ms)"
    "s_blocks (ms_sbi ms') = s_blocks (ms_sbi ms)" "s_used_blocks (ms_sbi ms') = s_used_blocks (ms_sbi ms)"
    "s_active_seq_files (ms_sbi ms') = s_active_seq_files (ms_sbi ms)" "ms_maxbytes ms' = ms_maxbytes ms"
    "s_mount_opts (ms_sbi ms') = s_mount_opts (ms_sbi ms)" "ms_zgroup_inode ms' = ms_zgroup_inode ms"
  using assms [THEN arg_cong, where f = "\<lambda>m. s_features (ms_sbi m)"]
    assms [THEN arg_cong, where f = "\<lambda>m. fs_zones (ms_fs m)"]
    assms [THEN arg_cong, where f = "\<lambda>m. fs_dev (ms_fs m)"]
    assms [THEN arg_cong, where f = "\<lambda>m. fs_blkbits (ms_fs m)"]
    assms [THEN arg_cong, where f = "\<lambda>m. s_blocks (ms_sbi m)"]
    assms [THEN arg_cong, where f = "\<lambda>m. s_used_blocks (ms_sbi m)"]
    assms [THEN arg_cong, where f = "\<lambda>m. s_active_seq_files (ms_sbi m)"]
    assms [THEN arg_cong, where f = "\<lambda>m. ms_maxbytes m"]
    assms [THEN arg_cong, where f = "\<lambda>m. s_mount_opts (ms_sbi m)"]
    assms [THEN arg_cong, where f = "\<lambda>m. ms_zgroup_inode m"]
  by (simp_all add: without_counts_def)

lemma zone_info_cb_known:
  assumes "0 < idx" "known_type zone" "idx < length (zd_zones zd)"
  obtains ms' where
    "zonefs_get_zone_info_cb zone idx zd ms =
       Some (0, \<lparr>zd_cnv_zone_start = (if of_type ZTYPE_CNV zone \<and> sb_has_feature F_AGGRCNV (ms_sbi ms)
                   then bz_start zone + bz_len zone else zd_cnv_zone_start zd),
                 zd_zones = (zd_zones zd)[idx := zone]\<rparr>, ms')"
    "without_counts ms' = without_counts ms"
    "s_nr_zones (ms_sbi ms') =
       (if counts_as_new zone zd (ms_sbi ms)
        then (s_nr_zones (ms_sbi ms))(zonefs_zone_type zone := s_nr_zones (ms_sbi ms) (zonefs_zone_type zone) + 1)
        else s_nr_zones (ms_sbi ms))"
proof -
  let ?t = "zonefs_zone_type zone"
  let ?m = "if counts_as_new zone zd (ms_sbi ms) then map_sbi (count_zone ?t) ms else ms"
  let ?ms' = "?m\<lparr>ms_hodo_zone_size := sint (of_nat (bz_len zone * 512) :: u32)\<rparr>"
  have "without_counts ?ms' = without_counts ms"
    by (simp add: without_counts_def map_sbi_def map_fs_def count_zone_def)
  moreover have "zonefs_get_zone_info_cb zone idx zd ms =
       Some (0, \<lparr>zd_cnv_zone_start = (if of_type ZTYPE_CNV zone \<and> sb_has_feature F_AGGRCNV (ms_sbi ms)
                   then bz_start zone + bz_len zone else zd_cnv_zone_start zd),
                 zd_zones = (zd_zones zd)[idx := zone]\<rparr>, ?ms')"
    using assms
    by (cases zd) (auto simp: zonefs_get_zone_info_cb_def known_type_def store_zone_def counts_as_new_def
        zonefs_zone_type_def split: blk_zone_type.splits)
  ultimately show ?thesis using that by simp
qed


text \<open>
  What the counters and the end of the last conventional zone say about the zones still to come:
  whether the last zone reported belongs to a run.
\<close>

definition count_state :: "bool \<Rightarrow> zonefs_zone_data \<Rightarrow> zonefs_sb_info \<Rightarrow> blk_zone list \<Rightarrow> bool" where
  "count_state inrun zd s zs \<longleftrightarrow> sb_has_feature F_AGGRCNV s \<longrightarrow> zs \<noteq> [] \<longrightarrow>
     (if inrun then s_nr_zones s ZTYPE_CNV \<noteq> 0 \<and> bz_start (hd zs) = zd_cnv_zone_start zd
      else s_nr_zones s ZTYPE_CNV = 0 \<or> zd_cnv_zone_start zd < bz_start (hd zs))"

definition groups_left :: "bool \<Rightarrow> bool \<Rightarrow> zonefs_ztype \<Rightarrow> blk_zone list \<Rightarrow> nat" where
  "groups_left inrun aggr t zs =
     length (zone_groups aggr t (if inrun \<and> aggr \<and> t = ZTYPE_CNV then dropWhile (of_type t) zs else zs))"

lemma groups_left_Cons:
  "groups_left inrun aggr t (zone # zs) =
     (if of_type t zone \<and> \<not> (inrun \<and> aggr \<and> t = ZTYPE_CNV) then 1 else 0) +
     groups_left (zonefs_zone_type zone = ZTYPE_CNV) aggr t zs"
  by (cases "zonefs_zone_type zone"; cases t) (auto simp: groups_left_def zone_groups_Cons)

lemma counts_as_new_iff:
  "count_state inrun zd s (zone # zs) \<Longrightarrow> counts_as_new zone zd s \<longleftrightarrow>
     \<not> (of_type ZTYPE_CNV zone \<and> sb_has_feature F_AGGRCNV s \<and> inrun)"
  by (cases inrun) (auto simp: count_state_def counts_as_new_def)

lemma adjacent_Cons: "adjacent (zone # zs) \<longleftrightarrow>
    (zs \<noteq> [] \<longrightarrow> bz_start (hd zs) = bz_start zone + bz_len zone \<and> 0 < bz_len zone) \<and> adjacent zs"
  by (cases zs) auto

lemma count_state_step:
  assumes "count_state inrun zd s (zone # zs)" "adjacent (zone # zs)"
    and "s_features s' = s_features s"
    and "s_nr_zones s' = (if counts_as_new zone zd s
        then (s_nr_zones s)(zonefs_zone_type zone := s_nr_zones s (zonefs_zone_type zone) + 1) else s_nr_zones s)"
    and "zd_cnv_zone_start zd' = (if of_type ZTYPE_CNV zone \<and> sb_has_feature F_AGGRCNV s
        then bz_start zone + bz_len zone else zd_cnv_zone_start zd)"
  shows "count_state (zonefs_zone_type zone = ZTYPE_CNV) zd' s' zs"
  unfolding count_state_def
proof (intro impI)
  assume f: "sb_has_feature F_AGGRCNV s'" and ne: "zs \<noteq> []"
  have f': "sb_has_feature F_AGGRCNV s" using f assms(3) by (simp add: sb_has_feature_def)
  have a: "bz_start (hd zs) = bz_start zone + bz_len zone" "0 < bz_len zone"
    using assms(2) ne by (simp_all add: adjacent_Cons)
  show "if of_type ZTYPE_CNV zone
     then s_nr_zones s' ZTYPE_CNV \<noteq> 0 \<and> bz_start (hd zs) = zd_cnv_zone_start zd'
     else s_nr_zones s' ZTYPE_CNV = 0 \<or> zd_cnv_zone_start zd' < bz_start (hd zs)"
  proof (cases "of_type ZTYPE_CNV zone")
    case True
    have "s_nr_zones s' ZTYPE_CNV \<noteq> 0"
      using assms(1,4) True f' counts_as_new_iff [OF assms(1)] by (cases inrun) (auto simp: count_state_def)
    then show ?thesis using True f' a assms(5) by simp
  next
    case False
    then have "zonefs_zone_type zone = ZTYPE_SEQ" by (cases "zonefs_zone_type zone") auto
    then have "s_nr_zones s' ZTYPE_CNV = s_nr_zones s ZTYPE_CNV" using assms(4) by auto
    then show ?thesis using False assms(1,5) f' a by (cases inrun) (auto simp: count_state_def)
  qed
qed

lemma report_zones_counts:
  assumes "count_state inrun zd (ms_sbi ms) zs" "adjacent zs" "\<forall>zone \<in> set zs. known_type zone"
    and "0 < idx" "idx + length zs \<le> length (zd_zones zd)"
  shows "\<exists>zd' ms'. report_zones zs idx zd ms = Some (int (idx + length zs), zd', ms') \<and>
    without_counts ms' = without_counts ms \<and>
    zd_zones zd' = take idx (zd_zones zd) @ zs @ drop (idx + length zs) (zd_zones zd) \<and>
    (\<forall>t. s_nr_zones (ms_sbi ms') t =
       s_nr_zones (ms_sbi ms) t + groups_left inrun (sb_has_feature F_AGGRCNV (ms_sbi ms)) t zs)"
  using assms
proof (induction zs arbitrary: inrun idx zd ms)
  case Nil
  then show ?case by (simp add: groups_left_def)
next
  case (Cons zone zs)
  let ?aggr = "sb_has_feature F_AGGRCNV (ms_sbi ms)"
  let ?zd = "\<lparr>zd_cnv_zone_start = (if of_type ZTYPE_CNV zone \<and> ?aggr
                then bz_start zone + bz_len zone else zd_cnv_zone_start zd), zd_zones = (zd_zones zd)[idx := zone]\<rparr>"
  have k: "known_type zone" and i: "idx < length (zd_zones zd)" using Cons.prems(3,5) by simp_all
  obtain ms1 where m: "zonefs_get_zone_info_cb zone idx zd ms = Some (0, ?zd, ms1)"
    "without_counts ms1 = without_counts ms"
    "s_nr_zones (ms_sbi ms1) = (if counts_as_new zone zd (ms_sbi ms)
      then (s_nr_zones (ms_sbi ms))(zonefs_zone_type zone := s_nr_zones (ms_sbi ms) (zonefs_zone_type zone) + 1)
      else s_nr_zones (ms_sbi ms))"
    by (rule zone_info_cb_known [OF Cons.prems(4) k i])
  have f: "s_features (ms_sbi ms1) = s_features (ms_sbi ms)" by (rule without_counts_simps(1) [OF m(2)])
  have c: "count_state (zonefs_zone_type zone = ZTYPE_CNV) ?zd (ms_sbi ms1) zs"
    by (rule count_state_step [OF Cons.prems(1,2) f m(3)]) simp
  have l: "0 < idx + 1" "idx + 1 + length zs \<le> length (zd_zones ?zd)" "adjacent zs"
    "\<forall>zone \<in> set zs. known_type zone"
    using Cons.prems(2,3,5) by (simp_all add: adjacent_Cons)
  from Cons.IH [OF c l(3,4,1,2)] obtain zd' ms' where r:
    "report_zones zs (idx + 1) ?zd ms1 = Some (int (idx + 1 + length zs), zd', ms')"
    "without_counts ms' = without_counts ms1"
    "zd_zones zd' = take (idx + 1) (zd_zones ?zd) @ zs @ drop (idx + 1 + length zs) (zd_zones ?zd)"
    "\<And>t. s_nr_zones (ms_sbi ms') t = s_nr_zones (ms_sbi ms1) t +
       groups_left (zonefs_zone_type zone = ZTYPE_CNV) (sb_has_feature F_AGGRCNV (ms_sbi ms1)) t zs"
    by blast
  have g: "sb_has_feature F_AGGRCNV (ms_sbi ms1) = ?aggr" using f by (simp add: sb_has_feature_def)
  have "s_nr_zones (ms_sbi ms1) t = s_nr_zones (ms_sbi ms) t +
      (if of_type t zone \<and> \<not> (inrun \<and> ?aggr \<and> t = ZTYPE_CNV) then 1 else 0)" for t
    unfolding m(3) counts_as_new_iff [OF Cons.prems(1)] by auto
  then have n: "s_nr_zones (ms_sbi ms') t = s_nr_zones (ms_sbi ms) t + groups_left inrun ?aggr t (zone # zs)" for t
    unfolding groups_left_Cons r(4) g by simp
  have z: "zd_zones zd' = take idx (zd_zones zd) @ (zone # zs) @ drop (idx + length (zone # zs)) (zd_zones zd)"
    using r(3) i by (simp add: take_Suc_conv_app_nth)
  have "report_zones (zone # zs) idx zd ms = Some (int (idx + length (zone # zs)), zd', ms')"
    using m(1) r(1) by simp
  then show ?case using r(2) m(2) z n by auto
qed


text \<open>A report of the whole device that \<open>zonefs_get_zone_info\<close> takes over as it is.\<close>

definition good_report :: "'d mount_dev \<Rightarrow> 'd \<Rightarrow> blk_zone list \<Rightarrow> bool" where
  "good_report D d zs \<longleftrightarrow> md_report D d = (zs, None) \<and> length zs = md_nr_zones D \<and>
     adjacent (drop 1 zs) \<and> list_all known_type (drop 1 zs)"

lemma get_zone_info_ok:
  assumes "good_report D (fs_dev (ms_fs ms)) zs" "md_alloc D Alloc_zones" "\<And>t. s_nr_zones (ms_sbi ms) t = 0"
  obtains zd ms' where "zonefs_get_zone_info D ms = Some (0, zd, ms')" "drop 1 (zd_zones zd) = drop 1 zs"
    "without_counts ms' = without_counts ms"
    "\<And>t. s_nr_zones (ms_sbi ms') t =
       length (zone_groups (sb_has_feature F_AGGRCNV (ms_sbi ms)) t (drop 1 zs))"
proof (cases zs)
  case Nil
  then show ?thesis using assms that [of "\<lparr>zd_cnv_zone_start = 0, zd_zones = []\<rparr>" "ms\<lparr>ms_hodo_nr_zones := 0\<rparr>"]
    by (simp add: zonefs_get_zone_info_def good_report_def without_counts_def map_sbi_def map_fs_def)
next
  case (Cons z0 rest)
  let ?zd = "\<lparr>zd_cnv_zone_start = 0, zd_zones = replicate (md_nr_zones D) zero_blk_zone\<rparr>"
  note R = assms(1) [unfolded good_report_def Cons]
  have c: "count_state False ?zd (ms_sbi ms) rest" using assms(3) by (simp add: count_state_def)
  have p: "adjacent rest" "\<forall>zone \<in> set rest. known_type zone" "0 < (1 :: nat)"
    "1 + length rest \<le> length (zd_zones ?zd)"
    using R by (auto simp: list_all_iff)
  from report_zones_counts [OF c p] obtain zd' ms' where r:
    "report_zones rest 1 ?zd ms = Some (int (1 + length rest), zd', ms')"
    "without_counts ms' = without_counts ms" "zd_zones zd' = take 1 (zd_zones ?zd) @ rest @ drop (1 + length rest) (zd_zones ?zd)"
    "\<And>t. s_nr_zones (ms_sbi ms') t =
       s_nr_zones (ms_sbi ms) t + groups_left False (sb_has_feature F_AGGRCNV (ms_sbi ms)) t rest" by blast
  have l: "md_nr_zones D = Suc (length rest)" using R by simp
  show ?thesis
  proof (rule that)
    show "zonefs_get_zone_info D ms = Some (0, zd', ms'\<lparr>ms_hodo_nr_zones := md_nr_zones D\<rparr>)"
      using r(1) R assms(2) l by (simp add: zonefs_get_zone_info_def zonefs_get_zone_info_cb_def Let_def)
    show "drop 1 (zd_zones zd') = drop 1 zs" using r(3) l by (simp add: Cons)
    show "without_counts (ms'\<lparr>ms_hodo_nr_zones := md_nr_zones D\<rparr>) = without_counts ms"
      using r(2) by (simp add: without_counts_def map_sbi_def map_fs_def)
    show "s_nr_zones (ms_sbi (ms'\<lparr>ms_hodo_nr_zones := md_nr_zones D\<rparr>)) t =
        length (zone_groups (sb_has_feature F_AGGRCNV (ms_sbi ms)) t (drop 1 zs))" for t
      using r(4) [of t] assms(3) by (simp add: groups_left_def Cons)
  qed
qed

section \<open>Making the files\<close>

lemma fold_takeWhile_aggregate:
  "aggregate t zone zs = (foldl grow_zone zone (takeWhile (of_type t) zs), dropWhile (of_type t) zs)"
  by (induction zs arbitrary: zone) auto

lemma foldl_grow_zone:
  "bz_start (foldl grow_zone zone zs) = bz_start zone"
  "bz_len (foldl grow_zone zone zs) = bz_len zone + sum_list (map bz_len zs)"
  "bz_capacity (foldl grow_zone zone zs) = bz_capacity zone + sum_list (map bz_capacity zs)"
  "bz_type (foldl grow_zone zone zs) = bz_type zone"
  by (induction zs arbitrary: zone) (simp_all add: grow_zone_def)

text \<open>First sector, size and capacity: of a file, and of a group of zones.\<close>

definition file_extent :: "zonefs_zone \<Rightarrow> nat \<times> int \<times> int" where
  "file_extent z = (z_sector z, z_size z, z_capacity z)"

definition group_extent :: "blk_zone list \<Rightarrow> nat \<times> int \<times> int" where
  "group_extent zs =
     (bz_start (hd zs), int (sum_list (map bz_len zs)) * 512,
      min MAX_LFS_FILESIZE (int (sum_list (map bz_capacity zs)) * 512))"

lemma check_zone_condition_fields:
  "file_extent (snd (zonefs_check_zone_condition zone z)) = file_extent z"
  "zonefs_zone_is_cnv (snd (zonefs_check_zone_condition zone z)) = zonefs_zone_is_cnv z"
  "zone_has ZONE_ACTIVE (snd (zonefs_check_zone_condition zone z)) = zone_has ZONE_ACTIVE z"
  by (auto simp: zonefs_check_zone_condition_def file_extent_def zonefs_zone_is_cnv_def zone_flag_simps
      split: zone_cond.split)

lemma zonefs_zone_fields_update [simp]:
  "zone_has f (z\<lparr>z_wpoffset := w, z_mode := m, z_uid := u, z_gid := g\<rparr>) = zone_has f z"
  "zone_has f (z\<lparr>z_sector := a, z_size := b, z_capacity := c\<rparr>) = zone_has f z"
  "file_extent (z\<lparr>z_wpoffset := w, z_mode := m, z_uid := u, z_gid := g\<rparr>) = file_extent z"
  "file_extent (zone_set f z) = file_extent z"
  by (simp_all add: zone_has_def zone_set_def file_extent_def)

lemma zone_set_more_bits:
  "bit (z_flags (zone_set ZONE_INIT_MODE z)) k \<longleftrightarrow> bit (z_flags z) k \<or> k = 0"
  "bit (z_flags (zone_set ZONE_CNV z)) k \<longleftrightarrow> bit (z_flags z) k \<or> k = 31"
  unfolding zone_flag_defs by (rule zone_set_bit, simp)+

lemma zone_of_report_fields:
  "file_extent (zone_of_report t zone s) =
     (bz_start zone, int (bz_len zone) * 512, min MAX_LFS_FILESIZE (int (bz_capacity zone) * 512))"
  "zonefs_zone_is_cnv (zone_of_report t zone s) \<longleftrightarrow> t = ZTYPE_CNV"
  "\<not> zone_has ZONE_ACTIVE (zone_of_report t zone s)"
proof -
  let ?z0 = "if t = ZTYPE_CNV then zone_set ZONE_CNV zero_zone else zero_zone"
  let ?z1 = "?z0\<lparr>z_sector := bz_start zone, z_size := int (bz_len zone) * 2 ^ SECTOR_SHIFT,
                  z_capacity := min MAX_LFS_FILESIZE (int (bz_capacity zone) * 2 ^ SECTOR_SHIFT)\<rparr>"
  have e: "zone_of_report t zone s =
      zone_set ZONE_INIT_MODE ((snd (zonefs_check_zone_condition zone ?z1))
        \<lparr>z_wpoffset := fst (zonefs_check_zone_condition zone ?z1), z_mode := S_IFREG16 OR s_perm s,
         z_uid := s_uid s, z_gid := s_gid s\<rparr>)"
    unfolding zone_of_report_def Let_def by (simp add: case_prod_beta)
  have z: "z_flags zero_zone = 0" by (simp add: zero_zone_def)
  show "file_extent (zone_of_report t zone s) =
     (bz_start zone, int (bz_len zone) * 512, min MAX_LFS_FILESIZE (int (bz_capacity zone) * 512))"
    unfolding e by (simp add: check_zone_condition_fields) (simp add: file_extent_def SECTOR_SHIFT_def)
  show "zonefs_zone_is_cnv (zone_of_report t zone s) \<longleftrightarrow> t = ZTYPE_CNV"
    unfolding e zonefs_zone_is_cnv_def using check_zone_condition_fields(2) [of zone ?z1]
    by (simp add: zone_flag_simps zone_set_more_bits zonefs_zone_is_cnv_def z)
  show "\<not> zone_has ZONE_ACTIVE (zone_of_report t zone s)"
    unfolding e using check_zone_condition_fields(3) [of zone ?z1] by (simp add: zone_flag_simps zone_set_more_bits z)
qed


text \<open>What making a file adds to the counters of the mount.\<close>

definition file_counted :: "zonefs_ztype \<Rightarrow> zonefs_zone \<Rightarrow> 'd mount_state \<Rightarrow> 'd mount_state \<Rightarrow> bool" where
  "file_counted t z ms ms' \<longleftrightarrow>
     (zonefs_zone_is_cnv z \<longleftrightarrow> t = ZTYPE_CNV) \<and> (zone_has ZONE_ACTIVE z \<longleftrightarrow> t = ZTYPE_SEQ \<and> zone_is_active z) \<and>
     s_blocks (ms_sbi ms') = s_blocks (ms_sbi ms) + drop_bit (fs_blkbits (ms_fs ms)) (z_capacity z) \<and>
     s_used_blocks (ms_sbi ms') = s_used_blocks (ms_sbi ms) + drop_bit (fs_blkbits (ms_fs ms)) (z_wpoffset z) \<and>
     s_active_seq_files (ms_sbi ms') = s_active_seq_files (ms_sbi ms) + of_bool (zone_has ZONE_ACTIVE z) \<and>
     ms_maxbytes ms' = max (z_capacity z) (ms_maxbytes ms)"

definition same_shape :: "'d mount_state \<Rightarrow> 'd mount_state \<Rightarrow> bool" where
  "same_shape ms ms' \<longleftrightarrow> s_nr_zones (ms_sbi ms') = s_nr_zones (ms_sbi ms) \<and>
     s_features (ms_sbi ms') = s_features (ms_sbi ms) \<and> fs_blkbits (ms_fs ms') = fs_blkbits (ms_fs ms) \<and>
     s_mount_opts (ms_sbi ms') = s_mount_opts (ms_sbi ms) \<and> ms_zgroup_inode ms' = ms_zgroup_inode ms"

lemma count_blocks_simps [simp]:
  "fs_zones (ms_fs (count_blocks z ms)) = fs_zones (ms_fs ms)" "same_shape ms (count_blocks z ms)"
  "s_active_seq_files (ms_sbi (count_blocks z ms)) = s_active_seq_files (ms_sbi ms)"
  "s_blocks (ms_sbi (count_blocks z ms)) = s_blocks (ms_sbi ms) + drop_bit (fs_blkbits (ms_fs ms)) (z_capacity z)"
  "s_used_blocks (ms_sbi (count_blocks z ms)) =
     s_used_blocks (ms_sbi ms) + drop_bit (fs_blkbits (ms_fs ms)) (z_wpoffset z)"
  "ms_maxbytes (count_blocks z ms) = max (z_capacity z) (ms_maxbytes ms)"
  by (simp_all add: count_blocks_def same_shape_def map_sbi_def map_fs_def)

lemma keep_view_simps [simp]:
  "ms_sbi (keep_view c ms) = c_sbi c" "fs_zones (ms_fs (keep_view c ms)) = fs_zones (ms_fs ms)"
  "fs_blkbits (ms_fs (keep_view c ms)) = fs_blkbits (ms_fs ms)" "ms_maxbytes (keep_view c ms) = ms_maxbytes ms"
  "ms_zgroup_inode (keep_view c ms) = ms_zgroup_inode ms"
  by (simp_all add: keep_view_def map_fs_def)

lemma zone_view_simps [simp]: "c_zone (zone_view z ms) = z" "c_sbi (zone_view z ms) = ms_sbi ms"
  by (simp_all add: zone_view_def fs_view_def)

lemma zone_mgmt_keeps:
  "c_zone (snd (zonefs_zone_mgmt B op c)) = c_zone c" "c_sbi (snd (zonefs_zone_mgmt B op c)) = c_sbi c"
  by (simp_all add: zonefs_zone_mgmt_def Let_def case_prod_beta)

lemma account_fresh_zone:
  assumes "\<not> zone_has ZONE_ACTIVE (c_zone c)"
  shows "file_extent (c_zone (zonefs_account_active c)) = file_extent (c_zone c)"
    "z_wpoffset (c_zone (zonefs_account_active c)) = z_wpoffset (c_zone c)"
    "zonefs_zone_is_cnv (c_zone (zonefs_account_active c)) = zonefs_zone_is_cnv (c_zone c)"
    "zone_has ZONE_ACTIVE (c_zone (zonefs_account_active c)) \<longleftrightarrow>
       \<not> zonefs_zone_is_cnv (c_zone c) \<and> zone_is_active (c_zone (zonefs_account_active c))"
    "c_sbi (zonefs_account_active c) = (c_sbi c)\<lparr>s_active_seq_files := s_active_seq_files (c_sbi c) +
       of_bool (zone_has ZONE_ACTIVE (c_zone (zonefs_account_active c)))\<rparr>"
proof -
  have a: "zonefs_account_active c =
      (if zonefs_zone_is_cnv (c_zone c) \<or> \<not> zone_is_active (c_zone c) then c
       else account_more 1 (c\<lparr>c_zone := zone_set ZONE_ACTIVE (c_zone c)\<rparr>))"
    using assms by (simp add: account_active_eq)
  have f: "zone_has ZONE_ACTIVE (zone_set ZONE_ACTIVE z)" for z by (simp add: zone_flag_simps)
  show "file_extent (c_zone (zonefs_account_active c)) = file_extent (c_zone c)"
    "z_wpoffset (c_zone (zonefs_account_active c)) = z_wpoffset (c_zone c)"
    "zonefs_zone_is_cnv (c_zone (zonefs_account_active c)) = zonefs_zone_is_cnv (c_zone c)"
    "zone_has ZONE_ACTIVE (c_zone (zonefs_account_active c)) \<longleftrightarrow>
       \<not> zonefs_zone_is_cnv (c_zone c) \<and> zone_is_active (c_zone (zonefs_account_active c))"
    "c_sbi (zonefs_account_active c) = (c_sbi c)\<lparr>s_active_seq_files := s_active_seq_files (c_sbi c) +
       of_bool (zone_has ZONE_ACTIVE (c_zone (zonefs_account_active c)))\<rparr>"
    unfolding a using assms by (simp_all add: f account_more_def)
qed

lemma init_zone_made:
  assumes "init_zone D t zone ms = (0, z, ms')"
  shows "file_extent z = (bz_start zone, int (bz_len zone) * 512, min MAX_LFS_FILESIZE (int (bz_capacity zone) * 512))"
    "z_wpoffset z = z_wpoffset (zone_of_report t zone (ms_sbi ms))"
    "file_counted t z ms ms'" "fs_zones (ms_fs ms') = fs_zones (ms_fs ms)" "same_shape ms ms'"
proof -
  let ?z = "zone_of_report t zone (ms_sbi ms)" and ?ms1 = "count_blocks (zone_of_report t zone (ms_sbi ms)) ms"
  define p where "p = (if t = ZTYPE_SEQ \<and> (bz_cond zone = COND_IMP_OPEN \<or> bz_cond zone = COND_EXP_OPEN)
    then zonefs_zone_mgmt (md_blk D) ZONE_CLOSE (zone_view ?z ?ms1) else (0, zone_view ?z ?ms1))"
  define c where "c = snd p"
  have c12: "c_zone c = ?z" "c_sbi c = ms_sbi ?ms1"
    unfolding c_def p_def by (simp_all add: zone_mgmt_keeps)
  have "init_zone D t zone ms = (if int (md_zone_sectors D) * 2 ^ SECTOR_SHIFT < z_size ?z \<and> \<not> sb_has_feature F_AGGRCNV (ms_sbi ms)
      then (- EINVAL, ?z, ms)
      else if fst p \<noteq> 0 then (fst p, ?z, keep_view c ?ms1)
      else (0, c_zone (zonefs_account_active c), keep_view (zonefs_account_active c) ?ms1))"
    unfolding init_zone_def Let_def case_prod_beta c_def p_def by (rule refl)
  then have c34: "z = c_zone (zonefs_account_active c)" "ms' = keep_view (zonefs_account_active c) ?ms1"
    using assms by (simp_all add: EINVAL_def split: if_splits)
  note c = c12 c34
  have n: "\<not> zone_has ZONE_ACTIVE (c_zone c)" by (simp add: c(1) zone_of_report_fields)
  note A = account_fresh_zone [OF n, folded c(3)]
  show "file_extent z = (bz_start zone, int (bz_len zone) * 512, min MAX_LFS_FILESIZE (int (bz_capacity zone) * 512))"
    by (simp add: A(1) c(1) zone_of_report_fields)
  then have cap: "z_capacity z = z_capacity ?z"
    using zone_of_report_fields(1) [of t zone "ms_sbi ms"] by (simp add: file_extent_def)
  show w: "z_wpoffset z = z_wpoffset ?z" by (simp add: A(2) c(1))
  have t: "t = ZTYPE_SEQ \<longleftrightarrow> t \<noteq> ZTYPE_CNV" by (cases t) auto
  show "file_counted t z ms ms'"
    unfolding file_counted_def using A(3-5) by (simp add: c(1,2,4) A(5) cap w zone_of_report_fields t)
  show "fs_zones (ms_fs ms') = fs_zones (ms_fs ms)" by (simp add: c(4))
  show "same_shape ms ms'" using count_blocks_simps(2) [of ms ?z] by (simp add: c(4) same_shape_def A(5) c(2))
qed

lemma init_zone_succeeds:
  assumes "\<And>op s n d. fst (bd_zone_mgmt (md_blk D) op s n d) = 0"
    and "sb_has_feature F_AGGRCNV (ms_sbi ms) \<or> bz_len zone \<le> md_zone_sectors D"
  obtains z ms' where "init_zone D t zone ms = (0, z, ms')"
proof -
  have z: "z_size (zone_of_report t zone (ms_sbi ms)) = int (bz_len zone) * 512"
    using zone_of_report_fields(1) [of t zone "ms_sbi ms"] by (simp add: file_extent_def)
  have "fst (zonefs_zone_mgmt (md_blk D) op c) = 0" for op c
    by (simp add: zonefs_zone_mgmt_def Let_def case_prod_beta assms(1))
  then have "fst (init_zone D t zone ms) = 0"
    using assms(2) by (auto simp: init_zone_def Let_def case_prod_beta z SECTOR_SHIFT_def)
  then show ?thesis using that by (cases "init_zone D t zone ms") auto
qed


lemma put_zone_simps [simp]:
  "ms_sbi (put_zone t n z ms) = ms_sbi ms" "fs_blkbits (ms_fs (put_zone t n z ms)) = fs_blkbits (ms_fs ms)"
  "fs_zones (ms_fs (put_zone t n z ms)) = (fs_zones (ms_fs ms))(t := (fs_zones (ms_fs ms) t)[n := z])"
  "ms_maxbytes (put_zone t n z ms) = ms_maxbytes ms" "ms_zgroup_inode (put_zone t n z ms) = ms_zgroup_inode ms"
  by (simp_all add: put_zone_def map_fs_def)

lemma same_shape_put_zone: "same_shape ms (put_zone t n z ms') = same_shape ms ms'"
  by (simp add: same_shape_def)

lemma same_shape_trans: "same_shape a b \<Longrightarrow> same_shape b c \<Longrightarrow> same_shape a c"
  by (simp add: same_shape_def)

lemma take_put: "n < length xs \<Longrightarrow> take (Suc n) (xs[n := z]) = take n xs @ [z]"
  by (simp add: take_Suc_conv_app_nth)

text \<open>The zone one file is made of, and the group behind it.\<close>

definition next_group :: "bool \<Rightarrow> zonefs_ztype \<Rightarrow> blk_zone \<Rightarrow> blk_zone list \<Rightarrow> blk_zone \<times> blk_zone list" where
  "next_group aggr t zone rest = (if t = ZTYPE_CNV \<and> aggr then aggregate t zone rest else (zone, rest))"

lemma next_group_fields:
  assumes "of_type t zone"
  shows "zone_groups aggr t (zone # rest) =
      (if aggr \<and> t = ZTYPE_CNV then zone # takeWhile (of_type t) rest else [zone]) #
      zone_groups aggr t (snd (next_group aggr t zone rest))"
    "group_extent (if aggr \<and> t = ZTYPE_CNV then zone # takeWhile (of_type t) rest else [zone]) =
      (bz_start (fst (next_group aggr t zone rest)), int (bz_len (fst (next_group aggr t zone rest))) * 512,
       min MAX_LFS_FILESIZE (int (bz_capacity (fst (next_group aggr t zone rest))) * 512))"
    "aggr \<or> fst (next_group aggr t zone rest) = zone"
    "set (snd (next_group aggr t zone rest)) \<subseteq> set rest"
  using assms set_dropWhileD [of _ "of_type t" rest]
  by (auto simp: next_group_def zone_groups_Cons fold_takeWhile_aggregate group_extent_def foldl_grow_zone)

lemma init_zones_step:
  assumes "of_type t zone" "n < s_nr_zones (ms_sbi ms) t"
    and "init_zone D t (fst (next_group (sb_has_feature F_AGGRCNV (ms_sbi ms)) t zone rest)) ms = (0, z, ms1)"
  shows "init_zones D t n (zone # rest) ms =
    init_zones D t (n + 1) (snd (next_group (sb_has_feature F_AGGRCNV (ms_sbi ms)) t zone rest)) (put_zone t n z ms1)"
  using assms by (simp add: init_zones.simps(2) [of D t n zone] next_group_def Let_def)

lemma init_zones_files:
  assumes "\<And>op s n d. fst (bd_zone_mgmt (md_blk D) op s n d) = 0"
    and "aggr = sb_has_feature F_AGGRCNV (ms_sbi ms)" "aggr \<or> (\<forall>zone \<in> set zs. bz_len zone \<le> md_zone_sectors D)"
    and "length (fs_zones (ms_fs ms) t) = s_nr_zones (ms_sbi ms) t"
    and "n + length (zone_groups aggr t zs) \<le> s_nr_zones (ms_sbi ms) t"
  shows "\<exists>ms'. init_zones D t n zs ms = (0, n + length (zone_groups aggr t zs), ms') \<and>
    map file_extent (take (n + length (zone_groups aggr t zs)) (fs_zones (ms_fs ms') t)) =
      map file_extent (take n (fs_zones (ms_fs ms) t)) @ map group_extent (zone_groups aggr t zs) \<and>
    length (fs_zones (ms_fs ms') t) = length (fs_zones (ms_fs ms) t) \<and>
    (\<forall>t'. t' \<noteq> t \<longrightarrow> fs_zones (ms_fs ms') t' = fs_zones (ms_fs ms) t') \<and> same_shape ms ms'"
  using assms(2-)
proof (induction "length zs" arbitrary: zs n ms rule: less_induct)
  case less
  show ?case
  proof (cases zs)
    case Nil
    then show ?thesis by (simp add: init_zones.simps same_shape_def)
  next
    case (Cons zone rest)
    show ?thesis
    proof (cases "of_type t zone")
      case False
      have "aggr \<or> (\<forall>zone \<in> set rest. bz_len zone \<le> md_zone_sectors D)"
        "n + length (zone_groups aggr t rest) \<le> s_nr_zones (ms_sbi ms) t" "length rest < length zs"
        using less.prems(2,4) False by (auto simp: Cons zone_groups_Cons)
      from less.hyps [OF this(3) less.prems(1) this(1) less.prems(3) this(2)] False show ?thesis
        by (simp add: Cons init_zones.simps(2) [of D t n zone] zone_groups_Cons)
    next
      case True
      let ?g = "next_group aggr t zone rest"
      note G = next_group_fields [OF True, of aggr rest]
      let ?hd = "if aggr \<and> t = ZTYPE_CNV then zone # takeWhile (of_type t) rest else [zone]"
      have len: "sb_has_feature F_AGGRCNV (ms_sbi ms) \<or> bz_len (fst ?g) \<le> md_zone_sectors D"
        using G(3) less.prems(1,2) by (auto simp: Cons)
      obtain z ms1 where z: "init_zone D t (fst ?g) ms = (0, z, ms1)"
        by (rule init_zone_succeeds [OF assms(1) len])
      note M = init_zone_made [OF z]
      let ?ms2 = "put_zone t n z ms1"
      have n: "n < s_nr_zones (ms_sbi ms) t" using less.prems(4) by (simp add: Cons G(1))
      have gl: "length (zone_groups aggr t zs) = Suc (length (zone_groups aggr t (snd ?g)))"
        unfolding Cons G(1) by simp
      have p1: "aggr = sb_has_feature F_AGGRCNV (ms_sbi ?ms2)"
        using less.prems(1) M(5) by (simp add: same_shape_def sb_has_feature_def)
      have p2: "aggr \<or> (\<forall>zone \<in> set (snd ?g). bz_len zone \<le> md_zone_sectors D)"
        using less.prems(2) G(4) by (auto simp: Cons)
      have p3: "length (fs_zones (ms_fs ?ms2) t) = s_nr_zones (ms_sbi ?ms2) t"
        using less.prems(3) M(4,5) by (simp add: same_shape_def)
      have p4: "n + 1 + length (zone_groups aggr t (snd ?g)) \<le> s_nr_zones (ms_sbi ?ms2) t"
        using less.prems(4) gl M(5) by (simp add: same_shape_def)
      have p5: "length (snd ?g) < length zs"
        using length_aggregate [of t zone rest] by (auto simp: Cons next_group_def)
      note p = p1 p2 p3 p4 p5
      from less.hyps [OF p(5) p(1-4)] obtain ms' where r:
        "init_zones D t (n + 1) (snd ?g) ?ms2 = (0, n + 1 + length (zone_groups aggr t (snd ?g)), ms')"
        "map file_extent (take (n + 1 + length (zone_groups aggr t (snd ?g))) (fs_zones (ms_fs ms') t)) =
           map file_extent (take (n + 1) (fs_zones (ms_fs ?ms2) t)) @ map group_extent (zone_groups aggr t (snd ?g))"
        "length (fs_zones (ms_fs ms') t) = length (fs_zones (ms_fs ?ms2) t)"
        "\<And>t'. t' \<noteq> t \<Longrightarrow> fs_zones (ms_fs ms') t' = fs_zones (ms_fs ?ms2) t'" "same_shape ?ms2 ms'" by blast
      have e: "init_zones D t n zs ms = (0, n + length (zone_groups aggr t zs), ms')"
        unfolding Cons init_zones_step [OF True n z [unfolded less.prems(1)]] less.prems(1) [symmetric] r(1)
        by (simp add: G(1))
      have "take (n + 1) (fs_zones (ms_fs ?ms2) t) = take n (fs_zones (ms_fs ms) t) @ [z]"
        using n less.prems(3) M(4) take_put [of n "fs_zones (ms_fs ms) t" z] by simp
      then have "map file_extent (take (n + length (zone_groups aggr t zs)) (fs_zones (ms_fs ms') t)) =
          map file_extent (take n (fs_zones (ms_fs ms) t)) @ map group_extent (zone_groups aggr t zs)"
        using r(2) M(1) G(2) by (simp add: Cons G(1))
      moreover have "same_shape ms ms'"
        using M(5) r(5) by (simp add: same_shape_def)
      ultimately show ?thesis using e r(3,4) M(4) by auto
    qed
  qed
qed


section \<open>The counters of the mount\<close>

text \<open>A reported zone whose write pointer lies in its capacity; only sequential zones in a
  writable condition have a valid write pointer.\<close>

definition wp_in_zone :: "blk_zone \<Rightarrow> bool" where
  "wp_in_zone zone \<longleftrightarrow> bz_start zone \<le> bz_wp zone \<and> bz_wp zone \<le> bz_start zone + bz_capacity zone \<and>
     int (bz_capacity zone) * 512 \<le> MAX_LFS_FILESIZE"

definition wp_in_file :: "zonefs_zone \<Rightarrow> bool" where
  "wp_in_file z \<longleftrightarrow> 0 \<le> z_wpoffset z \<and> z_wpoffset z \<le> z_capacity z"

lemma zone_of_report_wp:
  assumes "t = ZTYPE_SEQ \<longrightarrow> wp_in_zone zone"
  shows "wp_in_file (zone_of_report t zone s)"
proof -
  let ?z0 = "if t = ZTYPE_CNV then zone_set ZONE_CNV zero_zone else zero_zone"
  let ?z1 = "?z0\<lparr>z_sector := bz_start zone, z_size := int (bz_len zone) * 2 ^ SECTOR_SHIFT,
                  z_capacity := min MAX_LFS_FILESIZE (int (bz_capacity zone) * 2 ^ SECTOR_SHIFT)\<rparr>"
  have w: "z_wpoffset (zone_of_report t zone s) = fst (zonefs_check_zone_condition zone ?z1)"
    unfolding zone_of_report_def Let_def by (simp add: case_prod_beta)
  have c: "z_capacity (zone_of_report t zone s) = z_capacity ?z1"
    using zone_of_report_fields(1) [of t zone s] by (simp add: file_extent_def SECTOR_SHIFT_def)
  have p: "0 \<le> z_capacity ?z1" by (simp add: MAX_LFS_FILESIZE_def)
  have f: "zonefs_zone_is_cnv ?z1 \<longleftrightarrow> t = ZTYPE_CNV"
    by (simp add: zonefs_zone_is_cnv_def zone_flag_simps zone_set_more_bits zero_zone_def)
  have z: "z_wpoffset ?z1 = 0" by (simp add: zero_zone_def)
  show ?thesis
  proof (cases t)
    case ZTYPE_CNV
    then show ?thesis unfolding wp_in_file_def w c using p f
      by (simp add: zonefs_check_zone_condition_def split: zone_cond.split)
  next
    case ZTYPE_SEQ
    then have q: "int (bz_start zone) \<le> int (bz_wp zone)" "int (bz_wp zone) \<le> int (bz_start zone) + int (bz_capacity zone)"
      "int (bz_capacity zone) * 512 \<le> MAX_LFS_FILESIZE" using assms by (simp_all add: wp_in_zone_def)
    have k: "z_capacity ?z1 = int (bz_capacity zone) * 512" using q(3) by (simp add: SECTOR_SHIFT_def)
    show ?thesis unfolding wp_in_file_def w c using p f q(1,2) k z ZTYPE_SEQ
      by (simp add: zonefs_check_zone_condition_def SECTOR_SHIFT_def split: zone_cond.split)
  qed
qed

text \<open>The counters after the files of a group have been added to those of \<open>ms0\<close>.\<close>

definition counted ::
  "bool \<Rightarrow> 'd mount_state \<Rightarrow> zonefs_ztype \<Rightarrow> zonefs_zone list \<Rightarrow> 'd mount_state \<Rightarrow> bool"
where
  "counted sound ms0 t files ms \<longleftrightarrow>
     s_blocks (ms_sbi ms) =
       s_blocks (ms_sbi ms0) + sum_list (map (\<lambda>z. drop_bit (fs_blkbits (ms_fs ms0)) (z_capacity z)) files) \<and>
     s_used_blocks (ms_sbi ms) =
       s_used_blocks (ms_sbi ms0) + sum_list (map (\<lambda>z. drop_bit (fs_blkbits (ms_fs ms0)) (z_wpoffset z)) files) \<and>
     s_active_seq_files (ms_sbi ms) =
       s_active_seq_files (ms_sbi ms0) + int (length (filter (zone_has ZONE_ACTIVE) files)) \<and>
     (\<forall>z \<in> set files. (zonefs_zone_is_cnv z \<longleftrightarrow> t = ZTYPE_CNV) \<and>
        (zone_has ZONE_ACTIVE z \<longleftrightarrow> t = ZTYPE_SEQ \<and> zone_is_active z) \<and> (sound \<longrightarrow> wp_in_file z)) \<and>
     same_shape ms0 ms"

lemma counted_Nil: "same_shape ms0 ms \<Longrightarrow> s_blocks (ms_sbi ms) = s_blocks (ms_sbi ms0) \<Longrightarrow>
    s_used_blocks (ms_sbi ms) = s_used_blocks (ms_sbi ms0) \<Longrightarrow>
    s_active_seq_files (ms_sbi ms) = s_active_seq_files (ms_sbi ms0) \<Longrightarrow> counted sound ms0 t [] ms"
  by (simp add: counted_def)

lemma counted_snoc:
  assumes "counted sound ms0 t files ms" "file_counted t z ms ms'" "same_shape ms ms'" "sound \<longrightarrow> wp_in_file z"
  shows "counted sound ms0 t (files @ [z]) (put_zone t n z ms')"
proof -
  have b: "fs_blkbits (ms_fs ms) = fs_blkbits (ms_fs ms0)" using assms(1) by (simp add: counted_def same_shape_def)
  have "same_shape ms0 (put_zone t n z ms')"
    using assms(1,3) same_shape_trans by (auto simp: counted_def same_shape_put_zone)
  then show ?thesis using assms(1,2,4) by (auto simp: counted_def file_counted_def b)
qed

lemma init_zones_counted:
  assumes "init_zones D t n zs ms = (0, n', ms')" "counted sound ms0 t (take n (fs_zones (ms_fs ms) t)) ms"
    and "length (fs_zones (ms_fs ms) t) = s_nr_zones (ms_sbi ms) t"
    and "sound \<longrightarrow> t = ZTYPE_SEQ \<longrightarrow> (\<forall>zone \<in> set zs. of_type t zone \<longrightarrow> wp_in_zone zone)"
  shows "counted sound ms0 t (take n' (fs_zones (ms_fs ms') t)) ms' \<and>
    length (fs_zones (ms_fs ms') t) = length (fs_zones (ms_fs ms) t) \<and>
    (\<forall>t'. t' \<noteq> t \<longrightarrow> fs_zones (ms_fs ms') t' = fs_zones (ms_fs ms) t')"
  using assms
proof (induction "length zs" arbitrary: zs n ms rule: less_induct)
  case less
  show ?case
  proof (cases zs)
    case Nil
    then show ?thesis using less.prems(1,2) by (simp add: init_zones.simps)
  next
    case (Cons zone rest)
    show ?thesis
    proof (cases "of_type t zone")
      case False
      have e: "init_zones D t n rest ms = (0, n', ms')"
        using less.prems(1) False by (simp add: Cons init_zones.simps(2) [of D t n zone])
      have q: "length rest < length zs" "sound \<longrightarrow> t = ZTYPE_SEQ \<longrightarrow> (\<forall>zone \<in> set rest. of_type t zone \<longrightarrow> wp_in_zone zone)"
        using less.prems(4) by (auto simp: Cons)
      show ?thesis by (rule less.hyps [OF q(1) e less.prems(2,3) q(2)])
    next
      case True
      let ?g = "next_group (sb_has_feature F_AGGRCNV (ms_sbi ms)) t zone rest"
      note G = next_group_fields [OF True, of "sb_has_feature F_AGGRCNV (ms_sbi ms)" rest]
      obtain ret z ms1 where z: "init_zone D t (fst ?g) ms = (ret, z, ms1)"
        by (cases "init_zone D t (fst ?g) ms") auto
      have n: "n < s_nr_zones (ms_sbi ms) t" and r0: "ret = 0"
        using less.prems(1) True z
        by (auto simp: Cons init_zones.simps(2) [of D t n zone] next_group_def Let_def EINVAL_def split: if_splits)
      note M = init_zone_made [OF z [unfolded r0]]
      let ?ms2 = "put_zone t n z ms1"
      have e: "init_zones D t (n + 1) (snd ?g) ?ms2 = (0, n', ms')"
        using less.prems(1) unfolding Cons init_zones_step [OF True n z [unfolded r0]] .
      have "sound \<longrightarrow> t = ZTYPE_SEQ \<longrightarrow> wp_in_zone (fst ?g)"
        using less.prems(4) True by (auto simp: Cons next_group_def)
      then have w: "sound \<longrightarrow> wp_in_file z"
        using zone_of_report_wp [of t "fst ?g" "ms_sbi ms"] M(1,2) zone_of_report_fields(1) [of t "fst ?g" "ms_sbi ms"]
        by (auto simp: wp_in_file_def file_extent_def)
      have p1: "counted sound ms0 t (take (n + 1) (fs_zones (ms_fs ?ms2) t)) ?ms2"
        using counted_snoc [OF less.prems(2) M(3,5) w, of n] take_put [of n "fs_zones (ms_fs ms) t" z] n less.prems(3) M(4)
        by simp
      have p2: "length (fs_zones (ms_fs ?ms2) t) = s_nr_zones (ms_sbi ?ms2) t"
        using less.prems(3) M(4,5) by (simp add: same_shape_def)
      have p3: "sound \<longrightarrow> t = ZTYPE_SEQ \<longrightarrow> (\<forall>zone \<in> set (snd ?g). of_type t zone \<longrightarrow> wp_in_zone zone)"
        using less.prems(4) G(4) by (auto simp: Cons)
      have p4: "length (snd ?g) < length zs"
        using length_aggregate [of t zone rest] by (auto simp: Cons next_group_def)
      show ?thesis using less.hyps [OF p4 e p1 p2 p3] M(4) by simp
    qed
  qed
qed


section \<open>The zone groups of a mount\<close>

text \<open>The super block before the zones are read.\<close>

definition unmounted :: "'d mount_state \<Rightarrow> bool" where
  "unmounted ms \<longleftrightarrow> (\<forall>t. s_nr_zones (ms_sbi ms) t = 0 \<and> fs_zones (ms_fs ms) t = []) \<and>
     s_blocks (ms_sbi ms) = 0 \<and> s_used_blocks (ms_sbi ms) = 0 \<and> s_active_seq_files (ms_sbi ms) = 0"

lemma map_fs_zones_simps [simp]:
  "ms_sbi (map_fs (\<lambda>fs. fs\<lparr>fs_zones := f fs\<rparr>) ms) = ms_sbi ms"
  "fs_zones (ms_fs (map_fs (\<lambda>fs. fs\<lparr>fs_zones := f fs\<rparr>) ms)) = f (ms_fs ms)"
  "fs_blkbits (ms_fs (map_fs (\<lambda>fs. fs\<lparr>fs_zones := f fs\<rparr>) ms)) = fs_blkbits (ms_fs ms)"
  "ms_zgroup_inode (map_fs g ms) = ms_zgroup_inode ms"
  "same_shape ms (map_fs (\<lambda>fs. fs\<lparr>fs_zones := f fs\<rparr>) ms)"
  by (simp_all add: map_fs_def same_shape_def)

lemma init_zgroup_files:
  assumes "\<And>op s n d. fst (bd_zone_mgmt (md_blk D) op s n d) = 0" "md_alloc D (Alloc_zgroup t)"
    and "aggr = sb_has_feature F_AGGRCNV (ms_sbi ms)" "zs = drop 1 (zd_zones zd)"
    and "aggr \<or> (\<forall>zone \<in> set zs. bz_len zone \<le> md_zone_sectors D)"
    and "s_nr_zones (ms_sbi ms) t = length (zone_groups aggr t zs)" "fs_zones (ms_fs ms) t = []"
  obtains ms' where "zonefs_init_zgroup D zd t ms = (0, ms')"
    "map file_extent (fs_zones (ms_fs ms') t) = map group_extent (zone_groups aggr t zs)"
    "\<And>t'. t' \<noteq> t \<Longrightarrow> fs_zones (ms_fs ms') t' = fs_zones (ms_fs ms) t'" "same_shape ms ms'"
proof (cases "s_nr_zones (ms_sbi ms) t = 0")
  case True
  then show ?thesis using assms(6,7) that [of ms] by (simp add: zonefs_init_zgroup_def same_shape_def)
next
  case False
  let ?m = "map_fs (\<lambda>fs. fs\<lparr>fs_zones := (fs_zones fs)(t := replicate (s_nr_zones (ms_sbi ms) t) zero_zone)\<rparr>) ms"
  have p: "aggr = sb_has_feature F_AGGRCNV (ms_sbi ?m)"
    "length (fs_zones (ms_fs ?m) t) = s_nr_zones (ms_sbi ?m) t"
    "0 + length (zone_groups aggr t zs) \<le> s_nr_zones (ms_sbi ?m) t"
    using assms(3,6) by simp_all
  from init_zones_files [OF assms(1) p(1) assms(5) p(2,3)] obtain ms' where r:
    "init_zones D t 0 zs ?m = (0, length (zone_groups aggr t zs), ms')"
    "map file_extent (take (length (zone_groups aggr t zs)) (fs_zones (ms_fs ms') t)) =
       map group_extent (zone_groups aggr t zs)"
    "length (fs_zones (ms_fs ms') t) = length (fs_zones (ms_fs ?m) t)"
    "\<And>t'. t' \<noteq> t \<Longrightarrow> fs_zones (ms_fs ms') t' = fs_zones (ms_fs ?m) t'" "same_shape ?m ms'"
    by auto
  show ?thesis
  proof (rule that)
    show "zonefs_init_zgroup D zd t ms = (0, ms')"
      using False assms(2,6) r(1) by (simp add: zonefs_init_zgroup_def Let_def assms(4))
    show "map file_extent (fs_zones (ms_fs ms') t) = map group_extent (zone_groups aggr t zs)"
      using r(2,3) assms(6) by simp
    show "fs_zones (ms_fs ms') t' = fs_zones (ms_fs ms) t'" if "t' \<noteq> t" for t' using r(4) that by simp
    show "same_shape ms ms'" using r(5) by (simp add: same_shape_def)
  qed
qed

lemma init_zgroup_counted:
  assumes "zonefs_init_zgroup D zd t ms = (0, ms')" "fs_zones (ms_fs ms) t = []"
    and "sound \<longrightarrow> t = ZTYPE_SEQ \<longrightarrow> (\<forall>zone \<in> set (drop 1 (zd_zones zd)). of_type t zone \<longrightarrow> wp_in_zone zone)"
  shows "counted sound ms t (fs_zones (ms_fs ms') t) ms' \<and> length (fs_zones (ms_fs ms') t) = s_nr_zones (ms_sbi ms) t \<and>
    (\<forall>t'. t' \<noteq> t \<longrightarrow> fs_zones (ms_fs ms') t' = fs_zones (ms_fs ms) t')"
proof (cases "s_nr_zones (ms_sbi ms) t = 0")
  case True
  then show ?thesis using assms(1,2) by (simp add: zonefs_init_zgroup_def counted_def same_shape_def)
next
  case False
  let ?nr = "s_nr_zones (ms_sbi ms) t"
  let ?m = "map_fs (\<lambda>fs. fs\<lparr>fs_zones := (fs_zones fs)(t := replicate ?nr zero_zone)\<rparr>) ms"
  have i: "init_zones D t 0 (drop 1 (zd_zones zd)) ?m = (0, ?nr, ms')"
    using assms(1) False
    by (auto simp: zonefs_init_zgroup_def Let_def case_prod_beta ENOMEM_def EINVAL_def prod_eq_iff split: if_splits)
  have c: "counted sound ms t (take 0 (fs_zones (ms_fs ?m) t)) ?m" by (simp add: counted_def)
  have l: "length (fs_zones (ms_fs ?m) t) = s_nr_zones (ms_sbi ?m) t" by simp
  from init_zones_counted [OF i c l assms(3)] show ?thesis by auto
qed

lemma init_zgroups_split:
  assumes "zonefs_get_zone_info D ms = Some (0, zd, ms1)"
  shows "zonefs_init_zgroups D ms = Some (0, ms') \<longleftrightarrow>
    (\<exists>ms2. zonefs_init_zgroup D zd ZTYPE_CNV ms1 = (0, ms2) \<and> zonefs_init_zgroup D zd ZTYPE_SEQ ms2 = (0, ms'))"
  using assms
  by (cases "zonefs_init_zgroup D zd ZTYPE_CNV ms1";
      cases "zonefs_init_zgroup D zd ZTYPE_SEQ (snd (zonefs_init_zgroup D zd ZTYPE_CNV ms1))")
    (auto simp: zonefs_init_zgroups_def Let_def)

lemma ztype_all: "(\<forall>t. P t) \<longleftrightarrow> P ZTYPE_CNV \<and> P ZTYPE_SEQ"
  by (metis zonefs_ztype.exhaust)

lemma init_zgroups_files:
  assumes "good_report D (fs_dev (ms_fs ms)) zs" "unmounted ms" "\<And>site. md_alloc D site"
    and "\<And>op s n d. fst (bd_zone_mgmt (md_blk D) op s n d) = 0"
    and "aggr = sb_has_feature F_AGGRCNV (ms_sbi ms)"
    and "aggr \<or> (\<forall>zone \<in> set (drop 1 zs). bz_len zone \<le> md_zone_sectors D)"
  shows "\<exists>ms'. zonefs_init_zgroups D ms = Some (0, ms') \<and>
    (\<forall>t. map file_extent (fs_zones (ms_fs ms') t) = map group_extent (zone_groups aggr t (drop 1 zs)) \<and>
       concat (zone_groups aggr t (drop 1 zs)) = filter (of_type t) (drop 1 zs) \<and>
       length (fs_zones (ms_fs ms') t) = s_nr_zones (ms_sbi ms') t)"
proof -
  have u: "\<And>t. s_nr_zones (ms_sbi ms) t = 0" "\<And>t. fs_zones (ms_fs ms) t = []"
    using assms(2) by (simp_all add: unmounted_def)
  obtain zd ms1 where i: "zonefs_get_zone_info D ms = Some (0, zd, ms1)" "drop 1 (zd_zones zd) = drop 1 zs"
    "without_counts ms1 = without_counts ms"
    "\<And>t. s_nr_zones (ms_sbi ms1) t = length (zone_groups aggr t (drop 1 zs))"
    by (rule get_zone_info_ok [OF assms(1) assms(3) u(1)]) (simp add: assms(5))
  note W = without_counts_simps [OF i(3)]
  have a1: "aggr = sb_has_feature F_AGGRCNV (ms_sbi ms1)" using assms(5) W(1) by (simp add: sb_has_feature_def)
  have z1: "fs_zones (ms_fs ms1) t = []" for t by (simp add: W(2) u(2))
  obtain ms2 where m2: "zonefs_init_zgroup D zd ZTYPE_CNV ms1 = (0, ms2)"
    "map file_extent (fs_zones (ms_fs ms2) ZTYPE_CNV) = map group_extent (zone_groups aggr ZTYPE_CNV (drop 1 zs))"
    "\<And>t'. t' \<noteq> ZTYPE_CNV \<Longrightarrow> fs_zones (ms_fs ms2) t' = fs_zones (ms_fs ms1) t'" "same_shape ms1 ms2"
    by (rule init_zgroup_files [where t = ZTYPE_CNV, OF assms(4,3) a1 i(2) [symmetric] assms(6) i(4) z1]) blast
  have a2: "aggr = sb_has_feature F_AGGRCNV (ms_sbi ms2)" using a1 m2(4) by (simp add: sb_has_feature_def same_shape_def)
  have n2: "s_nr_zones (ms_sbi ms2) t = length (zone_groups aggr t (drop 1 zs))" for t
    using m2(4) i(4) by (simp add: same_shape_def)
  have z2: "fs_zones (ms_fs ms2) ZTYPE_SEQ = []" by (simp add: m2(3) z1)
  obtain ms3 where m3: "zonefs_init_zgroup D zd ZTYPE_SEQ ms2 = (0, ms3)"
    "map file_extent (fs_zones (ms_fs ms3) ZTYPE_SEQ) = map group_extent (zone_groups aggr ZTYPE_SEQ (drop 1 zs))"
    "\<And>t'. t' \<noteq> ZTYPE_SEQ \<Longrightarrow> fs_zones (ms_fs ms3) t' = fs_zones (ms_fs ms2) t'" "same_shape ms2 ms3"
    by (rule init_zgroup_files [where t = ZTYPE_SEQ, OF assms(4,3) a2 i(2) [symmetric] assms(6) n2 z2]) blast
  have e: "map file_extent (fs_zones (ms_fs ms3) t) = map group_extent (zone_groups aggr t (drop 1 zs))" for t
    using m2(2) m3(2,3) by (cases t) simp_all
  have "length (fs_zones (ms_fs ms3) t) = s_nr_zones (ms_sbi ms3) t" for t
    using arg_cong [OF e [of t], of length] n2 [of t] m3(4) by (simp add: same_shape_def)
  then show ?thesis using init_zgroups_split [OF i(1)] m2(1) m3(1) e by (auto simp: concat_zone_groups)
qed


text \<open>C11: for a device whose zones are known and follow each other, the mount makes exactly the
  files of the reference: every zone but the first belongs to one file of its kind, a run of
  neighbouring conventional zones makes one file when the format aggregates them, and the
  number of files counted while the zones are reported is the number of files made.\<close>

theorem mount_creates_files:
  assumes "good_report D (fs_dev (ms_fs ms)) zs" "unmounted ms" "\<And>site. md_alloc D site"
    and "\<And>op s n d. fst (bd_zone_mgmt (md_blk D) op s n d) = 0"
    and "aggr = sb_has_feature F_AGGRCNV (ms_sbi ms)"
    and "aggr \<or> (\<forall>zone \<in> set (drop 1 zs). bz_len zone \<le> md_zone_sectors D)"
  shows "\<exists>ms'. zonefs_init_zgroups D ms = Some (0, ms') \<and>
    (\<forall>t. map file_extent (fs_zones (ms_fs ms') t) = map group_extent (zone_groups aggr t (drop 1 zs)) \<and>
       concat (zone_groups aggr t (drop 1 zs)) = filter (of_type t) (drop 1 zs) \<and>
       length (fs_zones (ms_fs ms') t) = s_nr_zones (ms_sbi ms') t)"
  by (rule init_zgroups_files [OF assms])

lemma drop_bit_mono_int: "(a :: int) \<le> b \<Longrightarrow> drop_bit k a \<le> drop_bit k b"
  by (simp add: drop_bit_eq_div zdiv_mono1)

lemma counted_blocks:
  assumes "\<forall>z \<in> set files. wp_in_file z"
  shows "0 \<le> sum_list (map (\<lambda>z. drop_bit k (z_wpoffset z)) files) \<and>
    sum_list (map (\<lambda>z. drop_bit k (z_wpoffset z)) files) \<le> sum_list (map (\<lambda>z. drop_bit k (z_capacity z)) files)"
proof -
  have "0 \<le> drop_bit k (z_wpoffset z)" "drop_bit k (z_wpoffset z) \<le> drop_bit k (z_capacity z)"
    if "z \<in> set files" for z
    using assms that drop_bit_mono_int [of 0 "z_wpoffset z" k] drop_bit_mono_int [of "z_wpoffset z" "z_capacity z" k]
    by (simp_all add: wp_in_file_def)
  then show ?thesis by (induction files) fastforce+
qed

text \<open>C24: a mount starts the counters of the running file system in the state that its operations
  keep: the number of active zones is the number of files whose ACTIVE flag is set, the flag is
  set exactly on the sequential files that are partly written and usable, every size lies within
  its zone's capacity, and the used blocks lie between zero and the number of blocks.\<close>

theorem mount_establishes_counts:
  assumes "good_report D (fs_dev (ms_fs ms)) zs" "unmounted ms" "zonefs_init_zgroups D ms = Some (0, ms')"
    and "\<forall>zone \<in> set (drop 1 zs). of_type ZTYPE_SEQ zone \<longrightarrow> wp_in_zone zone"
  shows "s_active_seq_files (ms_sbi ms') =
      int (length (filter (zone_has ZONE_ACTIVE) (fs_zones (ms_fs ms') ZTYPE_CNV @ fs_zones (ms_fs ms') ZTYPE_SEQ))) \<and>
    (\<forall>t. \<forall>z \<in> set (fs_zones (ms_fs ms') t).
      (zonefs_zone_is_cnv z \<longleftrightarrow> t = ZTYPE_CNV) \<and>
      (zone_has ZONE_ACTIVE z \<longleftrightarrow> zonefs_zone_is_seq z \<and> zone_is_active z) \<and>
      0 \<le> z_wpoffset z \<and> z_wpoffset z \<le> z_capacity z) \<and>
    0 \<le> s_used_blocks (ms_sbi ms') \<and> s_used_blocks (ms_sbi ms') \<le> s_blocks (ms_sbi ms')"
proof -
  have u: "\<And>t. s_nr_zones (ms_sbi ms) t = 0" "\<And>t. fs_zones (ms_fs ms) t = []"
    "s_blocks (ms_sbi ms) = 0" "s_used_blocks (ms_sbi ms) = 0" "s_active_seq_files (ms_sbi ms) = 0"
    using assms(2) by (simp_all add: unmounted_def)
  have al: "md_alloc D Alloc_zones"
  proof (rule ccontr)
    assume "\<not> md_alloc D Alloc_zones"
    then have "zonefs_get_zone_info D ms = Some (- ENOMEM, \<lparr>zd_cnv_zone_start = 0, zd_zones = []\<rparr>, ms)"
      by (simp add: zonefs_get_zone_info_def Let_def)
    then show False using assms(3) by (simp add: zonefs_init_zgroups_def ENOMEM_def)
  qed
  obtain zd ms1 where i: "zonefs_get_zone_info D ms = Some (0, zd, ms1)" "drop 1 (zd_zones zd) = drop 1 zs"
    "without_counts ms1 = without_counts ms"
    by (rule get_zone_info_ok [OF assms(1) al u(1)])
  note W = without_counts_simps [OF i(3)]
  obtain ms2 where m: "zonefs_init_zgroup D zd ZTYPE_CNV ms1 = (0, ms2)" "zonefs_init_zgroup D zd ZTYPE_SEQ ms2 = (0, ms')"
    using assms(3) unfolding init_zgroups_split [OF i(1)] by blast
  have z1: "fs_zones (ms_fs ms1) t = []" for t by (simp add: W(2) u(2))
  have s1: "True \<longrightarrow> ZTYPE_CNV = ZTYPE_SEQ \<longrightarrow> P" for P by simp
  note A = init_zgroup_counted [OF m(1) z1 s1]
  have z2: "fs_zones (ms_fs ms2) ZTYPE_SEQ = []" using A z1 by simp
  have s2: "True \<longrightarrow> ZTYPE_SEQ = ZTYPE_SEQ \<longrightarrow>
      (\<forall>zone \<in> set (drop 1 (zd_zones zd)). of_type ZTYPE_SEQ zone \<longrightarrow> wp_in_zone zone)"
    using assms(4) unfolding i(2) by blast
  note B = init_zgroup_counted [OF m(2) z2 s2]
  have c: "fs_zones (ms_fs ms') ZTYPE_CNV = fs_zones (ms_fs ms2) ZTYPE_CNV" using B by simp
  have bb: "fs_blkbits (ms_fs ms2) = fs_blkbits (ms_fs ms1)" using A by (simp add: counted_def same_shape_def)
  have f: "\<forall>z \<in> set (fs_zones (ms_fs ms') t). (zonefs_zone_is_cnv z \<longleftrightarrow> t = ZTYPE_CNV) \<and>
      (zone_has ZONE_ACTIVE z \<longleftrightarrow> t = ZTYPE_SEQ \<and> zone_is_active z) \<and> wp_in_file z" for t
    using A B c by (cases t) (simp_all add: counted_def)
  have f': "\<forall>z \<in> set (fs_zones (ms_fs ms') t). wp_in_file z" for t using f [of t] by blast
  have act: "s_active_seq_files (ms_sbi ms') =
      int (length (filter (zone_has ZONE_ACTIVE) (fs_zones (ms_fs ms') ZTYPE_CNV @ fs_zones (ms_fs ms') ZTYPE_SEQ)))"
    using A B W(7) u(5) c by (simp add: counted_def)
  have used: "0 \<le> s_used_blocks (ms_sbi ms')" "s_used_blocks (ms_sbi ms') \<le> s_blocks (ms_sbi ms')"
    using A B W(5,6) u(3,4) c counted_blocks [OF f', of "fs_blkbits (ms_fs ms1)" ZTYPE_CNV]
      counted_blocks [OF f', of "fs_blkbits (ms_fs ms1)" ZTYPE_SEQ]
    by (simp_all add: counted_def bb)
  have t: "t = ZTYPE_SEQ \<longleftrightarrow> t \<noteq> ZTYPE_CNV" for t by (cases t) auto
  show ?thesis using act used f unfolding wp_in_file_def zonefs_zone_is_seq_def t by blast
qed


section \<open>A whole mount\<close>

lemma zone_info_cb_frame:
  "zonefs_get_zone_info_cb zone idx zd ms = Some (ret, zd', ms') \<Longrightarrow> without_counts ms' = without_counts ms"
  by (auto simp: zonefs_get_zone_info_cb_def store_zone_def without_counts_def map_sbi_def map_fs_def count_zone_def
      split: if_splits blk_zone_type.splits)

lemma report_zones_frame:
  "report_zones zs idx zd ms = Some (ret, zd', ms') \<Longrightarrow> without_counts ms' = without_counts ms"
proof (induction zs arbitrary: idx zd ms)
  case (Cons zone zs)
  obtain r zd1 ms1 where c: "zonefs_get_zone_info_cb zone idx zd ms = Some (r, zd1, ms1)"
    using Cons.prems by (cases "zonefs_get_zone_info_cb zone idx zd ms") auto
  have "without_counts ms' = without_counts ms1"
    using Cons.prems Cons.IH c by (cases "r = 0") auto
  then show ?case using zone_info_cb_frame [OF c] by simp
qed simp

lemma get_zone_info_frame:
  assumes "zonefs_get_zone_info D ms = Some (ret, zd, ms')"
  shows "without_counts ms' = without_counts ms"
proof (cases "md_alloc D Alloc_zones")
  case True
  obtain zs err where r: "md_report D (fs_dev (ms_fs ms)) = (zs, err)" by (cases "md_report D (fs_dev (ms_fs ms))")
  let ?zd = "\<lparr>zd_cnv_zone_start = 0, zd_zones = replicate (md_nr_zones D) zero_blk_zone\<rparr>"
  obtain n zd1 ms1 where z: "report_zones zs 0 ?zd ms = Some (n, zd1, ms1)"
    using assms True r by (cases "report_zones zs 0 ?zd ms") (auto simp: zonefs_get_zone_info_def Let_def)
  have "without_counts ms' = without_counts ms1"
    using assms True r z
    by (auto simp: zonefs_get_zone_info_def Let_def without_counts_def map_sbi_def map_fs_def split: if_splits)
  then show ?thesis using report_zones_frame [OF z] by simp
qed (use assms in \<open>simp add: zonefs_get_zone_info_def Let_def\<close>)

text \<open>What a successful \<open>zonefs_init_zgroups\<close> keeps, whatever the device reported.\<close>

lemma init_zgroups_kept:
  assumes "zonefs_init_zgroups D ms = Some (0, ms')" "\<And>t. fs_zones (ms_fs ms) t = []"
  shows "s_mount_opts (ms_sbi ms') = s_mount_opts (ms_sbi ms)" "ms_zgroup_inode ms' = ms_zgroup_inode ms"
    "length (fs_zones (ms_fs ms') t) = s_nr_zones (ms_sbi ms') t"
proof -
  obtain ret zd ms1 where i: "zonefs_get_zone_info D ms = Some (ret, zd, ms1)"
    using assms(1) by (cases "zonefs_get_zone_info D ms") (auto simp: zonefs_init_zgroups_def)
  have r: "ret = 0" using assms(1) i by (auto simp: zonefs_init_zgroups_def split: if_splits)
  note W = without_counts_simps [OF get_zone_info_frame [OF i]]
  obtain ms2 where m: "zonefs_init_zgroup D zd ZTYPE_CNV ms1 = (0, ms2)" "zonefs_init_zgroup D zd ZTYPE_SEQ ms2 = (0, ms')"
    using assms(1) unfolding init_zgroups_split [OF i [unfolded r]] by blast
  have z1: "fs_zones (ms_fs ms1) t = []" for t by (simp add: W(2) assms(2))
  have s1: "False \<longrightarrow> P" for P by simp
  note A = init_zgroup_counted [OF m(1) z1 s1]
  have z2: "fs_zones (ms_fs ms2) ZTYPE_SEQ = []" using A z1 by simp
  note B = init_zgroup_counted [OF m(2) z2 s1]
  have AB: "same_shape ms1 ms2" "same_shape ms2 ms'" using A B by (simp_all add: counted_def)
  show "s_mount_opts (ms_sbi ms') = s_mount_opts (ms_sbi ms)" "ms_zgroup_inode ms' = ms_zgroup_inode ms"
    using AB W(9,10) by (simp_all add: same_shape_def)
  show "length (fs_zones (ms_fs ms') t) = s_nr_zones (ms_sbi ms') t"
    using A B AB by (cases t) (simp_all add: same_shape_def)
qed

lemma read_super_kept:
  assumes "zonefs_read_super D ms = (ret, ms')"
  shows "s_mount_opts (ms_sbi ms') = s_mount_opts (ms_sbi ms)" "fs_zones (ms_fs ms') = fs_zones (ms_fs ms)"
    "s_max_wro_seq_files (ms_sbi ms') = s_max_wro_seq_files (ms_sbi ms)"
    "s_max_active_seq_files (ms_sbi ms') = s_max_active_seq_files (ms_sbi ms)"
    "ms_zgroup_inode ms' = ms_zgroup_inode ms"
proof -
  have "check_super D b s = (r, s') \<Longrightarrow> s_mount_opts s' = s_mount_opts s \<and>
      s_max_wro_seq_files s' = s_max_wro_seq_files s \<and> s_max_active_seq_files s' = s_max_active_seq_files s" for b s r s'
    by (auto simp: check_super_def take_uid_def take_gid_def take_perm_def Let_def split: if_splits)
  then show "s_mount_opts (ms_sbi ms') = s_mount_opts (ms_sbi ms)" "fs_zones (ms_fs ms') = fs_zones (ms_fs ms)"
    "s_max_wro_seq_files (ms_sbi ms') = s_max_wro_seq_files (ms_sbi ms)"
    "s_max_active_seq_files (ms_sbi ms') = s_max_active_seq_files (ms_sbi ms)"
    "ms_zgroup_inode ms' = ms_zgroup_inode ms"
    using assms by (auto simp: zonefs_read_super_def split: if_splits sum.splits prod.splits)
qed

lemma get_zgroup_inodes_ok:
  assumes "zonefs_get_zgroup_inodes D ms = (0, ms')" "ms_zgroup_inode ms = (\<lambda>_. None)"
  shows "ms_fs ms' = ms_fs ms" "ms_zgroup_inode ms' t =
    (if s_nr_zones (ms_sbi ms) t = 0 then None else Some (zgroup_ino t (ms_fs ms)))"
  using assms
  by (cases t; auto simp: zonefs_get_zgroup_inodes_def zonefs_get_zgroup_inode_def Let_def ENOMEM_def split: if_splits)+

lemma one_policy_drop_explicit:
  "one_policy opts \<Longrightarrow> one_policy (opts AND NOT MNTOPT_EXPLICIT_OPEN)"
proof -
  have "NOT MNTOPT_EXPLICIT_OPEN AND MNTOPT_ERRORS_MASK = MNTOPT_ERRORS_MASK" by (simp add: mntopt_values)
  then show "one_policy opts \<Longrightarrow> one_policy (opts AND NOT MNTOPT_EXPLICIT_OPEN)"
    by (simp add: one_policy_def and.assoc)
qed

lemma drop_explicit_open_options:
  assumes "one_policy (s_mount_opts s)"
  shows "one_policy (s_mount_opts (drop_explicit_open s))"
    "\<not> (s_max_wro_seq_files s = 0 \<and> s_max_active_seq_files s = 0 \<and>
      s_mount_opts (drop_explicit_open s) AND MNTOPT_EXPLICIT_OPEN \<noteq> 0)"
  using assms one_policy_drop_explicit by (auto simp: drop_explicit_open_def and.assoc)

lemma fill_failed_leaves_nothing:
  "fst (snd (fill_failed ret ms)) = None" "fst (fill_failed ret ms) = ret"
  "ms_info ms \<Longrightarrow> fs_zones (ms_fs (snd (snd (fill_failed ret ms)))) t = []"
  "ms_info ms \<Longrightarrow> ms_zgroup_inode (snd (snd (fill_failed ret ms))) t = None"
  by (simp_all add: fill_failed_def zonefs_free_zgroups_def zonefs_release_zgroup_inodes_def map_fs_def)

text \<open>The steps before the registration leave the fields of the registration alone.\<close>

definition reg_state :: "'d mount_state \<Rightarrow> bool \<times> bool \<times> kobj_call list" where
  "reg_state ms = (ms_info ms, ms_registered ms, ms_kobj ms)"

lemma reg_state_simps [simp]:
  "reg_state (map_fs f ms) = reg_state ms" "reg_state (map_sbi g ms) = reg_state ms"
  "reg_state (keep_view c ms) = reg_state ms" "reg_state (put_zone t n z ms) = reg_state ms"
  "reg_state (count_blocks z ms) = reg_state ms" "reg_state (zonefs_free_zgroups ms) = reg_state ms"
  "reg_state (zonefs_release_zgroup_inodes ms) = reg_state ms"
  "reg_state (ms\<lparr>ms_hodo_nr_zones := k\<rparr>) = reg_state ms" "reg_state (ms\<lparr>ms_hodo_zone_size := s\<rparr>) = reg_state ms"
  by (simp_all add: reg_state_def map_fs_def map_sbi_def keep_view_def put_zone_def count_blocks_def
      zonefs_free_zgroups_def zonefs_release_zgroup_inodes_def)

lemma zone_info_cb_reg:
  "zonefs_get_zone_info_cb zone idx zd ms = Some (ret, zd', ms') \<Longrightarrow> reg_state ms' = reg_state ms"
  by (auto simp: zonefs_get_zone_info_cb_def store_zone_def split: if_splits blk_zone_type.splits)

lemma report_zones_reg:
  "report_zones zs idx zd ms = Some (ret, zd', ms') \<Longrightarrow> reg_state ms' = reg_state ms"
  by (induction zs arbitrary: idx zd ms) (auto simp: zone_info_cb_reg split: bind_splits if_splits)

lemma get_zone_info_reg:
  "zonefs_get_zone_info D ms = Some (ret, zd', ms') \<Longrightarrow> reg_state ms' = reg_state ms"
  by (auto simp: zonefs_get_zone_info_def Let_def report_zones_reg split: bind_splits if_splits prod.splits)

lemma init_zone_reg: "reg_state (snd (snd (init_zone D t zone ms))) = reg_state ms"
  by (simp add: init_zone_def Let_def case_prod_beta)

lemma init_zones_reg: "reg_state (snd (snd (init_zones D t n zs ms))) = reg_state ms"
proof (induction D t n zs ms rule: init_zones.induct)
  case (2 D t n zone rest ms)
  then show ?case unfolding init_zones.simps(2) [of D t n zone rest ms] by (simp add: Let_def init_zone_reg)
qed (simp add: init_zones.simps)

lemma init_zgroup_reg: "zonefs_init_zgroup D zd t ms = (ret, ms') \<Longrightarrow> reg_state ms' = reg_state ms"
  using init_zones_reg [of D t 0 "drop 1 (zd_zones zd)"]
  by (auto simp: zonefs_init_zgroup_def Let_def case_prod_beta split: if_splits)

lemma init_zgroups_reg: "zonefs_init_zgroups D ms = Some (ret, ms') \<Longrightarrow> reg_state ms' = reg_state ms"
  by (auto simp: zonefs_init_zgroups_def get_zone_info_reg Let_def split: bind_splits if_splits prod.splits
      dest!: init_zgroup_reg)

lemma read_super_reg: "zonefs_read_super D ms = (ret, ms') \<Longrightarrow> reg_state ms' = reg_state ms"
  by (auto simp: zonefs_read_super_def split: if_splits sum.splits prod.splits)

lemma get_zgroup_inodes_reg: "zonefs_get_zgroup_inodes D ms = (ret, ms') \<Longrightarrow> reg_state ms' = reg_state ms"
  by (auto simp: zonefs_get_zgroup_inodes_def reg_state_def split: if_splits sum.splits)

text \<open>The registration: the calls on the kobject, and what it leaves alone.\<close>

lemma sysfs_register_cases:
  assumes "zonefs_sysfs_register D ms = (ret, ms')"
  shows "ret = 0 \<Longrightarrow> ms' = (kobj_calls [Kobject_init_and_add] ms)\<lparr>ms_registered := True\<rparr>"
    "ret \<noteq> 0 \<Longrightarrow> ms' = kobj_calls [Kobject_init_and_add, Kobject_put, Wait_for_completion] ms"
  using assms by (auto simp: zonefs_sysfs_register_def kobj_calls_def Let_def split: if_splits)

lemma kobj_calls_simps [simp]:
  "ms_fs (kobj_calls cs ms) = ms_fs ms" "ms_zgroup_inode (kobj_calls cs ms) = ms_zgroup_inode ms"
  "ms_info (kobj_calls cs ms) = ms_info ms" "ms_registered (kobj_calls cs ms) = ms_registered ms"
  "ms_kobj (kobj_calls cs ms) = ms_kobj ms @ cs"
  by (simp_all add: kobj_calls_def)

text \<open>The ways a mount can end: before the zone groups, in the cleanup, or with everything filled.\<close>

lemma fill_groups_cases:
  assumes F: "fill_groups D ms = Some (ret, root, ms')" and R: "reg_state ms = (True, False, ks)"
  obtains (late) m cs where "ret \<noteq> 0" "fill_failed ret m = (ret, root, ms')" "reg_state m = (True, False, ks @ cs)"
      "cs = [] \<or> cs = [Kobject_init_and_add, Kobject_put, Wait_for_completion]"
  | (filled) ms3 ms4 where "ret = 0" "root = Some (make_root D (ms_sbi ms3))"
      "zonefs_init_zgroups D ms = Some (0, ms3)" "zonefs_get_zgroup_inodes D ms3 = (0, ms4)"
      "ms' = (kobj_calls [Kobject_init_and_add] ms4)\<lparr>ms_registered := True\<rparr>" "reg_state ms4 = (True, False, ks)"
proof -
  obtain ret3 ms3 where r3: "zonefs_init_zgroups D ms = Some (ret3, ms3)"
    using F unfolding fill_groups_def by (cases "zonefs_init_zgroups D ms") auto
  obtain ret4 ms4 where r4: "zonefs_get_zgroup_inodes D ms3 = (ret4, ms4)" by fastforce
  obtain ret5 ms5 where r5: "zonefs_sysfs_register D ms4 = (ret5, ms5)" by fastforce
  have g: "reg_state ms3 = (True, False, ks)" "reg_state ms4 = (True, False, ks)"
    using init_zgroups_reg [OF r3] get_zgroup_inodes_reg [OF r4] R by simp_all
  have g5: "ret5 \<noteq> 0 \<Longrightarrow> reg_state ms5 = (True, False, ks @ [Kobject_init_and_add, Kobject_put, Wait_for_completion])"
    using sysfs_register_cases(2) [OF r5] g(2) by (simp add: reg_state_def)
  note G = F [unfolded fill_groups_def r3 bind.bind_lunit prod.case r4 Let_def r5]
  consider "ret \<noteq> 0" "fill_failed ret ms3 = (ret, root, ms')" | "ret \<noteq> 0" "fill_failed ret ms4 = (ret, root, ms')"
    | "ret5 \<noteq> 0" "ret \<noteq> 0" "fill_failed ret ms5 = (ret, root, ms')"
    | "ret = 0" "ret3 = 0" "ret4 = 0" "ret5 = 0" "root = Some (make_root D (ms_sbi ms3))" "ms' = ms5"
    using G by (auto simp: fill_failed_def ENOMEM_def split: if_splits)
  then show thesis
  proof cases
    case 1 then show thesis using g by (intro late [of ms3 "[]"]) simp_all
  next
    case 2 then show thesis using g by (intro late [of ms4 "[]"]) simp_all
  next
    case 3 then show thesis using g5
      by (intro late [of ms5 "[Kobject_init_and_add, Kobject_put, Wait_for_completion]"]) simp_all
  next
    case 4 then show thesis using g r3 r4 sysfs_register_cases(1) [OF r5] by (intro filled [of ms3 ms4]) simp_all
  qed
qed

lemma fill_super_cases:
  assumes F: "zonefs_fill_super D options ms = Some (ret, root, ms')" and A: "md_is_zoned D" "md_alloc D Alloc_sbi"
  obtains (early) "ret \<noteq> 0" "root = None" "fs_zones (ms_fs ms') = (\<lambda>_. [])" "ms_zgroup_inode ms' = (\<lambda>_. None)"
      "reg_state ms' = (True, False, ms_kobj ms)"
  | (groups) ms2 where "fill_groups D (map_sbi drop_explicit_open ms2) = Some (ret, root, ms')"
      "reg_state ms2 = (True, False, ms_kobj ms)"
      "fs_zones (ms_fs ms2) = (\<lambda>_. [])" "ms_zgroup_inode ms2 = (\<lambda>_. None)" "one_policy (s_mount_opts (ms_sbi ms2))"
      "s_max_wro_seq_files (ms_sbi ms2) = md_max_open D" "s_max_active_seq_files (ms_sbi ms2) = md_max_active D"
proof -
  obtain ret1 ms1 where r1: "zonefs_read_super D (fresh_super D ms) = (ret1, ms1)" by fastforce
  obtain ret2 opts where r2: "zonefs_parse_options options (s_mount_opts (ms_sbi ms1)) = (ret2, opts)" by fastforce
  define ms2 where "ms2 = map_sbi (\<lambda>s. s\<lparr>s_mount_opts := opts\<rparr>) ms1"
  note R = read_super_kept [OF r1]
  have fresh: "fs_zones (ms_fs (fresh_super D ms)) = (\<lambda>_. [])" "ms_zgroup_inode (fresh_super D ms) = (\<lambda>_. None)"
    "ms_sbi (fresh_super D ms) = fresh_sbi D" "reg_state (fresh_super D ms) = (True, False, ms_kobj ms)"
    by (simp_all add: fresh_super_def map_fs_def reg_state_def)
  have e: "fs_zones (ms_fs m) = (\<lambda>_. [])" "ms_zgroup_inode m = (\<lambda>_. None)" "reg_state m = (True, False, ms_kobj ms)"
    if "m = ms1 \<or> m = ms2" for m using that read_super_reg [OF r1] by (auto simp: ms2_def R fresh)
  have G: "(if ret1 \<noteq> 0 then Some (ret1, None, ms1) else if ret2 \<noteq> 0 then Some (ret2, None, ms2)
      else fill_groups D (map_sbi drop_explicit_open ms2)) = Some (ret, root, ms')"
    using F by (simp only: zonefs_fill_super_def r1 r2 Let_def prod.case ms2_def A simp_thms if_False)
  show thesis
  proof (cases "ret1 \<noteq> 0 \<or> ret2 \<noteq> 0")
    case True
    then have "ret \<noteq> 0" "root = None" and m: "ms' = ms1 \<or> ms' = ms2" using G by (simp_all split: if_splits)
    then show thesis using e [OF m] by (intro early)
  next
    case False
    have "one_policy (s_mount_opts (ms_sbi ms2))"
      using parse_options_one_policy [of "s_mount_opts (ms_sbi ms1)" options] r2 False
      by (simp add: ms2_def R fresh fresh_sbi_def one_policy_simps one_policy_def error_policies_def mntopt_values)
    moreover have "s_max_wro_seq_files (ms_sbi ms2) = md_max_open D"
      "s_max_active_seq_files (ms_sbi ms2) = md_max_active D"
      by (simp_all add: ms2_def R fresh fresh_sbi_def)
    ultimately show thesis using False G e [of ms2] by (intro groups [of ms2]) simp_all
  qed
qed

text \<open>C13: a mount either succeeds with a root directory and one zone group inode for every group
  that has files, all tables filled, exactly one error policy, and \<open>explicit-open\<close> only on a
  device with a limit on open or active zones; or it fails and leaves neither files nor inodes.\<close>

theorem fill_super_all_or_nothing:
  assumes "zonefs_fill_super D options ms = Some (ret, root, ms')" "md_is_zoned D" "md_alloc D Alloc_sbi"
  shows "if ret = 0
    then root = Some (make_root D (ms_sbi ms')) \<and> one_policy (s_mount_opts (ms_sbi ms')) \<and>
      \<not> (md_max_open D = 0 \<and> md_max_active D = 0 \<and> s_mount_opts (ms_sbi ms') AND MNTOPT_EXPLICIT_OPEN \<noteq> 0) \<and>
      (\<forall>t. length (fs_zones (ms_fs ms') t) = s_nr_zones (ms_sbi ms') t \<and>
        ms_zgroup_inode ms' t = (if s_nr_zones (ms_sbi ms') t = 0 then None else Some (zgroup_ino t (ms_fs ms'))))
    else root = None \<and> (\<forall>t. fs_zones (ms_fs ms') t = [] \<and> ms_zgroup_inode ms' t = None)"
  using assms
proof (cases rule: fill_super_cases)
  case early
  then show ?thesis by simp
next
  case (groups ms2)
  from groups(1) have "reg_state (map_sbi drop_explicit_open ms2) = (True, False, ms_kobj ms)" using groups by simp
  with groups(1) show ?thesis
  proof (cases rule: fill_groups_cases)
    case (late m cs)
    then show ?thesis using fill_failed_leaves_nothing [where ret = ret and ms = m] by (simp add: reg_state_def)
  next
    case (filled ms3 ms4)
    have z: "fs_zones (ms_fs (map_sbi drop_explicit_open ms2)) t = []" for t by (simp add: groups)
    note K = init_zgroups_kept [OF filled(3) z]
    have g: "ms_zgroup_inode ms3 = (\<lambda>_. None)" by (simp add: K groups)
    note G = get_zgroup_inodes_ok [OF filled(4) g]
    show ?thesis using drop_explicit_open_options [OF groups(5)] K G by (simp add: filled groups)
  qed
qed

section \<open>A concrete mount\<close>

text \<open>A device of four zones: the first holds the super block, two conventional zones follow, and a
  partly written sequential zone.\<close>

definition demo_md_zone :: "nat \<Rightarrow> blk_zone_type \<Rightarrow> zone_cond \<Rightarrow> blk_zone" where
  "demo_md_zone k ty cond = \<lparr>bz_start = k * 524288, bz_len = 524288, bz_wp = k * 524288 + 8, bz_type = ty,
     bz_cond = cond, bz_capacity = 524288\<rparr>"

definition demo_zones :: "blk_zone list" where
  "demo_zones = [demo_md_zone 0 TYPE_SEQWRITE_REQ COND_FULL, demo_md_zone 1 TYPE_CONVENTIONAL COND_NOT_WP,
     demo_md_zone 2 TYPE_CONVENTIONAL COND_NOT_WP, demo_md_zone 3 TYPE_SEQWRITE_REQ COND_IMP_OPEN]"

definition demo_super :: bytes where
  "demo_super = set_u32 0 ZONEFS_MAGIC (set_u64 88 F_AGGRCNV (replicate 4096 0))"

definition demo_md :: "unit mount_dev" where
  "demo_md = \<lparr>md_is_zoned = True, md_nr_zones = 4, md_zone_sectors = 524288, md_blkbits = 12, md_max_open = 0,
     md_max_active = 0, md_report = (\<lambda>_. (demo_zones, None)), md_super = (\<lambda>_. Inr demo_super), md_crc32 = (\<lambda>_. 0),
     md_kuid = (\<lambda>u. u), md_kgid = (\<lambda>g. g), md_iget = (\<lambda>_. True), md_sysfs = 0, md_alloc = (\<lambda>_. True),
     md_blk = \<lparr>bd_zone_mgmt = (\<lambda>_ _ _ d. (0, d)), bd_report_zone = (\<lambda>_ _. None), bd_flush = (\<lambda>d. (0, d))\<rparr>\<rparr>"

definition demo_ms :: "unit mount_state" where
  "demo_ms = \<lparr>ms_fs = \<lparr>fs_zones = (\<lambda>_. []), fs_inodes = (\<lambda>_. None),
      fs_sbi = (fresh_sbi demo_md)\<lparr>s_features := F_AGGRCNV\<rparr>, fs_rdonly = False, fs_blkbits = 12, fs_nr_zones = 4, fs_dev = ()\<rparr>,
     ms_maxbytes = 0, ms_zgroup_inode = (\<lambda>_. None), ms_hodo_nr_zones = 0, ms_hodo_zone_size = 0,
     ms_info = False, ms_registered = False, ms_kobj = []\<rparr>"

lemma demo_md_simps:
  "md_alloc demo_md site" "fst (bd_zone_mgmt (md_blk demo_md) op s n d) = 0" "good_report demo_md d demo_zones"
  "drop 1 demo_zones = [demo_md_zone 1 TYPE_CONVENTIONAL COND_NOT_WP, demo_md_zone 2 TYPE_CONVENTIONAL COND_NOT_WP,
     demo_md_zone 3 TYPE_SEQWRITE_REQ COND_IMP_OPEN]"
  by (simp_all add: demo_md_def good_report_def demo_zones_def demo_md_zone_def known_type_def)

lemma demo_ms_simps:
  "unmounted demo_ms" "sb_has_feature F_AGGRCNV (ms_sbi demo_ms)"
  by (simp_all add: unmounted_def demo_ms_def fresh_sbi_def sb_has_feature_def feature_defs)

lemma demo_groups:
  "zone_groups True ZTYPE_CNV (drop 1 demo_zones) =
     [[demo_md_zone 1 TYPE_CONVENTIONAL COND_NOT_WP, demo_md_zone 2 TYPE_CONVENTIONAL COND_NOT_WP]]"
  "zone_groups True ZTYPE_SEQ (drop 1 demo_zones) = [[demo_md_zone 3 TYPE_SEQWRITE_REQ COND_IMP_OPEN]]"
  unfolding demo_md_simps(4) by (simp_all add: zone_groups_def demo_md_zone_def zonefs_zone_type_def)

theorem mount_creates_files_witness:
  "\<exists>ms'. zonefs_init_zgroups demo_md demo_ms = Some (0, ms') \<and>
     map file_extent (fs_zones (ms_fs ms') ZTYPE_CNV) = [(524288, 536870912, 536870912)] \<and>
     map file_extent (fs_zones (ms_fs ms') ZTYPE_SEQ) = [(1572864, 268435456, 268435456)]"
proof -
  have a: "True = sb_has_feature F_AGGRCNV (ms_sbi demo_ms)" by (simp add: demo_ms_simps)
  have l: "True \<or> (\<forall>zone \<in> set (drop 1 demo_zones). bz_len zone \<le> md_zone_sectors demo_md)" by simp
  obtain ms' where m: "zonefs_init_zgroups demo_md demo_ms = Some (0, ms')"
    "\<And>t. map file_extent (fs_zones (ms_fs ms') t) = map group_extent (zone_groups True t (drop 1 demo_zones))"
    using mount_creates_files [OF demo_md_simps(3) demo_ms_simps(1) demo_md_simps(1,2) a l] by blast
  have "map file_extent (fs_zones (ms_fs ms') ZTYPE_CNV) = [(524288, 536870912, 536870912)]"
    "map file_extent (fs_zones (ms_fs ms') ZTYPE_SEQ) = [(1572864, 268435456, 268435456)]"
    unfolding m(2) demo_groups by (simp_all add: group_extent_def demo_md_zone_def MAX_LFS_FILESIZE_def)
  with m(1) show ?thesis by (intro exI [of _ ms'] conjI)
qed

theorem mount_establishes_counts_witness:
  "\<exists>ms'. zonefs_init_zgroups demo_md demo_ms = Some (0, ms') \<and>
     s_active_seq_files (ms_sbi ms') =
       int (length (filter (zone_has ZONE_ACTIVE) (fs_zones (ms_fs ms') ZTYPE_CNV @ fs_zones (ms_fs ms') ZTYPE_SEQ))) \<and>
     s_used_blocks (ms_sbi ms') \<le> s_blocks (ms_sbi ms')"
proof -
  have a: "True = sb_has_feature F_AGGRCNV (ms_sbi demo_ms)" by (simp add: demo_ms_simps)
  have l: "True \<or> (\<forall>zone \<in> set (drop 1 demo_zones). bz_len zone \<le> md_zone_sectors demo_md)" by simp
  obtain ms' where m: "zonefs_init_zgroups demo_md demo_ms = Some (0, ms')"
    using init_zgroups_files [OF demo_md_simps(3) demo_ms_simps(1) demo_md_simps(1,2) a l] by blast
  have w: "\<forall>zone \<in> set (drop 1 demo_zones). of_type ZTYPE_SEQ zone \<longrightarrow> wp_in_zone zone"
    unfolding demo_md_simps(4) by (simp add: demo_md_zone_def zonefs_zone_type_def wp_in_zone_def MAX_LFS_FILESIZE_def)
  show ?thesis using mount_establishes_counts [OF demo_md_simps(3) demo_ms_simps(1) m w] m by blast
qed

lemma demo_super_fields:
  "zs_magic demo_super = ZONEFS_MAGIC" "zs_crc demo_super = 0" "zs_features demo_super = F_AGGRCNV"
  "zs_reserved demo_super = replicate 3988 0"
proof -
  define z :: bytes where "z = replicate 4096 0"
  define y where "y = set_u64 88 F_AGGRCNV z"
  have lz: "length z = 4096" unfolding z_def by (rule length_replicate)
  have ly: "length y = 4096" unfolding y_def using lz by (simp add: length_set_u64)
  have gz: "get_bytes off n z = replicate n 0" if "off + n \<le> 4096" for off n
    using that unfolding get_bytes_def z_def drop_replicate take_replicate by simp
  have s: "demo_super = set_u32 0 ZONEFS_MAGIC y" by (simp only: demo_super_def y_def z_def)
  show "zs_magic demo_super = ZONEFS_MAGIC" unfolding s zs_magic_def using ly by (simp add: u32_at_set_u32)
  have "zs_crc demo_super = u32_at 4 z" unfolding s zs_crc_def y_def using lz
    by (simp add: u32_at_other length_set_u64)
  then show "zs_crc demo_super = 0" by (simp add: u32_at_def gz)
  show "zs_features demo_super = F_AGGRCNV" unfolding s zs_features_def using lz ly
    by (simp add: u64_at_other) (simp add: y_def u64_at_set_u64)
  have "zs_reserved demo_super = get_bytes 108 3988 z" unfolding s zs_reserved_def using lz ly
    by (simp add: get_set_other) (simp add: y_def get_set_other)
  then show "zs_reserved demo_super = replicate 3988 0" using gz [of 108 3988] by simp
qed

lemma demo_fill_super:
  "\<exists>root ms'. zonefs_fill_super demo_md (Some ''explicit-open,errors=repair'') demo_ms = Some (0, root, ms')"
proof -
  define ms1 where "ms1 = map_sbi (\<lambda>s. s\<lparr>s_features := F_AGGRCNV\<rparr>) (fresh_super demo_md demo_ms)"
  define ms2 where "ms2 = map_sbi drop_explicit_open (map_sbi (\<lambda>s. s\<lparr>s_mount_opts := 24\<rparr>) ms1)"
  have f: "F_AGGRCNV AND NOT F_DEFINED_FEATURES = 0" "F_AGGRCNV AND F_UID = 0" "F_AGGRCNV AND F_GID = 0"
    "F_AGGRCNV AND F_PERM = 0" by (simp_all add: feature_defs)
  have c: "check_super demo_md demo_super s = (0, s\<lparr>s_features := F_AGGRCNV\<rparr>)" for s
    by (simp add: check_super_def demo_super_fields Let_def take_uid_def take_gid_def take_perm_def sb_has_feature_def f)
      (simp add: demo_md_def)
  have ds: "md_super demo_md d = Inr demo_super" for d by (simp add: demo_md_def)
  have r: "zonefs_read_super demo_md (fresh_super demo_md demo_ms) = (0, ms1)"
    by (simp add: zonefs_read_super_def demo_md_simps(1) ds c ms1_def) (simp add: map_sbi_def map_fs_def)
  have p: "zonefs_parse_options (Some ''explicit-open,errors=repair'') (s_mount_opts (ms_sbi ms1)) = (0, 24)"
    by (simp add: ms1_def fresh_super_def map_fs_def fresh_sbi_def zonefs_parse_options_def match_opt_def
        set_errors_opt_def mntopt_values)
  have u: "unmounted ms2" "True = sb_has_feature F_AGGRCNV (ms_sbi ms2)" "fs_dev (ms_fs ms2) = ()"
    by (simp_all add: unmounted_def ms2_def ms1_def fresh_super_def map_fs_def fresh_sbi_def drop_explicit_open_def
        sb_has_feature_def feature_defs)
  have l: "True \<or> (\<forall>zone \<in> set (drop 1 demo_zones). bz_len zone \<le> md_zone_sectors demo_md)" by simp
  obtain ms3 where i: "zonefs_init_zgroups demo_md ms2 = Some (0, ms3)"
    using init_zgroups_files [OF demo_md_simps(3) u(1) demo_md_simps(1,2) u(2) l] by blast
  have g: "fst (zonefs_get_zgroup_inodes demo_md ms3) = 0"
    by (simp add: zonefs_get_zgroup_inodes_def zonefs_get_zgroup_inode_def Let_def demo_md_def)
  obtain ms4 where g4: "zonefs_get_zgroup_inodes demo_md ms3 = (0, ms4)"
    using g by (cases "zonefs_get_zgroup_inodes demo_md ms3") simp
  have z: "md_is_zoned demo_md" "md_sysfs demo_md = 0"
    by (simp_all add: demo_md_def)
  have e: "zonefs_fill_super demo_md (Some ''explicit-open,errors=repair'') demo_ms =
      Some (0, Some (make_root demo_md (ms_sbi ms3)), (kobj_calls [Kobject_init_and_add] ms4)\<lparr>ms_registered := True\<rparr>)"
    unfolding zonefs_fill_super_def r using z i g4
    by (simp add: demo_md_simps(1) p ms2_def [symmetric] fill_groups_def zonefs_sysfs_register_def)
  then show ?thesis by blast
qed

theorem fill_super_all_or_nothing_witness:
  "\<exists>root ms'. zonefs_fill_super demo_md (Some ''explicit-open,errors=repair'') demo_ms = Some (0, root, ms') \<and>
     one_policy (s_mount_opts (ms_sbi ms')) \<and> s_mount_opts (ms_sbi ms') AND MNTOPT_EXPLICIT_OPEN = 0 \<and>
     length (fs_zones (ms_fs ms') ZTYPE_SEQ) = s_nr_zones (ms_sbi ms') ZTYPE_SEQ"
proof -
  obtain root ms' where e: "zonefs_fill_super demo_md (Some ''explicit-open,errors=repair'') demo_ms = Some (0, root, ms')"
    using demo_fill_super by blast
  have z: "md_is_zoned demo_md" "md_max_open demo_md = 0" "md_max_active demo_md = 0" by (simp_all add: demo_md_def)
  show ?thesis using fill_super_all_or_nothing [OF e z(1) demo_md_simps(1)] e z by simp
qed

end
