(* ===== verification/Zonefs_Module.thy ===== *)
theory Zonefs_Module
  imports Zonefs_Mount
begin

text \<open>
  The life of the module and of a mount around \<open>zonefs_fill_super\<close>: loading and unloading the module,
  remounting, unmounting with \<open>zonefs_kill_super\<close>, and the attributes in sysfs (\<open>sysfs.c\<close>).
  What the kernel answers to a registration is an argument.
\<close>

section \<open>Loading and unloading the module\<close>

text \<open>What is registered with the kernel: the inode cache, the sysfs directory, the file system type.\<close>

record module_state =
  have_inode_cache :: bool
  have_sysfs_root :: bool
  have_fs_type :: bool

text \<open>Whether \<open>kmem_cache_create\<close> and \<open>kobject_create_and_add\<close> return a pointer, and the result of
  \<open>register_filesystem\<close>.\<close>

record module_env =
  me_cache :: bool
  me_kobject :: bool
  me_register :: int

definition zonefs_init_inodecache :: "module_env \<Rightarrow> module_state \<Rightarrow> int \<times> module_state" where
  "zonefs_init_inodecache E m = (if \<not> me_cache E then (- ENOMEM, m) else (0, m\<lparr>have_inode_cache := True\<rparr>))"

definition zonefs_destroy_inodecache :: "module_state \<Rightarrow> module_state" where
  "zonefs_destroy_inodecache m = m\<lparr>have_inode_cache := False\<rparr>"

definition zonefs_sysfs_init :: "module_env \<Rightarrow> module_state \<Rightarrow> int \<times> module_state" where
  "zonefs_sysfs_init E m = (if \<not> me_kobject E then (- ENOMEM, m) else (0, m\<lparr>have_sysfs_root := True\<rparr>))"

definition zonefs_sysfs_exit :: "module_state \<Rightarrow> module_state" where
  "zonefs_sysfs_exit m = m\<lparr>have_sysfs_root := False\<rparr>"

definition register_filesystem :: "module_env \<Rightarrow> module_state \<Rightarrow> int \<times> module_state" where
  "register_filesystem E m = (me_register E, if me_register E = 0 then m\<lparr>have_fs_type := True\<rparr> else m)"

definition zonefs_init :: "module_env \<Rightarrow> module_state \<Rightarrow> int \<times> module_state" where
  "zonefs_init E m =
     (let (ret1, m1) = zonefs_init_inodecache E m in
      if ret1 \<noteq> 0 then (ret1, m1)
      else let (ret2, m2) = zonefs_sysfs_init E m1 in
           if ret2 \<noteq> 0 then (ret2, zonefs_destroy_inodecache m2)
           else let (ret3, m3) = register_filesystem E m2 in
                if ret3 \<noteq> 0 then (ret3, zonefs_destroy_inodecache (zonefs_sysfs_exit m3)) else (0, m3))"

definition zonefs_exit :: "module_state \<Rightarrow> module_state" where
  "zonefs_exit m = zonefs_destroy_inodecache (zonefs_sysfs_exit (m\<lparr>have_fs_type := False\<rparr>))"

definition unloaded :: module_state where
  "unloaded = \<lparr>have_inode_cache = False, have_sysfs_root = False, have_fs_type = False\<rparr>"

lemma module_init_all_or_nothing:
  "fst (zonefs_init E unloaded) \<noteq> 0 \<Longrightarrow> snd (zonefs_init E unloaded) = unloaded"
  "fst (zonefs_init E unloaded) = 0 \<longleftrightarrow> me_cache E \<and> me_kobject E \<and> me_register E = 0"
  "zonefs_exit (snd (zonefs_init E unloaded)) = unloaded"
  by (simp_all add: zonefs_init_def zonefs_init_inodecache_def zonefs_sysfs_init_def register_filesystem_def
      zonefs_destroy_inodecache_def zonefs_sysfs_exit_def zonefs_exit_def unloaded_def ENOMEM_def split: if_splits)

section \<open>Allocating an inode\<close>

text \<open>\<open>mem\<close> is what the inode cache gives, with any contents, and \<open>inode_init_once\<close> the kernel's initialisation
  of the inode in it. The count of writers is the only field of zonefs set here; a new zone file relies on it.\<close>

definition zonefs_alloc_inode :: "(zonefs_inode \<Rightarrow> zonefs_inode) \<Rightarrow> zonefs_inode option \<Rightarrow> zonefs_inode option" where
  "zonefs_alloc_inode inode_init_once mem =
     (case mem of None \<Rightarrow> None | Some zi \<Rightarrow> Some ((inode_init_once zi)\<lparr>i_wr_refcnt := 0\<rparr>))"

lemma new_zone_inode_allocated:
  assumes "zonefs_alloc_inode init mem = Some i" "i_flags i = 0"
  shows "new_zone_inode ino z = i\<lparr>i_ino := ino, i_size := z_wpoffset z, i_mode := z_mode z, i_uid := z_uid z, i_gid := z_gid z\<rparr>"
  using assms by (auto simp: zonefs_alloc_inode_def new_zone_inode_def split: option.splits)

section \<open>Attributes\<close>

text \<open>\<open>sysfs_emit\<close> with the formats \<open>%u\<close> and \<open>%d\<close> and a newline: the text, whose length it returns.\<close>

definition emit_int :: "int \<Rightarrow> string" where
  "emit_int i = (if i < 0 then ''-'' else []) @ dec_string (nat \<bar>i\<bar>) @ [CHR 0x0A]"

definition max_wro_seq_files_show :: "zonefs_sb_info \<Rightarrow> string" where
  "max_wro_seq_files_show s = emit_int (uint (s_max_wro_seq_files s))"

definition nr_wro_seq_files_show :: "zonefs_sb_info \<Rightarrow> string" where
  "nr_wro_seq_files_show s = emit_int (s_wro_seq_files s)"

definition max_active_seq_files_show :: "zonefs_sb_info \<Rightarrow> string" where
  "max_active_seq_files_show s = emit_int (uint (s_max_active_seq_files s))"

definition nr_active_seq_files_show :: "zonefs_sb_info \<Rightarrow> string" where
  "nr_active_seq_files_show s = emit_int (s_active_seq_files s)"

definition zonefs_sysfs_attrs :: "(string \<times> (zonefs_sb_info \<Rightarrow> string)) list" where
  "zonefs_sysfs_attrs = [(''max_wro_seq_files'', max_wro_seq_files_show), (''nr_wro_seq_files'', nr_wro_seq_files_show),
     (''max_active_seq_files'', max_active_seq_files_show), (''nr_active_seq_files'', nr_active_seq_files_show)]"

definition zonefs_sysfs_attr_show :: "(zonefs_sb_info \<Rightarrow> string) option \<Rightarrow> zonefs_sb_info \<Rightarrow> nat \<times> string" where
  "zonefs_sysfs_attr_show attr_show s = (case attr_show of None \<Rightarrow> (0, []) | Some f \<Rightarrow> (length (f s), f s))"

section \<open>Remounting and unmounting\<close>

text \<open>\<open>sync_filesystem\<close> acts on the device.\<close>

definition zonefs_remount :: "('d \<Rightarrow> 'd) \<Rightarrow> string option \<Rightarrow> 'd mount_state \<Rightarrow> int \<times> 'd mount_state" where
  "zonefs_remount sync_filesystem data ms =
     (let ms1 = map_fs (\<lambda>fs. fs\<lparr>fs_dev := sync_filesystem (fs_dev fs)\<rparr>) ms;
          (ret, opts) = zonefs_parse_options data (s_mount_opts (ms_sbi ms1))
      in (ret, map_sbi (\<lambda>s. s\<lparr>s_mount_opts := opts\<rparr>) ms1))"

definition zonefs_sysfs_unregister :: "'d mount_state \<Rightarrow> 'd mount_state" where
  "zonefs_sysfs_unregister ms =
     (if \<not> ms_info ms \<or> \<not> ms_registered ms then ms
      else kobj_calls [Kobject_del, Kobject_put, Wait_for_completion] ms)"

text \<open>\<open>kill_block_super\<close> writes back and drops the inodes; the super block information is freed last.\<close>

definition zonefs_kill_super ::
  "((nat \<Rightarrow> zonefs_inode option) \<times> 'd \<Rightarrow> (nat \<Rightarrow> zonefs_inode option) \<times> 'd) \<Rightarrow> 'd mount_state \<Rightarrow> 'd mount_state"
where
  "zonefs_kill_super kill_block_super ms =
     (let ms1 = zonefs_release_zgroup_inodes ms;
          (inodes, dev) = kill_block_super (fs_inodes (ms_fs ms1), fs_dev (ms_fs ms1));
          ms2 = map_fs (\<lambda>fs. fs\<lparr>fs_inodes := inodes, fs_dev := dev\<rparr>) ms1;
          ms3 = zonefs_sysfs_unregister ms2;
          ms4 = zonefs_free_zgroups ms3
      in ms4\<lparr>ms_info := False\<rparr>)"

definition zonefs_readdir ::
  "actor \<Rightarrow> (dir_context \<Rightarrow> bool \<times> dir_context) \<Rightarrow> bool \<Rightarrow> zonefs_ztype option \<Rightarrow> nat \<Rightarrow> 'd zonefs_state \<Rightarrow> dir_context \<Rightarrow>
     int \<times> dir_context"
where
  "zonefs_readdir act dots fname_alloc grp dir_size fs ctx =
     (case grp of
        None \<Rightarrow> (0, zonefs_readdir_root act dots dir_size fs ctx)
      | Some t \<Rightarrow> zonefs_readdir_zgroup act dots fname_alloc t dir_size fs ctx)"

text \<open>A remount keeps exactly one error policy, also when it fails; but it takes \<open>explicit-open\<close> also on a
  device without limits, where a mount ignores it.\<close>

lemma remount_options:
  assumes "one_policy (s_mount_opts (ms_sbi ms))"
  shows "one_policy (s_mount_opts (ms_sbi (snd (zonefs_remount sync data ms))))"
  using parse_options_one_policy [OF assms, of data]
  by (simp add: zonefs_remount_def Let_def case_prod_beta map_fs_def map_sbi_def)

lemma remount_ignores_limits:
  "fst (zonefs_remount sync (Some ''explicit-open'') ms) = 0"
  "s_mount_opts (ms_sbi (snd (zonefs_remount sync (Some ''explicit-open'') ms))) AND MNTOPT_EXPLICIT_OPEN \<noteq> 0"
  by (simp_all add: zonefs_remount_def Let_def case_prod_beta map_fs_def map_sbi_def zonefs_parse_options_def
      match_opt_def mntopt_values bit.conj_disj_distrib2)

text \<open>
  The protocol of a kobject, by the number of its references: it is added once, put exactly as often
  as it was taken, deleted only while it is alive, and its completion is waited for only after the
  last reference is gone, since otherwise the wait does not return.
\<close>

fun kobj_protocol :: "nat \<Rightarrow> kobj_call list \<Rightarrow> bool" where
  "kobj_protocol n [] \<longleftrightarrow> n = 0"
| "kobj_protocol n (Kobject_init_and_add # cs) \<longleftrightarrow> n = 0 \<and> kobj_protocol 1 cs"
| "kobj_protocol n (Kobject_del # cs) \<longleftrightarrow> 0 < n \<and> kobj_protocol n cs"
| "kobj_protocol n (Kobject_put # cs) \<longleftrightarrow> 0 < n \<and> kobj_protocol (n - 1) cs"
| "kobj_protocol n (Wait_for_completion # cs) \<longleftrightarrow> n = 0 \<and> kobj_protocol n cs"

text \<open>A super block as the kernel allocates it.\<close>

definition new_super :: "'d mount_state \<Rightarrow> bool" where
  "new_super ms \<longleftrightarrow> reg_state ms = (False, False, []) \<and> fs_zones (ms_fs ms) = (\<lambda>_. []) \<and> ms_zgroup_inode ms = (\<lambda>_. None)"

definition released :: "'d mount_state \<Rightarrow> bool" where
  "released ms \<longleftrightarrow> \<not> ms_info ms \<and> fs_zones (ms_fs ms) = (\<lambda>_. []) \<and> ms_zgroup_inode ms = (\<lambda>_. None) \<and>
     kobj_protocol 0 (ms_kobj ms)"

lemma kill_super_released:
  assumes "ms_info ms \<or> fs_zones (ms_fs ms) = (\<lambda>_. []) \<and> ms_zgroup_inode ms = (\<lambda>_. None)"
    "kobj_protocol 0 (ms_kobj ms @
       (if ms_info ms \<and> ms_registered ms then [Kobject_del, Kobject_put, Wait_for_completion] else []))"
  shows "released (zonefs_kill_super kbs ms)"
proof -
  obtain inodes dev where k: "kbs (fs_inodes (ms_fs ms), fs_dev (ms_fs ms)) = (inodes, dev)" by fastforce
  show ?thesis using assms k
    by (auto simp: zonefs_kill_super_def released_def zonefs_release_zgroup_inodes_def zonefs_sysfs_unregister_def
        zonefs_free_zgroups_def map_fs_def kobj_calls_def Let_def)
qed

text \<open>C14: whatever a mount of a new super block ends with, at any of its steps, unmounting it releases
  the zone tables, the zone group inodes and the super block information, and over mount and unmount
  the sysfs object is taken and put according to its protocol, so the wait for its release returns.\<close>

theorem unmount_releases_mount:
  assumes "zonefs_fill_super D options ms = Some (ret, root, ms')" "new_super ms"
  shows "released (zonefs_kill_super kbs ms')"
proof (cases "md_is_zoned D \<and> md_alloc D Alloc_sbi")
  case False
  then have "ms' = ms" using assms(1) by (auto simp: zonefs_fill_super_def split: if_splits)
  then show ?thesis using assms(2) by (intro kill_super_released) (auto simp: new_super_def reg_state_def)
next
  case True
  have n: "ms_kobj ms = []" using assms(2) by (simp add: new_super_def reg_state_def)
  from True have a: "md_is_zoned D" "md_alloc D Alloc_sbi" by simp_all
  from assms(1) a show ?thesis
  proof (cases rule: fill_super_cases)
    case early
    then show ?thesis using n by (intro kill_super_released) (simp_all add: reg_state_def)
  next
    case (groups ms2)
    have "reg_state (map_sbi drop_explicit_open ms2) = (True, False, ms_kobj ms)" using groups by simp
    with groups(1) show ?thesis
    proof (cases rule: fill_groups_cases)
      case (late m cs)
      then have "reg_state ms' = reg_state m" by (auto simp: fill_failed_def)
      then show ?thesis using late(3,4) n by (intro kill_super_released) (auto simp: reg_state_def)
    next
      case (filled ms3 ms4)
      then show ?thesis using n by (intro kill_super_released) (simp_all add: reg_state_def)
    qed
  qed
qed

theorem unmount_releases_mount_witness:
  "\<exists>root ms'. zonefs_fill_super demo_md (Some ''explicit-open,errors=repair'') demo_ms = Some (0, root, ms') \<and>
     released (zonefs_kill_super (\<lambda>(i, d). (\<lambda>_. None, d)) ms')"
proof -
  have n: "new_super demo_ms" by (simp add: new_super_def reg_state_def demo_ms_def)
  show ?thesis using demo_fill_super unmount_releases_mount [OF _ n] by blast
qed

end
