(* ===== verification/Hodo_Mount.thy ===== *)
theory Hodo_Mount
  imports Hodo_System Zonefs_Module
begin

text \<open>
  Mounting as a whole: \<open>zonefs_mount\<close> of \<open>super.c\<close> lets the kernel fill the super block with
  \<open>zonefs_fill_super\<close> and starts a thread that runs \<open>hodo_init\<close>. On a blank device of the size
  that the constants of \<open>hodo.h\<close> describe this establishes every assumption that the theorems on the
  store, on files, on directories and on whole runs make about the mounted zonefs. The second part
  is about mounting the device again after the module was loaded anew.
\<close>

section \<open>The mount operation\<close>

text \<open>
  \<open>mount_bdev\<close> is a function of the kernel: it opens the device, and hands a super block to its
  argument. The thread gets the mounted file system and the globals that the mount has set; a negative
  zone size equals no offset, as 0 does not. Whether it starts is \<open>started\<close>. It sleeps, and here runs
  before the first client. Its result is the number 0 that the kernel drops.
\<close>

type_synonym 'd fill_super = "'d mount_state \<Rightarrow> 'd mount_result option"
type_synonym 'd mount_bdev = "'d fill_super \<Rightarrow> 'd mount_state \<Rightarrow> ((int + root_inode) \<times> 'd mount_state) option"

definition mount_globals :: "'d mount_state \<Rightarrow> 'd zonefs_state hodo_state \<Rightarrow> 'd zonefs_state hodo_state" where
  "mount_globals ms g = g\<lparr>hodo_nr_zones := ms_hodo_nr_zones ms, hodo_zone_size := nat (ms_hodo_zone_size ms),
     zonefs := ms_fs ms\<rparr>"

definition hodo_late_init_thread :: "'z kernel \<Rightarrow> 'z hodo_state \<Rightarrow> (int \<times> 'z hodo_state) option" where
  "hodo_late_init_thread K s = do { s' \<leftarrow> hodo_init K s; Some (0, s') }"

definition zonefs_mount ::
  "'d mount_bdev \<Rightarrow> bool \<Rightarrow> 'd zonefs_state kernel \<Rightarrow> 'd mount_dev \<Rightarrow> string option \<Rightarrow> 'd zonefs_state hodo_state \<Rightarrow>
     'd mount_state \<Rightarrow> ((int + root_inode) \<times> 'd mount_state \<times> 'd zonefs_state hodo_state) option"
where
  "zonefs_mount mount_bdev started K D data g ms =
     do {
       (ret, ms1) \<leftarrow> mount_bdev (zonefs_fill_super D data) ms;
       (_, s) \<leftarrow> (if started then hodo_late_init_thread K (mount_globals ms1 g) else Some (0, mount_globals ms1 g));
       Some (ret, map_fs (\<lambda>_. zonefs s) ms1, s)
     }"

section \<open>A blank device\<close>

text \<open>The zones but the first, which holds the super block: sequential, empty, of 256 MiB.\<close>

definition blank_zone :: "nat \<Rightarrow> blk_zone" where
  "blank_zone k = \<lparr>bz_start = k * 524288, bz_len = 524288, bz_wp = k * 524288, bz_type = TYPE_SEQWRITE_REQ,
     bz_cond = COND_EMPTY, bz_capacity = 524288\<rparr>"

definition blank_device :: "'d mount_dev \<Rightarrow> 'd \<Rightarrow> bool" where
  "blank_device D d \<longleftrightarrow> md_is_zoned D \<and> md_nr_zones D = NUMBER_ZONES \<and> md_zone_sectors D = 524288 \<and> md_blkbits D = 12 \<and>
     (\<forall>site. md_alloc D site) \<and> (\<forall>ino. md_iget D ino) \<and> md_sysfs D = 0 \<and>
     (\<exists>z0. md_report D d = (z0 # map blank_zone [1..<NUMBER_ZONES], None)) \<and>
     (\<exists>b. md_super D d = Inr b \<and> fst (check_super D b (fresh_sbi D)) = 0)"

text \<open>What the mount does not change once the super block is read and the options are parsed.\<close>

definition settings :: "'d mount_state \<Rightarrow> (nat \<Rightarrow> zonefs_inode option) \<times> bool \<times> nat \<times> nat \<times> 'd \<times> u64 \<times> nat \<times> u16 \<times> u32 \<times> u32" where
  "settings ms = (fs_inodes (ms_fs ms), fs_rdonly (ms_fs ms), fs_blkbits (ms_fs ms), fs_nr_zones (ms_fs ms), fs_dev (ms_fs ms),
     s_mount_opts (ms_sbi ms), s_zone_sectors_shift (ms_sbi ms), s_perm (ms_sbi ms), s_uid (ms_sbi ms), s_gid (ms_sbi ms))"

definition globals :: "'d mount_state \<Rightarrow> nat \<times> int" where
  "globals ms = (ms_hodo_nr_zones ms, ms_hodo_zone_size ms)"

abbreviation blank_file :: "zonefs_sb_info \<Rightarrow> nat \<Rightarrow> zonefs_zone" where
  "blank_file s k \<equiv> zone_of_report ZTYPE_SEQ (blank_zone k) s"

lemma zone_of_report_cong:
  "s_perm s = s_perm s' \<Longrightarrow> s_uid s = s_uid s' \<Longrightarrow> s_gid s = s_gid s' \<Longrightarrow> zone_of_report t zone s = zone_of_report t zone s'"
  by (simp add: zone_of_report_def)

lemma settings_file: "settings ms' = settings ms \<Longrightarrow> blank_file (ms_sbi ms') k = blank_file (ms_sbi ms) k"
  by (rule zone_of_report_cong) (simp_all add: settings_def)

lemma blank_file_fields:
  "z_sector (blank_file s k) = k * 524288" "z_size (blank_file s k) = 268435456"
  "z_capacity (blank_file s k) = 268435456" "z_wpoffset (blank_file s k) = 0" "z_flags (blank_file s k) = 1"
  by (simp_all add: zone_of_report_def Let_def case_prod_beta zonefs_check_zone_condition_def blank_zone_def
      zonefs_zone_is_cnv_def zero_zone_def SECTOR_SHIFT_def MAX_LFS_FILESIZE_def zone_has_def zone_set_def zone_flag_defs)

lemma init_blank_zone:
  assumes "md_zone_sectors D = 524288"
  shows "init_zone D ZTYPE_SEQ (blank_zone k) ms =
    (0, blank_file (ms_sbi ms) k, count_blocks (blank_file (ms_sbi ms) k) ms)"
proof -
  let ?z = "blank_file (ms_sbi ms) k"
  have a: "zonefs_account_active (zone_view ?z m) = zone_view ?z m" for m
    by (simp add: zonefs_account_active_def Let_def blank_file_fields(4))
      (simp add: zone_has_def zone_flag_defs blank_file_fields(5))
  have v: "keep_view (zone_view ?z m) m = m" for m by (simp add: keep_view_def zone_view_def fs_view_def map_fs_def)
  show ?thesis
    using assms by (simp add: init_zone_def Let_def blank_file_fields(2) a v SECTOR_SHIFT_def) (simp add: blank_zone_def)
qed


lemma settings_simps [simp]:
  "settings (count_blocks z ms) = settings ms" "settings (put_zone t n z ms) = settings ms"
  "settings (map_fs (\<lambda>fs. fs\<lparr>fs_zones := f fs\<rparr>) ms) = settings ms"
  "globals (count_blocks z ms) = globals ms" "globals (put_zone t n z ms) = globals ms" "globals (map_fs h ms) = globals ms"
  by (simp_all add: settings_def globals_def count_blocks_def put_zone_def map_sbi_def map_fs_def)

lemma settings_without_counts: "without_counts ms' = without_counts ms \<Longrightarrow> settings ms' = settings ms"
  by (drule arg_cong [where f = settings]) (simp add: settings_def without_counts_def map_sbi_def map_fs_def)

lemma blank_zone_type [simp]: "zonefs_zone_type (blank_zone k) = ZTYPE_SEQ" "bz_len (blank_zone k) = 524288"
  "bz_start (blank_zone k) = k * 524288" "known_type (blank_zone k)"
  by (simp_all add: blank_zone_def zonefs_zone_type_def known_type_def)

lemma init_blank_zones:
  assumes "md_zone_sectors D = 524288" "n + length ks \<le> s_nr_zones (ms_sbi ms) ZTYPE_SEQ"
    and "length (fs_zones (ms_fs ms) ZTYPE_SEQ) = s_nr_zones (ms_sbi ms) ZTYPE_SEQ"
  shows "\<exists>ms'. init_zones D ZTYPE_SEQ n (map blank_zone ks) ms = (0, n + length ks, ms') \<and>
    fs_zones (ms_fs ms') ZTYPE_SEQ = take n (fs_zones (ms_fs ms) ZTYPE_SEQ) @ map (blank_file (ms_sbi ms)) ks @
      drop (n + length ks) (fs_zones (ms_fs ms) ZTYPE_SEQ) \<and>
    fs_zones (ms_fs ms') ZTYPE_CNV = fs_zones (ms_fs ms) ZTYPE_CNV \<and>
    s_nr_zones (ms_sbi ms') = s_nr_zones (ms_sbi ms) \<and> settings ms' = settings ms \<and> globals ms' = globals ms"
  using assms(2,3)
proof (induction ks arbitrary: n ms)
  case Nil
  then show ?case by (simp add: init_zones.simps)
next
  case (Cons k ks)
  let ?z = "blank_file (ms_sbi ms) k"
  let ?ms1 = "put_zone ZTYPE_SEQ n ?z (count_blocks ?z ms)"
  have nr0: "s_nr_zones (ms_sbi (count_blocks ?z ms)) = s_nr_zones (ms_sbi ms)"
    using count_blocks_simps(2) [of ms ?z] by (simp add: same_shape_def)
  then have nr: "s_nr_zones (ms_sbi ?ms1) = s_nr_zones (ms_sbi ms)" by simp
  have f: "blank_file (ms_sbi ?ms1) = blank_file (ms_sbi ms)" by (intro ext settings_file) simp
  have p: "n + 1 + length ks \<le> s_nr_zones (ms_sbi ?ms1) ZTYPE_SEQ"
    "length (fs_zones (ms_fs ?ms1) ZTYPE_SEQ) = s_nr_zones (ms_sbi ?ms1) ZTYPE_SEQ"
    using Cons.prems by (simp_all add: nr0)
  obtain ms' where r: "init_zones D ZTYPE_SEQ (n + 1) (map blank_zone ks) ?ms1 = (0, n + 1 + length ks, ms')"
    "fs_zones (ms_fs ms') ZTYPE_SEQ = take (n + 1) (fs_zones (ms_fs ?ms1) ZTYPE_SEQ) @ map (blank_file (ms_sbi ?ms1)) ks @
      drop (n + 1 + length ks) (fs_zones (ms_fs ?ms1) ZTYPE_SEQ)"
    "fs_zones (ms_fs ms') ZTYPE_CNV = fs_zones (ms_fs ?ms1) ZTYPE_CNV"
    "s_nr_zones (ms_sbi ms') = s_nr_zones (ms_sbi ?ms1)" "settings ms' = settings ?ms1" "globals ms' = globals ?ms1"
    using Cons.IH [OF p] by blast
  have n: "n < length (fs_zones (ms_fs ms) ZTYPE_SEQ)" using Cons.prems by simp
  have e: "init_zones D ZTYPE_SEQ n (map blank_zone (k # ks)) ms = (0, n + length (k # ks), ms')"
    using r(1) Cons.prems
    by (simp add: init_zones.simps(2) [of D ZTYPE_SEQ n "blank_zone k"] init_blank_zone [OF assms(1)])
  have "take (n + 1) (fs_zones (ms_fs ?ms1) ZTYPE_SEQ) = take n (fs_zones (ms_fs ms) ZTYPE_SEQ) @ [?z]"
    using n take_put [of n "fs_zones (ms_fs ms) ZTYPE_SEQ" ?z] by simp
  moreover have "drop (n + 1 + length ks) (fs_zones (ms_fs ?ms1) ZTYPE_SEQ) =
      drop (n + length (k # ks)) (fs_zones (ms_fs ms) ZTYPE_SEQ)" by simp
  ultimately show ?case using e r(2-6) unfolding f nr by (intro exI [of _ ms']) simp
qed

text \<open>The report of a blank device: the group of sequential zones has 15 files, the other none, and the
  globals get their values.\<close>

lemma adjacent_blank: "adjacent (map blank_zone [i..<j])"
proof (induction "j - i" arbitrary: i)
  case (Suc n)
  then have l: "i < j" and IH: "adjacent (map blank_zone [Suc i..<j])" by simp_all
  show ?case using IH by (simp add: upt_conv_Cons [OF l] adjacent_Cons) (simp add: hd_map)
qed simp

lemma report_sets_size:
  assumes "report_zones zs idx zd ms = Some (r, zd', ms')" "0 < idx" "0 \<le> r" "zs \<noteq> []" "\<forall>zone \<in> set zs. bz_len zone = 524288"
  shows "ms_hodo_zone_size ms' = 268435456"
  using assms
proof (induction zs arbitrary: idx zd ms)
  case (Cons zone zs)
  obtain r1 zd1 ms1 where c: "zonefs_get_zone_info_cb zone idx zd ms = Some (r1, zd1, ms1)"
    using Cons.prems(1) by (cases "zonefs_get_zone_info_cb zone idx zd ms") auto
  have "r1 \<noteq> 0 \<longrightarrow> r1 < 0" using c Cons.prems(2)
    by (auto simp: zonefs_get_zone_info_cb_def store_zone_def EIO_def split: if_splits blk_zone_type.splits)
  then have r1: "r1 = 0" using Cons.prems(1,3) c by (auto split: if_splits)
  have s1: "ms_hodo_zone_size ms1 = 268435456" using c r1 Cons.prems(2,5)
    by (auto simp: zonefs_get_zone_info_cb_def store_zone_def EIO_def split: if_splits blk_zone_type.splits)
  have n: "report_zones zs (idx + 1) zd1 ms1 = Some (r, zd', ms')" using Cons.prems(1) c r1 by simp
  show ?case
  proof (cases "zs = []")
    case True
    then show ?thesis using n s1 by simp
  next
    case False
    then show ?thesis using Cons.IH [OF n] Cons.prems(3,5) by simp
  qed
qed simp


lemma blank_report:
  assumes "blank_device D (fs_dev (ms_fs ms))" "\<And>t. s_nr_zones (ms_sbi ms) t = 0"
  obtains zd ms' where "zonefs_get_zone_info D ms = Some (0, zd, ms')" "drop 1 (zd_zones zd) = map blank_zone [1..<16]"
    "without_counts ms' = without_counts ms" "\<And>t. s_nr_zones (ms_sbi ms') t = (if t = ZTYPE_SEQ then 15 else 0)"
    "globals ms' = (16, 268435456)"
proof -
  obtain z0 where r: "md_report D (fs_dev (ms_fs ms)) = (z0 # map blank_zone [1..<16], None)"
    using assms(1) by (auto simp: blank_device_def NUMBER_ZONES_def)
  have nr: "md_nr_zones D = 16" and al: "md_alloc D Alloc_zones"
    using assms(1) by (simp_all add: blank_device_def NUMBER_ZONES_def)
  let ?zs = "z0 # map blank_zone [1..<16]"
  have g: "good_report D (fs_dev (ms_fs ms)) ?zs"
    using adjacent_blank by (simp add: good_report_def r nr list_all_iff del: upt_conv_Cons_Cons)
  have grp: "length (zone_groups a t (drop 1 ?zs)) = (if t = ZTYPE_SEQ then 15 else 0)" for a t
  proof -
    have f: "filter (of_type t) (map blank_zone ks) = (if t = ZTYPE_SEQ then map blank_zone ks else [])" for ks
      by (induction ks) auto
    have "zone_groups a ZTYPE_CNV (map blank_zone ks) = []" for ks
      by (induction ks) (simp_all add: zone_groups_Cons)
    then show ?thesis by (cases t) (simp_all add: zone_groups_def f)
  qed
  obtain zd ms' where i: "zonefs_get_zone_info D ms = Some (0, zd, ms')" "drop 1 (zd_zones zd) = drop 1 ?zs"
    "without_counts ms' = without_counts ms"
    "\<And>t. s_nr_zones (ms_sbi ms') t = length (zone_groups (sb_has_feature F_AGGRCNV (ms_sbi ms)) t (drop 1 ?zs))"
    by (rule get_zone_info_ok [OF g al assms(2)]) blast
  let ?zd = "\<lparr>zd_cnv_zone_start = 0, zd_zones = replicate 16 zero_blk_zone\<rparr>"
  obtain a where a: "report_zones (map blank_zone [1..<16]) 1 ?zd ms = Some a"
    using i(1) al
    by (cases "report_zones (map blank_zone [1..<16]) 1 ?zd ms")
      (simp_all add: zonefs_get_zone_info_def r nr Let_def zonefs_get_zone_info_cb_def)
  obtain n zd1 ms1 where q: "report_zones (map blank_zone [1..<16]) 1 ?zd ms = Some (n, zd1, ms1)"
    using a by (cases a) simp
  have e: "0 \<le> n" "ms' = ms1\<lparr>ms_hodo_nr_zones := 16\<rparr>"
    using i(1) al q
    by (auto simp: zonefs_get_zone_info_def r nr Let_def zonefs_get_zone_info_cb_def EIO_def split: if_splits)
  have "ms_hodo_zone_size ms1 = 268435456" by (rule report_sets_size [OF q _ e(1)]) auto
  then have gl: "globals ms' = (16, 268435456)" by (simp add: globals_def e(2))
  have dz: "drop 1 (zd_zones zd) = map blank_zone [1..<16]" using i(2) by simp
  show thesis by (rule that [OF i(1) dz i(3) _ gl]) (simp only: i(4) grp)
qed

text \<open>The files of the mount: nothing but 15 empty sequential files.\<close>

lemma blank_groups:
  assumes "blank_device D (fs_dev (ms_fs ms))" "\<And>t. s_nr_zones (ms_sbi ms) t = 0" "\<And>t. fs_zones (ms_fs ms) t = []"
  obtains ms' where "zonefs_init_zgroups D ms = Some (0, ms')"
    "fs_zones (ms_fs ms') ZTYPE_SEQ = map (blank_file (ms_sbi ms)) [1..<16]" "fs_zones (ms_fs ms') ZTYPE_CNV = []"
    "\<And>t. s_nr_zones (ms_sbi ms') t = (if t = ZTYPE_SEQ then 15 else 0)" "settings ms' = settings ms"
    "globals ms' = (16, 268435456)"
proof -
  obtain zd ms1 where i: "zonefs_get_zone_info D ms = Some (0, zd, ms1)" "drop 1 (zd_zones zd) = map blank_zone [1..<16]"
    "without_counts ms1 = without_counts ms" "\<And>t. s_nr_zones (ms_sbi ms1) t = (if t = ZTYPE_SEQ then 15 else 0)"
    "globals ms1 = (16, 268435456)" by (rule blank_report [OF assms(1,2)]) blast
  have D: "md_zone_sectors D = 524288" "md_alloc D (Alloc_zgroup ZTYPE_SEQ)" using assms(1) by (simp_all add: blank_device_def)
  have z1: "fs_zones (ms_fs ms1) t = []" for t by (simp add: without_counts_simps(2) [OF i(3)] assms(3))
  have c: "zonefs_init_zgroup D zd ZTYPE_CNV ms1 = (0, ms1)" by (simp add: zonefs_init_zgroup_def i(4))
  let ?m = "map_fs (\<lambda>fs. fs\<lparr>fs_zones := (fs_zones fs)(ZTYPE_SEQ := replicate 15 zero_zone)\<rparr>) ms1"
  have p: "0 + length [1..<16] \<le> s_nr_zones (ms_sbi ?m) ZTYPE_SEQ"
    "length (fs_zones (ms_fs ?m) ZTYPE_SEQ) = s_nr_zones (ms_sbi ?m) ZTYPE_SEQ" by (simp_all add: i(4))
  obtain ms' where r: "init_zones D ZTYPE_SEQ 0 (map blank_zone [1..<16]) ?m = (0, 0 + length [1..<16], ms')"
    "fs_zones (ms_fs ms') ZTYPE_SEQ = take 0 (fs_zones (ms_fs ?m) ZTYPE_SEQ) @ map (blank_file (ms_sbi ?m)) [1..<16] @
      drop (0 + length [1..<16]) (fs_zones (ms_fs ?m) ZTYPE_SEQ)"
    "fs_zones (ms_fs ms') ZTYPE_CNV = fs_zones (ms_fs ?m) ZTYPE_CNV"
    "s_nr_zones (ms_sbi ms') = s_nr_zones (ms_sbi ?m)" "settings ms' = settings ?m" "globals ms' = globals ?m"
    using init_blank_zones [OF D(1) p] by blast
  have st: "settings ?m = settings ms" using settings_without_counts [OF i(3)] by simp
  have f: "blank_file (ms_sbi ?m) = blank_file (ms_sbi ms)" by (intro ext settings_file st)
  have r0: "init_zones D ZTYPE_SEQ 0 (map blank_zone [1..<16]) ?m = (0, 15, ms')" using r(1) by simp
  have g: "zonefs_init_zgroup D zd ZTYPE_SEQ ms1 = (0, ms')"
    using r0 D(2) by (simp only: zonefs_init_zgroup_def i(2,4) Let_def) simp
  show thesis
  proof (rule that)
    show "zonefs_init_zgroups D ms = Some (0, ms')" unfolding init_zgroups_split [OF i(1)] using c g by blast
    show "fs_zones (ms_fs ms') ZTYPE_SEQ = map (blank_file (ms_sbi ms)) [1..<16]" using r(2) f by simp
    show "fs_zones (ms_fs ms') ZTYPE_CNV = []" using r(3) z1 by simp
    show "s_nr_zones (ms_sbi ms') t = (if t = ZTYPE_SEQ then 15 else 0)" for t using r(4) i(4) by simp
    show "settings ms' = settings ms" using r(5) st by simp
    show "globals ms' = (16, 268435456)" using r(6) i(5) by simp
  qed
qed


lemma check_super_keeps:
  "s_mount_opts (snd (check_super D b s)) = s_mount_opts s" "s_nr_zones (snd (check_super D b s)) = s_nr_zones s"
  "s_zone_sectors_shift (snd (check_super D b s)) = s_zone_sectors_shift s"
  by (simp_all add: check_super_def take_uid_def take_gid_def take_perm_def Let_def)

lemma drop_explicit_open_keeps:
  "s_mount_opts s AND MNTOPT_EXPLICIT_OPEN = 0 \<Longrightarrow> drop_explicit_open s = s"
  by (simp add: drop_explicit_open_def)

lemma ilog2_zone: "ilog2 524288 = 19"
  by (simp add: ilog2.simps)

text \<open>A mount of a blank device succeeds when the options are accepted.\<close>

lemma blank_fill_super:
  assumes "blank_device D (fs_dev (ms_fs ms))" "zonefs_parse_options data MNTOPT_ERRORS_RO = (0, opts)"
    and "opts AND MNTOPT_EXPLICIT_OPEN = 0"
  obtains s ms' where "zonefs_fill_super D data ms = Some (0, Some \<lparr>ri_ino = 16, ri_size = 3, ri_nlink = 3\<rparr>, ms')"
    "fs_zones (ms_fs ms') ZTYPE_SEQ = map (blank_file s) [1..<16]" "fs_zones (ms_fs ms') ZTYPE_CNV = []"
    "\<And>t. s_nr_zones (ms_sbi ms') t = (if t = ZTYPE_SEQ then 15 else 0)" "globals ms' = (16, 268435456)"
    "fs_inodes (ms_fs ms') = fs_inodes (ms_fs ms)" "fs_rdonly (ms_fs ms') = fs_rdonly (ms_fs ms)"
    "fs_blkbits (ms_fs ms') = 12" "fs_nr_zones (ms_fs ms') = 16" "fs_dev (ms_fs ms') = fs_dev (ms_fs ms)"
    "s_mount_opts (ms_sbi ms') = opts" "s_zone_sectors_shift (ms_sbi ms') = 19"
    "ms_zgroup_inode ms' = [ZTYPE_SEQ \<mapsto> 18]"
proof -
  have D: "md_is_zoned D" "md_zone_sectors D = 524288" "md_blkbits D = 12" "md_nr_zones D = 16" "\<And>site. md_alloc D site"
    "\<And>i. md_iget D i" "md_sysfs D = 0" using assms(1) by (simp_all add: blank_device_def NUMBER_ZONES_def)
  obtain b where b: "md_super D (fs_dev (ms_fs ms)) = Inr b" "fst (check_super D b (fresh_sbi D)) = 0"
    using assms(1) by (auto simp: blank_device_def)
  define s where "s = snd (check_super D b (fresh_sbi D))"
  have cs: "check_super D b (fresh_sbi D) = (0, s)" using b(2) by (simp add: s_def prod_eq_iff)
  have sk: "s_mount_opts s = MNTOPT_ERRORS_RO" "s_nr_zones s t = 0" "s_zone_sectors_shift s = 19" for t
    by (simp_all add: s_def check_super_keeps fresh_sbi_def D(2) ilog2_zone)
  define ms1 where "ms1 = map_sbi (\<lambda>_. s) (fresh_super D ms)"
  define ms2 where "ms2 = map_sbi drop_explicit_open (map_sbi (\<lambda>s. s\<lparr>s_mount_opts := opts\<rparr>) ms1)"
  have fd: "fs_dev (ms_fs (fresh_super D ms)) = fs_dev (ms_fs ms)" "ms_sbi (fresh_super D ms) = fresh_sbi D"
    by (simp_all add: fresh_super_def map_fs_def)
  have r: "zonefs_read_super D (fresh_super D ms) = (0, ms1)"
    by (simp add: zonefs_read_super_def D(5) fd b(1) cs ms1_def)
  have s2: "ms_sbi ms2 = s\<lparr>s_mount_opts := opts\<rparr>"
    by (simp add: ms2_def ms1_def drop_explicit_open_keeps assms(3))
  have f2: "fs_zones (ms_fs ms2) t = []" "fs_dev (ms_fs ms2) = fs_dev (ms_fs ms)" "ms_zgroup_inode ms2 = (\<lambda>_. None)"
    "fs_inodes (ms_fs ms2) = fs_inodes (ms_fs ms)" "fs_rdonly (ms_fs ms2) = fs_rdonly (ms_fs ms)"
    "fs_blkbits (ms_fs ms2) = 12" "fs_nr_zones (ms_fs ms2) = 16" for t
    by (simp_all add: ms2_def ms1_def fresh_super_def map_sbi_def map_fs_def D)
  have n2: "s_nr_zones (ms_sbi ms2) t = 0" for t by (simp add: s2 sk(2))
  have b2: "blank_device D (fs_dev (ms_fs ms2))" using assms(1) f2(2) by simp
  obtain ms3 where g: "zonefs_init_zgroups D ms2 = Some (0, ms3)"
    "fs_zones (ms_fs ms3) ZTYPE_SEQ = map (blank_file (ms_sbi ms2)) [1..<16]" "fs_zones (ms_fs ms3) ZTYPE_CNV = []"
    "\<And>t. s_nr_zones (ms_sbi ms3) t = (if t = ZTYPE_SEQ then 15 else 0)" "settings ms3 = settings ms2"
    "globals ms3 = (16, 268435456)" by (rule blank_groups [OF b2 n2 f2(1)]) blast
  note S = g(5) [unfolded settings_def]
  have nz: "fs_nr_zones (ms_fs ms3) = 16" using S f2(7) by simp
  have zg: "ms_zgroup_inode ms3 = (\<lambda>_. None)" using init_zgroups_kept(2) [OF g(1) f2(1)] f2(3) by simp
  let ?ms4 = "ms3\<lparr>ms_zgroup_inode := [ZTYPE_SEQ \<mapsto> 18]\<rparr>"
  have zi: "zonefs_get_zgroup_inodes D ms3 = (0, ?ms4)"
    by (simp add: zonefs_get_zgroup_inodes_def g(4) zonefs_get_zgroup_inode_def D(6) zgroup_ino_def nz zg Let_def)
  let ?ms' = "(kobj_calls [Kobject_init_and_add] ?ms4)\<lparr>ms_registered := True\<rparr>"
  have root: "make_root D (ms_sbi ms3) = \<lparr>ri_ino = 16, ri_size = 3, ri_nlink = 3\<rparr>"
    by (simp add: make_root_def root_entries_def g(4) D(4))
  have p: "zonefs_parse_options data (s_mount_opts (ms_sbi ms1)) = (0, opts)" using assms(2) sk(1) by (simp add: ms1_def)
  have "fill_groups D ms2 = Some (0, Some \<lparr>ri_ino = 16, ri_size = 3, ri_nlink = 3\<rparr>, ?ms')"
    by (simp add: fill_groups_def g(1) zi zonefs_sysfs_register_def D(5,7) root)
  then have "zonefs_fill_super D data ms = Some (0, Some \<lparr>ri_ino = 16, ri_size = 3, ri_nlink = 3\<rparr>, ?ms')"
    by (simp add: zonefs_fill_super_def D(1,5) r p ms2_def [symmetric])
  then show thesis
  proof (rule that)
    show "fs_zones (ms_fs ?ms') ZTYPE_SEQ = map (blank_file (ms_sbi ms2)) [1..<16]" using g(2) by simp
    show "s_nr_zones (ms_sbi ?ms') t = (if t = ZTYPE_SEQ then 15 else 0)" for t using g(4) by simp
    show "globals ?ms' = (16, 268435456)" using g(6) by (simp add: globals_def kobj_calls_def)
  qed (use S f2 g(3) s2 sk(3) in simp_all)
qed


section \<open>The mounted file system\<close>

text \<open>The device's data: every zone that has a file is empty.\<close>

definition blank_zones :: "(nat \<Rightarrow> int) \<Rightarrow> (nat \<Rightarrow> bool) \<Rightarrow> ('d \<Rightarrow> bool) \<Rightarrow> ('d \<Rightarrow> nat \<Rightarrow> bytes) \<Rightarrow> 'd \<Rightarrow> bool" where
  "blank_zones cap zstart dinv zdat d \<longleftrightarrow> dinv d \<and>
     (\<forall>i < ZONE_FILES. zdat d (file_sector i) = [] \<and> cap (file_sector i) = int ZONE_SIZE \<and> zstart (file_sector i))"

text \<open>
  What a mount of a blank device starts from: a healthy device, a kernel that mounts what
  \<open>zonefs_fill_super\<close> has filled, accepted options without \<open>explicit-open\<close>, a module just loaded, and
  a mount point in \<open>/proc/self/mountinfo\<close> whose name is short enough for the paths of the zone files.
\<close>

definition kernel_mounts :: "'d mount_bdev \<Rightarrow> bool" where
  "kernel_mounts mount_bdev \<longleftrightarrow>
     (\<forall>fill ms root ms'. fill ms = Some (0, Some root, ms') \<longrightarrow> mount_bdev fill ms = Some (Inr root, ms'))"

definition mounted_at :: "'z kernel \<Rightarrow> string \<Rightarrow> 'y hodo_state \<Rightarrow> bool" where
  "mounted_at K mnt g \<longleftrightarrow> length mnt \<le> 8 \<and> (case k_mountinfo K of None \<Rightarrow> False
     | Some chunks \<Rightarrow> find_mount_point K chunks (mount_point_path g) = Some mnt)"

definition blank_mount ::
  "'d blkdev \<Rightarrow> 'd iomap_lib \<Rightarrow> (nat \<Rightarrow> int) \<Rightarrow> (nat \<Rightarrow> bool) \<Rightarrow> ('d \<Rightarrow> bool) \<Rightarrow> ('d \<Rightarrow> nat \<Rightarrow> bytes) \<Rightarrow>
   'd zonefs_state kernel \<Rightarrow> string \<Rightarrow> 'd mount_dev \<Rightarrow> string option \<Rightarrow> 'd zonefs_state hodo_state \<Rightarrow> 'd mount_state \<Rightarrow> bool"
where
  "blank_mount B L cap zstart dinv zdat K mnt D data g ms \<longleftrightarrow>
     zone_dev B L cap zstart dinv zdat \<and> blank_device D (fs_dev (ms_fs ms)) \<and>
     blank_zones cap zstart dinv zdat (fs_dev (ms_fs ms)) \<and>
     fs_inodes (ms_fs ms) = (\<lambda>_. None) \<and> \<not> fs_rdonly (ms_fs ms) \<and>
     fst (zonefs_parse_options data MNTOPT_ERRORS_RO) = 0 \<and>
     snd (zonefs_parse_options data MNTOPT_ERRORS_RO) AND MNTOPT_EXPLICIT_OPEN = 0 \<and>
     mapping_info g = blank_mapping \<and> mounted_at K mnt g \<and> k_stack K 3 = zero_block"

lemma blank_files_ok:
  assumes dev: "zone_dev B L cap zstart dinv zdat" and blank: "blank_zones cap zstart dinv zdat (fs_dev fs)"
    and z: "fs_zones fs ZTYPE_SEQ = map (blank_file s) [1..<16]" "s_nr_zones (fs_sbi fs) ZTYPE_SEQ = 15"
    and fs: "fs_inodes fs = (\<lambda>_. None)" "\<not> fs_rdonly fs" "fs_blkbits fs = 12" "s_zone_sectors_shift (fs_sbi fs) = 19"
      "s_mount_opts (fs_sbi fs) AND MNTOPT_EXPLICIT_OPEN = 0"
  shows "zonefs_ok B L cap zstart dinv zdat fs"
proof -
  have nth: "fs_zones fs ZTYPE_SEQ ! i = blank_file s (Suc i)" if "i < 15" for i using that z(1) by simp
  have sec: "z_sector (blank_file s (Suc i)) = file_sector i" for i by (simp add: blank_file_fields(1) file_sector_def)
  have flag: "\<not> zone_has ZONE_ACTIVE (blank_file s k)" "\<not> zone_has ZONE_FLAG_OPEN (blank_file s k)"
    "\<not> zone_has ZONE_OFFLINE (blank_file s k)" "\<not> zone_has ZONE_READONLY (blank_file s k)"
    "\<not> zone_has ZONE_CNV (blank_file s k)" for k
    by (simp_all add: zone_has_def zone_flag_defs blank_file_fields(5))
  have ino: "c_inode (fs_file i fs) = new_zone_inode (zone_ino (blank_file s (Suc i)) fs) (blank_file s (Suc i))" if "i < 15" for i
    using that by (simp add: fs_file_def Let_def nth zone_file_inode_def fs(1) fs_view_def)
  have size: "i_size (c_inode (fs_file i fs)) = 0" "i_flags (c_inode (fs_file i fs)) = 0" if "i < 15" for i
    unfolding ino [OF that] by (simp_all add: new_zone_inode_def blank_file_fields(4))
  have b: "dinv (fs_dev fs)" "zdat (fs_dev fs) (file_sector i) = []" "cap (file_sector i) = 268435456" "zstart (file_sector i)"
    if "i < 15" for i using blank that by (simp_all add: blank_zones_def const_simps)
  have "zone_synced cap zstart dinv zdat (fs_file i fs)" if i: "i < 15" for i
    using size [OF i] b [OF i] flag [of "Suc i"] fs
    by (simp add: zone_synced_def zfile_ok_def zfile_bounds_def zfile_flags_def zone_is_active_def zonefs_zone_is_seq_def
        zonefs_zone_is_cnv_def sbi_has_def inode_immutable_def nth [OF i] sec blank_file_fields(2-))
  then show ?thesis unfolding zonefs_ok_def using dev z nth sec b(3) fs(4) by (simp add: const_simps)
qed

text \<open>What the thread finds after a mount of a blank device.\<close>

lemma blank_mount_fills:
  assumes m: "blank_mount B L cap zstart dinv zdat K mnt D data g ms" and k: "kernel_mounts mount_bdev"
  obtains ms' where "mount_bdev (zonefs_fill_super D data) ms = Some (Inr \<lparr>ri_ino = 16, ri_size = 3, ri_nlink = 3\<rparr>, ms')"
    "zonefs_ok B L cap zstart dinv zdat (zonefs (mount_globals ms' g))"
    "fresh_mount (zonefs_kernel B L mnt K) mnt (zonefs_data zdat) (mount_globals ms' g)"
    "zonefs_data zdat (zonefs (mount_globals ms' g)) swap_zone = []" "ms_zgroup_inode ms' = [ZTYPE_SEQ \<mapsto> 18]"
proof -
  note M = m [unfolded blank_mount_def]
  obtain opts where o: "zonefs_parse_options data MNTOPT_ERRORS_RO = (0, opts)" "opts AND MNTOPT_EXPLICIT_OPEN = 0"
    using M by (cases "zonefs_parse_options data MNTOPT_ERRORS_RO") auto
  have D: "blank_device D (fs_dev (ms_fs ms))" using M by blast
  obtain s ms' where f: "zonefs_fill_super D data ms = Some (0, Some \<lparr>ri_ino = 16, ri_size = 3, ri_nlink = 3\<rparr>, ms')"
    "fs_zones (ms_fs ms') ZTYPE_SEQ = map (blank_file s) [1..<16]" "fs_zones (ms_fs ms') ZTYPE_CNV = []"
    "\<And>t. s_nr_zones (ms_sbi ms') t = (if t = ZTYPE_SEQ then 15 else 0)" "globals ms' = (16, 268435456)"
    "fs_inodes (ms_fs ms') = fs_inodes (ms_fs ms)" "fs_rdonly (ms_fs ms') = fs_rdonly (ms_fs ms)"
    "fs_blkbits (ms_fs ms') = 12" "fs_nr_zones (ms_fs ms') = 16" "fs_dev (ms_fs ms') = fs_dev (ms_fs ms)"
    "s_mount_opts (ms_sbi ms') = opts" "s_zone_sectors_shift (ms_sbi ms') = 19"
    "ms_zgroup_inode ms' = [ZTYPE_SEQ \<mapsto> 18]" by (rule blank_fill_super [OF D o]) blast
  have ok: "zonefs_ok B L cap zstart dinv zdat (ms_fs ms')"
    by (rule blank_files_ok [where s = s]) (use M f o(2) in simp_all)
  have z: "zonefs_data zdat (ms_fs ms') i = []" if "i < ZONE_FILES" for i
    using M that f(10) by (simp add: zonefs_data_def blank_zones_def)
  have fr: "fresh_mount (zonefs_kernel B L mnt K) mnt (zonefs_data zdat) (mount_globals ms' g)"
    using M f(5) z by (auto simp: fresh_mount_def loaded_module_def mount_globals_def globals_def const_simps mounted_at_def find_mount_point_zonefs split: option.splits)
  show thesis
    by (rule that [OF _ _ fr]) (use k f(1,13) ok z in \<open>simp_all add: kernel_mounts_def mount_globals_def swap_zone_def const_simps\<close>)
qed


text \<open>C22: mounting a blank device brings up the file system. \<open>zonefs_mount\<close> returns the root inode,
  whose number is the first logical number; behind it, \<open>hodo_init\<close> has established the invariant of the
  block store over the mounted zonefs, and the store holds one inode, that of an empty root directory.\<close>

theorem mount_starts_file_system:
  assumes "blank_mount B L cap zstart dinv zdat K mnt D data g ms" "kernel_mounts mount_bdev"
  shows "\<exists>ms' s root. zonefs_mount mount_bdev True (zonefs_kernel B L mnt K) D data g ms =
      Some (Inr \<lparr>ri_ino = 16, ri_size = 3, ri_nlink = 3\<rparr>, ms', s) \<and> ms_fs ms' = zonefs s \<and>
    hodo_ok B L cap zstart dinv zdat mnt s \<and> blocks zdat s = [16 \<mapsto> root] \<and> inode_ok (blocks zdat s) 16 root \<and>
    hi_type root = HODO_TYPE_DIR \<and> view_dirents (dir_view (blocks zdat s) root) = []"
proof -
  obtain ms1 where m: "mount_bdev (zonefs_fill_super D data) ms = Some (Inr \<lparr>ri_ino = 16, ri_size = 3, ri_nlink = 3\<rparr>, ms1)"
    "zonefs_ok B L cap zstart dinv zdat (zonefs (mount_globals ms1 g))"
    "fresh_mount (zonefs_kernel B L mnt K) mnt (zonefs_data zdat) (mount_globals ms1 g)"
    by (rule blank_mount_fills [OF assms])
  have st: "k_stack (zonefs_kernel B L mnt K) 3 = zero_block" using assms(1) by (simp add: blank_mount_def)
  obtain s root where s: "hodo_init (zonefs_kernel B L mnt K) (mount_globals ms1 g) = Some s"
    "hodo_ok B L cap zstart dinv zdat mnt s" "blocks zdat s = [16 \<mapsto> root]" "inode_ok (blocks zdat s) 16 root"
    "dir_view (blocks zdat s) root = replicate 10 None" "hi_type root = HODO_TYPE_DIR"
    using zonefs.hodo_init_fresh [OF m(2,3) st] by metis
  have "view_dirents (dir_view (blocks zdat s) root) = []" unfolding s(5) by (simp add: view_dirents_def view_blocks_def)
  moreover have "zonefs_mount mount_bdev True (zonefs_kernel B L mnt K) D data g ms =
      Some (Inr \<lparr>ri_ino = 16, ri_size = 3, ri_nlink = 3\<rparr>, map_fs (\<lambda>_. zonefs s) ms1, s)"
    by (simp add: zonefs_mount_def m(1) hodo_late_init_thread_def s(1))
  moreover have "ms_fs (map_fs (\<lambda>_. zonefs s) ms1) = zonefs s" by (simp add: map_fs_def)
  ultimately show ?thesis using s(2-4,6) by blast
qed

text \<open>C1: the mounted file system implements the abstract one. After mounting a blank device, every
  run of creations of files and directories, look-ups, listings, writes and reads whose operations the
  abstract file system allows, and that writes less than one zone of blocks, has only results that the
  abstract file system permits: look-ups and listings show exactly what was created, reads return the
  bytes last written, new files and directories get numbers that are not in use. The blocks of the store
  represent the abstract state, also over the garbage collections that making directories triggers.\<close>

theorem mounted_fs_refines_spec:
  assumes "blank_mount B L cap zstart dinv zdat K mnt D data g ms" "kernel_mounts mount_bdev"
    and "zonefs_mount mount_bdev True (zonefs_kernel B L mnt K) D data g ms = Some (ret, ms', s)"
    and "clear_stack K" "dots_ok E"
    and "hodo_run (zonefs_kernel B L mnt K) E s tr s'" "allowed root_only tr" "total_cost tr < BLOCKS_PER_ZONE"
  shows "\<exists>A. spec_run root_only tr = Some A \<and> represents (blocks zdat s') A \<and> closed_afs A \<and>
    hodo_ok B L cap zstart dinv zdat mnt s'"
proof -
  obtain ms1 where m: "mount_bdev (zonefs_fill_super D data) ms = Some (Inr \<lparr>ri_ino = 16, ri_size = 3, ri_nlink = 3\<rparr>, ms1)"
    "zonefs_ok B L cap zstart dinv zdat (zonefs (mount_globals ms1 g))"
    "fresh_mount (zonefs_kernel B L mnt K) mnt (zonefs_data zdat) (mount_globals ms1 g)"
    "zonefs_data zdat (zonefs (mount_globals ms1 g)) swap_zone = []"
    by (rule blank_mount_fills [OF assms(1,2)])
  have st: "k_stack K 3 = zero_block" using assms(1) by (simp add: blank_mount_def)
  have i: "hodo_init (zonefs_kernel B L mnt K) (mount_globals ms1 g) = Some s"
    using assms(3) m(1) by (auto simp: zonefs_mount_def hodo_late_init_thread_def split: bind_splits)
  have c: "total_cost tr + 0 < BLOCKS_PER_ZONE" using assms(8) by simp
  show ?thesis by (rule run_from_init [OF m(2-4) st i assms(4-7) c]) (auto simp: fs_rel_def)
qed


section \<open>A concrete blank device\<close>

definition blank_md :: "ram mount_dev" where
  "blank_md = \<lparr>md_is_zoned = True, md_nr_zones = 16, md_zone_sectors = 524288, md_blkbits = 12, md_max_open = 0,
     md_max_active = 0, md_report = (\<lambda>_. (demo_md_zone 0 TYPE_SEQWRITE_REQ COND_FULL # map blank_zone [1..<NUMBER_ZONES], None)),
     md_super = (\<lambda>_. Inr demo_super), md_crc32 = (\<lambda>_. 0), md_kuid = (\<lambda>u. u), md_kgid = (\<lambda>g. g), md_iget = (\<lambda>_. True),
     md_sysfs = 0, md_alloc = (\<lambda>_. True), md_blk = ram_blk\<rparr>"

definition blank_ms :: "ram mount_state" where
  "blank_ms = \<lparr>ms_fs = \<lparr>fs_zones = (\<lambda>_. []), fs_inodes = (\<lambda>_. None), fs_sbi = fresh_sbi blank_md, fs_rdonly = False,
      fs_blkbits = 12, fs_nr_zones = 0, fs_dev = (\<lambda>_. [])\<rparr>,
     ms_maxbytes = 0, ms_zgroup_inode = (\<lambda>_. None), ms_hodo_nr_zones = 0, ms_hodo_zone_size = 0,
     ms_info = False, ms_registered = False, ms_kobj = []\<rparr>"

definition demo_mount_bdev :: "ram mount_bdev" where
  "demo_mount_bdev fill ms = (case fill ms of None \<Rightarrow> None
     | Some (e, None, ms') \<Rightarrow> Some (Inl e, ms') | Some (e, Some root, ms') \<Rightarrow> Some (Inr root, ms'))"

lemma demo_kernel_mounts: "kernel_mounts demo_mount_bdev"
  by (simp add: kernel_mounts_def demo_mount_bdev_def)

lemma demo_blank_mount:
  "blank_mount ram_blk ram_lib ram_cap ram_start ram_inv (\<lambda>d. d) demo_kernel ''/mnt'' blank_md None demo_state blank_ms"
proof -
  have f: "F_AGGRCNV AND NOT F_DEFINED_FEATURES = 0" "F_AGGRCNV AND F_UID = 0" "F_AGGRCNV AND F_GID = 0"
    "F_AGGRCNV AND F_PERM = 0" by (simp_all add: feature_defs)
  have c: "fst (check_super blank_md demo_super s) = 0" for s
    by (simp add: check_super_def demo_super_fields Let_def take_uid_def take_gid_def take_perm_def sb_has_feature_def f)
      (simp add: blank_md_def)
  have b: "blank_device blank_md d" for d
    using c by (simp add: blank_device_def) (simp add: blank_md_def NUMBER_ZONES_def)
  have z: "blank_zones ram_cap ram_start ram_inv (\<lambda>d. d) (\<lambda>_. [])"
    by (simp add: blank_zones_def ram_inv_def ram_cap_def ram_start_def file_sector_def ram_zone_sectors_def SECTOR_SHIFT_def const_simps)
  have m: "mounted_at demo_kernel ''/mnt'' demo_state"
    using demo_mountinfo by (simp add: mounted_at_def demo_state_def demo_kernel_def)
  show ?thesis unfolding blank_mount_def
    using ram_dev.zone_dev_axioms b z m
    by (simp add: blank_ms_def demo_state_def demo_kernel_def zonefs_parse_options_def mntopt_values)
qed

theorem mount_starts_file_system_witness:
  "\<exists>ms' s root. zonefs_mount demo_mount_bdev True demo_K blank_md None demo_state blank_ms =
     Some (Inr \<lparr>ri_ino = 16, ri_size = 3, ri_nlink = 3\<rparr>, ms', s) \<and> demo_ok s \<and> blocks (\<lambda>d. d) s = [16 \<mapsto> root]"
  using mount_starts_file_system [OF demo_blank_mount demo_kernel_mounts] by blast

theorem mounted_fs_refines_spec_witness:
  "\<exists>ret ms' s k n s'. zonefs_mount demo_mount_bdev True demo_K blank_md None demo_state blank_ms = Some (ret, ms', s) \<and>
     hodo_run demo_K demo_env s (demo_trace k n) s' \<and>
     spec_run root_only (demo_trace k n) = Some (demo_afs k n) \<and> represents (blocks (\<lambda>d. d) s') (demo_afs k n)"
proof -
  obtain ms1 where m: "demo_mount_bdev (zonefs_fill_super blank_md None) blank_ms =
      Some (Inr \<lparr>ri_ino = 16, ri_size = 3, ri_nlink = 3\<rparr>, ms1)"
    "zonefs_ok ram_blk ram_lib ram_cap ram_start ram_inv (\<lambda>d. d) (zonefs (mount_globals ms1 demo_state))"
    "fresh_mount demo_K ''/mnt'' (zonefs_data (\<lambda>d. d)) (mount_globals ms1 demo_state)"
    "zonefs_data (\<lambda>d. d) (zonefs (mount_globals ms1 demo_state)) swap_zone = []"
    by (rule blank_mount_fills [OF demo_blank_mount demo_kernel_mounts])
  obtain s where s: "hodo_init demo_K (mount_globals ms1 demo_state) = Some s"
    "fs_rel ram_blk ram_lib ram_cap ram_start ram_inv (\<lambda>d. d) ''/mnt'' (BLOCKS_PER_ZONE - 1) s root_only"
    by (rule init_rel [OF m(2,3) demo_env_ok(3) m(4)])
  obtain k n s' where r: "hodo_run demo_K demo_env s (demo_trace k n) s'" "allowed root_only (demo_trace k n)"
    "spec_run root_only (demo_trace k n) = Some (demo_afs k n)" by (rule demo_run_from [OF s(2)])
  have z: "zonefs_mount demo_mount_bdev True demo_K blank_md None demo_state blank_ms =
      Some (Inr \<lparr>ri_ino = 16, ri_size = 3, ri_nlink = 3\<rparr>, map_fs (\<lambda>_. zonefs s) ms1, s)"
    by (simp add: zonefs_mount_def m(1) hodo_late_init_thread_def s(1))
  have c: "total_cost (demo_trace k n) < BLOCKS_PER_ZONE" by (simp add: demo_cost BLOCKS_PER_ZONE_eq)
  from mounted_fs_refines_spec [OF demo_blank_mount demo_kernel_mounts z demo_env_ok(2,1) r(1,2) c]
  show ?thesis using z r by auto
qed


section \<open>Mounting again after the module was loaded anew\<close>

text \<open>
  \<open>hodo_init\<close> looks for a stored mapping table in zone file 0, where no operation of hodo writes. A
  module that was loaded anew therefore takes every device for a fresh one and writes a root inode to
  the first block of zone file 1. When that zone has data already, zonefs refuses the write, the result
  is ignored, and the root's number stands for the block that is there.
\<close>

context zone_store
begin

lemma create_root_refused:
  assumes z: "zinv (zonefs s)" and cfg: "config_ok mnt s"
    and m: "mapping_info s = blank_mapping\<lparr>starting_logical_number := 16\<rparr>"
    and e: "4096 \<le> length (zdata (zonefs s) 1)" and st: "length (k_stack K 3) = 4096"
  obtains s' where "create_root K s = Some s'" "zinv (zonefs s')" "config_ok mnt s'" "zdata (zonefs s') = zdata (zonefs s)"
    "contents zdata s' = [16 \<mapsto> take 4096 (zdata (zonefs s) 1)]" "\<And>j. lbit (mapping_info s') j \<longleftrightarrow> j = 0"
    "wp (mapping_info s') = mk_pos 1 1"
proof -
  define m1 where "m1 = (blank_mapping\<lparr>starting_logical_number := 16\<rparr>)\<lparr>wp := mk_pos 1 0, invalid_count := 0,
      valid_count := 0, swap_wp := mk_pos (hodo_nr_zones s - 2) 0\<rparr>"
  let ?m = "set_lbit 0 m1"
  let ?s = "s\<lparr>mapping_info := ?m\<rparr>"
  have lb: "\<not> lbit m1 j" for j by (simp add: m1_def lbit_def blank_mapping_def)
  have n: "hodo_get_next_logical_number m1 = Some (16, ?m)"
    using next_logical_number_at [of 0 m1] lb by (simp add: NUMBER_MAPPING_TABLE_ENTRY_eq m1_def)
  have b: "\<And>q. \<not> gvalid ?m q" "\<And>i. zone_id (mapping_table ?m i) = 0" "starting_logical_number ?m = 16" "wp ?m = mk_pos 1 0"
    "\<And>i. zone_id (mapping_table m1 i) = 0" "starting_logical_number m1 = 16" "wp m1 = mk_pos 1 0"
    by (simp_all add: gvalid_def gbit_def m1_def blank_mapping_def)
  obtain root where root: "fill_hinode K (k_stack K 3) 0 [0x2F] 1 16 S_IFDIR = Some root"
    by (simp add: fill_hinode_def HODO_MAX_NAME_LEN_def)
  note r = fill_hinode_props [OF root st]
  have mok: "mapping_ok (zdata (zonefs ?s)) (mapping_info ?s)" using fresh_mapping_ok [of ?m] b by simp
  have ti: "table_index ?m l = unat (l - 16)" for l by (simp add: table_index_def b(6))
  have ne: "zdata (zonefs s) 1 \<noteq> []" using e by auto
  have w: "unat (zone_id (wp (mapping_info ?s))) < ZONE_FILES"
    "pos_off (wp (mapping_info ?s)) < length (zdata (zonefs ?s) (unat (zone_id (wp (mapping_info ?s)))))"
    using ne by (simp_all add: b(7) pos_off_def const_simps)
  have l: "(16 :: u32) \<noteq> 0" "table_index (mapping_info ?s) 16 < NUMBER_MAPPING_TABLE_ENTRY"
    "lbit (mapping_info ?s) (table_index (mapping_info ?s) 16)"
    by (simp_all add: ti NUMBER_MAPPING_TABLE_ENTRY_eq)
  have zc: "zinv (zonefs ?s)" "config_ok mnt ?s" using z cfg by (simp_all add: config_ok_def)
  obtain ret s' where s': "hodo_write_struct K root 4096 16 ?s = Some (ret, stamped 16 root, 16, s')"
    "zinv (zonefs s')" "config_ok mnt s'" "zdata (zonefs s') = zdata (zonefs ?s)"
    "moves ?m 0 (mk_pos 1 0) (mapping_info s')" "wp (mapping_info s') = next_pos (mk_pos 1 0)"
    by (rule write_struct_refused [OF zc mok w l r(1)]) (simp add: ti b(7))
  have run: "create_root K s = Some s'"
    using n root s'(1) m by (simp add: create_root_def m1_def HODO_DATABLOCK_SIZE_def)
  note mv = s'(5) [unfolded moves_def]
  have tab: "mapping_table (mapping_info s') = (mapping_table ?m)(0 := mk_pos 1 0)"
    "starting_logical_number (mapping_info s') = 16" "\<And>j. lbit (mapping_info s') j \<longleftrightarrow> lbit ?m j \<or> j = 0"
    using mv b(6) by simp_all
  have c: "contents zdata s' = [16 \<mapsto> take 4096 (zdata (zonefs s) 1)]"
  proof
    fix l :: u32
    have i: "unat (l - 16) = 0 \<longleftrightarrow> l = 16" by (metis eq_iff_diff_eq_0 unat_eq_0)
    have "live (mapping_info s') (unat (l - 16)) \<longleftrightarrow> l = 16"
      using i b(5) by (auto simp: live_def tab(1) NUMBER_MAPPING_TABLE_ENTRY_eq)
    then show "contents zdata s' l = [16 \<mapsto> take 4096 (zdata (zonefs s) 1)] l"
      by (simp add: contents_def lookup_def table_index_def tab(1,2) s'(4) blk_def pos_off_def get_bytes_def)
  qed
  show thesis
  proof (rule that [OF run s'(2,3) _ c])
    show "zdata (zonefs s') = zdata (zonefs s)" using s'(4) by simp
    show "lbit (mapping_info s') j \<longleftrightarrow> j = 0" for j using tab(3) lb by simp
    show "wp (mapping_info s') = mk_pos 1 1" using s'(6) by (simp add: next_pos_def mk_pos_def BLOCKS_PER_ZONE_eq)
  qed
qed

end


text \<open>C23: mounting again after the module was loaded anew loses the files. The module has no mapping
  table, and finds none on the device; a zone 1 with a block of data is left as it is. Initialisation then
  ends with a single number in use, 16, for whatever the first block of that zone holds, and with the
  write pointer behind that block: no block of the former store has a number any more.\<close>

theorem reload_forgets_files:
  assumes "zonefs_ok B L cap zstart dinv zdat (zonefs s)" "loaded_module (zonefs_kernel B L mnt K) mnt (zonefs_data zdat) s"
    and "HODO_DATABLOCK_SIZE \<le> length (zonefs_data zdat (zonefs s) 1)" "length (k_stack K 3) = HODO_DATABLOCK_SIZE"
  shows "\<exists>s'. hodo_init (zonefs_kernel B L mnt K) s = Some s' \<and> zonefs_data zdat (zonefs s') = zonefs_data zdat (zonefs s) \<and>
    blocks zdat s' = [16 \<mapsto> take HODO_DATABLOCK_SIZE (zonefs_data zdat (zonefs s) 1)] \<and>
    (\<forall>j. lbit (mapping_info s') j \<longleftrightarrow> j = 0) \<and> wp (mapping_info s') = mk_pos 1 1"
proof -
  obtain s2 where s2: "hodo_init (zonefs_kernel B L mnt K) s = create_root (zonefs_kernel B L mnt K) s2"
    "zonefs_ok B L cap zstart dinv zdat (zonefs s2)" "config_ok mnt s2"
    "zonefs_data zdat (zonefs s2) = zonefs_data zdat (zonefs s)"
    "mapping_info s2 = blank_mapping\<lparr>starting_logical_number := 16\<rparr>"
    by (rule zonefs.hodo_init_loaded [OF assms(1,2)])
  have e: "4096 \<le> length (zonefs_data zdat (zonefs s2) 1)" "length (k_stack (zonefs_kernel B L mnt K) 3) = 4096"
    using assms(3,4) s2(4) by (simp_all add: HODO_DATABLOCK_SIZE_def)
  show ?thesis
    by (rule zonefs.create_root_refused [OF s2(2,3,5) e]) (simp add: s2(1,4) HODO_DATABLOCK_SIZE_def)
qed

theorem reload_forgets_files_witness:
  "\<exists>s s' root. demo_ok s \<and> blocks (\<lambda>d. d) s = [16 \<mapsto> root] \<and>
     hodo_init demo_K (s\<lparr>mapping_info := blank_mapping, mount_point_path := []\<rparr>) = Some s' \<and>
     (\<forall>l. l \<noteq> 16 \<longrightarrow> blocks (\<lambda>d. d) s' l = None) \<and> wp (mapping_info s') = mk_pos 1 1"
proof -
  have st: "k_stack demo_K 3 = zero_block" by (simp add: demo_kernel_def)
  obtain s root where s: "demo_ok s" "blocks (\<lambda>d. d) s = [16 \<mapsto> root]" "room (\<lambda>d. d) s (BLOCKS_PER_ZONE - 1)"
    "wp (mapping_info s) = mk_pos 1 1"
    "\<And>z. z \<noteq> 1 \<Longrightarrow> zonefs_data (\<lambda>d. d) (zonefs s) z = zonefs_data (\<lambda>d. d) (zonefs demo_state) z"
    using zonefs.hodo_init_fresh [OF demo_zonefs_ok demo_fresh st] by metis
  let ?s = "s\<lparr>mapping_info := blank_mapping, mount_point_path := []\<rparr>"
  have z: "zonefs_ok ram_blk ram_lib ram_cap ram_start ram_inv (\<lambda>d. d) (zonefs ?s)" and c: "config_ok ''/mnt'' s"
    using s(1) by (simp_all add: store_ok_def)
  have l: "length (zonefs_data (\<lambda>d. d) (zonefs s) 1) = 4096"
    using s(3,4) by (simp add: wp_room_def at_end_def BLOCKS_PER_ZONE_eq mk_pos_def pos_off_def HODO_DATABLOCK_SIZE_def)
  have "loaded_module demo_K ''/mnt'' (zonefs_data (\<lambda>d. d)) ?s"
    using demo_fresh c s(5) [of 0] by (simp add: fresh_mount_def loaded_module_def config_ok_def demo_state_def split: option.splits)
  from reload_forgets_files [OF z this] show ?thesis using s(1,2) l by (auto simp: HODO_DATABLOCK_SIZE_def demo_kernel_def)
qed


section \<open>The numbers of the first files\<close>

text \<open>
  Logical numbers begin at the number of zones, which is the root's inode number. The numbers behind it
  are those that zonefs has given to the directories of zones: the second file or directory that is
  created has the inode number of \<open>seq\<close>.
\<close>

lemma second_number_is_seq:
  assumes "blank_mount B L cap zstart dinv zdat K mnt D data g ms" "kernel_mounts mount_bdev"
  obtains ret ms' s m1 m2 where
    "zonefs_mount mount_bdev True (zonefs_kernel B L mnt K) D data g ms = Some (ret, ms', s)"
    "hodo_get_next_logical_number (mapping_info s) = Some (17, m1)" "hodo_get_next_logical_number m1 = Some (18, m2)"
    "ms_zgroup_inode ms' ZTYPE_SEQ = Some 18"
proof -
  obtain ms1 where m: "mount_bdev (zonefs_fill_super D data) ms = Some (Inr \<lparr>ri_ino = 16, ri_size = 3, ri_nlink = 3\<rparr>, ms1)"
    "zonefs_ok B L cap zstart dinv zdat (zonefs (mount_globals ms1 g))"
    "fresh_mount (zonefs_kernel B L mnt K) mnt (zonefs_data zdat) (mount_globals ms1 g)"
    "ms_zgroup_inode ms1 = [ZTYPE_SEQ \<mapsto> 18]"
    by (rule blank_mount_fills [OF assms])
  have st: "k_stack (zonefs_kernel B L mnt K) 3 = zero_block" using assms(1) by (simp add: blank_mount_def)
  obtain s where s: "hodo_init (zonefs_kernel B L mnt K) (mount_globals ms1 g) = Some s"
    "\<And>j. lbit (mapping_info s) j \<longleftrightarrow> j = 0" "starting_logical_number (mapping_info s) = 16"
    using zonefs.hodo_init_fresh [OF m(2,3) st] by metis
  have n1: "hodo_get_next_logical_number (mapping_info s) = Some (17, set_lbit 1 (mapping_info s))"
    using next_logical_number_at [of 1 "mapping_info s"] s(2,3) by (simp add: NUMBER_MAPPING_TABLE_ENTRY_eq)
  have n2: "hodo_get_next_logical_number (set_lbit 1 (mapping_info s)) = Some (18, set_lbit 2 (set_lbit 1 (mapping_info s)))"
    using next_logical_number_at [of 2 "set_lbit 1 (mapping_info s)"] s(2,3)
    by (simp add: NUMBER_MAPPING_TABLE_ENTRY_eq less_2_cases_iff)
  show thesis
    by (rule that [OF _ n1 n2, of _ "map_fs (\<lambda>_. zonefs s) ms1"])
      (use m(1,4) s(1) in \<open>simp_all add: zonefs_mount_def hodo_late_init_thread_def map_fs_def\<close>)
qed

end
