(* ===== verification/Hodo_Tree.thy ===== *)
theory Hodo_Tree
  imports Hodo_File
begin

text \<open>
  The blocks behind an inode as trees of block numbers. A leaf is a data block; a node is an
  indirect block, whose pointers lead to its children, from the left and without gaps. The tree of
  an inode's pointer \<open>k\<close> has the depth 0 for the ten direct pointers and 1, 2, 3 for the
  three indirect ones; all trees but the last one of a file are full. The functional behaviour of
  writing one block is stated on these trees, and one write at any depth keeps them.
\<close>

section \<open>Trees of block numbers\<close>

datatype ptree = PLeaf u32 | PNode u32 "ptree list"

fun root_number :: "ptree \<Rightarrow> u32" where
  "root_number (PLeaf l) = l"
| "root_number (PNode l ts) = l"

fun leaf_numbers :: "ptree \<Rightarrow> u32 list" where
  "leaf_numbers (PLeaf l) = [l]"
| "leaf_numbers (PNode l ts) = concat (map leaf_numbers ts)"

fun all_numbers :: "ptree \<Rightarrow> u32 list" where
  "all_numbers (PLeaf l) = [l]"
| "all_numbers (PNode l ts) = l # concat (map all_numbers ts)"

abbreviation forest_leaves :: "ptree list \<Rightarrow> u32 list" where
  "forest_leaves ts \<equiv> concat (map leaf_numbers ts)"

abbreviation forest_numbers :: "ptree list \<Rightarrow> u32 list" where
  "forest_numbers ts \<equiv> concat (map all_numbers ts)"

text \<open>The pointers of an indirect block are the numbers of the children, then null pointers.\<close>

definition points_to :: "bytes \<Rightarrow> ptree list \<Rightarrow> bool" where
  "points_to b ts \<longleftrightarrow> length ts \<le> PTR_SLOTS \<and>
     (\<forall>j<PTR_SLOTS. db_ptr j b = (if j < length ts then root_number (ts ! j) else 0))"

text \<open>A tree of depth \<open>d\<close> in a store.\<close>

fun tree_at :: "(u32 \<Rightarrow> bytes option) \<Rightarrow> nat \<Rightarrow> ptree \<Rightarrow> bool" where
  "tree_at C 0 (PLeaf l) \<longleftrightarrow>
     l \<noteq> 0 \<and> (\<exists>b. C l = Some b \<and> length b = 4096 \<and> db_is_dat b \<and> is_directblock b)"
| "tree_at C (Suc d) (PNode l ts) \<longleftrightarrow>
     l \<noteq> 0 \<and> (\<exists>b. C l = Some b \<and> length b = 4096 \<and> has_level (0x31 + of_nat d) b \<and> points_to b ts) \<and> ts \<noteq> [] \<and>
     (\<forall>j<length ts. tree_at C d (ts ! j)) \<and>
     (\<forall>j. Suc j < length ts \<longrightarrow> length (leaf_numbers (ts ! j)) = PTR_SLOTS ^ d)"
| "tree_at C d t \<longleftrightarrow> False"

text \<open>Trees side by side, the one in position \<open>j\<close> of depth \<open>dep j\<close>.\<close>

definition forest_at :: "(u32 \<Rightarrow> bytes option) \<Rightarrow> (nat \<Rightarrow> nat) \<Rightarrow> ptree list \<Rightarrow> bool" where
  "forest_at C dep ts \<longleftrightarrow> (\<forall>j<length ts. tree_at C (dep j) (ts ! j)) \<and>
     (\<forall>j. Suc j < length ts \<longrightarrow> length (leaf_numbers (ts ! j)) = PTR_SLOTS ^ dep j)"

lemma tree_at_Suc: "tree_at C (Suc d) t \<longleftrightarrow> (\<exists>l ts b. t = PNode l ts \<and> l \<noteq> 0 \<and> C l = Some b \<and> length b = 4096 \<and>
     has_level (0x31 + of_nat d) b \<and> points_to b ts \<and> ts \<noteq> [] \<and> forest_at C (\<lambda>_. d) ts)"
  by (cases t) (auto simp: forest_at_def)

lemma tree_at_0: "tree_at C 0 t \<longleftrightarrow> (\<exists>l b. t = PLeaf l \<and> l \<noteq> 0 \<and> C l = Some b \<and> length b = 4096 \<and> db_is_dat b \<and>
     is_directblock b)"
  by (cases t) auto

section \<open>Basic facts\<close>

lemma root_in_numbers [simp]: "root_number t \<in> set (all_numbers t)"
  by (cases t) simp_all

lemma leaves_subset_numbers: "set (leaf_numbers t) \<subseteq> set (all_numbers t)"
  by (induction t) auto

lemma forest_leaves_subset: "set (forest_leaves ts) \<subseteq> set (forest_numbers ts)"
  using leaves_subset_numbers by fastforce

lemma in_concat_nth:
  assumes "y \<in> set (concat (map f ts))"
  obtains j where "j < length ts" "y \<in> set (f (ts ! j))"
  using assms that by (auto simp: in_set_conv_nth [of _ ts])

lemma tree_at_mapped: "tree_at C d t \<Longrightarrow> y \<in> set (all_numbers t) \<Longrightarrow> C y \<noteq> None \<and> y \<noteq> 0"
proof (induction d arbitrary: t)
  case (Suc d)
  obtain l ts b where t: "t = PNode l ts" "l \<noteq> 0" "C l = Some b" "forest_at C (\<lambda>_. d) ts"
    using Suc.prems(1) unfolding tree_at_Suc by blast
  show ?case
  proof (cases "y = l")
    case False
    then have "y \<in> set (forest_numbers ts)" using Suc.prems(2) t(1) by simp
    then obtain j where "j < length ts" "y \<in> set (all_numbers (ts ! j))" by (rule in_concat_nth)
    then show ?thesis using Suc.IH [of "ts ! j"] t(4) by (simp add: forest_at_def)
  qed (use t in simp)
qed (auto simp: tree_at_0)

lemma forest_at_mapped: "forest_at C dep ts \<Longrightarrow> y \<in> set (forest_numbers ts) \<Longrightarrow> C y \<noteq> None \<and> y \<noteq> 0"
  unfolding forest_at_def by (metis in_concat_nth tree_at_mapped)

text \<open>A tree is where it was as long as its blocks stay.\<close>

lemma tree_at_cong: "tree_at C d t \<Longrightarrow> \<forall>y \<in> set (all_numbers t). C' y = C y \<Longrightarrow> tree_at C' d t"
proof (induction d arbitrary: t)
  case (Suc d)
  obtain l ts b where t: "t = PNode l ts" "l \<noteq> 0" "C l = Some b" "length b = 4096"
    "has_level (0x31 + of_nat d) b" "points_to b ts" "ts \<noteq> []" "forest_at C (\<lambda>_. d) ts"
    using Suc.prems(1) unfolding tree_at_Suc by blast
  have "tree_at C' d (ts ! j)" if j: "j < length ts" for j
    by (rule Suc.IH) (use j t(8) Suc.prems(2) in \<open>auto simp: forest_at_def t(1)\<close>)
  then have "forest_at C' (\<lambda>_. d) ts" using t(8) by (simp add: forest_at_def)
  moreover have "C' l = Some b" using Suc.prems(2) t(1,3) by simp
  ultimately show ?case unfolding tree_at_Suc using t by blast
qed (auto simp: tree_at_0)

lemma tree_leaf:
  "tree_at C d t \<Longrightarrow> y \<in> set (leaf_numbers t) \<Longrightarrow> \<exists>b. C y = Some b \<and> length b = 4096 \<and> db_is_dat b \<and> is_directblock b"
proof (induction d arbitrary: t)
  case (Suc d)
  obtain l ts where t: "t = PNode l ts" "forest_at C (\<lambda>_. d) ts"
    using Suc.prems(1) unfolding tree_at_Suc by blast
  obtain j where "j < length ts" "y \<in> set (leaf_numbers (ts ! j))"
    using Suc.prems(2) t(1) in_concat_nth [of y leaf_numbers ts] by auto
  then show ?case using Suc.IH [of "ts ! j"] t(2) by (simp add: forest_at_def)
qed (auto simp: tree_at_0)

lemma forest_leaf:
  assumes "forest_at C dep ts" "y \<in> set (forest_leaves ts)"
  shows "\<exists>b. C y = Some b \<and> length b = 4096 \<and> db_is_dat b \<and> is_directblock b"
proof -
  obtain j where "j < length ts" "y \<in> set (leaf_numbers (ts ! j))" using assms(2) by (rule in_concat_nth)
  then show ?thesis using tree_leaf assms(1) by (auto simp: forest_at_def)
qed

lemma forest_at_Nil [simp]: "forest_at C dep []"
  by (simp add: forest_at_def)

text \<open>Positions: the leaves before tree \<open>j\<close>.\<close>

definition leaves_before :: "nat \<Rightarrow> ptree list \<Rightarrow> nat" where
  "leaves_before j ts = length (forest_leaves (take j ts))"

lemma leaves_before_Suc:
  "j < length ts \<Longrightarrow> leaves_before (Suc j) ts = leaves_before j ts + length (leaf_numbers (ts ! j))"
  by (simp add: leaves_before_def take_Suc_conv_app_nth)

lemma forest_leaves_split:
  "j < length ts \<Longrightarrow> forest_leaves ts =
     forest_leaves (take j ts) @ leaf_numbers (ts ! j) @ forest_leaves (drop (Suc j) ts)"
  by (metis (no_types) append.assoc concat.simps(2) concat_append id_take_nth_drop list.simps(9) map_append)

lemma forest_leaves_nth:
  assumes "j < length ts" "q < length (leaf_numbers (ts ! j))"
  shows "forest_leaves ts ! (leaves_before j ts + q) = leaf_numbers (ts ! j) ! q"
    "leaves_before j ts + q < length (forest_leaves ts)"
  using assms forest_leaves_split [OF assms(1)] by (simp_all add: leaves_before_def nth_append)

text \<open>The trees before tree \<open>i\<close> are full; \<open>st\<close> sums their capacities.\<close>

lemma leaves_before_full:
  assumes "forest_at C dep ts" "st 0 = (0 :: nat)" "\<And>i. i < m \<Longrightarrow> st (Suc i) = st i + PTR_SLOTS ^ dep i" "length ts \<le> Suc m"
  shows "i < length ts \<Longrightarrow> leaves_before i ts = st i"
proof (induction i)
  case (Suc i)
  then show ?case using assms(1,4) assms(3) [of i] by (simp add: leaves_before_Suc forest_at_def)
qed (simp add: leaves_before_def assms(2))

lemma leaves_before_uniform:
  assumes "forest_at C (\<lambda>_. d) ts" "j < length ts"
  shows "leaves_before j ts = j * PTR_SLOTS ^ d"
  by (rule leaves_before_full [where st = "\<lambda>j. j * PTR_SLOTS ^ d" and m = "length ts", OF assms(1) _ _ _ assms(2)]) simp_all

lemma leaves_before_all: "leaves_before (length ts) ts = length (forest_leaves ts)"
  by (simp add: leaves_before_def)

lemma tree_size: "tree_at C d t \<Longrightarrow> 0 < length (leaf_numbers t) \<and> length (leaf_numbers t) \<le> PTR_SLOTS ^ d"
proof (induction d arbitrary: t)
  case (Suc d)
  obtain l ts b where t: "t = PNode l ts" "points_to b ts" "ts \<noteq> []" "forest_at C (\<lambda>_. d) ts"
    using Suc.prems(1) unfolding tree_at_Suc by blast
  let ?k = "length ts - 1"
  have k: "?k < length ts" "Suc ?k = length ts" "length ts \<le> PTR_SLOTS" using t(2,3) by (simp_all add: points_to_def)
  have "length (leaf_numbers t) = leaves_before (Suc ?k) ts" using k(2) t(1) leaves_before_all [of ts] by simp
  also have "\<dots> = ?k * PTR_SLOTS ^ d + length (leaf_numbers (ts ! ?k))"
    using k(1) leaves_before_Suc [OF k(1)] leaves_before_uniform [OF t(4) k(1)] by simp
  finally have e: "length (leaf_numbers t) = ?k * PTR_SLOTS ^ d + length (leaf_numbers (ts ! ?k))" .
  have s: "0 < length (leaf_numbers (ts ! ?k))" "length (leaf_numbers (ts ! ?k)) \<le> PTR_SLOTS ^ d"
    using Suc.IH [of "ts ! ?k"] t(4) k(1) by (simp_all add: forest_at_def)
  have "?k * PTR_SLOTS ^ d + PTR_SLOTS ^ d = length ts * PTR_SLOTS ^ d"
    using k(2) by (metis add.commute mult_Suc)
  also have "\<dots> \<le> PTR_SLOTS ^ Suc d" using k(3) by simp
  finally show ?case using e s by simp
qed (auto simp: tree_at_0)

section \<open>Writing one block\<close>

text \<open>
  What writing block \<open>r\<close> of a tree (or of several trees) with the leaves \<open>L\<close> and the numbers
  \<open>A\<close> does to the store: the block keeps its number, or a free one comes behind the last; it holds
  what \<open>Q\<close> says; the other leaves and all blocks outside of the tree stay; new numbers were free.
\<close>

definition block_written ::
  "(bytes \<Rightarrow> bool) \<Rightarrow> nat \<Rightarrow> (u32 \<Rightarrow> bytes option) \<Rightarrow> u32 list \<Rightarrow> u32 list \<Rightarrow>
     (u32 \<Rightarrow> bytes option) \<Rightarrow> u32 list \<Rightarrow> u32 list \<Rightarrow> bool"
where
  "block_written Q r C L A C' L' A' \<longleftrightarrow>
     (\<exists>x b. L' = take r L @ x # drop (Suc r) L \<and> (if r < length L then x = L ! r else C x = None) \<and>
        C' x = Some b \<and> Q b \<and> (\<forall>y \<in> set L. y \<noteq> x \<longrightarrow> C' y = C y)) \<and>
     (\<forall>y. C y \<noteq> None \<and> y \<notin> set A \<longrightarrow> C' y = C y) \<and> (\<forall>y. C y \<noteq> None \<longrightarrow> C' y \<noteq> None) \<and>
     set A' \<subseteq> set A \<union> {y. C y = None} \<and> distinct A'"

lemma block_writtenD:
  assumes "block_written Q r C L A C' L' A'"
  shows "C y \<noteq> None \<Longrightarrow> y \<notin> set A \<Longrightarrow> C' y = C y" "C y \<noteq> None \<Longrightarrow> C' y \<noteq> None"
    "y \<in> set A' \<Longrightarrow> y \<in> set A \<or> C y = None" "distinct A'"
  using assms by (auto simp: block_written_def)

lemma block_writtenE:
  assumes "block_written Q r C L A C' L' A'"
  obtains x b where "L' = take r L @ x # drop (Suc r) L" "if r < length L then x = L ! r else C x = None"
    "C' x = Some b" "Q b" "\<forall>y \<in> set L. y \<noteq> x \<longrightarrow> C' y = C y"
  using assms unfolding block_written_def by blast

lemma block_writtenI:
  assumes "L' = take r L @ x # drop (Suc r) L" "if r < length L then x = L ! r else C x = None"
    "C' x = Some b" "Q b" "\<And>y. y \<in> set L \<Longrightarrow> y \<noteq> x \<Longrightarrow> C' y = C y"
    "\<And>y. C y \<noteq> None \<Longrightarrow> y \<notin> set A \<Longrightarrow> C' y = C y" "\<And>y. C y \<noteq> None \<Longrightarrow> C' y \<noteq> None"
    "set A' \<subseteq> set A \<union> {y. C y = None}" "distinct A'"
  shows "block_written Q r C L A C' L' A'"
  unfolding block_written_def using assms by (intro conjI exI [of _ x] exI [of _ b] allI ballI impI) simp_all

text \<open>The tree in position \<open>j\<close>, replaced or added behind the last.\<close>

definition put_tree :: "nat \<Rightarrow> ptree \<Rightarrow> ptree list \<Rightarrow> ptree list" where
  "put_tree j c ts = take j ts @ c # drop (Suc j) ts"

lemma length_put_tree [simp]: "j \<le> length ts \<Longrightarrow> length (put_tree j c ts) = max (Suc j) (length ts)"
  by (cases "j = length ts") (simp_all add: put_tree_def)

lemma nth_put_tree:
  "j \<le> length ts \<Longrightarrow> i < length (put_tree j c ts) \<Longrightarrow> put_tree j c ts ! i = (if i = j then c else ts ! i)"
  by (auto simp: put_tree_def nth_append nth_Cons' min_def)

lemma concat_put_tree:
  "concat (map f (put_tree j c ts)) = concat (map f (take j ts)) @ f c @ concat (map f (drop (Suc j) ts))"
  by (simp add: put_tree_def)

text \<open>The leaves and numbers of position \<open>j\<close>, none behind the last tree.\<close>

definition slot_of :: "(ptree \<Rightarrow> u32 list) \<Rightarrow> nat \<Rightarrow> ptree list \<Rightarrow> u32 list" where
  "slot_of f j ts = (if j < length ts then f (ts ! j) else [])"

lemma concat_slot:
  assumes "j \<le> length ts"
  shows "concat (map f ts) = concat (map f (take j ts)) @ slot_of f j ts @ concat (map f (drop (Suc j) ts))"
proof (cases "j < length ts")
  case True
  then show ?thesis
    by (simp add: slot_of_def)
      (metis (no_types) append.assoc concat.simps(2) concat_append id_take_nth_drop list.simps(9) map_append)
qed (use assms in \<open>simp add: slot_of_def\<close>)

lemma put_leaves:
  assumes j: "j \<le> length ts" and q: "q \<le> length (slot_of leaf_numbers j ts)"
    and last: "q = length (slot_of leaf_numbers j ts) \<Longrightarrow> length ts \<le> Suc j"
    and c: "leaf_numbers c = take q (slot_of leaf_numbers j ts) @ x # drop (Suc q) (slot_of leaf_numbers j ts)"
    and r: "r = leaves_before j ts + q"
  shows "forest_leaves (put_tree j c ts) = take r (forest_leaves ts) @ x # drop (Suc r) (forest_leaves ts)"
    "r < length (forest_leaves ts) \<longleftrightarrow> q < length (slot_of leaf_numbers j ts)"
    "q < length (slot_of leaf_numbers j ts) \<Longrightarrow> forest_leaves ts ! r = slot_of leaf_numbers j ts ! q"
proof -
  let ?s = "slot_of leaf_numbers j ts" and ?pre = "forest_leaves (take j ts)" and ?post = "forest_leaves (drop (Suc j) ts)"
  have L: "forest_leaves ts = ?pre @ ?s @ ?post" by (rule concat_slot [OF j])
  have r': "r = length ?pre + q" using r by (simp add: leaves_before_def)
  have z: "q = length ?s \<Longrightarrow> ?post = []" using last by simp
  show i: "r < length (forest_leaves ts) \<longleftrightarrow> q < length ?s"
    using z q unfolding L r' by (cases "q = length ?s") auto
  show "q < length ?s \<Longrightarrow> forest_leaves ts ! r = ?s ! q" unfolding L r' by (simp add: nth_append)
  have "take r (forest_leaves ts) = ?pre @ take q ?s" unfolding L r' using q by simp
  moreover have "drop (Suc r) (forest_leaves ts) = drop (Suc q) ?s @ ?post"
  proof (cases "q = length ?s")
    case True
    then show ?thesis unfolding L r' z [OF True] by simp
  qed (use q in \<open>simp add: L r'\<close>)
  ultimately show "forest_leaves (put_tree j c ts) = take r (forest_leaves ts) @ x # drop (Suc r) (forest_leaves ts)"
    by (simp add: concat_put_tree c)
qed

lemma distinct_slots:
  assumes "distinct (concat (map f ts))" "i < length ts" "y \<in> set (f (ts ! i))" "i \<noteq> j"
  shows "y \<notin> set (slot_of f j ts)"
proof (cases "j < length ts")
  case True
  have "set (f (ts ! i)) \<inter> set (f (ts ! j)) = {}" if ij: "i < j" "j < length ts" for i j
  proof -
    have "concat (map f ts) = concat (map f (take j ts)) @ f (ts ! j) @ concat (map f (drop (Suc j) ts))"
      using concat_slot [of j ts f] ij(2) by (simp add: slot_of_def)
    moreover have "set (f (ts ! i)) \<subseteq> set (concat (map f (take j ts)))"
    proof -
      have "ts ! i \<in> set (take j ts)" using ij by (auto simp: in_set_conv_nth)
      then show ?thesis by auto
    qed
    ultimately show ?thesis using assms(1) by auto
  qed
  then have "set (f (ts ! i)) \<inter> set (f (ts ! j)) = {}" using assms(2,4) True by (metis inf_commute nat_neq_iff)
  then show ?thesis using assms(3) True by (auto simp: slot_of_def)
qed (simp add: slot_of_def)

lemma slot_of_mapped:
  "forest_at C dep ts \<Longrightarrow> y \<in> set (slot_of all_numbers j ts) \<Longrightarrow> C y \<noteq> None"
  by (auto simp: slot_of_def forest_at_def dest: tree_at_mapped split: if_splits)

text \<open>Writing a block of one tree is writing a block of all of them.\<close>

lemma forest_put:
  assumes F: "forest_at C dep ts" and D: "distinct (forest_numbers ts)" and j: "j \<le> length ts"
    and full: "\<forall>i<j. length (leaf_numbers (ts ! i)) = PTR_SLOTS ^ dep i"
    and w: "block_written Q q C (slot_of leaf_numbers j ts) (slot_of all_numbers j ts) C' (leaf_numbers c) (all_numbers c)"
    and t: "tree_at C' (dep j) c" and q: "q < PTR_SLOTS ^ dep j" "q \<le> length (slot_of leaf_numbers j ts)"
    and r: "r = leaves_before j ts + q"
  shows "forest_at C' dep (put_tree j c ts)"
    "block_written Q r C (forest_leaves ts) (forest_numbers ts) C' (forest_leaves (put_tree j c ts)) (forest_numbers (put_tree j c ts))"
proof -
  let ?s = "slot_of leaf_numbers j ts" and ?a = "slot_of all_numbers j ts"
  obtain x b where x: "leaf_numbers c = take q ?s @ x # drop (Suc q) ?s" "if q < length ?s then x = ?s ! q else C x = None"
    "C' x = Some b" "Q b" "\<forall>y \<in> set ?s. y \<noteq> x \<longrightarrow> C' y = C y"
    by (rule block_writtenE [OF w])
  note W = block_writtenD [OF w]
  have last: "length ts \<le> Suc j" if "q = length ?s"
  proof (rule ccontr)
    assume "\<not> length ts \<le> Suc j"
    then have "length ?s = PTR_SLOTS ^ dep j" using F by (simp add: forest_at_def slot_of_def)
    then show False using that q(1) by simp
  qed
  note L = put_leaves [OF j q(2) last x(1) r]
  have other: "C' y = C y" if "i < length ts" "i \<noteq> j" "y \<in> set (all_numbers (ts ! i))" for i y
  proof (rule W(1))
    show "C y \<noteq> None" using tree_at_mapped [of C "dep i" "ts ! i" y] F that by (simp add: forest_at_def)
    show "y \<notin> set ?a" by (rule distinct_slots [OF D that(1,3,2)])
  qed
  show "forest_at C' dep (put_tree j c ts)"
    unfolding forest_at_def
  proof (intro conjI allI impI)
    fix i assume i: "i < length (put_tree j c ts)"
    show "tree_at C' (dep i) (put_tree j c ts ! i)"
    proof (cases "i = j")
      case False
      then have "i < length ts" using i j by (simp add: max_def split: if_splits)
      then have "tree_at C (dep i) (ts ! i)" "\<forall>y \<in> set (all_numbers (ts ! i)). C' y = C y"
        using F other [OF _ False] by (simp_all add: forest_at_def)
      then show ?thesis using tree_at_cong nth_put_tree [OF j i] False by simp
    qed (use t i j in \<open>simp add: nth_put_tree\<close>)
  next
    fix i assume i: "Suc i < length (put_tree j c ts)"
    then consider "i < j" | "i = j" "Suc j < length ts" | "j < i" "Suc i < length ts"
      using j by (cases i j rule: linorder_cases) (simp_all add: max_def split: if_splits)
    then show "length (leaf_numbers (put_tree j c ts ! i)) = PTR_SLOTS ^ dep i"
    proof cases
      case 2
      then have "length ?s = PTR_SLOTS ^ dep j" using F by (simp add: forest_at_def slot_of_def)
      then have "length (leaf_numbers c) = PTR_SLOTS ^ dep j" using x(1) q(1) by simp
      then show ?thesis using 2 j by (simp add: nth_put_tree)
    qed (use full F i j in \<open>simp_all add: nth_put_tree forest_at_def\<close>)
  qed
  have D': "distinct (forest_numbers (take j ts) @ ?a @ forest_numbers (drop (Suc j) ts))"
    using D concat_slot [OF j, of all_numbers] by simp
  have A: "set (forest_numbers ts) = set (forest_numbers (take j ts)) \<union> set ?a \<union> set (forest_numbers (drop (Suc j) ts))"
    using arg_cong [OF concat_slot [OF j, of all_numbers], of set] by auto
  have mapped: "C y \<noteq> None" if "y \<in> set (forest_numbers ts)" for y using forest_at_mapped [OF F that] by simp
  have "distinct (forest_numbers (put_tree j c ts))"
  proof -
    have "y \<notin> set (forest_numbers (take j ts)) \<and> y \<notin> set (forest_numbers (drop (Suc j) ts))" if "y \<in> set (all_numbers c)" for y
    proof (cases "y \<in> set ?a")
      case True
      then show ?thesis using D' unfolding distinct_append set_append by blast
    next
      case False
      then have "C y = None" using W(3) [OF that] by blast
      then show ?thesis using mapped A by blast
    qed
    then show ?thesis unfolding concat_put_tree using D' W(4) unfolding distinct_append set_append by blast
  qed
  moreover have "set (forest_numbers (put_tree j c ts)) \<subseteq> set (forest_numbers ts) \<union> {y. C y = None}"
    unfolding concat_put_tree set_append using A W(3) by blast
  moreover have "C' y = C y" if y: "y \<in> set (forest_leaves ts)" "y \<noteq> x" for y
  proof (cases "y \<in> set ?a")
    case False
    then show ?thesis using W(1) forest_leaf [OF F y(1)] by auto
  next
    case True
    have "y \<in> set ?s"
    proof -
      obtain i where i: "i < length ts" "y \<in> set (leaf_numbers (ts ! i))" using y(1) by (rule in_concat_nth)
      then have "y \<in> set (all_numbers (ts ! i))" using leaves_subset_numbers by blast
      then have "i = j" using distinct_slots [OF D i(1)] True by blast
      then show ?thesis using i by (simp add: slot_of_def)
    qed
    then show ?thesis using x(5) y(2) by blast
  qed
  moreover have "C' y = C y" if "C y \<noteq> None" "y \<notin> set (forest_numbers ts)" for y
    by (rule W(1) [OF that(1)]) (use that(2) A in blast)
  moreover have "if r < length (forest_leaves ts) then x = forest_leaves ts ! r else C x = None"
    using L(2,3) x(2) by simp
  ultimately show "block_written Q r C (forest_leaves ts) (forest_numbers ts) C' (forest_leaves (put_tree j c ts)) (forest_numbers (put_tree j c ts))"
    unfolding block_written_def using L(1) x(3,4) W(2) by blast
qed

text \<open>Then the block with the pointers is rewritten, or written for the first time if its number is 0.\<close>

definition root_written :: "(u32 \<Rightarrow> bytes option) \<Rightarrow> ptree list \<Rightarrow> u32 \<Rightarrow> (u32 \<Rightarrow> bytes option) \<Rightarrow> u32 \<Rightarrow> bool" where
  "root_written C ts l C2 l' \<longleftrightarrow>
     (if l = 0 then C2 l' = None else l' = l \<and> C l \<noteq> None \<and> l \<notin> set (forest_numbers ts))"

definition own_number :: "u32 \<Rightarrow> u32 list" where
  "own_number l = (if l = 0 then [] else [l])"

lemma rewrite_root:
  assumes F: "forest_at C dep ts" and F2: "forest_at C2 dep ts'"
    and w: "block_written Q r C (forest_leaves ts) (forest_numbers ts) C2 (forest_leaves ts') (forest_numbers ts')"
    and l: "root_written C ts l C2 l'" and C3: "C3 = C2(l' \<mapsto> b')"
  shows "forest_at C3 dep ts'" "l' \<notin> set (forest_numbers ts')"
    "block_written Q r C (forest_leaves ts) (own_number l @ forest_numbers ts) C3 (forest_leaves ts') (l' # forest_numbers ts')"
proof -
  let ?A = "forest_numbers ts" and ?A' = "forest_numbers ts'"
  obtain x b where x: "forest_leaves ts' = take r (forest_leaves ts) @ x # drop (Suc r) (forest_leaves ts)"
    "if r < length (forest_leaves ts) then x = forest_leaves ts ! r else C x = None"
    "C2 x = Some b" "Q b" "\<forall>y \<in> set (forest_leaves ts). y \<noteq> x \<longrightarrow> C2 y = C y"
    by (rule block_writtenE [OF w])
  note W = block_writtenD [OF w]
  have l0: "l = 0 \<Longrightarrow> C2 l' = None" and l1: "l \<noteq> 0 \<Longrightarrow> l' = l" "l \<noteq> 0 \<Longrightarrow> C l \<noteq> None" "l \<noteq> 0 \<Longrightarrow> l \<notin> set ?A"
    using l by (simp_all add: root_written_def)
  show nA': "l' \<notin> set ?A'"
  proof (cases "l = 0")
    case True
    then show ?thesis using l0 forest_at_mapped [OF F2] by blast
  next
    case False
    then show ?thesis using l1(1) [OF False] l1(2) [OF False] l1(3) [OF False] W(3) [of l] by metis
  qed
  have nA: "l' \<notin> set ?A"
  proof (cases "l = 0")
    case True
    then show ?thesis using l0 W(2) forest_at_mapped [OF F] by blast
  qed (use l1 in simp)
  have "C3 y = C2 y" if "y \<in> set (all_numbers (ts' ! j))" "j < length ts'" for j y
  proof -
    have "y \<in> set (forest_numbers ts')" using that nth_mem [OF that(2)] by auto
    then show ?thesis using nA' C3 by (metis fun_upd_other)
  qed
  then have "tree_at C3 (dep j) (ts' ! j)" if "j < length ts'" for j
    using F2 that by (intro tree_at_cong [of C2 _ _ C3]) (simp_all add: forest_at_def)
  then show "forest_at C3 dep ts'" using F2 unfolding forest_at_def by blast
  have "x \<in> set (forest_leaves ts')" unfolding x(1) by simp
  then have "x \<in> set ?A'" using forest_leaves_subset [of ts'] by (rule subsetD [rotated])
  then have xl: "x \<noteq> l'" using nA' by blast
  have "C3 y = C y" if y: "y \<in> set (forest_leaves ts)" "y \<noteq> x" for y
  proof -
    have "y \<noteq> l'" using subsetD [OF forest_leaves_subset y(1)] nA by blast
    then show ?thesis using x(5) [rule_format, OF y] C3 by simp
  qed
  moreover have "C3 y = C y" if y: "C y \<noteq> None" "y \<notin> set (own_number l @ ?A)" for y
  proof -
    have "y \<noteq> l'" using l0 l1 W(2) [OF y(1)] y(2) by (cases "l = 0") (auto simp: own_number_def)
    then show ?thesis using W(1) [OF y(1)] y(2) C3 by simp
  qed
  moreover have "C3 y \<noteq> None" if "C y \<noteq> None" for y using W(2) [OF that] C3 by simp
  moreover have "set (l' # ?A') \<subseteq> set (own_number l @ ?A) \<union> {y. C y = None}"
  proof -
    have "l' \<in> set (own_number l) \<or> C l' = None"
    proof (cases "l = 0")
      case True
      then show ?thesis using l0 W(2) [of l'] by blast
    qed (use l1(1) in \<open>simp add: own_number_def\<close>)
    then show ?thesis using W(3) by auto
  qed
  moreover have "C3 x = Some b" using x(3) xl C3 by simp
  moreover have "distinct (l' # ?A')" using nA' W(4) by simp
  ultimately show "block_written Q r C (forest_leaves ts) (own_number l @ ?A) C3 (forest_leaves ts') (l' # ?A')"
    using x(1,2,4) by (intro block_writtenI [where x = x and b = b and L = "forest_leaves ts"])
qed

text \<open>The pointers after a write.\<close>

lemma db_ptr_stamped: "length b = 4096 \<Longrightarrow> j < PTR_SLOTS \<Longrightarrow> db_ptr j (stamped l b) = db_ptr j b"
  by (simp add: stamped_def db_defs layout_simps const_simps)

lemma points_to_stamped [simp]: "length b = 4096 \<Longrightarrow> points_to (stamped l b) ts = points_to b ts"
  by (simp add: points_to_def db_ptr_stamped)

lemma has_level_stamped [simp]: "length b = 4096 \<Longrightarrow> has_level c (stamped l b) = has_level c b"
  by (auto simp: has_level_def stamped_def)

lemma has_level_set_ptr [simp]:
  "length b = 4096 \<Longrightarrow> j < PTR_SLOTS \<Longrightarrow> has_level c (db_set_ptr j l b) = has_level c b"
  by (simp add: has_level_def)

lemma points_to_put:
  assumes "points_to b ts" "length b = 4096" "j \<le> length ts" "j < PTR_SLOTS"
  shows "points_to (db_set_ptr j (root_number c) b) (put_tree j c ts)"
  using assms nth_put_tree [OF assms(3), of _ c] unfolding points_to_def
  by (auto simp: db_ptr_set_ptr)

section \<open>Where a block is\<close>

text \<open>
  Position \<open>q\<close> of tree \<open>j\<close>, where \<open>st j\<close> is the capacity of the trees before: for the children of
  an indirect block, which have one depth, and for the pointers of an inode.
\<close>

lemma locate:
  assumes F: "forest_at C dep ts" and r: "r \<le> length (forest_leaves ts)" "r = st j + q" "q < PTR_SLOTS ^ dep j"
    and st: "st 0 = (0 :: nat)" "\<And>i. i < m \<Longrightarrow> st (Suc i) = st i + PTR_SLOTS ^ dep i" "j \<le> m" "length ts \<le> Suc m"
  shows "j \<le> length ts" "r = leaves_before j ts + q" "q \<le> length (slot_of leaf_numbers j ts)"
    "\<forall>i<j. length (leaf_numbers (ts ! i)) = PTR_SLOTS ^ dep i" "r < length (forest_leaves ts) \<Longrightarrow> j < length ts"
proof -
  have size: "length (leaf_numbers (ts ! i)) \<le> PTR_SLOTS ^ dep i" if "i < length ts" for i
    using F tree_size [of C "dep i" "ts ! i"] that by (simp add: forest_at_def)
  have before: "leaves_before i ts = st i" if "i < length ts" for i
    by (rule leaves_before_full [OF F st(1,2,4) that])
  have all: "length (forest_leaves ts) \<le> st (length ts)" if "length ts \<le> m"
  proof (cases "length ts")
    case (Suc i)
    then show ?thesis using before [of i] size [of i] st(2) [of i] that leaves_before_Suc [of i ts] leaves_before_all [of ts] by simp
  qed simp
  have mono: "st a \<le> st b" if "a \<le> b" "b \<le> m" for a b
    using that
  proof (induction b)
    case (Suc b)
    then show ?case using st(2) [of b] by (cases "a = Suc b") simp_all
  qed simp
  show jle: "j \<le> length ts"
  proof (rule ccontr)
    assume n: "\<not> j \<le> length ts"
    then have "st (Suc (length ts)) \<le> st j" using st(3) by (intro mono) simp_all
    moreover have "0 < PTR_SLOTS ^ dep (length ts)" by (simp add: PTR_SLOTS_def)
    moreover have "length (forest_leaves ts) \<le> st (length ts)" using all st(3) n by simp
    moreover have "st (Suc (length ts)) = st (length ts) + PTR_SLOTS ^ dep (length ts)" using st(2,3) n by simp
    ultimately show False using r(1,2) by linarith
  qed
  show "j < length ts" if "r < length (forest_leaves ts)"
    using that jle all st(3) r(2) by (cases "j = length ts") simp_all
  have ends: "leaves_before j ts = st j"
  proof (cases "j < length ts")
    case False
    then have "j = length ts" using jle by simp
    then show ?thesis using all st(3) r(1,2) leaves_before_all [of ts] by simp
  qed (rule before)
  then show "r = leaves_before j ts + q" using r(2) by simp
  show "\<forall>i<j. length (leaf_numbers (ts ! i)) = PTR_SLOTS ^ dep i"
  proof (intro allI impI)
    fix i assume i: "i < j"
    have "leaves_before i ts = st i" "st (Suc i) = st i + PTR_SLOTS ^ dep i" using before i jle st(2) [of i] st(3) by simp_all
    moreover have "leaves_before (Suc i) ts = st (Suc i)"
      using before [of "Suc i"] ends i jle by (cases "Suc i = j") simp_all
    ultimately show "length (leaf_numbers (ts ! i)) = PTR_SLOTS ^ dep i" using leaves_before_Suc [of i ts] i jle by simp
  qed
  show "q \<le> length (slot_of leaf_numbers j ts)"
  proof -
    consider "Suc j < length ts" | "Suc j = length ts" | "j = length ts" using jle by linarith
    then show ?thesis
    proof cases
      case 1
      then show ?thesis using F r(3) by (simp add: forest_at_def slot_of_def)
    next
      case 2
      then have "leaves_before (Suc j) ts = length (forest_leaves ts)" using leaves_before_all [of ts] by metis
      then show ?thesis using 2 leaves_before_Suc [of j ts] ends r by (simp add: slot_of_def)
    qed (use all st(3) r in simp)
  qed
qed

lemma locate_uniform:
  assumes F: "forest_at C (\<lambda>_. d) ts" and r: "r \<le> length (forest_leaves ts)"
    and j: "j = r div PTR_SLOTS ^ d" and q: "q = r mod PTR_SLOTS ^ d"
  shows "j \<le> length ts" "r = leaves_before j ts + q" "q \<le> length (slot_of leaf_numbers j ts)"
    "\<forall>i<j. length (leaf_numbers (ts ! i)) = PTR_SLOTS ^ d" "q < PTR_SLOTS ^ d"
    "r < length (forest_leaves ts) \<Longrightarrow> j < length ts"
proof -
  have rq: "r = j * PTR_SLOTS ^ d + q" unfolding j q by (rule div_mult_mod_eq [symmetric])
  show qc: "q < PTR_SLOTS ^ d" unfolding q by (simp add: PTR_SLOTS_def)
  have st: "0 * PTR_SLOTS ^ d = 0" "\<And>i. i < max j (length ts) \<Longrightarrow> Suc i * PTR_SLOTS ^ d = i * PTR_SLOTS ^ d + PTR_SLOTS ^ d"
    "j \<le> max j (length ts)" "length ts \<le> Suc (max j (length ts))" by simp_all
  note L = locate [where st = "\<lambda>j. j * PTR_SLOTS ^ d" and m = "max j (length ts)", OF F r rq qc st]
  show "j \<le> length ts" "r = leaves_before j ts + q" "q \<le> length (slot_of leaf_numbers j ts)"
    "\<forall>i<j. length (leaf_numbers (ts ! i)) = PTR_SLOTS ^ d" "r < length (forest_leaves ts) \<Longrightarrow> j < length ts"
    by (rule L; assumption?)+
qed

text \<open>The pointer of an inode that leads to block \<open>i\<close>, and the first block behind it.\<close>

definition root_depth :: "nat \<Rightarrow> nat" where
  "root_depth k = k - 9"

definition tree_index :: "nat \<Rightarrow> nat" where
  "tree_index i = (if i < 10 then i else if i < 10 + PTR_SLOTS then 10
     else if i < 10 + PTR_SLOTS + PTR_SLOTS * PTR_SLOTS then 11 else 12)"

definition tree_start :: "nat \<Rightarrow> nat" where
  "tree_start k = (if k \<le> 10 then k else if k = 11 then 10 + PTR_SLOTS else 10 + PTR_SLOTS + PTR_SLOTS * PTR_SLOTS)"

definition MAX_BLOCKS :: nat where
  "MAX_BLOCKS = 10 + PTR_SLOTS + PTR_SLOTS * PTR_SLOTS + PTR_SLOTS * PTR_SLOTS * PTR_SLOTS"

lemma tree_index_bounds:
  assumes "i < MAX_BLOCKS"
  shows "tree_index i < 13" "tree_start (tree_index i) \<le> i"
    "i - tree_start (tree_index i) < PTR_SLOTS ^ root_depth (tree_index i)"
  using assms
  by (auto simp: tree_index_def tree_start_def root_depth_def MAX_BLOCKS_def power2_eq_square power3_eq_cube PTR_SLOTS_def)

lemma tree_start_Suc: "k < 12 \<Longrightarrow> tree_start (Suc k) = tree_start k + PTR_SLOTS ^ root_depth k"
proof -
  assume "k < 12"
  then consider "k < 10" | "k = 10" | "k = 11" by linarith
  then show ?thesis by cases (simp_all add: tree_start_def root_depth_def power2_eq_square)
qed

text \<open>The slot that the write chooses at level \<open>e\<close>.\<close>

lemma has_level_unique: "has_level c b \<Longrightarrow> has_level c' b \<longleftrightarrow> c' = c"
  by (auto simp: has_level_def)

lemma indirect_slot_level:
  assumes i: "10 \<le> i" "i < MAX_BLOCKS" and e: "e < root_depth (tree_index i)" and b: "has_level (0x31 + of_nat e) b"
  shows "indirect_slot i b = Inr ((i - tree_start (tree_index i)) div PTR_SLOTS ^ e mod PTR_SLOTS)"
proof -
  let ?N = PTR_SLOTS
  have N: "HODO_DATA_SIZE div BLOCK_PTR_SZ = ?N" by (simp add: const_simps)
  note slot = indirect_slot_def Let_def N
  consider "i < 10 + ?N" | "\<not> i < 10 + ?N" "i < 10 + ?N + ?N * ?N" | "\<not> i < 10 + ?N + ?N * ?N" by blast
  then show ?thesis
  proof cases
    case 1
    have t: "tree_index i = 10" using i(1) 1 by (simp add: tree_index_def)
    have "e = 0" using e by (simp add: t root_depth_def)
    then show ?thesis using i(1) 1 by (simp add: slot t tree_start_def)
  next
    case 2
    have t: "tree_index i = 11" using i(1) 2 by (simp add: tree_index_def)
    have R: "i - (10 + ?N) < ?N * ?N" using 2 by simp
    have "e = 0 \<or> e = 1" using e by (auto simp: t root_depth_def)
    then show ?thesis
    proof
      assume "e = 1"
      then show ?thesis using i(1) 2 R has_level_unique [OF b]
        by (simp add: slot t tree_start_def less_mult_imp_div_less)
    qed (use i(1) 2 has_level_unique [OF b] in \<open>simp add: slot t tree_start_def\<close>)
  next
    case 3
    have t: "tree_index i = 12" using i(1) 3 by (simp add: tree_index_def)
    have R: "i - (10 + ?N + ?N * ?N) < ?N * ?N * ?N" "i < 10 + ?N + ?N * ?N + ?N * ?N * ?N" "\<not> i < 10 + ?N"
      using 3 i(2) by (simp_all add: MAX_BLOCKS_def)
    have "e = 0 \<or> e = 1 \<or> e = 2" using e by (auto simp: t root_depth_def)
    then show ?thesis
    proof (elim disjE)
      assume "e = 2"
      moreover have "(i - (10 + ?N + ?N * ?N)) div ?N div ?N < ?N" using R(1) by (intro less_mult_imp_div_less) simp
      ultimately show ?thesis using i(1) 3 R has_level_unique [OF b]
        by (simp add: slot t tree_start_def power2_eq_square div_mult2_eq)
    qed (use i(1) 3 R has_level_unique [OF b] in \<open>simp_all add: slot t tree_start_def\<close>)
  qed
qed

lemma file_size:
  assumes F: "forest_at C root_depth fs" and n: "length fs \<le> 13"
  shows "length (forest_leaves fs) \<le> MAX_BLOCKS"
proof (cases "length fs")
  case (Suc k)
  then have k: "k < length fs" "k < 13" using n by simp_all
  have st: "tree_start 0 = 0" "length fs \<le> Suc 12" using n by (simp_all add: tree_start_def)
  have "leaves_before k fs = tree_start k" by (rule leaves_before_full [OF F st(1) tree_start_Suc st(2) k(1)])
  moreover have "length (leaf_numbers (fs ! k)) \<le> PTR_SLOTS ^ root_depth k"
    using F k(1) tree_size [of C "root_depth k" "fs ! k"] by (simp add: forest_at_def)
  moreover have "length (forest_leaves fs) = leaves_before k fs + length (leaf_numbers (fs ! k))"
    using leaves_before_Suc [OF k(1)] leaves_before_all [of fs] Suc by simp
  ultimately have "length (forest_leaves fs) \<le> tree_start k + PTR_SLOTS ^ root_depth k" by simp
  also have "\<dots> \<le> MAX_BLOCKS"
  proof -
    consider "k < 10" | "k = 10" | "k = 11" | "k = 12" using k(2) by linarith
    then show ?thesis by cases (simp_all add: tree_start_def root_depth_def MAX_BLOCKS_def power2_eq_square power3_eq_cube)
  qed
  finally show ?thesis .
qed simp

lemma locate_root:
  assumes F: "forest_at C root_depth fs" and i: "i \<le> length (forest_leaves fs)" "i < MAX_BLOCKS" and n: "length fs \<le> 13"
    and k: "k = tree_index i" and q: "q = i - tree_start k"
  shows "k \<le> length fs" "i = leaves_before k fs + q" "q \<le> length (slot_of leaf_numbers k fs)"
    "\<forall>j<k. length (leaf_numbers (fs ! j)) = PTR_SLOTS ^ root_depth j" "i < length (forest_leaves fs) \<Longrightarrow> k < length fs"
    "q < PTR_SLOTS ^ root_depth k" "k < 13"
proof -
  show b: "q < PTR_SLOTS ^ root_depth k" "k < 13" using tree_index_bounds [OF i(2)] by (simp_all add: k q)
  have iq: "i = tree_start k + q" using tree_index_bounds(2) [OF i(2)] by (simp add: k q)
  have s: "tree_start 0 = 0" "k \<le> 12" "length fs \<le> Suc 12" using n b(2) by (simp_all add: tree_start_def)
  note L = locate [where m = 12, OF F i(1) iq b(1) s(1) tree_start_Suc s(2,3)]
  show "k \<le> length fs" "i = leaves_before k fs + q" "q \<le> length (slot_of leaf_numbers k fs)"
    "\<forall>j<k. length (leaf_numbers (fs ! j)) = PTR_SLOTS ^ root_depth j" "i < length (forest_leaves fs) \<Longrightarrow> k < length fs"
    by (rule L; assumption?)+
qed

lemma slot_inside:
  assumes F: "forest_at C dep ts" and r: "r < length (forest_leaves ts)" "r = leaves_before j ts + q" "j < length ts"
    "q \<le> length (leaf_numbers (ts ! j))" "q < PTR_SLOTS ^ dep j"
  shows "q < length (leaf_numbers (ts ! j))"
proof (cases "Suc j < length ts")
  case True
  then show ?thesis using F r(5) by (simp add: forest_at_def)
next
  case False
  then have "Suc j = length ts" using r(3) by simp
  then have "length (forest_leaves ts) = leaves_before j ts + length (leaf_numbers (ts ! j))"
    using leaves_before_Suc [OF r(3)] leaves_before_all [of ts] by metis
  then show ?thesis using r(1,2) by simp
qed

text \<open>One level down: leaf \<open>q\<close> of a tree of depth \<open>d + 1\<close> is behind pointer \<open>q div 1022 ^ d\<close>.\<close>

lemma tree_descend:
  assumes t: "tree_at C (Suc d) t" and q: "q < length (leaf_numbers t)"
  obtains c u where "C (root_number t) = Some c" "length c = 4096" "q div PTR_SLOTS ^ d < PTR_SLOTS"
    "db_ptr (q div PTR_SLOTS ^ d) c = root_number u" "tree_at C d u" "q mod PTR_SLOTS ^ d < length (leaf_numbers u)"
    "leaf_numbers t ! q = leaf_numbers u ! (q mod PTR_SLOTS ^ d)"
proof -
  obtain l ts c where c: "t = PNode l ts" "C l = Some c" "length c = 4096" "points_to c ts" "forest_at C (\<lambda>_. d) ts"
    using t unfolding tree_at_Suc by blast
  let ?j = "q div PTR_SLOTS ^ d" and ?q = "q mod PTR_SLOTS ^ d"
  have q': "q < length (forest_leaves ts)" "q \<le> length (forest_leaves ts)" using q c(1) by simp_all
  note L = locate_uniform [OF c(5) q'(2) refl refl]
  have j: "?j < length ts" by (rule L(6) [OF q'(1)])
  have s: "?q \<le> length (leaf_numbers (ts ! ?j))" using L(3) j by (simp add: slot_of_def)
  have i: "?q < length (leaf_numbers (ts ! ?j))" by (rule slot_inside [OF c(5) q'(1) L(2) j s L(5)])
  have n: "?j < PTR_SLOTS" "db_ptr ?j c = root_number (ts ! ?j)" using c(4) j by (simp_all add: points_to_def)
  have lf: "leaf_numbers t ! q = leaf_numbers (ts ! ?j) ! ?q" using forest_leaves_nth(1) [OF j i] L(2) c(1) by simp
  have td: "tree_at C d (ts ! ?j)" using c(5) j by (simp add: forest_at_def)
  show thesis using that [OF _ c(3) n td i lf] c(1,2) by simp
qed

lemma file_leaf:
  assumes F: "forest_at C root_depth fs" and fs: "length fs \<le> 13" and j: "j < length (forest_leaves fs)" "j < MAX_BLOCKS"
    and k: "k = tree_index j" and q: "q = j - tree_start k"
  shows "k < length fs" "q < length (leaf_numbers (fs ! k))" "forest_leaves fs ! j = leaf_numbers (fs ! k) ! q"
proof -
  have j': "j \<le> length (forest_leaves fs)" using j(1) by simp
  note L = locate_root [OF F j' j(2) fs k q]
  show kl: "k < length fs" by (rule L(5) [OF j(1)])
  have s: "q \<le> length (leaf_numbers (fs ! k))" using L(3) kl by (simp add: slot_of_def)
  show i: "q < length (leaf_numbers (fs ! k))" by (rule slot_inside [OF F j(1) L(2) kl s L(6)])
  show "forest_leaves fs ! j = leaf_numbers (fs ! k) ! q" using forest_leaves_nth(1) [OF kl i] L(2) by simp
qed

end
