(* ===== verification/Hodo_File_Tree.thy ===== *)
theory Hodo_File_Tree
  imports Hodo_Tree
begin

text \<open>
  Files of any size over the store: \<open>write_one_block\<close> with its recursion through indirect blocks,
  and \<open>hodo_read_nth_block\<close>, on the trees of \<open>Hodo_Tree\<close>. The memory that becomes a new
  indirect block is taken to hold null pointers; the code does not clear it.
\<close>

section \<open>One data block\<close>

text \<open>What the block must hold after the write: the old bytes before the offset, then the new ones.\<close>

definition block_holds :: "nat \<Rightarrow> bytes \<Rightarrow> bytes \<Rightarrow> bytes \<Rightarrow> bool" where
  "block_holds left old got b \<longleftrightarrow>
     length b = 4096 \<and> take (left + length got) (db_data b) = take left old @ got"

definition tree_memory :: "'z kernel \<Rightarrow> bool" where
  "tree_memory K \<longleftrightarrow> (\<exists>b. k_kmalloc K 14 = Some b \<and> length b = 4096) \<and>
     (\<exists>b. k_kmalloc K 15 = Some b \<and> length b = 4096 \<and> (\<forall>j<PTR_SLOTS. db_ptr j b = 0))"

text \<open>The position of a write in its block.\<close>

definition in_block :: "int \<Rightarrow> iov_iter \<Rightarrow> nat \<Rightarrow> nat \<Rightarrow> bool" where
  "in_block pos it left n \<longleftrightarrow> left = file_offset pos mod HODO_DATA_SIZE \<and>
     n = min (iov_count it) (HODO_DATA_SIZE - left) \<and> length (iov_data it) = iov_count it \<and> 0 < n"

context zone_store
begin

lemma mapped_num_ok: "store_ok zinv zdata mnt s \<Longrightarrow> contents zdata s l \<noteq> None \<Longrightarrow> num_ok s l"
  using num_ok_live [where zdata = zdata and s = s] by (simp add: store_ok_def)

text \<open>Writing a data block under a number, or under the next free one if the number is 0.\<close>

lemma write_at:
  assumes ok: "store_ok zinv zdata mnt s" and room: "wp_room zdata Z s (Suc k)" and free: "l = 0 \<Longrightarrow> 0 < free_numbers s"
    and b: "length b = 4096" "db_is_dat b" and l: "l \<noteq> 0 \<Longrightarrow> contents zdata s l \<noteq> None"
  obtains l' s' where "hodo_write_struct K b HODO_DATABLOCK_SIZE l s = Some (4096, stamped l' b, l', s')"
    "l \<noteq> 0 \<longrightarrow> l' = l" "l = 0 \<longrightarrow> contents zdata s l' = None" "l' \<noteq> 0" "store_ok zinv zdata mnt s'"
    "contents zdata s' = (contents zdata s)(l' \<mapsto> stamped l' b)" "wp_room zdata Z s' k"
    "free_numbers s \<le> (if l = 0 then 1 else 0) + free_numbers s'"
proof (cases "l = 0")
  case True
  have f: "has_free_number s" using free [OF True] by (simp add: has_free_number_iff)
  obtain s' n where "hodo_write_struct K b 4096 0 s = Some (4096, stamped n b, n, s')" "store_ok zinv zdata mnt s'"
    "contents zdata s n = None" "n \<noteq> 0" "contents zdata s' = (contents zdata s)(n \<mapsto> stamped n b)" "wp_room zdata Z s' k"
    "free_numbers s \<le> Suc (free_numbers s')"
    by (rule write_new [OF ok room f b]) blast
  then show thesis using that [of n s'] True by (simp add: HODO_DATABLOCK_SIZE_def)
next
  case False
  obtain s' where s': "hodo_write_struct K b 4096 l s = Some (4096, stamped l b, l, s')" "store_ok zinv zdata mnt s'"
    "contents zdata s' = (contents zdata s)(l \<mapsto> stamped l b)" "wp_room zdata Z s' k"
    "\<forall>j. lbit (mapping_info s') j = lbit (mapping_info s) j"
    by (rule write_existing [OF ok room mapped_num_ok [OF ok l [OF False]] b(1) disjI1 [OF b(2)]]) blast
  have "free_numbers s' = free_numbers s" using s'(5) by (simp add: free_numbers_def)
  then show thesis using that [of l s'] s'(1-4) False by (simp add: HODO_DATABLOCK_SIZE_def)
qed

lemma write_leaf:
  assumes ok: "store_ok zinv zdata mnt s" and room: "wp_room zdata Z s (Suc k)" and free: "0 < free_numbers s"
    and mem: "tree_memory K" and pos: "in_block pos it left n" and cur: "length cur = 4096"
    and l: "l \<noteq> 0 \<Longrightarrow> contents zdata s l \<noteq> None" and old: "left = 0 \<or> old = db_data cur"
  obtains l' s' where "write_one_block_by_direct_block K pos it l cur s = Some (int n, l', rest_of n it, s')"
    "l \<noteq> 0 \<Longrightarrow> l' = l" "store_ok zinv zdata mnt s'" "tree_at (contents zdata s') 0 (PLeaf l')"
    "block_written (block_holds left old (take n (iov_data it))) 0 (contents zdata s) (own_number l) (own_number l)
       (contents zdata s') [l'] [l']"
    "wp_room zdata Z s' k" "free_numbers s \<le> Suc (free_numbers s')"
proof -
  obtain new where new: "k_kmalloc K 14 = Some new" "length new = 4096" using mem by (auto simp: tree_memory_def)
  have p: "left = file_offset pos mod HODO_DATA_SIZE" "n = min (iov_count it) (HODO_DATA_SIZE - left)"
    "length (iov_data it) = iov_count it" using pos by (simp_all add: in_block_def)
  have lt: "left < HODO_DATA_SIZE" using p(1) by (simp add: HODO_DATA_SIZE_eq)
  let ?got = "take n (iov_data it)" and ?C = "contents zdata s"
  let ?b = "merged_block left cur ?got new"
  have got: "length ?got = n" "left + length ?got \<le> HODO_DATA_SIZE" using p(2,3) lt by simp_all
  note m = merged_block [OF cur new(2) got(2)]
  have holds: "block_holds left old ?got (stamped l' ?b)" for l'
    using m old by (auto simp: block_holds_def length_stamped)
  obtain l' s' where w: "hodo_write_struct K ?b HODO_DATABLOCK_SIZE l s = Some (4096, stamped l' ?b, l', s')"
    "l \<noteq> 0 \<longrightarrow> l' = l" "l = 0 \<longrightarrow> ?C l' = None" "l' \<noteq> 0" "store_ok zinv zdata mnt s'"
    "contents zdata s' = ?C(l' \<mapsto> stamped l' ?b)" "wp_room zdata Z s' k"
    "free_numbers s \<le> (if l = 0 then 1 else 0) + free_numbers s'"
    using write_at [OF ok room free m(1,2) l] by metis
  have c: "write_one_block_by_direct_block K pos it l cur s = Some (int n, l', rest_of n it, s')"
    unfolding rest_of_def by (rule by_direct_block [OF new(1) p(3,2,1) w(1)])
  have t: "tree_at (contents zdata s') 0 (PLeaf l')" using w(4,6) m by (simp add: length_stamped)
  have "block_written (block_holds left old ?got) 0 ?C (own_number l) (own_number l) (contents zdata s') [l'] [l']"
    by (rule block_writtenI [where x = l' and b = "stamped l' ?b"])
      (use w holds in \<open>auto simp: own_number_def\<close>)
  moreover have "free_numbers s \<le> Suc (free_numbers s')" using w(8) by (simp split: if_splits)
  ultimately show thesis using that [of l' s'] c w(2,5,7) t by blast
qed

end

section \<open>The recursion through indirect blocks\<close>

lemma radix_digit:
  fixes R N :: nat
  assumes "0 < N"
  shows "R mod N ^ Suc d div N ^ d = R div N ^ d mod N" "R mod N ^ Suc d mod N ^ d = R mod N ^ d"
  using assms by (simp_all add: mod_mult2_eq [of R "N ^ d" N, simplified mult.commute [of _ N]])

context zone_store
begin

lemma load_block:
  assumes "store_ok zinv zdata mnt s" "length buf = 4096" "l \<noteq> 0 \<Longrightarrow> contents zdata s l = Some c"
  obtains s1 where "load_or_new K l level buf s = Some (if l = 0 then db_set_magic level buf else c, s1)"
    "same_store zinv zdata s s1" "store_ok zinv zdata mnt s1" "contents zdata s1 = contents zdata s"
proof (cases "l = 0")
  case True
  then show ?thesis using that [of s] same_store_refl [OF assms(1)] assms(1)
    by (simp add: load_or_new_def is_block_logical_number_valid_def)
next
  case False
  obtain s1 where "hodo_read_struct K l buf HODO_DATABLOCK_SIZE s = Some (4096, c, s1)" "same_store zinv zdata s s1"
    "store_ok zinv zdata mnt s1" "contents zdata s1 = contents zdata s"
    by (rule read_block [OF assms(1) assms(3) [OF False] assms(2)])
  then show ?thesis using that [of s1] False by (simp add: load_or_new_def is_block_logical_number_valid_def)
qed

text \<open>After the recursive call, the pointer to the child and the node are written.\<close>

lemma finish_node:
  assumes ok: "store_ok zinv zdata mnt s2" and room: "wp_room zdata Z s2 (Suc k)" and free: "l = 0 \<Longrightarrow> 0 < free_numbers s2"
    and cur: "length cur = 4096" "has_level (0x31 + of_nat d) cur" "points_to cur ts"
    and F: "forest_at C (\<lambda>_. d) ts" and l: "l \<noteq> 0 \<Longrightarrow> C l \<noteq> None \<and> l \<notin> set (forest_numbers ts)"
    and j: "j \<le> length ts" "j < PTR_SLOTS"
    and F2: "forest_at (contents zdata s2) (\<lambda>_. d) (put_tree j c ts)"
    and w: "block_written Q r C (forest_leaves ts) (forest_numbers ts) (contents zdata s2)
      (forest_leaves (put_tree j c ts)) (forest_numbers (put_tree j c ts))"
  obtains l' b s3 where "hodo_write_struct K (db_set_ptr j (root_number c) cur) HODO_DATABLOCK_SIZE l s2 = Some (4096, b, l', s3)"
    "l \<noteq> 0 \<longrightarrow> l' = l" "store_ok zinv zdata mnt s3" "tree_at (contents zdata s3) (Suc d) (PNode l' (put_tree j c ts))"
    "block_written Q r C (forest_leaves ts) (own_number l @ forest_numbers ts) (contents zdata s3)
      (forest_leaves (put_tree j c ts)) (l' # forest_numbers (put_tree j c ts))"
    "wp_room zdata Z s3 k" "free_numbers s2 \<le> (if l = 0 then 1 else 0) + free_numbers s3"
proof -
  let ?b = "db_set_ptr j (root_number c) cur" and ?ts = "put_tree j c ts"
  have b: "length ?b = 4096" "has_level (0x31 + of_nat d) ?b" "db_is_dat ?b"
    using cur(1,2) j(2) by (simp_all add: length_simps) (simp add: has_level_def)
  have lm: "l \<noteq> 0 \<Longrightarrow> contents zdata s2 l \<noteq> None" using l block_writtenD(2) [OF w] by blast
  obtain l' s3 where s3: "hodo_write_struct K ?b HODO_DATABLOCK_SIZE l s2 = Some (4096, stamped l' ?b, l', s3)"
    "l \<noteq> 0 \<longrightarrow> l' = l" "l = 0 \<longrightarrow> contents zdata s2 l' = None" "l' \<noteq> 0" "store_ok zinv zdata mnt s3"
    "contents zdata s3 = (contents zdata s2)(l' \<mapsto> stamped l' ?b)" "wp_room zdata Z s3 k"
    "free_numbers s2 \<le> (if l = 0 then 1 else 0) + free_numbers s3"
    using write_at [OF ok room free b(1,3) lm] by metis
  have rw: "root_written C ts l (contents zdata s2) l'" using s3(2,3) l by (simp add: root_written_def)
  note R = rewrite_root [OF F F2 w rw s3(6)]
  have "?ts \<noteq> []" by (simp add: put_tree_def)
  then have "tree_at (contents zdata s3) (Suc d) (PNode l' ?ts)"
    unfolding tree_at_Suc using R(1) s3(4,6) b(1,2) points_to_put [OF cur(3,1) j, of c]
    by (intro exI [of _ l'] exI [of _ ?ts] exI [of _ "stamped l' ?b"]) (simp add: length_stamped)
  then show thesis using that s3(1,2,5,7,8) R(3) by blast
qed

end

text \<open>
  The tree with root \<open>l\<close> after a write of its block \<open>r\<close>; \<open>ts\<close> are the children before, none if
  the number is 0.
\<close>

definition tree_written ::
  "(bytes \<Rightarrow> bool) \<Rightarrow> nat \<Rightarrow> (u32 \<Rightarrow> bytes option) \<Rightarrow> nat \<Rightarrow> u32 \<Rightarrow> ptree list \<Rightarrow> (u32 \<Rightarrow> bytes option) \<Rightarrow> u32 \<Rightarrow> ptree list \<Rightarrow> bool"
where
  "tree_written Q r C d l ts C' l' ts' \<longleftrightarrow> (l \<noteq> 0 \<longrightarrow> l' = l) \<and> tree_at C' (Suc d) (PNode l' ts') \<and>
     block_written Q r C (forest_leaves ts) (own_number l @ forest_numbers ts) C' (forest_leaves ts') (l' # forest_numbers ts')"

text \<open>The old bytes in front of the write are those of block \<open>r\<close>; a block behind the last one is
  written from its start.\<close>

definition old_bytes :: "(u32 \<Rightarrow> bytes option) \<Rightarrow> u32 list \<Rightarrow> nat \<Rightarrow> nat \<Rightarrow> bytes \<Rightarrow> bool" where
  "old_bytes C L r left old \<longleftrightarrow> left = 0 \<or> r < length L \<and> old = db_data (the (C (L ! r)))"

context zone_store
begin

text \<open>One level: given what the call for the child does, the node is rewritten.\<close>

lemma write_tree_step:
  assumes mem: "tree_memory K" and n: "0 < n"
    and slot: "indirect_slot (file_offset pos div HODO_DATA_SIZE) cur = Inr j"
    and ok: "store_ok zinv zdata mnt s" and free: "Suc (Suc d) \<le> free_numbers s"
    and cur: "length cur = 4096" "has_level (0x31 + of_nat d) cur" "points_to cur ts"
    and F: "forest_at (contents zdata s) (\<lambda>_. d) ts" and dist: "distinct (own_number l @ forest_numbers ts)"
    and l: "l \<noteq> 0 \<Longrightarrow> contents zdata s l \<noteq> None"
    and r: "r \<le> length (forest_leaves ts)" "j = r div PTR_SLOTS ^ d" "q = r mod PTR_SLOTS ^ d" "j < PTR_SLOTS"
    and p: "p = (if j < length ts then root_number (ts ! j) else 0)"
    and child: "\<And>buf s1. length buf = 4096 \<Longrightarrow> \<forall>j<PTR_SLOTS. db_ptr j buf = 0 \<Longrightarrow> same_store zinv zdata s s1 \<Longrightarrow>
      \<exists>c s2. (let b = (if p = 0 then db_set_magic (0x30 + of_nat d) buf else the (contents zdata s p)) in
          if is_directblock b then write_one_block_by_direct_block K pos it p b s1
          else write_one_block_by_indirect_block K pos it p b s1) = Some (int n, root_number c, rest_of n it, s2) \<and>
        store_ok zinv zdata mnt s2 \<and> wp_room zdata Z s2 (Suc k) \<and> free_numbers s \<le> Suc d + free_numbers s2 \<and>
        tree_at (contents zdata s2) d c \<and>
        block_written Q q (contents zdata s) (slot_of leaf_numbers j ts) (slot_of all_numbers j ts)
          (contents zdata s2) (leaf_numbers c) (all_numbers c)"
  shows "\<exists>l' ts' s'. write_one_block_by_indirect_block K pos it l cur s = Some (int n, l', rest_of n it, s') \<and>
      store_ok zinv zdata mnt s' \<and> wp_room zdata Z s' k \<and> free_numbers s \<le> Suc (Suc d) + free_numbers s' \<and>
      tree_written Q r (contents zdata s) d l ts (contents zdata s') l' ts'"
proof -
  let ?C = "contents zdata s"
  obtain buf where buf: "k_kmalloc K 15 = Some buf" "length buf = 4096" "\<forall>j<PTR_SLOTS. db_ptr j buf = 0"
    using mem by (auto simp: tree_memory_def)
  note L = locate_uniform [OF F r(1-3)]
  have ptr: "db_ptr j cur = p" using cur(3) r(4) p by (simp add: points_to_def)
  have lev: "db_level cur - 1 = 0x30 + of_nat d" using cur(2) by (simp add: has_level_def)
  have pc: "?C p = Some (the (?C p))" if "p \<noteq> 0"
  proof -
    have j: "j < length ts" "p = root_number (ts ! j)" using p that by (simp_all split: if_splits)
    then have "?C (root_number (ts ! j)) \<noteq> None"
      using F tree_at_mapped [of ?C d "ts ! j"] by (simp add: forest_at_def)
    then show ?thesis using j(2) by simp
  qed
  obtain s1 where s1: "load_or_new K p (0x30 + of_nat d) buf s =
      Some (if p = 0 then db_set_magic (0x30 + of_nat d) buf else the (?C p), s1)" "same_store zinv zdata s s1"
    using load_block [OF ok buf(2) pc] by blast
  obtain c s2 where c: "(let b = (if p = 0 then db_set_magic (0x30 + of_nat d) buf else the (?C p)) in
          if is_directblock b then write_one_block_by_direct_block K pos it p b s1
          else write_one_block_by_indirect_block K pos it p b s1) = Some (int n, root_number c, rest_of n it, s2)"
    "store_ok zinv zdata mnt s2" "wp_room zdata Z s2 (Suc k)" "free_numbers s \<le> Suc d + free_numbers s2"
    "tree_at (contents zdata s2) d c"
    "block_written Q q ?C (slot_of leaf_numbers j ts) (slot_of all_numbers j ts) (contents zdata s2) (leaf_numbers c) (all_numbers c)"
    using child [OF buf(2,3) s1(2)] by blast
  have D: "distinct (forest_numbers ts)" using dist by simp
  note P = forest_put [OF F D L(1,4) c(6,5) L(5,3,2)]
  have ln: "l \<noteq> 0 \<Longrightarrow> ?C l \<noteq> None \<and> l \<notin> set (forest_numbers ts)"
    using l dist by (simp add: own_number_def)
  have free2: "l = 0 \<Longrightarrow> 0 < free_numbers s2" using c(4) free by simp
  obtain l' b s3 where s3: "hodo_write_struct K (db_set_ptr j (root_number c) cur) HODO_DATABLOCK_SIZE l s2 = Some (4096, b, l', s3)"
    "l \<noteq> 0 \<longrightarrow> l' = l" "store_ok zinv zdata mnt s3" "tree_at (contents zdata s3) (Suc d) (PNode l' (put_tree j c ts))"
    "block_written Q r ?C (forest_leaves ts) (own_number l @ forest_numbers ts) (contents zdata s3)
      (forest_leaves (put_tree j c ts)) (l' # forest_numbers (put_tree j c ts))"
    "wp_room zdata Z s3 k" "free_numbers s2 \<le> (if l = 0 then 1 else 0) + free_numbers s3"
    by (rule finish_node [OF c(2,3) free2 cur F ln L(1) r(4) P])
  have nz: "root_number c \<noteq> 0" using tree_at_mapped [OF c(5) root_in_numbers] by simp
  define b0 where "b0 = (if p = 0 then db_set_magic (0x30 + of_nat d) buf else the (?C p))"
  have call: "(if is_directblock b0 then write_one_block_by_direct_block K pos it p b0 s1
      else write_one_block_by_indirect_block K pos it p b0 s1) = Some (int n, root_number c, rest_of n it, s2)"
    using c(1) unfolding Let_def b0_def .
  have "write_one_block_by_indirect_block K pos it l cur s = Some (int n, l', rest_of n it, s3)"
    by (subst write_one_block_by_indirect_block.simps, cases "is_directblock b0")
      (use slot buf(1) ptr lev s1(1) [folded b0_def] call s3(1) n nz in \<open>simp_all add: Let_def is_block_logical_number_valid_def\<close>)
  moreover have "free_numbers s \<le> Suc (Suc d) + free_numbers s3" using c(4) s3(7) by (simp split: if_splits)
  ultimately show ?thesis using s3(2-6) by (intro exI conjI) (auto simp: tree_written_def)
qed

end

lemma old_bytes_child:
  assumes F: "forest_at C dep ts" and o: "old_bytes C (forest_leaves ts) r left old"
    and r: "r = leaves_before j ts + q" "j \<le> length ts" "q \<le> length (slot_of leaf_numbers j ts)" "q < PTR_SLOTS ^ dep j"
  shows "old_bytes C (slot_of leaf_numbers j ts) q left old"
proof (cases "left = 0")
  case False
  let ?s = "slot_of leaf_numbers j ts"
  have o': "r < length (forest_leaves ts)" "old = db_data (the (C (forest_leaves ts ! r)))"
    using o False by (simp_all add: old_bytes_def)
  have L: "forest_leaves ts = forest_leaves (take j ts) @ ?s @ forest_leaves (drop (Suc j) ts)" by (rule concat_slot [OF r(2)])
  have r': "r = length (forest_leaves (take j ts)) + q" using r(1) by (simp add: leaves_before_def)
  have "q < length ?s"
  proof (rule ccontr)
    assume n: "\<not> q < length ?s"
    then have "\<not> Suc j < length ts" using F r(4) by (auto simp: forest_at_def slot_of_def)
    then have "length (forest_leaves ts) = length (forest_leaves (take j ts)) + length ?s" using L by simp
    then show False using o'(1) r' n r(3) by simp
  qed
  moreover have "forest_leaves ts ! r = ?s ! q" using calculation unfolding L r' by (simp add: nth_append)
  ultimately show ?thesis using o'(2) by (simp add: old_bytes_def)
qed (simp add: old_bytes_def)

lemma db_ptr_set_magic: "length b = 4096 \<Longrightarrow> db_ptr j (db_set_magic l b) = db_ptr j b"
  by (simp add: db_defs layout_simps const_simps u32_at_def get_put_other)

text \<open>The data block behind slot \<open>j\<close>, or a new one.\<close>

lemma child_leaf:
  assumes F: "j < length ts \<longrightarrow> tree_at C 0 (ts ! j)" and p: "p = (if j < length ts then root_number (ts ! j) else 0)"
    and buf: "length buf = 4096"
  defines "b \<equiv> (if p = 0 then db_set_magic (0x30 + of_nat 0) buf else the (C p))"
  shows "length b = 4096" "is_directblock b" "slot_of leaf_numbers j ts = own_number p"
    "slot_of all_numbers j ts = own_number p" "p \<noteq> 0 \<longrightarrow> C p \<noteq> None"
proof -
  have "length b = 4096 \<and> is_directblock b \<and> slot_of leaf_numbers j ts = own_number p \<and>
    slot_of all_numbers j ts = own_number p \<and> (p \<noteq> 0 \<longrightarrow> C p \<noteq> None)"
  proof (cases "j < length ts")
    case True
    obtain l c where "ts ! j = PLeaf l" "l \<noteq> 0" "C l = Some c" "length c = 4096" "is_directblock c"
      using F True unfolding tree_at_0 by blast
    then show ?thesis using True p by (simp add: b_def slot_of_def own_number_def)
  qed (use p buf in \<open>simp add: b_def slot_of_def own_number_def length_simps is_directblock_def\<close>)
  then show "length b = 4096" "is_directblock b" "slot_of leaf_numbers j ts = own_number p"
    "slot_of all_numbers j ts = own_number p" "p \<noteq> 0 \<longrightarrow> C p \<noteq> None" by blast+
qed

text \<open>The child node behind slot \<open>j\<close>, or a new one with null pointers.\<close>

lemma child_node:
  assumes F: "j < length ts \<longrightarrow> tree_at C (Suc d) (ts ! j)" and p: "p = (if j < length ts then root_number (ts ! j) else 0)"
    and buf: "length buf = 4096" "\<forall>j<PTR_SLOTS. db_ptr j buf = 0"
  defines "b \<equiv> (if p = 0 then db_set_magic (0x30 + of_nat (Suc d)) buf else the (C p))"
  obtains us where "length b = 4096" "has_level (0x31 + of_nat d) b" "points_to b us" "forest_at C (\<lambda>_. d) us"
    "slot_of leaf_numbers j ts = forest_leaves us" "slot_of all_numbers j ts = own_number p @ forest_numbers us"
    "p \<noteq> 0 \<longrightarrow> C p \<noteq> None"
proof (cases "j < length ts")
  case True
  obtain l us c where c: "ts ! j = PNode l us" "l \<noteq> 0" "C l = Some c" "length c = 4096"
    "has_level (0x31 + of_nat d) c" "points_to c us" "forest_at C (\<lambda>_. d) us"
    using F True unfolding tree_at_Suc by blast
  have "p = l" "b = c" using c(1-3) True p by (simp_all add: b_def)
  then show thesis using that [of us] True c by (simp add: slot_of_def own_number_def)
next
  case False
  then have b: "p = 0" "b = db_set_magic (0x30 + of_nat (Suc d)) buf" using p by (simp_all add: b_def)
  have "points_to b []" using b buf by (simp add: points_to_def db_ptr_set_magic)
  moreover have "has_level (0x31 + of_nat d) b" "length b = 4096"
    using b(2) buf(1) by (simp_all add: has_level_def length_simps)
  ultimately show thesis using that [of "[]"] False b(1) by (simp add: slot_of_def own_number_def)
qed

context zone_store
begin

lemma write_tree:
  assumes mem: "tree_memory K" and pos: "in_block pos it left n" and D: "D \<le> 2"
    and slots: "\<And>e b. e \<le> D \<Longrightarrow> has_level (0x31 + of_nat e) b \<Longrightarrow>
      indirect_slot (file_offset pos div HODO_DATA_SIZE) b = Inr (R div PTR_SLOTS ^ e mod PTR_SLOTS)"
  shows "d \<le> D \<Longrightarrow> store_ok zinv zdata mnt s \<Longrightarrow> wp_room zdata Z s (Suc (Suc d) + k) \<Longrightarrow> Suc (Suc d) \<le> free_numbers s \<Longrightarrow>
    length cur = 4096 \<Longrightarrow> has_level (0x31 + of_nat d) cur \<Longrightarrow> points_to cur ts \<Longrightarrow>
    forest_at (contents zdata s) (\<lambda>_. d) ts \<Longrightarrow> distinct (own_number l @ forest_numbers ts) \<Longrightarrow>
    (l \<noteq> 0 \<Longrightarrow> contents zdata s l \<noteq> None) \<Longrightarrow> r = R mod PTR_SLOTS ^ Suc d \<Longrightarrow> r \<le> length (forest_leaves ts) \<Longrightarrow>
    old_bytes (contents zdata s) (forest_leaves ts) r left old \<Longrightarrow>
    \<exists>l' ts' s'. write_one_block_by_indirect_block K pos it l cur s = Some (int n, l', rest_of n it, s') \<and>
      store_ok zinv zdata mnt s' \<and> wp_room zdata Z s' k \<and> free_numbers s \<le> Suc (Suc d) + free_numbers s' \<and>
      tree_written (block_holds left old (take n (iov_data it))) r (contents zdata s) d l ts (contents zdata s') l' ts'"
proof (induction d arbitrary: s cur l ts r k)
  case 0
  let ?C = "contents zdata s"
  define j where "j = R mod PTR_SLOTS"
  have r: "j = r div PTR_SLOTS ^ 0" "0 = r mod PTR_SLOTS ^ 0" "j < PTR_SLOTS"
    using "0"(11) by (simp_all add: j_def PTR_SLOTS_def)
  note L = locate_uniform [OF "0"(8,12) r(1,2)]
  have ch: "old_bytes ?C (slot_of leaf_numbers j ts) 0 left old"
    by (rule old_bytes_child [OF "0"(8,13) L(2,1,3,5)])
  define p where p: "p = (if j < length ts then root_number (ts ! j) else 0)"
  have slot: "indirect_slot (file_offset pos div HODO_DATA_SIZE) cur = Inr j"
    using slots [of 0 cur] "0"(6) by (simp add: j_def)
  have tr: "j < length ts \<longrightarrow> tree_at ?C 0 (ts ! j)" using "0"(8) by (simp add: forest_at_def)
  show ?case
  proof (rule write_tree_step [OF mem _ slot "0"(2,4-10,12) r p])
    show "0 < n" using pos unfolding in_block_def by blast
    fix buf s1 assume b: "length buf = 4096" "\<forall>j<PTR_SLOTS. db_ptr j buf = 0" and s1: "same_store zinv zdata s s1"
    note same = same_storeD [OF s1]
    let ?b = "if p = 0 then db_set_magic (0x30 + of_nat 0) buf else the (?C p)"
    note leaf = child_leaf [OF tr p b(1)]
    have room: "wp_room zdata Z s1 (Suc (Suc k))" and free: "0 < free_numbers s1" using "0"(3,4) same(3,7) by simp_all
    have m: "p \<noteq> 0 \<Longrightarrow> contents zdata s1 p \<noteq> None" using leaf(5) same(2) by simp
    have old: "left = 0 \<or> old = db_data ?b"
      using ch unfolding leaf(3) by (auto simp: old_bytes_def own_number_def split: if_splits)
    obtain l' s2 where "write_one_block_by_direct_block K pos it p ?b s1 = Some (int n, l', rest_of n it, s2)"
      "store_ok zinv zdata mnt s2" "tree_at (contents zdata s2) 0 (PLeaf l')"
      "block_written (block_holds left old (take n (iov_data it))) 0 (contents zdata s1) (own_number p) (own_number p)
         (contents zdata s2) [l'] [l']" "wp_room zdata Z s2 (Suc k)" "free_numbers s1 \<le> Suc (free_numbers s2)"
      using write_leaf [OF same(1) [OF "0"(2)] room free mem pos leaf(1) m old] by metis
    then show "\<exists>c s2. (let b = ?b in
          if is_directblock b then write_one_block_by_direct_block K pos it p b s1
          else write_one_block_by_indirect_block K pos it p b s1) = Some (int n, root_number c, rest_of n it, s2) \<and>
        store_ok zinv zdata mnt s2 \<and> wp_room zdata Z s2 (Suc k) \<and> free_numbers s \<le> Suc 0 + free_numbers s2 \<and>
        tree_at (contents zdata s2) 0 c \<and>
        block_written (block_holds left old (take n (iov_data it))) 0 ?C (slot_of leaf_numbers j ts)
          (slot_of all_numbers j ts) (contents zdata s2) (leaf_numbers c) (all_numbers c)"
      using leaf(2) same(2,7) unfolding leaf(3,4) by (intro exI [of _ "PLeaf l'"] exI [of _ s2]) (simp add: Let_def)
  qed (use "0"(10) in blast)
next
  case (Suc d)
  note P = Suc.prems
  let ?C = "contents zdata s"
  define j q where "j = R div PTR_SLOTS ^ Suc d mod PTR_SLOTS" and q: "q = R mod PTR_SLOTS ^ Suc d"
  have N0: "0 < PTR_SLOTS" by (simp add: PTR_SLOTS_def)
  have r: "j = r div PTR_SLOTS ^ Suc d" "q = r mod PTR_SLOTS ^ Suc d" "j < PTR_SLOTS"
    unfolding P(11) j_def q by (simp_all only: radix_digit [OF N0]) (simp add: N0)
  note L = locate_uniform [OF P(8,12) r(1,2)]
  have ch: "old_bytes ?C (slot_of leaf_numbers j ts) q left old"
    by (rule old_bytes_child [OF P(8,13) L(2,1,3,5)])
  define p where p: "p = (if j < length ts then root_number (ts ! j) else 0)"
  have slot: "indirect_slot (file_offset pos div HODO_DATA_SIZE) cur = Inr j"
    using slots [OF P(1,6)] by (simp add: j_def)
  show ?case
  proof (rule write_tree_step [OF mem _ slot P(2,4-10,12) r p])
    show "0 < n" using pos unfolding in_block_def by blast
    fix buf s1 assume b: "length buf = 4096" "\<forall>j<PTR_SLOTS. db_ptr j buf = 0" and s1: "same_store zinv zdata s s1"
    note same = same_storeD [OF s1]
    let ?b = "if p = 0 then db_set_magic (0x30 + of_nat (Suc d)) buf else the (?C p)"
    have tr: "j < length ts \<longrightarrow> tree_at ?C (Suc d) (ts ! j)" using P(8) by (simp add: forest_at_def)
    obtain us where us: "length ?b = 4096" "has_level (0x31 + of_nat d) ?b" "points_to ?b us" "forest_at ?C (\<lambda>_. d) us"
      "slot_of leaf_numbers j ts = forest_leaves us" "slot_of all_numbers j ts = own_number p @ forest_numbers us"
      "p \<noteq> 0 \<longrightarrow> ?C p \<noteq> None"
      using child_node [OF tr p b] by metis
    have nd: "\<not> is_directblock ?b"
    proof -
      have "d = 0 \<or> d = 1" using P(1) D by auto
      then show ?thesis using us(2) unfolding has_level_def is_directblock_def by (elim disjE conjE) simp_all
    qed
    have D': "distinct (own_number p @ forest_numbers us)"
    proof -
      have "distinct (forest_numbers (take j ts) @ slot_of all_numbers j ts @ forest_numbers (drop (Suc j) ts))"
        using P(9) concat_slot [OF L(1), of all_numbers] by (metis distinct_append)
      then show ?thesis unfolding us(6) distinct_append by blast
    qed
    have "\<exists>l' ts' s'. write_one_block_by_indirect_block K pos it p ?b s1 = Some (int n, l', rest_of n it, s') \<and>
      store_ok zinv zdata mnt s' \<and> wp_room zdata Z s' (Suc k) \<and> free_numbers s1 \<le> Suc (Suc d) + free_numbers s' \<and>
      tree_written (block_holds left old (take n (iov_data it))) q (contents zdata s1) d p us (contents zdata s') l' ts'"
      by (rule Suc.IH [OF _ same(1) [OF P(2)] _ _ us(1-3) _ D'])
        (use P(1,3,4) L(3) ch same us q in \<open>simp_all\<close>)
    then obtain l' ts' s2 where s2: "write_one_block_by_indirect_block K pos it p ?b s1 = Some (int n, l', rest_of n it, s2)"
      "store_ok zinv zdata mnt s2" "wp_room zdata Z s2 (Suc k)" "free_numbers s1 \<le> Suc (Suc d) + free_numbers s2"
      "tree_written (block_holds left old (take n (iov_data it))) q (contents zdata s1) d p us (contents zdata s2) l' ts'"
      by blast
    show "\<exists>c s2. (let b = ?b in
          if is_directblock b then write_one_block_by_direct_block K pos it p b s1
          else write_one_block_by_indirect_block K pos it p b s1) = Some (int n, root_number c, rest_of n it, s2) \<and>
        store_ok zinv zdata mnt s2 \<and> wp_room zdata Z s2 (Suc k) \<and> free_numbers s \<le> Suc (Suc d) + free_numbers s2 \<and>
        tree_at (contents zdata s2) (Suc d) c \<and>
        block_written (block_holds left old (take n (iov_data it))) q ?C (slot_of leaf_numbers j ts)
          (slot_of all_numbers j ts) (contents zdata s2) (leaf_numbers c) (all_numbers c)"
      using s2 nd same(2,7) unfolding us(5,6) tree_written_def
      by (intro exI [of _ "PNode l' ts'"] exI [of _ s2]) (simp add: Let_def)
  qed (use P(10) in blast)
qed

end

section \<open>Files of any size\<close>

definition root_ptr :: "nat \<Rightarrow> bytes \<Rightarrow> u32" where
  "root_ptr k hi = (inode_directs hi @ inode_indirects hi) ! k"

definition set_root :: "nat \<Rightarrow> u32 \<Rightarrow> bytes \<Rightarrow> bytes" where
  "set_root k l hi = (if k < 10 then hi_set_direct k l hi else if k = 10 then hi_set_single l hi
     else if k = 11 then hi_set_double l hi else hi_set_triple l hi)"

lemma root_ptr_simps:
  "k < 10 \<Longrightarrow> root_ptr k hi = hi_direct k hi" "root_ptr 10 hi = hi_single hi" "root_ptr 11 hi = hi_double hi"
  "root_ptr 12 hi = hi_triple hi"
  by (simp_all add: root_ptr_def nth_append inode_indirects_def)

lemma root_cases: "k < 13 \<Longrightarrow> k < 10 \<or> k = 10 \<or> k = 11 \<or> k = (12 :: nat)"
  by linarith

lemma set_root_frame:
  assumes "length hi = 4096" "k < 13"
  shows "length (set_root k l hi) = 4096" "db_is_dat (set_root k l hi) = db_is_dat hi"
    "hi_ino (set_root k l hi) = hi_ino hi" "j < 13 \<Longrightarrow> root_ptr j (set_root k l hi) = (if j = k then l else root_ptr j hi)"
proof -
  show "length (set_root k l hi) = 4096" "db_is_dat (set_root k l hi) = db_is_dat hi"
    "hi_ino (set_root k l hi) = hi_ino hi"
    using assms by (simp_all add: set_root_def hi_defs db_is_dat_def layout_simps length_simps)
  show "root_ptr j (set_root k l hi) = (if j = k then l else root_ptr j hi)" if "j < 13"
    using root_cases [OF that] root_cases [OF assms(2)] assms(1)
    by (elim disjE) (auto simp: root_ptr_simps set_root_def hi_direct_set_direct, auto simp: hi_defs layout_simps)
qed

lemma set_len_root:
  assumes "length hi = 4096"
  shows "length (hi_set_file_len v hi) = 4096" "db_is_dat (hi_set_file_len v hi) = db_is_dat hi"
    "hi_ino (hi_set_file_len v hi) = hi_ino hi" "j < 13 \<Longrightarrow> root_ptr j (hi_set_file_len v hi) = root_ptr j hi"
    "hi_file_len (hi_set_file_len v hi) = v"
proof -
  note f = set_file_len_frame [OF assms, of v]
  show "length (hi_set_file_len v hi) = 4096" "db_is_dat (hi_set_file_len v hi) = db_is_dat hi"
    "hi_ino (hi_set_file_len v hi) = hi_ino hi" "hi_file_len (hi_set_file_len v hi) = v"
    using f assms by (simp_all add: length_simps)
  show "j < 13 \<Longrightarrow> root_ptr j (hi_set_file_len v hi) = root_ptr j hi"
    using f by (simp add: root_ptr_def inode_indirects_def)
qed

text \<open>A file: the trees behind its pointers, apart from each other and from the inode, and enough
  blocks for its length.\<close>

definition file_at :: "(u32 \<Rightarrow> bytes option) \<Rightarrow> u32 \<Rightarrow> bytes \<Rightarrow> ptree list \<Rightarrow> bool" where
  "file_at C dl hi fs \<longleftrightarrow> C dl = Some hi \<and> length hi = 4096 \<and> \<not> db_is_dat hi \<and> hi_ino hi = dl \<and> length fs \<le> 13 \<and>
     (\<forall>k<13. root_ptr k hi = (if k < length fs then root_number (fs ! k) else 0)) \<and> forest_at C root_depth fs \<and>
     distinct (dl # forest_numbers fs) \<and> unat (hi_file_len hi) \<le> length (forest_leaves fs) * HODO_DATA_SIZE"

text \<open>Its contents: the data of its blocks from left to right, up to the length.\<close>

definition block_data :: "(u32 \<Rightarrow> bytes option) \<Rightarrow> ptree list \<Rightarrow> bytes list" where
  "block_data C fs = map (\<lambda>l. db_data (the (C l))) (forest_leaves fs)"

definition tree_data :: "(u32 \<Rightarrow> bytes option) \<Rightarrow> bytes \<Rightarrow> ptree list \<Rightarrow> bytes" where
  "tree_data C hi fs = take (unat (hi_file_len hi)) (concat (block_data C fs))"

lemma block_data_lengths: "forest_at C dep fs \<Longrightarrow> \<forall>x \<in> set (block_data C fs). length x = HODO_DATA_SIZE"
  using forest_leaf [of C dep fs] by (fastforce simp: block_data_def length_db_data)

lemma length_tree_data: "file_at C dl hi fs \<Longrightarrow> length (tree_data C hi fs) = unat (hi_file_len hi)"
  using concat_uniform(1) [OF block_data_lengths, of C root_depth fs]
  by (simp add: tree_data_def file_at_def block_data_def)

lemma distinct_leaves_list:
  assumes "\<forall>t \<in> set ts. distinct (all_numbers t) \<longrightarrow> distinct (leaf_numbers t)" "distinct (forest_numbers ts)"
  shows "distinct (forest_leaves ts)"
  using assms
proof (induction ts)
  case (Cons t ts)
  have "set (all_numbers t) \<inter> set (forest_numbers ts) = {}" using Cons.prems(2) by simp
  then have "set (leaf_numbers t) \<inter> set (forest_leaves ts) = {}"
    using leaves_subset_numbers [of t] forest_leaves_subset [of ts] by blast
  then show ?case using Cons by simp
qed simp

lemma distinct_leaves: "distinct (all_numbers t) \<Longrightarrow> distinct (leaf_numbers t)"
proof (induction t)
  case (PNode l ts)
  have "distinct (forest_leaves ts)"
    by (rule distinct_leaves_list) (use PNode in auto)
  then show ?case by simp
qed simp

lemma distinct_forest_leaves: "distinct (forest_numbers ts) \<Longrightarrow> distinct (forest_leaves ts)"
  by (rule distinct_leaves_list) (simp_all add: distinct_leaves)

lemma take_concat_blocks:
  assumes "\<forall>x \<in> set A. length x = n" "i \<le> length A"
  shows "take (i * n) (concat A) = concat (take i A)"
proof -
  have "\<forall>x \<in> set (take i A). length x = n" using assms(1) by (auto dest: in_set_takeD)
  then have "length (concat (take i A)) = i * n" using concat_uniform(1) [of "take i A" n] assms(2) by simp
  moreover have "concat A = concat (take i A) @ concat (drop i A)" by (simp flip: concat_append)
  ultimately show ?thesis by simp
qed

text \<open>A block written at its place gives the reference update of the contents.\<close>

lemma tree_data_write:
  assumes F: "file_at C dl hi fs" and F': "forest_at C' root_depth fs'"
    and w: "block_written (block_holds left old got) i C (forest_leaves fs) A C' (forest_leaves fs') A'"
    and p: "p = i * HODO_DATA_SIZE + left" "left < HODO_DATA_SIZE" "p \<le> unat (hi_file_len hi)"
    and got: "left + length got \<le> HODO_DATA_SIZE" and old: "old_bytes C (forest_leaves fs) i left old"
    and len: "hi_file_len hi' = of_nat (p + length got)" "p + length got < 2 ^ 64"
  shows "tree_data C' hi' fs' = take p (tree_data C hi fs) @ got"
    "unat (hi_file_len hi') \<le> length (forest_leaves fs') * HODO_DATA_SIZE"
proof -
  let ?n = HODO_DATA_SIZE and ?L = "forest_leaves fs" and ?B = "block_data C fs" and ?B' = "block_data C' fs'"
  have FF: "forest_at C root_depth fs" "distinct (forest_numbers fs)" using F by (simp_all add: file_at_def)
  note u = block_data_lengths [OF FF(1)] and u' = block_data_lengths [OF F']
  have ul: "unat (hi_file_len hi') = p + length got" using len by (simp only: unat_of_nat) simp
  obtain x b where x: "forest_leaves fs' = take i ?L @ x # drop (Suc i) ?L" "if i < length ?L then x = ?L ! i else C x = None"
    "C' x = Some b" "block_holds left old got b" "\<forall>y \<in> set ?L. y \<noteq> x \<longrightarrow> C' y = C y" by (rule block_writtenE [OF w])
  have "unat (hi_file_len hi) \<le> length ?L * ?n" using F by (simp add: file_at_def)
  then have "i * ?n \<le> length ?L * ?n" using p(1,3) by linarith
  then have il: "i \<le> length ?L" by (simp add: HODO_DATA_SIZE_eq)
  then have i: "i \<le> length ?B" "i < length ?B'" by (simp_all add: block_data_def x(1))
  have same: "C' y = C y" if y: "y \<in> set (take i ?L)" for y
  proof -
    have yL: "y \<in> set ?L" using y by (rule in_set_takeD)
    moreover have "y \<noteq> x"
    proof (cases "i < length ?L")
      case True
      have "distinct (take i ?L @ ?L ! i # drop (Suc i) ?L)"
        using distinct_forest_leaves [OF FF(2)] id_take_nth_drop [OF True] by metis
      then show ?thesis using y x(2) True by auto
    next
      case False
      then show ?thesis using x(2) forest_leaf [OF FF(1) yL] by auto
    qed
    ultimately show ?thesis using x(5) by blast
  qed
  have "take i ?B' = map (\<lambda>l. db_data (the (C' l))) (take i ?L)"
    using il by (simp add: block_data_def x(1) take_map)
  also have "\<dots> = take i ?B" unfolding block_data_def take_map using same by (intro map_cong) simp_all
  finally have before: "take i ?B' = take i ?B" .
  have at: "?B' ! i = db_data b" using il x(3) by (simp add: block_data_def x(1) nth_append)
  have b: "take (left + length got) (db_data b) = take left old @ got" using x(4) by (simp add: block_holds_def)
  have oldp: "take p (concat ?B) = take (i * ?n) (concat ?B) @ take left old"
  proof (cases "left = 0")
    case False
    then have o: "i < length ?L" "old = ?B ! i" using old by (simp_all add: old_bytes_def block_data_def)
    then have "i < length ?B" by (simp add: block_data_def)
    then show ?thesis using concat_uniform(2) [OF u, of i left] o(2) p(1,2) by simp
  qed (use p(1) in simp)
  have "take (p + length got) (concat ?B') = take (i * ?n) (concat ?B') @ take (left + length got) (db_data b)"
    using concat_uniform(2) [OF u' i(2) got] p(1) at by (simp add: add.assoc)
  also have "take (i * ?n) (concat ?B') = take (i * ?n) (concat ?B)"
    using take_concat_blocks [OF u i(1)] take_concat_blocks [OF u', of i] i(2) before by simp
  finally have "take (p + length got) (concat ?B') = take p (concat ?B) @ got" unfolding b oldp by simp
  then show "tree_data C' hi' fs' = take p (tree_data C hi fs) @ got"
    unfolding tree_data_def ul using p(3) by (simp add: min_def)
  have "p + length got \<le> Suc i * ?n" using p(1) got by simp
  also have "\<dots> \<le> length (forest_leaves fs') * ?n" using il by (intro mult_right_mono) (simp_all add: x(1))
  finally show "unat (hi_file_len hi') \<le> length (forest_leaves fs') * ?n" unfolding ul .
qed

context zone_store
begin

text \<open>The block behind the pointer that \<open>write_one_block\<close> chooses.\<close>

lemma write_root:
  assumes mem: "tree_memory K" and pos: "in_block pos it left n" and i: "i = file_offset pos div HODO_DATA_SIZE" "i < MAX_BLOCKS"
    and ok: "store_ok zinv zdata mnt s" and F: "forest_at (contents zdata s) root_depth fs" and D: "distinct (forest_numbers fs)"
    and fs: "length fs \<le> 13" "i \<le> length (forest_leaves fs)" and old: "old_bytes (contents zdata s) (forest_leaves fs) i left old"
    and k: "k = tree_index i" and buf: "length buf = 4096" "\<forall>j<PTR_SLOTS. db_ptr j buf = 0"
    and room: "wp_room zdata Z s (Suc (root_depth k) + m)" and free: "Suc (root_depth k) \<le> free_numbers s"
    and p: "p = (if k < length fs then root_number (fs ! k) else 0)"
  shows "\<exists>c b s1 s2. load_or_new K p (0x30 + of_nat (root_depth k)) buf s = Some (b, s1) \<and>
    (if k < 10 then write_one_block_by_direct_block K pos it p b s1
     else write_one_block_by_indirect_block K pos it p b s1) = Some (int n, root_number c, rest_of n it, s2) \<and>
    store_ok zinv zdata mnt s2 \<and> wp_room zdata Z s2 m \<and> free_numbers s \<le> Suc (root_depth k) + free_numbers s2 \<and>
    forest_at (contents zdata s2) root_depth (put_tree k c fs) \<and>
    block_written (block_holds left old (take n (iov_data it))) i (contents zdata s) (forest_leaves fs) (forest_numbers fs)
      (contents zdata s2) (forest_leaves (put_tree k c fs)) (forest_numbers (put_tree k c fs))"
proof -
  let ?C = "contents zdata s" and ?Q = "block_holds left old (take n (iov_data it))"
  define q where "q = i - tree_start k"
  note L = locate_root [OF F fs(2) i(2) fs(1) k q_def]
  have ch: "old_bytes ?C (slot_of leaf_numbers k fs) q left old"
    by (rule old_bytes_child [OF F old L(2,1,3,6)])
  define b where "b = (if p = 0 then db_set_magic (0x30 + of_nat (root_depth k)) buf else the (?C p))"
  have pc: "?C p = Some (the (?C p))" if "p \<noteq> 0"
  proof -
    have kf: "k < length fs" "p = root_number (fs ! k)" using p that by (simp_all split: if_splits)
    then have "?C (root_number (fs ! k)) \<noteq> None"
      using F tree_at_mapped [of ?C "root_depth k" "fs ! k"] by (simp add: forest_at_def)
    then show ?thesis using kf(2) by simp
  qed
  obtain s1 where s1: "load_or_new K p (0x30 + of_nat (root_depth k)) buf s = Some (b, s1)" "same_store zinv zdata s s1"
    using load_block [OF ok buf(1) pc] unfolding b_def by blast
  note same = same_storeD [OF s1(2)]
  have room1: "wp_room zdata Z s1 (Suc (root_depth k) + m)" and free1: "Suc (root_depth k) \<le> free_numbers s1"
    using room free same(3,7) by simp_all
  have "\<exists>c s2. (if k < 10 then write_one_block_by_direct_block K pos it p b s1
      else write_one_block_by_indirect_block K pos it p b s1) = Some (int n, root_number c, rest_of n it, s2) \<and>
    store_ok zinv zdata mnt s2 \<and> wp_room zdata Z s2 m \<and> free_numbers s1 \<le> Suc (root_depth k) + free_numbers s2 \<and>
    tree_at (contents zdata s2) (root_depth k) c \<and>
    block_written ?Q q ?C (slot_of leaf_numbers k fs) (slot_of all_numbers k fs) (contents zdata s2) (leaf_numbers c) (all_numbers c)"
  proof (cases "k < 10")
    case True
    then have d: "root_depth k = 0" by (simp add: root_depth_def)
    have tr: "k < length fs \<longrightarrow> tree_at ?C 0 (fs ! k)" using F d unfolding forest_at_def by metis
    have leaf: "length b = 4096" "is_directblock b" "slot_of leaf_numbers k fs = own_number p"
      "slot_of all_numbers k fs = own_number p" "p \<noteq> 0 \<longrightarrow> ?C p \<noteq> None"
      using child_leaf [OF tr p buf(1)] by (simp_all only: b_def d)
    have q: "q = 0" using L(6) d by simp
    have o: "left = 0 \<or> old = db_data b"
      using ch unfolding leaf(3) by (auto simp: old_bytes_def own_number_def b_def split: if_splits)
    have m1: "p \<noteq> 0 \<Longrightarrow> contents zdata s1 p \<noteq> None" using leaf(5) same(2) by simp
    have r: "wp_room zdata Z s1 (Suc m)" and f: "0 < free_numbers s1" using room1 free1 d by simp_all
    obtain l' s2 where "write_one_block_by_direct_block K pos it p b s1 = Some (int n, l', rest_of n it, s2)"
      "store_ok zinv zdata mnt s2" "tree_at (contents zdata s2) 0 (PLeaf l')"
      "block_written ?Q 0 (contents zdata s1) (own_number p) (own_number p) (contents zdata s2) [l'] [l']"
      "wp_room zdata Z s2 m" "free_numbers s1 \<le> Suc (free_numbers s2)"
      using write_leaf [OF same(1) [OF ok] r f mem pos leaf(1) m1 o] by metis
    then show ?thesis using True same(2) unfolding leaf(3,4) d q
      by (intro exI [of _ "PLeaf l'"] exI [of _ s2]) simp
  next
    case False
    then obtain d where d: "root_depth k = Suc d" "d \<le> 2" using L(7) by (auto simp: root_depth_def intro: that [of "k - 10"])
    have tr: "k < length fs \<longrightarrow> tree_at ?C (Suc d) (fs ! k)" using F d(1) unfolding forest_at_def by metis
    obtain us where us: "length b = 4096" "has_level (0x31 + of_nat d) b" "points_to b us" "forest_at ?C (\<lambda>_. d) us"
      "slot_of leaf_numbers k fs = forest_leaves us" "slot_of all_numbers k fs = own_number p @ forest_numbers us"
      "p \<noteq> 0 \<longrightarrow> ?C p \<noteq> None"
      using child_node [OF tr p buf] unfolding b_def d(1) by metis
    have i10: "10 \<le> i" using False k by (simp add: tree_index_def split: if_splits)
    have slots: "indirect_slot (file_offset pos div HODO_DATA_SIZE) b' = Inr (q div PTR_SLOTS ^ e mod PTR_SLOTS)"
      if "e \<le> d" "has_level (0x31 + of_nat e) b'" for e b'
      using indirect_slot_level [OF i10 i(2) _ that(2)] that(1) d(1) by (simp add: q_def k i(1))
    have D': "distinct (own_number p @ forest_numbers us)"
    proof -
      have "distinct (forest_numbers (take k fs) @ slot_of all_numbers k fs @ forest_numbers (drop (Suc k) fs))"
        using D concat_slot [OF L(1), of all_numbers] by metis
      then show ?thesis unfolding us(6) distinct_append by blast
    qed
    have qm: "q = q mod PTR_SLOTS ^ Suc d" using L(6) d(1) by simp
    have "\<exists>l' ts' s'. write_one_block_by_indirect_block K pos it p b s1 = Some (int n, l', rest_of n it, s') \<and>
      store_ok zinv zdata mnt s' \<and> wp_room zdata Z s' m \<and> free_numbers s1 \<le> Suc (Suc d) + free_numbers s' \<and>
      tree_written ?Q q (contents zdata s1) d p us (contents zdata s') l' ts'"
      by (rule write_tree [where D = d, OF mem pos d(2) slots order_refl same(1) [OF ok] _ _ us(1-3) _ D' _ qm])
        (use room1 free1 d(1) L(3) ch same us in simp_all)
    then obtain l' ts' s2 where "write_one_block_by_indirect_block K pos it p b s1 = Some (int n, l', rest_of n it, s2)"
      "store_ok zinv zdata mnt s2" "wp_room zdata Z s2 m" "free_numbers s1 \<le> Suc (Suc d) + free_numbers s2"
      "tree_written ?Q q (contents zdata s1) d p us (contents zdata s2) l' ts'" by blast
    then show ?thesis using False same(2) unfolding us(5,6) d(1) tree_written_def
      by (intro exI [of _ "PNode l' ts'"] exI [of _ s2]) simp
  qed
  then obtain c s2 where c: "(if k < 10 then write_one_block_by_direct_block K pos it p b s1
      else write_one_block_by_indirect_block K pos it p b s1) = Some (int n, root_number c, rest_of n it, s2)"
    "store_ok zinv zdata mnt s2" "wp_room zdata Z s2 m" "free_numbers s1 \<le> Suc (root_depth k) + free_numbers s2"
    "tree_at (contents zdata s2) (root_depth k) c"
    "block_written ?Q q ?C (slot_of leaf_numbers k fs) (slot_of all_numbers k fs) (contents zdata s2) (leaf_numbers c) (all_numbers c)"
    by blast
  note P = forest_put [OF F D L(1,4) c(6,5) L(6,3,2)]
  show ?thesis using s1(1) c(1-4) P same(7) by (intro exI [of _ c] exI [of _ b] exI [of _ s1] exI [of _ s2]) simp
qed

end

text \<open>\<open>write_one_block\<close>, by the pointer it chooses.\<close>

lemma write_one_block_root:
  assumes r: "hodo_read_struct K (ucast (vi_ino vi)) (k_stack K 4) HODO_DATABLOCK_SIZE s = Some (4096, hi, s0)"
    and m: "k_kmalloc K 13 = Some buf" and iocb: "iocb = (if ki_append iocb0 then iocb0\<lparr>ki_pos := vi_size vi\<rparr> else iocb0)"
    and i: "i = file_offset (ki_pos iocb) div HODO_DATA_SIZE" "i < MAX_BLOCKS" and k: "k = tree_index i"
    and l: "load_or_new K (root_ptr k hi) (0x30 + of_nat (root_depth k)) buf s0 = Some (b, s1)"
    and w: "(if k < 10 then write_one_block_by_direct_block K (ki_pos iocb) it (root_ptr k hi) b s1
      else write_one_block_by_indirect_block K (ki_pos iocb) it (root_ptr k hi) b s1) = Some (w, l', it', s2)"
  shows "write_one_block K vi iocb0 it s = finish_write K vi iocb w (set_root k l' hi) it' s2"
proof -
  let ?N = PTR_SLOTS
  have N: "HODO_DATA_SIZE div BLOCK_PTR_SZ = ?N" by (simp add: const_simps)
  note e = write_one_block_def r iocb [symmetric] Let_def i(1) [symmetric] N m
  have ub: "i < 10 + ?N + ?N * ?N + ?N * ?N * ?N" using i(2) by (simp add: MAX_BLOCKS_def)
  consider "i < 10" | "\<not> i < 10" "i < 10 + ?N" | "\<not> i < 10 + ?N" "i < 10 + ?N + ?N * ?N" | "\<not> i < 10 + ?N + ?N * ?N" by blast
  then show ?thesis
  proof cases
    case 1
    then show ?thesis using l w unfolding e by (simp add: k tree_index_def root_depth_def root_ptr_simps set_root_def)
  next
    case 2
    then have "k = 10" by (simp add: k tree_index_def)
    then show ?thesis using 2 l w unfolding e by (simp add: root_depth_def root_ptr_simps set_root_def)
  next
    case 3
    then have "k = 11" by (simp add: k tree_index_def)
    then show ?thesis using 3 l w unfolding e by (simp add: root_depth_def root_ptr_simps set_root_def)
  next
    case 4
    then have "k = 12" by (simp add: k tree_index_def)
    then show ?thesis using 4 l w ub unfolding e by (simp add: root_depth_def root_ptr_simps set_root_def)
  qed
qed

text \<open>The memory of a write: stack, and heap blocks whose pointers are null where they become
  indirect blocks.\<close>

definition file_memory :: "'z kernel \<Rightarrow> bool" where
  "file_memory K \<longleftrightarrow> tree_memory K \<and> length (k_stack K 4) = 4096 \<and>
     (\<exists>b. k_kmalloc K 13 = Some b \<and> length b = 4096 \<and> (\<forall>j<PTR_SLOTS. db_ptr j b = 0))"

text \<open>What a write leaves alone.\<close>

definition tree_frame :: "(u32 \<Rightarrow> bytes option) \<Rightarrow> u32 \<Rightarrow> ptree list \<Rightarrow> (u32 \<Rightarrow> bytes option) \<Rightarrow> ptree list \<Rightarrow> bool" where
  "tree_frame C dl fs C' fs' \<longleftrightarrow>
     (\<forall>l. C l \<noteq> None \<and> l \<noteq> dl \<and> l \<notin> set (forest_numbers fs) \<longrightarrow> C' l = C l) \<and>
     (\<forall>l \<in> set (forest_numbers fs'). l \<in> set (forest_numbers fs) \<or> C l = None)"

definition tree_wrote ::
  "('z \<Rightarrow> bool) \<Rightarrow> ('z \<Rightarrow> nat \<Rightarrow> bytes) \<Rightarrow> string \<Rightarrow> u32 \<Rightarrow> bytes \<Rightarrow> ptree list \<Rightarrow> nat \<Rightarrow> bytes \<Rightarrow>
     'z hodo_state \<Rightarrow> bytes \<Rightarrow> ptree list \<Rightarrow> 'z hodo_state \<Rightarrow> bool"
where
  "tree_wrote zinv zdata mnt dl hi fs p new s hi' fs' s' \<longleftrightarrow>
     store_ok zinv zdata mnt s' \<and> file_at (contents zdata s') dl hi' fs' \<and>
     tree_data (contents zdata s') hi' fs' = take p (tree_data (contents zdata s) hi fs) @ new \<and>
     tree_frame (contents zdata s) dl fs (contents zdata s') fs'"

lemma max_offset: "p < MAX_BLOCKS * HODO_DATA_SIZE \<Longrightarrow> file_offset (int p) = p"
  by (rule trans [OF file_offset_nat]) (simp_all add: MAX_BLOCKS_def PTR_SLOTS_def HODO_DATA_SIZE_eq)

context zone_store
begin

lemma write_one_block_tree:
  assumes ok: "store_ok zinv zdata mnt s" and f: "file_at (contents zdata s) dl hi fs" and dl: "dl = ucast (vi_ino vi)"
    and room: "wp_room zdata Z s (5 + m)" and free: "4 \<le> free_numbers s" and mem: "file_memory K"
    and it: "length (iov_data it) = iov_count it" "0 < iov_count it"
    and pos: "write_pos vi iocb = int p" "p \<le> unat (hi_file_len hi)" "p < MAX_BLOCKS * HODO_DATA_SIZE"
    and n: "n = block_bytes p it"
  obtains s' hi' fs' where "write_one_block K vi iocb it s =
      Some (int n, iocb\<lparr>ki_pos := int (p + n)\<rparr>, rest_of n it, vi\<lparr>vi_size := int (p + n)\<rparr>, s')"
    "tree_wrote zinv zdata mnt dl hi fs p (take n (iov_data it)) s hi' fs' s'" "wp_room zdata Z s' m"
    "free_numbers s \<le> 4 + free_numbers s'"
proof -
  obtain buf where b: "k_kmalloc K 13 = Some buf" "length buf = 4096" "\<forall>j<PTR_SLOTS. db_ptr j buf = 0"
    "length (k_stack K 4) = 4096" and tm: "tree_memory K"
    using mem by (auto simp: file_memory_def)
  have D: "contents zdata s dl = Some hi" "length hi = 4096" "\<not> db_is_dat hi" "hi_ino hi = dl" "length fs \<le> 13"
    "\<forall>k<13. root_ptr k hi = (if k < length fs then root_number (fs ! k) else 0)" "forest_at (contents zdata s) root_depth fs"
    "distinct (dl # forest_numbers fs)" "unat (hi_file_len hi) \<le> length (forest_leaves fs) * HODO_DATA_SIZE"
    using f unfolding file_at_def by blast+
  obtain s0 where s0: "hodo_read_struct K dl (k_stack K 4) HODO_DATABLOCK_SIZE s = Some (4096, hi, s0)"
    "same_store zinv zdata s s0" "store_ok zinv zdata mnt s0" "contents zdata s0 = contents zdata s"
    by (rule read_block [OF ok D(1) b(4)])
  note same = same_storeD [OF s0(2)]
  define i left where i: "i = p div HODO_DATA_SIZE" and left: "left = p mod HODO_DATA_SIZE"
  have p: "p = i * HODO_DATA_SIZE + left" "left < HODO_DATA_SIZE" unfolding i left by (simp_all add: HODO_DATA_SIZE_eq)
  have off: "file_offset (int p) = p" by (rule max_offset [OF pos(3)])
  have imax: "i < MAX_BLOCKS" using pos(3) unfolding i by (simp add: less_mult_imp_div_less)
  let ?L = "forest_leaves fs" and ?got = "take n (iov_data it)" and ?C = "contents zdata s"
  have le: "i * HODO_DATA_SIZE + left \<le> length ?L * HODO_DATA_SIZE" using p(1) pos(2) D(9) by linarith
  then have iL: "i \<le> length ?L" using p(2) by (simp add: HODO_DATA_SIZE_eq)
  have "i < length ?L" if "left \<noteq> 0"
  proof (rule ccontr)
    assume "\<not> i < length ?L"
    then have "i = length ?L" using iL by simp
    then show False using le that by simp
  qed
  then have old: "old_bytes ?C ?L i left (db_data (the (?C (?L ! i))))" by (auto simp: old_bytes_def)
  have ib: "in_block (int p) it left n"
    using it p(2) by (auto simp: in_block_def off left n block_bytes_def)
  define k where "k = tree_index i"
  have k13: "k < 13" unfolding k_def by (rule tree_index_bounds(1) [OF imax])
  have d3: "root_depth k \<le> 3" using k13 by (simp add: root_depth_def)
  have rp: "root_ptr k hi = (if k < length fs then root_number (fs ! k) else 0)" using D(6) k13 by blast
  have room0: "wp_room zdata Z s0 (Suc (root_depth k) + Suc m)" by (rule wp_room_mono [where m = "5 + m"]) (use room same(3) d3 in simp_all)
  have free0: "Suc (root_depth k) \<le> free_numbers s0" using free same(7) d3 by simp
  have D0: "distinct (forest_numbers fs)" using D(8) by simp
  have i0: "i = file_offset (int p) div HODO_DATA_SIZE" by (simp add: off i)
  obtain c cb s1 s2 where r: "load_or_new K (root_ptr k hi) (0x30 + of_nat (root_depth k)) buf s0 = Some (cb, s1)"
    "(if k < 10 then write_one_block_by_direct_block K (int p) it (root_ptr k hi) cb s1
     else write_one_block_by_indirect_block K (int p) it (root_ptr k hi) cb s1) = Some (int n, root_number c, rest_of n it, s2)"
    "store_ok zinv zdata mnt s2" "wp_room zdata Z s2 (Suc m)" "free_numbers s0 \<le> Suc (root_depth k) + free_numbers s2"
    "forest_at (contents zdata s2) root_depth (put_tree k c fs)"
    "block_written (block_holds left (db_data (the (?C (?L ! i)))) ?got) i ?C ?L (forest_numbers fs)
      (contents zdata s2) (forest_leaves (put_tree k c fs)) (forest_numbers (put_tree k c fs))"
    using write_root [OF tm ib i0 imax s0(3) _ D0 D(5) iL _ k_def b(2,3) room0 free0 rp, unfolded s0(4), OF D(7) old] by blast
  note W = block_writtenD [OF r(7)]
  have kl: "k \<le> length fs" by (rule locate_root(1) [OF D(7) iL imax D(5) k_def refl])
  define hi2 where "hi2 = hi_set_file_len (of_nat (p + n)) (set_root k (root_number c) hi)"
  note g = set_root_frame [where l = "root_number c", OF D(2) k13]
  have h2: "length hi2 = 4096" "\<not> db_is_dat hi2" "hi_ino hi2 = dl" "hi_file_len hi2 = of_nat (p + n)"
    "\<And>j. j < 13 \<Longrightarrow> root_ptr j hi2 = (if j = k then root_number c else root_ptr j hi)"
    unfolding hi2_def using set_len_root [where v = "of_nat (p + n)", OF g(1)] g D(3,4) by simp_all
  have dm: "?C dl \<noteq> None" "contents zdata s2 dl \<noteq> None" using D(1) W(2) by simp_all
  have nd: "num_ok s2 dl" by (rule mapped_num_ok [OF r(3) dm(2)])
  obtain s3 where s3: "hodo_write_struct K hi2 HODO_DATABLOCK_SIZE dl s2 = Some (4096, hi2, dl, s3)"
    "store_ok zinv zdata mnt s3" "contents zdata s3 = (contents zdata s2)(dl \<mapsto> hi2)" "wp_room zdata Z s3 m"
    "free_numbers s3 = free_numbers s2"
    by (rule write_inode [OF r(3,4) nd h2(1-3)])
  have dl0: "dl \<noteq> 0" using nd by (simp add: num_ok_def)
  have rw: "root_written ?C fs dl (contents zdata s2) dl" using dl0 dm(1) D(8) by (simp add: root_written_def)
  note R = rewrite_root [OF D(7) r(6) r(7) rw s3(3)]
  have lg: "length ?got = n" "left + length ?got \<le> HODO_DATA_SIZE" using ib p(2) by (simp_all add: in_block_def)
  have small: "p + length ?got < 2 ^ 64"
    using pos(3) lg p(2) by (simp add: MAX_BLOCKS_def PTR_SLOTS_def HODO_DATA_SIZE_eq)
  note T = tree_data_write [where hi' = hi2, OF f R(1,3) p pos(2) lg(2) old _ small, unfolded lg(1), OF h2(4)]
  have "file_at (contents zdata s3) dl hi2 (put_tree k c fs)"
    unfolding file_at_def
  proof (intro conjI allI impI)
    show "contents zdata s3 dl = Some hi2" by (simp add: s3(3))
    show "length (put_tree k c fs) \<le> 13" using kl k13 D(5) by simp
    show "root_ptr j hi2 = (if j < length (put_tree k c fs) then root_number (put_tree k c fs ! j) else 0)" if "j < 13" for j
      using that h2(5) D(6) kl by (auto simp: nth_put_tree)
    show "distinct (dl # forest_numbers (put_tree k c fs))" by (rule block_writtenD(4) [OF R(3)])
  qed (use h2(1-3) R(1) T(2) in simp_all)
  moreover have "tree_frame ?C dl fs (contents zdata s3) (put_tree k c fs)"
    unfolding tree_frame_def
  proof (intro conjI allI impI ballI)
    show "contents zdata s3 l = ?C l" if "?C l \<noteq> None \<and> l \<noteq> dl \<and> l \<notin> set (forest_numbers fs)" for l
      using block_writtenD(1) [OF R(3), of l] that dl0 by (simp add: own_number_def)
    show "l \<in> set (forest_numbers fs) \<or> ?C l = None" if "l \<in> set (forest_numbers (put_tree k c fs))" for l
      using W(3) [OF that] .
  qed
  ultimately have tw: "tree_wrote zinv zdata mnt dl hi fs p ?got s hi2 (put_tree k c fs) s3"
    using s3(2) T(1) by (simp add: tree_wrote_def)
  define iocb' where "iocb' = (if ki_append iocb then iocb\<lparr>ki_pos := vi_size vi\<rparr> else iocb)"
  have ip: "ki_pos iocb' = int p" "iocb'\<lparr>ki_pos := x\<rparr> = iocb\<lparr>ki_pos := x\<rparr>" for x
    using pos(1) by (simp_all add: write_pos_def iocb'_def split: if_splits)
  have "write_one_block K vi iocb it s = finish_write K vi iocb' (int n) (set_root k (root_number c) hi) (rest_of n it) s2"
    by (rule write_one_block_root [OF s0(1) [unfolded dl] b(1) iocb'_def _ imax k_def r(1)]) (unfold ip(1), rule i0, rule r(2))
  also have "\<dots> = Some (int n, iocb\<lparr>ki_pos := int (p + n)\<rparr>, rest_of n it, vi\<lparr>vi_size := int (p + n)\<rparr>, s3)"
    using s3(1) by (simp add: finish_write_def ip dl hi2_def)
  finally have e: "write_one_block K vi iocb it s =
      Some (int n, iocb\<lparr>ki_pos := int (p + n)\<rparr>, rest_of n it, vi\<lparr>vi_size := int (p + n)\<rparr>, s3)" .
  have "free_numbers s \<le> 4 + free_numbers s3" using r(5) same(7) s3(5) d3 by simp
  then show thesis by (rule that [OF e tw s3(4)])
qed

end

section \<open>Finding a block\<close>

context zone_store
begin

lemma read_pointer:
  assumes "store_ok zinv zdata mnt s" "contents zdata s l = Some c" "length buf = 4096" "i < PTR_SLOTS"
  obtains s' where "read_ptr K l i buf s = Some (db_ptr i c, c, s')" "same_store zinv zdata s s'"
proof -
  obtain s' where "hodo_read_struct K l buf HODO_DATABLOCK_SIZE s = Some (4096, c, s')" "same_store zinv zdata s s'"
    by (rule read_block [OF assms(1-3)])
  then show thesis using that assms(4) by (simp add: read_ptr_def)
qed

lemma read_down:
  assumes ok: "store_ok zinv zdata mnt s" and s1: "same_store zinv zdata s s1" and tmp: "length tmp = 4096"
    and t: "tree_at (contents zdata s) (Suc d) t" "q < length (leaf_numbers t)"
  obtains c u s2 where "read_ptr K (root_number t) (q div PTR_SLOTS ^ d) tmp s1 = Some (root_number u, c, s2)"
    "same_store zinv zdata s s2" "length c = 4096" "tree_at (contents zdata s) d u"
    "q mod PTR_SLOTS ^ d < length (leaf_numbers u)" "leaf_numbers t ! q = leaf_numbers u ! (q mod PTR_SLOTS ^ d)"
proof -
  note same = same_storeD [OF s1]
  obtain c u where u: "contents zdata s (root_number t) = Some c" "length c = 4096" "q div PTR_SLOTS ^ d < PTR_SLOTS"
    "db_ptr (q div PTR_SLOTS ^ d) c = root_number u" "tree_at (contents zdata s) d u"
    "q mod PTR_SLOTS ^ d < length (leaf_numbers u)" "leaf_numbers t ! q = leaf_numbers u ! (q mod PTR_SLOTS ^ d)"
    by (rule tree_descend [OF t])
  have c1: "contents zdata s1 (root_number t) = Some c" using u(1) same(2) by simp
  obtain s2 where s2: "read_ptr K (root_number t) (q div PTR_SLOTS ^ d) tmp s1 = Some (root_number u, c, s2)"
    "same_store zinv zdata s1 s2"
    by (rule read_pointer [OF same(1) [OF ok] c1 tmp u(3), unfolded u(4)])
  show thesis by (rule that [OF s2(1) same_store_trans [OF s1 s2(2)] u(2,5-7)])
qed

text \<open>\<open>hodo_read_nth_block\<close> reads block \<open>j\<close> of the blocks from left to right.\<close>

lemma read_tree_block:
  assumes ok: "store_ok zinv zdata mnt s" and F: "forest_at (contents zdata s) root_depth fs" "length fs \<le> 13"
    and roots: "\<forall>k<13. root_ptr k hi = (if k < length fs then root_number (fs ! k) else 0)"
    and j: "j < length (forest_leaves fs)" "j < MAX_BLOCKS" and dst: "length dst = 4096"
    and mem: "k_kmalloc K 12 = Some tmp" "length tmp = 4096"
  obtains s' where "hodo_read_nth_block K hi (int j) dst s = Some (the (contents zdata s (forest_leaves fs ! j)), s')"
    "same_store zinv zdata s s'"
proof -
  let ?C = "contents zdata s" and ?N = PTR_SLOTS
  note result = that
  define k q where "k = tree_index j" and "q = j - tree_start k"
  note L = file_leaf [OF F j k_def q_def]
  have k13: "k < 13" using tree_index_bounds(1) [OF j(2)] by (simp add: k_def)
  define t where "t = fs ! k"
  have t: "tree_at ?C (root_depth k) t" "q < length (leaf_numbers t)" "forest_leaves fs ! j = leaf_numbers t ! q"
    using F(1) L by (simp_all add: forest_at_def t_def)
  have rp: "root_ptr k hi = root_number t" using roots k13 L(1) by (simp add: t_def)
  have jq: "int j = int (tree_start k + q)" using tree_index_bounds(2) [OF j(2)] by (simp add: k_def q_def)
  have qb: "q < ?N ^ root_depth k" using tree_index_bounds(3) [OF j(2)] by (simp add: k_def q_def)
  have final: thesis if leaf: "tree_at ?C 0 u" "i < length (leaf_numbers u)" "forest_leaves fs ! j = leaf_numbers u ! i"
    and s1: "same_store zinv zdata s s1"
    and call: "\<And>b s2. hodo_read_struct K (root_number u) dst HODO_DATABLOCK_SIZE s1 = Some (4096, b, s2) \<Longrightarrow>
      hodo_read_nth_block K hi (int j) dst s = Some (b, s2)" for u i s1
  proof -
    obtain l b where b: "u = PLeaf l" "?C l = Some b" using leaf(1) unfolding tree_at_0 by blast
    note same = same_storeD [OF s1]
    have b1: "contents zdata s1 l = Some b" using b(2) same(2) by simp
    obtain s2 where s2: "hodo_read_struct K l dst HODO_DATABLOCK_SIZE s1 = Some (4096, b, s2)" "same_store zinv zdata s1 s2"
      by (rule read_block [OF same(1) [OF ok] b1 dst])
    have "forest_leaves fs ! j = l" using leaf(2,3) b(1) by simp
    then show thesis using result [of s2] call s2 b same_store_trans [OF s1] by simp
  qed
  consider "k < 10" | "k = 10" | "k = 11" | "k = 12" using root_cases [OF k13] by blast
  then show thesis
  proof cases
    case 1
    then have d: "root_depth k = 0" "tree_start k = k" by (simp_all add: root_depth_def tree_start_def)
    have "j = k" using jq qb d by simp
    then show thesis using 1 rp
      by (intro final [OF t(1) [unfolded d(1)] t(2,3) same_store_refl [OF ok]])
        (simp add: hodo_read_nth_block_def root_ptr_simps)
  next
    case 2
    then have d: "root_depth k = Suc 0" "int j = 10 + int q" "q < 1022"
      using jq qb by (simp_all add: root_depth_def tree_start_def PTR_SLOTS_def)
    obtain c1 u1 s1 where u1: "read_ptr K (root_number t) (q div ?N ^ 0) tmp s = Some (root_number u1, c1, s1)"
      "same_store zinv zdata s s1" "tree_at ?C 0 u1" "q mod ?N ^ 0 < length (leaf_numbers u1)"
      "leaf_numbers t ! q = leaf_numbers u1 ! (q mod ?N ^ 0)"
      by (rule read_down [OF ok same_store_refl [OF ok] mem(2) t(1) [unfolded d(1)] t(2)])
    show thesis
      by (rule final [OF u1(3,4) trans [OF t(3) u1(5)] u1(2)])
        (use d rp 2 mem(1) u1(1) in \<open>simp add: hodo_read_nth_block_def root_ptr_simps\<close>)
  next
    case 3
    then have d: "root_depth k = Suc (Suc 0)" "int j = 10 + 1022 + int q" "q < 1022 * 1022"
      using jq qb by (simp_all add: root_depth_def tree_start_def PTR_SLOTS_def)
    obtain c1 u1 s1 where u1: "read_ptr K (root_number t) (q div ?N ^ Suc 0) tmp s = Some (root_number u1, c1, s1)"
      "same_store zinv zdata s s1" "length c1 = 4096" "tree_at ?C (Suc 0) u1" "q mod ?N ^ Suc 0 < length (leaf_numbers u1)"
      "leaf_numbers t ! q = leaf_numbers u1 ! (q mod ?N ^ Suc 0)"
      by (rule read_down [OF ok same_store_refl [OF ok] mem(2) t(1) [unfolded d(1)] t(2)])
    obtain c2 u2 s2 where u2: "read_ptr K (root_number u1) (q mod ?N ^ Suc 0 div ?N ^ 0) c1 s1 = Some (root_number u2, c2, s2)"
      "same_store zinv zdata s s2" "tree_at ?C 0 u2" "q mod ?N ^ Suc 0 mod ?N ^ 0 < length (leaf_numbers u2)"
      "leaf_numbers u1 ! (q mod ?N ^ Suc 0) = leaf_numbers u2 ! (q mod ?N ^ Suc 0 mod ?N ^ 0)"
      by (rule read_down [OF ok u1(2-5)])
    show thesis
      by (rule final [OF u2(3,4) trans [OF t(3) trans [OF u1(6) u2(5)]] u2(2)])
        (use d rp 3 mem(1) u1(1) u2(1) in \<open>simp add: hodo_read_nth_block_def root_ptr_simps PTR_SLOTS_def\<close>)
  next
    case 4
    then have d: "root_depth k = Suc (Suc (Suc 0))" "int j = 10 + 1022 + 1022 * 1022 + int q"
      using jq by (simp_all add: root_depth_def tree_start_def PTR_SLOTS_def)
    obtain c1 u1 s1 where u1: "read_ptr K (root_number t) (q div ?N ^ Suc (Suc 0)) tmp s = Some (root_number u1, c1, s1)"
      "same_store zinv zdata s s1" "length c1 = 4096" "tree_at ?C (Suc (Suc 0)) u1"
      "q mod ?N ^ Suc (Suc 0) < length (leaf_numbers u1)"
      "leaf_numbers t ! q = leaf_numbers u1 ! (q mod ?N ^ Suc (Suc 0))"
      by (rule read_down [OF ok same_store_refl [OF ok] mem(2) t(1) [unfolded d(1)] t(2)])
    define r where "r = q mod ?N ^ Suc (Suc 0)"
    obtain c2 u2 s2 where u2: "read_ptr K (root_number u1) (r div ?N ^ Suc 0) c1 s1 = Some (root_number u2, c2, s2)"
      "same_store zinv zdata s s2" "length c2 = 4096" "tree_at ?C (Suc 0) u2" "r mod ?N ^ Suc 0 < length (leaf_numbers u2)"
      "leaf_numbers u1 ! r = leaf_numbers u2 ! (r mod ?N ^ Suc 0)"
      by (rule read_down [OF ok u1(2-5), folded r_def])
    obtain c3 u3 s3 where u3: "read_ptr K (root_number u2) (r mod ?N ^ Suc 0 div ?N ^ 0) c2 s2 = Some (root_number u3, c3, s3)"
      "same_store zinv zdata s s3" "tree_at ?C 0 u3" "r mod ?N ^ Suc 0 mod ?N ^ 0 < length (leaf_numbers u3)"
      "leaf_numbers u2 ! (r mod ?N ^ Suc 0) = leaf_numbers u3 ! (r mod ?N ^ Suc 0 mod ?N ^ 0)"
      by (rule read_down [OF ok u2(2-5)])
    show thesis
      by (rule final [OF u3(3,4) trans [OF t(3) trans [OF u1(6) [folded r_def] trans [OF u2(6) u3(5)]]] u3(2)])
        (use d rp 4 mem(1) u1(1) u2(1) u3(1) in \<open>simp add: hodo_read_nth_block_def root_ptr_simps r_def PTR_SLOTS_def\<close>)
  qed
qed

end

section \<open>Whole writes and reads\<close>

lemma tree_frameD:
  assumes "tree_frame C dl fs C' fs'"
  shows "C l \<noteq> None \<Longrightarrow> l \<noteq> dl \<Longrightarrow> l \<notin> set (forest_numbers fs) \<Longrightarrow> C' l = C l"
    "l \<in> set (forest_numbers fs') \<Longrightarrow> C l \<noteq> None \<Longrightarrow> l \<in> set (forest_numbers fs)"
proof -
  have a: "\<forall>l. C l \<noteq> None \<and> l \<noteq> dl \<and> l \<notin> set (forest_numbers fs) \<longrightarrow> C' l = C l"
    and b: "\<forall>l \<in> set (forest_numbers fs'). l \<in> set (forest_numbers fs) \<or> C l = None"
    using conjunct1 [OF assms [unfolded tree_frame_def]] conjunct2 [OF assms [unfolded tree_frame_def]] .
  show "C l \<noteq> None \<Longrightarrow> l \<noteq> dl \<Longrightarrow> l \<notin> set (forest_numbers fs) \<Longrightarrow> C' l = C l" using spec [OF a, of l] by simp
  show "l \<in> set (forest_numbers fs)" if l: "l \<in> set (forest_numbers fs')" "C l \<noteq> None"
    using bspec [OF b l(1)] l(2) by (elim disjE) simp_all
qed

lemma tree_frame_trans:
  assumes t: "tree_frame C dl fs C1 fs1" "tree_frame C1 dl fs1 C2 fs2" and d: "C dl \<noteq> None" "C1 dl \<noteq> None"
  shows "tree_frame C dl fs C2 fs2"
  unfolding tree_frame_def
proof (intro conjI allI impI ballI)
  fix l assume l: "C l \<noteq> None \<and> l \<noteq> dl \<and> l \<notin> set (forest_numbers fs)"
  then have e: "C1 l = C l" using tree_frameD(1) [OF t(1)] by blast
  have "l \<notin> set (forest_numbers fs1)" using tree_frameD(2) [OF t(1), of l] l by blast
  then show "C2 l = C l" using tree_frameD(1) [OF t(2), of l] l e by simp
next
  fix l assume l2: "l \<in> set (forest_numbers fs2)"
  show "l \<in> set (forest_numbers fs) \<or> C l = None"
  proof (rule ccontr)
    assume n: "\<not> (l \<in> set (forest_numbers fs) \<or> C l = None)"
    have "C1 l \<noteq> None"
    proof (cases "l = dl")
      case False
      then show ?thesis using tree_frameD(1) [OF t(1), of l] n by simp
    qed (use d in simp)
    then have "l \<in> set (forest_numbers fs1)" by (rule tree_frameD(2) [OF t(2) l2])
    then show False using tree_frameD(2) [OF t(1), of l] n by blast
  qed
qed

lemma tree_wrote_trans:
  assumes "file_at (contents zdata s) dl hi fs" "tree_wrote zinv zdata mnt dl hi fs p (take n new) s hi1 fs1 s1"
    "tree_wrote zinv zdata mnt dl hi1 fs1 (p + n) (drop n new) s1 hi2 fs2 s2" "p \<le> unat (hi_file_len hi)" "n \<le> length new"
  shows "tree_wrote zinv zdata mnt dl hi fs p new s hi2 fs2 s2"
proof -
  have d: "contents zdata s dl \<noteq> None" "contents zdata s1 dl \<noteq> None"
    using assms(1,2) by (simp_all add: tree_wrote_def file_at_def)
  have l: "length (take p (tree_data (contents zdata s) hi fs)) = p"
    using length_tree_data [OF assms(1)] assms(4) by simp
  have "tree_data (contents zdata s2) hi2 fs2 =
      take (p + n) (take p (tree_data (contents zdata s) hi fs) @ take n new) @ drop n new"
    using assms(2,3) by (simp add: tree_wrote_def)
  also have "\<dots> = take p (tree_data (contents zdata s) hi fs) @ new" using l assms(5) by simp
  finally have dat: "tree_data (contents zdata s2) hi2 fs2 = take p (tree_data (contents zdata s) hi fs) @ new" .
  have fr: "tree_frame (contents zdata s) dl fs (contents zdata s1) fs1" "tree_frame (contents zdata s1) dl fs1 (contents zdata s2) fs2"
    using assms(2,3) by (simp_all add: tree_wrote_def)
  show ?thesis using assms(3) dat tree_frame_trans [OF fr d] by (simp add: tree_wrote_def)
qed

context zone_store
begin

lemma tree_write_loop:
  assumes ok: "store_ok zinv zdata mnt s" and f: "file_at (contents zdata s) dl hi fs" and dl: "dl = ucast (vi_ino vi)"
    and room: "wp_room zdata Z s (5 * m + k)" and free: "4 * m \<le> free_numbers s" and mem: "file_memory K"
    and it: "length (iov_data it) = iov_count it" "0 < iov_count it"
    and pos: "write_pos vi iocb = int p" "p \<le> unat (hi_file_len hi)"
      "p + iov_count it \<le> (p div HODO_DATA_SIZE + m) * HODO_DATA_SIZE" "p + iov_count it \<le> MAX_BLOCKS * HODO_DATA_SIZE"
  obtains s' hi' fs' iocb' vi' where "write_loop K (iov_count it) 0 vi iocb it s =
      Some (int (iov_count it), iocb', rest_of (iov_count it) it, vi', s')"
    "ki_pos iocb' = int (p + iov_count it)" "vi_size vi' = int (p + iov_count it)"
    "tree_wrote zinv zdata mnt dl hi fs p (iov_data it) s hi' fs' s'" "wp_room zdata Z s' k"
    "free_numbers s \<le> 4 * m + free_numbers s'"
proof -
  define good where "good = (\<lambda>j x. case x of (hi, fs, s1) \<Rightarrow> store_ok zinv zdata mnt s1 \<and> file_at (contents zdata s1) dl hi fs \<and>
    wp_room zdata Z s1 (5 * j + k) \<and> 4 * j \<le> free_numbers s1 \<and> free_numbers s + 4 * j \<le> 4 * m + free_numbers s1)"
  define flen where "flen = (\<lambda>x :: bytes \<times> ptree list \<times> 'z hodo_state. unat (hi_file_len (fst x)))"
  define st where "st = (\<lambda>x :: bytes \<times> ptree list \<times> 'z hodo_state. snd (snd x))"
  define W where "W = (\<lambda>p new x x'. tree_wrote zinv zdata mnt dl (fst x) (fst (snd x)) p new (st x) (fst x') (fst (snd x')) (st x'))"
  have step: "\<exists>x'. write_one_block K vi1 io it1 (st x) =
        Some (int n, io\<lparr>ki_pos := int (q + n)\<rparr>, rest_of n it1, vi1\<lparr>vi_size := int (q + n)\<rparr>, st x') \<and>
      good j x' \<and> flen x' = q + n \<and> W q (take n (iov_data it1)) x x'"
    if g: "good (Suc j) x" and h: "vi_ino vi1 = vi_ino vi" "length (iov_data it1) = iov_count it1" "0 < iov_count it1"
      "write_pos vi1 io = int q" "q \<le> flen x" "q < MAX_BLOCKS * HODO_DATA_SIZE" "n = block_bytes q it1" for j x vi1 io it1 q n
  proof -
    obtain hi1 fs1 s1 where x: "x = (hi1, fs1, s1)" by (metis prod.collapse)
    have g1: "store_ok zinv zdata mnt s1" "file_at (contents zdata s1) dl hi1 fs1" "wp_room zdata Z s1 (5 + (5 * j + k))"
      "4 \<le> free_numbers s1" "4 + 4 * j \<le> free_numbers s1" "free_numbers s + 4 * Suc j \<le> 4 * m + free_numbers s1"
      using g by (simp_all add: good_def x add.assoc)
    have q: "q \<le> unat (hi_file_len hi1)" using h(5) by (simp add: flen_def x)
    have d: "dl = ucast (vi_ino vi1)" using dl h(1) by simp
    obtain s2 hi2 fs2 where w: "write_one_block K vi1 io it1 s1 =
        Some (int n, io\<lparr>ki_pos := int (q + n)\<rparr>, rest_of n it1, vi1\<lparr>vi_size := int (q + n)\<rparr>, s2)"
      "tree_wrote zinv zdata mnt dl hi1 fs1 q (take n (iov_data it1)) s1 hi2 fs2 s2" "wp_room zdata Z s2 (5 * j + k)"
      "free_numbers s1 \<le> 4 + free_numbers s2"
      by (rule write_one_block_tree [OF g1(1,2) d g1(3,4) mem h(2,3,4) q h(6,7)])
    have w2: "file_at (contents zdata s2) dl hi2 fs2" "store_ok zinv zdata mnt s2"
      "tree_data (contents zdata s2) hi2 fs2 = take q (tree_data (contents zdata s1) hi1 fs1) @ take n (iov_data it1)"
      using w(2) by (simp_all add: tree_wrote_def)
    have "n \<le> iov_count it1" using h(7) by (simp add: block_bytes_def)
    then have "unat (hi_file_len hi2) = q + n"
      using length_tree_data [OF w2(1)] length_tree_data [OF g1(2)] w2(3) q h(2) by simp
    moreover have "good j (hi2, fs2, s2)" using w(3,4) w2(1,2) g1(5,6) by (simp add: good_def)
    ultimately show ?thesis using w(1,2) by (intro exI [of _ "(hi2, fs2, s2)"]) (simp add: x flen_def W_def st_def)
  qed
  have weaken: "good j x" if "good (Suc j) x" for j x
    using that wp_room_mono [of zdata Z _ "5 * Suc j + k" "5 * j + k"] by (auto simp: good_def split: prod.splits)
  have trans: "W q new x x2" if "good 0 x" "W q (take n new) x x1" "W (q + n) (drop n new) x1 x2" "q \<le> flen x" "n \<le> length new"
    for q n new x x1 x2
    unfolding W_def
    by (rule tree_wrote_trans [OF _ that(2,3) [unfolded W_def]])
      (use that(1,4,5) in \<open>simp_all add: flen_def good_def st_def split: prod.splits\<close>)
  have g: "good m (hi, fs, s)" using ok f room free by (simp add: good_def)
  have pl: "p \<le> flen (hi, fs, s)" using pos(2) by (simp add: flen_def)
  have "\<exists>x' iocb' vi'. write_loop K (iov_count it) (int 0) vi iocb it (st (hi, fs, s)) =
      Some (int (iov_count it), iocb', rest_of (iov_count it) it, vi', st x') \<and> good 0 x' \<and>
    (if iov_count it = 0 then x' = (hi, fs, s)
     else ki_pos iocb' = int (p + iov_count it) \<and> vi_size vi' = int (p + iov_count it) \<and> W p (iov_data it) (hi, fs, s) x')"
    by (rule write_loop_steps [where st = st and ok = good and flen = flen and W = W and lim = "MAX_BLOCKS * HODO_DATA_SIZE" and
          ino = "vi_ino vi" and m = m and x = "(hi, fs, s)" and p = p])
      ((rule step; assumption) | (rule weaken; assumption) | (rule trans; assumption) | (use g it pos pl in simp))+
  then obtain x' iocb' vi' where r: "write_loop K (iov_count it) 0 vi iocb it s =
      Some (int (iov_count it), iocb', rest_of (iov_count it) it, vi', st x')" "good 0 x'"
    "ki_pos iocb' = int (p + iov_count it)" "vi_size vi' = int (p + iov_count it)" "W p (iov_data it) (hi, fs, s) x'"
    using it(2) by (auto simp: st_def)
  obtain hi' fs' s' where x': "x' = (hi', fs', s')" by (metis prod.collapse)
  show thesis
    by (rule that [of iocb' vi' s' hi' fs']) (use r in \<open>simp_all add: x' st_def W_def good_def\<close>)
qed

lemma tree_read_range:
  assumes ok: "store_ok zinv zdata mnt s" and f: "file_at (contents zdata s) dl hi fs"
    and mem: "k_kmalloc K 16 = Some buf" "length buf = 4096" "k_kmalloc K 12 = Some tmp" "length tmp = 4096"
    and pos: "ki_pos iocb = int p" "p < unat (hi_file_len hi)" and count: "count < 2 ^ 64"
    and small: "unat (hi_file_len hi) < 2 ^ 32" "rl < 2 ^ 31"
    and rl: "rl = min count (unat (hi_file_len hi) - p)"
    and last: "(p + rl) div HODO_DATA_SIZE < length (forest_leaves fs)"
  shows "\<exists>s'. read_range K hi iocb count s =
      Some (int rl, take rl (drop p (tree_data (contents zdata s) hi fs)), iocb\<lparr>ki_pos := int (p + rl)\<rparr>, s') \<and>
    same_store zinv zdata s s'"
proof -
  let ?C = "contents zdata s" and ?e = "(p + rl) div HODO_DATA_SIZE"
  have D: "length fs \<le> 13" "\<forall>k<13. root_ptr k hi = (if k < length fs then root_number (fs ! k) else 0)"
    "forest_at ?C root_depth fs"
    using f by (simp_all add: file_at_def)
  have le: "p + rl \<le> unat (hi_file_len hi)" using rl pos(2) by simp
  have e: "?e < MAX_BLOCKS"
  proof -
    have "?e \<le> p + rl" by (rule div_le_dividend)
    then have "?e * 4088 \<le> p + rl" by (simp add: HODO_DATA_SIZE_eq)
    then show ?thesis using le small(1) by (simp add: MAX_BLOCKS_def PTR_SLOTS_def)
  qed
  have rd: "reads_block zinv zdata K hi s j (block_data ?C fs ! j)" if j: "j \<le> ?e" for j
    unfolding reads_block_def
  proof (intro allI impI)
    fix s1 dst assume s1: "same_store zinv zdata s s1" and dst: "length (dst :: bytes) = 4096"
    note same = same_storeD [OF s1]
    have jl: "j < length (forest_leaves fs)" "j < MAX_BLOCKS" using j last e by simp_all
    obtain b where b: "?C (forest_leaves fs ! j) = Some b" "length b = 4096"
      using forest_leaf [OF D(3) nth_mem [OF jl(1)]] by blast
    obtain s' where "hodo_read_nth_block K hi (int j) dst s1 = Some (the (?C (forest_leaves fs ! j)), s')" "same_store zinv zdata s1 s'"
      using read_tree_block [OF same(1) [OF ok] _ D(1,2) jl dst mem(3,4)] D(3) same(2) by metis
    then show "\<exists>b s'. hodo_read_nth_block K hi (int j) dst s1 = Some (b, s') \<and> length b = 4096 \<and>
        db_data b = block_data ?C fs ! j \<and> same_store zinv zdata s1 s'"
      using b jl(1) by (auto simp: block_data_def)
  qed
  have eA: "?e < length (block_data ?C fs)" using last by (simp add: block_data_def)
  have data: "take rl (drop p (tree_data ?C hi fs)) = drop p (take (p + rl) (concat (block_data ?C fs)))"
    using le by (simp add: tree_data_def drop_take)
  show ?thesis unfolding data
    by (rule read_range_areas [OF ok block_data_lengths [OF D(3)] mem(1,2) pos count small rl eA rd])
qed

end

end
