(* ===== verification/Hodo_Indirect.thy ===== *)
theory Hodo_Indirect
  imports Hodo_Dir_Props
begin

text \<open>
  Directories with indirect blocks. The recursion of \<open>trans.c\<close> through indirect blocks follows
  pointers read from the device and has no bound of its own. Here the pointers are required to form
  trees of a finite depth; then look-up, listing and the emptiness test return, and compute the same
  as a walk over the leaves from left to right. The walk visits the first 1021 of the 1022 pointers of
  a block, as the loops of the code do.
\<close>

section \<open>Trees of blocks\<close>

definition slot_leaves :: "(u32 \<Rightarrow> bytes option) \<Rightarrow> (bytes \<Rightarrow> bytes list) \<Rightarrow> u32 \<Rightarrow> bytes list" where
  "slot_leaves C below l =
     (if l = 0 then [] else if is_directblock (the (C l)) then [the (C l)] else below (the (C l)))"

fun leaves :: "(u32 \<Rightarrow> bytes option) \<Rightarrow> nat \<Rightarrow> bytes \<Rightarrow> bytes list" where
  "leaves C 0 b = []"
| "leaves C (Suc d) b = concat (map (\<lambda>j. slot_leaves C (leaves C d) (db_ptr j b)) [0..<PTR_LOOP_SLOTS])"

text \<open>The pointers of a block lead to mapped blocks, which are leaves or trees of a smaller depth.\<close>

fun tree_ok :: "(u32 \<Rightarrow> bytes option) \<Rightarrow> nat \<Rightarrow> bytes \<Rightarrow> bool" where
  "tree_ok C 0 b \<longleftrightarrow> False"
| "tree_ok C (Suc d) b \<longleftrightarrow>
     (\<forall>j < PTR_LOOP_SLOTS. db_ptr j b \<noteq> 0 \<longrightarrow>
        (\<exists>c. C (db_ptr j b) = Some c \<and> length c = 4096 \<and> (is_directblock c \<or> tree_ok C d c)))"

text \<open>The leaves behind the pointers from slot \<open>j\<close> on.\<close>

definition leaves_from :: "(u32 \<Rightarrow> bytes option) \<Rightarrow> nat \<Rightarrow> bytes \<Rightarrow> nat \<Rightarrow> bytes list" where
  "leaves_from C d b j =
     (case d of 0 \<Rightarrow> []
      | Suc d \<Rightarrow> concat (map (\<lambda>j. slot_leaves C (leaves C d) (db_ptr j b)) [j..<PTR_LOOP_SLOTS]))"

lemma leaves_from_0 [simp]: "leaves_from C d b 0 = leaves C d b"
  by (cases d) (simp_all add: leaves_from_def)

lemma leaves_from_end: "PTR_LOOP_SLOTS \<le> j \<Longrightarrow> leaves_from C d b j = []"
  by (simp add: leaves_from_def split: nat.splits)

lemma leaves_from_step:
  "j < PTR_LOOP_SLOTS \<Longrightarrow>
     leaves_from C (Suc d) b j = slot_leaves C (leaves C d) (db_ptr j b) @ leaves_from C (Suc d) b (Suc j)"
  by (simp add: leaves_from_def upt_conv_Cons)

text \<open>The indirect pointers of an inode, and all the blocks of a directory in the order of the walk.\<close>

definition root_leaves :: "(u32 \<Rightarrow> bytes option) \<Rightarrow> nat \<Rightarrow> u32 list \<Rightarrow> bytes list" where
  "root_leaves C d ls = concat (map (\<lambda>l. if l = 0 then [] else leaves C d (the (C l))) ls)"

definition roots_ok :: "(u32 \<Rightarrow> bytes option) \<Rightarrow> nat \<Rightarrow> u32 list \<Rightarrow> bool" where
  "roots_ok C d ls \<longleftrightarrow> (\<forall>l \<in> set ls. l \<noteq> 0 \<longrightarrow> (\<exists>c. C l = Some c \<and> length c = 4096 \<and> tree_ok C d c))"

definition dir_blocks :: "(u32 \<Rightarrow> bytes option) \<Rightarrow> nat \<Rightarrow> bytes \<Rightarrow> bytes list list" where
  "dir_blocks C d hi = view_blocks (dir_view C hi) @ map block_dirents (root_leaves C d (inode_indirects hi))"

definition tree_inode_ok :: "(u32 \<Rightarrow> bytes option) \<Rightarrow> nat \<Rightarrow> bytes \<Rightarrow> bool" where
  "tree_inode_ok C d hi \<longleftrightarrow> directs_mapped C (inode_directs hi) \<and> roots_ok C d (inode_indirects hi)"

lemma find_in_view_append:
  "find_in_view name (xs @ ys) = (if find_in_view name xs \<noteq> 0 then find_in_view name xs else find_in_view name ys)"
  by (induction xs) (simp_all add: Let_def)

section \<open>Look-up\<close>

context zone_store
begin

lemma find_indirect_ok:
  assumes "store_ok zinv zdata mnt s" "tree_ok (contents zdata s) d b" "length tmp = 4096"
    and t: "k_kmalloc K 3 = Some t" "length t = 4096"
  shows "\<exists>s'. find_inode_number_from_indirect_block K name b tmp j s =
      Some (find_in_view name (map block_dirents (leaves_from (contents zdata s) d b j)), s') \<and> same_store zinv zdata s s'"
  using assms(1-3)
proof (induction d arbitrary: b tmp j s)
  case (Suc d b tmp j s)
  show ?case
    using Suc.prems
  proof (induction "PTR_LOOP_SLOTS - j" arbitrary: j tmp s)
    case 0
    then show ?case using same_store_refl
      by (subst find_inode_number_from_indirect_block.simps) (auto simp: leaves_from_end)
  next
    case (Suc k)
    let ?C = "contents zdata s" and ?l = "db_ptr j b"
    have j: "j < PTR_LOOP_SLOTS" and k: "k = PTR_LOOP_SLOTS - Suc j" using Suc.hyps(2) by simp_all
    note next_slot = Suc.hyps(1) [OF k]
    show ?case
    proof (cases "?l = 0")
      case True
      then show ?thesis using next_slot [OF Suc.prems] j
        by (subst find_inode_number_from_indirect_block.simps)
          (simp add: is_block_logical_number_valid_def leaves_from_step slot_leaves_def)
    next
      case False
      then obtain c where c: "?C ?l = Some c" "length c = 4096" "is_directblock c \<or> tree_ok ?C d c"
        using Suc.prems(2) j by auto
      obtain s1 where s1: "hodo_read_struct K ?l tmp HODO_DATABLOCK_SIZE s = Some (4096, c, s1)" "same_store zinv zdata s s1"
        "store_ok zinv zdata mnt s1" "contents zdata s1 = ?C" by (rule read_block [OF Suc.prems(1) c(1) Suc.prems(3)])
      obtain s2 where s2: "(if is_directblock c then Some (find_inode_number_from_direct_block c name, s1)
          else find_inode_number_from_indirect_block K name c t 0 s1) =
          Some (find_in_view name (map block_dirents (slot_leaves ?C (leaves ?C d) ?l)), s2)" "same_store zinv zdata s1 s2"
      proof (cases "is_directblock c")
        case True
        then show ?thesis using that [of s1] False c(1) same_store_refl [OF s1(3)]
          by (simp add: slot_leaves_def find_direct_block_eq Let_def)
      next
        case nd: False
        then have tr: "tree_ok (contents zdata s1) d c" using c(3) s1(4) by simp
        show ?thesis using Suc.IH [OF s1(3) tr t(2), of 0] that nd False c(1) s1(4) by (auto simp: slot_leaves_def)
      qed
      note s02 = same_store_trans [OF s1(2) s2(2)]
      have ok2: "store_ok zinv zdata mnt s2" "contents zdata s2 = ?C"
        using same_storeD(1,2) [OF s02] Suc.prems(1) by simp_all
      have tr2: "tree_ok (contents zdata s2) (Suc d) b" using Suc.prems(2) ok2(2) by simp
      obtain s3 where s3: "find_inode_number_from_indirect_block K name b c (Suc j) s2 =
          Some (find_in_view name (map block_dirents (leaves_from ?C (Suc d) b (Suc j))), s3)" "same_store zinv zdata s2 s3"
        using next_slot [OF ok2(1) tr2 c(2)] unfolding ok2(2) by blast
      show ?thesis
        using False j s1(1) s2(1) s3 s02 same_store_trans [OF s02 s3(2)] t(1)
        by (subst find_inode_number_from_indirect_block.simps)
          (simp add: is_block_logical_number_valid_def leaves_from_step find_in_view_append split: if_splits)
    qed
  qed
qed simp

end

section \<open>The emptiness test and the listing\<close>

context zone_store
begin

lemma empty_indirect_ok:
  assumes "store_ok zinv zdata mnt s" "tree_ok (contents zdata s) d b" "length tmp = 4096"
    and t: "k_kmalloc K 10 = Some t" "length t = 4096"
  shows "\<exists>s'. check_directory_empty_from_indirect_block K b tmp j s =
      Some (\<forall>c \<in> set (leaves_from (contents zdata s) d b j). check_directory_empty_from_direct_block c, s') \<and> same_store zinv zdata s s'"
  using assms(1-3)
proof (induction d arbitrary: b tmp j s)
  case (Suc d b tmp j s)
  show ?case
    using Suc.prems
  proof (induction "PTR_LOOP_SLOTS - j" arbitrary: j tmp s)
    case 0
    then show ?case using same_store_refl
      by (subst check_directory_empty_from_indirect_block.simps) (auto simp: leaves_from_end)
  next
    case (Suc k)
    let ?C = "contents zdata s" and ?l = "db_ptr j b"
    have j: "j < PTR_LOOP_SLOTS" and k: "k = PTR_LOOP_SLOTS - Suc j" using Suc.hyps(2) by simp_all
    note next_slot = Suc.hyps(1) [OF k]
    show ?case
    proof (cases "?l = 0")
      case True
      then show ?thesis using next_slot [OF Suc.prems] j
        by (subst check_directory_empty_from_indirect_block.simps)
          (simp add: is_block_logical_number_valid_def leaves_from_step slot_leaves_def)
    next
      case False
      then obtain c where c: "?C ?l = Some c" "length c = 4096" "is_directblock c \<or> tree_ok ?C d c"
        using Suc.prems(2) j by auto
      obtain s1 where s1: "hodo_read_struct K ?l tmp HODO_DATABLOCK_SIZE s = Some (4096, c, s1)" "same_store zinv zdata s s1"
        "store_ok zinv zdata mnt s1" "contents zdata s1 = ?C" by (rule read_block [OF Suc.prems(1) c(1) Suc.prems(3)])
      obtain s2 where s2: "(if is_directblock c then Some (check_directory_empty_from_direct_block c, s1)
          else check_directory_empty_from_indirect_block K c t 0 s1) =
          Some (\<forall>c \<in> set (slot_leaves ?C (leaves ?C d) ?l). check_directory_empty_from_direct_block c, s2)" "same_store zinv zdata s1 s2"
      proof (cases "is_directblock c")
        case True
        then show ?thesis using that [of s1] False c(1) same_store_refl [OF s1(3)]
          by (simp add: slot_leaves_def)
      next
        case nd: False
        then have tr: "tree_ok (contents zdata s1) d c" using c(3) s1(4) by simp
        show ?thesis using Suc.IH [OF s1(3) tr t(2), of 0] that nd False c(1) s1(4) by (auto simp: slot_leaves_def)
      qed
      note s02 = same_store_trans [OF s1(2) s2(2)]
      have ok2: "store_ok zinv zdata mnt s2" "contents zdata s2 = ?C"
        using same_storeD(1,2) [OF s02] Suc.prems(1) by simp_all
      have tr2: "tree_ok (contents zdata s2) (Suc d) b" using Suc.prems(2) ok2(2) by simp
      obtain s3 where s3: "check_directory_empty_from_indirect_block K b c (Suc j) s2 =
          Some (\<forall>c \<in> set (leaves_from ?C (Suc d) b (Suc j)). check_directory_empty_from_direct_block c, s3)" "same_store zinv zdata s2 s3"
        using next_slot [OF ok2(1) tr2 c(2)] unfolding ok2(2) by blast
      show ?thesis
        using False j s1(1) s2(1) s3 s02 same_store_trans [OF s02 s3(2)] t(1)
        by (subst check_directory_empty_from_indirect_block.simps)
          (simp add: is_block_logical_number_valid_def leaves_from_step ball_Un split: if_splits)
    qed
  qed
qed simp

lemma list_indirect_ok:
  assumes "store_ok zinv zdata mnt s" "tree_ok (contents zdata s) d b" "length tmp = 4096"
    and t: "k_kmalloc K 5 = Some t" "length t = 4096"
    and "emit_dirents act (concat (map block_dirents (leaves_from (contents zdata s) d b j))) cc = Some cc'"
  shows "\<exists>s'. read_all_dirents_from_indirect_block K act b tmp j cc s = Some (1, cc', s') \<and> same_store zinv zdata s s'"
  using assms(1-3,6)
proof (induction d arbitrary: b tmp j s cc cc')
  case (Suc d b tmp j s cc cc')
  show ?case
    using Suc.prems
  proof (induction "PTR_LOOP_SLOTS - j" arbitrary: j tmp s cc)
    case 0
    then show ?case using same_store_refl
      by (subst read_all_dirents_from_indirect_block.simps, cases cc) (auto simp: leaves_from_end)
  next
    case (Suc k)
    let ?C = "contents zdata s" and ?l = "db_ptr j b"
    have j: "j < PTR_LOOP_SLOTS" and k: "k = PTR_LOOP_SLOTS - Suc j" using Suc.hyps(2) by simp_all
    note next_slot = Suc.hyps(1) [OF k]
    show ?case
    proof (cases "?l = 0")
      case True
      have "emit_dirents act (concat (map block_dirents (leaves_from ?C (Suc d) b (Suc j)))) cc = Some cc'"
        using Suc.prems(4) True j by (simp add: leaves_from_step slot_leaves_def)
      then show ?thesis using next_slot [OF Suc.prems(1-3)] True j
        by (subst read_all_dirents_from_indirect_block.simps) (simp add: is_block_logical_number_valid_def)
    next
      case False
      then obtain c where c: "?C ?l = Some c" "length c = 4096" "is_directblock c \<or> tree_ok ?C d c"
        using Suc.prems(2) j by auto
      obtain s1 where s1: "hodo_read_struct K ?l tmp HODO_DATABLOCK_SIZE s = Some (4096, c, s1)" "same_store zinv zdata s s1"
        "store_ok zinv zdata mnt s1" "contents zdata s1 = ?C" by (rule read_block [OF Suc.prems(1) c(1) Suc.prems(3)])
      obtain cc1 where e: "emit_dirents act (concat (map block_dirents (slot_leaves ?C (leaves ?C d) ?l))) cc = Some cc1"
        "emit_dirents act (concat (map block_dirents (leaves_from ?C (Suc d) b (Suc j)))) cc1 = Some cc'"
        using Suc.prems(4) j unfolding leaves_from_step [OF j] map_append concat_append emit_dirents_append bind_eq_Some_conv
        by blast
      obtain s2 where s2: "(if is_directblock c
          then do { cc' \<leftarrow> read_all_dirents_from_direct_block act c cc; Some (1, cc', s1) }
          else read_all_dirents_from_indirect_block K act c t 0 cc s1) = Some (1, cc1, s2)" "same_store zinv zdata s1 s2"
      proof (cases "is_directblock c")
        case True
        then show ?thesis using that [of s1] False c(1) same_store_refl [OF s1(3)] e(1)
          by (simp add: slot_leaves_def read_all_dirents_from_direct_block_def)
      next
        case nd: False
        then have tr: "tree_ok (contents zdata s1) d c" using c(3) s1(4) by simp
        have "emit_dirents act (concat (map block_dirents (leaves_from (contents zdata s1) d c 0))) cc = Some cc1"
          using e(1) nd False c(1) s1(4) by (simp add: slot_leaves_def)
        from Suc.IH [OF s1(3) tr t(2) this] show ?thesis using that nd by auto
      qed
      note s02 = same_store_trans [OF s1(2) s2(2)]
      have ok2: "store_ok zinv zdata mnt s2" "contents zdata s2 = ?C"
        using same_storeD(1,2) [OF s02] Suc.prems(1) by simp_all
      have tr2: "tree_ok (contents zdata s2) (Suc d) b" using Suc.prems(2) ok2(2) by simp
      obtain s3 where s3: "read_all_dirents_from_indirect_block K act b c (Suc j) cc1 s2 = Some (1, cc', s3)"
        "same_store zinv zdata s2 s3"
        using next_slot [OF ok2(1) tr2 c(2)] e(2) unfolding ok2(2) by blast
      show ?thesis
        using False j s1(1) s2(1) s3 same_store_trans [OF s02 s3(2)] t(1)
        by (subst read_all_dirents_from_indirect_block.simps)
          (cases "is_directblock c"; cases cc1;
            auto simp: is_block_logical_number_valid_def END_READ_def bind_eq_Some_conv split: if_splits)
    qed
  qed
qed simp

end

section \<open>Whole directories\<close>

lemma root_leaves_Cons [simp]:
  "root_leaves C d [] = []"
  "root_leaves C d (l # ls) = (if l = 0 then [] else leaves C d (the (C l))) @ root_leaves C d ls"
  by (simp_all add: root_leaves_def)

lemma roots_ok_Cons [simp]:
  "roots_ok C d (l # ls) \<longleftrightarrow> (l \<noteq> 0 \<longrightarrow> (\<exists>c. C l = Some c \<and> length c = 4096 \<and> tree_ok C d c)) \<and> roots_ok C d ls"
  by (auto simp: roots_ok_def)

context zone_store
begin

lemma find_in_indirects_ok:
  assumes "store_ok zinv zdata mnt s" "roots_ok (contents zdata s) d ls" "length buf = 4096"
    and t: "k_kmalloc K 3 = Some t" "length t = 4096"
  shows "\<exists>s'. find_in_indirects K name ls buf s =
      Some (find_in_view name (map block_dirents (root_leaves (contents zdata s) d ls)), s') \<and> same_store zinv zdata s s'"
  using assms(1-3)
proof (induction ls arbitrary: buf s)
  case Nil
  then show ?case using same_store_refl by auto
next
  case (Cons l ls)
  show ?case
  proof (cases "l = 0")
    case True
    then show ?thesis using Cons by (simp add: is_block_logical_number_valid_def)
  next
    case False
    then obtain c where c: "contents zdata s l = Some c" "length c = 4096" "tree_ok (contents zdata s) d c"
      using Cons.prems(2) by auto
    obtain s1 where s1: "hodo_read_struct K l buf HODO_DATABLOCK_SIZE s = Some (4096, c, s1)" "same_store zinv zdata s s1"
      "store_ok zinv zdata mnt s1" "contents zdata s1 = contents zdata s" by (rule read_block [OF Cons.prems(1) c(1) Cons.prems(3)])
    obtain s2 where s2: "find_inode_number_from_indirect_block K name c t 0 s1 =
        Some (find_in_view name (map block_dirents (leaves (contents zdata s) d c)), s2)" "same_store zinv zdata s1 s2"
      using find_indirect_ok [OF s1(3) _ t(2,1) t(2), unfolded s1(4), OF c(3), of name 0] by auto
    have s02: "same_store zinv zdata s s2" by (rule same_store_trans [OF s1(2) s2(2)])
    have ok2: "store_ok zinv zdata mnt s2" "contents zdata s2 = contents zdata s"
      using same_storeD(1,2) [OF s02] Cons.prems(1) by simp_all
    obtain s3 where "find_in_indirects K name ls c s2 =
        Some (find_in_view name (map block_dirents (root_leaves (contents zdata s) d ls)), s3)" "same_store zinv zdata s2 s3"
      using Cons.IH [OF ok2(1) _ c(2), unfolded ok2(2)] Cons.prems(2) by auto
    then show ?thesis using False s1(1) s2(1) c(1) t(1) s02 same_store_trans [OF s02]
      by (auto simp: is_block_logical_number_valid_def find_in_view_append)
  qed
qed

lemma empty_indirects_ok:
  assumes "store_ok zinv zdata mnt s" "roots_ok (contents zdata s) d ls" "length buf = 4096"
    and t: "k_kmalloc K 10 = Some t" "length t = 4096"
  shows "\<exists>s'. check_empty_indirects K ls buf s =
      Some (\<forall>c \<in> set (root_leaves (contents zdata s) d ls). check_directory_empty_from_direct_block c, s') \<and> same_store zinv zdata s s'"
  using assms(1-3)
proof (induction ls arbitrary: buf s)
  case Nil
  then show ?case using same_store_refl by auto
next
  case (Cons l ls)
  show ?case
  proof (cases "l = 0")
    case True
    then show ?thesis using Cons by (simp add: is_block_logical_number_valid_def)
  next
    case False
    then obtain c where c: "contents zdata s l = Some c" "length c = 4096" "tree_ok (contents zdata s) d c"
      using Cons.prems(2) by auto
    obtain s1 where s1: "hodo_read_struct K l buf HODO_DATABLOCK_SIZE s = Some (4096, c, s1)" "same_store zinv zdata s s1"
      "store_ok zinv zdata mnt s1" "contents zdata s1 = contents zdata s" by (rule read_block [OF Cons.prems(1) c(1) Cons.prems(3)])
    obtain s2 where s2: "check_directory_empty_from_indirect_block K c t 0 s1 =
        Some (\<forall>c \<in> set (leaves (contents zdata s) d c). check_directory_empty_from_direct_block c, s2)" "same_store zinv zdata s1 s2"
      using empty_indirect_ok [OF s1(3) _ t(2,1) t(2), unfolded s1(4), OF c(3), of 0] by auto
    have s02: "same_store zinv zdata s s2" by (rule same_store_trans [OF s1(2) s2(2)])
    have ok2: "store_ok zinv zdata mnt s2" "contents zdata s2 = contents zdata s"
      using same_storeD(1,2) [OF s02] Cons.prems(1) by simp_all
    obtain s3 where "check_empty_indirects K ls c s2 =
        Some (\<forall>c \<in> set (root_leaves (contents zdata s) d ls). check_directory_empty_from_direct_block c, s3)" "same_store zinv zdata s2 s3"
      using Cons.IH [OF ok2(1) _ c(2), unfolded ok2(2)] Cons.prems(2) by auto
    then show ?thesis using False s1(1) s2(1) c(1) t(1) s02 same_store_trans [OF s02]
      by (auto simp: is_block_logical_number_valid_def)
  qed
qed

lemma list_indirects_ok:
  assumes "store_ok zinv zdata mnt s" "roots_ok (contents zdata s) d ls" "length buf = 4096"
    and t: "k_kmalloc K 5 = Some t" "length t = 4096"
    and "emit_dirents act (concat (map block_dirents (root_leaves (contents zdata s) d ls))) cc = Some cc'"
  shows "\<exists>s'. read_dirents_indirects K act ls buf cc s = Some (cc', s') \<and> same_store zinv zdata s s'"
  using assms(1-3,6)
proof (induction ls arbitrary: buf s cc)
  case Nil
  then show ?case using same_store_refl by (cases cc) auto
next
  case (Cons l ls)
  show ?case
  proof (cases "l = 0")
    case True
    then show ?thesis using Cons by (simp add: is_block_logical_number_valid_def)
  next
    case False
    then obtain c where c: "contents zdata s l = Some c" "length c = 4096" "tree_ok (contents zdata s) d c"
      using Cons.prems(2) by auto
    obtain s1 where s1: "hodo_read_struct K l buf HODO_DATABLOCK_SIZE s = Some (4096, c, s1)" "same_store zinv zdata s s1"
      "store_ok zinv zdata mnt s1" "contents zdata s1 = contents zdata s" by (rule read_block [OF Cons.prems(1) c(1) Cons.prems(3)])
    have "emit_dirents act (concat (map block_dirents (leaves (contents zdata s) d c)) @
        concat (map block_dirents (root_leaves (contents zdata s) d ls))) cc = Some cc'"
      using Cons.prems(4) False c(1) by simp
    then obtain cc1 where e: "emit_dirents act (concat (map block_dirents (leaves (contents zdata s) d c))) cc = Some cc1"
      "emit_dirents act (concat (map block_dirents (root_leaves (contents zdata s) d ls))) cc1 = Some cc'"
      unfolding emit_dirents_append bind_eq_Some_conv by blast
    have e1: "emit_dirents act (concat (map block_dirents (leaves_from (contents zdata s) d c 0))) cc = Some cc1" using e(1) by simp
    obtain s2 where s2: "read_all_dirents_from_indirect_block K act c t 0 cc s1 = Some (1, cc1, s2)" "same_store zinv zdata s1 s2"
      using list_indirect_ok [OF s1(3) _ t(2,1) t(2), unfolded s1(4), OF c(3) e1] by auto
    have s02: "same_store zinv zdata s s2" by (rule same_store_trans [OF s1(2) s2(2)])
    have ok2: "store_ok zinv zdata mnt s2" "contents zdata s2 = contents zdata s"
      using same_storeD(1,2) [OF s02] Cons.prems(1) by simp_all
    obtain s3 where "read_dirents_indirects K act ls c cc1 s2 = Some (cc', s3)" "same_store zinv zdata s2 s3"
      using Cons.IH [OF ok2(1) _ c(2), unfolded ok2(2), OF _ e(2)] Cons.prems(2) by auto
    then show ?thesis using False s1(1) s2(1) t(1) same_store_trans [OF s02]
      by (cases cc1) (auto simp: is_block_logical_number_valid_def END_READ_def)
  qed
qed

end

context zone_store
begin

lemma find_tree_ok:
  assumes "store_ok zinv zdata mnt s" "tree_inode_ok (contents zdata s) d hi"
    and m: "k_kmalloc K 2 = Some buf" "length buf = 4096" "k_kmalloc K 3 = Some t" "length t = 4096"
  shows "\<exists>s'. find_inode_number K hi name s = Some (find_in_view name (dir_blocks (contents zdata s) d hi), s') \<and>
    same_store zinv zdata s s'"
proof -
  have i: "directs_mapped (contents zdata s) (inode_directs hi)" "roots_ok (contents zdata s) d (inode_indirects hi)"
    using assms(2) by (simp_all add: tree_inode_ok_def)
  obtain buf' s1 where s1: "find_in_directs K name (inode_directs hi) buf s =
      Some (find_in_view name (view_blocks (dir_view (contents zdata s) hi)), buf', s1)" "length buf' = 4096" "same_store zinv zdata s s1"
    using find_in_directs_eq [OF assms(1) i(1) m(2)] unfolding dir_view_def by blast
  have ok1: "store_ok zinv zdata mnt s1" "contents zdata s1 = contents zdata s"
    using same_storeD(1,2) [OF s1(3)] assms(1) by simp_all
  obtain s2 where "find_in_indirects K name (inode_indirects hi) buf' s1 =
      Some (find_in_view name (map block_dirents (root_leaves (contents zdata s) d (inode_indirects hi))), s2)" "same_store zinv zdata s1 s2"
    using find_in_indirects_ok [OF ok1(1) _ s1(2) m(3,4), unfolded ok1(2), OF i(2)] by blast
  then show ?thesis using s1(1,3) same_store_trans [OF s1(3)] m(1)
    by (auto simp: find_inode_number_def dir_blocks_def find_in_view_append)
qed

lemma list_tree_ok:
  assumes "store_ok zinv zdata mnt s" "tree_inode_ok (contents zdata s) d hi"
    and m: "k_kmalloc K 4 = Some buf" "length buf = 4096" "k_kmalloc K 5 = Some t" "length t = 4096"
    and "emit_dirents act (concat (dir_blocks (contents zdata s) d hi)) cc = Some cc'"
  shows "\<exists>s'. read_all_dirents K act hi cc s = Some (END_READ, cc', s') \<and> same_store zinv zdata s s'"
proof -
  have i: "directs_mapped (contents zdata s) (inode_directs hi)" "roots_ok (contents zdata s) d (inode_indirects hi)"
    using assms(2) by (simp_all add: tree_inode_ok_def)
  obtain cc1 where e: "emit_dirents act (concat (view_blocks (ptr_view (contents zdata s) (inode_directs hi)))) cc = Some cc1"
    "emit_dirents act (concat (map block_dirents (root_leaves (contents zdata s) d (inode_indirects hi)))) cc1 = Some cc'"
    using assms(7) unfolding dir_blocks_def dir_view_def concat_append emit_dirents_append bind_eq_Some_conv by blast
  obtain buf' s1 where s1: "read_dirents_directs K act (inode_directs hi) buf cc s = Some (buf', cc1, s1)" "length buf' = 4096"
    "same_store zinv zdata s s1" using read_dirents_directs_eq [OF assms(1) i(1) m(2) e(1)] by blast
  have ok1: "store_ok zinv zdata mnt s1" "contents zdata s1 = contents zdata s"
    using same_storeD(1,2) [OF s1(3)] assms(1) by simp_all
  obtain s2 where "read_dirents_indirects K act (inode_indirects hi) buf' cc1 s1 = Some (cc', s2)" "same_store zinv zdata s1 s2"
    using list_indirects_ok [OF ok1(1) _ s1(2) m(3,4), unfolded ok1(2), OF i(2) e(2)] by blast
  then show ?thesis using s1(1) same_store_trans [OF s1(3)] m(1)
    by (cases cc1; cases cc') (auto simp: read_all_dirents_def)
qed

lemma empty_tree_ok:
  assumes "store_ok zinv zdata mnt s" "contents zdata s (dir_number is_root ino s) = Some hi" "tree_inode_ok (contents zdata s) d hi"
    and m: "k_kmalloc K 9 = Some buf" "length buf = 4096" "k_kmalloc K 10 = Some t" "length t = 4096" "length (k_stack K 2) = 4096"
  shows "\<exists>s'. check_directory_empty K is_root ino s =
      Some (blocks_zero (contents zdata s) (inode_directs hi) \<and>
        (\<forall>c \<in> set (root_leaves (contents zdata s) d (inode_indirects hi)). check_directory_empty_from_direct_block c), s') \<and>
    same_store zinv zdata s s'"
proof -
  have i: "directs_mapped (contents zdata s) (inode_directs hi)" "roots_ok (contents zdata s) d (inode_indirects hi)"
    using assms(3) by (simp_all add: tree_inode_ok_def)
  obtain s1 where s1: "hodo_read_struct K (dir_number is_root ino s) (k_stack K 2) HODO_DATABLOCK_SIZE s = Some (4096, hi, s1)"
    "same_store zinv zdata s s1" "store_ok zinv zdata mnt s1" "contents zdata s1 = contents zdata s"
    by (rule read_block [OF assms(1,2) m(5)])
  obtain buf' s2 where s2: "check_empty_directs K (inode_directs hi) buf s1 =
      Some (blocks_zero (contents zdata s) (inode_directs hi), buf', s2)" "length buf' = 4096" "same_store zinv zdata s1 s2"
    using check_empty_directs_ok [OF s1(3) _ m(2), unfolded s1(4), OF i(1)] by blast
  have s02: "same_store zinv zdata s s2" by (rule same_store_trans [OF s1(2) s2(3)])
  have ok2: "store_ok zinv zdata mnt s2" "contents zdata s2 = contents zdata s"
    using same_storeD(1,2) [OF s02] assms(1) by simp_all
  obtain s3 where "check_empty_indirects K (inode_indirects hi) buf' s2 =
      Some (\<forall>c \<in> set (root_leaves (contents zdata s) d (inode_indirects hi)). check_directory_empty_from_direct_block c, s3)"
    "same_store zinv zdata s2 s3"
    using empty_indirects_ok [OF ok2(1) _ s2(2) m(3,4), unfolded ok2(2), OF i(2)] by blast
  then show ?thesis using s1(1) s2(1) s02 same_store_trans [OF s02] m(1)
    by (auto simp: check_directory_empty_def)
qed

end

text \<open>C19: walking a directory with indirect blocks ends. Where the pointers form trees of some finite
  depth, look-up, listing and the emptiness test return, and the results are those of a walk over all
  leaves, the ten direct blocks first: the first entry with the name, every valid entry in order,
  and whether all data is zero.\<close>

theorem directory_walks_terminate:
  assumes "hodo_ok B L cap zstart dinv zdat mnt s" "memory_ok K"
    and "blocks zdat s (dir_number is_root ino s) = Some hi" "tree_inode_ok (blocks zdat s) d hi"
    and "emit_dirents act (concat (dir_blocks (blocks zdat s) d hi)) cc = Some cc'"
  shows "(\<exists>s'. find_inode_number (zonefs_kernel B L mnt K) hi name s =
      Some (find_in_view name (dir_blocks (blocks zdat s) d hi), s') \<and> blocks zdat s' = blocks zdat s) \<and>
    (\<exists>s'. read_all_dirents (zonefs_kernel B L mnt K) act hi cc s = Some (END_READ, cc', s') \<and> blocks zdat s' = blocks zdat s) \<and>
    (\<exists>s'. check_directory_empty (zonefs_kernel B L mnt K) is_root ino s =
      Some (blocks_zero (blocks zdat s) (inode_directs hi) \<and>
        (\<forall>c \<in> set (root_leaves (blocks zdat s) d (inode_indirects hi)). check_directory_empty_from_direct_block c), s') \<and>
      blocks zdat s' = blocks zdat s)"
proof -
  let ?K = "zonefs_kernel B L mnt K"
  have m: "\<exists>b. k_kmalloc ?K n = Some b \<and> length b = 4096" for n using assms(2) by (simp add: memory_ok_def)
  obtain b2 where b2: "k_kmalloc ?K 2 = Some b2" "length b2 = 4096" using m [of 2] by blast
  obtain b3 where b3: "k_kmalloc ?K 3 = Some b3" "length b3 = 4096" using m [of 3] by blast
  obtain b4 where b4: "k_kmalloc ?K 4 = Some b4" "length b4 = 4096" using m [of 4] by blast
  obtain b5 where b5: "k_kmalloc ?K 5 = Some b5" "length b5 = 4096" using m [of 5] by blast
  obtain b9 where b9: "k_kmalloc ?K 9 = Some b9" "length b9 = 4096" using m [of 9] by blast
  obtain b10 where b10: "k_kmalloc ?K 10 = Some b10" "length b10 = 4096" using m [of 10] by blast
  have st: "length (k_stack ?K 2) = 4096" using assms(2) by (simp add: memory_ok_def)
  obtain s1 where s1: "find_inode_number ?K hi name s = Some (find_in_view name (dir_blocks (blocks zdat s) d hi), s1)"
    "blocks zdat s1 = blocks zdat s"
    using zonefs.find_tree_ok [OF assms(1,4) b2 b3, of name] same_storeD(2) by blast
  obtain s2 where s2: "read_all_dirents ?K act hi cc s = Some (END_READ, cc', s2)" "blocks zdat s2 = blocks zdat s"
    using zonefs.list_tree_ok [OF assms(1,4) b4 b5 assms(5)] same_storeD(2) by blast
  obtain s3 where s3: "check_directory_empty ?K is_root ino s =
      Some (blocks_zero (blocks zdat s) (inode_directs hi) \<and>
        (\<forall>c \<in> set (root_leaves (blocks zdat s) d (inode_indirects hi)). check_directory_empty_from_direct_block c), s3)"
    "blocks zdat s3 = blocks zdat s"
    using zonefs.empty_tree_ok [OF assms(1,3,4) b9 b10 st] same_storeD(2) by blast
  show ?thesis
    by (intro conjI exI [of _ s1] exI [of _ s2] exI [of _ s3]) (rule s1 s2 s3)+
qed

section \<open>A directory with an indirect block\<close>

lemma db_ptr_set_lbn: "length b = 4096 \<Longrightarrow> j < PTR_SLOTS \<Longrightarrow> db_ptr j (db_set_lbn l b) = db_ptr j b"
  by (simp add: db_defs layout_simps const_simps)

lemma db_ptr_magic_zero: "j < PTR_SLOTS \<Longrightarrow> db_ptr j (db_set_magic l zero_block) = 0"
  by (simp add: db_defs layout_simps const_simps get_put_other zero_block_def)
    (simp add: u32_at_def get_bytes_def put_bytes_def min_def)

definition demo_leaf :: bytes where
  "demo_leaf = set_dirent_at 0 (stored_dirent zero_dirent demo_file) (db_set_magic 0x30 zero_block)"

definition demo_pointers :: "u32 \<Rightarrow> bytes" where
  "demo_pointers n = db_set_ptr 0 n (db_set_magic 0x31 zero_block)"

lemma demo_pointers_props:
  "length (demo_pointers n) = 4096" "db_is_dat (demo_pointers n)"
  "j < PTR_SLOTS \<Longrightarrow> db_ptr j (stamped l (demo_pointers n)) = (if j = 0 then n else 0)"
proof -
  have z: "length (db_set_magic 0x31 zero_block) = 4096" by (simp add: length_simps zero_block_ptrs)
  have p: "0 < PTR_SLOTS" by (simp add: const_simps)
  show l: "length (demo_pointers n) = 4096" and d: "db_is_dat (demo_pointers n)"
    using z p by (simp_all add: demo_pointers_def length_simps zero_block_ptrs(1))
  show "j < PTR_SLOTS \<Longrightarrow> db_ptr j (stamped l (demo_pointers n)) = (if j = 0 then n else 0)"
    using l d z p by (simp add: stamped_def db_ptr_set_lbn) (simp add: demo_pointers_def db_ptr_set_ptr db_ptr_magic_zero)
qed

lemma demo_leaf_props:
  "length demo_leaf = 4096" "db_is_dat demo_leaf" "is_directblock (stamped l demo_leaf)"
  "length (stamped l demo_leaf) = 4096" "find_in_view demo_name [block_dirents (stamped l demo_leaf)] = 17"
  "block_dirents (stamped l demo_leaf) = new_entries (stored_dirent zero_dirent demo_file)"
proof -
  have sub: "unat (hi_name_len demo_file) \<le> 16" by simp
  have z: "length zero_dirent = 40" by (simp add: zero_dirent_def SIZEOF_DIRENT_def)
  note p = new_block_props [OF length_stored_dirent [OF z sub], folded demo_leaf_def]
  show "length demo_leaf = 4096" "db_is_dat demo_leaf" "is_directblock (stamped l demo_leaf)"
    "length (stamped l demo_leaf) = 4096" using p length_stamped [OF p(1)] by (simp_all add: stamped_def)
  show b: "block_dirents (stamped l demo_leaf) = new_entries (stored_dirent zero_dirent demo_file)"
    using p(1,4) by (simp add: block_dirents_stamped)
  have "de_ino (stored_dirent zero_dirent demo_file) = 17" using stored_dirent_fields(2) [OF z sub demo_file_simps(1)] by simp
  then show "find_in_view demo_name [block_dirents (stamped l demo_leaf)] = 17"
    unfolding b using demo_file_entries(3) by (simp add: find_in_entries_def new_entries_def)
qed

lemma set_single_frame:
  assumes "length hi = 4096"
  shows "hi_single (hi_set_single l hi) = l" "hi_double (hi_set_single l hi) = hi_double hi"
    "hi_triple (hi_set_single l hi) = hi_triple hi" "inode_directs (hi_set_single l hi) = inode_directs hi"
    "db_is_dat (hi_set_single l hi) = db_is_dat hi" "hi_ino (hi_set_single l hi) = hi_ino hi"
    "length (hi_set_single l hi) = 4096"
  using assms by (simp_all add: inode_directs_def hi_defs db_is_dat_def layout_simps length_simps)

lemma demo_tree_shape:
  assumes "C n1 = Some (stamped n1 demo_leaf)" "C n2 = Some (stamped n2 (demo_pointers n1))" "n1 \<noteq> 0" "n2 \<noteq> 0"
    and "inode_directs hi = replicate 10 0" "inode_indirects hi = [n2, 0, 0]"
  shows "tree_inode_ok C 1 hi" "dir_blocks C 1 hi = [block_dirents (stamped n1 demo_leaf)]"
proof -
  let ?b = "stamped n2 (demo_pointers n1)"
  have p: "db_ptr j ?b = (if j = 0 then n1 else 0)" if "j < PTR_LOOP_SLOTS" for j
    using demo_pointers_props(3) [of j] that by (simp add: const_simps)
  have t: "tree_ok C 1 ?b" using assms(1) demo_leaf_props(3,4) by (simp add: One_nat_def p)
  have nil: "slot_leaves C (leaves C 0) (db_ptr j ?b) = []" if "j \<in> {Suc 0..<PTR_LOOP_SLOTS}" for j
    using that p [of j] by (simp add: slot_leaves_def)
  have lv: "leaves C 1 ?b = [stamped n1 demo_leaf]"
  proof -
    have "leaves C (Suc 0) ?b = slot_leaves C (leaves C 0) (db_ptr 0 ?b) @ leaves_from C (Suc 0) ?b (Suc 0)"
      using leaves_from_step [of 0 C 0 ?b] by (simp add: PTR_LOOP_SLOTS_def)
    also have "leaves_from C (Suc 0) ?b (Suc 0) = []" unfolding leaves_from_def using nil by simp
    finally show ?thesis using p [of 0] assms(1,3) demo_leaf_props(3) by (simp add: slot_leaves_def PTR_LOOP_SLOTS_def)
  qed
  show "tree_inode_ok C 1 hi"
    using t assms(2,5,6) demo_pointers_props(1,2) by (simp add: tree_inode_ok_def directs_mapped_def roots_ok_def length_stamped)
  have "view_blocks (dir_view C hi) = []"
    using assms(5) by (simp add: dir_view_def is_block_logical_number_valid_def view_blocks_def)
  then show "dir_blocks C 1 hi = [block_dirents (stamped n1 demo_leaf)]"
    using assms(2,4,6) lv by (simp add: dir_blocks_def)
qed

text \<open>A store with a root directory whose single indirect block points at one block of entries.\<close>

lemma demo_tree:
  obtains s hi n where "demo_ok s" "blocks (\<lambda>d. d) s (dir_number True 0 s) = Some hi" "inode_directs hi = replicate 10 0"
    "tree_inode_ok (blocks (\<lambda>d. d) s) 1 hi" "dir_blocks (blocks (\<lambda>d. d) s) 1 hi = [block_dirents (stamped n demo_leaf)]"
proof -
  let ?C = "blocks (\<lambda>d. d)"
  obtain s root where s: "demo_ok s" "?C s = [16 \<mapsto> root]" "inode_ok (?C s) 16 root" "inode_directs root = replicate 10 0"
    "room (\<lambda>d. d) s 65535" "1048575 \<le> free_numbers s" "num_ok s 16" "starting_logical_number (mapping_info s) = 16" by (rule demo_root)
  note D = inode_okD [OF s(3)]
  have r: "room (\<lambda>d. d) s (Suc (Suc (Suc 0)))" by (rule wp_room_mono [OF s(5)]) simp
  have f: "has_free_number s" using s(6) by (simp add: has_free_number_iff)
  obtain s1 n1 where s1: "demo_ok s1" "?C s n1 = None" "n1 \<noteq> 0" "?C s1 = (?C s)(n1 \<mapsto> stamped n1 demo_leaf)"
    "room (\<lambda>d. d) s1 (Suc (Suc 0))" "\<And>l. num_ok s l \<Longrightarrow> num_ok s1 l"
    "starting_logical_number (mapping_info s1) = starting_logical_number (mapping_info s)" "free_numbers s \<le> Suc (free_numbers s1)"
    using zonefs.write_new [OF s(1) r f demo_leaf_props(1,2)] by metis
  have f1: "has_free_number s1" using s(6) s1(8) by (simp add: has_free_number_iff)
  obtain s2 n2 where s2: "demo_ok s2" "?C s1 n2 = None" "n2 \<noteq> 0" "?C s2 = (?C s1)(n2 \<mapsto> stamped n2 (demo_pointers n1))"
    "room (\<lambda>d. d) s2 (Suc 0)" "\<And>l. num_ok s1 l \<Longrightarrow> num_ok s2 l"
    "starting_logical_number (mapping_info s2) = starting_logical_number (mapping_info s1)"
    using zonefs.write_new [OF s1(1,5) f1 demo_pointers_props(1,2) [of n1]] by metis
  define hi where "hi = hi_set_single n2 root"
  note h = set_single_frame [OF D(2), of n2, folded hi_def]
  have nm: "num_ok s2 16" by (intro s2(6) s1(6) s(7))
  have st: "stamped 16 hi = hi" "db_is_dat hi \<or> hi_ino hi = 16" using h D(3,4) by simp_all
  obtain s3 where s3: "demo_ok s3" "?C s3 = (?C s2)(16 \<mapsto> hi)"
    "starting_logical_number (mapping_info s3) = starting_logical_number (mapping_info s2)"
    using zonefs.write_existing [OF s2(1,5) nm h(7) st(2)] unfolding st(1) by metis
  have ne: "n1 \<noteq> 16" "n2 \<noteq> 16" "n2 \<noteq> n1" using s1(2) s2(2) by (auto simp: s(2) s1(4) split: if_splits)
  have c: "?C s3 n1 = Some (stamped n1 demo_leaf)" "?C s3 n2 = Some (stamped n2 (demo_pointers n1))" "?C s3 16 = Some hi"
    using ne by (simp_all add: s3(2) s2(4) s1(4))
  have i: "inode_indirects hi = [n2, 0, 0]" "inode_directs hi = replicate 10 0"
    using h D(5-7) s(4) by (simp_all add: inode_indirects_def)
  have "dir_number True 0 s3 = 16" using s3(3) s2(7) s1(7) s(8) by (simp add: dir_number_def)
  then show thesis using that s3(1) c(3) i(2) demo_tree_shape [OF c(1,2) s1(3) s2(3) i(2,1)] by simp
qed

theorem directory_walks_terminate_witness:
  "\<exists>s hi s'. demo_ok s \<and> inode_directs hi = replicate 10 0 \<and> find_inode_number demo_K hi demo_name s = Some (17, s')"
proof -
  obtain s hi n where s: "demo_ok s" "blocks (\<lambda>d. d) s (dir_number True 0 s) = Some hi" "inode_directs hi = replicate 10 0"
    "tree_inode_ok (blocks (\<lambda>d. d) s) 1 hi" "dir_blocks (blocks (\<lambda>d. d) s) 1 hi = [block_dirents (stamped n demo_leaf)]"
    by (rule demo_tree)
  have b: "block_dirents (stamped n demo_leaf) = new_entries (stored_dirent zero_dirent demo_file)" by (rule demo_leaf_props(6))
  obtain cc' where e: "emit_dirents (\<lambda>_ _. True) (concat (dir_blocks (blocks (\<lambda>d. d) s) 1 hi)) (\<lparr>ctx_pos = 2, ctx_out = []\<rparr>, 2) = Some cc'"
    using emit_dirents_spec [of "new_entries (stored_dirent zero_dirent demo_file)" 2 "\<lparr>ctx_pos = 2, ctx_out = []\<rparr>"]
      demo_file_entries(2) unfolding s(5) b by (auto simp: Let_def)
  from directory_walks_terminate [OF s(1) demo_memory s(2,4) e, of demo_name]
  show ?thesis using s(1,3) demo_leaf_props(5) unfolding s(5) by auto
qed

end
