(* ===== verification/Hodo_File_Large.thy ===== *)
theory Hodo_File_Large
  imports Hodo_File_Tree Hodo_File_Props Hodo_Indirect
begin

text \<open>
  What reads and writes of regular files of any size do over the mounted zonefs: up to
  1068501980 blocks of 4088 bytes through the single, double and triple indirect block. A file is
  given by the trees behind its pointers (\<open>file_at\<close>), its contents by \<open>tree_data\<close>. Writes need heap
  memory with null pointers where a new indirect block is made (\<open>file_memory\<close>): the code takes it as
  it comes from \<open>kmalloc\<close>, and the last section shows what a stale pointer does.
\<close>

section \<open>The operations over the mounted file system\<close>

lemma file_memory_zonefs [simp]: "file_memory (zonefs_kernel B L mnt K) = file_memory K"
  by (simp add: file_memory_def tree_memory_def)

lemma file_at_mapped: "file_at C dl hi fs \<Longrightarrow> C dl \<noteq> None"
  by (simp add: file_at_def)

text \<open>A write request that is complete and ends within the largest file.\<close>

definition large_write_fits :: "vinode \<Rightarrow> kiocb \<Rightarrow> nat \<Rightarrow> bytes \<Rightarrow> iov_iter \<Rightarrow> bool" where
  "large_write_fits vi iocb p hi it \<longleftrightarrow>
     0 < iov_count it \<and> length (iov_data it) = iov_count it \<and> write_pos vi iocb = int p \<and>
     p \<le> unat (hi_file_len hi) \<and> p + iov_count it \<le> MAX_BLOCKS * HODO_DATA_SIZE"

lemma large_write:
  assumes "hodo_ok B L cap zstart dinv zdat mnt s" "file_at (blocks zdat s) (ucast (vi_ino vi)) hi fs" "file_memory K"
    and fits: "large_write_fits vi iocb p hi it" and m: "m = blocks_touched p (iov_count it)"
    and "room_in zdat Z s (5 * m + k)" "4 * m \<le> free_numbers s"
  obtains s' hi' fs' iocb' vi' where
    "hodo_file_write_iter (zonefs_kernel B L mnt K) zw vi iocb it s =
      Some (int (iov_count it), iocb', \<lparr>iov_count = 0, iov_data = []\<rparr>, vi', s')"
    "ki_pos iocb' = int (p + iov_count it)" "vi_size vi' = int (p + iov_count it)"
    "hodo_ok B L cap zstart dinv zdat mnt s'" "file_at (blocks zdat s') (ucast (vi_ino vi)) hi' fs'"
    "tree_data (blocks zdat s') hi' fs' = take p (tree_data (blocks zdat s) hi fs) @ iov_data it"
    "tree_frame (blocks zdat s) (ucast (vi_ino vi)) fs (blocks zdat s') fs'"
    "room_in zdat Z s' k" "free_numbers s \<le> 4 * m + free_numbers s'"
proof -
  have it: "length (iov_data it) = iov_count it" "0 < iov_count it" "write_pos vi iocb = int p"
    "p \<le> unat (hi_file_len hi)" "p + iov_count it \<le> MAX_BLOCKS * HODO_DATA_SIZE"
    using fits by (simp_all add: large_write_fits_def)
  have w: "file_memory (zonefs_kernel B L mnt K)" using assms(3) by simp
  obtain s' hi' fs' iocb' vi' where l: "write_loop (zonefs_kernel B L mnt K) (iov_count it) 0 vi iocb it s =
      Some (int (iov_count it), iocb', rest_of (iov_count it) it, vi', s')"
    "ki_pos iocb' = int (p + iov_count it)" "vi_size vi' = int (p + iov_count it)"
    "tree_wrote (zonefs_ok B L cap zstart dinv zdat) (zonefs_data zdat) mnt (ucast (vi_ino vi)) hi fs p (iov_data it) s hi' fs' s'"
    "room_in zdat Z s' k" "free_numbers s \<le> 4 * m + free_numbers s'"
    by (rule zonefs.tree_write_loop [OF assms(1,2) refl assms(6,7) w it(1-4) blocks_touched [where p = p, OF it(2), folded m] it(5)])
  have "rest_of (iov_count it) it = \<lparr>iov_count = 0, iov_data = []\<rparr>" by (simp add: rest_of_def it(1))
  then show thesis
    using that [of iocb' vi' s' hi' fs'] l not_zone_file(2) [OF assms(1) file_at_mapped [OF assms(2)]]
    by (simp add: hodo_file_write_iter_def hodo_sub_file_write_iter_def tree_wrote_def)
qed

text \<open>The blocks of a file have different numbers, so no file reaches \<open>2 ^ 32\<close> bytes.\<close>

lemma file_at_length:
  assumes "hodo_ok B L cap zstart dinv zdat mnt s" "file_at (blocks zdat s) dl hi fs"
  shows "unat (hi_file_len hi) < 2 ^ 32"
proof -
  let ?C = "blocks zdat s" and ?ls = "forest_leaves fs"
  have F: "forest_at ?C root_depth fs" "distinct (forest_numbers fs)" "unat (hi_file_len hi) \<le> length ?ls * HODO_DATA_SIZE"
    using assms(2) by (simp_all add: file_at_def)
  have "set ?ls \<subseteq> dom ?C" using forest_leaves_subset [of fs] forest_at_mapped [OF F(1)] by blast
  then have "card (set ?ls) \<le> card (dom ?C)" by (intro card_mono) simp_all
  also have "\<dots> \<le> 1048576" using mapped_in_use [OF assms(1)] by (simp add: NUMBER_MAPPING_TABLE_ENTRY_eq)
  finally have "length ?ls \<le> 1048576" using distinct_card [OF distinct_forest_leaves [OF F(2)]] by simp
  then have "length ?ls * HODO_DATA_SIZE \<le> 1048576 * HODO_DATA_SIZE" by (rule mult_le_mono1)
  then show ?thesis using F(3) by (simp add: HODO_DATA_SIZE_eq)
qed

text \<open>A read stays inside of the blocks of the file, and asks for less than \<open>2 ^ 31\<close> bytes, as the kernel
  ensures for every read (\<open>MAX_RW_COUNT\<close>).\<close>

definition large_read_fits :: "nat \<Rightarrow> nat \<Rightarrow> bytes \<Rightarrow> bool" where
  "large_read_fits p count hi \<longleftrightarrow>
     count < 2 ^ 31 \<and> (p + count < unat (hi_file_len hi) \<or> \<not> HODO_DATA_SIZE dvd unat (hi_file_len hi))"

lemma large_read:
  assumes ok: "hodo_ok B L cap zstart dinv zdat mnt s" and f: "file_at (blocks zdat s) (ucast ino) hi fs" and mem: "memory_ok K"
    and pos: "ki_pos iocb = int p" "p < unat (hi_file_len hi)" and fits: "large_read_fits p count hi"
    and rl: "rl = min count (unat (hi_file_len hi) - p)"
  obtains s' where "hodo_file_read_iter (zonefs_kernel B L mnt K) zr ino iocb count s =
      Some (int rl, take rl (drop p (tree_data (blocks zdat s) hi fs)), iocb\<lparr>ki_pos := int (p + rl)\<rparr>, s')"
    "same_store (zonefs_ok B L cap zstart dinv zdat) (zonefs_data zdat) s s'"
proof -
  let ?n = HODO_DATA_SIZE and ?K = "zonefs_kernel B L mnt K" and ?len = "unat (hi_file_len hi)" and ?b = "length (forest_leaves fs)"
  have fl: "count < 2 ^ 64" "p + count < ?len \<or> \<not> ?n dvd ?len" "count < 2 ^ 31"
    using fits by (simp_all add: large_read_fits_def)
  have r31: "rl < 2 ^ 31" using fl(3) rl by linarith
  have le: "p + rl \<le> ?len" using rl pos(2) by simp
  have bl: "?len \<le> ?b * ?n" using f by (simp add: file_at_def)
  have "p + rl < ?b * ?n"
  proof (cases "p + rl < ?len")
    case False
    then have e: "?len = p + rl" "p + rl \<le> p + count" using le rl by simp_all
    then have "\<not> ?n dvd ?len" using fl(2) by simp
    then have "?len \<noteq> ?b * ?n" by (metis dvd_triv_right)
    then show ?thesis using e bl by simp
  qed (use bl in linarith)
  then have last: "(p + rl) div ?n < ?b" by (rule less_mult_imp_div_less)
  obtain buf where b: "k_kmalloc ?K 16 = Some buf" "length buf = 4096" using memory_okD [OF mem] by auto
  obtain tmp where t: "k_kmalloc ?K 12 = Some tmp" "length tmp = 4096" using memory_okD [OF mem] by auto
  have z: "length zero_block = 4096" by (simp add: zero_block_def HODO_DATABLOCK_SIZE_def)
  have c: "blocks zdat s (ucast ino) = Some hi" using f by (simp add: file_at_def)
  obtain s1 where s1: "hodo_read_struct ?K (ucast ino) zero_block HODO_DATABLOCK_SIZE s = Some (4096, hi, s1)"
    "same_store (zonefs_ok B L cap zstart dinv zdat) (zonefs_data zdat) s s1"
    "hodo_ok B L cap zstart dinv zdat mnt s1" "blocks zdat s1 = blocks zdat s"
    by (rule zonefs.read_block [OF ok c z])
  have f1: "file_at (blocks zdat s1) (ucast ino) hi fs" using f s1(4) by simp
  obtain s2 where s2: "read_range ?K hi iocb count s1 =
      Some (int rl, take rl (drop p (tree_data (blocks zdat s) hi fs)), iocb\<lparr>ki_pos := int (p + rl)\<rparr>, s2)"
    "same_store (zonefs_ok B L cap zstart dinv zdat) (zonefs_data zdat) s1 s2"
    using zonefs.tree_read_range [OF s1(3) f1 b t pos fl(1) file_at_length [OF ok f] r31 rl last] s1(4) by auto
  show thesis
    by (rule that [OF _ same_store_trans [OF s1(2) s2(2)]])
      (use s1(1) s2(1) not_zone_file(1) [OF ok file_at_mapped [OF f]] in \<open>simp add: hodo_file_read_iter_def\<close>)
qed

section \<open>The example file\<close>

lemma demo_large_empty:
  obtains s hi where "demo_ok s" "file_at (blocks (\<lambda>d. d) s) (ucast (vi_ino demo_vi)) hi []" "hi_file_len hi = 0"
    "room (\<lambda>d. d) s 65535" "1048575 \<le> free_numbers s"
proof -
  obtain s root where s: "demo_ok s" "blocks (\<lambda>d. d) s = [16 \<mapsto> root]" "inode_ok (blocks (\<lambda>d. d) s) 16 root"
    "inode_directs root = replicate 10 0" "room (\<lambda>d. d) s 65535" "1048575 \<le> free_numbers s" "hi_file_len root = 0"
    by (rule demo_root)
  note D = inode_okD [OF s(3)]
  have "root_ptr k root = 0" if "k < 13" for k
    using root_cases [OF that] D(5-7) s(4) by (auto simp: root_ptr_def nth_append inode_indirects_def)
  then have "file_at (blocks (\<lambda>d. d) s) (ucast (vi_ino demo_vi)) root []"
    using D(1-4) s(7) by (simp add: file_at_def demo_vi_def)
  then show thesis using that s(1,5-7) by blast
qed

lemma db_ptr_zero_block: "j < PTR_SLOTS \<Longrightarrow> db_ptr j zero_block = 0"
  using db_ptr_magic_zero [of j 0] by (simp add: db_ptr_set_magic zero_block_ptrs(1))

lemma demo_file_memory: "file_memory demo_kernel"
  by (simp add: file_memory_def tree_memory_def demo_kernel_def db_ptr_zero_block zero_block_ptrs(1))

text \<open>Five million bytes: 1224 blocks, which need the single and the double indirect block.\<close>

definition demo_big :: iov_iter where
  "demo_big = demo_iov 5000000"

lemma demo_big_simps [simp]: "iov_count demo_big = 5000000" "iov_data demo_big = replicate 5000000 0x61"
  by (simp_all add: demo_big_def demo_iov_def)

lemma demo_big_fits: "hi_file_len hi = 0 \<Longrightarrow> large_write_fits demo_vi demo_iocb 0 hi demo_big"
  by (simp add: large_write_fits_def write_pos_def demo_iocb_def MAX_BLOCKS_def PTR_SLOTS_def HODO_DATA_SIZE_eq)

lemma demo_big_blocks: "blocks_touched 0 5000000 = 1224"
  by (simp add: blocks_touched_def HODO_DATA_SIZE_eq)

section \<open>Properties of large files\<close>



text \<open>C6: reading less than \<open>2 ^ 31\<close> bytes from an offset inside of a file of any size returns the bytes
  of its contents, as many as were asked for and exist, and moves the offset behind them. Nothing
  changes in the store. The one case left out is a read that reaches the end of a file whose length is a
  multiple of the block size, which faults (\<open>read_at_block_boundary_faults\<close>).\<close>

theorem large_read_returns_contents:
  assumes "hodo_ok B L cap zstart dinv zdat mnt s" "file_at (blocks zdat s) (ucast ino) hi fs" "memory_ok K"
    and "ki_pos iocb = int p" "p < unat (hi_file_len hi)" "large_read_fits p count hi"
    and "rl = min count (unat (hi_file_len hi) - p)"
  shows "\<exists>s'. hodo_file_read_iter (zonefs_kernel B L mnt K) zr ino iocb count s =
      Some (int rl, take rl (drop p (tree_data (blocks zdat s) hi fs)), iocb\<lparr>ki_pos := int (p + rl)\<rparr>, s') \<and>
    hodo_ok B L cap zstart dinv zdat mnt s' \<and> blocks zdat s' = blocks zdat s"
proof -
  obtain s' where s': "hodo_file_read_iter (zonefs_kernel B L mnt K) zr ino iocb count s =
      Some (int rl, take rl (drop p (tree_data (blocks zdat s) hi fs)), iocb\<lparr>ki_pos := int (p + rl)\<rparr>, s')"
    "same_store (zonefs_ok B L cap zstart dinv zdat) (zonefs_data zdat) s s'"
    by (rule large_read [OF assms, where zr = zr])
  show ?thesis using s'(1) same_storeD(1,2) [OF s'(2)] assms(1) by blast
qed

text \<open>The file after the write of the example.\<close>

lemma demo_large_file:
  obtains s hi fs where "demo_ok s" "file_at (blocks (\<lambda>d. d) s) (ucast (vi_ino demo_vi)) hi fs"
    "tree_data (blocks (\<lambda>d. d) s) hi fs = replicate 5000000 0x61" "unat (hi_file_len hi) = 5000000"
proof -
  obtain s hi where s: "demo_ok s" "file_at (blocks (\<lambda>d. d) s) (ucast (vi_ino demo_vi)) hi []" "hi_file_len hi = 0"
    "room (\<lambda>d. d) s 65535" "1048575 \<le> free_numbers s" by (rule demo_large_empty)
  have m: "1224 = blocks_touched 0 (iov_count demo_big)" by (simp add: demo_big_blocks)
  have r: "room (\<lambda>d. d) s (5 * 1224 + 0)" by (rule wp_room_mono [OF s(4)]) simp
  have f: "4 * 1224 \<le> free_numbers s" using s(5) by simp
  obtain s' hi' fs' where s': "demo_ok s'" "file_at (blocks (\<lambda>d. d) s') (ucast (vi_ino demo_vi)) hi' fs'"
    "tree_data (blocks (\<lambda>d. d) s') hi' fs' = take 0 (tree_data (blocks (\<lambda>d. d) s) hi []) @ iov_data demo_big"
    by (rule large_write [OF s(1,2) demo_file_memory demo_big_fits [OF s(3)] m r f, where zw = demo_zw])
  have d: "tree_data (blocks (\<lambda>d. d) s') hi' fs' = replicate 5000000 0x61" using s'(3) by simp
  have "length (tree_data (blocks (\<lambda>d. d) s') hi' fs') = 5000000" unfolding d by (rule length_replicate)
  then show thesis using that s'(1,2) d length_tree_data [OF s'(2)] by simp
qed

theorem large_read_returns_contents_witness:
  "\<exists>s s' iocb'. demo_ok s \<and>
     hodo_file_read_iter demo_K demo_zr 16 (demo_iocb\<lparr>ki_pos := 4500000\<rparr>) 100 s = Some (100, replicate 100 0x61, iocb', s')"
proof -
  obtain s hi fs where s: "demo_ok s" "file_at (blocks (\<lambda>d. d) s) (ucast (vi_ino demo_vi)) hi fs"
    "tree_data (blocks (\<lambda>d. d) s) hi fs = replicate 5000000 0x61" "unat (hi_file_len hi) = 5000000"
    by (rule demo_large_file)
  have f: "file_at (blocks (\<lambda>d. d) s) (ucast (16 :: u64)) hi fs" using s(2) by (simp add: demo_vi_def)
  have p: "ki_pos (demo_iocb\<lparr>ki_pos := 4500000\<rparr>) = int 4500000" "4500000 < unat (hi_file_len hi)" using s(4) by simp_all
  have i: "large_read_fits 4500000 100 hi" using s(4) by (simp add: large_read_fits_def)
  have n: "100 = min 100 (unat (hi_file_len hi) - 4500000)" using s(4) by simp
  have d: "take 100 (drop 4500000 (replicate 5000000 (0x61 :: u8))) = replicate 100 0x61"
    by (simp only: drop_replicate take_replicate) simp
  obtain s' where "hodo_file_read_iter demo_K demo_zr 16 (demo_iocb\<lparr>ki_pos := 4500000\<rparr>) 100 s =
      Some (int 100, replicate 100 0x61, demo_iocb\<lparr>ki_pos := 4500000\<rparr>\<lparr>ki_pos := int (4500000 + 100)\<rparr>, s')"
    using large_read_returns_contents [OF s(1) f demo_memory p i n, of demo_zr] unfolding s(3) d by blast
  then show ?thesis using s(1) by simp blast
qed

text \<open>C7: what is written to a file of any size is read back, unless it ends at a multiple of the block
  size: a write of less than \<open>2 ^ 31\<close> bytes at any offset inside of the file, then a read of the same range,
  gives the bytes that were written. A range that ends at a multiple of the block size is left out: the
  file then ends there, and the read faults (\<open>read_at_block_boundary_faults\<close>). As for every write to
  a large file, memory for new indirect blocks holds null pointers (\<open>file_memory\<close>).\<close>

theorem large_write_read:
  assumes "hodo_ok B L cap zstart dinv zdat mnt s" "file_at (blocks zdat s) (ucast (vi_ino vi)) hi fs" "file_memory K"
    and "memory_ok K" "large_write_fits vi iocb p hi it" "m = blocks_touched p (iov_count it)"
    and "room zdat s (5 * m)" "4 * m \<le> free_numbers s"
    and "iov_count it < 2 ^ 31" "\<not> HODO_DATA_SIZE dvd p + iov_count it"
  shows "\<exists>s1 iocb1 vi1 it1 s2 iocb2.
    hodo_file_write_iter (zonefs_kernel B L mnt K) zw vi iocb it s = Some (int (iov_count it), iocb1, it1, vi1, s1) \<and>
    hodo_file_read_iter (zonefs_kernel B L mnt K) zr (vi_ino vi) (iocb\<lparr>ki_pos := int p\<rparr>) (iov_count it) s1 =
      Some (int (iov_count it), iov_data it, iocb2, s2)"
proof -
  have r: "room zdat s (5 * m + 0)" using assms(7) by simp
  have it: "length (iov_data it) = iov_count it" "p \<le> unat (hi_file_len hi)" "0 < iov_count it"
    using assms(5) by (simp_all add: large_write_fits_def)
  obtain s1 hi1 fs1 iocb1 vi1 where s1: "hodo_file_write_iter (zonefs_kernel B L mnt K) zw vi iocb it s =
      Some (int (iov_count it), iocb1, \<lparr>iov_count = 0, iov_data = []\<rparr>, vi1, s1)"
    "hodo_ok B L cap zstart dinv zdat mnt s1" "file_at (blocks zdat s1) (ucast (vi_ino vi)) hi1 fs1"
    "tree_data (blocks zdat s1) hi1 fs1 = take p (tree_data (blocks zdat s) hi fs) @ iov_data it"
    by (rule large_write [OF assms(1-3,5,6) r assms(8), where zw = zw])
  note l = length_tree_data [OF assms(2)] length_tree_data [OF s1(3)]
  have l1: "unat (hi_file_len hi1) = p + iov_count it" using l s1(4) it(1,2) by simp
  have d: "take (iov_count it) (drop p (tree_data (blocks zdat s1) hi1 fs1)) = iov_data it"
    using l(1) s1(4) it(1,2) by simp
  have p: "ki_pos (iocb\<lparr>ki_pos := int p\<rparr>) = int p" "p < unat (hi_file_len hi1)" using it(3) l1 by simp_all
  have i: "large_read_fits p (iov_count it) hi1" using assms(9,10) l1 by (simp add: large_read_fits_def)
  have n: "iov_count it = min (iov_count it) (unat (hi_file_len hi1) - p)" using l1 by simp
  obtain s2 where "hodo_file_read_iter (zonefs_kernel B L mnt K) zr (vi_ino vi) (iocb\<lparr>ki_pos := int p\<rparr>) (iov_count it) s1 =
      Some (int (iov_count it), take (iov_count it) (drop p (tree_data (blocks zdat s1) hi1 fs1)),
        iocb\<lparr>ki_pos := int p\<rparr>\<lparr>ki_pos := int (p + iov_count it)\<rparr>, s2)"
    by (rule large_read [OF s1(2,3) assms(4) p i n, where zr = zr])
  then show ?thesis using s1(1) unfolding d by blast
qed

theorem large_write_read_witness:
  "\<exists>s s1 iocb1 vi1 it1 s2 iocb2. demo_ok s \<and>
     hodo_file_write_iter demo_K demo_zw demo_vi demo_iocb demo_big s = Some (5000000, iocb1, it1, vi1, s1) \<and>
     hodo_file_read_iter demo_K demo_zr 16 (demo_iocb\<lparr>ki_pos := 0\<rparr>) 5000000 s1 =
       Some (5000000, replicate 5000000 0x61, iocb2, s2)"
proof -
  obtain s hi where s: "demo_ok s" "file_at (blocks (\<lambda>d. d) s) (ucast (vi_ino demo_vi)) hi []" "hi_file_len hi = 0"
    "room (\<lambda>d. d) s 65535" "1048575 \<le> free_numbers s" by (rule demo_large_empty)
  have m: "1224 = blocks_touched 0 (iov_count demo_big)" by (simp add: demo_big_blocks)
  have r: "room (\<lambda>d. d) s (5 * 1224)" by (rule wp_room_mono [OF s(4)]) simp
  have f: "4 * 1224 \<le> free_numbers s" using s(5) by simp
  have b: "iov_count demo_big < 2 ^ 31" "\<not> HODO_DATA_SIZE dvd 0 + iov_count demo_big" by (simp_all add: HODO_DATA_SIZE_eq)
  have v: "vi_ino demo_vi = 16" by (simp add: demo_vi_def)
  from large_write_read [OF s(1,2) demo_file_memory demo_memory demo_big_fits [OF s(3)] m r f b, of demo_zw demo_zr]
  show ?thesis using s(1) unfolding v by simp blast
qed

text \<open>C8: finding a block by its index. The divisions and remainders with which
  \<open>hodo_read_nth_block\<close> picks a pointer of the inode and one per level of indirect blocks lead to the
  same block as the enumeration of all leaves from left to right, at every index and depth.\<close>

theorem nth_block_is_nth_leaf:
  assumes "hodo_ok B L cap zstart dinv zdat mnt s" "file_at (blocks zdat s) dl hi fs" "memory_ok K"
    and "j < length (forest_leaves fs)" "length dst = 4096"
  shows "\<exists>s'. hodo_read_nth_block (zonefs_kernel B L mnt K) hi (int j) dst s =
      Some (the (blocks zdat s (forest_leaves fs ! j)), s') \<and> blocks zdat s' = blocks zdat s"
proof -
  have D: "forest_at (blocks zdat s) root_depth fs" "length fs \<le> 13"
    "\<forall>k<13. root_ptr k hi = (if k < length fs then root_number (fs ! k) else 0)"
    using assms(2) by (simp_all add: file_at_def)
  have j: "j < MAX_BLOCKS" using assms(4) file_size [OF D(1,2)] by simp
  obtain tmp where t: "k_kmalloc (zonefs_kernel B L mnt K) 12 = Some tmp" "length tmp = 4096"
    using memory_okD [OF assms(3)] by auto
  show ?thesis
    using zonefs.read_tree_block [OF assms(1) D assms(4) j assms(5) t] same_storeD(2) by metis
qed

theorem nth_block_is_nth_leaf_witness:
  "\<exists>s hi b s'. demo_ok s \<and> hodo_read_nth_block demo_K hi 1100 zero_block s = Some (b, s') \<and> is_directblock b"
proof -
  obtain s hi fs where s: "demo_ok s" "file_at (blocks (\<lambda>d. d) s) (ucast (vi_ino demo_vi)) hi fs"
    "unat (hi_file_len hi) = 5000000" by (rule demo_large_file)
  have D: "forest_at (blocks (\<lambda>d. d) s) root_depth fs" "5000000 \<le> length (forest_leaves fs) * HODO_DATA_SIZE"
    using s(2,3) by (simp_all add: file_at_def)
  have j: "1100 < length (forest_leaves fs)" using D(2) by (simp add: HODO_DATA_SIZE_eq)
  have z: "length zero_block = 4096" by (simp add: zero_block_def HODO_DATABLOCK_SIZE_def)
  obtain b where b: "blocks (\<lambda>d. d) s (forest_leaves fs ! 1100) = Some b" "is_directblock b"
    using forest_leaf [OF D(1) nth_mem [OF j]] by blast
  from nth_block_is_nth_leaf [OF s(1,2) demo_memory j z] show ?thesis using s(1) b by auto
qed

section \<open>Stale pointers\<close>

text \<open>Heap memory that was an indirect block before: its first pointer still leads to a data block.\<close>

definition stale_memory :: "'z kernel \<Rightarrow> u32 \<Rightarrow> bool" where
  "stale_memory K v \<longleftrightarrow> tree_memory K \<and> length (k_stack K 4) = 4096 \<and>
     (\<exists>b. k_kmalloc K 13 = Some b \<and> length b = 4096 \<and> points_to b [PLeaf v])"

lemma stale_memory_zonefs [simp]: "stale_memory (zonefs_kernel B L mnt K) v = stale_memory K v"
  by (simp add: stale_memory_def tree_memory_def)

context zone_store
begin

lemma stale_pointer:
  assumes ok: "store_ok zinv zdata mnt s" and f: "file_ok (contents zdata s) dl hi" and dl: "dl = ucast (vi_ino vi)"
    and len: "unat (hi_file_len hi) = 10 * HODO_DATA_SIZE" and mem: "stale_memory K v"
    and v: "contents zdata s v = Some c" "length c = 4096" "db_is_dat c" "is_directblock c"
    and room: "wp_room zdata Z s 3" and free: "2 \<le> free_numbers s"
    and it: "length (iov_data it) = iov_count it" "0 < iov_count it" "iov_count it \<le> HODO_DATA_SIZE"
    and pos: "write_pos vi iocb = int p" "p = 10 * HODO_DATA_SIZE"
  obtains s' iocb' vi' b where "write_one_block K vi iocb it s = Some (int (iov_count it), iocb', rest_of (iov_count it) it, vi', s')"
    "contents zdata s' v = Some b" "take (iov_count it) (db_data b) = iov_data it" "store_ok zinv zdata mnt s'"
proof -
  let ?C = "contents zdata s" and ?n = "iov_count it"
  obtain buf where b: "k_kmalloc K 13 = Some buf" "length buf = 4096" "points_to buf [PLeaf v]" "length (k_stack K 4) = 4096"
    and tm: "tree_memory K" using mem by (auto simp: stale_memory_def)
  have ino: "inode_ok ?C dl hi" using f by (simp add: file_ok_def)
  note D = inode_okD [OF ino]
  obtain s0 where s0: "hodo_read_struct K dl (k_stack K 4) HODO_DATABLOCK_SIZE s = Some (4096, hi, s0)"
    "same_store zinv zdata s s0" "store_ok zinv zdata mnt s0" "contents zdata s0 = ?C"
    by (rule read_block [OF ok D(1) b(4)])
  note same = same_storeD [OF s0(2)]
  have off: "file_offset (int p) = p"
    by (rule max_offset) (simp add: pos(2) MAX_BLOCKS_def PTR_SLOTS_def HODO_DATA_SIZE_eq)
  have ten: "(10 :: nat) = file_offset (int p) div HODO_DATA_SIZE" "p mod HODO_DATA_SIZE = 0"
    unfolding off by (simp_all add: pos(2) HODO_DATA_SIZE_eq)
  have ib: "in_block (int p) it 0 ?n"
    using it ten(2) by (simp add: in_block_def off min_def)
  have k: "tree_index 10 = 10" "root_depth 10 = Suc 0" "tree_start 10 = 10" "(10 :: nat) < MAX_BLOCKS"
    by (simp_all add: tree_index_def root_depth_def tree_start_def MAX_BLOCKS_def PTR_SLOTS_def)
  have slots: "indirect_slot (file_offset (int p) div HODO_DATA_SIZE) b' = Inr (0 div PTR_SLOTS ^ e mod PTR_SLOTS)"
    if "e \<le> 0" "has_level (0x31 + of_nat e) b'" for e b'
    using indirect_slot_level [OF _ k(4) _ that(2)] that(1) unfolding ten(1) [symmetric] k(1-3) by simp
  let ?cur = "db_set_magic 0x31 buf"
  have cur: "length ?cur = 4096" "has_level (0x31 + of_nat 0) ?cur" "points_to ?cur [PLeaf v]"
    using b(2,3) by (simp_all add: length_simps has_level_def points_to_def db_ptr_set_magic)
  have v0: "v \<noteq> 0" using mapped_num_ok [OF ok, of v] v(1) by (simp add: num_ok_def)
  have F: "forest_at (contents zdata s0) (\<lambda>_. 0) [PLeaf v]" using v v0 s0(4) by (simp add: forest_at_def)
  have r0: "wp_room zdata Z s0 (Suc (Suc 0) + 1)" and f0: "Suc (Suc 0) \<le> free_numbers s0"
    using room free same(3,7) by (simp_all add: numeral_3_eq_3)
  have "\<exists>l' ts' s'. write_one_block_by_indirect_block K (int p) it 0 ?cur s0 = Some (int ?n, l', rest_of ?n it, s') \<and>
      store_ok zinv zdata mnt s' \<and> wp_room zdata Z s' 1 \<and> free_numbers s0 \<le> Suc (Suc 0) + free_numbers s' \<and>
      tree_written (block_holds 0 [] (take ?n (iov_data it))) 0 (contents zdata s0) 0 0 [PLeaf v] (contents zdata s') l' ts'"
    by (rule write_tree [where D = 0 and R = 0, OF tm ib _ slots order_refl s0(3) r0 f0 cur F])
      (simp_all add: own_number_def old_bytes_def)
  then obtain l' ts' s2 where w: "write_one_block_by_indirect_block K (int p) it 0 ?cur s0 = Some (int ?n, l', rest_of ?n it, s2)"
    "store_ok zinv zdata mnt s2" "wp_room zdata Z s2 (Suc 0)"
    "block_written (block_holds 0 [] (take ?n (iov_data it))) 0 ?C [v] [v] (contents zdata s2) (forest_leaves ts') (l' # forest_numbers ts')"
    using s0(4) by (auto simp: tree_written_def own_number_def)
  obtain x b' where x: "forest_leaves ts' = take 0 [v] @ x # drop (Suc 0) [v]" "if 0 < length [v] then x = [v] ! 0 else ?C x = None"
    "contents zdata s2 x = Some b'" "block_holds 0 [] (take ?n (iov_data it)) b'"
    by (rule block_writtenE [OF w(4)])
  have xv: "x = v" "take ?n (db_data b') = iov_data it" using x(2,4) it(1) by (simp_all add: block_holds_def)
  have dv: "dl \<noteq> v" using D(1,3) v(1,3) by auto
  define hi2 where "hi2 = hi_set_file_len (of_nat (p + ?n)) (set_root 10 l' hi)"
  note g = set_root_frame [where l = l' and k = 10, OF D(2)]
  have h2: "length hi2 = 4096" "\<not> db_is_dat hi2" "hi_ino hi2 = dl"
    unfolding hi2_def using set_len_root(1-3) [OF g(1)] g(2,3) D(3,4) by simp_all
  have "contents zdata s2 dl \<noteq> None" using block_writtenD(2) [OF w(4)] D(1) by simp
  then have nd: "num_ok s2 dl" by (rule mapped_num_ok [OF w(2)])
  obtain s3 where s3: "hodo_write_struct K hi2 HODO_DATABLOCK_SIZE dl s2 = Some (4096, hi2, dl, s3)"
    "store_ok zinv zdata mnt s3" "contents zdata s3 = (contents zdata s2)(dl \<mapsto> hi2)"
    by (rule write_inode [OF w(2,3) nd h2])
  define iocb1 where "iocb1 = (if ki_append iocb then iocb\<lparr>ki_pos := vi_size vi\<rparr> else iocb)"
  have ip: "ki_pos iocb1 = int p" using pos(1) by (simp add: write_pos_def iocb1_def split: if_splits)
  have l: "load_or_new K (root_ptr 10 hi) (0x30 + of_nat (root_depth 10)) buf s0 = Some (?cur, s0)"
    using D(5) k(2) by (simp add: load_or_new_def is_block_logical_number_valid_def root_ptr_simps)
  have "write_one_block K vi iocb it s = finish_write K vi iocb1 (int ?n) (set_root 10 l' hi) (rest_of ?n it) s2"
    by (rule write_one_block_root [OF s0(1) [unfolded dl] b(1) iocb1_def _ k(4) k(1) [symmetric] l])
      (unfold ip, rule ten(1), use w(1) D(5) in \<open>simp add: root_ptr_simps\<close>)
  also have "\<dots> = Some (int ?n, iocb1\<lparr>ki_pos := int p + int ?n\<rparr>, rest_of ?n it,
      vi\<lparr>vi_size := int p + int ?n\<rparr>, s3)"
    using s3(1) by (simp add: finish_write_def ip dl hi2_def)
  finally show thesis using that s3(2,3) x(3) xv dv by simp
qed

end

text \<open>C9: a block of another file is overwritten. When the heap memory that becomes the single
  indirect block of a growing file still holds the number \<open>v\<close> of a data block in its first slot, the
  code takes it for a pointer of the file: appending to a file of ten blocks succeeds, and the
  appended bytes replace those of block \<open>v\<close>, whoever owns it.\<close>

theorem stale_pointer_overwrites_block:
  assumes "hodo_ok B L cap zstart dinv zdat mnt s" "file_ok (blocks zdat s) (ucast (vi_ino vi)) hi"
    and "unat (hi_file_len hi) = 10 * HODO_DATA_SIZE" "stale_memory K v"
    and "blocks zdat s v = Some c" "length c = 4096" "db_is_dat c" "is_directblock c"
    and "room zdat s 3" "2 \<le> free_numbers s"
    and "length (iov_data it) = iov_count it" "0 < iov_count it" "iov_count it \<le> HODO_DATA_SIZE"
    and "write_pos vi iocb = int (10 * HODO_DATA_SIZE)"
  shows "\<exists>s' iocb' vi' b. hodo_file_write_iter (zonefs_kernel B L mnt K) zw vi iocb it s =
      Some (int (iov_count it), iocb', \<lparr>iov_count = 0, iov_data = []\<rparr>, vi', s') \<and>
    blocks zdat s' v = Some b \<and> take (iov_count it) (db_data b) = iov_data it"
proof -
  let ?K = "zonefs_kernel B L mnt K"
  have mem: "stale_memory ?K v" using assms(4) by simp
  obtain s' iocb' vi' b where w: "write_one_block ?K vi iocb it s = Some (int (iov_count it), iocb', rest_of (iov_count it) it, vi', s')"
    "blocks zdat s' v = Some b" "take (iov_count it) (db_data b) = iov_data it"
    by (rule zonefs.stale_pointer [OF assms(1,2) refl assms(3) mem assms(5-14) refl])
  have "write_loop ?K (iov_count it) (int (iov_count it)) vi' iocb' (rest_of (iov_count it) it) s' =
      Some (int (iov_count it), iocb', rest_of (iov_count it) it, vi', s')"
    by (subst write_loop.simps) simp
  then have "write_loop ?K (iov_count it) 0 vi iocb it s = Some (int (iov_count it), iocb', rest_of (iov_count it) it, vi', s')"
    using w(1) assms(12) by (subst write_loop.simps) simp
  moreover have "rest_of (iov_count it) it = \<lparr>iov_count = 0, iov_data = []\<rparr>" by (simp add: rest_of_def assms(11))
  ultimately show ?thesis
    using w(2,3) not_zone_file(2) [OF assms(1) file_ok_mapped [OF assms(2)]]
    by (auto simp: hodo_file_write_iter_def hodo_sub_file_write_iter_def)
qed


definition stale_kernel :: "u32 \<Rightarrow> ram zonefs_state kernel" where
  "stale_kernel v = demo_kernel\<lparr>k_kmalloc := (\<lambda>n. if n = 13 then Some (db_set_ptr 0 v zero_block) else Some zero_block)\<rparr>"

lemma stale_kernel_memory: "stale_memory (stale_kernel v) v"
proof -
  have z: "length zero_block = 4096" "Suc 0 \<le> PTR_SLOTS" by (simp_all add: zero_block_ptrs(1) PTR_SLOTS_def)
  have "points_to (db_set_ptr 0 v zero_block) [PLeaf v]"
    using z by (auto simp: points_to_def db_ptr_set_ptr db_ptr_zero_block nth_Cons')
  moreover have "tree_memory (stale_kernel v)"
    using z by (simp add: tree_memory_def stale_kernel_def db_ptr_zero_block)
  ultimately show ?thesis
    using z by (simp add: stale_memory_def stale_kernel_def demo_kernel_def length_simps)
qed

text \<open>In the example the old pointer leads to the first block of the file itself.\<close>

theorem stale_pointer_overwrites_block_witness:
  "\<exists>s hi s' iocb' vi' it' b. demo_ok s \<and> file_ok (blocks (\<lambda>d. d) s) 16 hi \<and>
     hodo_file_write_iter (zonefs_kernel ram_blk ram_lib ''/mnt'' (stale_kernel (hi_direct 0 hi))) demo_zw demo_vi
       (demo_iocb\<lparr>ki_pos := 40880\<rparr>) (demo_iov 10) s = Some (10, iocb', it', vi', s') \<and>
     blocks (\<lambda>d. d) s' (hi_direct 0 hi) = Some b \<and> take 10 (db_data b) = replicate 10 0x61"
proof -
  have n: "(0 :: nat) < 40880" "(40880 :: nat) \<le> 40880" and b: "blocks_touched 0 40880 \<le> 10"
    by (simp_all add: blocks_touched_def HODO_DATA_SIZE_eq)
  obtain s hi where s: "demo_ok s" "file_ok (blocks (\<lambda>d. d) s) (ucast (vi_ino demo_vi)) hi"
    "unat (hi_file_len hi) = 40880" "room (\<lambda>d. d) s 40" "40 \<le> free_numbers s" by (rule demo_written [OF n b])
  have i: "inode_ok (blocks (\<lambda>d. d) s) (ucast (vi_ino demo_vi)) hi" and nz: "hi_direct 0 hi \<noteq> 0"
    using s(2,3) by (simp_all add: file_ok_def)
  obtain c where c: "blocks (\<lambda>d. d) s (hi_direct 0 hi) = Some c" "length c = 4096" "db_is_dat c" "is_directblock c"
    using inode_okD(8) [OF i _ nz] by auto
  have l: "unat (hi_file_len hi) = 10 * HODO_DATA_SIZE" using s(3) by (simp add: HODO_DATA_SIZE_eq)
  have r: "room (\<lambda>d. d) s 3" by (rule wp_room_mono [OF s(4)]) simp
  have f: "2 \<le> free_numbers s" using s(5) by simp
  have it: "length (iov_data (demo_iov 10)) = iov_count (demo_iov 10)" "0 < iov_count (demo_iov 10)"
    "iov_count (demo_iov 10) \<le> HODO_DATA_SIZE" by (simp_all add: demo_iov_def HODO_DATA_SIZE_eq)
  have p: "write_pos demo_vi (demo_iocb\<lparr>ki_pos := 40880\<rparr>) = int (10 * HODO_DATA_SIZE)"
    by (simp add: write_pos_def demo_iocb_def HODO_DATA_SIZE_eq)
  have d: "ucast (vi_ino demo_vi) = (16 :: u32)" "iov_count (demo_iov 10) = 10" "iov_data (demo_iov 10) = replicate 10 0x61"
    by (simp_all add: demo_vi_def demo_iov_def)
  from stale_pointer_overwrites_block [OF s(1,2) l stale_kernel_memory c r f it p, of demo_zw]
  show ?thesis using s(1,2) unfolding d by simp blast
qed

end
