(* ===== verification/Hodo_Forward.thy ===== *)
theory Hodo_Forward
  imports Hodo_Vfs
begin

text \<open>
  The operation tables through which the kernel reaches the page cache of a file and the operations of
  a directory that hodo leaves to zonefs. Every entry of \<open>hodo_file_aops\<close> calls the entry of the same
  name in \<open>zonefs_file_aops\<close>, so a zone file keeps its page cache operations under the new table.
\<close>

section \<open>Address space operations\<close>

text \<open>
  The ten entries that both tables set, over folios \<open>'f\<close>, read-ahead controls \<open>'r\<close>, writeback controls
  \<open>'w\<close> and the state \<open>'z\<close>. An entry of \<open>int\<close> or \<open>bool\<close> returns it with the state; the flags \<open>gfp_mask\<close> and
  the migration mode are numbers.
\<close>

record ('f, 'r, 'w, 'z) address_space_operations =
  aop_read_folio :: "'f \<Rightarrow> 'z \<Rightarrow> int \<times> 'z"
  aop_readahead :: "'r \<Rightarrow> 'z \<Rightarrow> 'z"
  aop_writepages :: "'w \<Rightarrow> 'z \<Rightarrow> int \<times> 'z"
  aop_dirty_folio :: "'f \<Rightarrow> 'z \<Rightarrow> bool \<times> 'z"
  aop_release_folio :: "'f \<Rightarrow> u32 \<Rightarrow> 'z \<Rightarrow> bool \<times> 'z"
  aop_invalidate_folio :: "'f \<Rightarrow> nat \<Rightarrow> nat \<Rightarrow> 'z \<Rightarrow> 'z"
  aop_migrate_folio :: "'f \<Rightarrow> 'f \<Rightarrow> nat \<Rightarrow> 'z \<Rightarrow> int \<times> 'z"
  aop_is_partially_uptodate :: "'f \<Rightarrow> nat \<Rightarrow> nat \<Rightarrow> 'z \<Rightarrow> bool \<times> 'z"
  aop_error_remove_folio :: "'f \<Rightarrow> 'z \<Rightarrow> int \<times> 'z"
  aop_swap_activate :: "'z \<Rightarrow> int \<times> 'z"

text \<open>
  The table of zonefs: four operations are its own, for which \<open>L\<close> and the first three arguments are the
  iomap library; the others are the kernel's, given as the rest of the table \<open>kernel_aops\<close>.
\<close>

definition zonefs_file_aops ::
  "('f \<Rightarrow> 'd iomap_begin \<Rightarrow> 'd zctx \<Rightarrow> int \<times> 'd zctx) \<Rightarrow> ('r \<Rightarrow> 'd iomap_begin \<Rightarrow> 'd zctx \<Rightarrow> 'd zctx) \<Rightarrow>
    ('w \<Rightarrow> iomap \<Rightarrow> (int \<Rightarrow> iomap \<Rightarrow> 'd zctx \<Rightarrow> int + iomap) \<Rightarrow> 'd zctx \<Rightarrow> int \<times> 'd zctx) \<Rightarrow> 'd iomap_lib \<Rightarrow>
    ('f, 'r, 'w, 'd zctx) address_space_operations \<Rightarrow> ('f, 'r, 'w, 'd zctx) address_space_operations"
where
  "zonefs_file_aops iomap_read_folio iomap_readahead iomap_writepages L kernel_aops =
     kernel_aops\<lparr>aop_read_folio := zonefs_read_folio iomap_read_folio,
       aop_readahead := zonefs_readahead iomap_readahead,
       aop_writepages := zonefs_writepages iomap_writepages,
       aop_swap_activate := zonefs_swap_activate L\<rparr>"

text \<open>The operations of \<open>hodo.c\<close>; \<open>Z\<close> is the table of zonefs.\<close>

definition hodo_read_folio :: "('f, 'r, 'w, 'z) address_space_operations \<Rightarrow> 'f \<Rightarrow> 'z \<Rightarrow> int \<times> 'z" where
  "hodo_read_folio Z folio s = aop_read_folio Z folio s"

definition hodo_readahead :: "('f, 'r, 'w, 'z) address_space_operations \<Rightarrow> 'r \<Rightarrow> 'z \<Rightarrow> 'z" where
  "hodo_readahead Z rac s = aop_readahead Z rac s"

definition hodo_writepages :: "('f, 'r, 'w, 'z) address_space_operations \<Rightarrow> 'w \<Rightarrow> 'z \<Rightarrow> int \<times> 'z" where
  "hodo_writepages Z wbc s = aop_writepages Z wbc s"

definition hodo_dirty_folio :: "('f, 'r, 'w, 'z) address_space_operations \<Rightarrow> 'f \<Rightarrow> 'z \<Rightarrow> bool \<times> 'z" where
  "hodo_dirty_folio Z folio s = aop_dirty_folio Z folio s"

definition hodo_release_folio :: "('f, 'r, 'w, 'z) address_space_operations \<Rightarrow> 'f \<Rightarrow> u32 \<Rightarrow> 'z \<Rightarrow> bool \<times> 'z" where
  "hodo_release_folio Z folio gfp_mask s = aop_release_folio Z folio gfp_mask s"

definition hodo_invalidate_folio :: "('f, 'r, 'w, 'z) address_space_operations \<Rightarrow> 'f \<Rightarrow> nat \<Rightarrow> nat \<Rightarrow> 'z \<Rightarrow> 'z" where
  "hodo_invalidate_folio Z folio offset len s = aop_invalidate_folio Z folio offset len s"

definition hodo_migrate_folio :: "('f, 'r, 'w, 'z) address_space_operations \<Rightarrow> 'f \<Rightarrow> 'f \<Rightarrow> nat \<Rightarrow> 'z \<Rightarrow> int \<times> 'z" where
  "hodo_migrate_folio Z dst src mode s = aop_migrate_folio Z dst src mode s"

definition hodo_is_partially_uptodate :: "('f, 'r, 'w, 'z) address_space_operations \<Rightarrow> 'f \<Rightarrow> nat \<Rightarrow> nat \<Rightarrow> 'z \<Rightarrow> bool \<times> 'z" where
  "hodo_is_partially_uptodate Z folio start count s = aop_is_partially_uptodate Z folio start count s"

definition hodo_error_remove_folio :: "('f, 'r, 'w, 'z) address_space_operations \<Rightarrow> 'f \<Rightarrow> 'z \<Rightarrow> int \<times> 'z" where
  "hodo_error_remove_folio Z folio s = aop_error_remove_folio Z folio s"

definition hodo_swap_activate :: "('f, 'r, 'w, 'z) address_space_operations \<Rightarrow> 'z \<Rightarrow> int \<times> 'z" where
  "hodo_swap_activate Z s = aop_swap_activate Z s"

definition hodo_file_aops :: "('f, 'r, 'w, 'z) address_space_operations \<Rightarrow> ('f, 'r, 'w, 'z) address_space_operations" where
  "hodo_file_aops Z =
     \<lparr>aop_read_folio = hodo_read_folio Z,
      aop_readahead = hodo_readahead Z,
      aop_writepages = hodo_writepages Z,
      aop_dirty_folio = hodo_dirty_folio Z,
      aop_release_folio = hodo_release_folio Z,
      aop_invalidate_folio = hodo_invalidate_folio Z,
      aop_migrate_folio = hodo_migrate_folio Z,
      aop_is_partially_uptodate = hodo_is_partially_uptodate Z,
      aop_error_remove_folio = hodo_error_remove_folio Z,
      aop_swap_activate = hodo_swap_activate Z\<rparr>"

lemmas hodo_aop_defs = hodo_read_folio_def hodo_readahead_def hodo_writepages_def hodo_dirty_folio_def hodo_release_folio_def hodo_invalidate_folio_def hodo_migrate_folio_def hodo_is_partially_uptodate_def hodo_error_remove_folio_def hodo_swap_activate_def

text \<open>Under the table of hodo a file has the page cache operations of zonefs; in particular a sequential
  zone file is refused as a swap file.\<close>

lemma hodo_file_aops_eq: "hodo_file_aops Z = Z"
  by (simp add: hodo_file_aops_def fun_eq_iff hodo_aop_defs)

lemma seq_file_no_swap:
  assumes "zonefs_zone_is_seq (c_zone c)"
  shows "aop_swap_activate (hodo_file_aops (zonefs_file_aops rf ra wr L K)) c = (- EINVAL, c)"
  using assms by (simp add: hodo_file_aops_eq zonefs_file_aops_def zonefs_swap_activate_def)

section \<open>Operations of open files and directories\<close>

text \<open>
  The entries of \<open>zonefs_file_operations\<close> and \<open>zonefs_dir_operations\<close> that are functions of the kernel,
  over pipes \<open>'p\<close>, control blocks \<open>'k\<close> and open files \<open>'o\<close>: \<open>iter_file_splice_write\<close>, \<open>iocb_bio_iopoll\<close>,
  \<open>generic_file_llseek\<close> and \<open>generic_read_dir\<close>. The last one only returns \<open>EISDIR\<close>, whatever its arguments.
\<close>

record ('p, 'k, 'o, 'z) kernel_fops =
  fop_splice_write :: "'p \<Rightarrow> 'o \<Rightarrow> int \<Rightarrow> nat \<Rightarrow> u32 \<Rightarrow> 'z \<Rightarrow> int \<times> 'z"
  fop_iopoll :: "'k \<Rightarrow> u32 \<Rightarrow> 'z \<Rightarrow> int \<times> 'z"
  fop_dir_llseek :: "'o \<Rightarrow> int \<Rightarrow> nat \<Rightarrow> 'z \<Rightarrow> int \<times> 'z"
  fop_dir_read :: "'o \<Rightarrow> nat \<Rightarrow> int \<Rightarrow> 'z \<Rightarrow> int \<times> 'z"

definition hodo_file_splice_write ::
  "('p, 'k, 'o, 'z) kernel_fops \<Rightarrow> 'p \<Rightarrow> 'o \<Rightarrow> int \<Rightarrow> nat \<Rightarrow> u32 \<Rightarrow> 'z \<Rightarrow> int \<times> 'z"
where
  "hodo_file_splice_write Z pipe out ppos len flags s = fop_splice_write Z pipe out ppos len flags s"

definition hodo_file_iocb_bio_iopoll :: "('p, 'k, 'o, 'z) kernel_fops \<Rightarrow> 'k \<Rightarrow> u32 \<Rightarrow> 'z \<Rightarrow> int \<times> 'z" where
  "hodo_file_iocb_bio_iopoll Z iocb flags s = fop_iopoll Z iocb flags s"

definition hodo_dir_llseek :: "('p, 'k, 'o, 'z) kernel_fops \<Rightarrow> 'o \<Rightarrow> int \<Rightarrow> nat \<Rightarrow> 'z \<Rightarrow> int \<times> 'z" where
  "hodo_dir_llseek Z filp offset whence s = fop_dir_llseek Z filp offset whence s"

definition hodo_read_dir :: "('p, 'k, 'o, 'z) kernel_fops \<Rightarrow> 'o \<Rightarrow> nat \<Rightarrow> int \<Rightarrow> 'z \<Rightarrow> int \<times> 'z" where
  "hodo_read_dir Z file count pos s = fop_dir_read Z file count pos s"

end
