(* ===== verification/Hodo_Unlink.thy ===== *)
theory Hodo_Unlink
  imports Hodo_Vfs
begin

text \<open>
  What \<open>hodo_unlink\<close> of \<open>hodo.c\<close> does to the store and to the directory. After it has erased the
  table entry of the file and written the inode back under its number, the mapping is no longer
  well formed: a block that no entry points to is marked valid, and the entry of the number
  points to a block that may carry another one. The rest of the operation, which only uses the
  numbers of the directory, runs as it would on a well-formed mapping without that entry; the
  lemmas on \<open>alike\<close> states show this.
\<close>

section \<open>The target\<close>

text \<open>The state after the target's part: the number points to the position at the write pointer, where the
  written bytes are, and its raw bit is clear.\<close>

definition target_erased ::
  "('z \<Rightarrow> bool) \<Rightarrow> ('z \<Rightarrow> nat \<Rightarrow> bytes) \<Rightarrow> string \<Rightarrow> u32 \<Rightarrow> bytes \<Rightarrow> 'z hodo_state \<Rightarrow> 'z hodo_state \<Rightarrow> bool"
where
  "target_erased zinv zdata mnt t buf s s' \<longleftrightarrow>
     (let m = mapping_info s; m' = mapping_info s' in
      zinv (zonefs s') \<and> config_ok mnt s' \<and> zdata (zonefs s') = placed (zdata (zonefs s)) (wp m) buf \<and>
      mapping_table m' = (mapping_table m)(table_index m t := wp m) \<and>
      starting_logical_number m' = starting_logical_number m \<and> wp m' = next_pos (wp m) \<and>
      (\<forall>j. lbit m' j \<longleftrightarrow> lbit m j \<and> j \<noteq> unat t))"

context zone_store
begin

lemma unlink_target_ok:
  assumes ok: "store_ok zinv zdata mnt s" and c: "contents zdata s t = Some b" and t: "unat t < NUMBER_MAPPING_TABLE_ENTRY"
    and e: "zdata (zonefs s) 0 = []" and room: "wp_room zdata Z s 1" and st: "length (k_stack K 6) = 4096"
  obtains s' where "unlink_target K t s = Some s'"
    "contents zdata s' t = Some (stamped t (hi_set_nlink 0 (k_stack K 6)))"
    "gvalid (mapping_info s') (mapping_table (mapping_info s) (table_index (mapping_info s) t))"
    "target_erased zinv zdata mnt t (stamped t (hi_set_nlink 0 (k_stack K 6))) s s'"
proof -
  let ?m = "mapping_info s" and ?i = "table_index (mapping_info s) t" and ?p = "wp (mapping_info s)"
  let ?q = "(mapping_table ?m ?i)\<lparr>zone_id := 0\<rparr>" and ?buf = "stamped t (hi_set_nlink 0 (k_stack K 6))"
  have mok: "mapping_ok (zdata (zonefs s)) ?m" and cfg: "config_ok mnt s" "zinv (zonefs s)"
    using ok by (simp_all add: store_ok_def)
  have lv: "live ?m ?i" using c by (auto simp: contents_def lookup_def split: if_splits)
  then have i: "?i < NUMBER_MAPPING_TABLE_ENTRY" by (simp add: live_def)
  note old = mapping_ok_entryD [OF mok lv]
  have wpe: "at_end zdata s ?p" using room by (simp add: wp_room_def)
  have t32: "unat t div 32 < NUMBER_MAPPING_TABLE_ENTRY div 32"
    using t by (simp add: NUMBER_MAPPING_TABLE_ENTRY_eq)
  obtain m1 where m1: "hodo_erase_table_entry t ?m = Some m1"
    using i t32 by (simp add: hodo_erase_table_entry_def table_index_def hodo_unset_logical_bitmap_def Let_def)
  note f1 = hodo_erase_table_entry_effect [OF m1, folded table_index_def]
  let ?s1 = "s\<lparr>mapping_info := m1\<rparr>"
  have idx1: "table_index m1 t = ?i" by (simp add: table_index_def f1(5))
  have cfg1: "config_ok mnt ?s1" using cfg(1) by (simp add: config_ok_def)
  have z0: "unat (zone_id ?q) = 0" "(0 :: nat) < ZONE_FILES" by (simp_all add: const_simps)
  obtain z1 where z1: "hodo_zone_read K 0 (pos_off ?q) (k_stack K 6) HODO_DATABLOCK_SIZE ?s1 =
      Some (0, k_stack K 6, ?s1\<lparr>zonefs := z1\<rparr>)" "zinv z1" "zdata z1 = zdata (zonefs s)"
    using zone_read_eof [of ?s1 0 "pos_off ?q" "k_stack K 6" HODO_DATABLOCK_SIZE] cfg cfg1 e z0(2) by auto
  have rd: "hodo_read_struct K t (k_stack K 6) HODO_DATABLOCK_SIZE ?s1 = Some (0, k_stack K 6, ?s1\<lparr>zonefs := z1\<rparr>)"
    using z1(1) i f1(1) by (simp add: hodo_read_struct_def read_table_def idx1 HODO_DATABLOCK_SIZE_def)
  have p: "unat (zone_id ?p) < NUMBER_ZONES" "zone_id ?p \<noteq> 0" using wpe by (simp_all add: at_end_def const_simps)
  obtain m2 where m2: "hodo_set_GC_bitmap ?p m1 = Some m2" using GC_bitmap_defined(1) [OF p(1)] by blast
  have "unat (zone_id ?q) < NUMBER_ZONES" by (simp add: NUMBER_ZONES_def)
  then obtain m3 where m3: "hodo_unset_GC_bitmap ?q m2 = Some m3" using GC_bitmap_defined(2) by blast
  note f2 = set_GC_frame [OF m2] and f3 = unset_GC_frame [OF m3]
  define m4 where "m4 = m3\<lparr>mapping_table := (mapping_table m3)(?i := ?p)\<rparr>"
  have idx: "table_index m2 t = ?i" "table_index m3 t = ?i" by (simp_all add: table_index_def f1 f2 f3)
  have tb: "mapping_table m2 ?i = ?q" using f1(1) f2(1) by simp
  have lb: "length ?buf = 4096" using st by (simp add: length_stamped length_simps)
  let ?s2 = "?s1\<lparr>zonefs := z1\<rparr>\<lparr>mapping_info := m4\<rparr>"
  have e2: "at_end zdata ?s2 ?p" using wpe z1(3) by (simp add: at_end_def)
  obtain z2 where z2: "hodo_zone_write K (unat (zone_id ?p)) (pos_off ?p) ?buf ?s2 = Some (Inr 4096, ?s2\<lparr>zonefs := z2\<rparr>)"
    "zdata z2 = placed (zdata (zonefs s)) ?p ?buf" "zinv z2"
    using zone_append [of ?s2 ?p ?buf] z1(2,3) cfg(1) e2 lb by (auto simp: config_ok_def)
  let ?s3 = "?s2\<lparr>zonefs := z2\<rparr>\<lparr>mapping_info := advance_wp (pos_off ?p) 4096 ZONE_SIZE m4\<rparr>"
  have t0: "t \<noteq> 0" using number_of_nonzero [OF mok i] by (simp add: number_of_table_index)
  have wr: "hodo_write_struct K (hi_set_nlink 0 (k_stack K 6)) HODO_DATABLOCK_SIZE t (?s1\<lparr>zonefs := z1\<rparr>) =
      Some (4096, ?buf, t, ?s3)"
    using m2 m3 z2(1) lb t0 i idx tb cfg(1)
    by (simp add: hodo_write_struct_def assign_number_def read_table_def write_table_def Let_def HODO_DATABLOCK_SIZE_def
        f1(4) m4_def [symmetric] config_ok_def flip: stamped_def)
  have adv: "mapping_table (advance_wp a n z m) = mapping_table m"
    "starting_logical_number (advance_wp a n z m) = starting_logical_number m" "gvalid (advance_wp a n z m) = gvalid m"
    for a n z m by (simp_all add: advance_wp_def)
  have t3: "mapping_table (mapping_info ?s3) ?i = ?p" "table_index (mapping_info ?s3) t = ?i"
    by (simp_all add: adv m4_def table_index_def f1 f2 f3)
  have pb: "blk (placed (zdata (zonefs s)) ?p ?buf) ?p = ?buf"
    using wpe lb by (intro placed_blk(2)) (simp_all add: at_end_def)
  have "contents zdata ?s3 t = Some ?buf"
    using t3 p(2) i pb by (simp add: contents_def lookup_def live_def z2(2))
  moreover have "gvalid (mapping_info ?s3) (mapping_table ?m ?i)"
  proof -
    have "mapping_table ?m ?i \<noteq> ?q" using old(1) by (metis hodo_block_pos.select_convs(1) hodo_block_pos.surjective hodo_block_pos.update_convs(1))
    moreover have "gvalid m1 = gvalid ?m" by (simp add: gvalid_def gbit_def fun_eq_iff f1(3))
    ultimately have "gvalid m3 (mapping_table ?m ?i)"
      using old(4) set_GC_gvalid [OF m2] unset_GC_gvalid [OF m3] by simp
    then show ?thesis by (simp add: adv m4_def)
  qed
  moreover have "target_erased zinv zdata mnt t ?buf s ?s3"
  proof -
    have "wp m4 = ?p" by (simp add: m4_def f1 f2 f3)
    then have "advance_wp (pos_off ?p) 4096 ZONE_SIZE m4 = m4\<lparr>wp := next_pos ?p\<rparr>" by (rule advance_wp_eq)
    moreover have "mapping_table m4 = (mapping_table ?m)(?i := ?p)" by (simp add: m4_def f1(1) f2 f3)
    ultimately show ?thesis
      using z2(2,3) cfg(1) f1(2)
      by (simp add: target_erased_def Let_def config_ok_def m4_def f1(5) f2 f3)
  qed
  moreover have "unlink_target K t s = Some ?s3" using m1 rd wr by (simp add: unlink_target_def)
  ultimately show thesis using that by blast
qed

end

section \<open>States that differ in one entry of the table and in the bitmaps\<close>

definition alike :: "nat \<Rightarrow> 'z hodo_state \<Rightarrow> 'z hodo_state \<Rightarrow> bool" where
  "alike i s u \<longleftrightarrow>
     u = s\<lparr>mapping_info := mapping_info u\<rparr> \<and> wp (mapping_info u) = wp (mapping_info s) \<and>
     starting_logical_number (mapping_info u) = starting_logical_number (mapping_info s) \<and>
     zone_id (mapping_table (mapping_info u) i) = 0 \<and>
     (\<forall>j. j \<noteq> i \<longrightarrow> mapping_table (mapping_info u) j = mapping_table (mapping_info s) j)"

text \<open>The number has no entry in the second. What the operations leave alone in the first of the two.\<close>

definition keeps_entry :: "nat \<Rightarrow> 'z hodo_state \<Rightarrow> 'z hodo_state \<Rightarrow> bool" where
  "keeps_entry i s s' \<longleftrightarrow>
     mapping_table (mapping_info s') i = mapping_table (mapping_info s) i \<and>
     starting_logical_number (mapping_info s') = starting_logical_number (mapping_info s) \<and>
     logical_entry_bitmap (mapping_info s') = logical_entry_bitmap (mapping_info s)"

definition other_number :: "nat \<Rightarrow> 'z hodo_state \<Rightarrow> u32 \<Rightarrow> bool" where
  "other_number i s l \<longleftrightarrow> l \<noteq> 0 \<and> table_index (mapping_info s) l \<noteq> i"

lemma keeps_entry_refl [simp]: "keeps_entry i s s"
  by (simp add: keeps_entry_def)

lemma keeps_entry_trans: "keeps_entry i s s' \<Longrightarrow> keeps_entry i s' s'' \<Longrightarrow> keeps_entry i s s''"
  by (simp add: keeps_entry_def)

lemma keeps_entry_other: "keeps_entry i s s' \<Longrightarrow> other_number i s' l \<longleftrightarrow> other_number i s l"
  by (simp add: keeps_entry_def other_number_def table_index_def)

lemma alikeD:
  assumes "alike i s u"
  shows "zonefs u = zonefs s" "mount_point_path u = mount_point_path s" "hodo_zone_size u = hodo_zone_size s"
    "wp (mapping_info u) = wp (mapping_info s)" "table_index (mapping_info u) = table_index (mapping_info s)"
    "j \<noteq> i \<Longrightarrow> mapping_table (mapping_info u) j = mapping_table (mapping_info s) j"
proof -
  have u: "u = s\<lparr>mapping_info := mapping_info u\<rparr>" using assms by (simp add: alike_def)
  show "zonefs u = zonefs s" by (subst u) simp
  show "mount_point_path u = mount_point_path s" by (subst u) simp
  show "hodo_zone_size u = hodo_zone_size s" by (subst u) simp
qed (use assms in \<open>auto simp: alike_def table_index_def fun_eq_iff\<close>)

text \<open>Zone files are reached without the mapping.\<close>

lemma zone_read_mapping:
  "hodo_zone_read K z off b len (s\<lparr>mapping_info := m\<rparr>) =
     map_option (\<lambda>(r, b', s'). (r, b', s'\<lparr>mapping_info := m\<rparr>)) (hodo_zone_read K z off b len s)"
  by (cases "hodo_zone_path (mount_point_path s) z")
    (simp_all add: hodo_zone_read_def split: prod.splits sum.splits)

lemma zone_read_keeps: "hodo_zone_read K z off b len s = Some (r, b', s') \<Longrightarrow> mapping_info s' = mapping_info s"
  by (cases "hodo_zone_path (mount_point_path s) z")
    (auto simp: hodo_zone_read_def split: prod.splits sum.splits)

lemma zone_write_mapping:
  "hodo_zone_write K z off b (s\<lparr>mapping_info := m\<rparr>) =
     map_option (\<lambda>(r, s'). (r, s'\<lparr>mapping_info := m\<rparr>)) (hodo_zone_write K z off b s)"
  by (cases "hodo_zone_path (mount_point_path s) z")
    (simp_all add: hodo_zone_write_def split: prod.splits sum.splits)

lemma zone_write_keeps: "hodo_zone_write K z off b s = Some (r, s') \<Longrightarrow> mapping_info s' = mapping_info s"
  by (cases "hodo_zone_path (mount_point_path s) z")
    (auto simp: hodo_zone_write_def split: prod.splits sum.splits)

section \<open>The operations on both\<close>

lemma alike_read:
  assumes "alike i s u" "other_number i s l" "hodo_read_struct K l b len u = Some (r, b', u')"
  obtains s' where "hodo_read_struct K l b len s = Some (r, b', s')" "alike i s' u'" "keeps_entry i s s'"
proof -
  note A = alikeD [OF assms(1)]
  have u: "u = s\<lparr>mapping_info := mapping_info u\<rparr>" using assms(1) by (simp add: alike_def)
  have p: "read_table (mapping_info u) l = read_table (mapping_info s) l"
    using assms(2) A(5,6) by (simp add: read_table_def other_number_def)
  show thesis
  proof (cases "len = 0 \<or> HODO_DATABLOCK_SIZE < len")
    case True
    then show thesis using that [of s] assms p by (auto simp: hodo_read_struct_def bind_eq_Some_conv)
  next
    case False
    then obtain q where q: "read_table (mapping_info s) l = Some q"
      "hodo_zone_read K (unat (zone_id q)) (pos_off q) b len u = Some (r, b', u')"
      using assms(3) p by (auto simp: hodo_read_struct_def bind_eq_Some_conv)
    then obtain s' where s': "hodo_zone_read K (unat (zone_id q)) (pos_off q) b len s = Some (r, b', s')"
      "u' = s'\<lparr>mapping_info := mapping_info u\<rparr>"
      by (subst (asm) (2) u) (auto simp: zone_read_mapping)
    have m: "mapping_info s' = mapping_info s" using s'(1) by (rule zone_read_keeps)
    have "alike i s' u'" using assms(1) s'(2) m by (simp add: alike_def)
    moreover have "keeps_entry i s s'" using m by (simp add: keeps_entry_def)
    ultimately show thesis using that [of s'] s'(1) q(1) False by (simp add: hodo_read_struct_def)
  qed
qed

text \<open>The steps of a write under a given number.\<close>

lemma write_struct_SomeD:
  assumes run: "hodo_write_struct K b len l u = Some (r, b', l', u')" and len: "\<not> (len = 0 \<or> HODO_DATABLOCK_SIZE < len)"
    and l: "l \<noteq> 0"
  obtains n1 q n2 n3 w u1 where "hodo_set_GC_bitmap (wp (mapping_info u)) (mapping_info u) = Some n1"
    "read_table n1 l = Some q" "hodo_unset_GC_bitmap q n1 = Some n2" "write_table l (wp (mapping_info u)) n2 = Some n3"
    "hodo_zone_write K (unat (zone_id (wp (mapping_info u)))) (pos_off (wp (mapping_info u))) (take len (stamped l b))
       (u\<lparr>mapping_info := n3\<rparr>) = Some (w, u1)"
    "(case w of Inl e \<Rightarrow> Some (e, stamped l b, l, u1)
      | Inr ret \<Rightarrow> Some (ret, stamped l b, l, u1\<lparr>mapping_info :=
          advance_wp (pos_off (wp (mapping_info u))) len (hodo_zone_size u1) (mapping_info u1)\<rparr>)) = Some (r, b', l', u')"
proof -
  let ?p = "wp (mapping_info u)"
  note R = run [unfolded hodo_write_struct_def assign_number_def Let_def if_not_P [OF len] if_not_P [OF l], folded stamped_def]
  obtain n1 where n1: "hodo_set_GC_bitmap ?p (mapping_info u) = Some n1"
    using R by (cases "hodo_set_GC_bitmap ?p (mapping_info u)") simp_all
  obtain q where q: "read_table n1 l = Some q" using R n1 by (cases "read_table n1 l") simp_all
  obtain n2 where n2: "hodo_unset_GC_bitmap q n1 = Some n2" using R n1 q by (cases "hodo_unset_GC_bitmap q n1") simp_all
  obtain n3 where n3: "write_table l ?p n2 = Some n3" using R n1 q n2 by (cases "write_table l ?p n2") simp_all
  obtain w u1 where w: "hodo_zone_write K (unat (zone_id ?p)) (pos_off ?p) (take len (stamped l b)) (u\<lparr>mapping_info := n3\<rparr>) = Some (w, u1)"
    using R n1 q n2 n3
    by (cases "hodo_zone_write K (unat (zone_id ?p)) (pos_off ?p) (take len (stamped l b)) (u\<lparr>mapping_info := n3\<rparr>)") auto
  show thesis by (rule that [OF n1 q n2 n3 w]) (use R n1 q n2 n3 w in simp)
qed

lemma alike_write:
  assumes "alike i s u" "other_number i s l" "hodo_write_struct K b len l u = Some (r, b', l', u')"
  obtains s' where "hodo_write_struct K b len l s = Some (r, b', l', s')" "alike i s' u'" "keeps_entry i s s'" "l' = l"
proof -
  note A = alikeD [OF assms(1)]
  let ?m = "mapping_info s" and ?n = "mapping_info u" and ?p = "wp (mapping_info s)" and ?j = "table_index (mapping_info s) l"
  have u: "u = s\<lparr>mapping_info := ?n\<rparr>" using assms(1) by (simp add: alike_def)
  have l: "l \<noteq> 0" "?j \<noteq> i" using assms(2) by (simp_all add: other_number_def)
  show thesis
  proof (cases "len = 0 \<or> HODO_DATABLOCK_SIZE < len")
    case True
    then show thesis using that [of s] assms by (auto simp: hodo_write_struct_def Let_def)
  next
    case False
    let ?b = "stamped l b"
    obtain n1 q n2 n3 w u1 where n: "hodo_set_GC_bitmap ?p ?n = Some n1" "read_table n1 l = Some q"
      "hodo_unset_GC_bitmap q n1 = Some n2" "write_table l ?p n2 = Some n3"
      "hodo_zone_write K (unat (zone_id ?p)) (pos_off ?p) (take len ?b) (u\<lparr>mapping_info := n3\<rparr>) = Some (w, u1)"
      "(case w of Inl e \<Rightarrow> Some (e, ?b, l, u1)
        | Inr ret \<Rightarrow> Some (ret, ?b, l, u1\<lparr>mapping_info := advance_wp (pos_off ?p) len (hodo_zone_size u1) (mapping_info u1)\<rparr>)) =
        Some (r, b', l', u')"
      by (rule write_struct_SomeD [OF assms(3) False l(1), unfolded A(4)])
    note f = set_GC_frame [OF n(1)] unset_GC_frame [OF n(3)]
    have z: "unat (zone_id ?p) < NUMBER_ZONES" "unat (zone_id q) < NUMBER_ZONES"
      using n(1,3) by (auto simp: hodo_set_GC_bitmap_def hodo_unset_GC_bitmap_def Let_def split: if_splits)
    obtain m1 where m1: "hodo_set_GC_bitmap ?p ?m = Some m1" using GC_bitmap_defined(1) [OF z(1)] by blast
    obtain m2 where m2: "hodo_unset_GC_bitmap q m1 = Some m2" using GC_bitmap_defined(2) [OF z(2)] by blast
    note g = set_GC_frame [OF m1] unset_GC_frame [OF m2]
    have st: "starting_logical_number ?n = starting_logical_number ?m" using assms(1) by (simp add: alike_def)
    have ix: "table_index n1 l = ?j" "table_index m1 l = ?j" "table_index n2 l = ?j" "table_index m2 l = ?j"
      using st by (simp_all add: table_index_def f g)
    have j: "?j < NUMBER_MAPPING_TABLE_ENTRY" using n(2) ix(1) by (simp add: read_table_def split: if_splits)
    have q: "read_table m1 l = Some q" using n(2) j l(2) A(6) by (simp add: read_table_def ix f g)
    define m3 where "m3 = m2\<lparr>mapping_table := (mapping_table m2)(?j := ?p)\<rparr>"
    have wt: "write_table l ?p m2 = Some m3" "n3 = n2\<lparr>mapping_table := (mapping_table n2)(?j := ?p)\<rparr>"
      using j n(4) by (simp_all add: write_table_def ix m3_def)
    have "u\<lparr>mapping_info := n3\<rparr> = s\<lparr>mapping_info := m3\<rparr>\<lparr>mapping_info := n3\<rparr>" by (subst u) simp
    then have "hodo_zone_write K (unat (zone_id ?p)) (pos_off ?p) (take len ?b) (s\<lparr>mapping_info := m3\<rparr>\<lparr>mapping_info := n3\<rparr>) = Some (w, u1)"
      using n(5) by simp
    then obtain s1 where s1: "hodo_zone_write K (unat (zone_id ?p)) (pos_off ?p) (take len ?b) (s\<lparr>mapping_info := m3\<rparr>) = Some (w, s1)"
      "u1 = s1\<lparr>mapping_info := n3\<rparr>" unfolding zone_write_mapping by auto
    have s1m: "mapping_info s1 = m3" using zone_write_keeps [OF s1(1)] by simp
    let ?adv = "advance_wp (pos_off ?p) len (hodo_zone_size s1)"
    have adv: "mapping_table (?adv x) = mapping_table x" "starting_logical_number (?adv x) = starting_logical_number x"
      "logical_entry_bitmap (?adv x) = logical_entry_bitmap x" "wp x = wp y \<Longrightarrow> wp (?adv x) = wp (?adv y)" for x y
      by (simp_all add: advance_wp_def)
    have w3: "wp n3 = wp m3" using A(4) by (simp add: wt(2) m3_def f g)
    have t3: "mapping_table n3 k = mapping_table m3 k" if "k \<noteq> i" for k
      using A(6) [OF that] by (simp add: wt(2) m3_def f g)
    have st3: "starting_logical_number n3 = starting_logical_number m3" using st by (simp add: wt(2) m3_def f g)
    have e3: "zone_id (mapping_table n3 i) = 0" using assms(1) l(2) by (simp add: alike_def wt(2) f)
    have k3: "mapping_table m3 i = mapping_table ?m i" "starting_logical_number m3 = starting_logical_number ?m"
      "logical_entry_bitmap m3 = logical_entry_bitmap ?m" using l(2) by (simp_all add: m3_def g)
    have run: "hodo_write_struct K b len l s =
        (case w of Inl e \<Rightarrow> Some (e, ?b, l, s1) | Inr ret \<Rightarrow> Some (ret, ?b, l, s1\<lparr>mapping_info := ?adv m3\<rparr>))"
      unfolding hodo_write_struct_def assign_number_def Let_def if_not_P [OF False] if_not_P [OF l(1)] stamped_def [symmetric]
      by (simp add: m1 q m2 wt(1) s1(1) s1m cong: sum.case_cong)
    show thesis
    proof (cases w)
      case (Inl e)
      then have e: "r = e" "b' = ?b" "l' = l" "u' = u1" using n(6) Inl by auto
      have "alike i s1 u'" using w3 t3 st3 e3 s1m s1(2) by (simp add: alike_def e)
      moreover have "keeps_entry i s s1" using k3 s1m by (simp add: keeps_entry_def)
      ultimately show thesis using that [of s1] run Inl by (simp add: e)
    next
      case (Inr ret)
      then have e: "r = ret" "b' = ?b" "l' = l" "u' = s1\<lparr>mapping_info := ?adv n3\<rparr>" using n(6) s1(2) Inr by auto
      have "alike i (s1\<lparr>mapping_info := ?adv m3\<rparr>) u'" using adv(4) [OF w3] t3 st3 e3 by (simp add: alike_def e adv(1,2))
      moreover have "keeps_entry i s (s1\<lparr>mapping_info := ?adv m3\<rparr>)" using k3 by (simp add: keeps_entry_def adv)
      ultimately show thesis using that [of "s1\<lparr>mapping_info := ?adv m3\<rparr>"] run Inr by (simp add: e)
    qed
  qed
qed

lemma alike_remove_block:
  assumes "alike i s u" "other_number i s l" "remove_dirent_from_direct_block K b name l u = Some (r, l', u')"
  obtains s' where "remove_dirent_from_direct_block K b name l s = Some (r, l', s')" "alike i s' u'" "keeps_entry i s s'"
proof (cases "dirent_slot name b")
  case None
  then show thesis using that [of s] assms by (simp add: remove_dirent_from_direct_block_def)
next
  case (Some k)
  let ?c = "compact_bytes (dirent_off k) SIZEOF_DIRENT b"
  obtain tmp w b1 where w: "k_kmalloc K 1 = Some tmp" "hodo_write_struct K (?c tmp) 4096 l u = Some (w, b1, l', u')" "r = 1"
    using assms(3) Some
    by (auto simp: remove_dirent_from_direct_block_def compact_datablock_def bind_eq_Some_conv)
  obtain s' where s': "hodo_write_struct K (?c tmp) 4096 l s = Some (w, b1, l', s')" "alike i s' u'" "keeps_entry i s s'"
    by (rule alike_write [OF assms(1,2) w(2)])
  show thesis
    by (rule that [OF _ s'(2,3)]) (use Some w(1,3) s'(1) in \<open>simp add: remove_dirent_from_direct_block_def compact_datablock_def\<close>)
qed

lemma alike_remove_in_directs:
  assumes "alike i s u" "other_number i s l" "\<forall>k \<in> set ks. hi_direct k hi \<noteq> 0 \<longrightarrow> other_number i s (hi_direct k hi)"
    and "remove_in_directs K name ks hi buf l u = Some (r, hi', l', buf', u')"
  shows "\<exists>s'. remove_in_directs K name ks hi buf l s = Some (r, hi', l', buf', s') \<and> alike i s' u' \<and> keeps_entry i s s'"
  using assms
proof (induction ks arbitrary: buf s u)
  case Nil
  then show ?case by auto
next
  case (Cons k ks)
  let ?l = "hi_direct k hi"
  show ?case
  proof (cases "?l = 0")
    case True
    then show ?thesis using Cons.IH [OF Cons.prems(1,2)] Cons.prems(3,4) by (simp add: is_block_logical_number_valid_def)
  next
    case False
    have o: "other_number i s ?l" using Cons.prems(3) False by simp
    obtain x b u1 where r1: "hodo_read_struct K ?l buf HODO_DATABLOCK_SIZE u = Some (x, b, u1)"
      using Cons.prems(4) False by (cases "hodo_read_struct K ?l buf HODO_DATABLOCK_SIZE u") (auto simp: is_block_logical_number_valid_def)
    obtain y n u2 where r2: "remove_dirent_from_direct_block K b name ?l u1 = Some (y, n, u2)"
      using Cons.prems(4) False r1 by (cases "remove_dirent_from_direct_block K b name ?l u1") (auto simp: is_block_logical_number_valid_def)
    obtain s1 where s1: "hodo_read_struct K ?l buf HODO_DATABLOCK_SIZE s = Some (x, b, s1)" "alike i s1 u1" "keeps_entry i s s1"
      by (rule alike_read [OF Cons.prems(1) o r1])
    have o1: "other_number i s1 ?l" using o keeps_entry_other [OF s1(3)] by simp
    obtain s2 where s2: "remove_dirent_from_direct_block K b name ?l s1 = Some (y, n, s2)" "alike i s2 u2" "keeps_entry i s1 s2"
      by (rule alike_remove_block [OF s1(2) o1 r2])
    have k2: "keeps_entry i s s2" by (rule keeps_entry_trans [OF s1(3) s2(3)])
    note o2 = keeps_entry_other [OF k2]
    show ?thesis
    proof (cases "y = 0")
      case True
      have "remove_in_directs K name ks hi b l u2 = Some (r, hi', l', buf', u')"
        using Cons.prems(4) False True r1 r2 by (simp add: is_block_logical_number_valid_def)
      then have "\<exists>s'. remove_in_directs K name ks hi b l s2 = Some (r, hi', l', buf', s') \<and> alike i s' u' \<and> keeps_entry i s2 s'"
        using Cons.prems(2,3) o2 by (intro Cons.IH [OF s2(2)]) simp_all
      then obtain s' where s': "remove_in_directs K name ks hi b l s2 = Some (r, hi', l', buf', s')" "alike i s' u'" "keeps_entry i s2 s'"
        by blast
      have "remove_in_directs K name (k # ks) hi buf l s = Some (r, hi', l', buf', s')"
        using False True s1(1) s2(1) s'(1) by (simp add: is_block_logical_number_valid_def)
      then show ?thesis using s'(2) keeps_entry_trans [OF k2 s'(3)] by blast
    next
      case yes: False
      let ?h = "removed_inode K (hi_set_direct k n hi)"
      obtain x3 h3 l3 u3 where w3: "hodo_write_struct K ?h HODO_DATABLOCK_SIZE l u2 = Some (x3, h3, l3, u3)"
        using Cons.prems(4) False yes r1 r2
        by (cases "hodo_write_struct K ?h HODO_DATABLOCK_SIZE l u2") (auto simp: is_block_logical_number_valid_def Let_def)
      have o3: "other_number i s2 l" using Cons.prems(2) o2 by simp
      obtain s3 where s3: "hodo_write_struct K ?h HODO_DATABLOCK_SIZE l s2 = Some (x3, h3, l3, s3)" "alike i s3 u3"
        "keeps_entry i s2 s3" "l3 = l"
        by (rule alike_write [OF s2(2) o3 w3])
      obtain x4 where w4: "hodo_write_struct K h3 HODO_DATABLOCK_SIZE l u3 = Some (x4, hi', l', u')" "r = y" "buf' = b"
        using Cons.prems(4) False yes r1 r2 w3 s3(4)
        by (cases "hodo_write_struct K h3 HODO_DATABLOCK_SIZE l u3") (auto simp: is_block_logical_number_valid_def Let_def)
      have o4: "other_number i s3 l" using o3 keeps_entry_other [OF s3(3)] by simp
      obtain s4 where s4: "hodo_write_struct K h3 HODO_DATABLOCK_SIZE l s3 = Some (x4, hi', l', s4)" "alike i s4 u'"
        "keeps_entry i s3 s4"
        by (rule alike_write [OF s3(2) o4 w4(1)])
      have "remove_in_directs K name (k # ks) hi buf l s = Some (r, hi', l', buf', s4)"
        using False yes s1(1) s2(1) s3(1,4) s4(1) w4(2,3) by (simp add: is_block_logical_number_valid_def Let_def)
      moreover have "keeps_entry i s s4" by (rule keeps_entry_trans [OF keeps_entry_trans [OF k2 s3(3)] s4(3)])
      ultimately show ?thesis using s4(2) by blast
    qed
  qed
qed

lemma remove_in_directs_none:
  "remove_in_directs K name ks hi buf l s = Some (r, hi', l', buf', s') \<Longrightarrow> r = 0 \<Longrightarrow> hi' = hi"
proof (induction ks arbitrary: buf s)
  case (Cons k ks)
  let ?l = "hi_direct k hi"
  show ?case
  proof (cases "?l = 0")
    case True
    then show ?thesis using Cons by (simp add: is_block_logical_number_valid_def)
  next
    case False
    obtain x b s1 where r1: "hodo_read_struct K ?l buf HODO_DATABLOCK_SIZE s = Some (x, b, s1)"
      using Cons.prems(1) False by (cases "hodo_read_struct K ?l buf HODO_DATABLOCK_SIZE s") (auto simp: is_block_logical_number_valid_def)
    obtain y n s2 where r2: "remove_dirent_from_direct_block K b name ?l s1 = Some (y, n, s2)"
      using Cons.prems(1) False r1 by (cases "remove_dirent_from_direct_block K b name ?l s1") (auto simp: is_block_logical_number_valid_def)
    have "y = 0" using Cons.prems False r1 r2
      by (auto simp: is_block_logical_number_valid_def Let_def bind_eq_Some_conv split: if_splits)
    then show ?thesis using Cons.IH [of b s2] Cons.prems False r1 r2 by (simp add: is_block_logical_number_valid_def)
  qed
qed simp

text \<open>With no indirect blocks, the whole removal.\<close>

lemma alike_remove_dirent:
  assumes "alike i s u" "other_number i s l" "\<forall>k < 10. hi_direct k hi \<noteq> 0 \<longrightarrow> other_number i s (hi_direct k hi)"
    and "inode_indirects hi = [0, 0, 0]" "remove_dirent K hi name l u = Some (r, hi', l', u')" "r \<noteq> 0"
  obtains s' where "remove_dirent K hi name l s = Some (r, hi', l', s')" "alike i s' u'" "keeps_entry i s s'"
proof -
  obtain buf where buf: "k_kmalloc K 7 = Some buf" using assms(5,6) by (cases "k_kmalloc K 7") (auto simp: remove_dirent_def)
  obtain x h1 l1 b1 u1 where d: "remove_in_directs K name [0..<10] hi buf l u = Some (x, h1, l1, b1, u1)"
    using assms(5) buf by (cases "remove_in_directs K name [0..<10] hi buf l u") (auto simp: remove_dirent_def)
  have "\<exists>s1. remove_in_directs K name [0..<10] hi buf l s = Some (x, h1, l1, b1, s1) \<and> alike i s1 u1 \<and> keeps_entry i s s1"
    by (rule alike_remove_in_directs [OF assms(1,2) _ d]) (use assms(3) in simp)
  then obtain s1 where s1: "remove_in_directs K name [0..<10] hi buf l s = Some (x, h1, l1, b1, s1)" "alike i s1 u1" "keeps_entry i s s1"
    by blast
  have "x \<noteq> 0"
  proof
    assume z: "x = 0"
    have "h1 = hi" using remove_in_directs_none [OF d z] .
    then have "remove_dirent K hi name l u = Some (0, h1, l1, u1)"
      using buf d z assms(4) by (simp add: remove_dirent_def is_block_logical_number_valid_def)
    then show False using assms(5,6) by simp
  qed
  then have "hi' = h1" "l' = l1" "u' = u1" "r = x" using assms(5) buf d by (simp_all add: remove_dirent_def)
  then show thesis using that [of s1] s1 buf \<open>x \<noteq> 0\<close> by (simp add: remove_dirent_def)
qed

section \<open>The operation\<close>

text \<open>The well-formed store that the rest of the operation cannot tell from the one it runs on: the number has
  no entry, its old block is not marked valid, and the bitmap of numbers is the old one.\<close>

lemma erased_shadow:
  assumes ok: "store_ok zinv zdata mnt s" and c: "contents zdata s t = Some b" and room: "wp_room zdata Z s (Suc n)"
    and er: "target_erased zinv zdata mnt t buf s s'" and len: "length buf = 4096"
  obtains u where "store_ok zinv zdata mnt u" "alike (table_index (mapping_info s) t) s' u"
    "contents zdata u = (contents zdata s)(t := None)" "wp_room zdata Z u n"
proof -
  let ?m = "mapping_info s" and ?i = "table_index (mapping_info s) t" and ?p = "wp (mapping_info s)"
  let ?D = "zdata (zonefs s)" and ?old = "mapping_table (mapping_info s) (table_index (mapping_info s) t)"
  have mok: "mapping_ok ?D ?m" using ok by (simp add: store_ok_def)
  note E = er [unfolded target_erased_def Let_def]
  have lv: "live ?m ?i" using c by (auto simp: contents_def lookup_def split: if_splits)
  note inv = mapping_ok_entryD [OF mok]
  have "unat (zone_id ?old) < NUMBER_ZONES" using inv(2) [OF lv] by (simp add: const_simps)
  then obtain m1 where m1: "hodo_unset_GC_bitmap ?old ?m = Some m1" using GC_bitmap_defined(2) by blast
  note f = unset_GC_frame [OF m1] and gv = unset_GC_gvalid [OF m1]
  define n1 where "n1 = m1\<lparr>mapping_table := (mapping_table ?m)(?i := ?old\<lparr>zone_id := 0\<rparr>), wp := next_pos ?p\<rparr>"
  let ?u = "s'\<lparr>mapping_info := n1\<rparr>"
  have n1: "mapping_table n1 = (mapping_table ?m)(?i := ?old\<lparr>zone_id := 0\<rparr>)" "wp n1 = next_pos ?p"
    "starting_logical_number n1 = starting_logical_number ?m" "lbit n1 = lbit ?m" "gvalid n1 q \<longleftrightarrow> gvalid ?m q \<and> q \<noteq> ?old" for q
    using f gv by (simp_all add: n1_def)
  have idx: "table_index n1 = table_index ?m" "number_of n1 = number_of ?m"
    using n1(3) by (simp_all add: table_index_def number_of_def fun_eq_iff)
  have live: "live n1 j \<longleftrightarrow> live ?m j \<and> j \<noteq> ?i" for j by (auto simp: live_def n1(1))
  have e: "at_end zdata s ?p" using room by (simp add: wp_room_def)
  note pl = placed_blk [where D = ?D and p = ?p and buf = buf, OF _ len]
  have pe: "pos_off ?p = length (?D (unat (zone_id ?p)))" using e by (simp add: at_end_def)
  have ent: "entry_ok (placed ?D ?p buf) n1 j" if "live n1 j" for j
  proof -
    have j: "live ?m j" "j \<noteq> ?i" using that live by simp_all
    have "mapping_table ?m j \<noteq> ?old" using live_unique [OF mok j(1) lv] j(2) by blast
    then show ?thesis using inv [OF j(1)] pl [OF pe] j(2) by (simp add: entry_ok_def Let_def n1 idx)
  qed
  have marks: "\<exists>j. live n1 j \<and> mapping_table n1 j = q"
    if g: "zone_id q \<noteq> 0" "unat (zone_id q) < ZONE_FILES" "gvalid n1 q" for q
  proof -
    have q: "gvalid ?m q" "q \<noteq> ?old" using g(3) n1(5) by simp_all
    obtain j where j: "live ?m j" "mapping_table ?m j = q" by (rule mapping_ok_markD [OF mok q(1) g(1,2)])
    then have "j \<noteq> ?i" using q(2) by blast
    then show ?thesis using j live n1(1) by auto
  qed
  have "mapping_ok (placed ?D ?p buf) n1"
    using ent marks mapping_ok_startD [OF mok] n1(3) by (intro mapping_okI) simp_all
  then have "store_ok zinv zdata mnt ?u" using E by (simp add: store_ok_def config_ok_def)
  moreover have "alike ?i s' ?u" using E n1 by (simp add: alike_def)
  moreover have "contents zdata ?u = (contents zdata s)(t := None)"
  proof
    fix l
    show "contents zdata ?u l = ((contents zdata s)(t := None)) l"
    proof (cases "l = t")
      case False
      then have "table_index ?m l \<noteq> ?i" by (metis number_of_table_index)
      then show ?thesis using False live n1(1) inv(3) pl(4) [OF pe] E by (auto simp: contents_def lookup_def idx)
    qed (simp add: contents_def lookup_def idx live)
  qed
  moreover have "wp_room zdata Z ?u n"
    by (rule wp_room_next [OF room _ _ len]) (use E n1(2) in simp_all)
  ultimately show thesis by (rule that)
qed

lemma mapped_other_number:
  assumes "mapping_ok (zdata (zonefs s)) (mapping_info s)" "contents zdata s l \<noteq> None" "l \<noteq> t"
    and "starting_logical_number (mapping_info s') = starting_logical_number (mapping_info s)"
  shows "other_number (table_index (mapping_info s) t) s' l"
proof -
  have "l \<noteq> 0" using num_ok_live [OF assms(1,2)] by (simp add: num_ok_def)
  moreover have "table_index (mapping_info s) l \<noteq> table_index (mapping_info s) t"
    using assms(3) by (metis number_of_table_index)
  ultimately show ?thesis using assms(4) by (simp add: other_number_def table_index_def)
qed

lemma inode_ok_erased:
  assumes "inode_ok C dl hi" "t \<notin> insert dl (set (inode_directs hi))"
  shows "inode_ok (C(t := None)) dl hi" "dir_view (C(t := None)) hi = dir_view C hi"
proof -
  show "inode_ok (C(t := None)) dl hi"
    using assms by (auto simp: inode_ok_def directs_mapped_def)
  show "dir_view (C(t := None)) hi = dir_view C hi"
    using assms(2) by (auto simp: dir_view_def)
qed

lemma remove_from_view_cong:
  "(\<And>j. i \<le> j \<Longrightarrow> j < i + length v \<Longrightarrow> f j = g j) \<Longrightarrow> remove_from_view name f i v = remove_from_view name g i v"
proof (induction name f i v rule: remove_from_view.induct)
  case (2 name f i v)
  then show ?case by simp
next
  case (3 name f i ds v)
  then have "f i = g i" by simp
  then show ?case using 3 by (simp split: option.splits)
qed simp

context zone_store
begin

lemma unlink_ok:
  assumes ok: "store_ok zinv zdata mnt s" and c: "contents zdata s t = Some b" and t: "unat t < NUMBER_MAPPING_TABLE_ENTRY"
    and e: "zdata (zonefs s) 0 = []" and room: "wp_room zdata Z s 4"
    and st: "length (k_stack K 6) = 4096" "length (k_stack K 7) = 4096"
    and tmp: "k_kmalloc K 1 = Some tmp" "length tmp = 4096" and now: "length (k_now K) = 16"
    and buf: "k_kmalloc K 7 = Some buf" "length buf = 4096"
    and dir: "inode_ok (contents zdata s) dl hi" and tn: "t \<notin> insert dl (set (inode_directs hi))"
    and nz: "\<not> is_zone_dir (d_parent_name d)" and vi: "d_inode d = Some vi" "ucast (vi_ino vi) = t"
    and dl: "dir_number is_root (vi_ino dv) s = dl"
    and rem: "remove_from_view (name16 d) (\<lambda>j. last_slot tmp (the (contents zdata s (hi_direct j hi)))) 0
      (dir_view (contents zdata s) hi) = Some v"
  obtains s' hi' where "hodo_unlink K is_root dv d s = Some (0, (touch K dv)\<lparr>vi_size := vi_size dv - 1\<rparr>, s')"
    "contents zdata s' dl = Some hi'" "dir_view (contents zdata s') hi' = v" "hi_file_len hi' = hi_file_len hi - 1"
    "contents zdata s' t = Some (stamped t (hi_set_nlink 0 (k_stack K 6)))"
    "\<forall>l. contents zdata s l \<noteq> None \<and> l \<noteq> t \<and> l \<noteq> dl \<and> l \<notin> set (inode_directs hi) \<longrightarrow> contents zdata s' l = contents zdata s l"
    "\<forall>j. lbit (mapping_info s') j \<longleftrightarrow> lbit (mapping_info s) j \<and> j \<noteq> unat t"
proof -
  let ?buf = "stamped t (hi_set_nlink 0 (k_stack K 6))" and ?i = "table_index (mapping_info s) t" and ?p = "wp (mapping_info s)"
  let ?C = "contents zdata s"
  have room1: "wp_room zdata Z s 1" by (rule wp_room_mono [OF room]) simp
  have room4: "wp_room zdata Z s (Suc (3 + 0))" using room by simp
  obtain s1 where s1: "unlink_target K t s = Some s1" "target_erased zinv zdata mnt t ?buf s s1"
    by (rule unlink_target_ok [OF ok c t e room1 st(1)])
  have lb: "length ?buf = 4096" using st(1) by (simp add: length_stamped length_simps)
  obtain u1 where u1: "store_ok zinv zdata mnt u1" "alike ?i s1 u1" "contents zdata u1 = ?C(t := None)" "wp_room zdata Z u1 (3 + 0)"
    by (rule erased_shadow [OF ok c room4 s1(2) lb])
  have mok: "mapping_ok (zdata (zonefs s)) (mapping_info s)" using ok by (simp add: store_ok_def)
  note E = s1(2) [unfolded target_erased_def Let_def]
  have other: "other_number ?i s1 l" if "?C l \<noteq> None" "l \<noteq> t" for l
    by (rule mapped_other_number [OF mok that]) (use E in simp)
  note D = inode_okD [OF dir]
  have odl: "other_number ?i s1 dl" using D(1) tn by (intro other) auto
  have odr: "\<forall>k < 10. hi_direct k hi \<noteq> 0 \<longrightarrow> other_number ?i s1 (hi_direct k hi)"
  proof (intro allI impI)
    fix k assume k: "k < (10 :: nat)" "hi_direct k hi \<noteq> 0"
    have "hi_direct k hi \<in> set (inode_directs hi)"
      using k(1) by (metis inode_directs_nth length_inode_directs nth_mem)
    then show "other_number ?i s1 (hi_direct k hi)" using D(8) [OF k] tn by (intro other) auto
  qed
  note I = inode_ok_erased [OF dir tn]
  have dir1: "inode_ok (contents zdata u1) dl hi" unfolding u1(3) by (rule I(1))
  obtain u2 where u2: "hodo_read_struct K dl (k_stack K 7) HODO_DATABLOCK_SIZE u1 = Some (4096, hi, u2)"
    "same_store zinv zdata u1 u2" "store_ok zinv zdata mnt u2" "contents zdata u2 = contents zdata u1"
    by (rule read_block [OF u1(1) inode_okD(1) [OF dir1] st(2)])
  obtain s2 where s2: "hodo_read_struct K dl (k_stack K 7) HODO_DATABLOCK_SIZE s1 = Some (4096, hi, s2)" "alike ?i s2 u2"
    "keeps_entry ?i s1 s2"
    by (rule alike_read [OF u1(2) odl u2(1)])
  have dir2: "inode_ok (contents zdata u2) dl hi" using dir1 u2(4) by simp
  have room2: "wp_room zdata Z u2 (3 + 0)" using u1(4) same_storeD(3) [OF u2(2)] by simp
  have lst: "remove_from_view (name16 d) (\<lambda>j. last_slot tmp (the (contents zdata u2 (hi_direct j hi)))) 0
      (dir_view (contents zdata u2) hi) = Some v"
  proof -
    have "the (?C (hi_direct j hi)) = the ((?C(t := None)) (hi_direct j hi))" if "j < 10" for j
      using that tn inode_directs_nth [OF that, of hi] by (metis fun_upd_other insertCI length_inode_directs nth_mem)
    then have "remove_from_view (name16 d) (\<lambda>j. last_slot tmp (the ((?C(t := None)) (hi_direct j hi)))) 0 (dir_view ?C hi) =
        remove_from_view (name16 d) (\<lambda>j. last_slot tmp (the (?C (hi_direct j hi)))) 0 (dir_view ?C hi)"
      by (intro remove_from_view_cong) simp
    then show ?thesis unfolding u2(4) u1(3) I(2) using rem by simp
  qed
  obtain u0 u3 hi' n j b' where u3: "remove_dirent K hi (name16 d) dl u2 = Some (1, hi', dl, u3)"
    "same_store zinv zdata u2 u0" "inode_updated zinv zdata mnt dl hi j b' n u0 hi' u3"
    "dir_view (contents zdata u3) hi' = v" "hi_file_len hi' = hi_file_len hi - 1"
    using remove_dirent_ok [OF u2(3) dir2 room2 tmp now buf, of "name16 d"] lst by auto
  have ind: "inode_indirects hi = [0, 0, 0]" using D(5-7) by (simp add: inode_indirects_def)
  obtain s3 where s3: "remove_dirent K hi (name16 d) dl s2 = Some (1, hi', dl, s3)" "alike ?i s3 u3" "keeps_entry ?i s2 s3"
    by (rule alike_remove_dirent [OF s2(2) _ _ ind u3(1)]) (use odl odr keeps_entry_other [OF s2(3)] in simp_all)
  have k: "keeps_entry ?i s1 s3" by (rule keeps_entry_trans [OF s2(3) s3(3)])
  have run: "hodo_unlink K is_root dv d s = Some (0, (touch K dv)\<lparr>vi_size := vi_size dv - 1\<rparr>, s3)"
    using nz vi dl s1(1) s2(1) s3(1) by (simp add: hodo_unlink_def Let_def)
  have lv: "live (mapping_info s) ?i" using c by (auto simp: contents_def lookup_def split: if_splits)
  have K: "mapping_table (mapping_info s3) ?i = ?p" "starting_logical_number (mapping_info s3) = starting_logical_number (mapping_info s)"
    "lbit (mapping_info s3) j \<longleftrightarrow> lbit (mapping_info s1) j" for j
    using k E by (simp_all add: keeps_entry_def lbit_def)
  have z: "zonefs u3 = zonefs s3" "zonefs u1 = zonefs s1" using alikeD(1) [OF s3(2)] alikeD(1) [OF u1(2)] .
  have kd: "keeps_disk (zdata (zonefs s1)) (zdata (zonefs s3))"
    using u3(2,3) u2(2) z by (auto simp: inode_updated_def same_store_def)
  have pe: "at_end zdata s ?p" using room by (simp add: wp_room_def)
  have pb: "on_disk (zdata (zonefs s1)) ?p" "blk (zdata (zonefs s1)) ?p = ?buf"
    using E pe lb placed_blk(1,2) [of ?p "zdata (zonefs s)" ?buf] by (simp_all add: at_end_def)
  have idx: "table_index (mapping_info s3) = table_index (mapping_info s)" using K(2) by (simp add: table_index_def fun_eq_iff)
  have ct: "contents zdata s3 t = Some ?buf"
    using lv pe pb kd by (simp add: contents_def lookup_def live_def idx K(1) at_end_def keeps_disk_def)
  have co: "contents zdata s3 l = contents zdata u3 l" if "l \<noteq> t" for l
  proof -
    have ne: "table_index (mapping_info s) l \<noteq> ?i" using that by (metis number_of_table_index)
    show ?thesis using alikeD(5) [OF s3(2)] alikeD(6) [OF s3(2) ne] idx
      by (simp add: contents_def lookup_def live_def z(1))
  qed
  have U: "contents zdata u0 = ?C(t := None)" using same_storeD(2) [OF u3(2)] u2(4) u1(3) by simp
  note upd = u3(3) [unfolded inode_updated_def]
  have dn: "dl \<noteq> t" "t \<notin> set (inode_directs hi)" using tn by auto
  have c1: "contents zdata s3 dl = Some hi'" using co [OF dn(1)] upd inode_okD(1) by auto
  have "contents zdata u3 t = None"
    using s3(2) alikeD(5) [OF s3(2)] idx by (simp add: alike_def contents_def lookup_def live_def)
  moreover have "contents zdata s3 = (contents zdata u3)(t \<mapsto> ?buf)" using co ct by auto
  moreover have "inode_ok (contents zdata u3) dl hi'" using upd by simp
  ultimately have c2: "dir_view (contents zdata s3) hi' = v" using inode_ok_new_block(2) u3(4) by metis
  have c3: "\<forall>l. ?C l \<noteq> None \<and> l \<noteq> t \<and> l \<noteq> dl \<and> l \<notin> set (inode_directs hi) \<longrightarrow> contents zdata s3 l = ?C l"
  proof (intro allI impI)
    fix l assume l: "?C l \<noteq> None \<and> l \<noteq> t \<and> l \<noteq> dl \<and> l \<notin> set (inode_directs hi)"
    then have "l \<noteq> n" using upd U by auto
    then have "contents zdata u3 l = contents zdata u0 l" using upd l by simp
    then show "contents zdata s3 l = ?C l" using co l U by simp
  qed
  have c4: "\<forall>j. lbit (mapping_info s3) j \<longleftrightarrow> lbit (mapping_info s) j \<and> j \<noteq> unat t" using K(3) E by simp
  show thesis by (rule that [OF run c1 c2 u3(5) ct c3 c4])
qed

end

text \<open>C37: \<open>hodo_unlink\<close> erases the table entry of the file and then reads the inode through it. The
  read finds nothing, so what is written back under the number of the removed file is the
  uninitialised automatic object: when the operation has returned 0 and the entry is gone from the
  directory, the number is still mapped, to those bytes. Of the numbers in use, the one whose bit stands at
  the raw number is marked free, not the one of the file. The blocks that belong neither to the
  directory nor to the file are as they were.\<close>

theorem unlink_remaps_number:
  assumes "hodo_ok B L cap zstart dinv zdat mnt s" "room zdat s 4" "zonefs_data zdat (zonefs s) 0 = []"
    and "memory_ok K" "k_kmalloc K 1 = Some tmp"
    and "\<not> is_zone_dir (d_parent_name d)" "d_inode d = Some vi" "t = ucast (vi_ino vi)"
    and "blocks zdat s t \<noteq> None" "unat t < NUMBER_MAPPING_TABLE_ENTRY"
    and "dl = dir_number is_root (vi_ino dir) s" "inode_ok (blocks zdat s) dl hi" "t \<notin> insert dl (set (inode_directs hi))"
    and "remove_from_view (name16 d) (removal_tail tmp (blocks zdat s) hi) 0 (dir_view (blocks zdat s) hi) = Some v"
  shows "\<exists>s' hi'. hodo_unlink (zonefs_kernel B L mnt K) is_root dir d s =
      Some (0, (touch K dir)\<lparr>vi_size := vi_size dir - 1\<rparr>, s') \<and>
    blocks zdat s' dl = Some hi' \<and> dir_view (blocks zdat s') hi' = v \<and> hi_file_len hi' = hi_file_len hi - 1 \<and>
    blocks zdat s' t = Some (stamped t (hi_set_nlink 0 (k_stack K 6))) \<and>
    (\<forall>l. blocks zdat s l \<noteq> None \<and> l \<noteq> t \<and> l \<noteq> dl \<and> l \<notin> set (inode_directs hi) \<longrightarrow> blocks zdat s' l = blocks zdat s l) \<and>
    (\<forall>j. lbit (mapping_info s') j \<longleftrightarrow> lbit (mapping_info s) j \<and> j \<noteq> unat t)"
proof -
  let ?K = "zonefs_kernel B L mnt K"
  obtain b where b: "blocks zdat s t = Some b" using assms(9) by blast
  obtain buf where buf: "k_kmalloc ?K 7 = Some buf" "length buf = 4096" using memory_okD [OF assms(4)] by auto
  have tmp: "k_kmalloc ?K 1 = Some tmp" "length tmp = 4096" using memory_okD [OF assms(4), of 1] assms(5) by auto
  have st: "length (k_stack ?K 6) = 4096" "length (k_stack ?K 7) = 4096" "length (k_now ?K) = 16"
    using assms(4) by (simp_all add: memory_ok_def)
  have rem: "remove_from_view (name16 d) (\<lambda>j. last_slot tmp (the (blocks zdat s (hi_direct j hi)))) 0
      (dir_view (blocks zdat s) hi) = Some v"
    using assms(14) by (simp add: removal_tail_def [abs_def])
  have tch: "touch ?K dir = touch K dir" by (simp add: touch_def)
  obtain s' hi' where r: "hodo_unlink ?K is_root dir d s = Some (0, (touch ?K dir)\<lparr>vi_size := vi_size dir - 1\<rparr>, s')"
    "blocks zdat s' dl = Some hi'" "dir_view (blocks zdat s') hi' = v" "hi_file_len hi' = hi_file_len hi - 1"
    "blocks zdat s' t = Some (stamped t (hi_set_nlink 0 (k_stack ?K 6)))"
    "\<forall>l. blocks zdat s l \<noteq> None \<and> l \<noteq> t \<and> l \<noteq> dl \<and> l \<notin> set (inode_directs hi) \<longrightarrow> blocks zdat s' l = blocks zdat s l"
    "\<forall>j. lbit (mapping_info s') j \<longleftrightarrow> lbit (mapping_info s) j \<and> j \<noteq> unat t"
    by (rule zonefs.unlink_ok [OF assms(1) b assms(10,3,2) st(1,2) tmp st(3) buf assms(12,13,6,7) assms(8) [symmetric]
          assms(11) [symmetric] rem])
  then show ?thesis unfolding tch zonefs_kernel_simps by blast
qed

theorem unlink_remaps_number_witness:
  "\<exists>s s' hi' n vi. demo_ok s \<and> n = 17 \<and> vi_ino vi = ucast n \<and>
     hodo_unlink demo_K False demo_vi (demo_dentry\<lparr>d_inode := Some vi\<rparr>) s =
       Some (0, (touch demo_kernel demo_vi)\<lparr>vi_size := vi_size demo_vi - 1\<rparr>, s') \<and>
     blocks (\<lambda>d. d) s' 16 = Some hi' \<and> blocks (\<lambda>d. d) s' n = Some (stamped n (hi_set_nlink 0 zero_block))"
proof -
  have st: "k_stack demo_K 3 = zero_block" by (simp add: demo_kernel_def)
  have z: "zonefs_ok ram_blk ram_lib ram_cap ram_start ram_inv (\<lambda>d. d) (zonefs demo_state)"
    using mounted_ok by (simp add: demo_state_def)
  obtain s root where s: "demo_ok s" "blocks (\<lambda>d. d) s = [16 \<mapsto> root]" "inode_ok (blocks (\<lambda>d. d) s) 16 root"
    "dir_view (blocks (\<lambda>d. d) s) root = replicate 10 None" "room (\<lambda>d. d) s (BLOCKS_PER_ZONE - 1)"
    "\<And>j. lbit (mapping_info s) j \<longleftrightarrow> j = 0" "starting_logical_number (mapping_info s) = 16"
    "\<And>z. z \<noteq> 1 \<Longrightarrow> zonefs_data (\<lambda>d. d) (zonefs s) z = zonefs_data (\<lambda>d. d) (zonefs demo_state) z"
    using zonefs.hodo_init_fresh [OF z demo_fresh st] by metis
  have e: "zonefs_data (\<lambda>d. d) (zonefs s) 0 = []"
    using s(8) [of 0] by (simp add: demo_state_def zonefs_data_def mounted_fs_def)
  have rm: "room_in (\<lambda>d. d) {0} s (3 + 4)"
    using s(5) e by (auto simp: wp_room_def BLOCKS_PER_ZONE_eq at_end_def unat_eq_zero)
  have fr: "2 \<le> free_numbers s"
  proof -
    have "{1, 2} \<subseteq> {k. k < NUMBER_MAPPING_TABLE_ENTRY \<and> \<not> lbit (mapping_info s) k}"
      unfolding s(6) NUMBER_MAPPING_TABLE_ENTRY_eq by auto
    then have "card {1, 2 :: nat} \<le> free_numbers s" unfolding free_numbers_def by (intro card_mono) simp_all
    then show ?thesis by simp
  qed
  have i: "inode_ok (blocks (\<lambda>d. d) s) (ucast (vi_ino demo_vi)) root" using s(3) by (simp add: demo_vi_def)
  have sl: "has_free_slot (dir_view (blocks (\<lambda>d. d) s) root)" unfolding s(4) by (simp add: has_free_slot_def)
  obtain n h s1 hi where c: "hodo_create demo_K (Some demo_vi) demo_vi demo_dentry 0x1A4 s =
      Some (0, demo_vi\<lparr>vi_size := vi_size demo_vi + 1\<rparr>, created_vinode demo_kernel 0x1A4 n demo_vi, s1)"
    "created_hinode demo_kernel demo_dentry 0x1A4 n h" "blocks (\<lambda>d. d) s n = None" "n \<noteq> 0" "demo_ok s1"
    "blocks (\<lambda>d. d) s1 n = Some h" "inode_ok (blocks (\<lambda>d. d) s1) (ucast (vi_ino demo_vi)) hi"
    "add_to_view (k_stack demo_kernel 1) h (dir_view (blocks (\<lambda>d. d) s) root) = Some (dir_view (blocks (\<lambda>d. d) s1) hi)"
    "n \<notin> set (inode_directs hi)" "room_in (\<lambda>d. d) {0} s1 4"
    by (rule create_ok [OF s(1) i demo_memory rm fr demo_dentry_simps(1) sl]) blast
  have rm': "room_in (\<lambda>d. d) {0} s (Suc 6)" using rm by simp
  have "has_free_number s" using fr by (simp add: has_free_number_iff)
  then obtain m where "hodo_get_next_logical_number (mapping_info s) = Some (ucast (ucast n :: u64), m)"
    using create_number [OF s(1) demo_memory rm' _ demo_dentry_simps(1) c(1)] by auto
  moreover have "hodo_get_next_logical_number (mapping_info s) = Some (16 + of_nat 1, set_lbit 1 (mapping_info s))"
    using next_logical_number_at [of 1 "mapping_info s"] s(6,7) by (simp add: NUMBER_MAPPING_TABLE_ENTRY_eq)
  ultimately have n: "n = 17" by simp
  let ?vi = "created_vinode demo_kernel 0x1A4 n demo_vi" and ?e = "stored_dirent zero_dirent h"
  let ?d = "demo_dentry\<lparr>d_inode := Some (created_vinode demo_kernel 0x1A4 n demo_vi)\<rparr>"
  have r4: "room (\<lambda>d. d) s1 4" "zonefs_data (\<lambda>d. d) (zonefs s1) 0 = []" using c(10) by (simp_all add: wp_room_def)
  have k: "k_kmalloc demo_kernel 1 = Some zero_block" "k_stack demo_kernel 1 = zero_dirent" "k_stack demo_kernel 6 = zero_block"
    by (simp_all add: demo_kernel_def)
  have v: "dir_view (blocks (\<lambda>d. d) s1) hi = Some (new_entries ?e) # replicate 9 None" using c(8) unfolding s(4) k(2) by simp
  have l: "length h = 4096" "unat (hi_name_len h) \<le> 16" using c(2) by (simp_all add: made_hinode_def demo_dentry_def)
  have "stored_name zero_dirent h = name16 demo_dentry"
    by (rule created_stored_name [OF c(2) demo_dentry_simps(1)]; unfold demo_dentry_simps(4); rule demo_dentry_simps(3,5))
  then have nm: "de_name ?e = name16 ?d"
    using stored_dirent_fields(1) [OF _ l(2,1), of zero_dirent] by (simp add: zero_dirent_def SIZEOF_DIRENT_def name16_def)
  have "name_slot (name16 ?d) (new_entries ?e) = Some 0"
    unfolding name_slot_def new_entries_def by (simp add: DIRENT_SLOTS_def upt_conv_Cons nm)
  then have rem: "remove_from_view (name16 ?d) (removal_tail zero_block (blocks (\<lambda>d. d) s1) hi) 0 (dir_view (blocks (\<lambda>d. d) s1) hi) =
      Some (Some (drop_entry 0 (removal_tail zero_block (blocks (\<lambda>d. d) s1) hi 0) (new_entries ?e)) # replicate 9 None)"
    unfolding v by simp
  have p: "\<not> is_zone_dir (d_parent_name ?d)" by (simp add: demo_dentry_def is_zone_dir_def strcmp_eq_def)
  have t: "d_inode ?d = Some ?vi" "n = ucast (vi_ino ?vi)" "blocks (\<lambda>d. d) s1 n \<noteq> None" "unat n < NUMBER_MAPPING_TABLE_ENTRY"
    using c(6) n by (simp_all add: NUMBER_MAPPING_TABLE_ENTRY_eq)
  have dl: "16 = dir_number False (vi_ino demo_vi) s1" by (simp add: dir_number_def demo_vi_def)
  have dr: "inode_ok (blocks (\<lambda>d. d) s1) 16 hi" using c(7) by (simp add: demo_vi_def)
  have tn: "n \<notin> insert 16 (set (inode_directs hi))" using c(9) n by simp
  from unlink_remaps_number [OF c(5) r4 demo_memory k(1) p t dl dr tn rem] show ?thesis
    using c(5) n unfolding k(3) by (metis created_vinode_ino)
qed

end
